(* ===== verification/Prelude.thy ===== *)
theory Prelude
  imports Complex_Main "HOL-Library.AList" "HOL-Library.Char_ord"
    "HOL-Library.List_Lexorder" "HOL-Library.Product_Lexorder"
begin

text \<open>
  The prelude of the development: insertion ordered dictionaries, JSON values, the exceptions
  the modelled code raises, and the optimistic compare and set loop that every store client of
  the program is written with, with the contract a store has to meet.

  A Python dict is an association list in insertion order: \<open>dset\<close> keeps the place of a key
  that is present and appends a new one, as \<open>d[k] = v\<close> does; \<open>dpop\<close> is \<open>d.pop(k, None)\<close>;
  \<open>dget\<close> is \<open>d.get(k)\<close>. Two dicts are equal in Python whatever their order: \<open>dict_eq\<close>.
\<close>

section \<open>Dictionaries\<close>

type_synonym ('k, 'v) dict = "('k \<times> 'v) list"

abbreviation dget :: "('k, 'v) dict \<Rightarrow> 'k \<Rightarrow> 'v option" where
  "dget \<equiv> map_of"

abbreviation dset :: "'k \<Rightarrow> 'v \<Rightarrow> ('k, 'v) dict \<Rightarrow> ('k, 'v) dict" where
  "dset \<equiv> AList.update"

abbreviation dpop :: "'k \<Rightarrow> ('k, 'v) dict \<Rightarrow> ('k, 'v) dict" where
  "dpop \<equiv> AList.delete"

abbreviation dkeys :: "('k, 'v) dict \<Rightarrow> 'k list" where
  "dkeys d \<equiv> map fst d"

abbreviation dvals :: "('k, 'v) dict \<Rightarrow> 'v list" where
  "dvals d \<equiv> map snd d"

abbreviation wf_dict :: "('k, 'v) dict \<Rightarrow> bool" where
  "wf_dict d \<equiv> distinct (map fst d)"

definition dhas :: "('k, 'v) dict \<Rightarrow> 'k \<Rightarrow> bool" where
  "dhas d k \<longleftrightarrow> map_of d k \<noteq> None"

text \<open>\<open>{**a, **b}\<close>: the entries of \<open>b\<close> laid over those of \<open>a\<close>.\<close>

definition dmerge :: "('k, 'v) dict \<Rightarrow> ('k, 'v) dict \<Rightarrow> ('k, 'v) dict" where
  "dmerge a b = foldl (\<lambda>d (k, v). dset k v d) a b"

definition dict_eq :: "('k, 'v) dict \<Rightarrow> ('k, 'v) dict \<Rightarrow> bool" where
  "dict_eq a b \<longleftrightarrow> list_all (\<lambda>k. map_of a k = map_of b k) (map fst a @ map fst b)"

named_theorems dict_simps \<open>lookups in updated, merged and filtered dictionaries\<close>

lemma dict_eq_iff: "dict_eq a b \<longleftrightarrow> map_of a = map_of b"
proof
  assume "dict_eq a b"
  then have eq: "\<And>k. k \<in> set (map fst a @ map fst b) \<Longrightarrow> map_of a k = map_of b k"
    unfolding dict_eq_def list_all_iff by blast
  show "map_of a = map_of b"
  proof
    fix k
    show "map_of a k = map_of b k"
    proof (cases "k \<in> set (map fst a @ map fst b)")
      case True
      then show ?thesis by (rule eq)
    next
      case False
      then have "map_of a k = None" "map_of b k = None"
        by (simp_all add: map_of_eq_None_iff)
      then show ?thesis by simp
    qed
  qed
qed (simp add: dict_eq_def list_all_iff)

lemma dict_eq_refl [simp, intro]: "dict_eq a a"
  by (simp add: dict_eq_iff)

lemma dget_dset [dict_simps]: "dget (dset k v d) k' = (if k' = k then Some v else dget d k')"
  by (simp add: update_conv')

lemma dget_dpop [dict_simps]: "dget (dpop k d) k' = (if k' = k then None else dget d k')"
  by (simp add: delete_conv')

lemma wf_dict_dset [simp, intro]: "wf_dict d \<Longrightarrow> wf_dict (dset k v d)"
  by (rule distinct_update)

lemma wf_dict_dpop [simp, intro]: "wf_dict d \<Longrightarrow> wf_dict (dpop k d)"
  by (rule distinct_delete)

lemma dget_in_vals: "dget d k = Some v \<Longrightarrow> v \<in> set (dvals d)"
  by (force dest: map_of_SomeD)

lemma dget_dmerge [dict_simps]:
  assumes "wf_dict b"
  shows "dget (dmerge a b) k = (case dget b k of Some v \<Rightarrow> Some v | None \<Rightarrow> dget a k)"
  using assms
proof (induction b arbitrary: a)
  case Nil
  show ?case by (simp add: dmerge_def)
next
  case (Cons kv b)
  obtain k0 v0 where kv: "kv = (k0, v0)" by fastforce
  have step: "dmerge a (kv # b) = dmerge (dset k0 v0 a) b"
    by (simp add: dmerge_def kv)
  have notin: "k0 \<notin> set (map fst b)" using Cons.prems kv by simp
  have "dget (dmerge (dset k0 v0 a) b) k =
      (case dget b k of Some v \<Rightarrow> Some v | None \<Rightarrow> dget (dset k0 v0 a) k)"
    using Cons.prems by (intro Cons.IH) simp
  moreover have "dget b k0 = None" using notin by (simp add: map_of_eq_None_iff)
  ultimately show ?case by (auto simp: step[unfolded kv] kv dget_dset split: option.splits)
qed

lemma wf_dict_dmerge: "wf_dict a \<Longrightarrow> wf_dict (dmerge a b)"
  by (induction b arbitrary: a) (auto simp: dmerge_def intro: distinct_update)

lemma set_dset: "wf_dict d \<Longrightarrow> x \<in> set (dset k v d) \<longleftrightarrow> x = (k, v) \<or> (x \<in> set d \<and> fst x \<noteq> k)"
  by (induction d) force+

lemma set_dset_subset: "x \<in> set (dset k v d) \<Longrightarrow> x = (k, v) \<or> x \<in> set d"
  by (induction d) (auto split: if_splits)

lemma set_dpop_subset: "x \<in> set (dpop k d) \<Longrightarrow> x \<in> set d"
  by (induction d) (auto split: if_splits)

lemma map_of_filter_keys [dict_simps]:
  "map_of (filter (\<lambda>p. P (fst p)) d) k = (if P k then map_of d k else None)"
  by (induction d) auto

lemma wf_dict_filter [simp, intro]: "wf_dict d \<Longrightarrow> wf_dict (filter P d)"
  by (induction d) (auto simp: image_iff)

section \<open>JSON values\<close>

text \<open>
  Free form objects (a task result, a proof, a runtime target). An object is kept in canonical
  key order, as \<open>json.dumps(..., sort_keys=True)\<close> writes it, so equality of values is
  equality of terms.
\<close>

datatype json =
    JNull
  | JBool bool
  | JInt int
  | JNum rat
  | JStr string
  | JList "json list"
  | JObj "(string \<times> json) list"

type_synonym jdict = "(string, json) dict"

text \<open>Python truth of a value: \<open>None\<close>, \<open>False\<close>, zero and empty containers are false.\<close>

fun truthy :: "json \<Rightarrow> bool" where
  "truthy JNull = False"
| "truthy (JBool b) = b"
| "truthy (JInt i) = (i \<noteq> 0)"
| "truthy (JNum r) = (r \<noteq> 0)"
| "truthy (JStr s) = (s \<noteq> [])"
| "truthy (JList xs) = (xs \<noteq> [])"
| "truthy (JObj d) = (d \<noteq> [])"

text \<open>\<open>d[k] = v\<close> on an object kept in key order.\<close>

fun jset :: "string \<Rightarrow> json \<Rightarrow> jdict \<Rightarrow> jdict" where
  "jset k v [] = [(k, v)]"
| "jset k v ((k', v') # d) =
    (if k = k' then (k, v) # d
     else if k < k' then (k, v) # (k', v') # d
     else (k', v') # jset k v d)"

lemma dget_jset [dict_simps]: "dget (jset k v d) k' = (if k' = k then Some v else dget d k')"
  by (induction k v d rule: jset.induct) auto

text \<open>\<open>d.get(k)\<close> with \<open>None\<close> for a missing key.\<close>

definition jget :: "jdict \<Rightarrow> string \<Rightarrow> json" where
  "jget d k = (case dget d k of None \<Rightarrow> JNull | Some v \<Rightarrow> v)"

section \<open>Exceptions and results\<close>

text \<open>
  The exceptions the modelled code raises, as values. \<open>Counted part msg\<close> is a \<open>SwarmError\<close>
  raised right after \<open>fencing.bump\<close> counted the refusal under \<open>part\<close>; the write that runs
  the refused change does the counting (theory \<open>Fencing\<close>). \<open>No_Return\<close> is no exception: it is
  the value of a loop that ran out of fuel, and the theorems show where it cannot occur.
  \<open>Duplicate_Item\<close>, \<open>Contended\<close> and \<open>Gone\<close> are the subclasses of the inbox's \<open>InboxError\<close>.
\<close>

datatype fault =
    Swarm_Error string
  | Counted string string
  | State_Conflict
  | Runtime_Error string
  | Value_Error string
  | Type_Error
  | Key_Error string
  | Assertion_Failed
  | Operation_Conflict string
  | Revision_Conflict
  | Stale_Lease
  | Lost_Lock
  | Busy
  | Timeout
  | Unavailable string
  | Grant_Refused string string
  | Inbox_Error string
  | Duplicate_Item string
  | Contended string
  | Gone string
  | Watch_Error
  | No_Return

definition and_then :: "'e + 'a \<Rightarrow> ('a \<Rightarrow> 'e + 'b) \<Rightarrow> 'e + 'b" where
  "and_then r f = (case r of Inl e \<Rightarrow> Inl e | Inr a \<Rightarrow> f a)"

lemma and_then_simps [simp]:
  "and_then (Inl e) f = Inl e"
  "and_then (Inr a) f = f a"
  by (simp_all add: and_then_def)

lemma and_then_Inr: "and_then r f = Inr b \<longleftrightarrow> (\<exists>a. r = Inr a \<and> f a = Inr b)"
  by (cases r) simp_all

lemma and_then_Inl: "and_then r f = Inl e \<longleftrightarrow> r = Inl e \<or> (\<exists>a. r = Inr a \<and> f a = Inl e)"
  by (cases r) simp_all

text \<open>\<open>if bad: raise f\<close>\<close>

definition refuse_if :: "bool \<Rightarrow> 'e \<Rightarrow> ('e + 'a) \<Rightarrow> 'e + 'a" where
  "refuse_if bad f k = (if bad then Inl f else k)"

lemma refuse_if_Inr [simp]: "refuse_if bad f k = Inr a \<longleftrightarrow> \<not> bad \<and> k = Inr a"
  by (simp add: refuse_if_def)

lemma refuse_if_Inl: "refuse_if bad f k = Inl e \<longleftrightarrow> (bad \<and> e = f) \<or> (\<not> bad \<and> k = Inl e)"
  by (auto simp: refuse_if_def)

lemma refuse_if_True [simp]: "refuse_if True f k = Inl f"
  and refuse_if_False [simp]: "refuse_if False f k = k"
  by (simp_all add: refuse_if_def)

section \<open>Lists\<close>

lemma find_Some_in: "find P xs = Some x \<Longrightarrow> x \<in> set xs \<and> P x"
  by (induction xs) (auto split: if_splits)

lemma find_append: "find P (xs @ ys) = (case find P xs of Some x \<Rightarrow> Some x | None \<Rightarrow> find P ys)"
  by (induction xs) auto

lemma sum_list_map_le:
  fixes f g :: "'a \<Rightarrow> nat"
  shows "(\<And>x. x \<in> set xs \<Longrightarrow> f x \<le> g x) \<Longrightarrow> sum_list (map f xs) \<le> sum_list (map g xs)"
  by (induction xs) (auto intro: add_mono)

lemma sum_list_filter_le:
  fixes f :: "'a \<Rightarrow> nat"
  shows "sum_list (map f (filter P xs)) \<le> sum_list (map f xs)"
  by (induction xs) auto

lemma prefix_nth_eq: "take n xs = take n ys \<Longrightarrow> i < n \<Longrightarrow> i < length xs \<Longrightarrow> i < length ys \<Longrightarrow> xs ! i = ys ! i"
  by (metis nth_take)

end
