(* ===== verification/State_Store.thy ===== *)
theory State_Store
  imports Prelude
begin

text \<open>
  The revisioned key value store behind every shared document of the program
  (\<open>MemoryStateStore\<close> of \<open>scripts/events/memory.py\<close>), the compare and set loop its clients
  are written with, and the contract (\<open>cas_store\<close>) under which such a loop is atomic whatever
  the other writers do between its read and its write.
\<close>

section \<open>The store\<close>

record 'v state_entry =
  se_key :: string
  se_value :: 'v
  se_revision :: nat

record 'v mem_store =
  ms_closed :: bool
  ms_history :: "'v state_entry list"
  ms_current :: "(string, 'v state_entry) dict"

definition empty_store :: "'v mem_store" where
  "empty_store = \<lparr>ms_closed = False, ms_history = [], ms_current = []\<rparr>"

definition store_get :: "'v mem_store \<Rightarrow> string \<Rightarrow> 'v state_entry option" where
  "store_get s k = dget (ms_current s) k"

definition store_put :: "string \<Rightarrow> 'v \<Rightarrow> 'v mem_store \<Rightarrow> nat \<times> 'v mem_store" where
  "store_put k v s =
    (let entry = \<lparr>se_key = k, se_value = v, se_revision = length (ms_history s) + 1\<rparr>
     in (se_revision entry,
         s\<lparr>ms_history := ms_history s @ [entry], ms_current := dset k entry (ms_current s)\<rparr>))"

definition store_create :: "string \<Rightarrow> 'v \<Rightarrow> 'v mem_store \<Rightarrow> (fault + nat) \<times> 'v mem_store" where
  "store_create k v s =
    (if ms_closed s then (Inl (Runtime_Error ''bus is closed''), s)
     else if dhas (ms_current s) k then (Inl State_Conflict, s)
     else let (r, s') = store_put k v s in (Inr r, s'))"

definition store_update ::
  "string \<Rightarrow> 'v \<Rightarrow> nat \<Rightarrow> 'v mem_store \<Rightarrow> (fault + nat) \<times> 'v mem_store" where
  "store_update k v revision s =
    (if ms_closed s then (Inl (Runtime_Error ''bus is closed''), s)
     else let current = (case dget (ms_current s) k of None \<Rightarrow> None | Some entry \<Rightarrow> Some (se_revision entry))
     in if current \<noteq> Some revision then (Inl State_Conflict, s)
     else let (r, s') = store_put k v s in (Inr r, s'))"

text \<open>
  The generator walks the history by index until it meets its end: the entries of the key at or
  after the asked revision, oldest first.
\<close>

fun watch_entries :: "string \<Rightarrow> nat \<Rightarrow> 'v state_entry list \<Rightarrow> 'v state_entry list" where
  "watch_entries k from_revision [] = []"
| "watch_entries k from_revision (entry # rest) =
    (if se_key entry = k \<and> se_revision entry \<ge> from_revision
     then entry # watch_entries k from_revision rest
     else watch_entries k from_revision rest)"

definition store_watch :: "string \<Rightarrow> nat \<Rightarrow> 'v mem_store \<Rightarrow> 'v state_entry list" where
  "store_watch k from_revision s = watch_entries k from_revision (ms_history s)"

definition store_close :: "'v mem_store \<Rightarrow> 'v mem_store" where
  "store_close s = s\<lparr>ms_closed := True\<rparr>"

section \<open>The store's invariant\<close>

text \<open>
  Revisions number the history from one; the current entry of a key is the last one of the
  history that carries the key.
\<close>

definition last_entry :: "string \<Rightarrow> 'v state_entry list \<Rightarrow> 'v state_entry option" where
  "last_entry k h = find (\<lambda>e. se_key e = k) (rev h)"

definition store_inv :: "'v mem_store \<Rightarrow> bool" where
  "store_inv s \<longleftrightarrow>
    (\<forall>i < length (ms_history s). se_revision (ms_history s ! i) = i + 1) \<and>
    (\<forall>k. dget (ms_current s) k = last_entry k (ms_history s))"

text \<open>How a store moves on under any sequence of writers: its history only grows.\<close>

definition store_ev :: "'v mem_store \<Rightarrow> 'v mem_store \<Rightarrow> bool" where
  "store_ev s s' \<longleftrightarrow> store_inv s' \<and> (\<exists>h. ms_history s' = ms_history s @ h)"

lemma last_entry_append [simp]:
  "last_entry k (h @ [e]) = (if se_key e = k then Some e else last_entry k h)"
  by (simp add: last_entry_def)

lemma last_entry_mem: "last_entry k h = Some e \<Longrightarrow> e \<in> set h \<and> se_key e = k"
  unfolding last_entry_def by (drule find_Some_in) simp

lemma empty_store_inv [simp]: "store_inv empty_store"
  by (simp add: store_inv_def empty_store_def last_entry_def)

lemma store_put_inv:
  assumes "store_inv s" "store_put k v s = (r, s')"
  shows "store_inv s' \<and> ms_history s' = ms_history s @ [\<lparr>se_key = k, se_value = v, se_revision = r\<rparr>]
    \<and> r = length (ms_history s) + 1 \<and> ms_closed s' = ms_closed s"
  using assms
  by (auto simp: store_put_def store_inv_def Let_def nth_append dget_dset less_Suc_eq)

lemma store_get_put:
  "store_put k v s = (r, s') \<Longrightarrow> store_get s' k' =
    (if k' = k then Some \<lparr>se_key = k, se_value = v, se_revision = r\<rparr> else store_get s k')"
  by (auto simp: store_put_def store_get_def Let_def dget_dset)

lemma store_create_Inr:
  "store_create k v s = (Inr r, s') \<longleftrightarrow>
    \<not> ms_closed s \<and> store_get s k = None \<and> store_put k v s = (r, s')"
  by (auto simp: store_create_def store_get_def dhas_def split: prod.splits)

lemma store_update_Inr:
  "store_update k v rvn s = (Inr r, s') \<longleftrightarrow>
    \<not> ms_closed s \<and> (\<exists>e. store_get s k = Some e \<and> se_revision e = rvn) \<and> store_put k v s = (r, s')"
  by (auto simp: store_update_def store_get_def Let_def split: prod.splits option.splits)

lemma store_create_Inl: "store_create k v s = (Inl e, s') \<Longrightarrow> s' = s"
  by (auto simp: store_create_def split: if_splits prod.splits)

lemma store_update_Inl: "store_update k v rvn s = (Inl e, s') \<Longrightarrow> s' = s"
  by (auto simp: store_update_def Let_def split: if_splits prod.splits)

lemma store_ev_refl [simp]: "store_inv s \<Longrightarrow> store_ev s s"
  by (simp add: store_ev_def)

lemma store_ev_trans: "store_ev a b \<Longrightarrow> store_ev b c \<Longrightarrow> store_ev a c"
  by (auto simp: store_ev_def)

lemma store_ev_inv: "store_ev s s' \<Longrightarrow> store_inv s'"
  by (simp add: store_ev_def)

lemma store_ev_put: "store_inv s \<Longrightarrow> store_put k v s = (r, s') \<Longrightarrow> store_ev s s'"
  by (auto simp: store_ev_def dest: store_put_inv)

lemma store_ev_create: "store_inv s \<Longrightarrow> store_create k v s = (res, s') \<Longrightarrow> store_ev s s'"
  by (cases res) (auto dest: store_create_Inl simp: store_create_Inr intro: store_ev_put)

lemma store_ev_update: "store_inv s \<Longrightarrow> store_update k v rvn s = (res, s') \<Longrightarrow> store_ev s s'"
  by (cases res) (auto dest: store_update_Inl simp: store_update_Inr intro: store_ev_put)

lemma store_ev_close: "store_inv s \<Longrightarrow> store_ev s (store_close s)"
  by (auto simp: store_ev_def store_close_def store_inv_def)

text \<open>A revision names one entry for good.\<close>

lemma store_get_nth:
  assumes "store_inv s" "store_get s k = Some e"
  shows "\<exists>i < length (ms_history s). ms_history s ! i = e \<and> se_revision e = i + 1 \<and> se_key e = k"
proof -
  have "e \<in> set (ms_history s)" "se_key e = k"
    using assms last_entry_mem by (force simp: store_inv_def store_get_def)+
  then show ?thesis using assms(1) by (auto simp: in_set_conv_nth store_inv_def)
qed

lemma store_get_stable:
  assumes "store_inv s" "store_ev s s'" "store_get s k = Some e" "store_get s' k' = Some e'"
    "se_revision e = se_revision e'"
  shows "e = e'"
proof -
  obtain i where i: "i < length (ms_history s)" "ms_history s ! i = e" "se_revision e = i + 1"
    using store_get_nth assms(1,3) by blast
  obtain j where j: "j < length (ms_history s')" "ms_history s' ! j = e'" "se_revision e' = j + 1"
    using store_get_nth assms(2,4) store_ev_inv by blast
  have "i = j" using i j assms(5) by simp
  then show ?thesis using i j assms(2) by (auto simp: store_ev_def nth_append)
qed

lemma watch_entries_filter:
  "watch_entries k r h = filter (\<lambda>e. se_key e = k \<and> se_revision e \<ge> r) h"
  by (induction h) auto

section \<open>Reachable stores\<close>

inductive store_reach :: "'v mem_store \<Rightarrow> bool" where
  init: "store_reach empty_store"
| created: "store_reach s \<Longrightarrow> store_create k v s = (res, s') \<Longrightarrow> store_reach s'"
| updated: "store_reach s \<Longrightarrow> store_update k v rvn s = (res, s') \<Longrightarrow> store_reach s'"
| closed: "store_reach s \<Longrightarrow> store_reach (store_close s)"

lemma store_reach_inv: "store_reach s \<Longrightarrow> store_inv s"
  by (induction rule: store_reach.induct)
    (auto dest: store_ev_create store_ev_update store_ev_close store_ev_inv)

section \<open>The compare and set loop\<close>

text \<open>
  The loop every client is written with: load the current value with its revision, run the
  change on it, write the result back at that revision, start over when another writer got
  between. \<open>envs\<close> gives what the other writers do between the read and the write of each of
  the attempts; its length is the number of attempts. A change that leaves the value alone
  (\<open>None\<close>) returns without a write.
\<close>

fun cas_loop ::
  "('s \<Rightarrow> (fault + 'v \<times> nat) \<times> 's) \<Rightarrow> ('v \<Rightarrow> 's \<Rightarrow> (fault + 'r \<times> 'v option) \<times> 's) \<Rightarrow>
   ('v \<Rightarrow> nat \<Rightarrow> 's \<Rightarrow> fault + 's) \<Rightarrow> fault \<Rightarrow> ('s \<Rightarrow> 's) list \<Rightarrow> 's \<Rightarrow> (fault + 'r) \<times> 's" where
  "cas_loop load change commit contention [] s = (Inl contention, s)"
| "cas_loop load change commit contention (env # envs) s =
    (case load s of
      (Inl e, s1) \<Rightarrow> (Inl e, s1)
    | (Inr (v, rvn), s1) \<Rightarrow>
        (case change v s1 of
          (Inl e, s2) \<Rightarrow> (Inl e, s2)
        | (Inr (r, None), s2) \<Rightarrow> (Inr r, s2)
        | (Inr (r, Some v'), s2) \<Rightarrow>
            (case commit v' rvn (env s2) of
              Inr s3 \<Rightarrow> (Inr r, s3)
            | Inl e \<Rightarrow>
                if e = State_Conflict then cas_loop load change commit contention envs (env s2)
                else (Inl e, env s2))))"

text \<open>What a store promises the loop.\<close>

locale cas_store =
  fixes inv :: "'s \<Rightarrow> bool"
    and ev :: "'s \<Rightarrow> 's \<Rightarrow> bool"
    and rd :: "'s \<Rightarrow> ('v \<times> nat) option"
    and commit :: "'v \<Rightarrow> nat \<Rightarrow> 's \<Rightarrow> fault + 's"
  assumes ev_refl: "inv s \<Longrightarrow> ev s s"
    and ev_trans: "ev a b \<Longrightarrow> ev b c \<Longrightarrow> ev a c"
    and ev_inv: "ev s s' \<Longrightarrow> inv s'"
    and rd_stable: "inv s \<Longrightarrow> ev s s' \<Longrightarrow> rd s = Some (v, r) \<Longrightarrow> rd s' = Some (v', r) \<Longrightarrow> v' = v"
    and commit_guard: "inv s \<Longrightarrow> commit v r s = Inr s' \<Longrightarrow> \<exists>v0. rd s = Some (v0, r)"
    and commit_rd: "inv s \<Longrightarrow> commit v r s = Inr s' \<Longrightarrow> \<exists>r'. r < r' \<and> rd s' = Some (v, r')"
    and commit_ev: "inv s \<Longrightarrow> commit v r s = Inr s' \<Longrightarrow> ev s s'"
begin

text \<open>What the loop's own steps may do besides: read, and touch state beside the value.\<close>

definition reads :: "('s \<Rightarrow> (fault + 'v \<times> nat) \<times> 's) \<Rightarrow> bool" where
  "reads load \<longleftrightarrow> (\<forall>s res s'. inv s \<longrightarrow> load s = (res, s') \<longrightarrow>
     ev s s' \<and> (\<forall>v r. res = Inr (v, r) \<longrightarrow> rd s' = Some (v, r)))"

definition quiet :: "('v \<Rightarrow> 's \<Rightarrow> (fault + 'r \<times> 'v option) \<times> 's) \<Rightarrow> bool" where
  "quiet change \<longleftrightarrow> (\<forall>v s res s'. inv s \<longrightarrow> change v s = (res, s') \<longrightarrow> ev s s' \<and> rd s' = rd s)"

definition others :: "('s \<Rightarrow> 's) list \<Rightarrow> bool" where
  "others envs \<longleftrightarrow> (\<forall>env \<in> set envs. \<forall>s. inv s \<longrightarrow> ev s (env s))"

text \<open>
  A loop that returns has run its change on the value the store held at the instant of its
  write: no other write came between, whatever the other writers did.
\<close>

lemma loop_atomic:
  assumes "reads load" "quiet change" "others envs" "inv s"
    and "cas_loop load change commit contention envs s = (Inr r, s')"
  shows "\<exists>v rvn s1 s2. ev s s1 \<and> ev s1 s2 \<and> rd s1 = Some (v, rvn) \<and>
    ((change v s1 = (Inr (r, None), s2) \<and> s' = s2) \<or>
     (\<exists>v' s3. change v s1 = (Inr (r, Some v'), s3) \<and> rd s2 = Some (v, rvn) \<and>
        commit v' rvn s2 = Inr s' \<and> (\<exists>rvn' > rvn. rd s' = Some (v', rvn'))))"
  using assms(3-5)
proof (induction envs arbitrary: s)
  case Nil
  then show ?case by simp
next
  case (Cons env envs)
  obtain res s1 where load: "load s = (res, s1)" by fastforce
  have ev1: "ev s s1" using assms(1) Cons.prems(2) load by (auto simp: reads_def)
  have inv1: "inv s1" using ev1 ev_inv by blast
  obtain v rvn where res: "res = Inr (v, rvn)"
    using Cons.prems(3) load by (cases res) auto
  have rd1: "rd s1 = Some (v, rvn)" using assms(1) Cons.prems(2) load res by (auto simp: reads_def)
  obtain cres s2 where chg: "change v s1 = (cres, s2)" by fastforce
  have ev2: "ev s1 s2" "rd s2 = rd s1" using assms(2) inv1 chg by (auto simp: quiet_def)
  have inv2: "inv s2" using ev2 ev_inv by blast
  obtain w where cres: "cres = Inr (r, None) \<and> s' = s2 \<or> (\<exists>x. cres = Inr (x, Some w))"
    using Cons.prems(3) load res chg by (auto split: sum.splits prod.splits option.splits)
  show ?case
  proof (cases "cres = Inr (r, None) \<and> s' = s2")
    case True
    then show ?thesis using ev1 ev2 rd1 chg by blast
  next
    case False
    then obtain x where x: "cres = Inr (x, Some w)" using cres by blast
    have ev3: "ev s2 (env s2)" using Cons.prems(1) inv2 by (simp add: others_def)
    have inv3: "inv (env s2)" using ev3 ev_inv by blast
    show ?thesis
    proof (cases "commit w rvn (env s2)")
      case (Inr s3)
      have "x = r" "s' = s3" using Cons.prems(3) load res chg x Inr by auto
      moreover have "rd (env s2) = Some (v, rvn)"
        using commit_guard[OF inv3 Inr] rd_stable[OF inv1 ev_trans[OF ev2(1) ev3] rd1] by blast
      moreover have "\<exists>rvn' > rvn. rd s3 = Some (w, rvn')" using commit_rd[OF inv3 Inr] by auto
      ultimately show ?thesis using ev1 ev2 ev3 ev_trans rd1 chg x Inr by blast
    next
      case (Inl e)
      have e: "e = State_Conflict"
        and rest: "cas_loop load change commit contention envs (env s2) = (Inr r, s')"
        using Cons.prems(3) load res chg x Inl by (auto split: if_splits)
      have "others envs" using Cons.prems(1) by (simp add: others_def)
      from Cons.IH[OF this inv3 rest] show ?thesis
        using ev1 ev2(1) ev3 ev_trans by blast
    qed
  qed
qed

text \<open>Whatever the outcome, the state only evolves.\<close>

lemma loop_ev:
  assumes "reads load" "quiet change" "others envs" "inv s"
    and "cas_loop load change commit contention envs s = (res, s')"
  shows "ev s s'"
  using assms(3-5)
proof (induction envs arbitrary: s)
  case Nil
  then show ?case by (auto intro: ev_refl)
next
  case (Cons env envs)
  obtain lres s1 where load: "load s = (lres, s1)" by fastforce
  have ev1: "ev s s1" using assms(1) Cons.prems(2) load by (auto simp: reads_def)
  have inv1: "inv s1" using ev1 ev_inv by blast
  show ?case
  proof (cases lres)
    case (Inl e)
    then show ?thesis using Cons.prems(3) load ev1 by auto
  next
    case (Inr vr)
    obtain v rvn where vr: "vr = (v, rvn)" by fastforce
    obtain cres s2 where chg: "change v s1 = (cres, s2)" by fastforce
    have ev2: "ev s1 s2" using assms(2) inv1 chg by (auto simp: quiet_def)
    have inv2: "inv s2" using ev2 ev_inv by blast
    have ev3: "ev s2 (env s2)" using Cons.prems(1) inv2 by (simp add: others_def)
    have inv3: "inv (env s2)" using ev3 ev_inv by blast
    have oth: "others envs" using Cons.prems(1) by (simp add: others_def)
    show ?thesis
    proof (cases "\<exists>x w. cres = Inr (x, Some w)")
      case False
      then have "s' = s2" using Cons.prems(3) load Inr vr chg
        by (auto split: sum.splits prod.splits option.splits)
      then show ?thesis using ev1 ev2 ev_trans by blast
    next
      case True
      then obtain x w where x: "cres = Inr (x, Some w)" by blast
      show ?thesis
      proof (cases "commit w rvn (env s2)")
        case (Inr s3)
        then have "s' = s3" using Cons.prems(3) load \<open>lres = Inr vr\<close> vr chg x by auto
        then show ?thesis using commit_ev[OF inv3 Inr] ev1 ev2 ev3 ev_trans by blast
      next
        case (Inl e)
        then have "s' = env s2 \<or> cas_loop load change commit contention envs (env s2) = (res, s')"
          using Cons.prems(3) load \<open>lres = Inr vr\<close> vr chg x by (auto split: if_splits)
        then show ?thesis using Cons.IH[OF oth inv3] ev1 ev2 ev3 ev_trans by blast
      qed
    qed
  qed
qed

end

text \<open>A provider whose write does not conflict while the value is still at the revision it was read at.\<close>

locale cas_store_live = cas_store inv ev rd commit
  for inv :: "'s \<Rightarrow> bool" and ev :: "'s \<Rightarrow> 's \<Rightarrow> bool"
    and rd :: "'s \<Rightarrow> ('v \<times> nat) option" and commit :: "'v \<Rightarrow> nat \<Rightarrow> 's \<Rightarrow> fault + 's" +
  assumes commit_free: "inv s \<Longrightarrow> rd s = Some (v0, r) \<Longrightarrow> commit v r s \<noteq> Inl State_Conflict"
begin

text \<open>One attempt the other writers leave alone is enough: the loop does not give up.\<close>

lemma loop_live:
  assumes "reads load" "quiet change" "others envs" "inv s"
    and calm: "calm \<in> set envs" "\<And>s. inv s \<Longrightarrow> rd (calm s) = rd s"
    and load_ok: "\<And>s s'. load s \<noteq> (Inl contention, s')"
    and change_ok: "\<And>v s s'. change v s \<noteq> (Inl contention, s')"
    and commit_ok: "\<And>v r s. commit v r s \<noteq> Inl contention"
  shows "cas_loop load change commit contention envs s \<noteq> (Inl contention, s')"
  using assms(3-5)
proof (induction envs arbitrary: s)
  case Nil
  then show ?case by simp
next
  case (Cons env envs)
  obtain lres s1 where load: "load s = (lres, s1)" by fastforce
  have inv1: "inv s1" using assms(1) Cons.prems(2) load by (auto simp: reads_def intro: ev_inv)
  show ?case
  proof (cases lres)
    case (Inl e)
    then show ?thesis using load load_ok by auto
  next
    case (Inr vr)
    obtain v rvn where vr: "vr = (v, rvn)" by fastforce
    have rd1: "rd s1 = Some (v, rvn)"
      using assms(1) Cons.prems(2) load Inr vr by (auto simp: reads_def)
    obtain cres s2 where chg: "change v s1 = (cres, s2)" by fastforce
    have step2: "ev s1 s2" "rd s2 = rd s1" using assms(2) inv1 chg by (auto simp: quiet_def)
    have inv2: "inv s2" using step2 ev_inv by blast
    have inv3: "inv (env s2)" using Cons.prems(1) inv2 by (auto simp: others_def intro: ev_inv)
    have oth: "others envs" using Cons.prems(1) by (simp add: others_def)
    have late: "calm \<in> set envs \<Longrightarrow>
        cas_loop load change commit contention envs (env s2) \<noteq> (Inl contention, s')"
      using Cons.IH[OF oth inv3] by blast
    show ?thesis
    proof (cases "\<exists>x w. cres = Inr (x, Some w)")
      case False
      have "change v s1 \<noteq> (Inl contention, s2)" by (rule change_ok)
      then show ?thesis using False load Inr vr chg by (cases cres) auto
    next
      case True
      then obtain x w where x: "cres = Inr (x, Some w)" by blast
      have free: "env = calm \<Longrightarrow> commit w rvn (env s2) \<noteq> Inl State_Conflict"
        using commit_free[OF inv3, of v rvn w] calm(2)[OF inv2] step2(2) rd1 by auto
      have bad: "commit w rvn (env s2) \<noteq> Inl contention" by (rule commit_ok)
      show ?thesis
        using load Inr vr chg x free bad late Cons.prems(3)
        by (cases "commit w rvn (env s2)") auto
    qed
  qed
qed

end

section \<open>The store keeps the contract\<close>

definition store_rd :: "string \<Rightarrow> 'v mem_store \<Rightarrow> ('v \<times> nat) option" where
  "store_rd k s = map_option (\<lambda>e. (se_value e, se_revision e)) (store_get s k)"

definition store_commit :: "string \<Rightarrow> 'v \<Rightarrow> nat \<Rightarrow> 'v mem_store \<Rightarrow> fault + 'v mem_store" where
  "store_commit k v r s =
    (case store_update k v r s of (Inl e, _) \<Rightarrow> Inl e | (Inr _, s') \<Rightarrow> Inr s')"

lemma store_commit_Inr: "store_commit k v r s = Inr s' \<longleftrightarrow> (\<exists>n. store_update k v r s = (Inr n, s'))"
  by (auto simp: store_commit_def split: prod.splits sum.splits)

lemma store_commit_Inl: "store_commit k v r s = Inl e \<Longrightarrow> e = State_Conflict \<or> e = Runtime_Error ''bus is closed''"
  by (auto simp: store_commit_def store_update_def Let_def split: if_splits prod.splits sum.splits)

lemma store_rd_stable:
  assumes "store_inv s" "store_ev s s'" "store_rd k s = Some (v, r)" "store_rd k s' = Some (v', r)"
  shows "v' = v"
  using assms(3,4) store_get_stable[OF assms(1,2), of k _ k] by (auto simp: store_rd_def) metis

lemma store_commit_rd:
  assumes "store_inv s" "store_commit k v r s = Inr s'"
  shows "\<exists>r'. r < r' \<and> store_rd k s' = Some (v, r')"
proof -
  obtain n e where n: "store_put k v s = (n, s')" "store_get s k = Some e" "se_revision e = r"
    using assms(2) by (auto simp: store_commit_Inr store_update_Inr)
  have "n = length (ms_history s) + 1" using store_put_inv[OF assms(1) n(1)] by simp
  moreover have "r \<le> length (ms_history s)" using store_get_nth[OF assms(1) n(2)] n(3) by auto
  ultimately show ?thesis using store_get_put[OF n(1)] by (simp add: store_rd_def)
qed

interpretation mem: cas_store_live store_inv store_ev "store_rd k" "store_commit k" for k
proof (unfold_locales, goal_cases)
  case (4 s s' v r v')
  then show ?case by (rule store_rd_stable)
next
  case (5 v r s s')
  then show ?case by (auto simp: store_commit_Inr store_update_Inr store_rd_def)
next
  case (6 s v r s')
  then show ?case by (rule store_commit_rd)
next
  case (8 s v0 r v)
  then show ?case
    by (auto simp: store_commit_def store_update_def store_rd_def store_get_def Let_def
        split: prod.splits sum.splits if_splits)
qed (auto simp: store_commit_Inr intro: store_ev_refl store_ev_trans store_ev_inv store_ev_update)

section \<open>Documents that start empty\<close>

text \<open>
  Many clients read a missing key as an empty document and create it on their first write. A
  missing key stands at revision 0; the state carries the clock beside the store.
\<close>

record 'v timed_store =
  ts_store :: "'v mem_store"
  ts_now :: rat

definition doc_rd :: "'v \<Rightarrow> string \<Rightarrow> 'v timed_store \<Rightarrow> ('v \<times> nat) option" where
  "doc_rd blank k s =
    (case store_get (ts_store s) k of
      None \<Rightarrow> Some (blank, 0)
    | Some e \<Rightarrow> Some (se_value e, se_revision e))"

definition doc_load :: "'v \<Rightarrow> string \<Rightarrow> 'v timed_store \<Rightarrow> (fault + 'v \<times> nat) \<times> 'v timed_store" where
  "doc_load blank k s =
    (case store_get (ts_store s) k of
      None \<Rightarrow> (Inr (blank, 0), s)
    | Some e \<Rightarrow> (Inr (se_value e, se_revision e), s))"

definition doc_commit :: "string \<Rightarrow> 'v \<Rightarrow> nat \<Rightarrow> 'v timed_store \<Rightarrow> fault + 'v timed_store" where
  "doc_commit k v r s =
    (case (if r = 0 then store_create k v (ts_store s) else store_update k v r (ts_store s)) of
      (Inl e, _) \<Rightarrow> Inl e
    | (Inr _, st) \<Rightarrow> Inr (s\<lparr>ts_store := st\<rparr>))"

definition timed_inv :: "'v timed_store \<Rightarrow> bool" where
  "timed_inv s \<longleftrightarrow> store_inv (ts_store s)"

definition timed_ev :: "'v timed_store \<Rightarrow> 'v timed_store \<Rightarrow> bool" where
  "timed_ev s s' \<longleftrightarrow> store_ev (ts_store s) (ts_store s')"

lemma store_get_revision: "store_inv s \<Longrightarrow> store_get s k = Some e \<Longrightarrow> 0 < se_revision e"
  using store_get_nth by fastforce

lemma store_ev_get:
  assumes "store_inv s" "store_ev s s'" "store_get s' k = None"
  shows "store_get s k = None"
proof (rule ccontr)
  assume "store_get s k \<noteq> None"
  then obtain e where e: "store_get s k = Some e" by blast
  then have "last_entry k (ms_history s) = Some e" using assms(1) by (simp add: store_inv_def store_get_def)
  then have "e \<in> set (ms_history s')" "se_key e = k"
    using last_entry_mem assms(2) by (fastforce simp: store_ev_def)+
  moreover have "last_entry k (ms_history s') = None"
    using assms(2,3) by (simp add: store_ev_def store_inv_def store_get_def)
  ultimately show False by (auto simp: last_entry_def find_None_iff)
qed

lemma doc_commit_Inr:
  "doc_commit k v r s = Inr s' \<longleftrightarrow> (\<exists>n. (if r = 0 then store_create k v (ts_store s) else store_update k v r (ts_store s))
     = (Inr n, ts_store s')) \<and> s' = s\<lparr>ts_store := ts_store s'\<rparr>"
  by (cases s; cases s') (auto simp: doc_commit_def split: prod.splits sum.splits)

lemma doc_commit_put:
  assumes "timed_inv s" "doc_commit k v r s = Inr s'"
  shows "\<exists>n. store_put k v (ts_store s) = (n, ts_store s') \<and> r < n \<and>
    (\<exists>v0. doc_rd blank k s = Some (v0, r)) \<and> doc_rd blank k s' = Some (v, n) \<and> timed_ev s s'"
proof -
  obtain n where n: "(if r = 0 then store_create k v (ts_store s) else store_update k v r (ts_store s)) = (Inr n, ts_store s')"
    using assms(2) by (auto simp: doc_commit_Inr)
  have put: "store_put k v (ts_store s) = (n, ts_store s')"
    using n by (auto simp: store_create_Inr store_update_Inr split: if_splits)
  have len: "n = length (ms_history (ts_store s)) + 1"
    using store_put_inv[OF _ put] assms(1) by (simp add: timed_inv_def)
  have rd: "\<exists>v0. doc_rd blank k s = Some (v0, r)"
    using n by (auto simp: store_create_Inr store_update_Inr doc_rd_def split: if_splits)
  have "r < n"
  proof (cases "r = 0")
    case False
    then obtain e where "store_get (ts_store s) k = Some e" "se_revision e = r"
      using n by (auto simp: store_update_Inr)
    then show ?thesis using store_get_nth[of "ts_store s" k e] assms(1) len by (auto simp: timed_inv_def)
  qed (simp add: len)
  moreover have "doc_rd blank k s' = Some (v, n)" using store_get_put[OF put] by (simp add: doc_rd_def)
  moreover have "timed_ev s s'"
    using store_ev_put[OF _ put] assms(1) by (simp add: timed_ev_def timed_inv_def)
  ultimately show ?thesis using put rd by blast
qed

lemma doc_rd_stable:
  assumes "timed_inv s" "timed_ev s s'" "doc_rd blank k s = Some (v, r)" "doc_rd blank k s' = Some (v', r)"
  shows "v' = v"
proof (cases "r = 0")
  case True
  have "store_get (ts_store s') k = None"
    using assms(2,4) True store_get_revision[of "ts_store s'" k] store_ev_inv
    by (fastforce simp: doc_rd_def timed_ev_def split: option.splits)
  moreover from this have "store_get (ts_store s) k = None"
    using store_ev_get assms(1,2) by (auto simp: timed_inv_def timed_ev_def)
  ultimately show ?thesis using assms(3,4) by (simp add: doc_rd_def)
next
  case False
  then obtain e e' where "store_get (ts_store s) k = Some e" "store_get (ts_store s') k = Some e'"
      "se_revision e = r" "se_revision e' = r" "se_value e = v" "se_value e' = v'"
    using assms(3,4) by (auto simp: doc_rd_def split: option.splits)
  then show ?thesis
    using store_get_stable[of "ts_store s" "ts_store s'" k e k e'] assms(1,2)
    by (simp add: timed_inv_def timed_ev_def)
qed

lemma doc_commit_free:
  "timed_inv s \<Longrightarrow> doc_rd blank k s = Some (v0, r) \<Longrightarrow> doc_commit k v r s \<noteq> Inl State_Conflict"
  using store_get_revision[of "ts_store s" k]
  by (auto simp: doc_rd_def doc_commit_def store_create_def store_update_def store_get_def dhas_def timed_inv_def
      Let_def split: option.splits prod.splits sum.splits if_splits)

interpretation doc: cas_store_live timed_inv timed_ev "doc_rd blank k" "doc_commit k" for blank k
proof (unfold_locales, goal_cases)
  case (4 s s' v r v')
  then show ?case by (rule doc_rd_stable)
next
  case (5 s v r s')
  then show ?case using doc_commit_put[of s k v r s' blank] by blast
next
  case (6 s v r s')
  then show ?case using doc_commit_put[of s k v r s' blank] by blast
next
  case (7 s v r s')
  then show ?case using doc_commit_put[of s k v r s' blank] by blast
next
  case (8 s v0 r v)
  then show ?case by (rule doc_commit_free)
qed (auto simp: timed_inv_def timed_ev_def intro: store_ev_trans store_ev_inv)

lemma doc_load_reads: "doc.reads blank k (doc_load blank k)"
  by (auto simp: doc.reads_def doc_load_def doc_rd_def timed_ev_def timed_inv_def split: option.splits)

text \<open>A change that only looks at the document and the clock.\<close>

lemma doc_pure_quiet: "(\<And>v s. snd (change v s) = s) \<Longrightarrow> doc.quiet blank k change"
  unfolding doc.quiet_def timed_ev_def timed_inv_def by (metis snd_conv store_ev_refl)

text \<open>What a loop of pure changes over such a document has done when it returns.\<close>

definition doc_others :: "('v timed_store \<Rightarrow> 'v timed_store) list \<Rightarrow> bool" where
  "doc_others envs \<longleftrightarrow> (\<forall>env \<in> set envs. \<forall>s. timed_inv s \<longrightarrow> timed_ev s (env s))"

lemma doc_loop_Inr:
  assumes "\<And>v s. snd (change v s) = s" "doc_others envs" "timed_inv s"
    and "cas_loop (doc_load blank k) change (doc_commit k) cont envs s = (Inr r, s')"
  obtains v rvn s1 s2 where "timed_ev s s1" "timed_ev s1 s2" "doc_rd blank k s1 = Some (v, rvn)"
    "doc_rd blank k s2 = Some (v, rvn)"
    "(fst (change v s1) = Inr (r, None) \<and> s' = s2 \<and> s2 = s1) \<or>
     (\<exists>v'. fst (change v s1) = Inr (r, Some v') \<and> doc_commit k v' rvn s2 = Inr s' \<and>
        (\<exists>rvn' > rvn. doc_rd blank k s' = Some (v', rvn')))"
proof -
  have oth: "doc.others envs" using assms(2) by (simp add: doc.others_def doc_others_def)
  obtain v rvn s1 s2 where at: "timed_ev s s1" "timed_ev s1 s2" "doc_rd blank k s1 = Some (v, rvn)"
    "(change v s1 = (Inr (r, None), s2) \<and> s' = s2) \<or>
     (\<exists>v' s3. change v s1 = (Inr (r, Some v'), s3) \<and> doc_rd blank k s2 = Some (v, rvn) \<and>
        doc_commit k v' rvn s2 = Inr s' \<and> (\<exists>rvn' > rvn. doc_rd blank k s' = Some (v', rvn')))"
    using doc.loop_atomic[OF doc_load_reads doc_pure_quiet[OF assms(1)] oth assms(3,4)] by blast
  show thesis
  proof (cases "change v s1 = (Inr (r, None), s2) \<and> s' = s2")
    case True
    then have "s2 = s1" using assms(1)[of v s1] by simp
    then show ?thesis using that[of s1 s2 v rvn] at True by simp
  next
    case False
    then show ?thesis using that[of s1 s2 v rvn] at by fastforce
  qed
qed

end
