(* ===== verification/Store_Laws.thy ===== *)
theory Store_Laws
  imports State_Store
begin

text \<open>
  What the state store promises its clients: a watch replays the writes of a key in order and ends
  at the current value, a revision is spent by one writer only, and the loop all clients share
  applies its change to the value it replaces.
\<close>

lemma last_find_rev: "find P (rev xs) = (case filter P xs of [] \<Rightarrow> None | ys \<Rightarrow> Some (last ys))"
  by (induction xs rule: rev_induct) (auto split: list.splits)

lemma numbered_sorted:
  "(\<And>i. i < length h \<Longrightarrow> se_revision (h ! i) = i + 1) \<Longrightarrow>
   sorted_wrt (\<lambda>a b. se_revision a < se_revision b) h"
  by (simp add: sorted_wrt_iff_nth_less)

text \<open>
  Watching a key replays its writes from a revision on, in strictly growing order of revision
  and each once, whatever creates, updates and closes made the store; the last entry of a full
  replay is the entry a read returns, and there is none when the key is missing.
\<close>

theorem watch_replays_current:
  assumes "store_reach s"
  shows "sorted_wrt (\<lambda>a b. se_revision a < se_revision b) (store_watch k from_revision s) \<and>
    set (store_watch k from_revision s) =
      {e \<in> set (ms_history s). se_key e = k \<and> from_revision \<le> se_revision e} \<and>
    store_get s k = (case store_watch k 0 s of [] \<Rightarrow> None | es \<Rightarrow> Some (last es))"
proof -
  have inv: "store_inv s" by (rule store_reach_inv[OF assms])
  then have "sorted_wrt (\<lambda>a b. se_revision a < se_revision b) (ms_history s)"
    by (auto simp: store_inv_def intro: numbered_sorted)
  moreover have "store_get s k = last_entry k (ms_history s)" using inv by (simp add: store_inv_def store_get_def)
  ultimately show ?thesis
    by (auto simp: store_watch_def watch_entries_filter last_entry_def last_find_rev intro: sorted_wrt_filter)
qed

text \<open>
  No update is lost. When a writer's update at a revision succeeds, every other writer's update
  of that key at the same revision is refused from then on, however the store moves on.
\<close>

theorem revision_spent_once:
  assumes "store_reach s" and "store_update k v revision s = (Inr n, s')" and "store_ev s' s''"
  shows "fst (store_update k v' revision s'') \<in> {Inl State_Conflict, Inl (Runtime_Error ''bus is closed'')} \<and>
    snd (store_update k v' revision s'') = s'' \<and> revision < n"
proof -
  have inv: "store_inv s" by (rule store_reach_inv[OF assms(1)])
  obtain e where put: "store_put k v s = (n, s')" and e: "store_get s k = Some e" "se_revision e = revision"
    using assms(2) by (auto simp: store_update_Inr)
  obtain i where i: "i < length (ms_history s)" "revision = i + 1" using store_get_nth[OF inv e(1)] e(2) by auto
  have n: "n = length (ms_history s) + 1" and inv': "store_inv s'" using store_put_inv[OF inv put] by auto
  have get': "store_get s' k = Some \<lparr>se_key = k, se_value = v, se_revision = n\<rparr>"
    using store_get_put[OF put] by simp
  have other: "se_revision e'' \<noteq> revision" if get'': "store_get s'' k = Some e''" for e''
  proof
    assume eq: "se_revision e'' = revision"
    have "store_ev s s''" using store_ev_trans[OF store_ev_put[OF inv put] assms(3)] .
    then have e_eq: "e = e''" using store_get_stable[OF inv _ e(1) get''] e(2) eq by simp
    have last'': "last_entry k (ms_history s'') = Some e''"
      using get'' store_ev_inv[OF assms(3)] by (simp add: store_inv_def store_get_def)
    obtain h where h: "ms_history s'' = ms_history s @ \<lparr>se_key = k, se_value = v, se_revision = n\<rparr> # h"
      using assms(3) store_put_inv[OF inv put] by (auto simp: store_ev_def)
    have "se_revision e'' \<ge> n"
    proof -
      define tl where "tl = filter (\<lambda>x. se_key x = k) (\<lparr>se_key = k, se_value = v, se_revision = n\<rparr> # h)"
      have ne: "tl \<noteq> []" by (simp add: tl_def)
      have "filter (\<lambda>x. se_key x = k) (ms_history s'') = filter (\<lambda>x. se_key x = k) (ms_history s) @ tl"
        by (simp add: h tl_def)
      moreover have "e'' = last (filter (\<lambda>x. se_key x = k) (ms_history s''))"
        using last'' unfolding last_entry_def last_find_rev by (auto split: list.splits)
      ultimately have "e'' = last tl" using ne by (metis last_appendR)
      then have "e'' \<in> set (\<lparr>se_key = k, se_value = v, se_revision = n\<rparr> # h)"
        using last_in_set[of tl] unfolding tl_def by auto
      then obtain j where j: "j < length (\<lparr>se_key = k, se_value = v, se_revision = n\<rparr> # h)"
          "(\<lparr>se_key = k, se_value = v, se_revision = n\<rparr> # h) ! j = e''" by (metis in_set_conv_nth)
      then have "se_revision e'' = length (ms_history s) + j + 1"
        using store_ev_inv[OF assms(3)] unfolding store_inv_def h
        by (metis add.assoc length_append nat_add_left_cancel_less nth_append_length_plus)
      then show ?thesis using n by simp
    qed
    then show False using eq i n by simp
  qed
  have "fst (store_update k v' revision s'') \<in> {Inl State_Conflict, Inl (Runtime_Error ''bus is closed'')} \<and>
      snd (store_update k v' revision s'') = s''"
    using other by (auto simp: store_update_def store_get_def Let_def split: option.splits prod.splits)
  then show ?thesis using i n by simp
qed

section \<open>The statements at concrete inputs\<close>

lemma two_writes:
  "store_reach (snd (store_create ''a'' (1::int) empty_store))"
  "store_update ''a'' 2 1 (snd (store_create ''a'' (1::int) empty_store)) =
    (Inr 2, \<lparr>ms_closed = False,
       ms_history = [\<lparr>se_key = ''a'', se_value = 1, se_revision = 1\<rparr>, \<lparr>se_key = ''a'', se_value = 2, se_revision = 2\<rparr>],
       ms_current = [(''a'', \<lparr>se_key = ''a'', se_value = 2, se_revision = 2\<rparr>)]\<rparr>)"
  by (rule store_reach.created[OF store_reach.init prod.collapse[symmetric]])
    (simp add: store_create_def store_update_def empty_store_def store_put_def dhas_def Let_def)

lemma watch_replays_current_witness:
  "store_get (snd (store_create ''a'' (1::int) empty_store)) ''a'' =
     Some \<lparr>se_key = ''a'', se_value = 1, se_revision = 1\<rparr>"
proof -
  have "store_watch ''a'' 0 (snd (store_create ''a'' (1::int) empty_store)) = [\<lparr>se_key = ''a'', se_value = 1, se_revision = 1\<rparr>]"
    by (simp add: store_watch_def store_create_def empty_store_def store_put_def dhas_def Let_def)
  then show ?thesis using watch_replays_current[OF two_writes(1), of "''a''" 0] by simp
qed

lemma revision_spent_once_witness:
  "\<exists>s. store_update ''a'' (2::int) 1 (snd (store_create ''a'' 1 empty_store)) = (Inr 2, s) \<and>
     fst (store_update ''a'' 3 1 s) \<in> {Inl State_Conflict, Inl (Runtime_Error ''bus is closed'')}"
proof -
  obtain s where s: "store_update ''a'' (2::int) 1 (snd (store_create ''a'' 1 empty_store)) = (Inr 2, s)"
    using two_writes(2) by blast
  have "store_ev s s" using store_ev_update[OF store_reach_inv[OF two_writes(1)] s] store_ev_inv by (simp add: store_ev_def)
  from revision_spent_once[OF two_writes(1) s this] s show ?thesis by blast
qed

end
