(* ===== verification/Records.thy ===== *)
theory Records
  imports Prelude
begin

text \<open>
  The rows of the swarm's fencing document, typed: the agent record of an execution
  (\<open>AgentRecord\<close>, \<open>scripts/swarm/store.py\<close>), the controller lease (\<open>scripts/swarm/lease.py\<close>), task
  claims and renewal fences (\<open>scripts/swarm_v2/authority.py\<close>), launch grants and registrations
  (\<open>scripts/swarm_v2/auth_context.py\<close>), runtime operations
  (\<open>scripts/swarm_v2/runtime/operations.py\<close>), and the document itself (\<open>EMPTY\<close> of
  \<open>scripts/swarm/fencing.py\<close>). \<open>asdict\<close> and the constructors applied to a stored row are the
  identity on these types; a time stamp is kept as its whole seconds.
\<close>

record agent_record =
  ag_name :: string
  ag_lane :: string
  ag_task :: string
  ag_pane_id :: string
  ag_harness :: string
  ag_account :: string
  ag_started_at :: int
  ag_state :: string
  ag_idle_ticks :: int
  ag_model :: string
  ag_effort :: string
  ag_seat :: string
  ag_conversation_id :: string
  ag_placement :: string
  ag_profile :: string
  ag_model_source :: string
  ag_model_confidence :: "rat option"
  ag_profile_decision :: jdict
  ag_input_prompt :: string
  ag_input_ticks :: int
  ag_choice :: string
  ag_launched_at :: int
  ag_overlays :: "json list"
  ag_execution_id :: string
  ag_generation :: int
  ag_runtime_backend :: string
  ag_runtime_target :: jdict
  ag_launch_timings :: jdict
  ag_hive :: string
  ag_route_kind :: string
  ag_transport :: string
  ag_remote_control :: jdict
  ag_desired_route_kind :: string

definition new_agent :: "string \<Rightarrow> string \<Rightarrow> string \<Rightarrow> agent_record" where
  "new_agent name lane task =
    \<lparr>ag_name = name, ag_lane = lane, ag_task = task, ag_pane_id = '''', ag_harness = '''',
     ag_account = '''', ag_started_at = 0, ag_state = ''working'', ag_idle_ticks = 0,
     ag_model = '''', ag_effort = '''', ag_seat = '''', ag_conversation_id = '''',
     ag_placement = '''', ag_profile = '''', ag_model_source = '''', ag_model_confidence = None,
     ag_profile_decision = [], ag_input_prompt = '''', ag_input_ticks = 0, ag_choice = '''',
     ag_launched_at = 0, ag_overlays = [], ag_execution_id = '''', ag_generation = 0,
     ag_runtime_backend = ''local'', ag_runtime_target = [], ag_launch_timings = [],
     ag_hive = '''', ag_route_kind = ''subscription'', ag_transport = '''',
     ag_remote_control = [], ag_desired_route_kind = ''''\<rparr>"

record lease =
  ls_owner :: string
  ls_epoch :: int
  ls_expires_at :: int

record intent =
  in_execution_id :: string
  in_generation :: int
  in_controller_epoch :: int

record task_claim =
  tc_task_id :: string
  tc_holder :: string
  tc_generation :: int
  tc_execution_id :: string
  tc_execution_generation :: int
  tc_lease_deadline_ms :: int
  tc_state :: string
  tc_result :: jdict

text \<open>A journal entry \<open>{"event": ..., "claim": ...}\<close>.\<close>

type_synonym journal_entry = "string \<times> task_claim"

record renewal_fence =
  rf_key :: string
  rf_sequence :: int
  rf_digest :: string

record grant_audit =
  gr_grant_id :: string
  gr_issuer :: string
  gr_audience :: string
  gr_key_id :: string
  gr_execution_id :: string
  gr_generation :: int
  gr_issued_at :: int
  gr_expires_at :: int
  gr_state :: string
  gr_renewals :: "int option"

record registration =
  rg_grant_id :: string
  rg_swarm_id :: string
  rg_execution_id :: string
  rg_generation :: int
  rg_seat_id :: string
  rg_task_id :: string
  rg_account :: string
  rg_brain_id :: string
  rg_project_ids :: "string list"
  rg_issuer :: string
  rg_audience :: string
  rg_key_id :: string
  rg_registered_at :: int

datatype phase = Accepted | Absent | Unknown | Applied | Refused | Superseded

record operation =
  op_operation_id :: string
  op_execution_id :: string
  op_generation :: int
  op_action :: string
  op_backend :: string
  op_payload_digest :: string
  op_target :: jdict
  op_phase :: phase
  op_result :: jdict
  op_controller_epoch :: "int option"
  op_attempted :: bool
  op_spec_digest :: string
  op_refusal :: jdict

text \<open>
  The document. \<open>fd_archive_ref\<close> is \<open>None\<close> while the key \<open>archive_ref\<close> is absent, \<open>fd_moved\<close> tells
  whether the key \<open>moved_to\<close> is present.
\<close>

record fdoc =
  fd_lease :: "lease option"
  fd_legacy_owner :: string
  fd_epoch :: int
  fd_leader_changes :: int
  fd_intents :: "(string, intent) dict"
  fd_orphans :: "(string, int) dict"
  fd_executions :: "(string, agent_record) dict"
  fd_archive :: "(string, agent_record) dict"
  fd_grants :: "(string, grant_audit) dict"
  fd_registrations :: "(string, registration) dict"
  fd_grants_disabled :: string
  fd_claims :: "(string, task_claim) dict"
  fd_journals :: "(string, journal_entry list) dict"
  fd_fences :: "(string, int \<times> string) dict"
  fd_operations :: "(string, operation) dict"
  fd_archive_ref :: "string option"
  fd_moved :: bool

definition empty_doc :: fdoc where
  "empty_doc =
    \<lparr>fd_lease = None, fd_legacy_owner = '''', fd_epoch = 0, fd_leader_changes = 0,
     fd_intents = [], fd_orphans = [], fd_executions = [], fd_archive = [], fd_grants = [],
     fd_registrations = [], fd_grants_disabled = '''', fd_claims = [], fd_journals = [],
     fd_fences = [], fd_operations = [], fd_archive_ref = None, fd_moved = False\<rparr>"

text \<open>Python's \<open>==\<close> on two documents: the sections are dicts, equal whatever their order.\<close>

definition doc_eq :: "fdoc \<Rightarrow> fdoc \<Rightarrow> bool" where
  "doc_eq a b \<longleftrightarrow>
    fd_lease a = fd_lease b \<and> fd_legacy_owner a = fd_legacy_owner b \<and> fd_epoch a = fd_epoch b \<and>
    fd_leader_changes a = fd_leader_changes b \<and> dict_eq (fd_intents a) (fd_intents b) \<and>
    dict_eq (fd_orphans a) (fd_orphans b) \<and> dict_eq (fd_executions a) (fd_executions b) \<and>
    dict_eq (fd_archive a) (fd_archive b) \<and> dict_eq (fd_grants a) (fd_grants b) \<and>
    dict_eq (fd_registrations a) (fd_registrations b) \<and>
    fd_grants_disabled a = fd_grants_disabled b \<and> dict_eq (fd_claims a) (fd_claims b) \<and>
    dict_eq (fd_journals a) (fd_journals b) \<and> dict_eq (fd_fences a) (fd_fences b) \<and>
    dict_eq (fd_operations a) (fd_operations b) \<and> fd_archive_ref a = fd_archive_ref b \<and>
    fd_moved a = fd_moved b"

lemma doc_eq_refl [simp, intro]: "doc_eq d d"
  by (simp add: doc_eq_def)

lemma doc_eq_sym: "doc_eq a b \<Longrightarrow> doc_eq b a"
  by (auto simp: doc_eq_def dict_eq_iff)

lemma doc_eq_trans: "doc_eq a b \<Longrightarrow> doc_eq b c \<Longrightarrow> doc_eq a c"
  by (auto simp: doc_eq_def dict_eq_iff)

end
