(* ===== verification/Fencing.thy ===== *)
theory Fencing
  imports State_Store Records
begin

text \<open>
  The fencing document of a swarm and its one write (\<open>scripts/swarm/fencing.py\<close>, the document
  layout that the bus backends keep). The bucket \<open>fencing\<close> holds, under the swarm's slug, the
  document, and beside it the chunks of the external archive; the bucket \<open>counters\<close> holds the
  refusal counts. \<open>json.dumps\<close>/\<open>json.loads\<close> are the identity on the typed values of theory
  \<open>Records\<close>; the digest of a chunk and the legacy Redis keys are parameters.
\<close>

section \<open>The world of a write\<close>

datatype fcell =
    Whole fdoc
  | Chunk string "(string, agent_record) dict" "string list"

record fworld =
  fw_states :: "fcell mem_store"
  fw_counters :: "int mem_store"
  fw_now :: int

text \<open>
  \<open>fw_now\<close> is what the clock reads, in milliseconds; it moves when the others do.
  \<open>fx_legacy\<close> and \<open>fx_legacy_count\<close> are what the keys of the old layout say, \<open>fx_sha\<close> is the
  digest of an encoded chunk, \<open>fx_count_others\<close> what other writers do during the attempts of a
  refusal count.
\<close>

record fctx =
  fx_slug :: string
  fx_legacy :: fdoc
  fx_legacy_count :: "string \<Rightarrow> int"
  fx_sha :: "fcell \<Rightarrow> string"
  fx_count_others :: "(fworld \<Rightarrow> fworld) list"

definition contention :: fault where
  "contention = Swarm_Error ''the swarm fencing state kept changing; nothing was committed''"

definition attempts :: nat where "attempts = 16"

definition read_cell :: "string \<Rightarrow> fcell mem_store \<Rightarrow> fault + fdoc \<times> nat" where
  "read_cell slug states =
    (case store_get states slug of
      None \<Rightarrow> Inl (Key_Error ''lease'')
    | Some entry \<Rightarrow>
        (case se_value entry of
          Whole doc \<Rightarrow> Inr (doc, se_revision entry)
        | Chunk parent rows removed \<Rightarrow> Inl (Key_Error ''lease'')))"

definition fencing_entry :: "fctx \<Rightarrow> fworld \<Rightarrow> (fault + fdoc \<times> nat) \<times> fworld" where
  "fencing_entry c w =
    (case store_get (fw_states w) (fx_slug c) of
      Some _ \<Rightarrow> (read_cell (fx_slug c) (fw_states w), w)
    | None \<Rightarrow>
        (case store_create (fx_slug c) (Whole (fx_legacy c)) (fw_states w) of
          (Inr _, states) \<Rightarrow> (read_cell (fx_slug c) states, w\<lparr>fw_states := states\<rparr>)
        | (Inl e, states) \<Rightarrow>
            (if e = State_Conflict then read_cell (fx_slug c) states else Inl e,
             w\<lparr>fw_states := states\<rparr>)))"

section \<open>The external archive\<close>

text \<open>
  The history is a chain of chunks, newest first; a key a newer chunk wrote or removed hides the
  older rows. The Python loop has no bound: the fuel is one more than the cells of the bucket.
\<close>

fun lay_rows ::
  "string list \<Rightarrow> (string, agent_record) dict \<Rightarrow> (string, agent_record) dict \<Rightarrow> (string, agent_record) dict" where
  "lay_rows seen rows [] = rows"
| "lay_rows seen rows ((k, row) # chunk) =
    lay_rows seen (if k \<in> set seen then rows else dset k row rows) chunk"

fun archive_walk ::
  "nat \<Rightarrow> fcell mem_store \<Rightarrow> string \<Rightarrow> (string, agent_record) dict \<Rightarrow> string list \<Rightarrow>
   fault + (string, agent_record) dict" where
  "archive_walk n states [] rows seen = Inr rows"
| "archive_walk 0 states (r # ref) rows seen = Inl No_Return"
| "archive_walk (Suc n) states (r # ref) rows seen =
    (case store_get states (r # ref) of
      None \<Rightarrow> Inl (Swarm_Error ''referenced execution archive is unavailable'')
    | Some entry \<Rightarrow>
        (case se_value entry of
          Whole _ \<Rightarrow> Inl (Key_Error ''rows'')
        | Chunk parent chunk removed \<Rightarrow>
            archive_walk n states parent (lay_rows seen rows chunk) (seen @ map fst chunk @ removed)))"

definition archive_rows :: "fcell mem_store \<Rightarrow> string \<Rightarrow> fault + (string, agent_record) dict" where
  "archive_rows states ref = archive_walk (Suc (length (ms_history states))) states ref [] []"

definition save_archive_chunk ::
  "fctx \<Rightarrow> string \<Rightarrow> (string, agent_record) dict \<Rightarrow> string list \<Rightarrow> fworld \<Rightarrow> (fault + string) \<times> fworld" where
  "save_archive_chunk c parent rows removed w =
    (let cell = Chunk parent rows removed;
         ref = fx_slug c @ '':archive:'' @ fx_sha c cell
     in case store_create ref cell (fw_states w) of
          (Inr _, states) \<Rightarrow> (Inr ref, w\<lparr>fw_states := states\<rparr>)
        | (Inl e, _) \<Rightarrow>
            if e \<noteq> State_Conflict then (Inl e, w)
            else (case store_get (fw_states w) ref of
                    Some entry \<Rightarrow> if se_value entry = cell then (Inr ref, w) else (Inl e, w)
                  | None \<Rightarrow> (Inl e, w)))"

definition archive_lookup_ref :: "fdoc \<Rightarrow> string" where
  "archive_lookup_ref doc = (case fd_archive_ref doc of None \<Rightarrow> '''' | Some ref \<Rightarrow> ref)"

definition hydrate_archive :: "fdoc \<Rightarrow> fworld \<Rightarrow> fault + fdoc" where
  "hydrate_archive doc w =
    and_then (archive_rows (fw_states w) (archive_lookup_ref doc)) (\<lambda>rows.
      Inr (doc\<lparr>fd_archive := dmerge rows (fd_archive doc)\<rparr>))"

definition archived_row :: "fdoc \<Rightarrow> fworld \<Rightarrow> string \<Rightarrow> fault + agent_record option" where
  "archived_row doc w execution_id =
    and_then (archive_rows (fw_states w) (archive_lookup_ref doc)) (\<lambda>rows. Inr (dget rows execution_id))"

text \<open>A row is a non-empty dict, so \<open>a or b or c\<close> takes the first that is found.\<close>

definition execution_row :: "fdoc \<Rightarrow> fworld \<Rightarrow> string \<Rightarrow> fault + agent_record option" where
  "execution_row doc w execution_id =
    (case dget (fd_executions doc) execution_id of
      Some row \<Rightarrow> Inr (Some row)
    | None \<Rightarrow>
        (case dget (fd_archive doc) execution_id of
          Some row \<Rightarrow> Inr (Some row)
        | None \<Rightarrow> archived_row doc w execution_id))"

fun batches :: "nat \<Rightarrow> 'a list \<Rightarrow> 'a list list" where
  "batches n [] = []"
| "batches 0 (x # xs) = [x # xs]"
| "batches (Suc n) (x # xs) = take (Suc n) (x # xs) # batches (Suc n) (drop (Suc n) (x # xs))"

fun save_batches ::
  "fctx \<Rightarrow> (string, agent_record) dict list \<Rightarrow> string \<Rightarrow> fworld \<Rightarrow> (fault + string) \<times> fworld" where
  "save_batches c [] ref w = (Inr ref, w)"
| "save_batches c (batch # rest) ref w =
    (case save_archive_chunk c ref batch [] w of
      (Inl e, w') \<Rightarrow> (Inl e, w')
    | (Inr ref', w') \<Rightarrow> save_batches c rest ref' w')"

definition externalize_archive :: "fctx \<Rightarrow> fdoc \<Rightarrow> fworld \<Rightarrow> (fault + fdoc) \<times> fworld" where
  "externalize_archive c doc w =
    (case fd_archive_ref doc of
      None \<Rightarrow> (Inr doc, w)
    | Some reference \<Rightarrow>
        (case archive_rows (fw_states w) reference of
          Inl e \<Rightarrow> (Inl e, w)
        | Inr previous \<Rightarrow>
            let rows = fd_archive doc;
                changed = filter (\<lambda>(k, row). dget previous k \<noteq> Some row) rows;
                removed = sort (filter (\<lambda>k. \<not> dhas rows k) (map fst previous))
            in case (if removed = [] then (Inr reference, w)
                     else save_archive_chunk c reference [] removed w) of
                 (Inl e, w1) \<Rightarrow> (Inl e, w1)
               | (Inr ref1, w1) \<Rightarrow>
                   (case save_batches c (batches 64 changed) ref1 w1 of
                     (Inl e, w2) \<Rightarrow> (Inl e, w2)
                   | (Inr ref2, w2) \<Rightarrow>
                       (Inr (doc\<lparr>fd_archive_ref := Some ref2, fd_archive := []\<rparr>), w2))))"

section \<open>Changes\<close>

text \<open>
  A change runs on a copy of the document and may save archive chunks or raise; what it returns
  is its result and the changed document.
\<close>

type_synonym 'r fchange = "fdoc \<Rightarrow> fworld \<Rightarrow> (fault + 'r \<times> fdoc) \<times> fworld"

definition plain_change :: "(fdoc \<Rightarrow> fault + 'r \<times> fdoc) \<Rightarrow> 'r fchange" where
  "plain_change f doc w = (f doc, w)"

definition change_with_archive :: "fctx \<Rightarrow> 'r fchange \<Rightarrow> 'r fchange" where
  "change_with_archive c change doc w =
    (case hydrate_archive doc w of
      Inl e \<Rightarrow> (Inl e, w)
    | Inr doc1 \<Rightarrow>
        (case change doc1 w of
          (Inl e, w1) \<Rightarrow> (Inl e, w1)
        | (Inr (r, doc2), w1) \<Rightarrow>
            (case externalize_archive c doc2 w1 of
              (Inl e, w2) \<Rightarrow> (Inl e, w2)
            | (Inr doc3, w2) \<Rightarrow> (Inr (r, doc3), w2))))"

section \<open>Refusal counts\<close>

definition count_key :: "fctx \<Rightarrow> string \<Rightarrow> string" where
  "count_key c part = fx_slug c @ ''.'' @ part"

definition fencing_count :: "fctx \<Rightarrow> string \<Rightarrow> fworld \<Rightarrow> int" where
  "fencing_count c part w =
    (case store_get (fw_counters w) (count_key c part) of
      None \<Rightarrow> fx_legacy_count c part
    | Some entry \<Rightarrow> se_value entry)"

fun bump_loop :: "fctx \<Rightarrow> string \<Rightarrow> (fworld \<Rightarrow> fworld) list \<Rightarrow> fworld \<Rightarrow> (fault + unit) \<times> fworld" where
  "bump_loop c part [] w = (Inl contention, w)"
| "bump_loop c part (env # envs) w =
    (let key = count_key c part;
         w1 = env w;
         (res, counters) =
           (case store_get (fw_counters w) key of
             None \<Rightarrow> store_create key (fencing_count c part w + 1) (fw_counters w1)
           | Some entry \<Rightarrow> store_update key (se_value entry + 1) (se_revision entry) (fw_counters w1));
         w2 = w1\<lparr>fw_counters := counters\<rparr>
     in case res of
          Inr _ \<Rightarrow> (Inr (), w2)
        | Inl e \<Rightarrow> if e = State_Conflict then bump_loop c part envs w2 else (Inl e, w2))"

definition bump :: "fctx \<Rightarrow> string \<Rightarrow> fworld \<Rightarrow> (fault + unit) \<times> fworld" where
  "bump c part w = bump_loop c part (fx_count_others c) w"

text \<open>A change that counts its refusal raises \<open>Counted part msg\<close>: the count, then the exception.\<close>

definition count_refusal :: "fctx \<Rightarrow> (fault + 'a) \<times> fworld \<Rightarrow> (fault + 'a) \<times> fworld" where
  "count_refusal c out =
    (case out of
      (Inl (Counted part msg), w) \<Rightarrow>
        (case bump c part w of
          (Inr _, w') \<Rightarrow> (Inl (Counted part msg), w')
        | (Inl e, w') \<Rightarrow> (Inl e, w'))
    | _ \<Rightarrow> out)"

section \<open>The write\<close>

text \<open>
  \<open>moved\<close> is what the per record layout answers for a document that says it moved there
  (\<open>_write_records\<close>); it keeps its rows outside the two buckets.
\<close>

definition fencing_step ::
  "fctx \<Rightarrow> (fault + 'r) \<Rightarrow> 'r fchange \<Rightarrow> fdoc \<Rightarrow> fworld \<Rightarrow> (fault + 'r \<times> fdoc option) \<times> fworld" where
  "fencing_step c moved change doc w =
    (if fd_moved doc
     then count_refusal c (case moved of Inl e \<Rightarrow> Inl e | Inr r \<Rightarrow> Inr (r, None), w)
     else
       case count_refusal c (change doc w) of
         (Inl e, w1) \<Rightarrow> (Inl e, w1)
       | (Inr (r, doc1), w1) \<Rightarrow>
           (case (if fd_archive doc1 \<noteq> [] \<and> fd_archive_ref doc1 \<noteq> None
                  then (case hydrate_archive doc1 w1 of
                          Inl e \<Rightarrow> (Inl e, w1)
                        | Inr doc2 \<Rightarrow> externalize_archive c doc2 w1)
                  else (Inr doc1, w1)) of
              (Inl e, w2) \<Rightarrow> (Inl e, w2)
            | (Inr doc2, w2) \<Rightarrow>
                if doc_eq doc2 doc then (Inr (r, None), w2) else (Inr (r, Some doc2), w2)))"

definition fencing_commit :: "fctx \<Rightarrow> fdoc \<Rightarrow> nat \<Rightarrow> fworld \<Rightarrow> fault + fworld" where
  "fencing_commit c doc revision w =
    (case store_update (fx_slug c) (Whole doc) revision (fw_states w) of
      (Inl e, _) \<Rightarrow> Inl e
    | (Inr _, states) \<Rightarrow> Inr (w\<lparr>fw_states := states\<rparr>))"

definition fencing_write ::
  "fctx \<Rightarrow> (fault + 'r) \<Rightarrow> 'r fchange \<Rightarrow> (fworld \<Rightarrow> fworld) list \<Rightarrow> fworld \<Rightarrow> (fault + 'r) \<times> fworld" where
  "fencing_write c moved change others w =
    cas_loop (fencing_entry c) (fencing_step c moved change) (fencing_commit c) contention others w"

definition fencing_read :: "fctx \<Rightarrow> (fault + fdoc) \<Rightarrow> fworld \<Rightarrow> (fault + fdoc) \<times> fworld" where
  "fencing_read c moved w =
    (case fencing_entry c w of
      (Inl e, w1) \<Rightarrow> (Inl e, w1)
    | (Inr (doc, _), w1) \<Rightarrow> (if fd_moved doc then moved else hydrate_archive doc w1, w1))"

definition migrate_archive_change :: "fctx \<Rightarrow> unit fchange" where
  "migrate_archive_change c doc w =
    (case hydrate_archive doc w of
      Inl e \<Rightarrow> (Inl e, w)
    | Inr doc1 \<Rightarrow>
        let doc2 = (if fd_archive_ref doc1 = None then doc1\<lparr>fd_archive_ref := Some ''''\<rparr> else doc1)
        in case externalize_archive c doc2 w of
             (Inl e, w1) \<Rightarrow> (Inl e, w1)
           | (Inr doc3, w1) \<Rightarrow> (Inr ((), doc3), w1))"

definition migrate_archive ::
  "fctx \<Rightarrow> (fault + unit) \<Rightarrow> bool \<Rightarrow> (fworld \<Rightarrow> fworld) list \<Rightarrow> fworld \<Rightarrow> (fault + unit) \<times> fworld" where
  "migrate_archive c moved writers_upgraded others w =
    (if \<not> writers_upgraded
     then (Inl (Swarm_Error ''upgrade every live fencing writer before migrating the archive''), w)
     else fencing_write c moved (migrate_archive_change c) others w)"

definition replace_change :: "fctx \<Rightarrow> fdoc option \<Rightarrow> unit fchange" where
  "replace_change c saved doc w =
    (let restored = (case saved of None \<Rightarrow> fx_legacy c | Some d \<Rightarrow> d)\<lparr>fd_moved := False\<rparr>
     in if fd_archive_ref restored = None then (Inr ((), restored), w)
        else case externalize_archive c (restored\<lparr>fd_archive_ref := Some ''''\<rparr>) w of
               (Inl e, w1) \<Rightarrow> (Inl e, w1)
             | (Inr doc1, w1) \<Rightarrow> (Inr ((), doc1), w1))"

definition fencing_replace ::
  "fctx \<Rightarrow> (fault + unit) \<Rightarrow> fdoc option \<Rightarrow> (fworld \<Rightarrow> fworld) list \<Rightarrow> fworld \<Rightarrow> (fault + unit) \<times> fworld" where
  "fencing_replace c moved saved others w = fencing_write c moved (replace_change c saved) others w"

end
