(* ===== verification/Fencing_Laws.thy ===== *)
theory Fencing_Laws
  imports Fencing
begin

text \<open>
  What the fencing write promises: the two buckets keep the store's invariant, a write commits
  on the very document its change read, and the external archive stores what was handed to it.
\<close>

section \<open>The buckets\<close>

definition fw_inv :: "fworld \<Rightarrow> bool" where
  "fw_inv w \<longleftrightarrow> store_inv (fw_states w) \<and> store_inv (fw_counters w)"

definition fw_ev :: "fworld \<Rightarrow> fworld \<Rightarrow> bool" where
  "fw_ev w w' \<longleftrightarrow> store_ev (fw_states w) (fw_states w') \<and> store_ev (fw_counters w) (fw_counters w')"

definition fencing_rd :: "fctx \<Rightarrow> fworld \<Rightarrow> (fdoc \<times> nat) option" where
  "fencing_rd c w = (case read_cell (fx_slug c) (fw_states w) of Inl _ \<Rightarrow> None | Inr dr \<Rightarrow> Some dr)"

lemma fw_ev_refl [simp]: "fw_inv w \<Longrightarrow> fw_ev w w"
  by (simp add: fw_ev_def fw_inv_def)

lemma fw_ev_trans: "fw_ev a b \<Longrightarrow> fw_ev b d \<Longrightarrow> fw_ev a d"
  by (auto simp: fw_ev_def intro: store_ev_trans)

lemma fw_ev_inv: "fw_ev w w' \<Longrightarrow> fw_inv w'"
  by (auto simp: fw_ev_def fw_inv_def intro: store_ev_inv)

lemma fencing_rd_Some:
  "fencing_rd c w = Some (doc, r) \<longleftrightarrow> store_rd (fx_slug c) (fw_states w) = Some (Whole doc, r)"
  by (auto simp: fencing_rd_def read_cell_def store_rd_def split: option.splits fcell.splits sum.splits)

lemma fencing_rd_stable:
  assumes "fw_inv w" "fw_ev w w'" "fencing_rd c w = Some (v, r)" "fencing_rd c w' = Some (v', r)"
  shows "v' = v"
proof -
  have "Whole v' = Whole v"
    using assms by (intro mem.rd_stable[of "fw_states w" "fw_states w'" "fx_slug c"])
      (auto simp: fencing_rd_Some fw_inv_def fw_ev_def)
  then show ?thesis by simp
qed

lemma fencing_commit_Inr:
  "fencing_commit c doc r w = Inr w' \<longleftrightarrow>
    store_commit (fx_slug c) (Whole doc) r (fw_states w) = Inr (fw_states w') \<and>
    fw_counters w' = fw_counters w \<and> w' = w\<lparr>fw_states := fw_states w'\<rparr>"
  by (cases w; cases w')
    (auto simp: fencing_commit_def store_commit_def split: prod.splits sum.splits)

text \<open>
  Keys of archive chunks carry the infix \<open>:archive:\<close>, so the document is always a whole cell;
  the world invariant says so.
\<close>

definition fdoc_inv :: "fctx \<Rightarrow> fworld \<Rightarrow> bool" where
  "fdoc_inv c w \<longleftrightarrow> fw_inv w \<and>
    (\<forall>e. store_get (fw_states w) (fx_slug c) = Some e \<longrightarrow> (\<exists>doc. se_value e = Whole doc))"

definition fdoc_ev :: "fctx \<Rightarrow> fworld \<Rightarrow> fworld \<Rightarrow> bool" where
  "fdoc_ev c w w' \<longleftrightarrow> fw_ev w w' \<and> fdoc_inv c w'"

lemma fdoc_ev_refl [simp]: "fdoc_inv c w \<Longrightarrow> fdoc_ev c w w"
  by (simp add: fdoc_ev_def fdoc_inv_def)

lemma fdoc_ev_trans: "fdoc_ev c a b \<Longrightarrow> fdoc_ev c b d \<Longrightarrow> fdoc_ev c a d"
  by (auto simp: fdoc_ev_def intro: fw_ev_trans)

lemma store_update_ev_get:
  assumes "store_inv s" "store_update k v r s = (Inr n, s')"
  shows "store_ev s s' \<and> store_get s' k' = (if k' = k then Some \<lparr>se_key = k, se_value = v, se_revision = n\<rparr> else store_get s k')"
  using assms store_get_put[of k v s n s' k'] by (auto simp: store_update_Inr intro: store_ev_put)

lemma fencing_commit_ev:
  assumes "fdoc_inv c w" "fencing_commit c v r w = Inr w'"
  shows "fdoc_ev c w w'"
proof -
  obtain n where n: "store_update (fx_slug c) (Whole v) r (fw_states w) = (Inr n, fw_states w')"
      "fw_counters w' = fw_counters w"
    using assms(2) by (auto simp: fencing_commit_Inr store_commit_Inr)
  have inv: "store_inv (fw_states w)" "store_inv (fw_counters w)"
    using assms(1) by (simp_all add: fdoc_inv_def fw_inv_def)
  have "store_ev (fw_states w) (fw_states w')"
      "store_get (fw_states w') (fx_slug c) = Some \<lparr>se_key = fx_slug c, se_value = Whole v, se_revision = n\<rparr>"
    using store_update_ev_get[OF inv(1) n(1), of "fx_slug c"] by auto
  then show ?thesis
    using n(2) inv by (auto simp: fdoc_ev_def fdoc_inv_def fw_ev_def fw_inv_def dest: store_ev_inv)
qed

lemma fencing_commit_rd:
  assumes "fdoc_inv c w" "fencing_commit c v r w = Inr w'"
  shows "\<exists>r'. r < r' \<and> fencing_rd c w' = Some (v, r')"
  using assms mem.commit_rd[of "fw_states w" "fx_slug c" "Whole v" r "fw_states w'"]
  by (auto simp: fencing_commit_Inr fencing_rd_Some fdoc_inv_def fw_inv_def)

lemma fencing_commit_read:
  assumes "fdoc_inv c w" "fencing_commit c v r w = Inr w'"
  shows "\<exists>v0. fencing_rd c w = Some (v0, r)"
  using assms
  by (auto simp: fencing_commit_Inr store_commit_Inr store_update_Inr fencing_rd_Some store_rd_def
      fdoc_inv_def)

lemma fencing_commit_free:
  assumes "fdoc_inv c w" "fencing_rd c w = Some (v0, r)"
  shows "fencing_commit c v r w \<noteq> Inl State_Conflict"
  using assms mem.commit_free[of "fw_states w" "fx_slug c" "Whole v0" r "Whole v"]
  by (auto simp: fencing_commit_def store_commit_def fencing_rd_Some fdoc_inv_def
      fw_inv_def split: prod.splits sum.splits)

lemma fencing_commit_fault: "fencing_commit c v r w \<noteq> Inl contention"
  using store_commit_Inl[of "fx_slug c" "Whole v" r "fw_states w" contention]
  by (auto simp: fencing_commit_def store_commit_def contention_def split: prod.splits sum.splits)

interpretation fdoc: cas_store_live "fdoc_inv c" "fdoc_ev c" "fencing_rd c" "fencing_commit c" for c
proof (unfold_locales, goal_cases)
  case (4 w w' v r v')
  then show ?case by (auto simp: fdoc_inv_def fdoc_ev_def intro: fencing_rd_stable)
next
  case (3 w w')
  then show ?case by (simp add: fdoc_ev_def)
qed (auto intro: fdoc_ev_trans fencing_commit_ev fencing_commit_rd fencing_commit_read
    simp: fencing_commit_free)

section \<open>What a change may touch\<close>

text \<open>Everything but the document may move while a change runs: chunks and counters.\<close>

definition aside :: "fctx \<Rightarrow> fworld \<Rightarrow> fworld \<Rightarrow> bool" where
  "aside c w w' \<longleftrightarrow> fdoc_ev c w w' \<and> fencing_rd c w' = fencing_rd c w"

definition others_ok :: "fctx \<Rightarrow> (fworld \<Rightarrow> fworld) list \<Rightarrow> bool" where
  "others_ok c others \<longleftrightarrow> (\<forall>env \<in> set others. \<forall>w. fdoc_inv c w \<longrightarrow> fdoc_ev c w (env w))"

definition counts_ok :: "fctx \<Rightarrow> bool" where
  "counts_ok c \<longleftrightarrow> (\<forall>env \<in> set (fx_count_others c). \<forall>w. fdoc_inv c w \<longrightarrow> aside c w (env w))"

definition change_ok :: "fctx \<Rightarrow> 'r fchange \<Rightarrow> bool" where
  "change_ok c change \<longleftrightarrow> (\<forall>doc w. fdoc_inv c w \<longrightarrow> aside c w (snd (change doc w)))"

named_theorems aside_intros \<open>the parts of a write that leave the document alone\<close>

lemma aside_refl [aside_intros]: "fdoc_inv c w \<Longrightarrow> aside c w w"
  by (simp add: aside_def)

lemma aside_trans: "aside c a b \<Longrightarrow> aside c b d \<Longrightarrow> aside c a d"
  by (auto simp: aside_def intro: fdoc_ev_trans)

lemma aside_inv: "aside c w w' \<Longrightarrow> fdoc_inv c w'"
  by (simp add: aside_def fdoc_ev_def)

lemma aside_create:
  assumes "fdoc_inv c w" "k \<noteq> fx_slug c" "store_create k v (fw_states w) = (res, states)"
  shows "aside c w (w\<lparr>fw_states := states\<rparr>)"
proof -
  have ev: "store_ev (fw_states w) states"
    using assms by (auto simp: fdoc_inv_def fw_inv_def intro: store_ev_create)
  have same: "store_get states (fx_slug c) = store_get (fw_states w) (fx_slug c)"
    using assms(2,3)
    by (cases res) (auto dest: store_create_Inl simp: store_create_Inr store_get_put)
  show ?thesis
    using assms(1) ev same store_ev_inv[OF ev]
    by (auto simp: aside_def fdoc_ev_def fw_ev_def fdoc_inv_def fw_inv_def fencing_rd_def read_cell_def)
qed

lemma aside_counters:
  assumes "fdoc_inv c w" "store_ev (fw_counters w) counters"
  shows "aside c w (w\<lparr>fw_counters := counters\<rparr>)"
  using assms store_ev_inv[OF assms(2)]
  by (auto simp: aside_def fdoc_ev_def fw_ev_def fdoc_inv_def fw_inv_def fencing_rd_def)

lemma aside_save_chunk [aside_intros]:
  "fdoc_inv c w \<Longrightarrow> aside c w (snd (save_archive_chunk c parent rows removed w))"
  by (auto simp: save_archive_chunk_def Let_def intro: aside_create aside_refl
      split: prod.splits sum.splits option.splits if_splits)

lemma aside_save_batches [aside_intros]:
  "fdoc_inv c w \<Longrightarrow> aside c w (snd (save_batches c bs ref w))"
proof (induction bs arbitrary: ref w)
  case (Cons b bs)
  have "aside c w (snd (save_archive_chunk c ref b [] w))"
    using Cons.prems by (rule aside_save_chunk)
  then show ?case
    by (auto intro: aside_trans[OF _ Cons.IH[OF aside_inv]] split: prod.splits sum.splits)
qed (simp add: aside_refl)

lemma aside_externalize [aside_intros]:
  assumes "fdoc_inv c w"
  shows "aside c w (snd (externalize_archive c doc w))"
proof -
  have step: "aside c w w1 \<Longrightarrow> aside c w (snd (save_batches c bs ref w1))" for w1 bs ref
    using aside_trans aside_inv aside_save_batches by blast
  have first: "save_archive_chunk c ref [] gone w = (res, w1) \<Longrightarrow> aside c w w1" for ref gone res w1
    using aside_save_chunk[OF assms, of ref "[]" gone] by simp
  have second: "aside c w w1 \<Longrightarrow> save_batches c bs ref w1 = (res, w2) \<Longrightarrow> aside c w w2" for w1 bs ref res w2
    using step[of w1 bs ref] by simp
  show ?thesis
    by (auto simp: externalize_archive_def Let_def aside_refl assms
        intro: first second[OF first] second[OF aside_refl[OF assms]]
        split: option.splits sum.splits prod.splits)
qed

lemma aside_bump_loop:
  assumes "\<forall>env \<in> set envs. \<forall>w. fdoc_inv c w \<longrightarrow> aside c w (env w)" "fdoc_inv c w"
  shows "aside c w (snd (bump_loop c part envs w))"
  using assms
proof (induction envs arbitrary: w)
  case (Cons env envs)
  define put where "put = (case store_get (fw_counters w) (count_key c part) of
      None \<Rightarrow> store_create (count_key c part) (fencing_count c part w + 1) (fw_counters (env w))
    | Some entry \<Rightarrow> store_update (count_key c part) (se_value entry + 1) (se_revision entry) (fw_counters (env w)))"
  obtain res counters where put: "put = (res, counters)" by fastforce
  have a1: "aside c w (env w)" using Cons.prems by simp
  have inv: "fdoc_inv c (env w)" using a1 by (rule aside_inv)
  have "store_ev (fw_counters (env w)) counters"
    using put inv unfolding put_def
    by (auto simp: fdoc_inv_def fw_inv_def split: option.splits intro: store_ev_create store_ev_update)
  then have a2: "aside c w ((env w)\<lparr>fw_counters := counters\<rparr>)" (is "aside c w ?w2")
    using aside_counters[OF inv] a1 aside_trans by blast
  then have a3: "aside c w (snd (bump_loop c part envs ?w2))"
    using Cons.IH[of ?w2] Cons.prems(1) aside_trans aside_inv by (metis list.set_intros(2))
  show ?case
    using a2 a3 put[unfolded put_def] by (auto simp: Let_def split: sum.splits)
qed (simp add: aside_refl)

lemma aside_count_refusal:
  assumes "counts_ok c" "fdoc_inv c w"
  shows "aside c w (snd (count_refusal c (out, w)))"
proof -
  have "aside c w (snd (bump c part w))" for part
    unfolding bump_def using assms by (intro aside_bump_loop) (auto simp: counts_ok_def)
  then have "bump c part w = (res, w') \<Longrightarrow> aside c w w'" for part res w' by (metis snd_conv)
  then show ?thesis
    using assms(2) by (auto simp: count_refusal_def aside_refl split: sum.splits fault.splits prod.splits)
qed

lemma count_refusal_Inr [simp]: "count_refusal c out = (Inr r, w) \<longleftrightarrow> out = (Inr r, w)"
  by (cases out) (auto simp: count_refusal_def split: sum.splits fault.splits prod.splits)

section \<open>The write is atomic\<close>

lemma fencing_entry_reads: "fdoc.reads c (fencing_entry c)"
proof -
  have "fdoc_ev c w w1 \<and> (\<forall>v r. res = Inr (v, r) \<longrightarrow> fencing_rd c w1 = Some (v, r))"
    if inv: "fdoc_inv c w" and load: "fencing_entry c w = (res, w1)" for w res w1
  proof (cases "store_get (fw_states w) (fx_slug c)")
    case (Some e)
    then show ?thesis using inv load by (auto simp: fencing_entry_def fencing_rd_def)
  next
    case None
    obtain cres states where cr: "store_create (fx_slug c) (Whole (fx_legacy c)) (fw_states w) = (cres, states)"
      by fastforce
    have ev: "store_ev (fw_states w) states"
      using inv cr by (auto simp: fdoc_inv_def fw_inv_def intro: store_ev_create)
    have cell: "store_get states (fx_slug c) = Some e \<Longrightarrow> \<exists>doc. se_value e = Whole doc" for e
      using cr None by (cases cres) (auto dest: store_create_Inl simp: store_create_Inr store_get_put)
    have "fdoc_ev c w (w\<lparr>fw_states := states\<rparr>)"
      using inv ev store_ev_inv[OF ev] cell
      by (auto simp: fdoc_ev_def fw_ev_def fdoc_inv_def fw_inv_def)
    moreover have "w1 = w\<lparr>fw_states := states\<rparr>"
      using load None cr by (auto simp: fencing_entry_def split: sum.splits if_splits)
    moreover have "res = Inr (v, r) \<Longrightarrow> fencing_rd c w1 = Some (v, r)" for v r
      using load None cr by (auto simp: fencing_entry_def fencing_rd_def split: sum.splits if_splits)
    ultimately show ?thesis by blast
  qed
  then show ?thesis unfolding fdoc.reads_def by blast
qed

lemma fencing_step_aside:
  assumes "counts_ok c" "change_ok c change" "fdoc_inv c w"
  shows "aside c w (snd (fencing_step c moved change doc w))"
proof (cases "fd_moved doc")
  case True
  then show ?thesis using aside_count_refusal[OF assms(1,3)] by (simp add: fencing_step_def)
next
  case False
  obtain out w0 where chg: "change doc w = (out, w0)" by fastforce
  have a0: "aside c w w0" using assms(2,3) chg by (metis change_ok_def snd_conv)
  obtain cres w1 where cnt: "count_refusal c (out, w0) = (cres, w1)" by fastforce
  have "aside c w0 w1" using aside_count_refusal[OF assms(1) aside_inv[OF a0], of out] cnt by simp
  then have a1: "aside c w w1" using a0 aside_trans by blast
  have ext: "externalize_archive c d w1 = (res, w2) \<Longrightarrow> aside c w w2" for d res w2
    using aside_externalize[OF aside_inv[OF a1], of d] a1 aside_trans by fastforce
  show ?thesis
    using False chg cnt a1 ext
    by (auto simp: fencing_step_def Let_def split: sum.splits prod.splits if_splits)
qed

lemma fencing_step_quiet:
  "counts_ok c \<Longrightarrow> change_ok c change \<Longrightarrow> fdoc.quiet c (fencing_step c moved change)"
  unfolding fdoc.quiet_def by (metis fencing_step_aside[unfolded aside_def] snd_conv)

lemma fdoc_others: "fdoc.others c others \<longleftrightarrow> others_ok c others"
  by (simp add: fdoc.others_def others_ok_def)

lemmas fencing_loop = fencing_entry_reads fencing_step_quiet fdoc_others[THEN iffD2]

text \<open>What a write that returned has done, for the clients.\<close>

lemma fencing_write_Inr:
  assumes "counts_ok c" "change_ok c change" "others_ok c others" "fdoc_inv c w"
    and "fencing_write c moved change others w = (Inr r, w')"
  obtains doc rvn w1 w2 where "fdoc_ev c w w1" "fdoc_ev c w1 w2" "fencing_rd c w1 = Some (doc, rvn)"
    "(fencing_step c moved change doc w1 = (Inr (r, None), w2) \<and> w' = w2) \<or>
     (\<exists>doc' w3. fencing_step c moved change doc w1 = (Inr (r, Some doc'), w3) \<and>
        fencing_rd c w2 = Some (doc, rvn) \<and> fencing_commit c doc' rvn w2 = Inr w' \<and>
        (\<exists>rvn' > rvn. fencing_rd c w' = Some (doc', rvn')))"
  using fdoc.loop_atomic[OF fencing_loop(1) fencing_loop(2)[OF assms(1,2)] fencing_loop(3)[OF assms(3)]
      assms(4), of moved contention r w'] assms(5)
  unfolding fencing_write_def by blast

lemma fencing_write_ev:
  assumes "counts_ok c" "change_ok c change" "others_ok c others" "fdoc_inv c w"
    and "fencing_write c moved change others w = (res, w')"
  shows "fdoc_ev c w w'"
  using fdoc.loop_ev[OF fencing_loop(1) fencing_loop(2)[OF assms(1,2)] fencing_loop(3)[OF assms(3)]
      assms(4), of moved contention res w'] assms(5)
  unfolding fencing_write_def by blast

text \<open>The step of a change that neither saves chunks nor archives: the changed document itself.\<close>

lemma fencing_step_Inr:
  assumes "fencing_step c moved change doc w = (Inr (r, out), w')" "\<not> fd_moved doc"
  obtains doc1 w1 where "change doc w = (Inr (r, doc1), w1)"
    "out = None \<and> fd_archive_ref doc1 = None \<longrightarrow> doc_eq doc1 doc"
    "\<And>d. out = Some d \<Longrightarrow> fd_archive_ref doc1 = None \<or> fd_archive doc1 = [] \<Longrightarrow> d = doc1 \<and> w' = w1"
  using assms
  by (auto simp: fencing_step_def split: sum.splits prod.splits if_splits)

text \<open>
  What the write makes of the document a change left: the archive rows it gained are laid out in chunks after the earlier
  ones were read back, every other document is written as the change left it.
\<close>

definition laid_out :: "fctx \<Rightarrow> fdoc \<Rightarrow> fworld \<Rightarrow> fdoc \<Rightarrow> fworld \<Rightarrow> bool" where
  "laid_out c doc1 w1 doc2 w2 \<longleftrightarrow>
    (if fd_archive doc1 \<noteq> [] \<and> fd_archive_ref doc1 \<noteq> None
     then (\<exists>whole. hydrate_archive doc1 w1 = Inr whole \<and> externalize_archive c whole w1 = (Inr doc2, w2))
     else doc2 = doc1 \<and> w2 = w1)"

lemma fencing_step_laid:
  assumes "fencing_step c moved change doc w = (Inr (r, out), w')"
  shows "if fd_moved doc then moved = Inr r \<and> out = None
    else \<exists>doc1 w1 doc2. change doc w = (Inr (r, doc1), w1) \<and> laid_out c doc1 w1 doc2 w' \<and> out = (if doc_eq doc2 doc then None else Some doc2)"
proof (cases "fd_moved doc")
  case True
  have "count_refusal c (case moved of Inl e \<Rightarrow> Inl e | Inr r \<Rightarrow> Inr (r, None), w) = (Inr (r, out), w')"
    using assms True by (simp add: fencing_step_def)
  then show ?thesis using True by (cases moved) auto
next
  case False
  obtain res w1 where res: "count_refusal c (change doc w) = (res, w1)" by fastforce
  then obtain r1 doc1 where "res = Inr (r1, doc1)" using assms False by (cases res) (auto simp: fencing_step_def)
  then have change: "change doc w = (Inr (r1, doc1), w1)" using res by simp
  have later: "(case (if fd_archive doc1 \<noteq> [] \<and> fd_archive_ref doc1 \<noteq> None
      then (case hydrate_archive doc1 w1 of Inl e \<Rightarrow> (Inl e, w1) | Inr doc2 \<Rightarrow> externalize_archive c doc2 w1) else (Inr doc1, w1)) of
      (Inl e, w2) \<Rightarrow> (Inl e, w2)
    | (Inr doc2, w2) \<Rightarrow> if doc_eq doc2 doc then (Inr (r1, None), w2) else (Inr (r1, Some doc2), w2)) = (Inr (r, out), w')"
    using assms False res \<open>res = Inr (r1, doc1)\<close> by (simp add: fencing_step_def)
  have "\<exists>doc2. laid_out c doc1 w1 doc2 w' \<and> out = (if doc_eq doc2 doc then None else Some doc2) \<and> r1 = r"
  proof (cases "fd_archive doc1 \<noteq> [] \<and> fd_archive_ref doc1 \<noteq> None")
    case True
    then show ?thesis using later by (auto simp: laid_out_def split: sum.splits prod.splits if_splits)
  next
    case False
    then show ?thesis using later by (auto simp: laid_out_def simp del: not_None_eq split: if_splits)
  qed
  then show ?thesis using False change by auto
qed

text \<open>
  C2: a fencing write that returns took effect at one instant, whatever the other writers did between its reads and
  its writes. There is a document that was current when the write was committed, and the answer is the one its change
  gave on it. What the change left, its new archive rows laid out in chunks, is afterwards the stored document, at a later
  revision; when that is the document it read, nothing was written. A document that moved to the per record layout is
  left to that layout.
\<close>

theorem fencing_write_atomic:
  assumes "counts_ok c" "change_ok c change" "others_ok c others" "fdoc_inv c w"
    and "fencing_write c moved change others w = (Inr r, w')"
  shows "\<exists>doc rvn w1 w2. fdoc_ev c w w1 \<and> fdoc_ev c w1 w2 \<and> fencing_rd c w1 = Some (doc, rvn) \<and>
    (if fd_moved doc then moved = Inr r \<and> w' = w2
     else \<exists>doc1 w3 doc2 w4. change doc w1 = (Inr (r, doc1), w3) \<and> laid_out c doc1 w3 doc2 w4 \<and>
       (if doc_eq doc2 doc then w' = w4
        else fencing_rd c w2 = Some (doc, rvn) \<and> fencing_commit c doc2 rvn w2 = Inr w' \<and> (\<exists>rvn' > rvn. fencing_rd c w' = Some (doc2, rvn'))))"
proof -
  obtain doc rvn w1 w2 where at: "fdoc_ev c w w1" "fdoc_ev c w1 w2" "fencing_rd c w1 = Some (doc, rvn)"
    and out: "(fencing_step c moved change doc w1 = (Inr (r, None), w2) \<and> w' = w2) \<or>
     (\<exists>doc' w3. fencing_step c moved change doc w1 = (Inr (r, Some doc'), w3) \<and>
        fencing_rd c w2 = Some (doc, rvn) \<and> fencing_commit c doc' rvn w2 = Inr w' \<and> (\<exists>rvn' > rvn. fencing_rd c w' = Some (doc', rvn')))"
    by (rule fencing_write_Inr[OF assms])
  from out have "if fd_moved doc then moved = Inr r \<and> w' = w2
     else \<exists>doc1 w3 doc2 w4. change doc w1 = (Inr (r, doc1), w3) \<and> laid_out c doc1 w3 doc2 w4 \<and>
       (if doc_eq doc2 doc then w' = w4
        else fencing_rd c w2 = Some (doc, rvn) \<and> fencing_commit c doc2 rvn w2 = Inr w' \<and> (\<exists>rvn' > rvn. fencing_rd c w' = Some (doc2, rvn')))"
  proof (elim disjE exE conjE)
    assume "fencing_step c moved change doc w1 = (Inr (r, None), w2)" "w' = w2"
    then show ?thesis using fencing_step_laid[of c moved change doc w1 r None w2] by (auto split: if_splits)
  next
    fix doc' w3 rvn' assume "fencing_step c moved change doc w1 = (Inr (r, Some doc'), w3)" "fencing_rd c w2 = Some (doc, rvn)"
      "fencing_commit c doc' rvn w2 = Inr w'" "rvn < rvn'" "fencing_rd c w' = Some (doc', rvn')"
    then show ?thesis using fencing_step_laid[of c moved change doc w1 r "Some doc'" w3] by (auto split: if_splits)
  qed
  then show ?thesis using at by blast
qed

text \<open>Nothing in a step raises the contention error but the change itself, or the count it asks for.\<close>

definition plain_fault :: "fault \<Rightarrow> bool" where
  "plain_fault e \<longleftrightarrow> e \<noteq> contention \<and> (\<forall>part msg. e \<noteq> Counted part msg)"

lemma archive_walk_fault: "archive_walk n states ref rows seen = Inl e \<Longrightarrow> plain_fault e"
  by (induction n states ref rows seen rule: archive_walk.induct)
    (auto simp: plain_fault_def contention_def split: option.splits fcell.splits)

lemma hydrate_fault: "hydrate_archive doc w = Inl e \<Longrightarrow> plain_fault e"
  by (auto simp: hydrate_archive_def and_then_Inl archive_rows_def dest: archive_walk_fault)

lemma save_chunk_fault: "save_archive_chunk c p rows gone w = (Inl e, w') \<Longrightarrow> plain_fault e"
  by (auto simp: save_archive_chunk_def Let_def plain_fault_def contention_def store_create_def
      split: prod.splits sum.splits option.splits if_splits)

lemma save_batches_fault: "save_batches c bs ref w = (Inl e, w') \<Longrightarrow> plain_fault e"
  by (induction c bs ref w rule: save_batches.induct)
    (auto split: prod.splits sum.splits dest: save_chunk_fault)

lemma externalize_fault:
  assumes "externalize_archive c doc w = (Inl e, w')"
  shows "plain_fault e"
  using assms
  by (auto simp: externalize_archive_def Let_def archive_rows_def split: option.splits sum.splits prod.splits if_splits
      dest: archive_walk_fault save_chunk_fault save_batches_fault)

lemma count_refusal_plain:
  "count_refusal c out = (Inl e, w) \<Longrightarrow> (\<And>f. fst out = Inl f \<Longrightarrow> plain_fault f) \<Longrightarrow> plain_fault e"
  by (cases out) (auto simp: count_refusal_def plain_fault_def split: sum.splits fault.splits prod.splits)

lemma fencing_step_fault:
  assumes step: "fencing_step c moved change doc w = (Inl e, w')"
    and "\<And>f. moved = Inl f \<Longrightarrow> plain_fault f"
    and "\<And>doc w f. fst (change doc w) = Inl f \<Longrightarrow> plain_fault f"
  shows "plain_fault e"
proof (cases "fd_moved doc")
  case True
  then have "count_refusal c (case moved of Inl e \<Rightarrow> Inl e | Inr r \<Rightarrow> Inr (r, None :: fdoc option), w) = (Inl e, w')"
    using step by (simp add: fencing_step_def)
  then show ?thesis using count_refusal_plain assms(2) by (force split: sum.splits)
next
  case False
  then consider "count_refusal c (change doc w) = (Inl e, w')"
    | d w1 where "hydrate_archive d w1 = Inl e" | d w1 where "externalize_archive c d w1 = (Inl e, w')"
    using step by (auto simp: fencing_step_def split: sum.splits prod.splits if_splits)
  then show ?thesis
  proof cases
    case 1
    then show ?thesis by (rule count_refusal_plain) (rule assms(3))
  next
    case 2
    then show ?thesis by (rule hydrate_fault)
  next
    case 3
    then show ?thesis by (rule externalize_fault)
  qed
qed

text \<open>
  One attempt the other writers leave alone is enough for a fencing write: if in one of its
  attempts nobody else moves the document, it does not give up with the contention error (unless
  the change itself raises it, or counts a refusal).
\<close>

theorem fencing_write_settles:
  assumes "counts_ok c" "change_ok c change" "others_ok c others" "fdoc_inv c w"
    and "calm \<in> set others" "\<And>w. fdoc_inv c w \<Longrightarrow> fencing_rd c (calm w) = fencing_rd c w"
    and "\<And>f. moved = Inl f \<Longrightarrow> plain_fault f"
    and "\<And>doc w f. fst (change doc w) = Inl f \<Longrightarrow> plain_fault f"
  shows "fst (fencing_write c moved change others w) \<noteq> Inl contention"
proof -
  have load: "fencing_entry c v \<noteq> (Inl contention, v')" for v v'
    by (auto simp: fencing_entry_def read_cell_def contention_def store_create_def Let_def
        split: option.splits fcell.splits if_splits sum.splits prod.splits)
  have step: "fencing_step c moved change doc v \<noteq> (Inl contention, v')" for doc v v'
    using fencing_step_fault[of c moved change doc v contention v'] assms(7,8)
    by (auto simp: plain_fault_def)
  have "fencing_write c moved change others w \<noteq> (Inl contention, w')" for w'
    unfolding fencing_write_def
    by (rule fdoc.loop_live[OF fencing_loop(1) fencing_loop(2)[OF assms(1,2)]
          fencing_loop(3)[OF assms(3)] assms(4-6) load step fencing_commit_fault])
  then show ?thesis by (metis prod.collapse)
qed

end
