(* ===== verification/Archive_Laws.thy ===== *)
theory Archive_Laws
  imports Fencing_Laws
begin

text \<open>
  The external archive of a fencing document (\<open>_archive_rows\<close>, \<open>_externalize_archive\<close>,
  \<open>hydrate_archive\<close> of \<open>scripts/swarm/fencing.py\<close>): the walk along the chunk history returns, and
  hydrating an externalized document gives back the rows that were externalized.
\<close>

section \<open>Well-founded histories\<close>

definition chunk_at :: "fcell mem_store \<Rightarrow> string \<Rightarrow> (nat \<times> string \<times> (string, agent_record) dict \<times> string list) option" where
  "chunk_at states ref =
    (case store_get states ref of
      None \<Rightarrow> None
    | Some e \<Rightarrow> (case se_value e of Whole _ \<Rightarrow> None | Chunk p rows gone \<Rightarrow> Some (se_revision e, p, rows, gone)))"

text \<open>A chunk's parent is the start of the history or an older chunk.\<close>

definition chunks_inv :: "fcell mem_store \<Rightarrow> bool" where
  "chunks_inv states \<longleftrightarrow> store_inv states \<and>
    (\<forall>ref n p rows gone. chunk_at states ref = Some (n, p, rows, gone) \<longrightarrow>
      wf_dict rows \<and> (p = [] \<or> (\<exists>n' x. chunk_at states p = Some (n', x) \<and> n' < n)))"

lemma chunks_invD:
  assumes "chunks_inv states" "chunk_at states ref = Some (n, p, rows, gone)"
  shows "wf_dict rows" "p = [] \<or> (\<exists>n' x. chunk_at states p = Some (n', x) \<and> n' < n)"
  using assms unfolding chunks_inv_def by blast+

lemma chunks_inv_store: "chunks_inv states \<Longrightarrow> store_inv states"
  by (simp add: chunks_inv_def)

lemma chunk_at_revision:
  assumes "store_inv states" "chunk_at states ref = Some (n, x)"
  shows "0 < n \<and> n \<le> length (ms_history states)"
proof -
  obtain e where "store_get states ref = Some e" "se_revision e = n"
    using assms(2) by (auto simp: chunk_at_def split: option.splits fcell.splits)
  then show ?thesis using store_get_nth[OF assms(1)] by fastforce
qed

lemma walk_no_chunk:
  "ref \<noteq> [] \<Longrightarrow> chunk_at states ref = None \<Longrightarrow>
    (\<exists>e. e \<noteq> No_Return \<and> (\<forall>n rows seen. archive_walk (Suc n) states ref rows seen = Inl e))"
  by (cases ref) (auto simp: chunk_at_def split: option.splits fcell.splits)

lemma walk_chunk:
  "ref \<noteq> [] \<Longrightarrow> chunk_at states ref = Some (r, p, chunk, gone) \<Longrightarrow>
    archive_walk (Suc n) states ref rows seen =
      archive_walk n states p (lay_rows seen rows chunk) (seen @ map fst chunk @ gone)"
  by (cases ref) (auto simp: chunk_at_def split: option.splits fcell.splits)

lemma walk_enough:
  assumes "chunks_inv states" "\<And>r x. chunk_at states ref = Some (r, x) \<Longrightarrow> r \<le> n" "n > 0 \<or> ref = []"
  shows "archive_walk n states ref rows seen \<noteq> Inl No_Return"
  using assms(2,3)
proof (induction n arbitrary: ref rows seen)
  case 0
  then show ?case by simp
next
  case (Suc n)
  show ?case
  proof (cases "ref = []")
    case False
    show ?thesis
    proof (cases "chunk_at states ref")
      case None
      then show ?thesis using walk_no_chunk[OF False None] by auto
    next
      case (Some y)
      then obtain r p chunk gone where y: "chunk_at states ref = Some (r, p, chunk, gone)"
        by (cases y) auto
      have rn: "r \<le> Suc n" using Suc.prems(1) y by blast
      have "p = [] \<or> (\<exists>n' x. chunk_at states p = Some (n', x) \<and> n' < r)"
        by (rule chunks_invD(2)[OF assms(1) y])
      then consider "p = []" | n' x where "chunk_at states p = Some (n', x)" "n' < r" by blast
      then have "archive_walk n states p (lay_rows seen rows chunk) (seen @ map fst chunk @ gone) \<noteq> Inl No_Return"
      proof cases
        case 1
        then show ?thesis by (cases n) simp_all
      next
        case 2
        have "0 < n'" using chunk_at_revision[OF chunks_inv_store[OF assms(1)] 2(1)] by simp
        then show ?thesis using 2 rn by (intro Suc.IH) auto
      qed
      then show ?thesis using walk_chunk[OF False y] by simp
    qed
  qed simp
qed

lemma walk_fuel:
  "archive_walk n states ref rows seen \<noteq> Inl No_Return \<Longrightarrow> n \<le> m \<Longrightarrow>
    archive_walk m states ref rows seen = archive_walk n states ref rows seen"
proof (induction n arbitrary: m ref rows seen)
  case 0
  then show ?case by (cases ref) simp_all
next
  case (Suc n)
  obtain m' where m': "m = Suc m'" "n \<le> m'" using Suc.prems(2) by (cases m) auto
  show ?case
  proof (cases "ref = []")
    case False
    show ?thesis
    proof (cases "chunk_at states ref")
      case None
      then show ?thesis using walk_no_chunk[OF False None] unfolding m'(1) by metis
    next
      case (Some y)
      obtain a p chunk gone where y: "chunk_at states ref = Some (a, p, chunk, gone)"
        using Some by (cases y) auto
      show ?thesis
        using Suc.prems(1) unfolding m'(1) walk_chunk[OF False y]
        by (rule Suc.IH[OF _ m'(2)])
    qed
  qed simp
qed

lemma archive_rows_fuel:
  assumes "chunks_inv states" "length (ms_history states) \<le> n" "0 < n \<or> ref = []"
  shows "archive_walk n states ref [] [] = archive_rows states ref"
proof -
  have inv: "store_inv states" using assms(1) by (simp add: chunks_inv_def)
  have bound: "chunk_at states ref = Some (r, x) \<Longrightarrow> r \<le> n" for r x
    using chunk_at_revision[OF inv] assms(2) order_trans by blast
  have ok: "archive_walk n states ref [] [] \<noteq> Inl No_Return"
    by (rule walk_enough[OF assms(1) bound assms(3)])
  show ?thesis
  proof (cases "n \<le> Suc (length (ms_history states))")
    case True
    then show ?thesis unfolding archive_rows_def by (rule walk_fuel[OF ok, symmetric])
  next
    case False
    have "archive_walk (Suc (length (ms_history states))) states ref [] [] \<noteq> Inl No_Return"
      using chunk_at_revision[OF inv] by (intro walk_enough[OF assms(1)]) force+
    then show ?thesis unfolding archive_rows_def using False by (intro walk_fuel) auto
  qed
qed

section \<open>What a walk finds\<close>

lemma dget_lay_rows:
  "wf_dict chunk \<Longrightarrow> dget (lay_rows seen rows chunk) k =
    (if k \<notin> set seen \<and> k \<in> fst ` set chunk then dget chunk k else dget rows k)"
  by (induction seen rows chunk rule: lay_rows.induct) (auto simp: dget_dset map_of_eq_None_iff)

lemma walk_ok_any:
  "(\<exists>out. archive_walk n states ref rows seen = Inr out) \<Longrightarrow> (\<exists>out. archive_walk n states ref rows' seen' = Inr out)"
proof (induction n arbitrary: ref rows seen rows' seen')
  case 0
  then show ?case by (cases ref) simp_all
next
  case (Suc n)
  show ?case
  proof (cases ref)
    case (Cons r rs)
    then show ?thesis using Suc.prems Suc.IH by (force split: option.splits fcell.splits)
  qed simp
qed

lemma walk_overlay:
  assumes "chunks_inv states" "archive_walk n states ref rows seen = Inr out"
    and "dom (map_of rows) \<subseteq> set seen"
  shows "\<exists>base. archive_walk n states ref [] [] = Inr base \<and>
    (\<forall>k. dget out k = (if k \<in> set seen then dget rows k else dget base k))"
  using assms(2,3)
proof (induction n arbitrary: ref rows seen out)
  case 0
  then show ?case by (cases ref) (auto simp: dom_def)
next
  case (Suc n)
  show ?case
  proof (cases "ref = []")
    case True
    then show ?thesis using Suc.prems by (auto simp: dom_def)
  next
    case False
    have "chunk_at states ref \<noteq> None" using walk_no_chunk[OF False] Suc.prems(1) by fastforce
    then obtain r p chunk gone where y: "chunk_at states ref = Some (r, p, chunk, gone)" by auto
    have wf: "wf_dict chunk" by (rule chunks_invD(1)[OF assms(1) y])
    define rows' where "rows' = lay_rows seen rows chunk"
    define seen' where "seen' = seen @ map fst chunk @ gone"
    have w1: "archive_walk n states p rows' seen' = Inr out"
      using Suc.prems(1) walk_chunk[OF False y] by (simp add: rows'_def seen'_def)
    have d1: "dom (map_of rows') \<subseteq> set seen'"
      using Suc.prems(2) by (auto simp: rows'_def seen'_def dget_lay_rows[OF wf] dom_def split: if_splits)
    from Suc.IH[OF w1 d1] obtain bp where bp: "archive_walk n states p [] [] = Inr bp"
        "\<And>k. dget out k = (if k \<in> set seen' then dget rows' k else dget bp k)" by blast
    obtain base where base: "archive_walk n states p (lay_rows [] [] chunk) (map fst chunk @ gone) = Inr base"
      using walk_ok_any w1 by blast
    have d2: "dom (map_of (lay_rows [] [] chunk)) \<subseteq> set (map fst chunk @ gone)"
      by (auto simp: dget_lay_rows[OF wf] dom_def split: if_splits)
    have bk: "dget base k = (if k \<in> set (map fst chunk @ gone) then dget (lay_rows [] [] chunk) k else dget bp k)" for k
      using Suc.IH[OF base d2] bp(1) by auto
    have "archive_walk (Suc n) states ref [] [] = Inr base"
      using walk_chunk[OF False y] base by simp
    moreover have "dget rows k = None" if "k \<notin> set seen" for k
      using that Suc.prems(2) by (auto simp: dom_def)
    then have "dget out k = (if k \<in> set seen then dget rows k else dget base k)" for k
      unfolding bp(2) bk by (auto simp: rows'_def seen'_def dget_lay_rows[OF wf])
    ultimately show ?thesis by blast
  qed
qed

section \<open>Saving chunks\<close>

text \<open>A cell of the bucket that holds a chunk keeps it for good.\<close>

definition chunks_kept :: "fcell mem_store \<Rightarrow> fcell mem_store \<Rightarrow> bool" where
  "chunks_kept states states' \<longleftrightarrow> (\<forall>ref x. chunk_at states ref = Some x \<longrightarrow> chunk_at states' ref = Some x)"

lemma chunks_keptD: "chunks_kept s s' \<Longrightarrow> chunk_at s ref = Some x \<Longrightarrow> chunk_at s' ref = Some x"
  unfolding chunks_kept_def by blast

lemma chunks_kept_refl [simp]: "chunks_kept s s"
  by (simp add: chunks_kept_def)

lemma chunks_kept_trans: "chunks_kept a b \<Longrightarrow> chunks_kept b c \<Longrightarrow> chunks_kept a c"
  by (simp add: chunks_kept_def)

lemma walk_kept:
  "chunks_kept states states' \<Longrightarrow> archive_walk n states ref rows seen = Inr out \<Longrightarrow>
    archive_walk n states' ref rows seen = Inr out"
proof (induction n arbitrary: ref rows seen)
  case 0
  then show ?case by (cases ref) simp_all
next
  case (Suc n)
  show ?case
  proof (cases "ref = []")
    case False
    have "chunk_at states ref \<noteq> None"
      using walk_no_chunk[OF False, of states] Suc.prems(2) by (metis Inl_Inr_False)
    then obtain r p chunk gone where y: "chunk_at states ref = Some (r, p, chunk, gone)" by auto
    then have y': "chunk_at states' ref = Some (r, p, chunk, gone)"
      using Suc.prems(1) by (simp add: chunks_kept_def)
    show ?thesis
      using Suc.prems(2) unfolding walk_chunk[OF False y] walk_chunk[OF False y']
      by (rule Suc.IH[OF Suc.prems(1)])
  qed (use Suc.prems(2) in simp)
qed

lemma archive_rows_kept:
  assumes "chunks_inv s'" "chunks_kept s s'" "length (ms_history s) \<le> length (ms_history s')"
    and "archive_rows s ref = Inr rows"
  shows "archive_rows s' ref = Inr rows"
proof -
  have w: "archive_walk (Suc (length (ms_history s))) s' ref [] [] = Inr rows"
    using walk_kept[OF assms(2)] assms(4) by (simp add: archive_rows_def)
  show ?thesis
    unfolding archive_rows_def
    by (subst walk_fuel[OF _ Suc_le_mono[THEN iffD2, OF assms(3)]]) (simp_all add: w)
qed

lemma archive_rows_chunk:
  assumes inv: "chunks_inv s" and ref: "ref \<noteq> []" and at: "chunk_at s ref = Some (n, p, chunk, gone)"
    and base: "archive_rows s p = Inr base"
  shows "\<exists>out. archive_rows s ref = Inr out \<and> (\<forall>k. dget out k =
    (if k \<in> fst ` set chunk then dget chunk k else if k \<in> set gone then None else dget base k))"
proof -
  let ?n = "length (ms_history s)"
  have wf: "wf_dict chunk" by (rule chunks_invD(1)[OF inv at])
  have pos: "0 < ?n" using chunk_at_revision[OF chunks_inv_store[OF inv] at] by linarith
  have bw: "archive_walk ?n s p [] [] = Inr base"
    using archive_rows_fuel[OF inv order_refl, of p] pos base by simp
  obtain out where out: "archive_walk ?n s p (lay_rows [] [] chunk) (map fst chunk @ gone) = Inr out"
    using walk_ok_any bw by blast
  have d: "dom (map_of (lay_rows [] [] chunk)) \<subseteq> set (map fst chunk @ gone)"
    by (auto simp: dget_lay_rows[OF wf] dom_def split: if_splits)
  have "archive_rows s ref = Inr out"
    using walk_chunk[OF ref at] out by (simp add: archive_rows_def)
  moreover have "dget out k = (if k \<in> fst ` set chunk then dget chunk k else if k \<in> set gone then None else dget base k)" for k
    using walk_overlay[OF inv out d] bw by (auto simp: dget_lay_rows[OF wf])
  ultimately show ?thesis by blast
qed

lemma chunk_at_create:
  assumes "store_create k v s = (Inr n, s')"
  shows "chunk_at s' ref = (if ref = k then (case v of Whole _ \<Rightarrow> None | Chunk p rows gone \<Rightarrow> Some (n, p, rows, gone))
    else chunk_at s ref)"
  using assms by (cases v) (auto simp: chunk_at_def store_create_Inr store_get_put)

lemma create_chunk_inv:
  assumes inv: "chunks_inv s" and new: "store_create ref (Chunk p rows gone) s = (Inr n, s')"
    and wf: "wf_dict rows" and par: "p = [] \<or> chunk_at s p \<noteq> None"
  shows "chunks_inv s' \<and> chunks_kept s s' \<and> length (ms_history s) \<le> length (ms_history s')"
proof -
  have put: "store_put ref (Chunk p rows gone) s = (n, s')" and fresh: "store_get s ref = None"
    using new by (simp_all add: store_create_Inr)
  have n: "n = length (ms_history s) + 1" "store_inv s'" "length (ms_history s) \<le> length (ms_history s')"
    using store_put_inv[OF chunks_inv_store[OF inv] put] by auto
  have none: "chunk_at s ref = None" using fresh by (simp add: chunk_at_def)
  have kept: "chunks_kept s s'"
    unfolding chunks_kept_def using chunk_at_create[OF new] none by auto
  have "p' = [] \<or> (\<exists>n' x. chunk_at s' p' = Some (n', x) \<and> n' < m) \<and> True" and "wf_dict rows'"
    if at: "chunk_at s' ref' = Some (m, p', rows', gone')" for ref' m p' rows' gone'
  proof -
    have old: "p' = [] \<or> (\<exists>n' x. chunk_at s' p' = Some (n', x) \<and> n' < m)" "wf_dict rows'" if "ref' \<noteq> ref"
      using that at chunk_at_create[OF new, of ref'] chunks_invD[OF inv, of ref' m p' rows' gone'] kept
      unfolding chunks_kept_def by (metis)+
    have here: "p' = [] \<or> (\<exists>n' x. chunk_at s' p' = Some (n', x) \<and> n' < m)" "wf_dict rows'" if "ref' = ref"
    proof -
      have eq: "m = n" "p' = p" "rows' = rows" using at that chunk_at_create[OF new, of ref'] by auto
      have "chunk_at s p = Some (n', x) \<Longrightarrow> chunk_at s' p = Some (n', x) \<and> n' < n" for n' x
        using chunks_keptD[OF kept] chunk_at_revision[OF chunks_inv_store[OF inv], of p n' x] n(1)
        by simp
      then show "p' = [] \<or> (\<exists>n' x. chunk_at s' p' = Some (n', x) \<and> n' < m)" "wf_dict rows'"
        using par eq wf by (cases "chunk_at s p"; auto)+
    qed
    show "p' = [] \<or> (\<exists>n' x. chunk_at s' p' = Some (n', x) \<and> n' < m) \<and> True" and "wf_dict rows'"
      using old here by (cases "ref' = ref"; simp)+
  qed
  then show ?thesis using n kept unfolding chunks_inv_def by blast
qed

text \<open>What a save hands back, and what the history then says.\<close>

lemma save_chunk_rows:
  assumes inv: "chunks_inv (fw_states w)" and wf: "wf_dict chunk"
    and base: "archive_rows (fw_states w) p = Inr base"
    and save: "save_archive_chunk c p chunk gone w = (Inr ref, w')"
  shows "chunks_inv (fw_states w') \<and> (\<exists>out. archive_rows (fw_states w') ref = Inr out \<and> (\<forall>k. dget out k =
    (if k \<in> fst ` set chunk then dget chunk k else if k \<in> set gone then None else dget base k)))"
proof -
  let ?cell = "Chunk p chunk gone"
  have ref: "ref = fx_slug c @ '':archive:'' @ fx_sha c ?cell" "ref \<noteq> []"
    using save by (auto simp: save_archive_chunk_def Let_def split: prod.splits sum.splits option.splits if_splits)
  have par: "p = [] \<or> chunk_at (fw_states w) p \<noteq> None"
    using base walk_no_chunk[of p "fw_states w"] by (fastforce simp: archive_rows_def)
  consider n states where "store_create ref ?cell (fw_states w) = (Inr n, states)" "w' = w\<lparr>fw_states := states\<rparr>"
    | e where "store_get (fw_states w) ref = Some e" "se_value e = ?cell" "w' = w"
    using save ref(1)
    by (auto simp: save_archive_chunk_def Let_def split: prod.splits sum.splits option.splits if_splits)
  then show ?thesis
  proof cases
    case 1
    note k = create_chunk_inv[OF inv 1(1) wf par]
    have b: "archive_rows (fw_states w') p = Inr base"
      using k 1(2) archive_rows_kept[OF _ _ _ base] by simp
    have "chunk_at (fw_states w') ref = Some (n, p, chunk, gone)"
      using chunk_at_create[OF 1(1), of ref] 1(2) by simp
    then show ?thesis using archive_rows_chunk[OF _ ref(2) _ b] k 1(2) by simp
  next
    case 2
    have "chunk_at (fw_states w) ref = Some (se_revision e, p, chunk, gone)"
      using 2 by (simp add: chunk_at_def)
    then show ?thesis using archive_rows_chunk[OF inv ref(2) _ base] inv 2(3) by simp
  qed
qed

section \<open>Externalizing and hydrating\<close>

lemma concat_batches: "0 < n \<Longrightarrow> concat (batches n xs) = xs"
proof (induction n xs rule: batches.induct)
  case (3 n x xs)
  then have "concat (batches (Suc n) (drop (Suc n) (x # xs))) = drop (Suc n) (x # xs)" by blast
  then show ?case by (metis append_take_drop_id batches.simps(3) concat.simps(2))
qed simp_all

lemma save_batches_rows:
  assumes "chunks_inv (fw_states w)" "wf_dict (concat bs)" "archive_rows (fw_states w) p = Inr base"
    and "save_batches c bs p w = (Inr ref, w')"
  shows "chunks_inv (fw_states w') \<and> (\<exists>out. archive_rows (fw_states w') ref = Inr out \<and> (\<forall>k. dget out k =
    (if k \<in> fst ` set (concat bs) then dget (concat bs) k else dget base k)))"
  using assms
proof (induction bs arbitrary: p w base)
  case (Cons b bs)
  obtain r1 w1 where save: "save_archive_chunk c p b [] w = (Inr r1, w1)"
      and rest: "save_batches c bs r1 w1 = (Inr ref, w')"
    using Cons.prems(4) by (auto split: prod.splits sum.splits)
  have wf: "wf_dict b" "wf_dict (concat bs)" "fst ` set b \<inter> fst ` set (concat bs) = {}"
    using Cons.prems(2) by auto
  obtain b1 where b1: "chunks_inv (fw_states w1)" "archive_rows (fw_states w1) r1 = Inr b1"
      "\<And>k. dget b1 k = (if k \<in> fst ` set b then dget b k else dget base k)"
    using save_chunk_rows[OF Cons.prems(1) wf(1) Cons.prems(3) save] by auto
  obtain out where out: "chunks_inv (fw_states w')" "archive_rows (fw_states w') ref = Inr out"
      "\<And>k. dget out k = (if k \<in> fst ` set (concat bs) then dget (concat bs) k else dget b1 k)"
    using Cons.IH[OF b1(1) wf(2) b1(2) rest] by auto
  have "dget out k = (if k \<in> fst ` set (concat (b # bs)) then dget (concat (b # bs)) k else dget base k)" for k
  proof -
    have "k \<notin> fst ` set b \<Longrightarrow> dget b k = None" by (simp add: map_of_eq_None_iff)
    moreover have "k \<in> fst ` set b \<Longrightarrow> k \<notin> fst ` set (concat bs) \<and> dget (concat bs) k = None"
      using wf(3) by (auto simp: map_of_eq_None_iff)
    ultimately show ?thesis
      unfolding out(3) b1(3) by (auto simp: map_add_def split: option.splits)
  qed
  then show ?case using out by blast
qed auto

text \<open>Externalizing keeps the rows, the other sections and the history.\<close>

lemma externalize_roundtrip:
  assumes inv: "chunks_inv (fw_states w)" and ref: "fd_archive_ref doc = Some ref"
    and wf: "wf_dict (fd_archive doc)"
    and ext: "externalize_archive c doc w = (Inr doc1, w1)"
  shows "\<exists>doc2. hydrate_archive doc1 w1 = Inr doc2 \<and> map_of (fd_archive doc2) = map_of (fd_archive doc) \<and>
    doc2\<lparr>fd_archive := fd_archive doc, fd_archive_ref := Some ref\<rparr> = doc \<and> chunks_inv (fw_states w1)"
proof -
  obtain prev where prev: "archive_rows (fw_states w) ref = Inr prev"
    using ext ref by (auto simp: externalize_archive_def split: sum.splits)
  define rows where "rows = fd_archive doc"
  define changed where "changed = filter (\<lambda>(k, row). dget prev k \<noteq> Some row) rows"
  define gone where "gone = sort (filter (\<lambda>k. \<not> dhas rows k) (map fst prev))"
  have set_gone: "k \<in> set gone \<longleftrightarrow> dget prev k \<noteq> None \<and> dget rows k = None" for k
    by (auto simp: gone_def dhas_def map_of_eq_None_iff image_iff; metis map_of_eq_None_iff option.distinct(1) image_eqI fst_conv)
  have ext': "(case (if gone = [] then (Inr ref, w) else save_archive_chunk c ref [] gone w) of
      (Inl e, w1) \<Rightarrow> (Inl e, w1)
    | (Inr r1, w1) \<Rightarrow>
        (case save_batches c (batches 64 changed) r1 w1 of
          (Inl e, w2) \<Rightarrow> (Inl e, w2)
        | (Inr r2, w2) \<Rightarrow> (Inr (doc\<lparr>fd_archive_ref := Some r2, fd_archive := []\<rparr>), w2))) = (Inr doc1, w1)"
    using ext ref prev unfolding externalize_archive_def Let_def rows_def changed_def gone_def by simp
  obtain r1 wa where first: "(if gone = [] then (Inr ref, w) else save_archive_chunk c ref [] gone w) = (Inr r1, wa)"
      and rest: "\<exists>r2. save_batches c (batches 64 changed) r1 wa = (Inr r2, w1) \<and>
        doc1 = doc\<lparr>fd_archive_ref := Some r2, fd_archive := []\<rparr>"
    using ext' by (auto split: sum.splits prod.splits)
  obtain b1 where b1: "chunks_inv (fw_states wa)" "archive_rows (fw_states wa) r1 = Inr b1"
      "\<And>k. dget b1 k = (if k \<in> set gone then None else dget prev k)"
  proof (cases "gone = []")
    case True
    then show ?thesis using that[of prev] first inv prev by simp
  next
    case False
    then show ?thesis using that save_chunk_rows[OF inv _ prev, of "[]" c gone r1 wa] first by auto
  qed
  obtain r2 where r2: "save_batches c (batches 64 changed) r1 wa = (Inr r2, w1)"
      "doc1 = doc\<lparr>fd_archive_ref := Some r2, fd_archive := []\<rparr>" using rest by blast
  have cc: "concat (batches 64 changed) = changed" by (rule concat_batches) simp
  have wfc: "wf_dict changed" using wf by (simp add: changed_def rows_def)
  obtain out where out: "chunks_inv (fw_states w1)" "archive_rows (fw_states w1) r2 = Inr out"
      "\<And>k. dget out k = (if k \<in> fst ` set changed then dget changed k else dget b1 k)"
    using save_batches_rows[OF b1(1) _ b1(2) r2(1)] wfc cc by auto
  have "dget out k = dget rows k" for k
  proof (cases "k \<in> fst ` set changed")
    case True
    then obtain row where row: "(k, row) \<in> set changed" by auto
    then have "dget changed k = Some row" "dget rows k = Some row"
      using wfc wf by (auto simp: changed_def rows_def)
    then show ?thesis using True out(3) by simp
  next
    case False
    show ?thesis
    proof (cases "dget rows k")
      case None
      then show ?thesis using False out(3) b1(3) set_gone[of k] by auto
    next
      case (Some row)
      then have "dget prev k = Some row"
        using False by (force simp: changed_def dest: map_of_SomeD)
      then show ?thesis using Some False out(3) b1(3) set_gone[of k] by auto
    qed
  qed
  then have "map_of out = map_of (fd_archive doc)" by (auto simp: rows_def)
  moreover have "dmerge out [] = out" by (simp add: dmerge_def)
  ultimately show ?thesis
    using out r2(2) ref
    by (auto simp: hydrate_archive_def archive_lookup_ref_def)
qed

text \<open>
  C37: nothing archived is lost. When a change has externalized a document's archive, hydrating the
  resulting document yields exactly the rows the archive had, whatever history was there before;
  every other part of the document is as it was, and the history stays well founded.
\<close>

theorem externalize_hydrate:
  assumes "chunks_inv (fw_states w)" "fd_archive_ref doc = Some ref" "wf_dict (fd_archive doc)"
    and "externalize_archive c doc w = (Inr doc1, w1)"
  shows "\<exists>doc2. hydrate_archive doc1 w1 = Inr doc2 \<and> map_of (fd_archive doc2) = map_of (fd_archive doc) \<and>
    doc2\<lparr>fd_archive := fd_archive doc, fd_archive_ref := Some ref\<rparr> = doc \<and> chunks_inv (fw_states w1)"
  by (rule externalize_roundtrip[OF assms])

section \<open>The stores of the program\<close>

text \<open>
  The buckets that fencing documents make, from an empty one: the entry of a swarm is created, archives
  are externalized (to the end, or broken off by an error after any chunk), documents are committed over
  the entry that was read, and nothing else writes the bucket. The swarm \<open>c\<close> is another one in each
  step, and the steps of several writers come in any order.
\<close>

inductive archive_reach :: "fworld \<Rightarrow> bool" where
  ar_start: "fw_states w = empty_store \<Longrightarrow> archive_reach w"
| ar_entry: "archive_reach w \<Longrightarrow> fencing_entry c w = (found, w') \<Longrightarrow> archive_reach w'"
| ar_save: "archive_reach w \<Longrightarrow> wf_dict (fd_archive doc) \<Longrightarrow> externalize_archive c doc w = (saved, w') \<Longrightarrow> archive_reach w'"
| ar_commit: "archive_reach w \<Longrightarrow> fencing_rd c w = Some (doc0, rvn) \<Longrightarrow> fencing_commit c doc rvn w = Inr w' \<Longrightarrow> archive_reach w'"
| ar_aside: "archive_reach w \<Longrightarrow> fw_states w' = fw_states w \<Longrightarrow> archive_reach w'"

lemma put_whole_inv:
  assumes "chunks_inv s" and "store_put k (Whole doc) s = (n, s')" and "chunk_at s k = None"
  shows "chunks_inv s'"
proof -
  have "chunk_at s' ref = chunk_at s ref" for ref
    using assms(3) store_get_put[OF assms(2)] by (auto simp: chunk_at_def)
  moreover have "store_inv s'" using store_put_inv[OF chunks_inv_store[OF assms(1)] assms(2)] by simp
  ultimately show ?thesis using assms(1) by (simp add: chunks_inv_def)
qed

lemma save_chunk_inv:
  assumes "chunks_inv (fw_states w)" and "wf_dict chunk" and "p = [] \<or> chunk_at (fw_states w) p \<noteq> None"
    and "save_archive_chunk c p chunk gone w = (res, w')"
  shows "chunks_inv (fw_states w') \<and> (\<forall>ref. res = Inr ref \<longrightarrow> chunk_at (fw_states w') ref \<noteq> None)"
proof -
  let ?cell = "Chunk p chunk gone" and ?ref = "fx_slug c @ '':archive:'' @ fx_sha c (Chunk p chunk gone)"
  consider n states where "store_create ?ref ?cell (fw_states w) = (Inr n, states)" "w' = w\<lparr>fw_states := states\<rparr>" "res = Inr ?ref"
    | e where "store_get (fw_states w) ?ref = Some e" "se_value e = ?cell" "w' = w" "res = Inr ?ref"
    | e where "res = Inl e" "w' = w"
    using assms(4) by (auto simp: save_archive_chunk_def Let_def split: prod.splits sum.splits option.splits if_splits)
  then show ?thesis
  proof cases
    case 1
    then show ?thesis using create_chunk_inv[OF assms(1) 1(1) assms(2,3)] chunk_at_create[OF 1(1), of ?ref] by auto
  next
    case 2
    then show ?thesis using assms(1) by (auto simp: chunk_at_def)
  qed (use assms(1) in simp)
qed

lemma save_batches_inv:
  "chunks_inv (fw_states w) \<Longrightarrow> wf_dict (concat bs) \<Longrightarrow> p = [] \<or> chunk_at (fw_states w) p \<noteq> None \<Longrightarrow>
   save_batches c bs p w = (res, w') \<Longrightarrow> chunks_inv (fw_states w')"
proof (induction bs arbitrary: p w)
  case (Cons b bs)
  obtain first w1 where save: "save_archive_chunk c p b [] w = (first, w1)" by fastforce
  have wf: "wf_dict b" "wf_dict (concat bs)" using Cons.prems(2) by auto
  note one = save_chunk_inv[OF Cons.prems(1) wf(1) Cons.prems(3) save]
  show ?case
  proof (cases first)
    case (Inr ref)
    then show ?thesis using Cons.IH[of w1 ref] Cons.prems(4) one save wf(2) by simp
  qed (use Cons.prems(4) one save in simp)
qed simp

lemma externalize_inv:
  assumes inv: "chunks_inv (fw_states w)" and wf: "wf_dict (fd_archive doc)" and ext: "externalize_archive c doc w = (res, w')"
  shows "chunks_inv (fw_states w')"
proof (cases "\<exists>p previous. fd_archive_ref doc = Some p \<and> archive_rows (fw_states w) p = Inr previous")
  case False
  then show ?thesis using ext inv by (auto simp: externalize_archive_def split: option.splits sum.splits)
next
  case True
  then obtain p previous where at: "fd_archive_ref doc = Some p" "archive_rows (fw_states w) p = Inr previous" by blast
  define changed where "changed = filter (\<lambda>(k, row). dget previous k \<noteq> Some row) (fd_archive doc)"
  define removed where "removed = sort (filter (\<lambda>k. \<not> dhas (fd_archive doc) k) (map fst previous))"
  have par: "p = [] \<or> chunk_at (fw_states w) p \<noteq> None"
    using at(2) walk_no_chunk[of p "fw_states w"] by (fastforce simp: archive_rows_def)
  obtain first w1 where first: "(if removed = [] then (Inr p, w) else save_archive_chunk c p [] removed w) = (first, w1)" by fastforce
  have one: "chunks_inv (fw_states w1) \<and> (\<forall>ref. first = Inr ref \<longrightarrow> ref = [] \<or> chunk_at (fw_states w1) ref \<noteq> None)"
    using first inv par save_chunk_inv[OF inv _ par, of "[]" c removed first w1] by (auto split: if_splits)
  have wfc: "wf_dict (concat (batches 64 changed))" using wf concat_batches[of 64 changed] by (simp add: changed_def)
  have ext': "(case (first, w1) of
      (Inl e, w1) \<Rightarrow> (Inl e, w1)
    | (Inr r1, w1) \<Rightarrow>
        (case save_batches c (batches 64 changed) r1 w1 of
          (Inl e, w2) \<Rightarrow> (Inl e, w2)
        | (Inr r2, w2) \<Rightarrow> (Inr (doc\<lparr>fd_archive_ref := Some r2, fd_archive := []\<rparr>), w2))) = (res, w')"
    using ext at first unfolding externalize_archive_def Let_def changed_def removed_def by simp
  show ?thesis
  proof (cases first)
    case (Inr r1)
    obtain out w2 where rest: "save_batches c (batches 64 changed) r1 w1 = (out, w2)" by fastforce
    then have "w' = w2" using ext' Inr by (auto split: sum.splits)
    then show ?thesis using save_batches_inv[OF _ wfc _ rest] one Inr by blast
  qed (use ext' one in auto)
qed

lemma archive_reach_inv: "archive_reach w \<Longrightarrow> chunks_inv (fw_states w)"
proof (induction rule: archive_reach.induct)
  case (ar_start w)
  then show ?case by (simp add: chunks_inv_def chunk_at_def store_get_def empty_store_def store_inv_def last_entry_def)
next
  case (ar_entry w c found w')
  show ?case
  proof (cases "store_get (fw_states w) (fx_slug c)")
    case (Some e)
    then show ?thesis using ar_entry by (simp add: fencing_entry_def)
  next
    case None
    then have none: "chunk_at (fw_states w) (fx_slug c) = None" by (simp add: chunk_at_def)
    obtain cres states where cr: "store_create (fx_slug c) (Whole (fx_legacy c)) (fw_states w) = (cres, states)" by fastforce
    have "chunks_inv states"
      using cr ar_entry.IH put_whole_inv[OF ar_entry.IH _ none] by (cases cres) (auto dest: store_create_Inl simp: store_create_Inr)
    moreover have "fw_states w' = states" using ar_entry.hyps(2) None cr by (auto simp: fencing_entry_def split: sum.splits)
    ultimately show ?thesis by simp
  qed
next
  case (ar_save w doc c saved w')
  show ?case by (rule externalize_inv[OF ar_save.IH ar_save.hyps(2,3)])
next
  case (ar_commit w c doc0 rvn doc w')
  obtain n where put: "store_put (fx_slug c) (Whole doc) (fw_states w) = (n, fw_states w')"
    using ar_commit.hyps(3) by (auto simp: fencing_commit_Inr store_commit_Inr store_update_Inr)
  have "chunk_at (fw_states w) (fx_slug c) = None"
    using ar_commit.hyps(2) by (auto simp: fencing_rd_Some store_rd_def chunk_at_def split: option.splits)
  then show ?case using put_whole_inv[OF ar_commit.IH put] by simp
next
  case (ar_aside w w')
  then show ?case by simp
qed

text \<open>
  C39: reading the archive returns. In every bucket the writes of fencing documents can make from an
  empty one, the walk along the parents of the chunks, which has no bound in the code, ends within the
  fuel of the model, whatever reference it starts from; more fuel changes nothing.
\<close>

theorem archive_rows_returns:
  assumes "archive_reach w"
  shows "archive_rows (fw_states w) ref \<noteq> Inl No_Return \<and>
    (\<forall>n > length (ms_history (fw_states w)). archive_walk n (fw_states w) ref [] [] = archive_rows (fw_states w) ref)"
proof -
  have inv: "chunks_inv (fw_states w)" by (rule archive_reach_inv[OF assms])
  have "chunk_at (fw_states w) ref = Some (r, x) \<Longrightarrow> r \<le> Suc (length (ms_history (fw_states w)))" for r x
    using chunk_at_revision[OF chunks_inv_store[OF inv]] by fastforce
  then have "archive_rows (fw_states w) ref \<noteq> Inl No_Return"
    unfolding archive_rows_def by (intro walk_enough[OF inv]) auto
  then show ?thesis using archive_rows_fuel[OF inv] by auto
qed

end
