(* ===== verification/Ctl_Lease.thy ===== *)
theory Ctl_Lease
  imports Fencing_Laws
begin

text \<open>
  The controller lease of a swarm (\<open>scripts/swarm/lease.py\<close>), kept in the fencing document: who
  may run the swarm's controller, under which epoch, until when. The route through a hosted
  ledger (\<open>_remote\<close>) is not modelled: the swarm has no ledger route, so \<open>_address\<close> is empty. The
  Redis lease cache does not exist on the modelled backends: \<open>read_lease\<close> answers \<open>None\<close>.
\<close>

section \<open>Times\<close>

text \<open>Python's \<open>round\<close>: half to even.\<close>

definition py_round :: "rat \<Rightarrow> int" where
  "py_round r =
    (let f = floor r; d = r - of_int f
     in if d < 1 / 2 then f else if d > 1 / 2 then f + 1 else if even f then f else f + 1)"

definition tick_refusal :: fault where
  "tick_refusal = Swarm_Error ''AGENTIHOOKS_CONTROLLER_TICK_SECONDS must be at least 1 second''"

text \<open>\<open>seconds\<close> is the variable, \<open>parse\<close> is \<open>float\<close> with \<open>None\<close> for a text that is no finite number.\<close>

definition tick_ms :: "(string \<Rightarrow> rat option) \<Rightarrow> string \<Rightarrow> fault + int" where
  "tick_ms parse seconds =
    (if seconds = '''' then Inr 60000
     else case parse seconds of
            None \<Rightarrow> Inl tick_refusal
          | Some x \<Rightarrow> (let ms = py_round (x * 1000) in if ms < 1000 then Inl tick_refusal else Inr ms))"

definition ttl_ms :: "int \<Rightarrow> int" where
  "ttl_ms tick = 3 * tick"

section \<open>The lease in the document\<close>

definition stale :: fault where
  "stale = Swarm_Error ''the controller lease is stale''"

definition live_lease :: "lease option \<Rightarrow> int \<Rightarrow> lease option" where
  "live_lease recorded now =
    (case recorded of
      None \<Rightarrow> None
    | Some held \<Rightarrow> if ls_expires_at held > now then Some held else None)"

definition hold_lease :: "fdoc \<Rightarrow> lease \<Rightarrow> fdoc" where
  "hold_lease doc held =
    doc\<lparr>fd_lease := Some held, fd_epoch := ls_epoch held, fd_legacy_owner := ''''\<rparr>"

definition lease_take ::
  "int \<Rightarrow> int \<Rightarrow> string \<Rightarrow> string \<Rightarrow> fdoc \<Rightarrow> fault + lease option \<times> fdoc" where
  "lease_take tick now owner hostname doc =
    (let legacy = fd_legacy_owner doc;
         grant = (\<lambda>keeper epoch doc'.
           let renewed = \<lparr>ls_owner = keeper, ls_epoch = epoch, ls_expires_at = now + ttl_ms tick\<rparr>
           in Inr (if keeper = owner then Some renewed else None, hold_lease doc' renewed))
     in case fd_lease doc of
          Some held \<Rightarrow>
            if ls_expires_at held > now then
              (if ls_owner held \<noteq> owner \<and> ls_owner held \<noteq> hostname then Inr (None, doc)
               else grant owner (ls_epoch held) doc)
            else grant owner (fd_epoch doc + 1) (doc\<lparr>fd_leader_changes := fd_leader_changes doc + 1\<rparr>)
        | None \<Rightarrow>
            grant (if legacy \<noteq> '''' \<and> legacy \<noteq> hostname then legacy else owner) (fd_epoch doc + 1)
              (doc\<lparr>fd_leader_changes := fd_leader_changes doc + 1\<rparr>))"

definition lease_move ::
  "int \<Rightarrow> int \<Rightarrow> string \<Rightarrow> int \<Rightarrow> int \<Rightarrow> fdoc \<Rightarrow> fault + lease \<times> fdoc" where
  "lease_move tick now owner source_epoch expected_epoch doc =
    (if fd_legacy_owner doc \<noteq> ''''
     then Inl (Swarm_Error ''the controller lease belongs to an incompatible owner'')
     else let live = live_lease (fd_lease doc) now;
              live_epoch = (case live of None \<Rightarrow> 0 | Some l \<Rightarrow> ls_epoch l)
          in if live_epoch \<noteq> expected_epoch \<or> (\<exists>l. live = Some l \<and> ls_owner l \<noteq> owner) then Inl stale
             else let epoch = max (max (fd_epoch doc) source_epoch) live_epoch + 1;
                      held = \<lparr>ls_owner = owner, ls_epoch = epoch, ls_expires_at = now + ttl_ms tick\<rparr>
                  in Inr (held, hold_lease doc held))"

text \<open>What a fenced write is fenced by: a lease, or an epoch alone.\<close>

datatype holder = By_Lease lease | By_Epoch int

fun lease_check :: "lease option \<Rightarrow> int \<Rightarrow> holder \<Rightarrow> fault + unit" where
  "lease_check recorded now (By_Lease held) =
    (case live_lease recorded now of
      None \<Rightarrow> Inl stale
    | Some live \<Rightarrow>
        if (ls_owner live, ls_epoch live) \<noteq> (ls_owner held, ls_epoch held) then Inl stale else Inr ())"
| "lease_check recorded now (By_Epoch epoch) =
    (case live_lease recorded now of
      None \<Rightarrow> Inl stale
    | Some live \<Rightarrow> if ls_epoch live \<noteq> epoch then Inl stale else Inr ())"

definition lease_extend :: "int \<Rightarrow> int \<Rightarrow> lease \<Rightarrow> fdoc \<Rightarrow> fault + lease \<times> fdoc" where
  "lease_extend tick now held doc =
    (case lease_check (fd_lease doc) now (By_Lease held) of
      Inl e \<Rightarrow> Inl e
    | Inr _ \<Rightarrow>
        (case fd_lease doc of
          None \<Rightarrow> Inl Assertion_Failed
        | Some live \<Rightarrow>
            if ls_expires_at live - now \<ge> ttl_ms tick - tick then Inr (live, doc)
            else let extended = \<lparr>ls_owner = ls_owner held, ls_epoch = ls_epoch held, ls_expires_at = now + ttl_ms tick\<rparr>
                 in Inr (extended, doc\<lparr>fd_lease := Some extended\<rparr>)))"

definition lease_drop :: "int \<Rightarrow> lease \<Rightarrow> fdoc \<Rightarrow> fault + bool \<times> fdoc" where
  "lease_drop now held doc =
    (case lease_check (fd_lease doc) now (By_Lease held) of
      Inl e \<Rightarrow> Inl e
    | Inr _ \<Rightarrow> Inr (True, doc\<lparr>fd_lease := None\<rparr>))"

definition guarded :: "int \<Rightarrow> holder \<Rightarrow> (fdoc \<Rightarrow> fault + 'r \<times> fdoc) \<Rightarrow> fdoc \<Rightarrow> fault + 'r \<times> fdoc" where
  "guarded now held change doc =
    (case lease_check (fd_lease doc) now held of Inl e \<Rightarrow> Inl e | Inr _ \<Rightarrow> change doc)"

section \<open>The operations\<close>

text \<open>A change that reads the clock once, when it runs.\<close>

definition timed_change :: "(int \<Rightarrow> fdoc \<Rightarrow> fault + 'r \<times> fdoc) \<Rightarrow> 'r fchange" where
  "timed_change f doc w = (f (fw_now w) doc, w)"

definition lease_current :: "fctx \<Rightarrow> (fault + fdoc) \<Rightarrow> fworld \<Rightarrow> (fault + lease option) \<times> fworld" where
  "lease_current c moved w =
    (case fencing_read c moved w of
      (Inl e, w1) \<Rightarrow> (Inl e, w1)
    | (Inr doc, w1) \<Rightarrow> (Inr (live_lease (fd_lease doc) (fw_now w1)), w1))"

text \<open>\<open>host\<close> is the pinned \<open>controller-host\<close> (empty when unset), \<open>hive\<close> this machine's hive id.\<close>

definition lease_acquire ::
  "fctx \<Rightarrow> (fault + lease option) \<Rightarrow> int \<Rightarrow> string \<Rightarrow> string \<Rightarrow> string \<Rightarrow> string \<Rightarrow>
   (fworld \<Rightarrow> fworld) list \<Rightarrow> fworld \<Rightarrow> (fault + lease option) \<times> fworld" where
  "lease_acquire c moved tick host hive gethostname owner others w =
    (if host \<noteq> '''' \<and> host \<noteq> owner then (Inr None, w)
     else let hostname = (if owner = hive then gethostname else owner)
          in fencing_write c moved (timed_change (\<lambda>now. lease_take tick now owner hostname)) others w)"

definition lease_transfer ::
  "fctx \<Rightarrow> (fault + lease) \<Rightarrow> int \<Rightarrow> string \<Rightarrow> int \<Rightarrow> int \<Rightarrow>
   (fworld \<Rightarrow> fworld) list \<Rightarrow> fworld \<Rightarrow> (fault + lease) \<times> fworld" where
  "lease_transfer c moved tick owner source_epoch expected_epoch others w =
    fencing_write c moved (timed_change (\<lambda>now. lease_move tick now owner source_epoch expected_epoch)) others w"

definition guarded_change :: "holder \<Rightarrow> 'r fchange \<Rightarrow> 'r fchange" where
  "guarded_change held change doc w =
    (case lease_check (fd_lease doc) (fw_now w) held of Inl e \<Rightarrow> (Inl e, w) | Inr _ \<Rightarrow> change doc w)"

definition lease_fenced ::
  "fctx \<Rightarrow> (fault + 'r) \<Rightarrow> holder option \<Rightarrow> 'r fchange \<Rightarrow>
   (fworld \<Rightarrow> fworld) list \<Rightarrow> fworld \<Rightarrow> (fault + 'r) \<times> fworld" where
  "lease_fenced c moved held change others w =
    (case held of
      None \<Rightarrow> fencing_write c moved change others w
    | Some h \<Rightarrow> fencing_write c moved (guarded_change h change) others w)"

definition lease_require :: "fctx \<Rightarrow> (fault + fdoc) \<Rightarrow> holder \<Rightarrow> fworld \<Rightarrow> (fault + unit) \<times> fworld" where
  "lease_require c moved held w =
    (case lease_current c moved w of
      (Inl e, w1) \<Rightarrow> (Inl e, w1)
    | (Inr live, w1) \<Rightarrow>
        ((case live of
            None \<Rightarrow> Inl stale
          | Some l \<Rightarrow>
              (case held of
                By_Lease h \<Rightarrow> if (ls_owner l, ls_epoch l) \<noteq> (ls_owner h, ls_epoch h) then Inl stale else Inr ()
              | By_Epoch e \<Rightarrow> if ls_epoch l \<noteq> e then Inl stale else Inr ())), w1))"

definition lease_renew ::
  "fctx \<Rightarrow> (fault + lease) \<Rightarrow> int \<Rightarrow> lease \<Rightarrow> (fworld \<Rightarrow> fworld) list \<Rightarrow> fworld \<Rightarrow> (fault + lease) \<times> fworld" where
  "lease_renew c moved tick held others w =
    fencing_write c moved (timed_change (\<lambda>now. lease_extend tick now held)) others w"

definition is_swarm_error :: "fault \<Rightarrow> bool" where
  "is_swarm_error e = (case e of
    Swarm_Error _ \<Rightarrow> True | Counted _ _ \<Rightarrow> True | Grant_Refused _ _ \<Rightarrow> True | _ \<Rightarrow> False)"

definition lease_release ::
  "fctx \<Rightarrow> (fault + bool) \<Rightarrow> lease \<Rightarrow> (fworld \<Rightarrow> fworld) list \<Rightarrow> fworld \<Rightarrow> (fault + bool) \<times> fworld" where
  "lease_release c moved held others w =
    (case fencing_write c moved (timed_change (\<lambda>now. lease_drop now held)) others w of
      (Inl e, w1) \<Rightarrow> if is_swarm_error e then (Inr False, w1) else (Inl e, w1)
    | out \<Rightarrow> out)"

end
