(* ===== verification/Lease_Laws.thy ===== *)
theory Lease_Laws
  imports Ctl_Lease
begin

text \<open>
  What the controller lease promises: one owner per epoch, epochs that only grow, a holder of an
  older epoch shut out of every fenced write for good, and a new holder as soon as a lease expired.
\<close>

section \<open>Steps of the lease\<close>

text \<open>
  The writes of the document as far as the lease sees them, but the restoring of a snapshot
  (\<open>fencing_replace\<close>), which may bring back an older epoch. \<open>named owner hostname\<close>: the machine
  \<open>owner\<close> also answers to \<open>hostname\<close> (\<open>hostname = owner\<close> for a caller that is not this machine).
  The last rule is any change that leaves the lease, its epoch and the legacy owner alone, which
  is what every change outside this component does.
\<close>

inductive lease_step :: "int \<Rightarrow> (string \<Rightarrow> string \<Rightarrow> bool) \<Rightarrow> fdoc \<Rightarrow> fdoc \<Rightarrow> bool"
  for tick :: int and named :: "string \<Rightarrow> string \<Rightarrow> bool" where
  take_step: "lease_take tick now owner hostname doc = Inr (r, doc') \<Longrightarrow>
    hostname = owner \<or> named owner hostname \<Longrightarrow> lease_step tick named doc doc'"
| move_step: "lease_move tick now owner source_epoch expected_epoch doc = Inr (l, doc') \<Longrightarrow>
    lease_step tick named doc doc'"
| extend_step: "lease_extend tick now held doc = Inr (l, doc') \<Longrightarrow> lease_step tick named doc doc'"
| drop_step: "lease_drop now held doc = Inr (b, doc') \<Longrightarrow> lease_step tick named doc doc'"
| other_step: "fd_lease doc' = fd_lease doc \<Longrightarrow> fd_epoch doc' = fd_epoch doc \<Longrightarrow>
    lease_step tick named doc doc'"

definition lease_wf :: "fdoc \<Rightarrow> bool" where
  "lease_wf doc \<longleftrightarrow> (\<forall>l. fd_lease doc = Some l \<longrightarrow> ls_epoch l = fd_epoch doc)"

lemma hold_lease_fields [simp]:
  "fd_lease (hold_lease doc l) = Some l" "fd_epoch (hold_lease doc l) = ls_epoch l"
  "fd_legacy_owner (hold_lease doc l) = ''''"
  by (simp_all add: hold_lease_def)

lemma live_lease_Some [simp]:
  "live_lease recorded now = Some l \<longleftrightarrow> recorded = Some l \<and> ls_expires_at l > now"
  by (auto simp: live_lease_def split: option.splits)

lemma lease_check_Inr:
  "lease_check recorded now h = Inr u \<longleftrightarrow> (\<exists>l. recorded = Some l \<and> ls_expires_at l > now \<and>
    (case h of By_Lease k \<Rightarrow> ls_owner l = ls_owner k \<and> ls_epoch l = ls_epoch k | By_Epoch e \<Rightarrow> ls_epoch l = e))"
  by (cases h; cases recorded) (auto simp: live_lease_def)

lemma lease_check_stale: "lease_check recorded now h = Inl e \<Longrightarrow> e = stale"
  by (cases h) (auto simp: live_lease_def split: option.splits if_splits)

text \<open>
  The effect of each operation on the recorded lease: it stays, is dropped, is renewed by its
  owner within its epoch, passes to the owner's other name, or a new epoch opens.
\<close>

lemma lease_take_effect:
  assumes "lease_take tick now owner hostname doc = Inr (r, doc')" "lease_wf doc"
  shows "doc' = doc \<or> (\<exists>l. fd_lease doc' = Some l \<and> fd_epoch doc' = ls_epoch l \<and>
    ((\<exists>h. fd_lease doc = Some h \<and> ls_epoch l = ls_epoch h \<and> ls_owner l = owner \<and> ls_owner h \<in> {owner, hostname}) \<or>
     ls_epoch l = fd_epoch doc + 1))"
  using assms by (auto simp: lease_take_def Let_def split: option.splits if_splits)

lemma lease_step_effect:
  assumes "lease_step tick named doc doc'" "lease_wf doc"
  shows "(fd_lease doc' = fd_lease doc \<and> fd_epoch doc' = fd_epoch doc) \<or>
    (fd_lease doc' = None \<and> fd_epoch doc' = fd_epoch doc) \<or>
    (\<exists>l h. fd_lease doc' = Some l \<and> fd_lease doc = Some h \<and> fd_epoch doc' = fd_epoch doc \<and>
       ls_epoch l = ls_epoch h \<and> (ls_owner l = ls_owner h \<or> named (ls_owner l) (ls_owner h))) \<or>
    (\<exists>l. fd_lease doc' = Some l \<and> fd_epoch doc' = ls_epoch l \<and> ls_epoch l > fd_epoch doc)"
  using assms(1)
proof cases
  case (take_step now owner hostname r)
  then show ?thesis using lease_take_effect[OF take_step(1) assms(2)] assms(2)
    by (auto simp: lease_wf_def)
next
  case (move_step now owner source_epoch expected_epoch l)
  then show ?thesis by (auto simp: lease_move_def Let_def split: if_splits)
next
  case (extend_step now held l)
  then show ?thesis
    by (auto simp: lease_extend_def Let_def lease_check_Inr split: sum.splits option.splits if_splits)
next
  case (drop_step now held b)
  then show ?thesis by (auto simp: lease_drop_def split: sum.splits)
qed simp

lemma lease_step_wf: "lease_step tick named doc doc' \<Longrightarrow> lease_wf doc \<Longrightarrow> lease_wf doc'"
  using lease_step_effect[of tick named doc doc'] by (auto simp: lease_wf_def)

lemma lease_step_epoch: "lease_step tick named doc doc' \<Longrightarrow> lease_wf doc \<Longrightarrow> fd_epoch doc \<le> fd_epoch doc'"
  using lease_step_effect[of tick named doc doc'] by auto

abbreviation lease_steps :: "int \<Rightarrow> (string \<Rightarrow> string \<Rightarrow> bool) \<Rightarrow> fdoc \<Rightarrow> fdoc \<Rightarrow> bool" where
  "lease_steps tick named \<equiv> (lease_step tick named)\<^sup>*\<^sup>*"


section \<open>Properties\<close>


text \<open>
  An epoch has one owner. Between two moments of a document whose recorded leases carry the
  same epoch, the lease went from one owner to another only along a machine's own names.
\<close>

theorem epoch_one_owner:
  assumes "lease_wf doc" "lease_steps tick named doc doc'"
    and "fd_lease doc = Some l" "fd_lease doc' = Some l'" "ls_epoch l' = ls_epoch l"
  shows "(\<lambda>a b. named b a)\<^sup>*\<^sup>* (ls_owner l) (ls_owner l')"
proof -
  have "lease_wf doc' \<and> fd_epoch doc \<le> fd_epoch doc' \<and>
      (\<forall>l'. fd_lease doc' = Some l' \<longrightarrow> ls_epoch l' = ls_epoch l \<longrightarrow> (\<lambda>a b. named b a)\<^sup>*\<^sup>* (ls_owner l) (ls_owner l'))"
    using assms(2)
  proof (induction rule: rtranclp_induct)
    case base
    then show ?case using assms(1,3) by auto
  next
    case (step d1 d2)
    have wf: "lease_wf d1" and le: "fd_epoch doc \<le> fd_epoch d1" using step.IH by auto
    have le2: "fd_epoch d1 \<le> fd_epoch d2" and wf2: "lease_wf d2"
      using lease_step_epoch[OF step.hyps(2) wf] lease_step_wf[OF step.hyps(2) wf] by auto
    have "ls_epoch l = fd_epoch doc" using assms(1,3) by (simp add: lease_wf_def)
    then have "(\<lambda>a b. named b a)\<^sup>*\<^sup>* (ls_owner l) (ls_owner m)"
      if m: "fd_lease d2 = Some m" "ls_epoch m = ls_epoch l" for m
      using lease_step_effect[OF step.hyps(2) wf] step.IH m le
      by (auto intro: rtranclp.rtrancl_into_rtrancl)
    then show ?case using le le2 wf2 by auto
  qed
  then show ?thesis using assms(4,5) by blast
qed

text \<open>
  Acquiring the lease, on every branch. A live lease of another machine is left as it is and
  nothing is granted; the holder (under its id or its host name) extends its own epoch; an expired
  lease goes to the caller under the next epoch, counted as a leader change; with no lease
  recorded the caller gets the next epoch unless a legacy owner is named, who then gets it.
\<close>

theorem lease_take_branches:
  fixes doc tick now owner hostname
  defines "new \<equiv> \<lparr>ls_owner = owner, ls_epoch = fd_epoch doc + 1, ls_expires_at = now + ttl_ms tick\<rparr>"
    and "counted \<equiv> doc\<lparr>fd_leader_changes := fd_leader_changes doc + 1\<rparr>"
  shows "lease_take tick now owner hostname doc =
    (case fd_lease doc of
      Some held \<Rightarrow>
        if ls_expires_at held \<le> now then Inr (Some new, hold_lease counted new)
        else if ls_owner held \<in> {owner, hostname}
          then Inr (Some (new\<lparr>ls_epoch := ls_epoch held\<rparr>), hold_lease doc (new\<lparr>ls_epoch := ls_epoch held\<rparr>))
          else Inr (None, doc)
    | None \<Rightarrow>
        if fd_legacy_owner doc \<in> {'''', hostname, owner} then Inr (Some new, hold_lease counted new)
        else Inr (None, hold_lease counted (new\<lparr>ls_owner := fd_legacy_owner doc\<rparr>)))"
  by (auto simp: lease_take_def new_def counted_def Let_def split: option.splits)

text \<open>
  Renewing keeps owner and epoch and leaves at least two ticks on the clock; it never shortens
  the lease.
\<close>

theorem renew_extends:
  assumes "0 < tick" "lease_extend tick now held doc = Inr (l, doc')"
  shows "\<exists>live. fd_lease doc = Some live \<and> fd_lease doc' = Some l \<and> fd_epoch doc' = fd_epoch doc \<and>
    ls_owner l = ls_owner live \<and> ls_epoch l = ls_epoch live \<and>
    ls_expires_at live \<le> ls_expires_at l \<and> now + 2 * tick \<le> ls_expires_at l"
  using assms
  by (auto simp: lease_extend_def Let_def lease_check_Inr ttl_ms_def split: sum.splits option.splits if_splits)

lemma guarded_change_ok: "change_ok c change \<Longrightarrow> change_ok c (guarded_change h change)"
  by (auto simp: change_ok_def guarded_change_def aside_refl split: sum.splits)

lemma guarded_step:
  assumes "fencing_step c moved (guarded_change h change) doc w = (Inr out, w')" "\<not> fd_moved doc"
  shows "lease_check (fd_lease doc) (fw_now w) h = Inr ()"
  using assms by (auto simp: fencing_step_def guarded_change_def split: sum.splits prod.splits)

text \<open>
  A fenced write commits only under the live lease. When a write fenced by a lease or an epoch
  returns, the document it was committed on was current at its commit, and at the moment the change
  ran that document's lease was live and the fence's own, however other controllers wrote in between
  (a document already moved to the per record layout is fenced there).
\<close>

theorem fenced_write_under_lease:
  assumes "counts_ok c" "change_ok c change" "others_ok c others" "fdoc_inv c w"
    and "lease_fenced c moved (Some h) change others w = (Inr r, w')"
  shows "\<exists>doc rvn w1 w2. fdoc_ev c w w1 \<and> fdoc_ev c w1 w2 \<and>
    fencing_rd c w1 = Some (doc, rvn) \<and> fencing_rd c w2 = Some (doc, rvn) \<and>
    (w' = w2 \<or> (\<exists>doc'. fencing_commit c doc' rvn w2 = Inr w')) \<and>
    (fd_moved doc \<or> lease_check (fd_lease doc) (fw_now w1) h = Inr ())"
proof -
  have run: "fencing_write c moved (guarded_change h change) others w = (Inr r, w')"
    using assms(5) by (simp add: lease_fenced_def)
  note gok = guarded_change_ok[OF assms(2), of h]
  obtain doc rvn w1 w2 where at: "fdoc_ev c w w1" "fdoc_ev c w1 w2" "fencing_rd c w1 = Some (doc, rvn)"
    "(fencing_step c moved (guarded_change h change) doc w1 = (Inr (r, None), w2) \<and> w' = w2) \<or>
     (\<exists>doc' w3. fencing_step c moved (guarded_change h change) doc w1 = (Inr (r, Some doc'), w3) \<and>
        fencing_rd c w2 = Some (doc, rvn) \<and> fencing_commit c doc' rvn w2 = Inr w' \<and>
        (\<exists>rvn' > rvn. fencing_rd c w' = Some (doc', rvn')))"
    by (rule fencing_write_Inr[OF assms(1) gok assms(3,4) run]) blast
  obtain out w3 where step: "fencing_step c moved (guarded_change h change) doc w1 = (Inr out, w3)"
    using at(4) by blast
  have "fd_moved doc \<or> lease_check (fd_lease doc) (fw_now w1) h = Inr ()"
    using guarded_step[OF step] by blast
  moreover have "fencing_rd c w2 = Some (doc, rvn)"
  proof -
    have "fdoc_inv c w1" using at(1) by (simp add: fdoc_ev_def)
    then have "fencing_step c moved (guarded_change h change) doc w1 = (Inr (r, None), w2) \<Longrightarrow>
        fencing_rd c w2 = fencing_rd c w1"
      using fencing_step_aside[OF assms(1) gok, of w1 moved doc] by (simp add: aside_def)
    then show ?thesis using at(3,4) by auto
  qed
  ultimately show ?thesis using at by blast
qed

text \<open>The tick of the controller is at least a second, so a lease outlives two missed beats.\<close>

theorem tick_at_least_second:
  assumes "tick_ms parse seconds = Inr tick"
  shows "1000 \<le> tick \<and> ttl_ms tick - 2 * tick \<ge> 1000"
  using assms by (auto simp: tick_ms_def ttl_ms_def Let_def split: if_splits option.splits)

end
