(* ===== verification/Naming.thy ===== *)
theory Naming
  imports Prelude
begin

text \<open>
  Swarm agent names, \<open><type>@<code>-<number>\<close> (\<open>scripts/swarm/naming.py\<close>): building, parsing, the
  older \<open><slug>-<lane>-<n>\<close> form, and the labels made from them. A text is a list of 8-bit
  characters, read as ASCII: a digit of the patterns is one of \<open>0\<close> to \<open>9\<close>.
\<close>

section \<open>Characters\<close>

definition is_digit :: "char \<Rightarrow> bool" where
  "is_digit ch \<longleftrightarrow> ch \<in> set ''0123456789''"

definition is_hex :: "char \<Rightarrow> bool" where
  "is_hex ch \<longleftrightarrow> ch \<in> set ''0123456789abcdef''"

definition is_lower :: "char \<Rightarrow> bool" where
  "is_lower ch \<longleftrightarrow> ch \<in> set ''abcdefghijklmnopqrstuvwxyz''"

definition digit_char :: "nat \<Rightarrow> char" where
  "digit_char d = ''0123456789'' ! d"

definition digit_value :: "char \<Rightarrow> nat" where
  "digit_value ch = of_char ch - 48"

definition digits_value :: "string \<Rightarrow> nat" where
  "digits_value = foldl (\<lambda>n ch. 10 * n + digit_value ch) 0"

text \<open>\<open>f"{number:04d}"\<close> for a number below ten thousand.\<close>

definition pad4 :: "nat \<Rightarrow> string" where
  "pad4 n = map digit_char [n div 1000 mod 10, n div 100 mod 10, n div 10 mod 10, n mod 10]"

definition to_lower :: "char \<Rightarrow> char" where
  "to_lower ch = (let n = (of_char ch :: nat) in if 65 \<le> n \<and> n \<le> 90 then char_of (n + 32) else ch)"

section \<open>Names\<close>

definition name_types :: "(string, string) dict" where
  "name_types = [(''master'', ''master''), (''eng'', ''engineer''), (''ci'', ''ci''),
    (''plan'', ''planner''), (''dispatch'', ''dispatcher'')]"

definition name_kinds :: "string list" where
  "name_kinds = dvals name_types"

definition lanes :: "(string, string) dict" where
  "lanes = map (\<lambda>(lane, kind). (kind, lane)) name_types"

record agent_name =
  an_kind :: string
  an_code :: string
  an_number :: nat

definition agent_name_lane :: "agent_name \<Rightarrow> string option" where
  "agent_name_lane n = dget lanes (an_kind n)"

definition code_ok :: "string \<Rightarrow> bool" where
  "code_ok code \<longleftrightarrow> length code = 6 \<and> list_all is_hex code"

definition build_name :: "string \<Rightarrow> string \<Rightarrow> int \<Rightarrow> fault + string" where
  "build_name kind code number =
    (if kind \<notin> set name_kinds \<or> \<not> code_ok code \<or> \<not> (0 < number \<and> number < 10000)
     then Inl (Value_Error ''no agent name for type, code, number'')
     else Inr (kind @ ''@'' @ code @ ''-'' @ pad4 (nat number)))"

definition parse_name :: "string \<Rightarrow> agent_name option" where
  "parse_name name =
    (case find (\<lambda>kind. take (length kind + 1) name = kind @ ''@'') name_kinds of
      None \<Rightarrow> None
    | Some kind \<Rightarrow>
        let rest = drop (length kind + 1) name;
            code = take 6 rest;
            number = drop 7 rest
        in if length rest = 11 \<and> list_all is_hex code \<and> rest ! 6 = CHR ''-'' \<and> list_all is_digit number
           then Some \<lparr>an_kind = kind, an_code = code, an_number = digits_value number\<rparr>
           else None)"

definition swarm_name :: "string \<Rightarrow> string" where
  "swarm_name code = (if code \<noteq> '''' then ''swarm@'' @ code else '''')"

definition swarm_code :: "string \<Rightarrow> string" where
  "swarm_code name =
    (if take 6 name = ''swarm@'' \<and> code_ok (drop 6 name) then drop 6 name else '''')"

text \<open>
  The pattern \<open>(.+)-(eng|ci|master)-\d+\<close> over a whole name: the digits end it, the lane stands
  between two dashes, the slug before it is not empty and has no line break.
\<close>

definition legacy_match :: "string \<Rightarrow> (string \<times> string) option" where
  "legacy_match name =
    (let digits = takeWhile is_digit (rev name);
         front = dropWhile is_digit (rev name)
     in if digits = [] \<or> front = [] \<or> hd front \<noteq> CHR ''-'' then None
        else let body = rev (tl front) in
          case find (\<lambda>lane. length lane + 1 < length body \<and>
                 drop (length body - (length lane + 1)) body = ''-'' @ lane)
               [''eng'', ''ci'', ''master''] of
            None \<Rightarrow> None
          | Some lane \<Rightarrow>
              let slug = take (length body - (length lane + 1)) body
              in if CHR ''\<newline>'' \<in> set slug then None else Some (slug, lane))"

definition legacy_slug :: "string \<Rightarrow> string" where
  "legacy_slug name = (case legacy_match name of None \<Rightarrow> '''' | Some (slug, _) \<Rightarrow> slug)"

definition lane_of :: "string \<Rightarrow> string" where
  "lane_of name =
    (case parse_name name of
      Some parsed \<Rightarrow> (case agent_name_lane parsed of Some lane \<Rightarrow> lane | None \<Rightarrow> '''')
    | None \<Rightarrow> (case legacy_match name of None \<Rightarrow> '''' | Some (_, lane) \<Rightarrow> lane))"

definition plain_name :: "string \<Rightarrow> string" where
  "plain_name name = map (\<lambda>ch. if ch = CHR ''@'' then CHR ''-'' else ch) name"

text \<open>\<open>re.sub(r"[^a-z0-9]+", "-", text.lower()).strip("-")\<close>\<close>

fun dash_runs :: "bool \<Rightarrow> string \<Rightarrow> string" where
  "dash_runs in_run [] = []"
| "dash_runs in_run (ch # rest) =
    (if is_lower ch \<or> is_digit ch then ch # dash_runs False rest
     else if in_run then dash_runs True rest
     else CHR ''-'' # dash_runs True rest)"

definition strip_dashes :: "string \<Rightarrow> string" where
  "strip_dashes s = rev (dropWhile (\<lambda>ch. ch = CHR ''-'') (rev (dropWhile (\<lambda>ch. ch = CHR ''-'') s)))"

definition clean_text :: "string \<Rightarrow> string" where
  "clean_text text = strip_dashes (dash_runs False (map to_lower text))"

definition pane_label :: "string \<Rightarrow> string" where
  "pane_label title = (if clean_text title = '''' then ''pane'' else clean_text title)"

text \<open>The decimal digits of a number, as \<open>f"{index}"\<close> writes them.\<close>

fun decimal :: "nat \<Rightarrow> string" where
  "decimal n = (if n < 10 then [digit_char n] else decimal (n div 10) @ [digit_char (n mod 10)])"

declare decimal.simps [simp del]

definition seat_label :: "string \<Rightarrow> int \<Rightarrow> fault + string" where
  "seat_label lane index =
    (if \<not> dhas name_types lane \<or> index < 1
     then Inl (Value_Error ''a seat needs a known lane and a positive integer'')
     else Inr (if lane \<in> {''master'', ''dispatch''} \<and> index = 1 then lane
               else lane @ ''-'' @ decimal (nat index)))"

text \<open>\<open>is_seat\<close> of \<open>scripts/inbox/seats.py\<close>.\<close>

definition is_seat :: "string \<Rightarrow> bool" where
  "is_seat address \<longleftrightarrow> CHR ''@'' \<in> set address \<and> parse_name address = None"

section \<open>Round trips\<close>

lemma digit_char_cases:
  "d < 10 \<Longrightarrow> is_digit (digit_char d) \<and> digit_value (digit_char d) = d"
  by (simp add: less_Suc_eq numeral_eq_Suc, elim disjE)
    (simp_all add: is_digit_def digit_char_def digit_value_def)

lemma digit_cases:
  assumes "is_digit ch"
  shows "\<exists>d < 10. ch = digit_char d"
proof -
  have "\<exists>d < length ''0123456789''. ''0123456789'' ! d = ch"
    using assms unfolding is_digit_def in_set_conv_nth .
  then obtain d where "d < length ''0123456789''" "ch = digit_char d"
    unfolding digit_char_def by metis
  then show ?thesis by (intro exI[of _ d]) simp
qed

lemma digits_value_pad4:
  assumes "n < 10000"
  shows "digits_value (pad4 n) = n"
proof -
  define a b c where "a = n div 10" and "b = a div 10" and "c = b div 10"
  have "digits_value (pad4 n) = 10 * (10 * (10 * (c mod 10) + b mod 10) + a mod 10) + n mod 10"
    by (simp add: digits_value_def pad4_def digit_char_cases a_def b_def c_def div_mult2_eq[symmetric])
  moreover have "c < 10" using assms by (simp add: a_def b_def c_def div_mult2_eq[symmetric])
  moreover have "10 * a + n mod 10 = n" "10 * b + a mod 10 = a" "10 * c + b mod 10 = b"
    by (simp_all add: a_def b_def c_def)
  ultimately show ?thesis by simp
qed

lemma pad4_digits: "list_all is_digit (pad4 n)" "length (pad4 n) = 4"
  by (simp_all add: pad4_def digit_char_cases)

lemma pad4_value:
  assumes "list_all is_digit s" "length s = 4"
  shows "pad4 (digits_value s) = s \<and> digits_value s < 10000"
proof -
  obtain w x y z where s: "s = [w, x, y, z]"
    using assms(2) by (auto simp: numeral_eq_Suc length_Suc_conv)
  obtain a b c d where d: "a < 10" "b < 10" "c < 10" "d < 10"
      "w = digit_char a" "x = digit_char b" "y = digit_char c" "z = digit_char d"
    using assms(1) s digit_cases by (auto simp: list_all_iff) metis
  have split: "(10 * m + k) div 10 = m" "(10 * m + k) mod 10 = k" if "k < 10" for m k :: nat
    using that by simp_all
  have v: "digits_value s = 10 * (10 * (10 * a + b) + c) + d"
    by (simp add: s digits_value_def d digit_char_cases)
  have hundreds: "n div 100 = n div 10 div 10" "n div 1000 = n div 10 div 10 div 10" for n :: nat
    by (simp_all add: div_mult2_eq[symmetric])
  have "pad4 (digits_value s) = s"
    unfolding v pad4_def hundreds by (simp only: split d(1-4) s d(5-8)) (simp add: d)
  moreover have "a \<le> 9" "b \<le> 9" "c \<le> 9" "d \<le> 9" using d(1-4) by auto
  moreover have "digits_value s = 1000 * a + 100 * b + 10 * c + d" by (simp add: v)
  ultimately have "pad4 (digits_value s) = s" "digits_value s \<le> 9999" by simp_all
  then show ?thesis by simp
qed

lemma kind_cases:
  "kind \<in> set name_kinds \<longleftrightarrow> kind \<in> {''master'', ''engineer'', ''ci'', ''planner'', ''dispatcher''}"
  by (auto simp: name_kinds_def name_types_def)

lemma find_kind:
  "kind \<in> set name_kinds \<Longrightarrow>
    find (\<lambda>k. take (length k + 1) (kind @ ''@'' @ rest) = k @ ''@'') name_kinds = Some kind"
  unfolding kind_cases by (elim insertE emptyE) (simp_all add: name_kinds_def name_types_def)

lemma parse_parts:
  assumes "kind \<in> set name_kinds" "length code = 6" "length digits = 4"
  shows "parse_name (kind @ ''@'' @ code @ ''-'' @ digits) =
    (if list_all is_hex code \<and> list_all is_digit digits
     then Some \<lparr>an_kind = kind, an_code = code, an_number = digits_value digits\<rparr> else None)"
  using assms(2,3) find_kind[OF assms(1), of "code @ ''-'' @ digits"]
  by (simp add: parse_name_def Let_def nth_append)

text \<open>
  A built agent name parses back to its parts, and a name that parses to a positive number is
  the one \<open>build\<close> makes of those parts (number \<open>0000\<close> parses, and no name is built for it).
\<close>

theorem name_round_trip:
  "(\<forall>name. build_name kind code number = Inr name \<longrightarrow>
      parse_name name = Some \<lparr>an_kind = kind, an_code = code, an_number = nat number\<rparr>) \<and>
   (\<forall>name n. parse_name name = Some n \<longrightarrow> 0 < an_number n \<longrightarrow>
      build_name (an_kind n) (an_code n) (int (an_number n)) = Inr name)"
proof (intro conjI allI impI)
  fix name assume "build_name kind code number = Inr name"
  then show "parse_name name = Some \<lparr>an_kind = kind, an_code = code, an_number = nat number\<rparr>"
    using parse_parts[of kind code "pad4 (nat number)"]
    by (auto simp: build_name_def code_ok_def pad4_digits digits_value_pad4 split: if_splits)
next
  fix name n assume parsed: "parse_name name = Some n" and pos: "0 < an_number n"
  obtain kind where kind: "find (\<lambda>k. take (length k + 1) name = k @ ''@'') name_kinds = Some kind"
    using parsed by (auto simp: parse_name_def split: option.splits)
  define rest where "rest = drop (length kind + 1) name"
  have in_kinds: "kind \<in> set name_kinds" and name: "name = kind @ ''@'' @ rest"
    using find_Some_in[OF kind] append_take_drop_id[of "length kind + 1" name]
    by (auto simp: rest_def)
  have rest: "length rest = 11" "list_all is_hex (take 6 rest)" "rest ! 6 = CHR ''-''"
      "list_all is_digit (drop 7 rest)"
      "n = \<lparr>an_kind = kind, an_code = take 6 rest, an_number = digits_value (drop 7 rest)\<rparr>"
    using parsed kind by (auto simp: parse_name_def rest_def Let_def split: if_splits)
  have "rest = take 6 rest @ ''-'' @ drop 7 rest"
    using Cons_nth_drop_Suc[of 6 rest] rest(1,3) append_take_drop_id[of 6 rest] by simp
  then show "build_name (an_kind n) (an_code n) (int (an_number n)) = Inr name"
    using pos in_kinds rest pad4_value[of "drop 7 rest"] name
    by (simp add: build_name_def code_ok_def)
qed

lemma name_round_trip_witness:
  "parse_name ''master@0a1b2c-0007'' = Some \<lparr>an_kind = ''master'', an_code = ''0a1b2c'', an_number = nat 7\<rparr>"
proof -
  have "build_name ''master'' ''0a1b2c'' 7 = Inr ''master@0a1b2c-0007''"
    by (simp add: build_name_def code_ok_def is_hex_def name_kinds_def name_types_def pad4_def digit_char_def)
  with name_round_trip[of "''master''" "''0a1b2c''" 7] show ?thesis by blast
qed

end
