(* ===== verification/Execution.thy ===== *)
theory Execution
  imports Ctl_Lease Naming
begin

text \<open>
  The execution registry of a swarm (\<open>scripts/swarm/execution.py\<close>): which attempt occupies each
  seat, how an attempt is started, updated, archived, ended. Every change is a fenced change of
  the document; a refusal counts an identity conflict. What the name registry answers, the listed
  agents of the projection and the fresh execution id are arguments.
\<close>

section \<open>Reading the registry\<close>

definition latest_seat :: "agent_record list \<Rightarrow> (string, agent_record) dict" where
  "latest_seat rows = foldl (\<lambda>found row.
     case dget found (ag_seat row) of
       None \<Rightarrow> dset (ag_seat row) row found
     | Some previous \<Rightarrow>
         if ag_generation row > ag_generation previous then dset (ag_seat row) row found
         else if ag_generation row = ag_generation previous then dset (ag_seat row) row found
         else found) [] rows"

definition latest_name :: "agent_record list \<Rightarrow> (string, agent_record) dict" where
  "latest_name rows = foldl (\<lambda>found row.
     case dget found (ag_name row) of
       None \<Rightarrow> dset (ag_name row) row found
     | Some previous \<Rightarrow>
         if ag_generation row > ag_generation previous then dset (ag_name row) row found
         else found) [] rows"

definition records_of :: "fdoc \<Rightarrow> agent_record list" where
  "records_of doc = sort_key (\<lambda>a. (ag_seat a, ag_generation a))
     (dvals (foldl (\<lambda>rows row. if dhas rows (ag_execution_id row) then rows
                            else dset (ag_execution_id row) row rows)
        [] (dvals (fd_executions doc) @ dvals (fd_archive doc))))"

definition occupants_of :: "fdoc \<Rightarrow> (string, agent_record) dict" where
  "occupants_of doc = sort_key fst (latest_seat (dvals (fd_executions doc)))"

section \<open>Refusals and checks\<close>

definition conflict :: "string \<Rightarrow> fault + 'a" where
  "conflict msg = Inl (Counted ''identity-conflicts'' msg)"

fun nonempty_str :: "json \<Rightarrow> bool" where
  "nonempty_str (JStr s) = (s \<noteq> [])"
| "nonempty_str _ = False"

fun target_field_ok :: "string \<times> json \<Rightarrow> fault + unit" where
  "target_field_ok (field, v) =
    (if field = ''pid'' then
       (case v of JInt i \<Rightarrow> if i < 1 then conflict ''runtime PID must be a positive integer'' else Inr ()
        | _ \<Rightarrow> conflict ''runtime PID must be a positive integer'')
     else if field = ''pid_start'' then
       (case v of JInt i \<Rightarrow> if i < 1 then conflict ''runtime PID start time must be a positive integer'' else Inr ()
        | _ \<Rightarrow> conflict ''runtime PID start time must be a positive integer'')
     else (case v of JStr s \<Rightarrow> Inr () | _ \<Rightarrow> conflict ''runtime target identity must be a string''))"

fun first_refusal :: "(fault + unit) list \<Rightarrow> fault + unit" where
  "first_refusal [] = Inr ()"
| "first_refusal (Inl e # rest) = Inl e"
| "first_refusal (Inr _ # rest) = first_refusal rest"

definition validate_target :: "string \<Rightarrow> jdict \<Rightarrow> fault + unit" where
  "validate_target backend target =
    (let allowed = (if backend = ''kubernetes'' then [''pod_namespace'', ''pod_name'', ''pod_uid'']
                    else [''host_id'', ''server_id'', ''process_namespace'', ''pid'', ''pid_start''])
     in if \<exists>k \<in> set (dkeys target). k \<notin> set allowed
        then conflict ''unsupported runtime target identity field''
        else if backend = ''kubernetes'' \<and>
          \<not> (nonempty_str (jget target ''pod_namespace'') \<and> nonempty_str (jget target ''pod_name''))
        then conflict ''Kubernetes target requires namespace and Pod name''
        else first_refusal (map target_field_ok target))"

definition validate_agent :: "string \<Rightarrow> agent_record \<Rightarrow> fault + unit" where
  "validate_agent slug agent =
    (if ag_runtime_backend agent \<noteq> ''local'' \<and> ag_runtime_backend agent \<noteq> ''kubernetes''
     then conflict ''unsupported runtime backend''
     else if \<not> is_seat (ag_seat agent) \<or>
       drop (length (ag_seat agent) - length (''@'' @ slug)) (ag_seat agent) \<noteq> ''@'' @ slug
     then conflict ''execution seat does not belong to the swarm''
     else validate_target (ag_runtime_backend agent) (ag_runtime_target agent))"

text \<open>A target is bound once; a bare host may be completed by its process.\<close>

definition same_keys :: "jdict \<Rightarrow> string list \<Rightarrow> bool" where
  "same_keys d ks \<longleftrightarrow> set (dkeys d) = set ks"

definition check_binding :: "jdict \<Rightarrow> jdict \<Rightarrow> fault + unit" where
  "check_binding previous current =
    (if same_keys previous [''host_id''] \<and>
        same_keys current [''host_id'', ''process_namespace'', ''pid'', ''pid_start''] \<and>
        dget previous ''host_id'' = dget current ''host_id''
     then Inr ()
     else if \<exists>field \<in> set (dkeys previous @ dkeys current).
        \<not> (field = ''pod_uid'' \<and> \<not> truthy (jget previous ''pod_uid'')) \<and>
        jget previous field \<noteq> jget current field
     then conflict ''runtime target identity is immutable after binding''
     else Inr ())"

definition read_before_ack :: "jdict \<Rightarrow> jdict \<Rightarrow> bool" where
  "read_before_ack written stored \<longleftrightarrow> same_keys written [''host_id''] \<and> stored \<noteq> written \<and>
     jget stored ''host_id'' = jget written ''host_id''"

definition check_uid :: "agent_record \<Rightarrow> fdoc \<Rightarrow> fworld \<Rightarrow> fault + fdoc" where
  "check_uid agent doc w =
    (let uid = jget (ag_runtime_target agent) ''pod_uid''
     in if \<not> truthy uid then Inr doc
        else and_then (hydrate_archive doc w) (\<lambda>doc1.
          if \<exists>row \<in> set (records_of doc1). ag_execution_id row \<noteq> ag_execution_id agent \<and>
               jget (ag_runtime_target row) ''pod_uid'' = uid
          then conflict ''Pod UID already belongs to another execution''
          else Inr doc1))"

definition immutable_fields :: "agent_record \<Rightarrow> string list \<times> int \<times> int" where
  "immutable_fields a = ([ag_execution_id a, ag_name a, ag_lane a, ag_task a, ag_seat a,
     ag_runtime_backend a, ag_transport a], ag_generation a, ag_started_at a)"

section \<open>Starting an attempt\<close>

definition start_admit ::
  "string \<Rightarrow> int option \<Rightarrow> string \<Rightarrow> agent_record \<Rightarrow> (agent_record \<times> agent_record option) fchange" where
  "start_admit uuid epoch previous_execution_id agent doc w =
    (let previous = dget (occupants_of doc) (ag_seat agent)
     in if (case previous of None \<Rightarrow> '''' | Some p \<Rightarrow> ag_execution_id p) \<noteq> previous_execution_id
        then (conflict ''replacement does not match the current execution'', w)
        else if \<exists>row \<in> set (records_of doc). ag_name row = ag_name agent \<and> ag_seat row \<noteq> ag_seat agent
        then (conflict ''canonical agent already belongs to another execution seat'', w)
        else (case check_uid agent doc w of
          Inl e \<Rightarrow> (Inl e, w)
        | Inr doc1 \<Rightarrow>
            let current = agent\<lparr>ag_execution_id := ''exe-'' @ uuid,
                  ag_generation := (case previous of None \<Rightarrow> 1 | Some p \<Rightarrow> ag_generation p + 1)\<rparr>
            in if dhas (fd_executions doc1) (ag_execution_id current)
               then (conflict ''execution identity already exists'', w)
               else let doc2 = doc1\<lparr>fd_executions := dset (ag_execution_id current) current (fd_executions doc1)\<rparr>;
                        doc3 = (case epoch of
                          None \<Rightarrow> doc2
                        | Some e \<Rightarrow> doc2\<lparr>fd_intents := dset (ag_execution_id current)
                            \<lparr>in_execution_id = ag_execution_id current,
                             in_generation = ag_generation current, in_controller_epoch = e\<rparr> (fd_intents doc2)\<rparr>)
                    in (Inr ((current, previous), doc3), w)))"

text \<open>
  \<open>resolved\<close> is the name the registry resolves the agent's to, \<open>registered\<close> whether it is an entry
  of this swarm, \<open>publication\<close> a publication in flight for the seat.
\<close>

definition exec_fenced :: "fctx \<Rightarrow> (fault + 'r) \<Rightarrow> int option \<Rightarrow> bool \<Rightarrow> 'r fchange \<Rightarrow>
    (fworld \<Rightarrow> fworld) list \<Rightarrow> fworld \<Rightarrow> (fault + 'r) \<times> fworld" where
  "exec_fenced c moved epoch history change others w =
    lease_fenced c moved (map_option By_Epoch epoch)
      (if history then change_with_archive c change else change) others w"

definition exec_start ::
  "fctx \<Rightarrow> (fault + agent_record \<times> agent_record option) \<Rightarrow> int option \<Rightarrow> string \<Rightarrow> string \<Rightarrow> bool \<Rightarrow> string \<Rightarrow>
   agent_record \<Rightarrow> string \<Rightarrow> (fworld \<Rightarrow> fworld) list \<Rightarrow> fworld \<Rightarrow>
   (fault + agent_record \<times> agent_record option) \<times> fworld" where
  "exec_start c moved epoch uuid resolved registered publication agent0 previous_execution_id others w =
    (let agent = agent0\<lparr>ag_name := resolved\<rparr>
     in if \<not> registered
        then count_refusal c (conflict ''execution requires a registered canonical agent name'', w)
        else if ag_execution_id agent \<noteq> '''' \<or> ag_generation agent \<noteq> 0
        then count_refusal c (conflict ''new execution identity and generation must be allocated by the store'', w)
        else (case validate_agent (fx_slug c) agent of
          Inl e \<Rightarrow> count_refusal c (Inl e, w)
        | Inr _ \<Rightarrow>
            if publication \<noteq> ''''
            then (Inl (Swarm_Error ''current execution publication is in flight; retry after it finishes''), w)
            else exec_fenced c moved epoch True
                   (start_admit uuid epoch previous_execution_id agent) others w))"

section \<open>Updating an attempt\<close>

definition launch_binding :: "agent_record \<Rightarrow> agent_record \<Rightarrow> agent_record" where
  "launch_binding current written = written\<lparr>
     ag_runtime_target := ag_runtime_target current, ag_pane_id := ag_pane_id current,
     ag_account := ag_account current, ag_model := ag_model current, ag_effort := ag_effort current,
     ag_profile_decision := ag_profile_decision current, ag_launched_at := ag_launched_at current,
     ag_launch_timings := ag_launch_timings current, ag_overlays := ag_overlays current\<rparr>"

definition update_change :: "agent_record \<Rightarrow> (agent_record \<times> agent_record) fchange" where
  "update_change agent doc w =
    (case dget (occupants_of doc) (ag_seat agent) of
      None \<Rightarrow> (conflict ''stale or changed execution identity'', w)
    | Some current \<Rightarrow>
        if immutable_fields agent \<noteq> immutable_fields current
        then (conflict ''stale or changed execution identity'', w)
        else
          let written = (if ag_state current = ''finished'' \<and> ag_state agent \<noteq> ''ended''
                         then agent\<lparr>ag_state := ''finished''\<rparr> else agent);
              written = (if read_before_ack (ag_runtime_target written) (ag_runtime_target current)
                         then launch_binding current written else written)
          in (case check_binding (ag_runtime_target current) (ag_runtime_target written) of
               Inl e \<Rightarrow> (Inl e, w)
             | Inr _ \<Rightarrow>
                 (case check_uid written doc w of
                   Inl e \<Rightarrow> (Inl e, w)
                 | Inr doc1 \<Rightarrow>
                     (Inr ((written, current),
                        if written \<noteq> current
                        then doc1\<lparr>fd_executions := dset (ag_execution_id written) written (fd_executions doc1)\<rparr>
                        else doc1), w))))"

definition exec_update ::
  "fctx \<Rightarrow> (fault + agent_record \<times> agent_record) \<Rightarrow> int option \<Rightarrow> agent_record \<Rightarrow>
   (fworld \<Rightarrow> fworld) list \<Rightarrow> fworld \<Rightarrow> (fault + agent_record \<times> agent_record) \<times> fworld" where
  "exec_update c moved epoch agent others w =
    (case validate_agent (fx_slug c) agent of
      Inl e \<Rightarrow> count_refusal c (Inl e, w)
    | Inr _ \<Rightarrow> exec_fenced c moved epoch False (update_change agent) others w)"

section \<open>Archiving, panes, orphans\<close>

text \<open>A typed row always has its name, seat and generation, so every row is archivable.\<close>

definition drop_blobs :: "agent_record \<Rightarrow> fault + agent_record" where
  "drop_blobs row =
    (case dget (ag_profile_decision row) ''validation'' of
      None \<Rightarrow> Inr row
    | Some (JObj validation) \<Rightarrow>
        Inr (row\<lparr>ag_profile_decision :=
          jset ''validation'' (JObj (dpop ''source_blobs'' validation)) (ag_profile_decision row)\<rparr>)
    | Some _ \<Rightarrow> Inl Type_Error)"

fun drop_all_blobs :: "(string, agent_record) dict \<Rightarrow> fault + (string, agent_record) dict" where
  "drop_all_blobs [] = Inr []"
| "drop_all_blobs ((k, row) # rest) =
    and_then (drop_blobs row) (\<lambda>row'. and_then (drop_all_blobs rest) (\<lambda>rest'. Inr ((k, row') # rest')))"

definition superseded_keys :: "string list \<Rightarrow> fdoc \<Rightarrow> string list" where
  "superseded_keys listed doc =
    (let heads = latest_seat (dvals (fd_executions doc))
     in map fst (filter (\<lambda>(k, row). (case dget heads (ag_seat row) of
            None \<Rightarrow> False | Some h \<Rightarrow> ag_generation row < ag_generation h) \<and> ag_name row \<notin> set listed)
          (fd_executions doc)))"

fun move_keys :: "string list \<Rightarrow> fdoc \<Rightarrow> fdoc" where
  "move_keys [] doc = doc"
| "move_keys (k # ks) doc =
    (case dget (fd_executions doc) k of
      None \<Rightarrow> move_keys ks doc
    | Some row \<Rightarrow> move_keys ks (doc\<lparr>fd_archive := dset k row (fd_archive doc),
                                    fd_executions := dpop k (fd_executions doc)\<rparr>))"

definition archive_move :: "string list \<Rightarrow> nat fchange" where
  "archive_move listed doc w =
    (let old = superseded_keys listed doc
     in if old = [] \<and> fd_archive_ref doc \<noteq> None then (Inr (0, doc), w)
        else (case hydrate_archive doc w of
          Inl e \<Rightarrow> (Inl e, w)
        | Inr doc1 \<Rightarrow>
            let doc2 = move_keys old doc1
            in (case drop_all_blobs (fd_archive doc2) of
                  Inl e \<Rightarrow> (Inl e, w)
                | Inr archive \<Rightarrow> (Inr (length old, doc2\<lparr>fd_archive := archive\<rparr>), w))))"

definition pane_change :: "string list \<Rightarrow> string \<Rightarrow> string \<Rightarrow> ((agent_record \<times> agent_record) option) fchange" where
  "pane_change listed execution_id pane_id doc w =
    (let (raw, doc1) = (case dget (fd_executions doc) execution_id of
            Some row \<Rightarrow> (Some row, doc)
          | None \<Rightarrow> (dget (fd_archive doc) execution_id,
                      doc\<lparr>fd_archive := dpop execution_id (fd_archive doc)\<rparr>))
     in case raw of
          None \<Rightarrow> (conflict ''unknown execution identity; display labels cannot identify attempts'', w)
        | Some current \<Rightarrow>
            let heads = map ag_execution_id (dvals (occupants_of doc1));
                updated = current\<lparr>ag_pane_id := pane_id\<rparr>;
                doc2 = doc1\<lparr>fd_executions := dset execution_id updated (fd_executions doc1)\<rparr>
            in (Inr (if execution_id \<in> set heads \<and> ag_name current \<in> set listed
                     then Some (updated, current) else None, doc2), w))"

definition master_deadline_ms :: int where "master_deadline_ms = 2 * 60 * 1000"

definition orphan_state :: "agent_record \<Rightarrow> int \<Rightarrow> bool" where
  "orphan_state agent now =
    (if ag_state agent = ''starting'' then now - ag_started_at agent \<ge> master_deadline_ms
     else ag_state agent = ''working'')"

definition end_change :: "string list \<Rightarrow> agent_record \<Rightarrow> int \<Rightarrow> bool fchange" where
  "end_change listed agent now doc w =
    (if dget (occupants_of doc) (ag_seat agent) \<noteq> Some agent \<or> \<not> orphan_state agent now \<or>
        ag_name agent \<in> set listed
     then (Inr (False, doc), w)
     else (Inr (True, doc\<lparr>fd_executions :=
             dset (ag_execution_id agent) (agent\<lparr>ag_state := ''ended''\<rparr>) (fd_executions doc)\<rparr>), w))"

definition undo_change :: "agent_record \<Rightarrow> unit fchange" where
  "undo_change agent doc w =
    (if dget (fd_executions doc) (ag_execution_id agent) = Some (agent\<lparr>ag_state := ''ended''\<rparr>)
     then (Inr ((), doc\<lparr>fd_executions := dset (ag_execution_id agent) agent (fd_executions doc)\<rparr>), w)
     else (Inr ((), doc), w))"

definition exec_archive ::
  "fctx \<Rightarrow> (fault + nat) \<Rightarrow> int option \<Rightarrow> string list \<Rightarrow> (fworld \<Rightarrow> fworld) list \<Rightarrow> fworld \<Rightarrow> (fault + nat) \<times> fworld" where
  "exec_archive c moved epoch listed others w = exec_fenced c moved epoch False (archive_move listed) others w"

definition exec_set_pane ::
  "fctx \<Rightarrow> (fault + (agent_record \<times> agent_record) option) \<Rightarrow> int option \<Rightarrow> string list \<Rightarrow> string \<Rightarrow> string \<Rightarrow>
   (fworld \<Rightarrow> fworld) list \<Rightarrow> fworld \<Rightarrow> (fault + (agent_record \<times> agent_record) option) \<times> fworld" where
  "exec_set_pane c moved epoch listed execution_id pane_id others w =
    exec_fenced c moved epoch True (pane_change listed execution_id pane_id) others w"

text \<open>\<open>listed\<close> and \<open>listed_after\<close> are the two reads of the projection, before the end and after it.\<close>

definition exec_end_orphan ::
  "fctx \<Rightarrow> (fault + bool) \<Rightarrow> (fault + unit) \<Rightarrow> int option \<Rightarrow> string list \<Rightarrow> string list \<Rightarrow> agent_record \<Rightarrow> int \<Rightarrow>
   (fworld \<Rightarrow> fworld) list \<Rightarrow> (fworld \<Rightarrow> fworld) list \<Rightarrow> fworld \<Rightarrow> (fault + bool) \<times> fworld" where
  "exec_end_orphan c moved moved_undo epoch listed listed_after agent now others others_undo w =
    (case exec_fenced c moved epoch False (end_change listed agent now) others w of
      (Inl e, w1) \<Rightarrow> (Inl e, w1)
    | (Inr False, w1) \<Rightarrow> (Inr False, w1)
    | (Inr True, w1) \<Rightarrow>
        if ag_name agent \<notin> set listed_after then (Inr True, w1)
        else (case exec_fenced c moved_undo epoch False (undo_change agent) others_undo w1 of
          (Inl e, w2) \<Rightarrow> (Inl e, w2)
        | (Inr _, w2) \<Rightarrow> (Inr False, w2)))"

end
