(* ===== verification/Execution_Laws.thy ===== *)
theory Execution_Laws
  imports Execution Archive_Laws Lease_Laws
begin

text \<open>
  What the execution registry promises: one occupant per seat, the attempt of the highest
  generation; generations, names and Pod UIDs identify one attempt; an attempt's identity never
  changes; archiving moves superseded attempts without losing any. The registry of a document is
  its current rows with the full archive, inline and external.
\<close>

section \<open>Heads\<close>

definition seat_head :: "agent_record list \<Rightarrow> string \<Rightarrow> agent_record option \<Rightarrow> bool" where
  "seat_head rows s h \<longleftrightarrow> (case h of
     None \<Rightarrow> (\<forall>r \<in> set rows. ag_seat r \<noteq> s)
   | Some r \<Rightarrow> r \<in> set rows \<and> ag_seat r = s \<and>
       (\<forall>x \<in> set rows. ag_seat x = s \<longrightarrow> ag_generation x \<le> ag_generation r))"

lemma latest_seat_head: "seat_head rows s (dget (latest_seat rows) s)"
proof (induction rows rule: rev_induct)
  case Nil
  then show ?case by (simp add: latest_seat_def seat_head_def)
next
  case (snoc row rows)
  define found where "found = latest_seat rows"
  have step: "latest_seat (rows @ [row]) =
     (case dget found (ag_seat row) of
       None \<Rightarrow> dset (ag_seat row) row found
     | Some previous \<Rightarrow> if ag_generation row \<ge> ag_generation previous then dset (ag_seat row) row found else found)"
    by (auto simp: latest_seat_def found_def split: option.splits)
  show ?case
  proof (cases "ag_seat row = s")
    case True
    then show ?thesis using snoc.IH unfolding step found_def[symmetric]
      by (cases "dget found s") (auto simp: seat_head_def dget_dset)
  next
    case False
    then have "dget (latest_seat (rows @ [row])) s = dget found s"
      unfolding step by (auto simp: dget_dset split: option.splits)
    then show ?thesis using snoc.IH False
      by (cases "dget found s") (auto simp: seat_head_def found_def)
  qed
qed

lemma wf_latest_seat: "wf_dict (latest_seat rows)"
  by (induction rows rule: rev_induct)
    (auto simp: latest_seat_def intro: distinct_update split: option.splits)

lemma map_of_sort_key: "wf_dict d \<Longrightarrow> map_of (sort_key fst d) = map_of d"
  by (subst map_of_inject_set) (simp_all add: distinct_map)

lemma occupants_dget: "dget (occupants_of doc) s = dget (latest_seat (dvals (fd_executions doc))) s"
  unfolding occupants_of_def by (simp add: map_of_sort_key[OF wf_latest_seat])

lemma occupants_head: "seat_head (dvals (fd_executions doc)) s (dget (occupants_of doc) s)"
  unfolding occupants_dget by (rule latest_seat_head)

lemma dvals_map_of: "wf_dict d \<Longrightarrow> set (dvals d) = ran (map_of d)"
  by (simp add: ran_distinct)

lemma records_of_set:
  "set (records_of doc) \<subseteq> set (dvals (fd_executions doc)) \<union> set (dvals (fd_archive doc))"
  "r \<in> set (dvals (fd_executions doc)) \<union> set (dvals (fd_archive doc)) \<Longrightarrow>
    \<exists>x \<in> set (records_of doc). ag_execution_id x = ag_execution_id r"
proof -
  define add :: "(string, agent_record) dict \<Rightarrow> agent_record \<Rightarrow> (string, agent_record) dict"
    where "add = (\<lambda>rows row. if dhas rows (ag_execution_id row) then rows
      else dset (ag_execution_id row) row rows)"
  have sub: "set (dvals (foldl add acc rs)) \<subseteq> set (dvals acc) \<union> set rs" for acc rs
  proof (induction rs arbitrary: acc)
    case (Cons r rs)
    have "set (dvals (add acc r)) \<subseteq> insert r (set (dvals acc))"
      by (auto simp: add_def dest!: set_dset_subset)
    then have "set (dvals (add acc r)) \<union> set rs \<subseteq> set (dvals acc) \<union> set (r # rs)" by auto
    with Cons.IH[of "add acc r"] show ?case unfolding foldl_Cons by (rule subset_trans)
  qed simp
  have add_keep: "dget acc k = Some x \<Longrightarrow> dget (add acc r) k = Some x" for acc k x r
    by (auto simp: add_def dhas_def dget_dset)
  have add_keyed: "\<forall>k x. dget acc k = Some x \<longrightarrow> ag_execution_id x = k \<Longrightarrow>
      \<forall>k x. dget (add acc r) k = Some x \<longrightarrow> ag_execution_id x = k" for acc r
    by (auto simp: add_def dget_dset)
  have keep: "(\<forall>k x. dget acc k = Some x \<longrightarrow> dget (foldl add acc rs) k = Some x)" for acc rs
    by (induction rs arbitrary: acc) (simp_all add: add_keep)
  have keyed: "(\<forall>k x. dget acc k = Some x \<longrightarrow> ag_execution_id x = k) \<Longrightarrow>
      (\<forall>k x. dget (foldl add acc rs) k = Some x \<longrightarrow> ag_execution_id x = k)" for acc rs
  proof (induction rs arbitrary: acc)
    case (Cons a rs)
    show ?case unfolding foldl_Cons by (rule Cons.IH[OF add_keyed[OF Cons.prems]])
  qed simp
  have has: "r \<in> set rs \<Longrightarrow> dget (foldl add acc rs) (ag_execution_id r) \<noteq> None" for acc rs r
  proof (induction rs arbitrary: acc)
    case (Cons a rs)
    have "dget (add acc a) (ag_execution_id a) \<noteq> None" by (auto simp: add_def dhas_def dget_dset)
    then have "dget (foldl add (add acc a) rs) (ag_execution_id a) \<noteq> None"
      using keep[of "add acc a" rs] by blast
    then show ?case using Cons.prems Cons.IH[of "add acc a"] by auto
  qed simp
  define rs where "rs = dvals (fd_executions doc) @ dvals (fd_archive doc)"
  have set_eq: "set (records_of doc) = set (dvals (foldl add [] rs))"
    by (simp add: records_of_def add_def rs_def)
  show "set (records_of doc) \<subseteq> set (dvals (fd_executions doc)) \<union> set (dvals (fd_archive doc))"
    using sub[of "[]" rs] by (simp add: set_eq rs_def)
  assume "r \<in> set (dvals (fd_executions doc)) \<union> set (dvals (fd_archive doc))"
  then have "r \<in> set rs" by (simp add: rs_def)
  then obtain x where x: "dget (foldl add [] rs) (ag_execution_id r) = Some x"
    using has[of r rs "[]"] by auto
  then show "\<exists>x \<in> set (records_of doc). ag_execution_id x = ag_execution_id r"
    using keyed[of "[]" rs, simplified, rule_format, OF x] dget_in_vals[OF x] unfolding set_eq by blast
qed

section \<open>The registry invariant\<close>

definition reg_rows :: "(string \<rightharpoonup> agent_record) \<Rightarrow> (string \<rightharpoonup> agent_record) \<Rightarrow> agent_record set" where
  "reg_rows E A = ran E \<union> ran A"

definition agent_uid :: "agent_record \<Rightarrow> json" where
  "agent_uid a = jget (ag_runtime_target a) ''pod_uid''"

definition reg_ok :: "(string \<rightharpoonup> agent_record) \<Rightarrow> (string \<rightharpoonup> agent_record) \<Rightarrow> bool" where
  "reg_ok E A \<longleftrightarrow>
    (\<forall>k r. E k = Some r \<longrightarrow> ag_execution_id r = k) \<and>
    (\<forall>k r. A k = Some r \<longrightarrow> ag_execution_id r = k) \<and>
    dom E \<inter> dom A = {} \<and>
    (\<forall>a \<in> reg_rows E A. \<forall>b \<in> reg_rows E A.
       (ag_seat a = ag_seat b \<and> ag_generation a = ag_generation b \<longrightarrow> ag_execution_id a = ag_execution_id b) \<and>
       (ag_name a = ag_name b \<longrightarrow> ag_seat a = ag_seat b) \<and>
       (truthy (agent_uid a) \<and> agent_uid a = agent_uid b \<longrightarrow> ag_execution_id a = ag_execution_id b)) \<and>
    (\<forall>a \<in> ran A. \<exists>b \<in> ran E. ag_seat b = ag_seat a \<and> ag_generation a < ag_generation b) \<and>
    [] \<notin> dom E \<union> dom A"

definition full_archive :: "fdoc \<Rightarrow> fworld \<Rightarrow> fault + (string \<rightharpoonup> agent_record)" where
  "full_archive doc w = and_then (archive_rows (fw_states w) (archive_lookup_ref doc)) (\<lambda>rows.
     Inr (map_of rows ++ map_of (fd_archive doc)))"

definition registry_inv :: "fdoc \<Rightarrow> fworld \<Rightarrow> bool" where
  "registry_inv doc w \<longleftrightarrow> wf_dict (fd_executions doc) \<and> wf_dict (fd_archive doc) \<and> chunks_inv (fw_states w) \<and>
     (\<exists>A. full_archive doc w = Inr A \<and> reg_ok (map_of (fd_executions doc)) A)"

lemma reg_okD:
  assumes "reg_ok E A"
  shows "E k = Some r \<Longrightarrow> ag_execution_id r = k" "A k = Some r \<Longrightarrow> ag_execution_id r = k"
    "dom E \<inter> dom A = {}"
    "a \<in> reg_rows E A \<Longrightarrow> b \<in> reg_rows E A \<Longrightarrow> ag_seat a = ag_seat b \<Longrightarrow> ag_generation a = ag_generation b \<Longrightarrow>
      ag_execution_id a = ag_execution_id b"
    "a \<in> reg_rows E A \<Longrightarrow> b \<in> reg_rows E A \<Longrightarrow> ag_name a = ag_name b \<Longrightarrow> ag_seat a = ag_seat b"
    "a \<in> reg_rows E A \<Longrightarrow> b \<in> reg_rows E A \<Longrightarrow> truthy (agent_uid a) \<Longrightarrow> agent_uid a = agent_uid b \<Longrightarrow>
      ag_execution_id a = ag_execution_id b"
    "a \<in> ran A \<Longrightarrow> \<exists>b \<in> ran E. ag_seat b = ag_seat a \<and> ag_generation a < ag_generation b"
    "[] \<notin> dom E \<union> dom A"
  using assms unfolding reg_ok_def by blast+

lemma reg_okI:
  assumes "\<And>k r. E k = Some r \<Longrightarrow> ag_execution_id r = k" "\<And>k r. A k = Some r \<Longrightarrow> ag_execution_id r = k"
    "dom E \<inter> dom A = {}"
    "\<And>a b. a \<in> reg_rows E A \<Longrightarrow> b \<in> reg_rows E A \<Longrightarrow>
       (ag_seat a = ag_seat b \<and> ag_generation a = ag_generation b \<longrightarrow> ag_execution_id a = ag_execution_id b) \<and>
       (ag_name a = ag_name b \<longrightarrow> ag_seat a = ag_seat b) \<and>
       (truthy (agent_uid a) \<and> agent_uid a = agent_uid b \<longrightarrow> ag_execution_id a = ag_execution_id b)"
    "\<And>a. a \<in> ran A \<Longrightarrow> \<exists>b \<in> ran E. ag_seat b = ag_seat a \<and> ag_generation a < ag_generation b"
    "[] \<notin> dom E \<union> dom A"
  shows "reg_ok E A"
  using assms unfolding reg_ok_def by blast

lemma reg_ok_pairs:
  assumes "reg_ok E A" "a \<in> reg_rows E A" "b \<in> reg_rows E A"
  shows "(ag_seat a = ag_seat b \<and> ag_generation a = ag_generation b \<longrightarrow> ag_execution_id a = ag_execution_id b) \<and>
       (ag_name a = ag_name b \<longrightarrow> ag_seat a = ag_seat b) \<and>
       (truthy (agent_uid a) \<and> agent_uid a = agent_uid b \<longrightarrow> ag_execution_id a = ag_execution_id b)"
  using reg_okD(4-6)[OF assms] by blast

lemma archive_walk_wf: "archive_walk n states ref rows seen = Inr out \<Longrightarrow> wf_dict rows \<Longrightarrow> wf_dict out"
proof (induction n arbitrary: ref rows seen)
  case 0
  then show ?case by (cases ref) simp_all
next
  case (Suc n)
  have lay: "wf_dict rows \<Longrightarrow> wf_dict (lay_rows seen rows chunk)" for seen rows chunk
    by (induction seen rows chunk rule: lay_rows.induct) (auto intro: distinct_update)
  show ?case using Suc.prems Suc.IH lay
    by (cases ref) (auto split: option.splits fcell.splits)
qed

lemma archive_rows_wf: "archive_rows states ref = Inr rows \<Longrightarrow> wf_dict rows"
  unfolding archive_rows_def by (erule archive_walk_wf) simp

lemma map_of_dmerge: "wf_dict b \<Longrightarrow> map_of (dmerge a b) = map_of a ++ map_of b"
  by (rule ext) (simp add: dget_dmerge map_add_def)

lemma hydrate_full:
  assumes "hydrate_archive doc w = Inr h" "wf_dict (fd_archive doc)"
  shows "full_archive doc w = Inr (map_of (fd_archive h)) \<and> full_archive h w = Inr (map_of (fd_archive h)) \<and>
    wf_dict (fd_archive h) \<and> h\<lparr>fd_archive := fd_archive doc\<rparr> = doc"
  using assms map_add_assoc[of _ _ "map_of (fd_archive doc)"]
  by (auto simp: hydrate_archive_def full_archive_def and_then_Inr archive_lookup_ref_def map_of_dmerge
      wf_dict_dmerge archive_rows_wf map_add_subsumed1 simp del: map_add_assoc)

lemma full_hydrate:
  "full_archive doc w = Inr A \<Longrightarrow> \<exists>h. hydrate_archive doc w = Inr h"
  by (auto simp: full_archive_def hydrate_archive_def and_then_Inr)

section \<open>Changing one row\<close>

text \<open>What of a row the invariant looks at.\<close>

definition agent_sig :: "agent_record \<Rightarrow> string \<times> string \<times> int \<times> string \<times> json" where
  "agent_sig a = (ag_execution_id a, ag_seat a, ag_generation a, ag_name a, agent_uid a)"

lemma agent_sigD:
  assumes "agent_sig a = agent_sig b"
  shows "ag_execution_id a = ag_execution_id b" "ag_seat a = ag_seat b" "ag_generation a = ag_generation b"
    "ag_name a = ag_name b" "agent_uid a = agent_uid b"
  using assms by (simp_all add: agent_sig_def)

lemma ran_keep: "b \<in> ran E \<Longrightarrow> E k = Some r \<Longrightarrow> b \<noteq> r \<Longrightarrow> b \<in> ran (E(k := x))"
proof -
  assume "b \<in> ran E" "E k = Some r" "b \<noteq> r"
  then obtain j where j: "E j = Some b" by (auto simp: ran_def)
  then have "j \<noteq> k" using \<open>E k = Some r\<close> \<open>b \<noteq> r\<close> by (metis option.inject)
  then show ?thesis using j by (intro ranI[of _ j]) simp
qed

lemma map_option_sig:
  "(\<And>k. map_option agent_sig (M' k) = map_option agent_sig (M k)) \<Longrightarrow> M' k = Some r \<Longrightarrow>
    \<exists>r0. M k = Some r0 \<and> agent_sig r = agent_sig r0"
  by (metis map_option_eq_Some)

lemma reg_ok_same_sig:
  assumes ok: "reg_ok E A" and E: "\<And>k. map_option agent_sig (E' k) = map_option agent_sig (E k)"
    and A: "\<And>k. map_option agent_sig (A' k) = map_option agent_sig (A k)"
  shows "reg_ok E' A'"
proof -
  have Ek: "E' k = Some r \<Longrightarrow> \<exists>r0. E k = Some r0 \<and> agent_sig r = agent_sig r0" for k r
    by (rule map_option_sig[OF E])
  have Ak: "A' k = Some r \<Longrightarrow> \<exists>r0. A k = Some r0 \<and> agent_sig r = agent_sig r0" for k r
    by (rule map_option_sig[OF A])
  have E2: "E k = Some r \<Longrightarrow> \<exists>r0. E' k = Some r0 \<and> agent_sig r0 = agent_sig r" for k r
    using map_option_sig[of E E' k r] E by metis
  have "(E' k = None) = (E k = None)" "(A' k = None) = (A k = None)" for k
    using E[of k] A[of k] by (metis map_option_is_None)+
  then have doms: "dom E' = dom E" "dom A' = dom A" unfolding dom_def by simp_all
  have row: "a \<in> reg_rows E' A' \<Longrightarrow> \<exists>b \<in> reg_rows E A. agent_sig a = agent_sig b" for a
    using Ek Ak by (fastforce simp: reg_rows_def ran_def)
  have arow: "a \<in> ran A' \<Longrightarrow> \<exists>b \<in> ran A. agent_sig a = agent_sig b" for a
    using Ak by (fastforce simp: ran_def)
  have erow: "b \<in> ran E \<Longrightarrow> \<exists>a \<in> ran E'. agent_sig a = agent_sig b" for b
    using E2 by (fastforce simp: ran_def)
  show ?thesis
    unfolding reg_ok_def
  proof (intro conjI allI ballI impI)
    fix k r assume "E' k = Some r"
    then show "ag_execution_id r = k" using Ek reg_okD(1)[OF ok] agent_sigD(1) by metis
  next
    fix k r assume "A' k = Some r"
    then show "ag_execution_id r = k" using Ak reg_okD(2)[OF ok] agent_sigD(1) by metis
  next
    show "dom E' \<inter> dom A' = {}" using reg_okD(3)[OF ok] doms by simp
  next
    fix a b assume "a \<in> reg_rows E' A'" "b \<in> reg_rows E' A'"
    then obtain a0 b0 where ab: "a0 \<in> reg_rows E A" "b0 \<in> reg_rows E A" "agent_sig a = agent_sig a0"
      "agent_sig b = agent_sig b0" using row by blast
    show "ag_execution_id a = ag_execution_id b" if "ag_seat a = ag_seat b \<and> ag_generation a = ag_generation b"
      using reg_okD(4)[OF ok ab(1,2)] that unfolding agent_sigD[OF ab(3)] agent_sigD[OF ab(4)] by blast
    show "ag_seat a = ag_seat b" if "ag_name a = ag_name b"
      using reg_okD(5)[OF ok ab(1,2)] that unfolding agent_sigD[OF ab(3)] agent_sigD[OF ab(4)] by blast
    show "ag_execution_id a = ag_execution_id b" if "truthy (agent_uid a) \<and> agent_uid a = agent_uid b"
      using reg_okD(6)[OF ok ab(1,2)] that unfolding agent_sigD[OF ab(3)] agent_sigD[OF ab(4)] by blast
  next
    fix a assume "a \<in> ran A'"
    then obtain a0 where a0: "a0 \<in> ran A" "agent_sig a = agent_sig a0" using arow by blast
    obtain b0 where b0: "b0 \<in> ran E" "ag_seat b0 = ag_seat a0" "ag_generation a0 < ag_generation b0"
      using reg_okD(7)[OF ok a0(1)] by blast
    obtain b where b: "b \<in> ran E'" "agent_sig b = agent_sig b0" using erow[OF b0(1)] by blast
    show "\<exists>b \<in> ran E'. ag_seat b = ag_seat a \<and> ag_generation a < ag_generation b"
      using b b0 agent_sigD[OF a0(2)] agent_sigD[OF b(2)] by auto
  next
    show "[] \<notin> dom E' \<union> dom A'" using reg_okD(8)[OF ok] doms by simp
  qed
qed

text \<open>A new attempt of a seat, above every other of the seat.\<close>

lemma reg_ok_new:
  assumes ok: "reg_ok E A" and fresh: "E k = None" "A k = None" "k \<noteq> []" and id: "ag_execution_id new = k"
    and top: "\<And>x. x \<in> reg_rows E A \<Longrightarrow> ag_seat x = ag_seat new \<Longrightarrow> ag_generation x < ag_generation new"
    and nm: "\<And>x. x \<in> reg_rows E A \<Longrightarrow> ag_name x = ag_name new \<Longrightarrow> ag_seat x = ag_seat new"
    and uid: "\<And>x. x \<in> reg_rows E A \<Longrightarrow> truthy (agent_uid new) \<Longrightarrow> agent_uid x \<noteq> agent_uid new"
  shows "reg_ok (E(k \<mapsto> new)) A"
proof -
  have ranE: "ran (E(k \<mapsto> new)) = insert new (ran E)" by (rule ran_map_upd[of E k, OF fresh(1)])
  have rows: "reg_rows (E(k \<mapsto> new)) A = insert new (reg_rows E A)"
    by (simp add: reg_rows_def ranE)
  have doms: "dom (E(k \<mapsto> new)) \<inter> dom A = {}" using reg_okD(3)[OF ok] fresh by auto
  have keys: "(E(k \<mapsto> new)) j = Some r \<Longrightarrow> ag_execution_id r = j" for j r
    using reg_okD(1)[OF ok] id by (auto split: if_splits)
  have pairs: "(ag_seat a = ag_seat b \<and> ag_generation a = ag_generation b \<longrightarrow> ag_execution_id a = ag_execution_id b) \<and>
       (ag_name a = ag_name b \<longrightarrow> ag_seat a = ag_seat b) \<and>
       (truthy (agent_uid a) \<and> agent_uid a = agent_uid b \<longrightarrow> ag_execution_id a = ag_execution_id b)"
    if "a \<in> insert new (reg_rows E A)" "b \<in> insert new (reg_rows E A)" for a b
    using that reg_okD(4-6)[OF ok, of a b] top[of a] top[of b] nm[of a] nm[of b] uid[of a] uid[of b]
    by (elim insertE) auto
  have heads: "\<exists>b \<in> ran (E(k \<mapsto> new)). ag_seat b = ag_seat a \<and> ag_generation a < ag_generation b"
    if "a \<in> ran A" for a using reg_okD(7)[OF ok that] ranE by auto
  show ?thesis
    by (rule reg_okI[OF keys reg_okD(2)[OF ok] doms pairs heads])
      (use reg_okD(8)[OF ok] fresh(3) in \<open>simp_all add: rows\<close>)
qed

text \<open>A superseded attempt goes to the archive, or comes back.\<close>

lemma reg_ok_move:
  assumes ok: "reg_ok E A" and k: "E k = Some r"
    and head: "b0 \<in> ran E" "ag_seat b0 = ag_seat r" "ag_generation r < ag_generation b0"
  shows "reg_ok (E(k := None)) (A(k \<mapsto> r))"
proof -
  have Ak: "A k = None" using reg_okD(3)[OF ok] k by blast
  have rows: "reg_rows (E(k := None)) (A(k \<mapsto> r)) \<subseteq> reg_rows E A"
    using k by (auto simp: reg_rows_def ran_def)
  have keep: "b \<in> ran E \<Longrightarrow> b \<noteq> r \<Longrightarrow> b \<in> ran (E(k := None))" for b
    using k by (blast intro: ran_keep)
  have b0: "b0 \<in> ran (E(k := None))" using keep head by auto
  have heads: "\<exists>b \<in> ran (E(k := None)). ag_seat b = ag_seat a \<and> ag_generation a < ag_generation b"
    if a: "a \<in> ran (A(k \<mapsto> r))" for a
  proof (cases "a = r")
    case True
    then show ?thesis using b0 head by auto
  next
    case False
    then have "a \<in> ran A" using a Ak by (auto simp: ran_def split: if_splits)
    then obtain b where b: "b \<in> ran E" "ag_seat b = ag_seat a" "ag_generation a < ag_generation b"
      using reg_okD(7)[OF ok] by blast
    then show ?thesis using keep[of b] b0 head by (cases "b = r") auto
  qed
  have keys: "(E(k := None)) j = Some x \<Longrightarrow> ag_execution_id x = j" "(A(k \<mapsto> r)) j = Some x \<Longrightarrow> ag_execution_id x = j" for j x
    using reg_okD(1,2)[OF ok] k by (auto split: if_splits)
  have doms: "dom (E(k := None)) \<inter> dom (A(k \<mapsto> r)) = {}" using reg_okD(3)[OF ok] by auto
  show ?thesis
    by (rule reg_okI[OF keys doms reg_ok_pairs[OF ok] heads])
      (use reg_okD(8)[OF ok] k in \<open>auto dest: subsetD[OF rows]\<close>)
qed

lemma reg_ok_back:
  assumes ok: "reg_ok E A" and k: "A k = Some r"
  shows "reg_ok (E(k \<mapsto> r)) (A(k := None))"
proof -
  have Ek: "E k = None" using reg_okD(3)[OF ok] k by blast
  have rows: "reg_rows (E(k \<mapsto> r)) (A(k := None)) \<subseteq> reg_rows E A"
    using k Ek by (auto simp: reg_rows_def ran_def split: if_splits)
  have heads: "\<exists>b \<in> ran (E(k \<mapsto> r)). ag_seat b = ag_seat a \<and> ag_generation a < ag_generation b"
    if "a \<in> ran (A(k := None))" for a
  proof -
    have "a \<in> ran A" using that by (auto simp: ran_def split: if_splits)
    then obtain b where b: "b \<in> ran E" "ag_seat b = ag_seat a" "ag_generation a < ag_generation b"
      using reg_okD(7)[OF ok] by blast
    then show ?thesis using ran_map_upd[of E k r, OF Ek] by blast
  qed
  have keys: "(E(k \<mapsto> r)) j = Some x \<Longrightarrow> ag_execution_id x = j" "(A(k := None)) j = Some x \<Longrightarrow> ag_execution_id x = j" for j x
    using reg_okD(1,2)[OF ok] k by (auto split: if_splits)
  have doms: "dom (E(k \<mapsto> r)) \<inter> dom (A(k := None)) = {}" using reg_okD(3)[OF ok] by auto
  show ?thesis
    by (rule reg_okI[OF keys doms reg_ok_pairs[OF ok] heads])
      (use reg_okD(8)[OF ok] k in \<open>auto dest: subsetD[OF rows]\<close>)
qed

text \<open>An attempt keeps its place but its target may get a Pod UID nobody else has.\<close>

lemma reg_ok_put:
  assumes ok: "reg_ok E A" and k: "E k = Some old"
    and same: "ag_execution_id new = k" "ag_seat new = ag_seat old" "ag_generation new = ag_generation old"
      "ag_name new = ag_name old"
    and uid: "\<And>x. x \<in> reg_rows E A \<Longrightarrow> truthy (agent_uid new) \<Longrightarrow> agent_uid x = agent_uid new \<Longrightarrow> ag_execution_id x = k"
  shows "reg_ok (E(k \<mapsto> new)) A"
proof -
  have id_old: "ag_execution_id old = k" by (rule reg_okD(1)[OF ok k])
  have old_row: "old \<in> reg_rows E A" using k by (auto simp: reg_rows_def ran_def)
  have rows: "x \<in> reg_rows (E(k \<mapsto> new)) A \<Longrightarrow> x = new \<or> x \<in> reg_rows E A" for x
    by (auto simp: reg_rows_def ran_def split: if_splits)
  have heads: "\<exists>b \<in> ran (E(k \<mapsto> new)). ag_seat b = ag_seat a \<and> ag_generation a < ag_generation b"
    if a: "a \<in> ran A" for a
  proof -
    obtain b where b: "b \<in> ran E" "ag_seat b = ag_seat a" "ag_generation a < ag_generation b"
      using reg_okD(7)[OF ok a] by blast
    have "new \<in> ran (E(k \<mapsto> new))" by (rule ranI[of _ k]) simp
    moreover have "b \<noteq> old \<Longrightarrow> b \<in> ran (E(k \<mapsto> new))" by (rule ran_keep[OF b(1) k])
    ultimately
    show ?thesis using b same by (cases "b = old") auto
  qed
  have pairs: "(ag_seat a = ag_seat b \<and> ag_generation a = ag_generation b \<longrightarrow> ag_execution_id a = ag_execution_id b) \<and>
       (ag_name a = ag_name b \<longrightarrow> ag_seat a = ag_seat b) \<and>
       (truthy (agent_uid a) \<and> agent_uid a = agent_uid b \<longrightarrow> ag_execution_id a = ag_execution_id b)"
    if ab: "a \<in> reg_rows (E(k \<mapsto> new)) A" "b \<in> reg_rows (E(k \<mapsto> new)) A" for a b
  proof -
    have one: "(ag_seat new = ag_seat x \<and> ag_generation new = ag_generation x \<longrightarrow> k = ag_execution_id x) \<and>
       (ag_name new = ag_name x \<longrightarrow> ag_seat new = ag_seat x) \<and>
       (truthy (agent_uid new) \<and> agent_uid new = agent_uid x \<longrightarrow> k = ag_execution_id x)"
      if x: "x \<in> reg_rows E A" for x
      unfolding same using reg_okD(4,5)[OF ok old_row x] uid[OF x] id_old by metis
    have sym: "(ag_seat x = ag_seat new \<and> ag_generation x = ag_generation new \<longrightarrow> ag_execution_id x = k) \<and>
       (ag_name x = ag_name new \<longrightarrow> ag_seat x = ag_seat new) \<and>
       (truthy (agent_uid x) \<and> agent_uid x = agent_uid new \<longrightarrow> ag_execution_id x = k)"
      if x: "x \<in> reg_rows E A" for x
      unfolding same using reg_okD(4,5)[OF ok x old_row] uid[OF x] id_old by metis
    show ?thesis
    proof (cases "a = new")
      case True
      have "b = new \<or> b \<in> reg_rows E A" by (rule rows[OF ab(2)])
      then show ?thesis
      proof
        assume "b = new"
        then show ?thesis by (simp add: True)
      next
        assume "b \<in> reg_rows E A"
        then show ?thesis unfolding True same(1) by (rule one)
      qed
    next
      case a: False
      then have arow: "a \<in> reg_rows E A" using rows[OF ab(1)] by blast
      show ?thesis
      proof (cases "b = new")
        case True
        then show ?thesis using sym[OF arow] unfolding True same(1) by blast
      next
        case False
        then show ?thesis using reg_ok_pairs[OF ok arow] rows[OF ab(2)] by blast
      qed
    qed
  qed
  have keys: "(E(k \<mapsto> new)) j = Some x \<Longrightarrow> ag_execution_id x = j" for j x
    using reg_okD(1)[OF ok] same(1) by (auto split: if_splits)
  have doms: "dom (E(k \<mapsto> new)) \<inter> dom A = {}" using reg_okD(3)[OF ok] k by auto
  show ?thesis
    by (rule reg_okI[OF keys reg_okD(2)[OF ok] doms pairs heads]) (use reg_okD(8)[OF ok] k in auto)
qed

end
