(* ===== verification/Registry_Laws.thy ===== *)
theory Registry_Laws
  imports Execution_Laws
begin

text \<open>
  The registry invariant through every change of the execution registry, up to the document a
  fencing write commits, and what each change does to the seats.
\<close>

section \<open>Hydrating and externalizing\<close>

lemma registry_invE:
  assumes "registry_inv doc w"
  obtains A where "wf_dict (fd_executions doc)" "wf_dict (fd_archive doc)" "chunks_inv (fw_states w)"
    "full_archive doc w = Inr A" "reg_ok (map_of (fd_executions doc)) A"
  using assms unfolding registry_inv_def by blast

lemma reg_ok_id:
  assumes ok: "reg_ok E A" and "a \<in> reg_rows E A" "b \<in> reg_rows E A" "ag_execution_id a = ag_execution_id b"
  shows "a = b"
proof -
  have at: "E (ag_execution_id x) = Some x \<or> A (ag_execution_id x) = Some x" if "x \<in> reg_rows E A" for x
    using that reg_okD(1,2)[OF ok] by (auto simp: reg_rows_def ran_def)
  have apart: "E k = Some x \<Longrightarrow> A k = Some y \<Longrightarrow> False" for k x y
    using reg_okD(3)[OF ok] by blast
  show ?thesis using at[OF assms(2)] at[OF assms(3)] unfolding assms(4) by (metis apart option.inject)
qed

lemma records_of_rows:
  assumes wf: "wf_dict (fd_executions doc)" "wf_dict (fd_archive doc)"
    and ok: "reg_ok (map_of (fd_executions doc)) (map_of (fd_archive doc))"
  shows "set (records_of doc) = reg_rows (map_of (fd_executions doc)) (map_of (fd_archive doc))"
proof -
  have vals: "set (dvals (fd_executions doc)) \<union> set (dvals (fd_archive doc)) =
      reg_rows (map_of (fd_executions doc)) (map_of (fd_archive doc))"
    by (simp add: reg_rows_def ran_distinct wf)
  show ?thesis
  proof
    show "set (records_of doc) \<subseteq> reg_rows (map_of (fd_executions doc)) (map_of (fd_archive doc))"
      using records_of_set(1)[of doc] vals by simp
    show "reg_rows (map_of (fd_executions doc)) (map_of (fd_archive doc)) \<subseteq> set (records_of doc)"
    proof
      fix r assume r: "r \<in> reg_rows (map_of (fd_executions doc)) (map_of (fd_archive doc))"
      then obtain x where x: "x \<in> set (records_of doc)" "ag_execution_id x = ag_execution_id r"
        using records_of_set(2)[of r doc] vals by auto
      then have "x = r" using reg_ok_id[OF ok _ r] records_of_set(1)[of doc] vals by auto
      then show "r \<in> set (records_of doc)" using x by simp
    qed
  qed
qed

lemma archive_rows_nil [simp]: "archive_rows states [] = Inr []"
  by (simp add: archive_rows_def)

lemma registry_hydrate:
  assumes "registry_inv doc w"
  obtains h where "hydrate_archive doc w = Inr h" "wf_dict (fd_executions h)" "wf_dict (fd_archive h)"
    "full_archive doc w = Inr (map_of (fd_archive h))" "full_archive h w = Inr (map_of (fd_archive h))"
    "reg_ok (map_of (fd_executions h)) (map_of (fd_archive h))" "fd_executions h = fd_executions doc"
    "h\<lparr>fd_archive := fd_archive doc\<rparr> = doc" "registry_inv h w"
proof -
  obtain A where A: "wf_dict (fd_executions doc)" "wf_dict (fd_archive doc)" "chunks_inv (fw_states w)"
    "full_archive doc w = Inr A" "reg_ok (map_of (fd_executions doc)) A"
    by (rule registry_invE[OF assms])
  obtain h where h: "hydrate_archive doc w = Inr h" using full_hydrate[OF A(4)] by blast
  note f = hydrate_full[OF h A(2)]
  have ex: "fd_executions h = fd_executions doc" using f by (metis fdoc.select_convs(7) fdoc.surjective fdoc.update_convs(8))
  have "A = map_of (fd_archive h)" using f A(4) by simp
  then show thesis using that[OF h] f A ex unfolding registry_inv_def by auto
qed

lemma externalize_registry:
  assumes "wf_dict (fd_executions d)" "wf_dict (fd_archive d)" "chunks_inv (fw_states w)"
    and "reg_ok (map_of (fd_executions d)) (map_of (fd_archive d))"
    and "externalize_archive c d w = (Inr d', w')"
  shows "registry_inv d' w' \<and> fd_executions d' = fd_executions d \<and>
    full_archive d' w' = Inr (map_of (fd_archive d))"
proof (cases "fd_archive_ref d")
  case None
  then have "d' = d" "w' = w" using assms(5) by (auto simp: externalize_archive_def)
  moreover have "full_archive d w = Inr (map_of (fd_archive d))"
    using None by (simp add: full_archive_def archive_lookup_ref_def)
  ultimately show ?thesis using assms unfolding registry_inv_def by auto
next
  case (Some ref)
  obtain doc2 where d2: "hydrate_archive d' w' = Inr doc2" "map_of (fd_archive doc2) = map_of (fd_archive d)"
      "doc2\<lparr>fd_archive := fd_archive d, fd_archive_ref := Some ref\<rparr> = d" "chunks_inv (fw_states w')"
    using externalize_roundtrip[OF assms(3) Some assms(2,5)] by blast
  have wfa: "fd_archive d' = []" "fd_executions d' = fd_executions d"
    using assms(5) Some by (auto simp: externalize_archive_def Let_def split: sum.splits prod.splits if_splits)
  have "full_archive d' w' = Inr (map_of (fd_archive d))"
    using hydrate_full[OF d2(1)] wfa(1) d2(2) by simp
  then show ?thesis using wfa d2(4) assms(1,4) unfolding registry_inv_def by auto
qed

lemma fencing_step_registry:
  assumes step: "fencing_step c moved change doc w = (Inr (r, Some doc'), w')" "\<not> fd_moved doc"
    and change: "\<And>r d w1. change doc w = (Inr (r, d), w1) \<Longrightarrow> registry_inv d w1"
  shows "registry_inv doc' w'"
proof -
  obtain d w1 where d: "change doc w = (Inr (r, d), w1)"
    and out: "(if fd_archive d \<noteq> [] \<and> fd_archive_ref d \<noteq> None
        then (case hydrate_archive d w1 of Inl e \<Rightarrow> (Inl e, w1) | Inr d2 \<Rightarrow> externalize_archive c d2 w1)
        else (Inr d, w1)) = (Inr doc', w')"
    using step by (auto simp: fencing_step_def split: sum.splits prod.splits if_splits)
  have inv: "registry_inv d w1" by (rule change[OF d])
  show ?thesis
  proof (cases "fd_archive d \<noteq> [] \<and> fd_archive_ref d \<noteq> None")
    case False
    then show ?thesis using out inv by (auto split: if_splits)
  next
    case True
    obtain h where h: "hydrate_archive d w1 = Inr h" "wf_dict (fd_executions h)" "wf_dict (fd_archive h)"
      "reg_ok (map_of (fd_executions h)) (map_of (fd_archive h))"
      by (rule registry_hydrate[OF inv])
    have "externalize_archive c h w1 = (Inr doc', w')" using out True h(1) by simp
    then show ?thesis using externalize_registry[OF h(2,3) _ h(4)] inv registry_invE by metis
  qed
qed

lemma change_with_archive_Inr:
  assumes "change_with_archive c change doc w = (Inr (r, doc3), w3)"
  obtains h d w1 where "hydrate_archive doc w = Inr h" "change h w = (Inr (r, d), w1)"
    "externalize_archive c d w1 = (Inr doc3, w3)"
  using assms by (auto simp: change_with_archive_def split: sum.splits prod.splits)

section \<open>The changes\<close>

lemma check_uid_registry:
  assumes inv: "registry_inv doc w" and A: "full_archive doc w = Inr A"
    and chk: "check_uid agent doc w = Inr doc1"
  shows "fd_executions doc1 = fd_executions doc \<and> wf_dict (fd_archive doc1) \<and> full_archive doc1 w = Inr A \<and>
    (fd_archive doc1 = fd_archive doc \<or> map_of (fd_archive doc1) = A) \<and>
    (truthy (agent_uid agent) \<longrightarrow> (\<forall>x \<in> reg_rows (map_of (fd_executions doc)) A.
       agent_uid x = agent_uid agent \<longrightarrow> ag_execution_id x = ag_execution_id agent))"
proof (cases "truthy (agent_uid agent)")
  case False
  then have "doc1 = doc" using chk by (simp add: check_uid_def agent_uid_def)
  then show ?thesis using False A inv registry_invE by auto
next
  case True
  obtain h where h: "hydrate_archive doc w = Inr h" "wf_dict (fd_executions h)" "wf_dict (fd_archive h)"
    "full_archive doc w = Inr (map_of (fd_archive h))" "full_archive h w = Inr (map_of (fd_archive h))"
    "reg_ok (map_of (fd_executions h)) (map_of (fd_archive h))" "fd_executions h = fd_executions doc"
    by (rule registry_hydrate[OF inv])
  have Ah: "A = map_of (fd_archive h)" using h(4) A by simp
  have "doc1 = h" and none: "\<forall>row \<in> set (records_of h). ag_execution_id row = ag_execution_id agent \<or>
      agent_uid row \<noteq> agent_uid agent"
    using chk True h(1) by (auto simp: check_uid_def agent_uid_def conflict_def Let_def split: if_splits)
  then show ?thesis using h Ah records_of_rows[OF h(2,3,6)] by auto
qed

lemma occupant_row:
  assumes "wf_dict (fd_executions doc)" "dget (occupants_of doc) s = Some a"
  shows "a \<in> ran (map_of (fd_executions doc))" "ag_seat a = s"
    "\<And>x. x \<in> ran (map_of (fd_executions doc)) \<Longrightarrow> ag_seat x = s \<Longrightarrow> ag_generation x \<le> ag_generation a"
  using occupants_head[of doc s] assms by (auto simp: seat_head_def ran_distinct)

lemma occupant_none:
  assumes "wf_dict (fd_executions doc)" "dget (occupants_of doc) s = None"
  shows "x \<in> ran (map_of (fd_executions doc)) \<Longrightarrow> ag_seat x \<noteq> s"
  using occupants_head[of doc s] assms by (auto simp: seat_head_def ran_distinct)

lemma occupant_below:
  assumes wf: "wf_dict (fd_executions doc)" and ok: "reg_ok (map_of (fd_executions doc)) A"
    and x: "x \<in> reg_rows (map_of (fd_executions doc)) A" "ag_seat x = s"
  shows "\<exists>a. dget (occupants_of doc) s = Some a \<and> ag_generation x \<le> ag_generation a"
proof -
  obtain y where y: "y \<in> ran (map_of (fd_executions doc))" "ag_seat y = s" "ag_generation x \<le> ag_generation y"
    using x reg_okD(7)[OF ok] unfolding reg_rows_def by (metis Un_iff less_imp_le order_refl)
  then obtain a where "dget (occupants_of doc) s = Some a"
    using occupant_none[OF wf, of s y] by (cases "dget (occupants_of doc) s") auto
  then show ?thesis using occupant_row(3)[OF wf _ y(1,2)] y(3) by fastforce
qed

text \<open>The occupant is the row of the seat that no other row of the seat passes.\<close>

lemma occupant_unique:
  assumes wf: "wf_dict (fd_executions doc)" and ok: "reg_ok (map_of (fd_executions doc)) A"
    and a: "a \<in> ran (map_of (fd_executions doc))"
    and top: "\<And>x. x \<in> ran (map_of (fd_executions doc)) \<Longrightarrow> ag_seat x = ag_seat a \<Longrightarrow> ag_generation x \<le> ag_generation a"
  shows "dget (occupants_of doc) (ag_seat a) = Some a"
proof -
  have ar: "a \<in> reg_rows (map_of (fd_executions doc)) A" using a by (simp add: reg_rows_def)
  obtain b where b: "dget (occupants_of doc) (ag_seat a) = Some b" "ag_generation a \<le> ag_generation b"
    using occupant_below[OF wf ok ar refl] by blast
  note br = occupant_row[OF wf b(1)]
  have "ag_generation b = ag_generation a" using top[OF br(1,2)] b(2) by simp
  then have "b = a" using reg_ok_id[OF ok _ ar] reg_okD(4)[OF ok _ ar] br by (simp add: reg_rows_def)
  then show ?thesis using b by simp
qed

text \<open>What a start writes: the next generation of the seat, as its occupant.\<close>

lemma start_admit_effect:
  assumes h: "wf_dict (fd_executions h)" "wf_dict (fd_archive h)" "registry_inv h w"
      "full_archive h w = Inr (map_of (fd_archive h))"
      "reg_ok (map_of (fd_executions h)) (map_of (fd_archive h))"
    and fresh: "dget (fd_archive h) (''exe-'' @ uuid) = None"
    and noid: "ag_execution_id agent = ''''"
    and start: "start_admit uuid epoch prev_id agent h w = (Inr ((cur, prev), d), w1)"
  shows "w1 = w \<and> prev = dget (occupants_of h) (ag_seat agent) \<and>
    cur = agent\<lparr>ag_execution_id := ''exe-'' @ uuid,
      ag_generation := (case prev of None \<Rightarrow> 1 | Some p \<Rightarrow> ag_generation p + 1)\<rparr> \<and>
    prev_id = (case prev of None \<Rightarrow> '''' | Some p \<Rightarrow> ag_execution_id p) \<and>
    fd_executions d = dset (''exe-'' @ uuid) cur (fd_executions h) \<and>
    wf_dict (fd_archive d) \<and> map_of (fd_archive d) = map_of (fd_archive h) \<and>
    dget (fd_executions h) (''exe-'' @ uuid) = None \<and>
    reg_ok (map_of (fd_executions d)) (map_of (fd_archive d))"
proof -
  let ?k = "''exe-'' @ uuid"
  let ?E = "map_of (fd_executions h)" and ?A = "map_of (fd_archive h)"
  have prev: "prev = dget (occupants_of h) (ag_seat agent)"
    using start by (auto simp: start_admit_def Let_def conflict_def split: sum.splits if_splits)
  have pid: "prev_id = (case prev of None \<Rightarrow> '''' | Some p \<Rightarrow> ag_execution_id p)"
    and names: "\<forall>row \<in> set (records_of h). ag_name row = ag_name agent \<longrightarrow> ag_seat row = ag_seat agent"
    using start by (auto simp: start_admit_def Let_def conflict_def split: sum.splits if_splits)
  obtain doc1 where chk: "check_uid agent h w = Inr doc1"
    using start by (auto simp: start_admit_def Let_def conflict_def split: sum.splits if_splits)
  have cur: "cur = agent\<lparr>ag_execution_id := ?k,
      ag_generation := (case prev of None \<Rightarrow> 1 | Some p \<Rightarrow> ag_generation p + 1)\<rparr>"
    and d: "fd_executions d = dset ?k cur (fd_executions doc1)" "fd_archive d = fd_archive doc1" "w1 = w"
    and new: "\<not> dhas (fd_executions doc1) ?k"
    using start chk prev
    by (auto simp: start_admit_def Let_def conflict_def split: if_splits option.splits)
  note c = check_uid_registry[OF h(3,4) chk]
  have rows: "set (records_of h) = reg_rows ?E ?A" by (rule records_of_rows[OF h(1,2,5)])
  have fresh_E: "?E ?k = None" using new c by (simp add: dhas_def)
  have top: "ag_generation x < ag_generation cur" if x: "x \<in> reg_rows ?E ?A" "ag_seat x = ag_seat cur" for x
    using occupant_below[OF h(1,5) x] prev cur by auto
  have nm: "ag_seat x = ag_seat cur" if "x \<in> reg_rows ?E ?A" "ag_name x = ag_name cur" for x
    using names that cur rows by auto
  have uid: "agent_uid x \<noteq> agent_uid cur" if x: "x \<in> reg_rows ?E ?A" "truthy (agent_uid cur)" for x
  proof
    assume eq: "agent_uid x = agent_uid cur"
    have same: "agent_uid cur = agent_uid agent" by (simp add: cur agent_uid_def)
    then have "ag_execution_id x = ''''" using c x eq noid by auto
    moreover have "?E (ag_execution_id x) = Some x \<or> ?A (ag_execution_id x) = Some x"
      using x(1) reg_okD(1,2)[OF h(5)] by (auto simp: reg_rows_def ran_def)
    ultimately show False using reg_okD(8)[OF h(5)] by auto
  qed
  have "reg_ok (?E(?k \<mapsto> cur)) ?A"
    by (rule reg_ok_new[OF h(5) fresh_E fresh _ _ top nm uid]) (simp_all add: cur)
  then show ?thesis using prev pid cur d c fresh_E by (auto simp: update_conv')
qed

lemma update_registry:
  assumes inv: "registry_inv doc w" and upd: "update_change agent doc w = (Inr ((written, cur), d), w1)"
  shows "w1 = w \<and> registry_inv d w \<and> dget (occupants_of doc) (ag_seat agent) = Some cur \<and>
    fd_executions d = (if written \<noteq> cur then dset (ag_execution_id cur) written (fd_executions doc) else fd_executions doc) \<and>
    immutable_fields written = immutable_fields cur"
proof -
  obtain A where A: "wf_dict (fd_executions doc)" "wf_dict (fd_archive doc)" "chunks_inv (fw_states w)"
    "full_archive doc w = Inr A" "reg_ok (map_of (fd_executions doc)) A"
    by (rule registry_invE[OF inv])
  define w0 where "w0 = (if ag_state cur = ''finished'' \<and> ag_state agent \<noteq> ''ended''
      then agent\<lparr>ag_state := ''finished''\<rparr> else agent)"
  have occ: "dget (occupants_of doc) (ag_seat agent) = Some cur"
    and imm: "immutable_fields agent = immutable_fields cur"
    and wr: "written = (if read_before_ack (ag_runtime_target w0) (ag_runtime_target cur)
        then launch_binding cur w0 else w0)"
    using upd by (auto simp: update_change_def w0_def Let_def conflict_def split: option.splits sum.splits if_splits)
  have imm_w: "immutable_fields written = immutable_fields agent"
    by (simp add: wr w0_def launch_binding_def immutable_fields_def)
  obtain doc1 where chk: "check_uid written doc w = Inr doc1"
    and d: "d = (if written \<noteq> cur then doc1\<lparr>fd_executions := dset (ag_execution_id written) written (fd_executions doc1)\<rparr> else doc1)"
      "w1 = w"
    using upd occ imm
    by (auto simp: update_change_def Let_def w0_def[symmetric] wr[symmetric] split: sum.splits)
  note c = check_uid_registry[OF inv A(4) chk]
  have id: "ag_execution_id written = ag_execution_id cur" "ag_seat written = ag_seat cur"
    "ag_generation written = ag_generation cur" "ag_name written = ag_name cur"
    using imm imm_w by (simp_all add: immutable_fields_def)
  have at: "dget (fd_executions doc) (ag_execution_id cur) = Some cur"
    using occupant_row(1)[OF A(1) occ] reg_okD(1)[OF A(5)] by (auto simp: ran_def)
  have ok: "reg_ok ((map_of (fd_executions doc))(ag_execution_id cur \<mapsto> written)) A"
    by (rule reg_ok_put[OF A(5) at id]) (use c id in auto)
  have full: "full_archive d w = Inr A"
    using c d by (simp add: full_archive_def archive_lookup_ref_def)
  have "registry_inv d w"
    unfolding registry_inv_def using c d A ok full id by (auto simp: update_conv')
  then show ?thesis using d occ imm imm_w id c by simp
qed

text \<open>Rows that the exec section replaces by rows of the same identity.\<close>

lemma registry_put:
  assumes inv: "registry_inv doc w" and old: "dget (fd_executions doc) k = Some old"
    and sig: "agent_sig new = agent_sig old"
  shows "registry_inv (doc\<lparr>fd_executions := dset k new (fd_executions doc)\<rparr>) w"
proof -
  obtain A where A: "wf_dict (fd_executions doc)" "wf_dict (fd_archive doc)" "chunks_inv (fw_states w)"
    "full_archive doc w = Inr A" "reg_ok (map_of (fd_executions doc)) A"
    by (rule registry_invE[OF inv])
  have "reg_ok ((map_of (fd_executions doc))(k \<mapsto> new)) A"
    by (rule reg_ok_same_sig[OF A(5)]) (use old sig in auto)
  then show ?thesis using A
    by (auto simp: registry_inv_def full_archive_def archive_lookup_ref_def update_conv')
qed

lemma end_registry:
  assumes inv: "registry_inv doc w" and e: "end_change listed agent now doc w = (Inr (b, d), w1)"
  shows "w1 = w \<and> registry_inv d w"
proof -
  obtain A where A: "wf_dict (fd_executions doc)" "reg_ok (map_of (fd_executions doc)) A"
    by (rule registry_invE[OF inv])
  show ?thesis
  proof (cases b)
    case False
    then show ?thesis using e inv by (auto simp: end_change_def split: if_splits)
  next
    case True
    then have occ: "dget (occupants_of doc) (ag_seat agent) = Some agent"
      and d: "d = doc\<lparr>fd_executions := dset (ag_execution_id agent) (agent\<lparr>ag_state := ''ended''\<rparr>) (fd_executions doc)\<rparr>"
        "w1 = w" using e by (auto simp: end_change_def split: if_splits)
    have "dget (fd_executions doc) (ag_execution_id agent) = Some agent"
      using occupant_row(1)[OF A(1) occ] reg_okD(1)[OF A(2)] by (auto simp: ran_def)
    then show ?thesis using registry_put[OF inv] d by (auto simp: agent_sig_def agent_uid_def)
  qed
qed

lemma undo_registry:
  assumes inv: "registry_inv doc w" and u: "undo_change agent doc w = (Inr (b, d), w1)"
  shows "w1 = w \<and> registry_inv d w"
proof (cases "dget (fd_executions doc) (ag_execution_id agent) = Some (agent\<lparr>ag_state := ''ended''\<rparr>)")
  case True
  then show ?thesis using registry_put[OF inv True, of agent] u
    by (auto simp: undo_change_def agent_sig_def agent_uid_def)
next
  case False
  then show ?thesis using u inv by (simp add: undo_change_def)
qed

lemma pane_effect:
  assumes h: "wf_dict (fd_executions h)" "wf_dict (fd_archive h)"
      "reg_ok (map_of (fd_executions h)) (map_of (fd_archive h))"
    and p: "pane_change listed k pane h w = (Inr (r, d), w1)"
  shows "w1 = w \<and> wf_dict (fd_executions d) \<and> wf_dict (fd_archive d) \<and>
    reg_ok (map_of (fd_executions d)) (map_of (fd_archive d)) \<and>
    (\<exists>row. (dget (fd_executions h) k = Some row \<or> dget (fd_archive h) k = Some row) \<and>
       dget (fd_executions d) k = Some (row\<lparr>ag_pane_id := pane\<rparr>))"
proof (cases "dget (fd_executions h) k")
  case (Some row)
  then have d: "d = h\<lparr>fd_executions := dset k (row\<lparr>ag_pane_id := pane\<rparr>) (fd_executions h)\<rparr>" "w1 = w"
    using p by (simp_all add: pane_change_def Let_def)
  have "reg_ok ((map_of (fd_executions h))(k \<mapsto> row\<lparr>ag_pane_id := pane\<rparr>)) (map_of (fd_archive h))"
    by (rule reg_ok_same_sig[OF h(3)]) (use Some in \<open>auto simp: agent_sig_def agent_uid_def\<close>)
  then show ?thesis using d h Some by (auto simp: update_conv')
next
  case None
  then obtain row where row: "dget (fd_archive h) k = Some row"
    using p by (auto simp: pane_change_def Let_def conflict_def split: option.splits)
  then have d: "d = h\<lparr>fd_archive := dpop k (fd_archive h),
      fd_executions := dset k (row\<lparr>ag_pane_id := pane\<rparr>) (fd_executions h)\<rparr>" "w1 = w"
    using p None by (simp_all add: pane_change_def Let_def)
  have "reg_ok ((map_of (fd_executions h))(k \<mapsto> row\<lparr>ag_pane_id := pane\<rparr>)) ((map_of (fd_archive h))(k := None))"
    by (rule reg_ok_same_sig[OF reg_ok_back[OF h(3) row]]) (auto simp: agent_sig_def agent_uid_def)
  then show ?thesis using d h row by (auto simp: update_conv' delete_conv' wf_dict_dpop)
qed

text \<open>Archiving: superseded rows move, heads stay, every row keeps its identity.\<close>

lemma drop_blobs_sig: "drop_blobs row = Inr row' \<Longrightarrow> agent_sig row' = agent_sig row"
  by (auto simp: drop_blobs_def agent_sig_def agent_uid_def split: option.splits json.splits)

lemma drop_all_blobs_map:
  "drop_all_blobs d = Inr d' \<Longrightarrow> map fst d' = map fst d \<and>
    (\<forall>k. map_option agent_sig (dget d' k) = map_option agent_sig (dget d k))"
  by (induction d arbitrary: d' rule: drop_all_blobs.induct) (auto simp: and_then_Inr drop_blobs_sig)

lemma move_keys_ok:
  assumes "reg_ok (map_of (fd_executions doc)) (map_of (fd_archive doc))"
    and "wf_dict (fd_executions doc)" "wf_dict (fd_archive doc)"
    and "\<And>k r. k \<in> set ks \<Longrightarrow> dget (fd_executions doc) k = Some r \<Longrightarrow>
      \<exists>j b. dget (fd_executions doc) j = Some b \<and> j \<notin> set ks \<and> ag_seat b = ag_seat r \<and> ag_generation r < ag_generation b"
  shows "reg_ok (map_of (fd_executions (move_keys ks doc))) (map_of (fd_archive (move_keys ks doc))) \<and>
    wf_dict (fd_executions (move_keys ks doc)) \<and> wf_dict (fd_archive (move_keys ks doc)) \<and>
    dom (map_of (fd_archive doc)) \<subseteq> dom (map_of (fd_archive (move_keys ks doc))) \<and>
    fd_archive_ref (move_keys ks doc) = fd_archive_ref doc \<and>
    (\<forall>k. dget (fd_executions (move_keys ks doc)) k = (if k \<in> set ks then None else dget (fd_executions doc) k)) \<and>
    (\<forall>k r. dget (fd_executions doc) k = Some r \<longrightarrow> k \<in> set ks \<longrightarrow> dget (fd_archive (move_keys ks doc)) k = Some r) \<and>
    (\<forall>k r. dget (fd_archive doc) k = Some r \<longrightarrow> dget (fd_archive (move_keys ks doc)) k = Some r)"
  using assms
proof (induction ks arbitrary: doc)
  case (Cons k ks)
  show ?case
  proof (cases "dget (fd_executions doc) k")
    case None
    have cond: "\<And>i r. i \<in> set ks \<Longrightarrow> dget (fd_executions doc) i = Some r \<Longrightarrow>
      \<exists>j b. dget (fd_executions doc) j = Some b \<and> j \<notin> set ks \<and> ag_seat b = ag_seat r \<and> ag_generation r < ag_generation b"
      using Cons.prems(4) by (metis list.set_intros(2))
    have eq: "move_keys (k # ks) doc = move_keys ks doc" using None by simp
    have ih: "reg_ok (map_of (fd_executions (move_keys ks doc))) (map_of (fd_archive (move_keys ks doc)))"
      "wf_dict (fd_executions (move_keys ks doc))" "wf_dict (fd_archive (move_keys ks doc))"
      "dom (map_of (fd_archive doc)) \<subseteq> dom (map_of (fd_archive (move_keys ks doc)))"
      "fd_archive_ref (move_keys ks doc) = fd_archive_ref doc"
      "\<And>i. dget (fd_executions (move_keys ks doc)) i = (if i \<in> set ks then None else dget (fd_executions doc) i)"
      "\<And>i r. dget (fd_executions doc) i = Some r \<Longrightarrow> i \<in> set ks \<Longrightarrow> dget (fd_archive (move_keys ks doc)) i = Some r"
      "\<And>i r. dget (fd_archive doc) i = Some r \<Longrightarrow> dget (fd_archive (move_keys ks doc)) i = Some r"
      using Cons.IH[of doc] Cons.prems(1-3) cond by blast+
    have "\<forall>i. dget (fd_executions (move_keys ks doc)) i = (if i \<in> set (k # ks) then None else dget (fd_executions doc) i)"
      using ih None by simp
    moreover have "\<forall>i r. dget (fd_executions doc) i = Some r \<longrightarrow> i \<in> set (k # ks) \<longrightarrow>
        dget (fd_archive (move_keys ks doc)) i = Some r"
      using ih None by (metis option.distinct(1) set_ConsD)
    ultimately show ?thesis unfolding eq using ih by blast
  next
    case (Some row)
    define doc1 where "doc1 = doc\<lparr>fd_archive := dset k row (fd_archive doc), fd_executions := dpop k (fd_executions doc)\<rparr>"
    have mk: "move_keys (k # ks) doc = move_keys ks doc1" using Some by (simp add: doc1_def)
    have E1: "map_of (fd_executions doc1) = (map_of (fd_executions doc))(k := None)"
      and A1: "map_of (fd_archive doc1) = (map_of (fd_archive doc))(k \<mapsto> row)"
      by (simp_all add: doc1_def update_conv' delete_conv')
    have Ak: "dget (fd_archive doc) k = None" using reg_okD(3)[OF Cons.prems(1)] Some by blast
    obtain j b where b: "dget (fd_executions doc) j = Some b" "j \<notin> set (k # ks)" "ag_seat b = ag_seat row"
      "ag_generation row < ag_generation b" using Cons.prems(4)[of k row] Some by auto
    have "reg_ok (map_of (fd_executions doc1)) (map_of (fd_archive doc1))"
      unfolding E1 A1 by (rule reg_ok_move[OF Cons.prems(1) Some ranI[of _ j b] b(3,4)]) (rule b(1))
    moreover have "wf_dict (fd_executions doc1)" "wf_dict (fd_archive doc1)"
      using Cons.prems(2,3) by (simp_all add: doc1_def wf_dict_dset wf_dict_dpop)
    moreover have "\<exists>j b. dget (fd_executions doc1) j = Some b \<and> j \<notin> set ks \<and> ag_seat b = ag_seat r \<and> ag_generation r < ag_generation b"
      if i: "i \<in> set ks" "dget (fd_executions doc1) i = Some r" for i r
    proof -
      have "dget (fd_executions doc) i = Some r" using i(2) E1 by (auto split: if_splits)
      then obtain j b where "dget (fd_executions doc) j = Some b" "j \<notin> set (k # ks)" "ag_seat b = ag_seat r"
        "ag_generation r < ag_generation b" using Cons.prems(4)[of i r] i(1) by auto
      then show ?thesis using E1 by auto
    qed
    ultimately have IH: "reg_ok (map_of (fd_executions (move_keys ks doc1))) (map_of (fd_archive (move_keys ks doc1)))"
      "wf_dict (fd_executions (move_keys ks doc1))" "wf_dict (fd_archive (move_keys ks doc1))"
      "dom (map_of (fd_archive doc1)) \<subseteq> dom (map_of (fd_archive (move_keys ks doc1)))"
      "fd_archive_ref (move_keys ks doc1) = fd_archive_ref doc1"
      "\<And>i. dget (fd_executions (move_keys ks doc1)) i = (if i \<in> set ks then None else dget (fd_executions doc1) i)"
      "\<And>i r. dget (fd_executions doc1) i = Some r \<Longrightarrow> i \<in> set ks \<Longrightarrow> dget (fd_archive (move_keys ks doc1)) i = Some r"
      "\<And>i r. dget (fd_archive doc1) i = Some r \<Longrightarrow> dget (fd_archive (move_keys ks doc1)) i = Some r"
      using Cons.IH[of doc1] by blast+
    have "fd_archive_ref doc1 = fd_archive_ref doc" by (simp add: doc1_def)
    moreover have "dget (fd_archive (move_keys ks doc1)) i = Some r"
      if "dget (fd_executions doc) i = Some r" "i \<in> set (k # ks)" for i r
      using that IH(7)[of i r] IH(8)[of k row] E1 A1 Some by (cases "i = k") auto
    moreover have "dget (fd_archive (move_keys ks doc1)) i = Some r" if "dget (fd_archive doc) i = Some r" for i r
      using that IH(8)[of i r] A1 Ak by (cases "i = k") auto
    moreover have "dget (fd_executions (move_keys ks doc1)) i = (if i \<in> set (k # ks) then None else dget (fd_executions doc) i)" for i
      using IH(6)[of i] E1 by simp
    moreover have "dom (map_of (fd_archive doc)) \<subseteq> dom (map_of (fd_archive (move_keys ks doc1)))"
      using IH(4) unfolding A1 by auto
    ultimately show ?thesis unfolding mk using IH(1-3,5) by metis
  qed
qed simp

lemma superseded_head:
  assumes wf: "wf_dict (fd_executions doc)" and k: "k \<in> set (superseded_keys listed doc)"
    and r: "dget (fd_executions doc) k = Some r" and ok: "reg_ok (map_of (fd_executions doc)) A"
  shows "\<exists>j b. dget (fd_executions doc) j = Some b \<and> j \<notin> set (superseded_keys listed doc) \<and>
    ag_seat b = ag_seat r \<and> ag_generation r < ag_generation b"
proof -
  have key: "i \<in> set (superseded_keys listed doc) \<longleftrightarrow> (\<exists>x h. dget (fd_executions doc) i = Some x \<and>
      dget (occupants_of doc) (ag_seat x) = Some h \<and> ag_generation x < ag_generation h \<and> ag_name x \<notin> set listed)" for i
    using wf unfolding superseded_keys_def occupants_dget
    by (force simp: Let_def map_of_eq_Some_iff split: option.splits)
  obtain h where h: "dget (occupants_of doc) (ag_seat r) = Some h" "ag_generation r < ag_generation h"
    using k r key by auto
  note hr = occupant_row[OF wf h(1)]
  then obtain j where j: "dget (fd_executions doc) j = Some h" by (auto simp: ran_def)
  have "j \<notin> set (superseded_keys listed doc)" using key[of j] j h(1) hr(2) by auto
  then show ?thesis using j h hr(2) by blast
qed

lemma archive_move_effect:
  assumes inv: "registry_inv doc w" and m: "archive_move listed doc w = (Inr (n, d), w1)"
  shows "w1 = w \<and> registry_inv d w \<and>
    (\<forall>k. dget (fd_executions d) k =
      (if k \<in> set (superseded_keys listed doc) then None else dget (fd_executions doc) k))"
proof (cases "superseded_keys listed doc = [] \<and> fd_archive_ref doc \<noteq> None")
  case True
  then show ?thesis using m inv by (auto simp: archive_move_def Let_def)
next
  case False
  let ?old = "superseded_keys listed doc"
  obtain h where h: "hydrate_archive doc w = Inr h" "wf_dict (fd_executions h)" "wf_dict (fd_archive h)"
    "full_archive doc w = Inr (map_of (fd_archive h))" "full_archive h w = Inr (map_of (fd_archive h))"
    "reg_ok (map_of (fd_executions h)) (map_of (fd_archive h))" "fd_executions h = fd_executions doc"
    "h\<lparr>fd_archive := fd_archive doc\<rparr> = doc"
    by (rule registry_hydrate[OF inv])
  define d2 where "d2 = move_keys ?old h"
  obtain arch where arch: "drop_all_blobs (fd_archive d2) = Inr arch" "d = d2\<lparr>fd_archive := arch\<rparr>" "w1 = w"
    using m False h(1) by (auto simp: archive_move_def Let_def d2_def split: sum.splits)
  have prem: "\<And>k r. k \<in> set ?old \<Longrightarrow> dget (fd_executions h) k = Some r \<Longrightarrow>
      \<exists>j b. dget (fd_executions h) j = Some b \<and> j \<notin> set ?old \<and> ag_seat b = ag_seat r \<and> ag_generation r < ag_generation b"
    using superseded_head[of doc _ listed _ "map_of (fd_archive h)"] h(2,6,7) by simp
  have mk: "reg_ok (map_of (fd_executions d2)) (map_of (fd_archive d2))" "wf_dict (fd_executions d2)"
    "wf_dict (fd_archive d2)" "dom (map_of (fd_archive h)) \<subseteq> dom (map_of (fd_archive d2))"
    "fd_archive_ref d2 = fd_archive_ref h"
    "\<And>k. dget (fd_executions d2) k = (if k \<in> set ?old then None else dget (fd_executions h) k)"
    using move_keys_ok[OF h(6,2,3), of ?old] prem unfolding d2_def by blast+
  note am = drop_all_blobs_map[OF arch(1)]
  have ok: "reg_ok (map_of (fd_executions d)) (map_of (fd_archive d))"
    unfolding arch(2) by (simp, rule reg_ok_same_sig[OF mk(1)]) (use am in auto)
  have wfa: "wf_dict (fd_archive d)" using am mk arch(2) by simp
  obtain rows where rows: "archive_rows (fw_states w) (archive_lookup_ref doc) = Inr rows"
    "map_of (fd_archive h) = map_of rows ++ map_of (fd_archive doc)"
    using h(4) by (auto simp: full_archive_def and_then_Inr)
  have "dom (map_of rows) \<subseteq> dom (map_of (fd_archive d))"
  proof -
    have "dom (map_of rows) \<subseteq> dom (map_of (fd_archive h))" using rows(2) by simp
    also have "\<dots> \<subseteq> dom (map_of (fd_archive d2))" by (rule mk(4))
    also have "\<dots> = dom (map_of (fd_archive d))" using am arch(2) by (simp add: dom_map_of_conv_image_fst)
      (metis image_set)
    finally show ?thesis .
  qed
  then have absorb: "map_of rows ++ map_of (fd_archive d) = map_of (fd_archive d)"
    by (intro ext) (auto simp: map_add_def split: option.splits)
  have "fd_archive_ref d = fd_archive_ref doc"
    using mk arch(2) h(8) by (metis fdoc.ext_inject fdoc.surjective fdoc.update_convs(8))
  then have "full_archive d w = Inr (map_of (fd_archive d))"
    using rows(1) absorb by (simp add: full_archive_def archive_lookup_ref_def)
  then have "registry_inv d w"
    using ok wfa mk arch(2) inv registry_invE unfolding registry_inv_def by fastforce
  then show ?thesis using mk arch h(7) by simp
qed

section \<open>Every reachable registry\<close>

text \<open>
  The documents the swarm's writers can commit in the document layout, as far as the registry sees
  them: each change of the registry as one fencing write runs it, until the document moves to the
  layout of one record per row (\<open>fd_moved\<close>), and any other write, which leaves the rows and their
  history alone. No snapshot is restored (\<open>fencing_replace\<close>). A fresh execution id is in no archive.
\<close>

definition not_archived :: "fdoc \<Rightarrow> fworld \<Rightarrow> string \<Rightarrow> bool" where
  "not_archived doc w k \<longleftrightarrow> (\<forall>A. full_archive doc w = Inr A \<longrightarrow> A k = None)"

inductive registry_reach :: "fctx \<Rightarrow> fdoc \<Rightarrow> fworld \<Rightarrow> bool" for c :: fctx where
  reg_init: "chunks_inv (fw_states w) \<Longrightarrow> registry_reach c empty_doc w"
| reg_start: "registry_reach c doc w \<Longrightarrow> \<not> fd_moved doc \<Longrightarrow> ag_execution_id agent = '''' \<Longrightarrow>
    not_archived doc w (''exe-'' @ uuid) \<Longrightarrow>
    fencing_step c moved1 (change_with_archive c (start_admit uuid epoch prev_id agent)) doc w = (Inr (r1, Some doc'), w') \<Longrightarrow>
    registry_reach c doc' w'"
| reg_update: "registry_reach c doc w \<Longrightarrow> \<not> fd_moved doc \<Longrightarrow>
    fencing_step c moved2 (update_change agent) doc w = (Inr (r2, Some doc'), w') \<Longrightarrow> registry_reach c doc' w'"
| reg_archive: "registry_reach c doc w \<Longrightarrow> \<not> fd_moved doc \<Longrightarrow>
    fencing_step c moved3 (archive_move listed) doc w = (Inr (r3, Some doc'), w') \<Longrightarrow> registry_reach c doc' w'"
| reg_pane: "registry_reach c doc w \<Longrightarrow> \<not> fd_moved doc \<Longrightarrow>
    fencing_step c moved4 (change_with_archive c (pane_change listed k pane)) doc w = (Inr (r4, Some doc'), w') \<Longrightarrow>
    registry_reach c doc' w'"
| reg_end: "registry_reach c doc w \<Longrightarrow> \<not> fd_moved doc \<Longrightarrow>
    fencing_step c moved5 (end_change listed agent now) doc w = (Inr (r5, Some doc'), w') \<Longrightarrow> registry_reach c doc' w'"
| reg_undo: "registry_reach c doc w \<Longrightarrow> \<not> fd_moved doc \<Longrightarrow>
    fencing_step c moved6 (undo_change agent) doc w = (Inr (r6, Some doc'), w') \<Longrightarrow> registry_reach c doc' w'"
| reg_other: "registry_reach c doc w \<Longrightarrow> fd_executions doc' = fd_executions doc \<Longrightarrow>
    fd_archive doc' = fd_archive doc \<Longrightarrow> fd_archive_ref doc' = fd_archive_ref doc \<Longrightarrow>
    chunks_inv (fw_states w') \<Longrightarrow> chunks_kept (fw_states w) (fw_states w') \<Longrightarrow>
    length (ms_history (fw_states w)) \<le> length (ms_history (fw_states w')) \<Longrightarrow> registry_reach c doc' w'"

lemma start_with_archive:
  assumes inv: "registry_inv doc w" and noid: "ag_execution_id agent = ''''"
    and fresh: "not_archived doc w (''exe-'' @ uuid)"
    and run: "change_with_archive c (start_admit uuid epoch prev_id agent) doc w = (Inr ((cur, prev), d), w')"
  shows "registry_inv d w' \<and> prev = dget (occupants_of doc) (ag_seat agent) \<and>
    prev_id = (case prev of None \<Rightarrow> '''' | Some p \<Rightarrow> ag_execution_id p) \<and>
    cur = agent\<lparr>ag_execution_id := ''exe-'' @ uuid,
      ag_generation := (case prev of None \<Rightarrow> 1 | Some p \<Rightarrow> ag_generation p + 1)\<rparr> \<and>
    fd_executions d = dset (''exe-'' @ uuid) cur (fd_executions doc) \<and>
    dget (fd_executions doc) (''exe-'' @ uuid) = None"
proof -
  obtain h where h: "hydrate_archive doc w = Inr h" "wf_dict (fd_executions h)" "wf_dict (fd_archive h)"
    "full_archive doc w = Inr (map_of (fd_archive h))" "full_archive h w = Inr (map_of (fd_archive h))"
    "reg_ok (map_of (fd_executions h)) (map_of (fd_archive h))" "fd_executions h = fd_executions doc"
    "registry_inv h w"
    by (rule registry_hydrate[OF inv])
  obtain d1 w1 where d1: "start_admit uuid epoch prev_id agent h w = (Inr ((cur, prev), d1), w1)"
      "externalize_archive c d1 w1 = (Inr d, w')"
    by (rule change_with_archive_Inr[OF run]) (use h(1) in auto)
  note s = start_admit_effect[OF h(2,3,8,5,6) fresh[unfolded not_archived_def, rule_format, OF h(4)] noid d1(1)]
  have "wf_dict (fd_executions d1)" using s h(2) by (simp add: wf_dict_dset)
  moreover have "chunks_inv (fw_states w)" by (rule registry_invE[OF inv])
  ultimately have e: "registry_inv d w' \<and> fd_executions d = fd_executions d1"
    using externalize_registry[OF _ _ _ _ d1(2)] s by blast
  have "occupants_of h = occupants_of doc" by (simp add: occupants_of_def h(7))
  then show ?thesis using s e h(7) by simp
qed

lemma pane_with_archive:
  assumes inv: "registry_inv doc w"
    and run: "change_with_archive c (pane_change listed k pane) doc w = (Inr (r, d), w')"
  shows "registry_inv d w'"
proof -
  obtain h where h: "hydrate_archive doc w = Inr h" "wf_dict (fd_executions h)" "wf_dict (fd_archive h)"
    "reg_ok (map_of (fd_executions h)) (map_of (fd_archive h))"
    by (rule registry_hydrate[OF inv])
  obtain d1 w1 where d1: "pane_change listed k pane h w = (Inr (r, d1), w1)"
      "externalize_archive c d1 w1 = (Inr d, w')"
    by (rule change_with_archive_Inr[OF run]) (use h(1) in auto)
  note p = pane_effect[OF h(2,3,4) d1(1)]
  have "chunks_inv (fw_states w)" by (rule registry_invE[OF inv])
  then show ?thesis using externalize_registry[OF _ _ _ _ d1(2)] p by blast
qed

lemma registry_reach_inv: "registry_reach c doc w \<Longrightarrow> registry_inv doc w"
proof (induction rule: registry_reach.induct)
  case (reg_init w)
  then show ?case
    by (auto simp: registry_inv_def empty_doc_def full_archive_def archive_lookup_ref_def reg_ok_def reg_rows_def)
next
  case (reg_start doc w agent uuid moved1 epoch prev_id r1 doc' w')
  show ?case
    by (rule fencing_step_registry[OF reg_start.hyps(5,2)])
      (use start_with_archive[OF reg_start.IH reg_start.hyps(3,4)] in fastforce)
next
  case (reg_update doc w moved2 agent r2 doc' w')
  show ?case
    by (rule fencing_step_registry[OF reg_update.hyps(3,2)])
      (use update_registry[OF reg_update.IH] in fastforce)
next
  case (reg_archive doc w moved3 listed r3 doc' w')
  show ?case
    by (rule fencing_step_registry[OF reg_archive.hyps(3,2)])
      (use archive_move_effect[OF reg_archive.IH] in fastforce)
next
  case (reg_pane doc w moved4 listed k pane r4 doc' w')
  show ?case
    by (rule fencing_step_registry[OF reg_pane.hyps(3,2)])
      (use pane_with_archive[OF reg_pane.IH] in fastforce)
next
  case (reg_end doc w moved5 listed agent now r5 doc' w')
  show ?case
    by (rule fencing_step_registry[OF reg_end.hyps(3,2)])
      (use end_registry[OF reg_end.IH] in fastforce)
next
  case (reg_undo doc w moved6 agent r6 doc' w')
  show ?case
    by (rule fencing_step_registry[OF reg_undo.hyps(3,2)])
      (use undo_registry[OF reg_undo.IH] in fastforce)
next
  case (reg_other doc w doc' w')
  obtain A where A: "wf_dict (fd_executions doc)" "wf_dict (fd_archive doc)" "chunks_inv (fw_states w)"
    "full_archive doc w = Inr A" "reg_ok (map_of (fd_executions doc)) A"
    by (rule registry_invE[OF reg_other.IH])
  have "full_archive doc' w' = Inr A"
    using A(4) archive_rows_kept[OF reg_other.hyps(5-7)] reg_other.hyps(3,4)
    by (auto simp: full_archive_def and_then_Inr archive_lookup_ref_def)
  then show ?case using A reg_other.hyps(2,3,5) by (simp add: registry_inv_def)
qed

section \<open>Properties\<close>

lemma occupant_put:
  assumes inv: "registry_inv doc w" and at: "dget (fd_executions doc) k = Some old"
    and occ: "dget (occupants_of doc) (ag_seat old) = Some old"
    and inv': "registry_inv doc' w'" and E: "fd_executions doc' = dset k new (fd_executions doc)"
    and same: "ag_seat new = ag_seat old" "ag_generation new = ag_generation old"
  shows "dget (occupants_of doc') s = (if s = ag_seat old then Some new else dget (occupants_of doc) s)"
proof -
  have wf: "wf_dict (fd_executions doc)" using inv by (rule registry_invE)
  obtain A' where A': "wf_dict (fd_executions doc')" "reg_ok (map_of (fd_executions doc')) A'"
    by (rule registry_invE[OF inv'])
  have rows: "x \<in> ran (map_of (fd_executions doc')) \<longleftrightarrow>
      x = new \<or> (\<exists>j. j \<noteq> k \<and> dget (fd_executions doc) j = Some x)" for x
    unfolding E by (auto simp: update_conv' ran_def split: if_splits)
  have old_rows: "x \<in> ran (map_of (fd_executions doc)) \<longleftrightarrow>
      x = old \<or> (\<exists>j. j \<noteq> k \<and> dget (fd_executions doc) j = Some x)" for x
    unfolding ran_def using at by (auto, metis option.inject)
  have new: "dget (occupants_of doc') (ag_seat new) = Some new"
    by (rule occupant_unique[OF A'])
      (use rows old_rows occupant_row(3)[OF wf occ] same in auto)
  show ?thesis
  proof (cases "s = ag_seat old")
    case True
    then show ?thesis using new same by simp
  next
    case False
    show ?thesis
    proof (cases "dget (occupants_of doc) s")
      case None
      have "dget (occupants_of doc') s = None"
      proof (rule ccontr)
        assume "dget (occupants_of doc') s \<noteq> None"
        then obtain b where b: "dget (occupants_of doc') s = Some b" by blast
        note br = occupant_row[OF A'(1) b]
        have "b \<in> ran (map_of (fd_executions doc))" using br rows[of b] old_rows[of b] same False by auto
        then show False using occupant_none[OF wf None] br(2) by blast
      qed
      then show ?thesis using None False by simp
    next
      case (Some b)
      note br = occupant_row[OF wf Some]
      have "b \<in> ran (map_of (fd_executions doc'))" using br rows[of b] old_rows[of b] False by auto
      then have "dget (occupants_of doc') (ag_seat b) = Some b"
        by (rule occupant_unique[OF A']) (use br(2,3) rows old_rows same False in auto)
      then show ?thesis using Some False br(2) by simp
    qed
  qed
qed

text \<open>
  C1: the registry invariant. In every document the swarm's writers can reach from an empty one in the
  document layout, while no snapshot is restored, each attempt is
  kept under its own execution id, current and archived ids are apart, a generation names one
  attempt of its seat, a name belongs to one seat, a Pod UID to one attempt, and every archived
  attempt is superseded by a current one of its seat.
\<close>

theorem registry_invariant:
  assumes "registry_reach c doc w"
  shows "\<exists>A. full_archive doc w = Inr A \<and> dom (map_of (fd_executions doc)) \<inter> dom A = {} \<and>
    (\<forall>k r. (dget (fd_executions doc) k = Some r \<or> A k = Some r) \<longrightarrow> ag_execution_id r = k) \<and>
    (\<forall>a \<in> reg_rows (map_of (fd_executions doc)) A. \<forall>b \<in> reg_rows (map_of (fd_executions doc)) A.
       (ag_seat a = ag_seat b \<and> ag_generation a = ag_generation b \<longrightarrow> ag_execution_id a = ag_execution_id b) \<and>
       (ag_name a = ag_name b \<longrightarrow> ag_seat a = ag_seat b) \<and>
       (truthy (agent_uid a) \<and> agent_uid a = agent_uid b \<longrightarrow> ag_execution_id a = ag_execution_id b)) \<and>
    (\<forall>a \<in> ran A. \<exists>b. dget (occupants_of doc) (ag_seat a) = Some b \<and> ag_generation a < ag_generation b)"
proof -
  obtain A where A: "wf_dict (fd_executions doc)" "full_archive doc w = Inr A"
      "reg_ok (map_of (fd_executions doc)) A"
    by (rule registry_invE[OF registry_reach_inv[OF assms]])
  have "\<exists>b. dget (occupants_of doc) (ag_seat a) = Some b \<and> ag_generation a < ag_generation b" if arch: "a \<in> ran A" for a
  proof -
    obtain b where b: "b \<in> ran (map_of (fd_executions doc))" "ag_seat b = ag_seat a" "ag_generation a < ag_generation b"
      using reg_okD(7)[OF A(3) arch] by blast
    then show ?thesis using occupant_below[OF A(1,3), of b "ag_seat a"] by (auto simp: reg_rows_def)
  qed
  then show ?thesis using A reg_okD(1-3)[OF A(3)] reg_ok_pairs[OF A(3)] by blast
qed

text \<open>
  Starting an attempt. The start commits only on the occupant the caller named; the new attempt
  carries a fresh id and the next generation of its seat, becomes the seat's occupant, and no other
  seat changes its occupant.
\<close>

theorem start_opens_generation:
  assumes "registry_inv doc w" "ag_execution_id agent = ''''" "not_archived doc w (''exe-'' @ uuid)"
    and "change_with_archive c (start_admit uuid epoch prev_id agent) doc w = (Inr ((cur, prev), d), w')"
  shows "prev = dget (occupants_of doc) (ag_seat agent) \<and>
    prev_id = (case prev of None \<Rightarrow> '''' | Some p \<Rightarrow> ag_execution_id p) \<and>
    ag_generation cur = (case prev of None \<Rightarrow> 1 | Some p \<Rightarrow> ag_generation p + 1) \<and>
    ag_execution_id cur = ''exe-'' @ uuid \<and>
    (\<forall>s. dget (occupants_of d) s = (if s = ag_seat agent then Some cur else dget (occupants_of doc) s))"
proof -
  note s = start_with_archive[OF assms]
  obtain A where A: "wf_dict (fd_executions doc)" by (rule registry_invE[OF assms(1)])
  obtain A' where A': "wf_dict (fd_executions d)" "reg_ok (map_of (fd_executions d)) A'"
    using s by (auto elim: registry_invE)
  have fresh: "dget (fd_executions doc) (''exe-'' @ uuid) = None" using s by blast
  have rows: "ran (map_of (fd_executions d)) = insert cur (ran (map_of (fd_executions doc)))"
    using s ran_map_upd[of "map_of (fd_executions doc)", OF fresh] by (simp add: update_conv')
  have seat: "ag_seat cur = ag_seat agent" using s by simp
  have top: "ag_generation x \<le> ag_generation cur" if "x \<in> ran (map_of (fd_executions d))" "ag_seat x = ag_seat cur" for x
  proof (cases "x = cur")
    case False
    then have x: "x \<in> ran (map_of (fd_executions doc))" using that(1) rows by auto
    show ?thesis
    proof (cases prev)
      case None
      then show ?thesis using occupant_none[OF A _ x] that(2) s seat by auto
    next
      case (Some p)
      then have "ag_generation x \<le> ag_generation p"
        using occupant_row(3)[OF A _ x, of "ag_seat agent" p] that(2) s seat by auto
      then show ?thesis using s Some by simp
    qed
  qed simp
  have here: "dget (occupants_of d) (ag_seat cur) = Some cur"
    by (rule occupant_unique[OF A' _ top]) (use rows in auto)
  have there: "dget (occupants_of d) s = dget (occupants_of doc) s" if s: "s \<noteq> ag_seat agent" for s
  proof (cases "dget (occupants_of doc) s")
    case None
    have "dget (occupants_of d) s \<noteq> Some b" for b
      using occupant_row[OF A'(1), of s b] occupant_none[OF A None, of b] rows seat s by auto
    then show ?thesis using None by auto
  next
    case (Some b)
    note br = occupant_row[OF A Some]
    have "dget (occupants_of d) (ag_seat b) = Some b"
      by (rule occupant_unique[OF A']) (use br rows seat s in auto)
    then show ?thesis using Some br(2) by simp
  qed
  show ?thesis using s here there seat by auto
qed

text \<open>
  Updating an attempt. Only the seat's occupant can be updated; what identifies the attempt
  never changes, a finished attempt stays finished until it ends, a bound runtime target is not
  rebound, and the update leaves the occupants of all seats in place.
\<close>

theorem update_keeps_identity:
  assumes inv: "registry_inv doc w" and upd: "update_change agent doc w = (Inr ((written, cur), d), w')"
  shows "dget (occupants_of doc) (ag_seat agent) = Some cur \<and>
    immutable_fields written = immutable_fields cur \<and>
    (ag_state cur = ''finished'' \<longrightarrow> ag_state written \<in> {''finished'', ''ended''}) \<and>
    check_binding (ag_runtime_target cur) (ag_runtime_target written) = Inr () \<and>
    registry_inv d w' \<and>
    (\<forall>s. dget (occupants_of d) s = (if s = ag_seat agent then Some written else dget (occupants_of doc) s))"
proof -
  note u = update_registry[OF inv upd]
  have A: "wf_dict (fd_executions doc)" using inv by (rule registry_invE)
  obtain A0 where ok: "reg_ok (map_of (fd_executions doc)) A0" using inv by (auto elim: registry_invE)
  have occ: "dget (occupants_of doc) (ag_seat agent) = Some cur" using u by blast
  note cr = occupant_row[OF A occ]
  have state: "ag_state cur = ''finished'' \<longrightarrow> ag_state written \<in> {''finished'', ''ended''}"
    and bind: "check_binding (ag_runtime_target cur) (ag_runtime_target written) = Inr ()"
    using upd occ
    by (auto simp: update_change_def Let_def conflict_def launch_binding_def split: sum.splits if_splits)
  have at: "dget (fd_executions doc) (ag_execution_id cur) = Some cur"
    using cr(1) reg_okD(1)[OF ok] by (auto simp: ran_def)
  have same: "ag_seat written = ag_seat cur" "ag_generation written = ag_generation cur"
    using u by (simp_all add: immutable_fields_def)
  have "dget (occupants_of d) s = (if s = ag_seat agent then Some written else dget (occupants_of doc) s)" for s
  proof (cases "written = cur")
    case True
    then have "occupants_of d = occupants_of doc" using u by (simp add: occupants_of_def)
    then show ?thesis using occ True by simp
  next
    case False
    have occ': "dget (occupants_of doc) (ag_seat cur) = Some cur" using occ cr(2) by simp
    show ?thesis
      using occupant_put[OF inv at occ' _ _ same, of d w s] u False cr(2) by simp
  qed
  then show ?thesis using u state bind by blast
qed

text \<open>
  Archiving moves superseded attempts only. Every seat keeps its occupant, and every attempt
  of the registry is still in it afterwards, current or archived, with the same identity.
\<close>

theorem archive_keeps_occupants:
  assumes inv: "registry_inv doc w" and m: "archive_move listed doc w = (Inr (n, d), w')"
  shows "registry_inv d w' \<and> map_of (occupants_of d) = map_of (occupants_of doc) \<and>
    (\<forall>k r. dget (fd_executions doc) k = Some r \<longrightarrow> dget (fd_executions d) k \<noteq> Some r \<longrightarrow>
       ag_name r \<notin> set listed \<and> (\<exists>h. dget (occupants_of doc) (ag_seat r) = Some h \<and> ag_generation r < ag_generation h))"
proof -
  note a = archive_move_effect[OF inv m]
  have A: "wf_dict (fd_executions doc)" using inv by (rule registry_invE)
  obtain A0 where ok: "reg_ok (map_of (fd_executions doc)) A0" using inv by (auto elim: registry_invE)
  obtain A' where A': "wf_dict (fd_executions d)" "reg_ok (map_of (fd_executions d)) A'"
    using a by (auto elim: registry_invE)
  have key: "i \<in> set (superseded_keys listed doc) \<longleftrightarrow> (\<exists>x h. dget (fd_executions doc) i = Some x \<and>
      dget (occupants_of doc) (ag_seat x) = Some h \<and> ag_generation x < ag_generation h \<and> ag_name x \<notin> set listed)" for i
    using A unfolding superseded_keys_def occupants_dget
    by (force simp: Let_def map_of_eq_Some_iff split: option.splits)
  have sub: "ran (map_of (fd_executions d)) \<subseteq> ran (map_of (fd_executions doc))"
    using a by (auto simp: ran_def split: if_splits)
  have "dget (occupants_of d) s = dget (occupants_of doc) s" for s
  proof (cases "dget (occupants_of doc) s")
    case None
    have "dget (occupants_of d) s \<noteq> Some b" for b
      using occupant_row[OF A'(1), of s b] occupant_none[OF A None, of b] sub by auto
    then show ?thesis using None by auto
  next
    case (Some b)
    note br = occupant_row[OF A Some]
    obtain j where j: "dget (fd_executions doc) j = Some b" using br(1) by (auto simp: ran_def)
    have "j \<notin> set (superseded_keys listed doc)" using key[of j] j Some br(2) by auto
    then have "dget (fd_executions d) j = Some b" using a j by simp
    then have "b \<in> ran (map_of (fd_executions d))" by (rule ranI)
    then have "dget (occupants_of d) (ag_seat b) = Some b"
      by (rule occupant_unique[OF A']) (use br(2,3) sub in auto)
    then show ?thesis using Some br(2) by simp
  qed
  then have "map_of (occupants_of d) = map_of (occupants_of doc)" by blast
  moreover have "ag_name r \<notin> set listed \<and> (\<exists>h. dget (occupants_of doc) (ag_seat r) = Some h \<and> ag_generation r < ag_generation h)"
    if "dget (fd_executions doc) k = Some r" "dget (fd_executions d) k \<noteq> Some r" for k r
    using that a key[of k] by (auto split: if_splits)
  ultimately show ?thesis using a by blast
qed

end
