(* ===== verification/Fencing_Witness.thy ===== *)
theory Fencing_Witness
  imports Registry_Laws
begin

text \<open>
  The properties of the fencing document, the controller lease and the execution registry at
  concrete inputs: a swarm \<open>s\<close> with an empty bucket, and documents small enough to evaluate.
\<close>

definition ctx0 :: fctx where
  "ctx0 = \<lparr>fx_slug = ''s'', fx_legacy = empty_doc, fx_legacy_count = (\<lambda>_. 0),
     fx_sha = (\<lambda>_. ''0''), fx_count_others = [id, id]\<rparr>"

definition world0 :: fworld where
  "world0 = \<lparr>fw_states = empty_store, fw_counters = empty_store, fw_now = 5\<rparr>"

definition epoch_change :: "unit fchange" where
  "epoch_change = plain_change (\<lambda>doc. Inr ((), doc\<lparr>fd_epoch := fd_epoch doc + 1\<rparr>))"

lemma plain_change_ok: "change_ok c (plain_change f)"
  by (simp add: change_ok_def plain_change_def aside_refl)

lemma timed_change_ok: "change_ok c (timed_change f)"
  by (simp add: change_ok_def timed_change_def aside_refl)

lemma ctx0_counts: "counts_ok ctx0"
  by (simp add: counts_ok_def ctx0_def aside_refl)

lemma ids_others: "others_ok c [id, id]"
  by (simp add: others_ok_def)

lemma world0_inv: "fdoc_inv c world0"
  by (simp add: fdoc_inv_def fw_inv_def world0_def store_get_def empty_store_def store_inv_def last_entry_def)

lemma world0_chunks: "chunks_inv (fw_states world0)"
  by (simp add: chunks_inv_def world0_def chunk_at_def store_get_def empty_store_def store_inv_def last_entry_def)

lemmas store_eval = store_get_def store_create_def store_update_def store_put_def store_rd_def dhas_def
  empty_store_def dget_dset

lemmas fencing_eval = fencing_write_def fencing_entry_def fencing_step_def fencing_commit_def
  read_cell_def count_refusal_def conflict_def plain_change_def timed_change_def ctx0_def world0_def empty_doc_def
  doc_eq_def dict_eq_def Let_def

lemma fst_pair: "fst p = x \<Longrightarrow> p = (x, snd p)"
  by (cases p) simp

lemma write0: "fst (fencing_write ctx0 (Inr ()) epoch_change [id, id] world0) = Inr ()"
  by (simp add: fencing_eval store_eval epoch_change_def)

lemma epoch_change_ok: "change_ok c epoch_change"
  unfolding epoch_change_def by (rule plain_change_ok)

theorem fencing_write_atomic_witness:
  "\<exists>doc rvn w1 doc1 w3. fencing_rd ctx0 w1 = Some (doc, rvn) \<and> (fd_moved doc \<or> epoch_change doc w1 = (Inr ((), doc1), w3))"
  using fencing_write_atomic[OF ctx0_counts epoch_change_ok ids_others world0_inv fst_pair[OF write0]]
  by (metis (full_types))

lemma epoch_change_plain: "fst (epoch_change doc w) \<noteq> Inl f"
  by (simp add: epoch_change_def plain_change_def)

theorem fencing_write_settles_witness:
  "fst (fencing_write ctx0 (Inr ()) epoch_change [id, id] world0) \<noteq> Inl contention"
  by (rule fencing_write_settles[OF ctx0_counts epoch_change_ok ids_others world0_inv, of id])
    (simp_all add: epoch_change_plain)

section \<open>The archive\<close>

definition agent1 :: agent_record where
  "agent1 = (new_agent ''engineer@00000a-0001'' ''eng'' ''t1'')
     \<lparr>ag_seat := ''eng-1@s'', ag_execution_id := ''exe-a'', ag_generation := 1\<rparr>"

definition archived_doc :: fdoc where
  "archived_doc = empty_doc\<lparr>fd_archive := [(''exe-a'', agent1)], fd_archive_ref := Some ''''\<rparr>"

lemma externalized:
  "fst (externalize_archive ctx0 archived_doc world0) =
    Inr (empty_doc\<lparr>fd_archive_ref := Some ''s:archive:0''\<rparr>)"
  by (simp add: externalize_archive_def archived_doc_def archive_rows_def Let_def store_eval
      save_archive_chunk_def ctx0_def world0_def empty_doc_def numeral_eq_Suc)

theorem externalize_hydrate_witness:
  "\<exists>doc2 w1. hydrate_archive (empty_doc\<lparr>fd_archive_ref := Some ''s:archive:0''\<rparr>) w1 = Inr doc2 \<and>
    map_of (fd_archive doc2) = map_of [(''exe-a'', agent1)]"
  using externalize_hydrate[OF world0_chunks, of archived_doc "''''" ctx0 _, OF _ _ fst_pair[OF externalized]]
  by (auto simp: archived_doc_def)

theorem archive_rows_returns_witness:
  "archive_rows (fw_states (snd (externalize_archive ctx0 archived_doc world0))) ''s:archive:0'' \<noteq> Inl No_Return"
proof -
  have "archive_reach (snd (externalize_archive ctx0 archived_doc world0))"
  proof (rule ar_save)
    show "archive_reach world0" by (rule ar_start) (simp add: world0_def)
    show "wf_dict (fd_archive archived_doc)" by (simp add: archived_doc_def)
    show "externalize_archive ctx0 archived_doc world0 =
        (fst (externalize_archive ctx0 archived_doc world0), snd (externalize_archive ctx0 archived_doc world0))" by simp
  qed
  from archive_rows_returns[OF this] show ?thesis by blast
qed

section \<open>The lease\<close>

definition lease_doc :: fdoc where
  "lease_doc = empty_doc\<lparr>fd_lease := Some \<lparr>ls_owner = ''h'', ls_epoch = 2, ls_expires_at = 100\<rparr>, fd_epoch := 2\<rparr>"


theorem epoch_one_owner_witness:
  "(\<lambda>a b. (\<lambda>_ _. False) b a)\<^sup>*\<^sup>* ''h'' ''h''"
  using epoch_one_owner[of lease_doc 60000 "\<lambda>_ _. False" lease_doc "the (fd_lease lease_doc)" "the (fd_lease lease_doc)"]
  by (simp add: lease_doc_def lease_wf_def)

theorem renew_extends_witness:
  "\<exists>l doc'. lease_extend 1000 90 \<lparr>ls_owner = ''h'', ls_epoch = 2, ls_expires_at = 0\<rparr> lease_doc = Inr (l, doc') \<and>
    90 + 2 * 1000 \<le> ls_expires_at l"
proof -
  have "lease_extend 1000 90 \<lparr>ls_owner = ''h'', ls_epoch = 2, ls_expires_at = 0\<rparr> lease_doc =
      Inr (\<lparr>ls_owner = ''h'', ls_epoch = 2, ls_expires_at = 3090\<rparr>,
        lease_doc\<lparr>fd_lease := Some \<lparr>ls_owner = ''h'', ls_epoch = 2, ls_expires_at = 3090\<rparr>\<rparr>)"
    by (simp add: lease_extend_def lease_doc_def live_lease_def ttl_ms_def Let_def)
  then show ?thesis using renew_extends[of 1000 90 _ lease_doc] by fastforce
qed

definition ctx1 :: fctx where
  "ctx1 = ctx0\<lparr>fx_legacy := lease_doc\<rparr>"

lemma ctx1_counts: "counts_ok ctx1"
  by (simp add: counts_ok_def ctx1_def ctx0_def aside_refl)

lemma fenced1: "fst (lease_fenced ctx1 (Inr ()) (Some (By_Epoch 2)) epoch_change [id, id] world0) = Inr ()"
  by (simp add: fencing_eval store_eval epoch_change_def ctx1_def lease_doc_def lease_fenced_def
      guarded_change_def live_lease_def)

theorem fenced_write_under_lease_witness:
  "\<exists>doc rvn w1. fdoc_ev ctx1 world0 w1 \<and> fencing_rd ctx1 w1 = Some (doc, rvn) \<and>
    (fd_moved doc \<or> lease_check (fd_lease doc) (fw_now w1) (By_Epoch 2) = Inr ())"
  using fenced_write_under_lease[OF ctx1_counts epoch_change_ok ids_others world0_inv fst_pair[OF fenced1]]
  by blast

theorem tick_at_least_second_witness: "1000 \<le> (60000 :: int) \<and> tick_ms (\<lambda>_. None) '''' = Inr 60000"
  using tick_at_least_second[of "\<lambda>_. None" "''''" 60000] by (simp add: tick_ms_def)

section \<open>The registry\<close>

definition agent2 :: agent_record where
  "agent2 = (new_agent ''engineer@00000a-0002'' ''eng'' ''t2'')\<lparr>ag_seat := ''eng-1@s''\<rparr>"

definition seat_doc :: fdoc where
  "seat_doc = empty_doc\<lparr>fd_executions := [(''exe-a'', agent1)]\<rparr>"

lemmas agent_eval = agent1_def agent2_def new_agent_def seat_doc_def empty_doc_def

lemma seat_doc_inv: "registry_inv seat_doc world0"
  using world0_chunks
  by (auto simp: registry_inv_def full_archive_def archive_lookup_ref_def reg_ok_def reg_rows_def agent_eval)

lemma started:
  "fst (change_with_archive ctx0 (start_admit ''b'' None ''exe-a'' agent2) seat_doc world0) =
    Inr ((agent2\<lparr>ag_execution_id := ''exe-b'', ag_generation := 2\<rparr>, Some agent1),
      seat_doc\<lparr>fd_executions := [(''exe-a'', agent1), (''exe-b'', agent2\<lparr>ag_execution_id := ''exe-b'', ag_generation := 2\<rparr>)]\<rparr>)"
  by (simp add: change_with_archive_def hydrate_archive_def archive_lookup_ref_def start_admit_def
      occupants_of_def latest_seat_def records_of_def dhas_def check_uid_def jget_def externalize_archive_def dmerge_def
      agent_eval Let_def and_then_def)

theorem start_opens_generation_witness:
  "\<exists>d. dget (occupants_of d) ''eng-1@s'' = Some (agent2\<lparr>ag_execution_id := ''exe-b'', ag_generation := 2\<rparr>)"
proof -
  have fresh: "not_archived seat_doc world0 (''exe-'' @ ''b'')"
    by (simp add: not_archived_def full_archive_def archive_lookup_ref_def agent_eval)
  have noid: "ag_execution_id agent2 = ''''" by (simp add: agent_eval)
  have "ag_seat agent2 = ''eng-1@s''" by (simp add: agent_eval)
  then show ?thesis
    using start_opens_generation[OF seat_doc_inv noid fresh fst_pair[OF started]] by metis
qed

lemma updated:
  "update_change (agent1\<lparr>ag_pane_id := ''p''\<rparr>) seat_doc world0 =
    (Inr ((agent1\<lparr>ag_pane_id := ''p''\<rparr>, agent1),
      seat_doc\<lparr>fd_executions := [(''exe-a'', agent1\<lparr>ag_pane_id := ''p''\<rparr>)]\<rparr>), world0)"
  by (simp add: update_change_def occupants_of_def latest_seat_def agent_eval immutable_fields_def read_before_ack_def
      same_keys_def check_binding_def check_uid_def jget_def Let_def)

theorem update_keeps_identity_witness:
  "\<exists>d. dget (occupants_of d) ''eng-1@s'' = Some (agent1\<lparr>ag_pane_id := ''p''\<rparr>)"
proof -
  have "ag_seat (agent1\<lparr>ag_pane_id := ''p''\<rparr>) = ''eng-1@s''" by (simp add: agent_eval)
  then show ?thesis using update_keeps_identity[OF seat_doc_inv updated] by metis
qed

lemma archived: "archive_move [] seat_doc world0 = (Inr (0, seat_doc), world0)"
  by (simp add: archive_move_def superseded_keys_def latest_seat_def hydrate_archive_def archive_lookup_ref_def
      dmerge_def agent_eval Let_def)

theorem archive_keeps_occupants_witness: "registry_inv seat_doc world0"
  using archive_keeps_occupants[OF seat_doc_inv archived] by blast

lemma reached_start:
  "registry_reach ctx0 (empty_doc\<lparr>fd_executions := [(''exe-b'', agent2\<lparr>ag_execution_id := ''exe-b'', ag_generation := 1\<rparr>)]\<rparr>)
    world0"
proof (rule registry_reach.reg_start[of ctx0 empty_doc world0 agent2 "''b''" "Inr undefined" None "''''"])
  show "registry_reach ctx0 empty_doc world0" by (rule registry_reach.reg_init[OF world0_chunks])
  show "not_archived empty_doc world0 (''exe-'' @ ''b'')"
    by (simp add: not_archived_def full_archive_def archive_lookup_ref_def agent_eval)
  show "fencing_step ctx0 (Inr undefined) (change_with_archive ctx0 (start_admit ''b'' None '''' agent2)) empty_doc world0 =
    (Inr ((agent2\<lparr>ag_execution_id := ''exe-b'', ag_generation := 1\<rparr>, None),
       Some (empty_doc\<lparr>fd_executions := [(''exe-b'', agent2\<lparr>ag_execution_id := ''exe-b'', ag_generation := 1\<rparr>)]\<rparr>)), world0)"
    by (simp add: fencing_step_def count_refusal_def change_with_archive_def hydrate_archive_def archive_lookup_ref_def
        start_admit_def occupants_of_def latest_seat_def records_of_def dhas_def check_uid_def jget_def
        externalize_archive_def dmerge_def doc_eq_def dict_eq_def agent_eval Let_def and_then_def)
qed (simp_all add: agent_eval)

theorem registry_invariant_witness:
  "\<exists>doc. registry_reach ctx0 doc world0 \<and> fd_executions doc \<noteq> [] \<and>
    (\<exists>A. full_archive doc world0 = Inr A \<and> dom (map_of (fd_executions doc)) \<inter> dom A = {})"
  using registry_invariant[OF reached_start] reached_start by fastforce

end
