(* ===== verification/Authority.thy ===== *)
theory Authority
  imports Execution
begin

text \<open>
  The task authority (\<open>scripts/swarm_v2/authority.py\<close>) with the controller gate it stands behind
  (\<open>Controller.require\<close> and \<open>_authority\<close> of \<open>scripts/swarm_v2/controller.py\<close>): who holds a task, under
  which generation and until when, with the journal of every change and the sequence fence of
  renewals, all kept in the fencing document. \<open>clk i\<close> is the i-th clock reading of a change. The
  callback that checks a worker's credential and the projected claimant are parameters.
\<close>

section \<open>The controller gate\<close>

text \<open>\<open>ct_authorized\<close> is what the controller's own authorization callback answers.\<close>

record controller =
  ct_held :: "lease option"
  ct_ready :: bool
  ct_admission_enabled :: bool
  ct_authorized :: bool

definition controller_authority :: "fctx \<Rightarrow> (fault + fdoc) \<Rightarrow> controller \<Rightarrow> fworld \<Rightarrow> (fault + unit) \<times> fworld" where
  "controller_authority c moved ctl w =
    (if \<not> ct_authorized ctl then (Inl (Swarm_Error ''a scoped controller grant is required''), w)
     else case ct_held ctl of
            None \<Rightarrow> (Inl (Swarm_Error ''the controller lease is absent''), w)
          | Some held \<Rightarrow> lease_require c moved (By_Lease held) w)"

definition controller_require :: "fctx \<Rightarrow> (fault + fdoc) \<Rightarrow> controller \<Rightarrow> fworld \<Rightarrow> (fault + unit) \<times> fworld" where
  "controller_require c moved ctl w =
    (case controller_authority c moved ctl w of
      (Inl e, w1) \<Rightarrow> (Inl e, w1)
    | (Inr _, w1) \<Rightarrow>
        (if \<not> ct_ready ctl \<or> \<not> ct_admission_enabled ctl
         then Inl (Swarm_Error ''controller admission is disabled until reconciliation completes'')
         else Inr (), w1))"

section \<open>Claims and journals\<close>

definition claim_refused :: "string \<Rightarrow> fault + 'a" where
  "claim_refused msg = Inl (Swarm_Error msg)"

text \<open>\<open>_stale\<close>: the refusal is counted, then raised.\<close>

definition claim_stale :: "fault + 'a" where
  "claim_stale = Inl (Counted ''stale-generation-rejections'' ''stale_generation'')"

definition journal_of :: "fdoc \<Rightarrow> string \<Rightarrow> journal_entry list" where
  "journal_of doc task = (case dget (fd_journals doc) task of None \<Rightarrow> [] | Some rows \<Rightarrow> rows)"

fun reconstruct_from :: "task_claim option \<Rightarrow> journal_entry list \<Rightarrow> fault + task_claim option" where
  "reconstruct_from recovered [] = Inr recovered"
| "reconstruct_from recovered ((event, claim) # rows) =
    (let expected = (case recovered of None \<Rightarrow> 0 | Some r \<Rightarrow> tc_generation r) +
                    (if event = ''admitted'' then 1 else 0)
     in if tc_generation claim \<noteq> expected then claim_refused ''journal_conflict''
        else reconstruct_from (Some claim) rows)"

definition reconstruct :: "journal_entry list \<Rightarrow> fault + task_claim option" where
  "reconstruct rows = reconstruct_from None rows"

definition claim_execution :: "fdoc \<Rightarrow> fworld \<Rightarrow> string \<Rightarrow> fault + agent_record" where
  "claim_execution doc w execution_id =
    and_then (execution_row doc w execution_id) (\<lambda>row.
      case row of
        None \<Rightarrow> conflict ''unknown execution identity; display labels cannot identify attempts''
      | Some agent \<Rightarrow> Inr agent)"

text \<open>\<open>authorize\<close> is the callback on the worker's token, as it answers at this moment.\<close>

definition claim_scope :: "string \<Rightarrow> (fault + registration) \<Rightarrow> fdoc \<Rightarrow> fworld \<Rightarrow> fault + registration" where
  "claim_scope slug authorize doc w =
    (case authorize of
      Inl (Grant_Refused cls msg) \<Rightarrow> (if cls = ''stale_generation'' then claim_stale else Inl (Grant_Refused cls msg))
    | Inl e \<Rightarrow> Inl e
    | Inr scope \<Rightarrow>
        if rg_swarm_id scope \<noteq> slug then claim_refused ''forbidden_scope''
        else and_then (claim_execution doc w (rg_execution_id scope)) (\<lambda>agent.
          if (ag_task agent, ag_seat agent, ag_generation agent)
               \<noteq> (rg_task_id scope, rg_seat_id scope, rg_generation scope)
          then claim_refused ''forbidden_scope''
          else case dget (occupants_of doc) (rg_seat_id scope) of
                 None \<Rightarrow> claim_stale
               | Some current \<Rightarrow>
                   if (ag_execution_id current, ag_generation current) \<noteq> (rg_execution_id scope, rg_generation scope)
                   then claim_stale else Inr scope))"

section \<open>The four actions\<close>

type_synonym claim_action =
  "(nat \<Rightarrow> int) \<Rightarrow> fdoc \<Rightarrow> fworld \<Rightarrow> registration \<Rightarrow> task_claim option \<Rightarrow> fault + task_claim"

definition claim_duration :: "int \<Rightarrow> fault + unit" where
  "claim_duration lease_ms = (if lease_ms \<le> 0 then claim_refused ''invalid_request'' else Inr ())"

definition claim_admit :: "int \<Rightarrow> string option \<Rightarrow> claim_action" where
  "claim_admit lease_ms projected clk doc w scope previous =
    (let now = clk 0; history = journal_of doc (rg_task_id scope);
         rest = (if history \<noteq> [] \<and> previous = None then claim_refused ''dependency_unavailable''
           else if \<exists>entry \<in> set history. tc_execution_id (snd entry) = rg_execution_id scope then claim_stale
           else and_then (claim_execution doc w (rg_execution_id scope)) (\<lambda>agent.
             if previous = None \<and> projected \<noteq> None \<and> projected \<noteq> Some (ag_name agent) then claim_refused ''claim_held''
             else if (case previous of None \<Rightarrow> False | Some p \<Rightarrow> tc_state p = ''completed'') then claim_refused ''claim_held''
             else Inr \<lparr>tc_task_id = rg_task_id scope, tc_holder = ag_name agent,
               tc_generation = (case previous of None \<Rightarrow> 1 | Some p \<Rightarrow> tc_generation p + 1),
               tc_execution_id = rg_execution_id scope, tc_execution_generation = rg_generation scope,
               tc_lease_deadline_ms = now + lease_ms, tc_state = ''active'', tc_result = []\<rparr>))
     in case previous of
          None \<Rightarrow> rest
        | Some p \<Rightarrow>
            if tc_state p = ''active'' \<and> tc_lease_deadline_ms p > now
            then (if tc_execution_id p = rg_execution_id scope then Inr p else claim_refused ''claim_held'')
            else rest)"

definition claim_identity :: "registration \<Rightarrow> int \<Rightarrow> task_claim option \<Rightarrow> fault + task_claim" where
  "claim_identity scope generation previous =
    (if generation < 1 then claim_refused ''invalid_request''
     else case previous of
            None \<Rightarrow> claim_stale
          | Some p \<Rightarrow>
              if (tc_generation p, tc_execution_id p, tc_execution_generation p)
                   \<noteq> (generation, rg_execution_id scope, rg_generation scope)
              then claim_stale else Inr p)"

definition claim_holder :: "int \<Rightarrow> registration \<Rightarrow> int \<Rightarrow> task_claim option \<Rightarrow> fault + task_claim" where
  "claim_holder now scope generation previous =
    and_then (claim_identity scope generation previous) (\<lambda>p.
      if tc_state p \<noteq> ''active'' \<or> tc_lease_deadline_ms p \<le> now then claim_stale else Inr p)"

definition claim_renew :: "int \<Rightarrow> int \<Rightarrow> claim_action" where
  "claim_renew generation lease_ms clk doc w scope previous =
    and_then (claim_holder (clk 0) scope generation previous) (\<lambda>p.
      Inr (p\<lparr>tc_lease_deadline_ms := clk 1 + lease_ms\<rparr>))"

definition claim_release :: "int \<Rightarrow> claim_action" where
  "claim_release generation clk doc w scope previous =
    and_then (claim_holder (clk 0) scope generation previous) (\<lambda>p. Inr (p\<lparr>tc_state := ''released''\<rparr>))"

definition claim_complete :: "int \<Rightarrow> jdict \<Rightarrow> claim_action" where
  "claim_complete generation result clk doc w scope previous =
    (let finish = and_then (claim_holder (clk 0) scope generation previous) (\<lambda>p.
           Inr (p\<lparr>tc_state := ''completed'', tc_result := result\<rparr>))
     in case previous of
          None \<Rightarrow> finish
        | Some p \<Rightarrow>
            if tc_state p = ''completed'' then
              and_then (claim_identity scope generation previous) (\<lambda>_.
                if tc_result p \<noteq> result then claim_refused ''operation_conflict'' else Inr p)
            else finish)"

section \<open>Committing\<close>

definition fence_check :: "renewal_fence \<Rightarrow> fdoc \<Rightarrow> fault + fdoc" where
  "fence_check fence doc =
    (if (case dget (fd_fences doc) (rf_key fence) of
           None \<Rightarrow> False
         | Some (sequence, digest) \<Rightarrow>
             sequence > rf_sequence fence \<or> (sequence = rf_sequence fence \<and> digest \<noteq> rf_digest fence))
     then claim_refused ''out_of_order''
     else Inr (doc\<lparr>fd_fences := dset (rf_key fence) (rf_sequence fence, rf_digest fence) (fd_fences doc)\<rparr>))"

definition claim_record :: "string \<Rightarrow> task_claim option \<Rightarrow> task_claim \<Rightarrow> fdoc \<Rightarrow> fdoc" where
  "claim_record event previous current doc =
    (let task = tc_task_id current;
         journal = journal_of doc task;
         fenced = (case previous of
             None \<Rightarrow> []
           | Some p \<Rightarrow> if event = ''admitted'' \<and> tc_state p = ''active'' then [(''fenced'', p\<lparr>tc_state := ''fenced''\<rparr>)] else []);
         entry = (if event \<noteq> ''replayed'' then [(event, current)] else [])
     in doc\<lparr>fd_claims := dset task current (fd_claims doc),
            fd_journals := dset task (journal @ fenced @ entry) (fd_journals doc)\<rparr>)"

definition commit_refusal :: "int \<Rightarrow> string \<Rightarrow> int option \<Rightarrow> task_claim option \<Rightarrow> task_claim \<Rightarrow> fault + unit" where
  "commit_refusal now event worker_deadline previous current =
    (if (case worker_deadline of None \<Rightarrow> False | Some d \<Rightarrow> d \<le> now)
     then claim_refused ''worker credential has expired''
     else if event = ''admitted'' \<and> tc_lease_deadline_ms current \<le> now then claim_stale
     else if event \<noteq> ''admitted'' \<and> event \<noteq> ''replayed''
     then (case previous of
             None \<Rightarrow> Inl Type_Error
           | Some p \<Rightarrow> if tc_state p \<noteq> ''active'' \<or> tc_lease_deadline_ms p \<le> now then claim_stale else Inr ())
     else Inr ())"

definition claim_commit ::
  "int \<Rightarrow> string \<Rightarrow> int option \<Rightarrow> renewal_fence option \<Rightarrow> task_claim option \<Rightarrow> task_claim \<Rightarrow> fdoc \<Rightarrow> fault + fdoc" where
  "claim_commit now event worker_deadline fence previous current doc =
    and_then (commit_refusal now event worker_deadline previous current) (\<lambda>_.
      and_then (case fence of None \<Rightarrow> Inr doc | Some f \<Rightarrow> fence_check f doc) (\<lambda>doc1.
        Inr (claim_record event previous current doc1)))"

text \<open>What a write does with the document once the gate and the scope let it through.\<close>

definition claim_apply ::
  "(nat \<Rightarrow> int) \<Rightarrow> string \<Rightarrow> claim_action \<Rightarrow> renewal_fence option \<Rightarrow> registration \<Rightarrow> fdoc \<Rightarrow> fworld \<Rightarrow>
   fault + (task_claim \<times> bool) \<times> fdoc" where
  "claim_apply clk event action fence scope doc w =
    (let previous = dget (fd_claims doc) (rg_task_id scope);
         journal = journal_of doc (rg_task_id scope)
     in if (case previous of None \<Rightarrow> False | Some p \<Rightarrow> journal = [] \<or> p \<noteq> snd (last journal))
        then claim_refused ''journal_conflict''
        else and_then (action clk doc w scope previous) (\<lambda>current.
          if Some current = previous \<and> fence = None then Inr ((current, False), doc)
          else case dget (fd_grants doc) (rg_grant_id scope) of
                 None \<Rightarrow> Inl (Key_Error (rg_grant_id scope))
               | Some audit \<Rightarrow>
                   and_then (claim_commit (clk 2) event (Some (gr_expires_at audit * 1000)) fence previous current doc)
                     (\<lambda>doc1. Inr ((current, True), doc1))))"

definition authority_change ::
  "fctx \<Rightarrow> (fault + fdoc) \<Rightarrow> controller \<Rightarrow> (fworld \<Rightarrow> fault + registration) \<Rightarrow> registration \<Rightarrow> (nat \<Rightarrow> int) \<Rightarrow>
   string \<Rightarrow> claim_action \<Rightarrow> renewal_fence option \<Rightarrow> (task_claim \<times> bool) fchange" where
  "authority_change c moved ctl authorize scope lag event action fence doc w =
    (case controller_require c moved ctl w of
      (Inl e, w1) \<Rightarrow> (Inl e, w1)
    | (Inr _, w1) \<Rightarrow>
        (case claim_scope (fx_slug c) (authorize w1) doc w1 of
          Inl e \<Rightarrow> (Inl e, w1)
        | Inr scope1 \<Rightarrow>
            (if scope1 \<noteq> scope then claim_refused ''forbidden_scope''
             else claim_apply (\<lambda>i. fw_now w1 + lag i) event action fence scope doc w1, w1)))"

text \<open>\<open>_fenced\<close>: a write that gave up is an unavailable dependency.\<close>

definition authority_fenced ::
  "fctx \<Rightarrow> (fault + 'r) \<Rightarrow> controller \<Rightarrow> 'r fchange \<Rightarrow> (fworld \<Rightarrow> fworld) list \<Rightarrow> fworld \<Rightarrow> (fault + 'r) \<times> fworld" where
  "authority_fenced c moved ctl change others w =
    (case lease_fenced c moved (map_option By_Lease (ct_held ctl)) change others w of
      (Inl e, w1) \<Rightarrow> (if e = contention then claim_refused ''dependency_unavailable'' else Inl e, w1)
    | out \<Rightarrow> out)"

definition authority_write ::
  "fctx \<Rightarrow> (fault + fdoc) \<Rightarrow> (fault + task_claim \<times> bool) \<Rightarrow> controller \<Rightarrow> (fworld \<Rightarrow> fault + registration) \<Rightarrow> (nat \<Rightarrow> int) \<Rightarrow>
   string \<Rightarrow> claim_action \<Rightarrow> renewal_fence option \<Rightarrow> (fworld \<Rightarrow> fworld) list \<Rightarrow> fworld \<Rightarrow> (fault + task_claim \<times> bool) \<times> fworld" where
  "authority_write c moved moved_write ctl authorize lag event action fence others w =
    (case fencing_read c moved w of
      (Inl e, w1) \<Rightarrow> (Inl e, w1)
    | (Inr doc, w1) \<Rightarrow>
        (case count_refusal c (claim_scope (fx_slug c) (authorize w1) doc w1, w1) of
          (Inl e, w2) \<Rightarrow> (Inl e, w2)
        | (Inr scope, w2) \<Rightarrow>
            authority_fenced c moved_write ctl (authority_change c moved ctl authorize scope lag event action fence) others w2))"

definition authority_admit where
  "authority_admit c moved moved_write ctl authorize lag lease_ms projected others w =
    (case claim_duration lease_ms of
      Inl e \<Rightarrow> (Inl e, w)
    | Inr _ \<Rightarrow> authority_write c moved moved_write ctl authorize lag ''admitted'' (claim_admit lease_ms projected) None others w)"

definition authority_renew where
  "authority_renew c moved moved_write ctl authorize lag generation lease_ms fence others w =
    (case claim_duration lease_ms of
      Inl e \<Rightarrow> (Inl e, w)
    | Inr _ \<Rightarrow> authority_write c moved moved_write ctl authorize lag ''renewed'' (claim_renew generation lease_ms) fence others w)"

definition authority_release where
  "authority_release c moved moved_write ctl authorize lag generation others w =
    authority_write c moved moved_write ctl authorize lag ''released'' (claim_release generation) None others w"

definition authority_complete where
  "authority_complete c moved moved_write ctl authorize lag generation result others w =
    authority_write c moved moved_write ctl authorize lag ''completed'' (claim_complete generation result) None others w"

section \<open>Replay\<close>

definition replay_apply :: "int \<Rightarrow> string \<Rightarrow> fdoc \<Rightarrow> fault + task_claim option \<times> fdoc" where
  "replay_apply now task doc =
    and_then (reconstruct (journal_of doc task)) (\<lambda>recovered.
      let current = dget (fd_claims doc) task
      in if current \<noteq> None \<and> current \<noteq> recovered then claim_refused ''journal_conflict''
         else case recovered of
                None \<Rightarrow> Inr (None, doc)
              | Some r \<Rightarrow> and_then (claim_commit now ''replayed'' None None None r doc) (\<lambda>doc1. Inr (Some r, doc1)))"

definition replay_change ::
  "fctx \<Rightarrow> (fault + fdoc) \<Rightarrow> controller \<Rightarrow> string \<Rightarrow> task_claim option fchange" where
  "replay_change c moved ctl task doc w =
    (case controller_require c moved ctl w of
      (Inl e, w1) \<Rightarrow> (Inl e, w1)
    | (Inr _, w1) \<Rightarrow> (replay_apply (fw_now w1) task doc, w1))"

definition authority_replay ::
  "fctx \<Rightarrow> (fault + fdoc) \<Rightarrow> (fault + task_claim option) \<Rightarrow> controller \<Rightarrow> string \<Rightarrow> (fworld \<Rightarrow> fworld) list \<Rightarrow> fworld \<Rightarrow>
   (fault + task_claim option) \<times> fworld" where
  "authority_replay c moved moved_write ctl task others w =
    authority_fenced c moved_write ctl (replay_change c moved ctl task) others w"

text \<open>What is projected for the readers of the old keys: the holder while the claim is live.\<close>

definition claim_projection :: "int \<Rightarrow> task_claim \<Rightarrow> string option" where
  "claim_projection now current =
    (if tc_state current = ''active'' \<and> tc_lease_deadline_ms current > now then Some (tc_holder current) else None)"

end
