(* ===== verification/Authority_Laws.thy ===== *)
theory Authority_Laws
  imports Authority
begin

text \<open>
  What the task authority promises: the claim of a task is the last entry of its journal and the
  journal replays to it, generations count the admissions of a task, an execution is admitted to a
  task at most once, a holder whose generation has passed is shut out, a completed task stays
  completed, and the fence of renewals never goes back.
\<close>

section \<open>The invariant\<close>

definition admissions :: "journal_entry list \<Rightarrow> string list" where
  "admissions rows = map (\<lambda>(_, claim). tc_execution_id claim) (filter (\<lambda>(event, _). event = ''admitted'') rows)"

definition task_ok :: "string \<Rightarrow> task_claim option \<Rightarrow> journal_entry list \<Rightarrow> bool" where
  "task_ok task claim rows \<longleftrightarrow>
     reconstruct rows = Inr claim \<and> distinct (admissions rows) \<and>
     (case claim of
        None \<Rightarrow> rows = []
      | Some p \<Rightarrow> tc_task_id p = task \<and> 1 \<le> tc_generation p \<and> tc_generation p = int (length (admissions rows)) \<and>
          rows \<noteq> [] \<and> snd (last rows) = p)"

definition claims_ok :: "fdoc \<Rightarrow> bool" where
  "claims_ok doc \<longleftrightarrow> (\<forall>task. task_ok task (dget (fd_claims doc) task) (journal_of doc task))"

lemma reconstruct_from_append:
  "reconstruct_from r (xs @ ys) = and_then (reconstruct_from r xs) (\<lambda>r'. reconstruct_from r' ys)"
  by (induction r xs rule: reconstruct_from.induct) (auto simp: Let_def claim_refused_def)

lemma admissions_append [simp]: "admissions (xs @ ys) = admissions xs @ admissions ys"
  by (simp add: admissions_def)

lemma admissions_subset: "x \<in> set (admissions rows) \<Longrightarrow> \<exists>entry \<in> set rows. tc_execution_id (snd entry) = x"
  by (force simp: admissions_def)

lemma journal_of_dset:
  "journal_of (doc\<lparr>fd_claims := cl, fd_journals := dset task rows (fd_journals doc)\<rparr>) t = (if t = task then rows else journal_of doc t)"
  by (simp add: journal_of_def dget_dset)

section \<open>The operations, one lemma\<close>

text \<open>
  The actions the authority offers, with the event each journals, and the actions of its clients that
  write the result of a claim and nothing else of it (the outcomes of theory \<open>Outcomes\<close>).
\<close>

definition result_only :: "claim_action \<Rightarrow> bool" where
  "result_only action \<longleftrightarrow> (\<forall>clk doc w scope previous cur. action clk doc w scope previous = Inr cur \<longrightarrow>
     (\<exists>p r. previous = Some p \<and> cur = p\<lparr>tc_result := r\<rparr>))"

inductive claim_op :: "string \<Rightarrow> claim_action \<Rightarrow> renewal_fence option \<Rightarrow> bool" where
  co_admit: "claim_op ''admitted'' (claim_admit lease_ms projected) None"
| co_renew: "claim_op ''renewed'' (claim_renew generation lease_ms) fence"
| co_release: "claim_op ''released'' (claim_release generation) None"
| co_complete: "claim_op ''completed'' (claim_complete generation result) None"
| co_result: "event \<noteq> ''admitted'' \<Longrightarrow> event \<noteq> ''replayed'' \<Longrightarrow> result_only action \<Longrightarrow> claim_op event action None"

inductive_cases claim_opE: "claim_op event action fence"

text \<open>
  What a write of the journal did: an admission over nothing, over a claim nobody holds any more
  (fencing it when it still says active), or an event of the holder.
\<close>

inductive claim_event :: "task_claim option \<Rightarrow> task_claim \<Rightarrow> string set \<Rightarrow> journal_entry list \<Rightarrow> bool" where
  ce_first: "tc_generation cur = 1 \<Longrightarrow> claim_event None cur seen [(''admitted'', cur)]"
| ce_next: "tc_generation cur = tc_generation p + 1 \<Longrightarrow> tc_state p \<noteq> ''completed'' \<Longrightarrow> tc_execution_id cur \<notin> seen \<Longrightarrow>
    claim_event (Some p) cur seen
      ((if tc_state p = ''active'' then [(''fenced'', p\<lparr>tc_state := ''fenced''\<rparr>)] else []) @ [(''admitted'', cur)])"
| ce_holder: "tc_generation cur = tc_generation p \<Longrightarrow> tc_execution_id cur = tc_execution_id p \<Longrightarrow> tc_state p = ''active'' \<Longrightarrow>
    event \<noteq> ''admitted'' \<Longrightarrow> claim_event (Some p) cur seen [(event, cur)]"

lemmas claim_defs = claim_admit_def claim_renew_def claim_release_def claim_complete_def claim_holder_def
  claim_identity_def claim_stale_def claim_refused_def

definition histories :: "fdoc \<Rightarrow> string \<Rightarrow> string set" where
  "histories doc task = (\<lambda>entry. tc_execution_id (snd entry)) ` set (journal_of doc task)"

lemma claim_holder_Inr:
  "claim_holder now scope g previous = Inr p \<longleftrightarrow> previous = Some p \<and> 1 \<le> g \<and> tc_generation p = g \<and>
     tc_execution_id p = rg_execution_id scope \<and> tc_execution_generation p = rg_generation scope \<and>
     tc_state p = ''active'' \<and> now < tc_lease_deadline_ms p"
  by (auto simp: claim_holder_def claim_identity_def and_then_Inr claim_stale_def claim_refused_def split: option.splits if_splits)

lemma claim_admit_Inr:
  assumes "claim_admit lease_ms projected clk doc w scope previous = Inr cur"
  shows "(previous = Some cur) \<or>
    (tc_task_id cur = rg_task_id scope \<and> tc_execution_id cur = rg_execution_id scope \<and>
     rg_execution_id scope \<notin> histories doc (rg_task_id scope) \<and>
     (case previous of
        None \<Rightarrow> journal_of doc (rg_task_id scope) = [] \<and> tc_generation cur = 1
      | Some p \<Rightarrow> tc_generation cur = tc_generation p + 1 \<and> tc_state p \<noteq> ''completed'' \<and>
          \<not> (tc_state p = ''active'' \<and> clk 0 < tc_lease_deadline_ms p)))"
proof (cases previous)
  case None
  then show ?thesis using assms
    by (auto simp: claim_admit_def Let_def and_then_Inr claim_refused_def claim_stale_def histories_def split: if_splits)
next
  case (Some p)
  then show ?thesis using assms
    by (cases "tc_state p = ''active'' \<and> clk 0 < tc_lease_deadline_ms p")
       (auto simp: claim_admit_def Let_def and_then_Inr claim_refused_def claim_stale_def histories_def split: if_splits)
qed

lemma commit_refusal_Inr:
  "commit_refusal now event dl previous cur = Inr u \<Longrightarrow>
   event = ''admitted'' \<or> event = ''replayed'' \<or> (\<exists>p. previous = Some p \<and> tc_state p = ''active'' \<and> now < tc_lease_deadline_ms p)"
  by (cases previous) (auto simp: commit_refusal_def claim_refused_def claim_stale_def split: if_splits)

lemma claim_commit_Inr:
  assumes "claim_commit now event dl fence previous cur doc = Inr doc'"
  obtains doc1 where "(fence = None \<and> doc1 = doc) \<or> (\<exists>f. fence = Some f \<and> fence_check f doc = Inr doc1)"
    "doc' = claim_record event previous cur doc1"
    "event = ''admitted'' \<or> event = ''replayed'' \<or> (\<exists>p. previous = Some p \<and> tc_state p = ''active'' \<and> now < tc_lease_deadline_ms p)"
proof -
  obtain u doc1 where u: "commit_refusal now event dl previous cur = Inr u"
    and f: "(case fence of None \<Rightarrow> Inr doc | Some f \<Rightarrow> fence_check f doc) = Inr doc1"
    and d: "doc' = claim_record event previous cur doc1"
    using assms unfolding claim_commit_def and_then_Inr by blast
  have "(fence = None \<and> doc1 = doc) \<or> (\<exists>f. fence = Some f \<and> fence_check f doc = Inr doc1)"
    using f by (cases fence) auto
  from that[OF this d commit_refusal_Inr[OF u]] show ?thesis .
qed

lemma claim_record_fields:
  "fd_claims (claim_record event previous cur doc) = dset (tc_task_id cur) cur (fd_claims doc)"
  "fd_fences (claim_record event previous cur doc) = fd_fences doc"
  "journal_of (claim_record event previous cur doc) t =
     (if t = tc_task_id cur then journal_of doc t @
        (case previous of None \<Rightarrow> [] | Some p \<Rightarrow> if event = ''admitted'' \<and> tc_state p = ''active''
           then [(''fenced'', p\<lparr>tc_state := ''fenced''\<rparr>)] else []) @
        (if event \<noteq> ''replayed'' then [(event, cur)] else [])
      else journal_of doc t)"
  by (simp_all add: claim_record_def Let_def journal_of_def dget_dset)

lemma fence_check_Inr:
  "fence_check f doc = Inr doc' \<Longrightarrow>
   doc' = doc\<lparr>fd_fences := dset (rf_key f) (rf_sequence f, rf_digest f) (fd_fences doc)\<rparr> \<and>
   (\<forall>s d. dget (fd_fences doc) (rf_key f) = Some (s, d) \<longrightarrow> s \<le> rf_sequence f \<and> (s = rf_sequence f \<longrightarrow> d = rf_digest f))"
  by (auto simp: fence_check_def claim_refused_def split: if_splits option.splits)

text \<open>What each action hands to the commit, when it hands on anything new.\<close>

lemma claim_action_Inr:
  assumes op: "claim_op event action fence" and act: "action clk doc w scope previous = Inr cur"
    and new: "\<not> (Some cur = previous \<and> fence = None)" and task: "\<And>p. previous = Some p \<Longrightarrow> tc_task_id p = rg_task_id scope"
  shows "event \<noteq> ''replayed'' \<and> tc_task_id cur = rg_task_id scope \<and>
    (if event = ''admitted''
     then tc_execution_id cur = rg_execution_id scope \<and> rg_execution_id scope \<notin> histories doc (rg_task_id scope) \<and>
       (case previous of
          None \<Rightarrow> journal_of doc (rg_task_id scope) = [] \<and> tc_generation cur = 1
        | Some p \<Rightarrow> tc_generation cur = tc_generation p + 1 \<and> tc_state p \<noteq> ''completed'')
     else \<exists>p. previous = Some p \<and> tc_generation cur = tc_generation p \<and> tc_execution_id cur = tc_execution_id p)"
  using op
proof cases
  case (co_admit lease_ms projected)
  then show ?thesis using claim_admit_Inr[of lease_ms projected clk doc w scope previous cur] act new
    by (auto split: option.splits)
next
  case (co_renew generation lease_ms)
  then show ?thesis using act task by (auto simp: claim_renew_def and_then_Inr claim_holder_Inr)
next
  case (co_release generation)
  then show ?thesis using act task by (auto simp: claim_release_def and_then_Inr claim_holder_Inr)
next
  case (co_complete generation result)
  have "\<exists>p. claim_holder (clk 0) scope generation previous = Inr p \<and> cur = p\<lparr>tc_state := ''completed'', tc_result := result\<rparr>"
    using act new co_complete
    by (cases previous)
       (auto simp: claim_complete_def Let_def and_then_Inr claim_identity_def claim_refused_def claim_stale_def split: if_splits)
  then show ?thesis using co_complete task by (auto simp: claim_holder_Inr)
next
  case co_result
  then obtain p r where "previous = Some p" "cur = p\<lparr>tc_result := r\<rparr>" using act unfolding result_only_def by blast
  then show ?thesis using co_result task by simp
qed

definition fence_step :: "renewal_fence option \<Rightarrow> fdoc \<Rightarrow> fdoc \<Rightarrow> bool" where
  "fence_step fence doc doc' \<longleftrightarrow>
     (case fence of
        None \<Rightarrow> fd_fences doc' = fd_fences doc
      | Some f \<Rightarrow> fd_fences doc' = dset (rf_key f) (rf_sequence f, rf_digest f) (fd_fences doc) \<and>
          (\<forall>s d. dget (fd_fences doc) (rf_key f) = Some (s, d) \<longrightarrow> s \<le> rf_sequence f \<and> (s = rf_sequence f \<longrightarrow> d = rf_digest f)))"

lemma claim_apply_parts:
  assumes "claim_apply clk event action fence scope doc w = Inr out"
  obtains cur where "action clk doc w scope (dget (fd_claims doc) (rg_task_id scope)) = Inr cur"
    "(if Some cur = dget (fd_claims doc) (rg_task_id scope) \<and> fence = None then Inr ((cur, False), doc)
      else case dget (fd_grants doc) (rg_grant_id scope) of
             None \<Rightarrow> Inl (Key_Error (rg_grant_id scope))
           | Some audit \<Rightarrow>
               and_then (claim_commit (clk 2) event (Some (gr_expires_at audit * 1000)) fence
                   (dget (fd_claims doc) (rg_task_id scope)) cur doc) (\<lambda>doc1. Inr ((cur, True), doc1))) = Inr out"
proof -
  have no: "\<not> (case dget (fd_claims doc) (rg_task_id scope) of None \<Rightarrow> False
      | Some p \<Rightarrow> journal_of doc (rg_task_id scope) = [] \<or> p \<noteq> snd (last (journal_of doc (rg_task_id scope))))"
  proof
    assume bad: "case dget (fd_claims doc) (rg_task_id scope) of None \<Rightarrow> False
      | Some p \<Rightarrow> journal_of doc (rg_task_id scope) = [] \<or> p \<noteq> snd (last (journal_of doc (rg_task_id scope)))"
    then show False using assms unfolding claim_apply_def Let_def if_P[OF bad] by (simp add: claim_refused_def)
  qed
  show ?thesis
    using assms that unfolding claim_apply_def Let_def if_not_P[OF no] and_then_Inr by blast
qed

lemma claim_apply_Inr:
  assumes op: "claim_op event action fence" and ok: "claims_ok doc"
    and ap: "claim_apply clk event action fence scope doc w = Inr ((cur, wr), doc')"
  shows "(\<not> wr \<and> doc' = doc \<and> dget (fd_claims doc) (rg_task_id scope) = Some cur) \<or>
    (wr \<and> tc_task_id cur = rg_task_id scope \<and> fd_claims doc' = dset (rg_task_id scope) cur (fd_claims doc) \<and>
     fence_step fence doc doc' \<and>
     (\<exists>extra. claim_event (dget (fd_claims doc) (rg_task_id scope)) cur (histories doc (rg_task_id scope)) extra \<and>
        (\<forall>t. journal_of doc' t = (if t = rg_task_id scope then journal_of doc t @ extra else journal_of doc t))))"
proof -
  define task where "task = rg_task_id scope"
  define previous where "previous = dget (fd_claims doc) task"
  have "task_ok task previous (journal_of doc task)" using ok unfolding claims_ok_def previous_def by blast
  then have at_task: "tc_task_id p = task" if "previous = Some p" for p
    using that by (simp add: task_ok_def)
  obtain cur0 where act: "action clk doc w scope previous = Inr cur0" and
    rest: "(if Some cur0 = previous \<and> fence = None then Inr ((cur0, False), doc)
          else case dget (fd_grants doc) (rg_grant_id scope) of
                 None \<Rightarrow> Inl (Key_Error (rg_grant_id scope))
               | Some audit \<Rightarrow>
                   and_then (claim_commit (clk 2) event (Some (gr_expires_at audit * 1000)) fence previous cur0 doc)
                     (\<lambda>doc1. Inr ((cur0, True), doc1))) = Inr ((cur, wr), doc')"
    by (rule claim_apply_parts[OF ap, folded task_def, folded previous_def]) (rule that)
  show ?thesis
  proof (cases "Some cur0 = previous \<and> fence = None")
    case True
    then show ?thesis using rest unfolding previous_def task_def by auto
  next
    case False
    then obtain audit :: grant_audit where cm: "claim_commit (clk 2) event (Some (gr_expires_at audit * 1000)) fence previous cur doc = Inr doc'"
      and cur0: "cur0 = cur" "wr"
      using rest unfolding if_not_P[OF False] by (cases "dget (fd_grants doc) (rg_grant_id scope)") (auto simp: and_then_Inr)
    note a = claim_action_Inr[OF op act False at_task[unfolded task_def], unfolded cur0(1)]
    obtain doc1 where d1: "(fence = None \<and> doc1 = doc) \<or> (\<exists>f. fence = Some f \<and> fence_check f doc = Inr doc1)"
      and d': "doc' = claim_record event previous cur doc1"
      and ev: "event = ''admitted'' \<or> event = ''replayed'' \<or> (\<exists>p. previous = Some p \<and> tc_state p = ''active'' \<and> clk 2 < tc_lease_deadline_ms p)"
      by (rule claim_commit_Inr[OF cm]) (rule that)
    have same: "fd_claims doc1 = fd_claims doc" "journal_of doc1 t = journal_of doc t" for t
      using d1 by (auto dest!: fence_check_Inr simp: journal_of_def)
    have fs: "fence_step fence doc doc'"
      using d1 unfolding d' fence_step_def by (auto simp: claim_record_fields dest!: fence_check_Inr)
    define extra where "extra = (case previous of None \<Rightarrow> [] | Some p \<Rightarrow> if event = ''admitted'' \<and> tc_state p = ''active''
           then [(''fenced'', p\<lparr>tc_state := ''fenced''\<rparr>)] else []) @ [(event, cur)]"
    have j: "journal_of doc' t = (if t = task then journal_of doc t @ extra else journal_of doc t)" for t
      using a unfolding d' claim_record_fields same extra_def task_def by (cases "event = ''replayed''") auto
    have cl: "fd_claims doc' = dset task cur (fd_claims doc)"
      using a unfolding d' claim_record_fields same task_def by simp
    have "claim_event previous cur (histories doc task) extra"
    proof (cases "event = ''admitted''")
      case True
      show ?thesis
      proof (cases previous)
        case None
        then show ?thesis using a True unfolding extra_def by (auto intro: ce_first)
      next
        case (Some p)
        have "claim_event (Some p) cur (histories doc task)
            ((if tc_state p = ''active'' then [(''fenced'', p\<lparr>tc_state := ''fenced''\<rparr>)] else []) @ [(''admitted'', cur)])"
          by (rule ce_next) (use a True Some task_def in auto)
        then show ?thesis using Some True unfolding extra_def by simp
      qed
    next
      case not: False
      then obtain p where p: "previous = Some p" "tc_generation cur = tc_generation p" "tc_execution_id cur = tc_execution_id p"
        using a by auto
      have "tc_state p = ''active''" using ev p not a by auto
      then show ?thesis using p not unfolding extra_def by (auto intro: ce_holder)
    qed
    then show ?thesis using a cur0(2) cl fs j unfolding previous_def task_def by blast
  qed
qed

section \<open>Runs\<close>

text \<open>
  What happens to the claims, journals and fences of a document: an action of the authority under any
  credential at any time, a replay, and whatever leaves the three alone. The restoring of a snapshot
  (\<open>fencing_replace\<close>), which puts another document in place of this one, is not among the steps.
\<close>

inductive authority_step :: "fdoc \<Rightarrow> fdoc \<Rightarrow> bool" where
  as_write: "claim_op event action fence \<Longrightarrow> claim_apply clk event action fence scope doc w = Inr (out, doc') \<Longrightarrow>
    authority_step doc doc'"
| as_replay: "replay_apply now task doc = Inr (out, doc') \<Longrightarrow> authority_step doc doc'"
| as_other: "fd_claims doc' = fd_claims doc \<Longrightarrow> fd_journals doc' = fd_journals doc \<Longrightarrow> fd_fences doc' = fd_fences doc \<Longrightarrow>
    authority_step doc doc'"

abbreviation authority_run :: "fdoc \<Rightarrow> fdoc \<Rightarrow> bool" where
  "authority_run \<equiv> authority_step\<^sup>*\<^sup>*"

lemma task_ok_event:
  assumes ok: "task_ok task previous rows" and ev: "claim_event previous cur seen extra" and task: "tc_task_id cur = task"
    and seen: "\<And>entry. entry \<in> set rows \<Longrightarrow> tc_execution_id (snd entry) \<in> seen"
  shows "task_ok task (Some cur) (rows @ extra)"
  using ev
proof cases
  case ce_first
  then show ?thesis using ok task unfolding task_ok_def
    by (simp add: reconstruct_def admissions_def)
next
  case (ce_next p)
  have new: "tc_execution_id cur \<notin> set (admissions rows)" using ce_next seen admissions_subset by fastforce
  have r: "reconstruct rows = Inr (Some p)" using ok ce_next unfolding task_ok_def by simp
  then have "reconstruct (rows @ extra) = Inr (Some cur)"
    using ce_next by (auto simp: reconstruct_def reconstruct_from_append)
  then show ?thesis using ok task new ce_next unfolding task_ok_def by (auto simp: admissions_def)
next
  case (ce_holder p event)
  have r: "reconstruct rows = Inr (Some p)" using ok ce_holder unfolding task_ok_def by simp
  then have "reconstruct (rows @ extra) = Inr (Some cur)"
    using ce_holder by (auto simp: reconstruct_def reconstruct_from_append)
  then show ?thesis using ok task ce_holder unfolding task_ok_def by (auto simp: admissions_def)
qed

lemma replay_apply_ok:
  assumes ok: "claims_ok doc" and r: "replay_apply now task doc = Inr (out, doc')"
  shows "out = dget (fd_claims doc) task \<and> dget (fd_claims doc') = dget (fd_claims doc) \<and>
    journal_of doc' = journal_of doc \<and> fd_fences doc' = fd_fences doc"
proof -
  have t: "task_ok task (dget (fd_claims doc) task) (journal_of doc task)" using ok by (simp add: claims_ok_def)
  then have rec: "reconstruct (journal_of doc task) = Inr (dget (fd_claims doc) task)" by (simp add: task_ok_def)
  show ?thesis
  proof (cases "dget (fd_claims doc) task")
    case None
    then show ?thesis using r rec by (simp add: replay_apply_def)
  next
    case (Some p)
    have "tc_task_id p = task" using t Some by (simp add: task_ok_def)
    then show ?thesis using r rec Some
      by (auto simp: replay_apply_def claim_commit_def commit_refusal_def claim_record_fields dget_dset fun_eq_iff)
  qed
qed

lemma authority_step_ok:
  assumes "authority_step doc doc'" "claims_ok doc"
  shows "claims_ok doc'"
  using assms(1)
proof cases
  case (as_write event action fence clk scope w out)
  obtain cur wr where out: "out = (cur, wr)" by fastforce
  from claim_apply_Inr[OF as_write(1) assms(2) as_write(2)[unfolded out]] show ?thesis
  proof
    assume a: "wr \<and> tc_task_id cur = rg_task_id scope \<and> fd_claims doc' = dset (rg_task_id scope) cur (fd_claims doc) \<and>
     fence_step fence doc doc' \<and>
     (\<exists>extra. claim_event (dget (fd_claims doc) (rg_task_id scope)) cur (histories doc (rg_task_id scope)) extra \<and>
        (\<forall>t. journal_of doc' t = (if t = rg_task_id scope then journal_of doc t @ extra else journal_of doc t)))"
    then obtain extra where ev: "claim_event (dget (fd_claims doc) (rg_task_id scope)) cur (histories doc (rg_task_id scope)) extra"
      and j: "\<And>t. journal_of doc' t = (if t = rg_task_id scope then journal_of doc t @ extra else journal_of doc t)" by blast
    show ?thesis unfolding claims_ok_def
    proof
      fix t
      have old: "task_ok t (dget (fd_claims doc) t) (journal_of doc t)" using assms(2) by (simp add: claims_ok_def)
      show "task_ok t (dget (fd_claims doc') t) (journal_of doc' t)"
      proof (cases "t = rg_task_id scope")
        case True
        then show ?thesis using task_ok_event[OF old[unfolded True] ev] a j by (auto simp: dget_dset histories_def)
      next
        case False
        then show ?thesis using old a j by (simp add: dget_dset)
      qed
    qed
  qed (use assms(2) in simp)
next
  case (as_replay now task out)
  then show ?thesis using replay_apply_ok[OF assms(2)] assms(2) by (auto simp: claims_ok_def)
next
  case as_other
  then show ?thesis using assms(2) by (simp add: claims_ok_def journal_of_def)
qed

lemma authority_run_ok: "authority_run doc doc' \<Longrightarrow> claims_ok doc \<Longrightarrow> claims_ok doc'"
  by (induction rule: rtranclp_induct) (auto intro: authority_step_ok)

text \<open>A document no claim was ever made in.\<close>

lemma fresh_claims_ok: "fd_claims doc = [] \<Longrightarrow> fd_journals doc = [] \<Longrightarrow> claims_ok doc"
  by (simp add: claims_ok_def task_ok_def journal_of_def reconstruct_def admissions_def)

text \<open>How the claim of a task moves on in a step.\<close>

lemma authority_step_claim:
  assumes "authority_step doc doc'" "claims_ok doc" "dget (fd_claims doc) task = Some p"
  shows "\<exists>p'. dget (fd_claims doc') task = Some p' \<and> tc_generation p \<le> tc_generation p' \<and>
    (tc_generation p = tc_generation p' \<longrightarrow> tc_execution_id p = tc_execution_id p') \<and>
    (tc_state p = ''completed'' \<longrightarrow> p' = p)"
  using assms(1)
proof cases
  case (as_write event action fence clk scope w out)
  obtain cur wr where out: "out = (cur, wr)" by fastforce
  note ap = as_write(2)[unfolded out]
  show ?thesis
  proof (cases "task = rg_task_id scope")
    case True
    from claim_apply_Inr[OF as_write(1) assms(2) ap] show ?thesis
    proof
      assume a: "wr \<and> tc_task_id cur = rg_task_id scope \<and> fd_claims doc' = dset (rg_task_id scope) cur (fd_claims doc) \<and>
       fence_step fence doc doc' \<and>
       (\<exists>extra. claim_event (dget (fd_claims doc) (rg_task_id scope)) cur (histories doc (rg_task_id scope)) extra \<and>
          (\<forall>t. journal_of doc' t = (if t = rg_task_id scope then journal_of doc t @ extra else journal_of doc t)))"
      have "tc_state p \<noteq> ''completed''"
      proof
        assume c: "tc_state p = ''completed''"
        obtain extra where "claim_event (Some p) cur (histories doc (rg_task_id scope)) extra"
          using a assms(3) True by auto
        then show False using c by cases auto
      qed
      moreover have "tc_generation p \<le> tc_generation cur \<and>
          (tc_generation p = tc_generation cur \<longrightarrow> tc_execution_id p = tc_execution_id cur)"
      proof -
        obtain extra where "claim_event (Some p) cur (histories doc (rg_task_id scope)) extra"
          using a assms(3) True by auto
        then show ?thesis by cases auto
      qed
      ultimately show ?thesis using a True by (auto simp: dget_dset)
    qed (use assms(3) True in auto)
  next
    case False
    from claim_apply_Inr[OF as_write(1) assms(2) ap] show ?thesis
      using False assms(3) by (auto simp: dget_dset)
  qed
next
  case (as_replay now task' out)
  then show ?thesis using replay_apply_ok[OF assms(2)] assms(3) by auto
next
  case as_other
  then show ?thesis using assms(3) by simp
qed

lemma authority_run_claim:
  assumes "authority_run doc doc'" "claims_ok doc" "dget (fd_claims doc) task = Some p"
  shows "\<exists>p'. dget (fd_claims doc') task = Some p' \<and> tc_generation p \<le> tc_generation p' \<and>
    (tc_generation p = tc_generation p' \<longrightarrow> tc_execution_id p = tc_execution_id p') \<and>
    (tc_state p = ''completed'' \<longrightarrow> p' = p)"
  using assms(1)
proof (induction rule: rtranclp_induct)
  case base
  then show ?case using assms(3) by simp
next
  case (step d d')
  then obtain q where q: "dget (fd_claims d) task = Some q" "tc_generation p \<le> tc_generation q"
    "tc_generation p = tc_generation q \<longrightarrow> tc_execution_id p = tc_execution_id q" "tc_state p = ''completed'' \<longrightarrow> q = p" by blast
  have "claims_ok d" by (rule authority_run_ok[OF step.hyps(1) assms(2)])
  from authority_step_claim[OF step.hyps(2) this q(1)] q show ?case by fastforce
qed

section \<open>The promises\<close>

text \<open>
  C4: claims follow their journals. Whatever admissions, renewals, releases, completions and replays
  happened to a swarm's tasks, the journal of a task replays without a conflict to exactly the
  stored claim, which is its last entry; its generation is the number of admissions the journal
  holds; and no execution was admitted to the task twice.
\<close>

theorem claims_follow_journals:
  assumes "authority_run doc0 doc" and "fd_claims doc0 = []" and "fd_journals doc0 = []"
  shows "reconstruct (journal_of doc task) = Inr (dget (fd_claims doc) task) \<and>
    distinct (admissions (journal_of doc task)) \<and>
    (case dget (fd_claims doc) task of
       None \<Rightarrow> journal_of doc task = []
     | Some p \<Rightarrow> tc_task_id p = task \<and> tc_generation p = int (length (admissions (journal_of doc task))) \<and>
         snd (last (journal_of doc task)) = p)"
proof -
  have "claims_ok doc" by (rule authority_run_ok[OF assms(1) fresh_claims_ok[OF assms(2,3)]])
  then have "task_ok task (dget (fd_claims doc) task) (journal_of doc task)" by (simp add: claims_ok_def)
  then show ?thesis by (auto simp: task_ok_def split: option.splits)
qed

text \<open>
  C5: a holder that lost its task is shut out for good. Once a task was claimed at a generation above
  \<open>g\<close>, every renewal, release or completion under \<open>g\<close> is refused as stale from then on, whatever
  happens, under whatever credential it is tried, and the refusal leaves the document alone.
\<close>

theorem stale_holder_shut_out:
  assumes "authority_run doc0 doc" and "fd_claims doc0 = []" and "fd_journals doc0 = []" and "authority_run doc doc'"
    and "dget (fd_claims doc) (rg_task_id scope) = Some p" and "1 \<le> g" and "g < tc_generation p"
    and "action \<in> {claim_renew g lease_ms, claim_release g, claim_complete g result}"
  shows "claim_apply clk event action fence scope doc' w = claim_stale"
proof -
  have ok: "claims_ok doc" by (rule authority_run_ok[OF assms(1) fresh_claims_ok[OF assms(2,3)]])
  then have ok': "claims_ok doc'" by (rule authority_run_ok[OF assms(4)])
  obtain q where q: "dget (fd_claims doc') (rg_task_id scope) = Some q" "g < tc_generation q"
    using authority_run_claim[OF assms(4) ok assms(5)] assms(7) by fastforce
  have "task_ok (rg_task_id scope) (Some q) (journal_of doc' (rg_task_id scope))"
    using ok' q(1) unfolding claims_ok_def by metis
  then have j: "journal_of doc' (rg_task_id scope) \<noteq> []" "snd (last (journal_of doc' (rg_task_id scope))) = q"
    by (simp_all add: task_ok_def)
  have id: "claim_identity scope g (Some q) = claim_stale" using q(2) assms(6) by (simp add: claim_identity_def)
  have "action clk doc' w scope (Some q) = claim_stale"
    using assms(8) by (auto simp: claim_renew_def claim_release_def claim_complete_def claim_holder_def id claim_stale_def)
  then show ?thesis using q(1) j unfolding claim_apply_def Let_def by (simp add: claim_stale_def)
qed

text \<open>C6: completion is final. A completed claim is never renewed, released, taken over or rewritten.\<close>

theorem completed_is_final:
  assumes "authority_run doc0 doc" and "fd_claims doc0 = []" and "fd_journals doc0 = []" and "authority_run doc doc'"
    and "dget (fd_claims doc) task = Some p" and "tc_state p = ''completed''"
  shows "dget (fd_claims doc') task = Some p"
  using authority_run_claim[OF assms(4) authority_run_ok[OF assms(1) fresh_claims_ok[OF assms(2,3)]] assms(5)] assms(6)
  by auto

text \<open>
  C7: renewals of a worker take effect in order. The sequence recorded under a fence key never goes
  back, and at the same sequence the digest never changes.
\<close>

theorem fence_never_back:
  assumes "authority_run doc0 doc" and "fd_claims doc0 = []" and "fd_journals doc0 = []" and "authority_run doc doc'"
    and "dget (fd_fences doc) key = Some (s, d)"
  shows "\<exists>s' d'. dget (fd_fences doc') key = Some (s', d') \<and> s \<le> s' \<and> (s = s' \<longrightarrow> d' = d)"
  using assms(4)
proof (induction rule: rtranclp_induct)
  case base
  then show ?case using assms(5) by simp
next
  case (step x y)
  then obtain s1 d1 where i: "dget (fd_fences x) key = Some (s1, d1)" "s \<le> s1" "s = s1 \<longrightarrow> d1 = d" by blast
  have okx: "claims_ok x"
    using authority_run_ok[OF step.hyps(1) authority_run_ok[OF assms(1) fresh_claims_ok[OF assms(2,3)]]] .
  have "\<exists>s2 d2. dget (fd_fences y) key = Some (s2, d2) \<and> s1 \<le> s2 \<and> (s1 = s2 \<longrightarrow> d2 = d1)"
    using step.hyps(2)
  proof cases
    case (as_write event action fence clk scope w out)
    obtain cur wr where out: "out = (cur, wr)" by fastforce
    have "y = x \<or> fence_step fence x y" using claim_apply_Inr[OF as_write(1) okx as_write(2)[unfolded out]] by blast
    then show ?thesis using i(1) by (auto simp: fence_step_def dget_dset split: option.splits if_splits)
  next
    case (as_replay now task out)
    then show ?thesis using replay_apply_ok[OF okx] i(1) by auto
  next
    case as_other
    then show ?thesis using i(1) by simp
  qed
  then show ?case using i by fastforce
qed

text \<open>
  A live claim keeps everyone else out. While a task's claim is active and unexpired, an admission
  under another execution is refused, and one under the same execution returns the claim as it is.
\<close>

theorem live_claim_excludes:
  assumes "dget (fd_claims doc) (rg_task_id scope) = Some p" and "tc_state p = ''active''"
    and "clk 0 < tc_lease_deadline_ms p" and "claims_ok doc"
  shows "claim_apply clk ''admitted'' (claim_admit lease_ms projected) None scope doc w =
    (if tc_execution_id p = rg_execution_id scope then Inr ((p, False), doc) else Inl (Swarm_Error ''claim_held''))"
proof -
  have "task_ok (rg_task_id scope) (Some p) (journal_of doc (rg_task_id scope))"
    using assms(4,1) unfolding claims_ok_def by metis
  then show ?thesis using assms(1-3)
    by (simp add: claim_apply_def claim_admit_def Let_def task_ok_def claim_refused_def)
qed

end
