(* ===== verification/Authority_Witness.thy ===== *)
theory Authority_Witness
  imports Authority_Laws
begin

text \<open>
  The promises of the task authority at concrete inputs: two executions take the task \<open>t\<close> one after
  the other, and the second completes it.
\<close>

definition at_world :: fworld where
  "at_world = \<lparr>fw_states = empty_store, fw_counters = empty_store, fw_now = 5\<rparr>"

definition at_scope :: "string \<Rightarrow> registration" where
  "at_scope exe = \<lparr>rg_grant_id = ''lgr'', rg_swarm_id = ''s'', rg_execution_id = exe, rg_generation = 1,
     rg_seat_id = ''eng@s'', rg_task_id = ''t'', rg_account = ''a'', rg_brain_id = ''b'', rg_project_ids = [],
     rg_issuer = ''i'', rg_audience = ''u'', rg_key_id = ''k'', rg_registered_at = 1\<rparr>"

definition at_doc :: fdoc where
  "at_doc = empty_doc\<lparr>fd_executions := [(''e1'', new_agent ''n1'' ''eng'' ''t''), (''e2'', new_agent ''n2'' ''eng'' ''t'')],
     fd_grants := [(''lgr'', \<lparr>gr_grant_id = ''lgr'', gr_issuer = ''i'', gr_audience = ''u'', gr_key_id = ''k'',
       gr_execution_id = ''e1'', gr_generation = 1, gr_issued_at = 0, gr_expires_at = 1000, gr_state = ''registered'', gr_renewals = None\<rparr>)]\<rparr>"

definition at_claim :: "string \<Rightarrow> string \<Rightarrow> int \<Rightarrow> string \<Rightarrow> task_claim" where
  "at_claim exe name g state = \<lparr>tc_task_id = ''t'', tc_holder = name, tc_generation = g, tc_execution_id = exe,
     tc_execution_generation = 1, tc_lease_deadline_ms = 105, tc_state = state, tc_result = []\<rparr>"

definition at_with :: "journal_entry list \<Rightarrow> fdoc" where
  "at_with rows = at_doc\<lparr>fd_claims := [(''t'', snd (last rows))], fd_journals := [(''t'', rows)]\<rparr>"

definition at_rows :: "nat \<Rightarrow> journal_entry list" where
  "at_rows n = take n [(''admitted'', at_claim ''e1'' ''n1'' 1 ''active''), (''released'', at_claim ''e1'' ''n1'' 1 ''released''),
     (''admitted'', at_claim ''e2'' ''n2'' 2 ''active''), (''completed'', at_claim ''e2'' ''n2'' 2 ''completed'')]"

lemmas at_defs = Let_def at_world_def at_scope_def at_doc_def at_claim_def at_with_def at_rows_def empty_doc_def
  claim_apply_def claim_admit_def claim_release_def claim_complete_def claim_renew_def claim_holder_def claim_identity_def
  claim_execution_def execution_row_def claim_commit_def commit_refusal_def claim_record_def journal_of_def new_agent_def fence_check_def

lemma at_step1: "claim_apply (\<lambda>_. 5) ''admitted'' (claim_admit 100 None) None (at_scope ''e1'') at_doc at_world =
    Inr ((at_claim ''e1'' ''n1'' 1 ''active'', True), at_with (at_rows 1))"
  by (simp add: at_defs)

lemma at_step2: "claim_apply (\<lambda>_. 5) ''released'' (claim_release 1) None (at_scope ''e1'') (at_with (at_rows 1)) at_world =
    Inr ((at_claim ''e1'' ''n1'' 1 ''released'', True), at_with (at_rows 2))"
  by (simp add: at_defs)

lemma at_step3: "claim_apply (\<lambda>_. 5) ''admitted'' (claim_admit 100 None) None (at_scope ''e2'') (at_with (at_rows 2)) at_world =
    Inr ((at_claim ''e2'' ''n2'' 2 ''active'', True), at_with (at_rows 3))"
  by (simp add: at_defs)

lemma at_step4: "claim_apply (\<lambda>_. 5) ''completed'' (claim_complete 2 []) None (at_scope ''e2'') (at_with (at_rows 3)) at_world =
    Inr ((at_claim ''e2'' ''n2'' 2 ''completed'', True), at_with (at_rows 4))"
  by (simp add: at_defs)

lemma at_run3: "authority_run at_doc (at_with (at_rows 3))"
proof -
  have "authority_step at_doc (at_with (at_rows 1))" by (rule as_write[OF co_admit at_step1])
  moreover have "authority_step (at_with (at_rows 1)) (at_with (at_rows 2))" by (rule as_write[OF co_release at_step2])
  moreover have "authority_step (at_with (at_rows 2)) (at_with (at_rows 3))" by (rule as_write[OF co_admit at_step3])
  ultimately show ?thesis by (blast intro: rtranclp.intros)
qed

lemma at_run4: "authority_run (at_with (at_rows 3)) (at_with (at_rows 4))"
  by (rule r_into_rtranclp, rule as_write[OF co_complete at_step4])

lemma at_fresh: "fd_claims at_doc = []" "fd_journals at_doc = []"
  by (simp_all add: at_doc_def empty_doc_def)

lemma at_claims:
  "dget (fd_claims (at_with (at_rows 3))) ''t'' = Some (at_claim ''e2'' ''n2'' 2 ''active'')"
  "dget (fd_claims (at_with (at_rows 4))) ''t'' = Some (at_claim ''e2'' ''n2'' 2 ''completed'')"
  by (simp_all add: at_with_def at_rows_def)

lemma claims_follow_journals_witness:
  "reconstruct (at_rows 3) = Inr (Some (at_claim ''e2'' ''n2'' 2 ''active''))"
  using claims_follow_journals[OF at_run3 at_fresh, of "''t''"] at_claims(1) by (simp add: journal_of_def at_with_def)

lemma stale_holder_shut_out_witness:
  "claim_apply (\<lambda>_. 5) ''renewed'' (claim_renew 1 100) None (at_scope ''e1'') (at_with (at_rows 4)) at_world = claim_stale"
  by (rule stale_holder_shut_out[OF at_run3 at_fresh at_run4, where p = "at_claim ''e2'' ''n2'' 2 ''active''" and g = 1
      and lease_ms = 100 and result = "[]"])
    (use at_claims(1) in \<open>simp_all add: at_scope_def at_claim_def\<close>)

lemma completed_is_final_witness:
  "dget (fd_claims (at_with (at_rows 4))) ''t'' = Some (at_claim ''e2'' ''n2'' 2 ''completed'')"
  by (rule completed_is_final[OF rtranclp_trans[OF at_run3 at_run4] at_fresh rtranclp.rtrancl_refl at_claims(2)])
    (simp add: at_claim_def)

lemma at_step5: "claim_apply (\<lambda>_. 6) ''renewed'' (claim_renew 2 99) (Some \<lparr>rf_key = ''k'', rf_sequence = 3, rf_digest = ''d''\<rparr>)
    (at_scope ''e2'') (at_with (at_rows 3)) at_world =
    Inr ((at_claim ''e2'' ''n2'' 2 ''active'', True),
      (at_with (at_rows 3 @ [(''renewed'', at_claim ''e2'' ''n2'' 2 ''active'')]))\<lparr>fd_fences := [(''k'', (3, ''d''))]\<rparr>)"
  by (simp add: at_defs)

definition at_fenced :: fdoc where
  "at_fenced = (at_with (at_rows 3 @ [(''renewed'', at_claim ''e2'' ''n2'' 2 ''active'')]))\<lparr>fd_fences := [(''k'', (3, ''d''))]\<rparr>"

lemma fence_never_back_witness:
  "\<exists>s' d'. dget (fd_fences at_fenced) ''k'' = Some (s', d') \<and> 3 \<le> s' \<and> (3 = s' \<longrightarrow> d' = ''d'')"
proof -
  have "authority_step (at_with (at_rows 3)) at_fenced" by (rule as_write[OF co_renew at_step5[folded at_fenced_def]])
  then have run: "authority_run at_doc at_fenced" by (rule rtranclp.rtrancl_into_rtrancl[OF at_run3])
  have "dget (fd_fences at_fenced) ''k'' = Some (3, ''d'')" by (simp add: at_fenced_def)
  from fence_never_back[OF run at_fresh rtranclp.rtrancl_refl this] show ?thesis .
qed

lemma live_claim_excludes_witness:
  "claim_apply (\<lambda>_. 5) ''admitted'' (claim_admit 100 None) None (at_scope ''e9'') (at_with (at_rows 3)) at_world =
    Inl (Swarm_Error ''claim_held'')"
proof -
  have ok: "claims_ok (at_with (at_rows 3))" by (rule authority_run_ok[OF at_run3 fresh_claims_ok[OF at_fresh]])
  have "rg_task_id (at_scope ''e9'') = ''t''" by (simp add: at_scope_def)
  from live_claim_excludes[of "at_with (at_rows 3)" "at_scope ''e9''", unfolded this, OF at_claims(1) _ _ ok]
  show ?thesis by (simp add: at_claim_def at_scope_def)
qed

end
