(* ===== verification/Operations.thy ===== *)
theory Operations
  imports Authority
begin

text \<open>
  Runtime operations (\<open>scripts/swarm_v2/runtime/operations.py\<close>): the journal of operations in the
  fencing document, and \<open>Operations\<close>, which writes an operation down before it hands it to a
  transport and settles it from what the transport observes. The identity of an operation (a name
  based UUID) and the digest of its payload are parameters, and so are the transports: a transport
  answers an observation, or raises.
\<close>

section \<open>Requests and observations\<close>

record op_request =
  rq_execution_id :: string
  rq_generation :: int
  rq_action :: string
  rq_payload :: jdict
  rq_key :: string

text \<open>
  \<open>ob_phase\<close> is \<open>None\<close> for a phase that is no member of \<open>Phase\<close>, \<open>ob_generation\<close> for a generation
  that is no \<open>int\<close>.
\<close>

record observation =
  ob_phase :: "phase option"
  ob_execution_id :: string
  ob_generation :: "int option"
  ob_backend :: string
  ob_payload_digest :: string
  ob_result :: jdict
  ob_refusal :: jdict

definition observed_only :: "phase \<Rightarrow> observation" where
  "observed_only p = \<lparr>ob_phase = Some p, ob_execution_id = '''', ob_generation = Some 0, ob_backend = '''',
     ob_payload_digest = '''', ob_result = [], ob_refusal = []\<rparr>"

definition op_actions :: "string list" where
  "op_actions = [''spawn'', ''command'', ''drain'', ''terminate'', ''recover'']"

definition op_error :: "string \<Rightarrow> fault + 'a" where
  "op_error msg = Inl (Operation_Conflict msg)"

definition settled_phase :: "phase \<Rightarrow> bool" where
  "settled_phase p \<longleftrightarrow> p = Applied \<or> p = Superseded"

section \<open>The journal\<close>

definition op_current :: "string \<Rightarrow> int \<Rightarrow> fdoc \<Rightarrow> fworld \<Rightarrow> fault + agent_record" where
  "op_current execution_id generation doc w =
    and_then (execution_row doc w execution_id) (\<lambda>row.
      case row of
        None \<Rightarrow> op_error ''execution is not admitted''
      | Some agent \<Rightarrow>
          (case dget (occupants_of doc) (ag_seat agent) of
            None \<Rightarrow> op_error ''execution generation is stale''
          | Some occupant \<Rightarrow>
              if (ag_execution_id occupant, ag_generation occupant) \<noteq> (execution_id, generation)
              then op_error ''execution generation is stale'' else Inr occupant))"

definition op_get :: "fdoc \<Rightarrow> string \<Rightarrow> operation option" where
  "op_get doc operation_id = dget (fd_operations doc) operation_id"

text \<open>What two operations have to share to be the same one, whatever became of them.\<close>

definition op_blank :: "operation \<Rightarrow> operation" where
  "op_blank operation = operation\<lparr>op_phase := Accepted, op_result := [], op_attempted := False, op_refusal := []\<rparr>"

definition prepare_create ::
  "int option \<Rightarrow> string \<Rightarrow> string \<Rightarrow> (string, string) dict \<Rightarrow> op_request \<Rightarrow> fdoc \<Rightarrow> fworld \<Rightarrow> fault + operation" where
  "prepare_create epoch operation_id payload_digest specs request doc w =
    and_then (op_current (rq_execution_id request) (rq_generation request) doc w) (\<lambda>agent.
      let expected = \<lparr>op_operation_id = operation_id, op_execution_id = ag_execution_id agent,
            op_generation = ag_generation agent, op_action = rq_action request, op_backend = ag_runtime_backend agent,
            op_payload_digest = payload_digest, op_target = ag_runtime_target agent, op_phase = Accepted, op_result = [],
            op_controller_epoch = epoch, op_attempted = False,
            op_spec_digest = (case dget specs (ag_runtime_backend agent) of None \<Rightarrow> '''' | Some d \<Rightarrow> d), op_refusal = []\<rparr>
      in case op_get doc operation_id of
           None \<Rightarrow> Inr expected
         | Some previous \<Rightarrow>
             if (op_blank previous)\<lparr>op_spec_digest := ''''\<rparr>
                  \<noteq> expected\<lparr>op_controller_epoch := op_controller_epoch previous, op_spec_digest := ''''\<rparr>
             then op_error ''operation identity conflicts with payload or execution scope''
             else if dhas specs (ag_runtime_backend agent) \<and> op_spec_digest previous \<notin> {'''', op_spec_digest expected}
             then op_error ''operation spec changed since it was journaled''
             else Inr previous)"

definition settle_row :: "observation \<Rightarrow> bool \<Rightarrow> operation \<Rightarrow> operation" where
  "settle_row obs attempted current =
    (let seen = (case ob_phase obs of None \<Rightarrow> Refused | Some p \<Rightarrow> p);
         ph = (if seen = Absent then Accepted else seen)
     in current\<lparr>op_phase := ph, op_result := (if ph = Applied then ob_result obs else []),
          op_attempted := (op_attempted current \<or> attempted) \<and> (ph = Unknown \<or> ph = Applied),
          op_refusal := (if ph = Applied then [] else if ph = Refused then ob_refusal obs else op_refusal current)\<rparr>)"

definition settle_update :: "operation \<Rightarrow> observation \<Rightarrow> bool \<Rightarrow> fdoc \<Rightarrow> fworld \<Rightarrow> fault + operation" where
  "settle_update operation obs attempted doc w =
    and_then (op_current (op_execution_id operation) (op_generation operation) doc w) (\<lambda>agent.
      if ag_runtime_backend agent \<noteq> op_backend operation \<or> ag_runtime_target agent \<noteq> op_target operation
      then op_error ''operation target changed''
      else case op_get doc (op_operation_id operation) of
             None \<Rightarrow> op_error ''operation journal entry is missing''
           | Some current \<Rightarrow>
               if op_blank current \<noteq> op_blank operation then op_error ''operation identity changed''
               else if settled_phase (op_phase current) then Inr current
               else Inr (settle_row obs attempted current))"

definition supersede_update :: "operation \<Rightarrow> fdoc \<Rightarrow> fworld \<Rightarrow> fault + operation" where
  "supersede_update operation doc w =
    and_then (op_current (op_execution_id operation) (op_generation operation) doc w) (\<lambda>_.
      if op_get doc (op_operation_id operation) \<noteq> Some operation then op_error ''operation identity changed''
      else if op_backend operation \<noteq> ''kubernetes'' \<or> op_action operation \<noteq> ''spawn'' \<or> op_spec_digest operation \<noteq> '''' \<or>
        settled_phase (op_phase operation)
      then Inr operation
      else Inr (operation\<lparr>op_phase := Superseded, op_result := [(''reason'', JStr ''missing_spec_digest'')]\<rparr>))"

definition op_commit :: "(fdoc \<Rightarrow> fworld \<Rightarrow> fault + operation) \<Rightarrow> operation fchange" where
  "op_commit change doc w =
    (case change doc w of
      Inl e \<Rightarrow> (Inl e, w)
    | Inr operation \<Rightarrow>
        (Inr (operation, doc\<lparr>fd_operations := dset (op_operation_id operation) operation (fd_operations doc)\<rparr>), w))"

text \<open>
  The setting of an \<open>Operations\<close>: the document, the epoch the work runs under, the two digests,
  what other writers do, and the transports with whether dispatch is enabled.
\<close>

record op_env =
  oe_ctx :: fctx
  oe_moved :: "fault + operation"
  oe_epoch :: "int option"
  oe_id :: "string \<Rightarrow> string \<Rightarrow> string \<Rightarrow> string"
  oe_digest :: "string \<Rightarrow> jdict \<Rightarrow> string"
  oe_others :: "(fworld \<Rightarrow> fworld) list"

definition journal_write :: "op_env \<Rightarrow> (fdoc \<Rightarrow> fworld \<Rightarrow> fault + operation) \<Rightarrow> fworld \<Rightarrow> (fault + operation) \<times> fworld" where
  "journal_write oe change w =
    (case lease_fenced (oe_ctx oe) (oe_moved oe) (map_option By_Epoch (oe_epoch oe)) (op_commit change) (oe_others oe) w of
      (Inl e, w1) \<Rightarrow>
        (if e = contention then op_error ''operation journal kept changing; no outcome committed'' else Inl e, w1)
    | out \<Rightarrow> out)"

definition journal_prepare :: "op_env \<Rightarrow> (string, string) dict \<Rightarrow> op_request \<Rightarrow> fworld \<Rightarrow> (fault + operation) \<times> fworld" where
  "journal_prepare oe specs request w =
    (if rq_execution_id request = '''' \<or> rq_key request = '''' \<or> rq_action request \<notin> set op_actions
     then (op_error ''invalid operation identity or action'', w)
     else if rq_generation request < 1 then (op_error ''invalid execution generation'', w)
     else let key = (if rq_action request = ''spawn'' then ''spawn'' else rq_key request);
              operation_id = ''op-'' @ oe_id oe (fx_slug (oe_ctx oe)) (rq_execution_id request) key
          in journal_write oe (prepare_create (oe_epoch oe) operation_id
               (oe_digest oe (rq_action request) (rq_payload request)) specs request) w)"

definition journal_settle :: "op_env \<Rightarrow> operation \<Rightarrow> observation \<Rightarrow> bool \<Rightarrow> fworld \<Rightarrow> (fault + operation) \<times> fworld" where
  "journal_settle oe operation obs attempted w = journal_write oe (settle_update operation obs attempted) w"

definition journal_supersede :: "op_env \<Rightarrow> operation \<Rightarrow> fworld \<Rightarrow> (fault + operation) \<times> fworld" where
  "journal_supersede oe operation w = journal_write oe (supersede_update operation) w"

section \<open>Carrying out an operation\<close>

text \<open>
  A transport observes or applies in a world of its own; \<open>tr_spec\<close> is its \<open>spec_digest\<close>, when it
  has one. \<open>Timeout\<close> stands for \<open>TimeoutError\<close> and \<open>ConnectionError\<close>.
\<close>

record transport =
  tr_observe :: "operation \<Rightarrow> fworld \<Rightarrow> fault + observation"
  tr_apply :: "operation \<Rightarrow> jdict \<Rightarrow> fworld \<Rightarrow> fault + observation"
  tr_spec :: "(jdict \<Rightarrow> string) option"

definition op_qualified :: "operation \<Rightarrow> observation \<Rightarrow> observation" where
  "op_qualified operation obs =
    (let refused = (observed_only Refused)\<lparr>ob_refusal := [(''field'', JStr ''''), (''reason'', JStr ''identity'')]\<rparr>
     in if ob_phase obs = None then refused
        else if ob_phase obs = Some Applied \<and>
          (ob_generation obs = None \<or>
           (ob_execution_id obs, ob_generation obs, ob_backend obs, ob_payload_digest obs)
             \<noteq> (op_execution_id operation, Some (op_generation operation), op_backend operation, op_payload_digest operation))
        then refused else obs)"

definition op_observe :: "transport \<Rightarrow> operation \<Rightarrow> fworld \<Rightarrow> fault + observation" where
  "op_observe tr operation w =
    (case tr_observe tr operation w of
      Inl e \<Rightarrow> if e = Timeout then Inr (observed_only Unknown) else Inl e
    | Inr obs \<Rightarrow> Inr (op_qualified operation obs))"

definition op_specs :: "(string, transport) dict \<Rightarrow> op_request \<Rightarrow> (string, string) dict" where
  "op_specs transports request =
    (if rq_action request \<noteq> ''spawn'' then []
     else concat (map (\<lambda>(backend, tr). case tr_spec tr of None \<Rightarrow> [] | Some render \<Rightarrow> [(backend, render (rq_payload request))])
            transports))"

text \<open>
  \<open>execute\<close>, with what it handed to \<open>apply_operation\<close>: the calls made, each with the world it was
  made in.
\<close>

type_synonym op_calls = "(operation \<times> fworld) list"

definition op_dispatch ::
  "op_env \<Rightarrow> transport \<Rightarrow> jdict \<Rightarrow> operation \<Rightarrow> fworld \<Rightarrow> (fault + operation) \<times> op_calls \<times> fworld" where
  "op_dispatch oe tr payload operation w =
    (case journal_settle oe operation (observed_only Unknown) True w of
      (Inl e, w1) \<Rightarrow> (Inl e, [], w1)
    | (Inr marked, w1) \<Rightarrow>
        (case (case tr_apply tr marked payload w1 of
                 Inl e \<Rightarrow> if e = Timeout then Inr (observed_only Unknown) else Inl e
               | Inr obs \<Rightarrow> Inr obs) of
           Inl e \<Rightarrow> (Inl e, [(marked, w1)], w1)
         | Inr obs \<Rightarrow>
             (case journal_settle oe marked (op_qualified marked obs) False w1 of
               (res, w2) \<Rightarrow> (res, [(marked, w1)], w2))))"

definition op_execute ::
  "op_env \<Rightarrow> (string, transport) dict \<Rightarrow> bool \<Rightarrow> op_request \<Rightarrow> fworld \<Rightarrow> (fault + operation) \<times> op_calls \<times> fworld" where
  "op_execute oe transports dispatch_enabled request w =
    (case journal_prepare oe (op_specs transports request) request w of
      (Inl e, w1) \<Rightarrow> (Inl e, [], w1)
    | (Inr operation, w1) \<Rightarrow>
        if settled_phase (op_phase operation) then (Inr operation, [], w1)
        else (case dget transports (op_backend operation) of
                None \<Rightarrow> (case journal_settle oe operation (observed_only Unknown) False w1 of (res, w2) \<Rightarrow> (res, [], w2))
              | Some tr \<Rightarrow>
                  (case op_observe tr operation w1 of
                     Inl e \<Rightarrow> (Inl e, [], w1)
                   | Inr obs \<Rightarrow>
                       if ob_phase obs \<noteq> Some Absent \<or> \<not> dispatch_enabled
                       then (case journal_settle oe operation obs False w1 of (res, w2) \<Rightarrow> (res, [], w2))
                       else op_dispatch oe tr (rq_payload request) operation w1)))"

definition op_unresolved :: "fdoc \<Rightarrow> operation list" where
  "op_unresolved doc = filter (\<lambda>operation. \<not> settled_phase (op_phase operation)) (dvals (fd_operations doc))"

definition op_ambiguous :: "fdoc \<Rightarrow> nat" where
  "op_ambiguous doc = length (filter (\<lambda>operation. op_phase operation = Unknown) (dvals (fd_operations doc)))"

fun op_recover_all ::
  "op_env \<Rightarrow> (string, transport) dict \<Rightarrow> operation list \<Rightarrow> fworld \<Rightarrow> (fault + operation list) \<times> fworld" where
  "op_recover_all oe transports [] w = (Inr [], w)"
| "op_recover_all oe transports (operation # rest) w =
    (case (case dget transports (op_backend operation) of
             None \<Rightarrow> Inr (observed_only Unknown)
           | Some tr \<Rightarrow> op_observe tr operation w) of
       Inl e \<Rightarrow> (Inl e, w)
     | Inr obs \<Rightarrow>
         (case journal_settle oe operation obs False w of
            (Inl e, w1) \<Rightarrow>
              (case e of
                 Operation_Conflict _ \<Rightarrow>
                   (case op_recover_all oe transports rest w1 of
                      (Inl e', w2) \<Rightarrow> (Inl e', w2)
                    | (Inr done_ops, w2) \<Rightarrow> (Inr (operation\<lparr>op_phase := Refused\<rparr> # done_ops), w2))
               | _ \<Rightarrow> (Inl e, w1))
          | (Inr settled, w1) \<Rightarrow>
              (case op_recover_all oe transports rest w1 of
                 (Inl e', w2) \<Rightarrow> (Inl e', w2)
               | (Inr done_ops, w2) \<Rightarrow> (Inr (settled # done_ops), w2))))"

definition op_recover ::
  "op_env \<Rightarrow> (fault + fdoc) \<Rightarrow> (string, transport) dict \<Rightarrow> fworld \<Rightarrow> (fault + operation list) \<times> fworld" where
  "op_recover oe moved transports w =
    (case fencing_read (oe_ctx oe) moved w of
      (Inl e, w1) \<Rightarrow> (Inl e, w1)
    | (Inr doc, w1) \<Rightarrow> op_recover_all oe transports (op_unresolved doc) w1)"

end
