(* ===== verification/Operations_Laws.thy ===== *)
theory Operations_Laws
  imports Operations Lease_Laws
begin

text \<open>
  What the operation journal promises: an operation keeps its identity and, once applied or
  superseded, never changes again; nothing is handed to a transport that is not written down as
  attempted first, and nothing without the transport's word that the operation has no effect yet.
\<close>

section \<open>The journal only moves forward\<close>

inductive op_change :: "(fdoc \<Rightarrow> fworld \<Rightarrow> fault + operation) \<Rightarrow> bool" where
  oc_prepare: "op_change (prepare_create epoch operation_id digest specs request)"
| oc_settle: "op_change (settle_update operation obs attempted)"
| oc_supersede: "op_change (supersede_update operation)"

inductive op_step :: "fdoc \<Rightarrow> fdoc \<Rightarrow> bool" where
  os_write: "op_change change \<Longrightarrow> op_commit change doc w = (Inr (operation, doc'), w') \<Longrightarrow> op_step doc doc'"
| os_other: "fd_operations doc' = fd_operations doc \<Longrightarrow> op_step doc doc'"

definition ops_keyed :: "fdoc \<Rightarrow> bool" where
  "ops_keyed doc \<longleftrightarrow> (\<forall>k operation. op_get doc k = Some operation \<longrightarrow> op_operation_id operation = k)"

text \<open>What a write leaves at the operation's own key.\<close>

definition op_follows :: "operation option \<Rightarrow> operation \<Rightarrow> bool" where
  "op_follows old new \<longleftrightarrow> (\<forall>o1. old = Some o1 \<longrightarrow> op_blank new = op_blank o1 \<and> (settled_phase (op_phase o1) \<longrightarrow> new = o1))"

lemma op_follows_refl [simp]: "op_follows (Some x) x"
  by (simp add: op_follows_def)

lemma op_change_follows:
  assumes "op_change change" "ops_keyed doc" "change doc w = Inr operation"
  shows "op_follows (op_get doc (op_operation_id operation)) operation"
  using assms(1)
proof cases
  case (oc_prepare epoch operation_id digest specs request)
  show ?thesis
  proof (cases "op_get doc operation_id")
    case None
    then show ?thesis using assms(3) oc_prepare
      by (auto simp: prepare_create_def Let_def and_then_Inr op_follows_def)
  next
    case (Some previous)
    have "operation = previous" using assms(3) oc_prepare Some
      by (auto simp: prepare_create_def Let_def and_then_Inr op_error_def split: if_splits)
    moreover have "op_operation_id previous = operation_id" using assms(2) Some by (simp add: ops_keyed_def)
    ultimately show ?thesis using Some by simp
  qed
next
  case (oc_settle oper obs attempted)
  obtain agent :: agent_record where a: "(if ag_runtime_backend agent \<noteq> op_backend oper \<or> ag_runtime_target agent \<noteq> op_target oper
      then op_error ''operation target changed''
      else case op_get doc (op_operation_id oper) of
             None \<Rightarrow> op_error ''operation journal entry is missing''
           | Some current \<Rightarrow>
               if op_blank current \<noteq> op_blank oper then op_error ''operation identity changed''
               else if settled_phase (op_phase current) then Inr current
               else Inr (settle_row obs attempted current)) = Inr operation"
    using assms(3)[unfolded oc_settle settle_update_def and_then_Inr] by blast
  then obtain current where c: "op_get doc (op_operation_id oper) = Some current"
    by (auto simp: op_error_def split: if_splits option.splits)
  then have "op_operation_id current = op_operation_id oper" using assms(2) by (simp add: ops_keyed_def)
  then show ?thesis using a c
    by (auto simp: op_error_def op_follows_def op_blank_def settle_row_def Let_def split: if_splits)
next
  case (oc_supersede oper)
  then show ?thesis using assms(3)
    by (auto simp: supersede_update_def and_then_Inr op_error_def op_follows_def op_blank_def settled_phase_def split: if_splits)
qed

lemma op_step_follows:
  assumes "op_step doc doc'" "ops_keyed doc"
  shows "ops_keyed doc' \<and> (\<forall>k o1. op_get doc k = Some o1 \<longrightarrow> (\<exists>o2. op_get doc' k = Some o2 \<and> op_follows (Some o1) o2))"
  using assms(1)
proof cases
  case (os_write change w operation w')
  have ch: "change doc w = Inr operation"
    and d: "doc' = doc\<lparr>fd_operations := dset (op_operation_id operation) operation (fd_operations doc)\<rparr>"
    using os_write(2) by (auto simp: op_commit_def split: sum.splits)
  have get: "op_get doc' k = (if k = op_operation_id operation then Some operation else op_get doc k)" for k
    unfolding d op_get_def by (simp add: dget_dset)
  show ?thesis using op_change_follows[OF os_write(1) assms(2) ch] assms(2)
    by (auto simp: get ops_keyed_def)
next
  case os_other
  then show ?thesis using assms(2) by (auto simp: op_get_def ops_keyed_def)
qed

text \<open>
  C8: the journal of operations never rewrites history. Whatever is prepared, settled and superseded
  afterwards, by whichever controller, an operation that was journaled stays journaled under the same
  identity, scope, payload digest, target and spec; and once it is applied or superseded its entry
  never changes again.
\<close>

theorem operations_settle_once:
  assumes "op_step\<^sup>*\<^sup>* doc0 doc" and "fd_operations doc0 = []" and "op_step\<^sup>*\<^sup>* doc doc'"
    and "op_get doc k = Some o1"
  shows "\<exists>o2. op_get doc' k = Some o2 \<and> op_blank o2 = op_blank o1 \<and> (settled_phase (op_phase o1) \<longrightarrow> o2 = o1)"
proof -
  have keyed: "ops_keyed b" if "op_step\<^sup>*\<^sup>* a b" "ops_keyed a" for a b
    using that by (induction rule: rtranclp_induct) (auto dest: op_step_follows)
  have "ops_keyed doc0" using assms(2) by (simp add: ops_keyed_def op_get_def)
  from keyed[OF assms(1) this] have ok: "ops_keyed doc" .
  show ?thesis using assms(3)
  proof (induction rule: rtranclp_induct)
    case base
    then show ?case using assms(4) by simp
  next
    case (step x y)
    obtain o2 where o2: "op_get x k = Some o2" "op_blank o2 = op_blank o1" "settled_phase (op_phase o1) \<longrightarrow> o2 = o1"
      using step.IH by blast
    obtain o3 where "op_get y k = Some o3" "op_follows (Some o2) o3"
      using op_step_follows[OF step.hyps(2) keyed[OF step.hyps(1) ok]] o2(1) by blast
    then show ?case using o2 unfolding op_follows_def by auto
  qed
qed

section \<open>Written down before it is sent\<close>

lemma externalize_operations: "externalize_archive c doc w = (Inr doc', w') \<Longrightarrow> fd_operations doc' = fd_operations doc"
  by (auto simp: externalize_archive_def Let_def split: option.splits sum.splits prod.splits if_splits)

lemma hydrate_operations: "hydrate_archive doc w = Inr doc' \<Longrightarrow> fd_operations doc' = fd_operations doc"
  by (auto simp: hydrate_archive_def and_then_Inr)

lemma step_operations:
  assumes "fencing_step c moved change doc w = (Inr (r, out), w')" "\<not> fd_moved doc"
  obtains doc1 w1 where "change doc w = (Inr (r, doc1), w1)"
    "\<And>k. dget (fd_operations (case out of None \<Rightarrow> doc | Some d \<Rightarrow> d)) k = dget (fd_operations doc1) k"
proof -
  obtain doc1 w1 where ch: "count_refusal c (change doc w) = (Inr (r, doc1), w1)"
    using assms by (auto simp: fencing_step_def split: sum.splits prod.splits if_splits)
  then have ch': "change doc w = (Inr (r, doc1), w1)"
    by (auto simp: count_refusal_def split: sum.splits prod.splits fault.splits)
  obtain doc2 where d2: "fd_operations doc2 = fd_operations doc1"
      "(doc_eq doc2 doc \<and> out = None) \<or> out = Some doc2"
    using assms ch
    by (auto simp: fencing_step_def split: if_splits sum.splits prod.splits dest!: externalize_operations hydrate_operations)
  have "dget (fd_operations (case out of None \<Rightarrow> doc | Some d \<Rightarrow> d)) k = dget (fd_operations doc1) k" for k
    using d2 by (auto simp: doc_eq_def dict_eq_iff split: option.splits)
  with that ch' show ?thesis by blast
qed

lemma op_commit_ok: "change_ok c (op_commit change)"
  by (auto simp: change_ok_def op_commit_def aside_refl split: sum.splits)

lemma journal_write_get:
  assumes "counts_ok (oe_ctx oe)" "others_ok (oe_ctx oe) (oe_others oe)" "fdoc_inv (oe_ctx oe) w"
    and "journal_write oe change w = (Inr operation, w')"
  shows "fdoc_inv (oe_ctx oe) w' \<and> (\<exists>doc rvn. fencing_rd (oe_ctx oe) w' = Some (doc, rvn) \<and>
    (fd_moved doc \<or> (op_get doc (op_operation_id operation) = Some operation \<and> (\<exists>d v. change d v = Inr operation))))"
proof -
  let ?c = "oe_ctx oe" and ?ch = "op_commit change"
  obtain chg where chg: "chg = ?ch \<or> (\<exists>h. chg = guarded_change h ?ch)"
    and run: "fencing_write ?c (oe_moved oe) chg (oe_others oe) w = (Inr operation, w')"
    using assms(4) by (auto simp: journal_write_def lease_fenced_def op_error_def split: option.splits prod.splits sum.splits if_splits)
  have ok: "change_ok ?c chg" using chg op_commit_ok guarded_change_ok by blast
  obtain doc rvn w1 w2 where at: "fdoc_ev ?c w w1" "fdoc_ev ?c w1 w2" "fencing_rd ?c w1 = Some (doc, rvn)"
    "(fencing_step ?c (oe_moved oe) chg doc w1 = (Inr (operation, None), w2) \<and> w' = w2) \<or>
     (\<exists>doc' w3. fencing_step ?c (oe_moved oe) chg doc w1 = (Inr (operation, Some doc'), w3) \<and>
        fencing_rd ?c w2 = Some (doc, rvn) \<and> fencing_commit ?c doc' rvn w2 = Inr w' \<and>
        (\<exists>rvn' > rvn. fencing_rd ?c w' = Some (doc', rvn')))"
    by (rule fencing_write_Inr[OF assms(1) ok assms(2,3) run])
  have inv: "fdoc_inv ?c w'" using fencing_write_ev[OF assms(1) ok assms(2,3) run] by (simp add: fdoc_ev_def)
  obtain out w3 where step: "fencing_step ?c (oe_moved oe) chg doc w1 = (Inr (operation, out), w3)"
    and rd: "\<exists>rvn'. fencing_rd ?c w' = Some (case out of None \<Rightarrow> doc | Some d \<Rightarrow> d, rvn')"
  proof -
    from at(4) show thesis
    proof
      assume a: "fencing_step ?c (oe_moved oe) chg doc w1 = (Inr (operation, None), w2) \<and> w' = w2"
      have "fdoc_inv ?c w1" using at(1) by (simp add: fdoc_ev_def)
      from fencing_step_aside[OF assms(1) ok this, of "oe_moved oe" doc] a at(3) have "fencing_rd ?c w' = Some (doc, rvn)"
        by (simp add: aside_def)
      with a show thesis by (intro that[of None w2]) simp_all
    next
      assume "\<exists>doc' w3. fencing_step ?c (oe_moved oe) chg doc w1 = (Inr (operation, Some doc'), w3) \<and>
        fencing_rd ?c w2 = Some (doc, rvn) \<and> fencing_commit ?c doc' rvn w2 = Inr w' \<and>
        (\<exists>rvn' > rvn. fencing_rd ?c w' = Some (doc', rvn'))"
      then obtain doc' w3 rvn' where "fencing_step ?c (oe_moved oe) chg doc w1 = (Inr (operation, Some doc'), w3)"
        "fencing_rd ?c w' = Some (doc', rvn')" by blast
      then show thesis by (intro that[of "Some doc'" w3]) simp_all
    qed
  qed
  have "fd_moved (case out of None \<Rightarrow> doc | Some d \<Rightarrow> d) \<or>
    (op_get (case out of None \<Rightarrow> doc | Some d \<Rightarrow> d) (op_operation_id operation) = Some operation \<and> (\<exists>d v. change d v = Inr operation))"
  proof (cases "fd_moved doc")
    case True
    then have "out = None" using step
      by (auto simp: fencing_step_def count_refusal_def split: sum.splits prod.splits fault.splits)
    then show ?thesis using True by simp
  next
    case False
    obtain doc1 v where c1: "chg doc w1 = (Inr (operation, doc1), v)"
      and ops: "\<And>k. dget (fd_operations (case out of None \<Rightarrow> doc | Some d \<Rightarrow> d)) k = dget (fd_operations doc1) k"
      by (rule step_operations[OF step False]) (rule that)
    have "?ch doc w1 = (Inr (operation, doc1), v)" using chg c1 by (auto simp: guarded_change_def split: sum.splits)
    then have "change doc w1 = Inr operation" "op_get doc1 (op_operation_id operation) = Some operation"
      by (auto simp: op_commit_def op_get_def dget_dset split: sum.splits)
    then show ?thesis using ops by (auto simp: op_get_def)
  qed
  then show ?thesis using rd inv by blast
qed

text \<open>
  C9: an operation is written down before it is sent, and sent only when the transport proved it has
  no effect yet. When one run of executing a request handed anything to a transport, it did so once,
  with dispatch enabled, for an operation its backend had just observed as absent; and at that moment the
  journal held exactly the operation that was sent, marked attempted and unknown (or another
  controller had settled it meanwhile).
\<close>

theorem dispatch_written_down:
  assumes "counts_ok (oe_ctx oe)" "others_ok (oe_ctx oe) (oe_others oe)" "fdoc_inv (oe_ctx oe) w"
    and "op_execute oe transports dispatch_enabled request w = (res, calls, w')" and "calls \<noteq> []"
  shows "\<exists>marked w1 tr operation w0 obs doc rvn. calls = [(marked, w1)] \<and> dispatch_enabled \<and>
    dget transports (op_backend operation) = Some tr \<and> op_observe tr operation w0 = Inr obs \<and> ob_phase obs = Some Absent \<and>
    fencing_rd (oe_ctx oe) w1 = Some (doc, rvn) \<and>
    (fd_moved doc \<or> (op_blank marked = op_blank operation \<and> op_get doc (op_operation_id marked) = Some marked \<and>
       ((op_phase marked = Unknown \<and> op_attempted marked) \<or> settled_phase (op_phase marked))))"
proof -
  obtain operation w0 where prep: "journal_prepare oe (op_specs transports request) request w = (Inr operation, w0)"
    using assms(4,5) by (cases "journal_prepare oe (op_specs transports request) request w") (auto simp: op_execute_def split: sum.splits)
  obtain tr obs where tr: "dget transports (op_backend operation) = Some tr" "op_observe tr operation w0 = Inr obs"
    and absent: "ob_phase obs = Some Absent" "dispatch_enabled"
    and disp: "op_dispatch oe tr (rq_payload request) operation w0 = (res, calls, w')"
    using assms(4,5) prep by (auto simp: op_execute_def split: if_splits option.splits sum.splits prod.splits)
  obtain marked w1 where mk: "journal_settle oe operation (observed_only Unknown) True w0 = (Inr marked, w1)"
    using disp assms(5)
    by (cases "journal_settle oe operation (observed_only Unknown) True w0") (auto simp: op_dispatch_def split: sum.splits)
  have calls: "calls = [(marked, w1)]"
    using disp mk by (auto simp: op_dispatch_def split: sum.splits prod.splits)
  obtain change :: "fdoc \<Rightarrow> fworld \<Rightarrow> fault + operation" where "journal_write oe change w = (Inr operation, w0)"
    using prep by (auto simp: journal_prepare_def op_error_def Let_def split: if_splits)
  from journal_write_get[OF assms(1-3) this] have inv: "fdoc_inv (oe_ctx oe) w0" by blast
  obtain doc rvn where rd: "fencing_rd (oe_ctx oe) w1 = Some (doc, rvn)"
    and got: "fd_moved doc \<or> (op_get doc (op_operation_id marked) = Some marked \<and>
       (\<exists>d v. settle_update operation (observed_only Unknown) True d v = Inr marked))"
    using journal_write_get[OF assms(1,2) inv mk[unfolded journal_settle_def]] by blast
  have shape: "op_blank marked = op_blank operation \<and>
      ((op_phase marked = Unknown \<and> op_attempted marked) \<or> settled_phase (op_phase marked))"
    if "settle_update operation (observed_only Unknown) True d v = Inr marked" for d v
    using that by (auto simp: settle_update_def and_then_Inr op_error_def settle_row_def observed_only_def op_blank_def Let_def
        split: if_splits option.splits)
  show ?thesis using calls tr absent rd got shape by blast
qed

section \<open>The statements at concrete inputs\<close>

text \<open>A write nobody disturbs, on a document that keeps no archive outside.\<close>

definition calm_world :: "string \<Rightarrow> fdoc \<Rightarrow> fworld \<Rightarrow> fworld" where
  "calm_world slug doc w = w\<lparr>fw_states := snd (store_put slug (Whole doc) (fw_states w))\<rparr>"

lemma calm_get:
  "store_get (fw_states (calm_world slug doc w)) slug = Some \<lparr>se_key = slug, se_value = Whole doc, se_revision = length (ms_history (fw_states w)) + 1\<rparr>"
  "ms_closed (fw_states (calm_world slug doc w)) = ms_closed (fw_states w)"
  by (simp_all add: calm_world_def store_put_def store_get_def Let_def dget_dset)

lemma calm_write:
  assumes "store_get (fw_states w) (fx_slug c) = Some e" "se_value e = Whole doc" "\<not> ms_closed (fw_states w)"
    and "\<not> fd_moved doc" "change doc w = (Inr (r, docb), w)" "fd_archive_ref docb = None" "\<not> doc_eq docb doc"
  shows "fencing_write c moved change [id] w = (Inr r, calm_world (fx_slug c) docb w)"
  using assms
  by (simp add: fencing_write_def fencing_entry_def read_cell_def fencing_step_def count_refusal_def fencing_commit_def
      store_update_def store_get_def calm_world_def store_put_def Let_def)

definition ow_agent :: agent_record where
  "ow_agent = (new_agent ''n'' ''eng'' ''t'')\<lparr>ag_seat := ''eng@s'', ag_execution_id := ''e'', ag_generation := 1\<rparr>"

definition ow_doc :: "operation list \<Rightarrow> fdoc" where
  "ow_doc rows = empty_doc\<lparr>fd_executions := [(''e'', ow_agent)], fd_operations := map (\<lambda>row. (op_operation_id row, row)) rows\<rparr>"

definition ow_env :: op_env where
  "ow_env = \<lparr>oe_ctx = \<lparr>fx_slug = ''s'', fx_legacy = empty_doc, fx_legacy_count = (\<lambda>_. 0), fx_sha = (\<lambda>_. ''0''), fx_count_others = []\<rparr>,
     oe_moved = Inl Type_Error, oe_epoch = None, oe_id = (\<lambda>s e k. e), oe_digest = (\<lambda>a p. ''d''), oe_others = [id]\<rparr>"

definition ow_op :: "phase \<Rightarrow> bool \<Rightarrow> operation" where
  "ow_op ph attempted = \<lparr>op_operation_id = ''op-e'', op_execution_id = ''e'', op_generation = 1, op_action = ''spawn'',
     op_backend = ''local'', op_payload_digest = ''d'', op_target = [], op_phase = ph, op_result = [],
     op_controller_epoch = None, op_attempted = attempted, op_spec_digest = '''', op_refusal = []\<rparr>"

definition ow_request :: op_request where
  "ow_request = \<lparr>rq_execution_id = ''e'', rq_generation = 1, rq_action = ''spawn'', rq_payload = [], rq_key = ''k''\<rparr>"

definition ow_world :: fworld where
  "ow_world = calm_world ''s'' (ow_doc []) \<lparr>fw_states = empty_store, fw_counters = empty_store, fw_now = 5\<rparr>"

definition ow_transport :: transport where
  "ow_transport = \<lparr>tr_observe = (\<lambda>_ _. Inr (observed_only Absent)), tr_apply = (\<lambda>_ _ _. Inl Timeout), tr_spec = None\<rparr>"

lemma ow_current: "op_current ''e'' 1 (ow_doc rows) w = Inr ow_agent"
  by (simp add: op_current_def execution_row_def ow_doc_def ow_agent_def empty_doc_def new_agent_def occupants_of_def latest_seat_def)

lemma ow_agent_fields:
  "ag_execution_id ow_agent = ''e''" "ag_generation ow_agent = 1" "ag_runtime_backend ow_agent = ''local''" "ag_runtime_target ow_agent = []"
  by (simp_all add: ow_agent_def new_agent_def)

lemma ow_prepare: "op_commit (prepare_create None ''op-e'' ''d'' [] ow_request) (ow_doc []) w =
    (Inr (ow_op Accepted False, ow_doc [ow_op Accepted False]), w)"
  by (simp add: op_commit_def prepare_create_def ow_current ow_request_def ow_agent_fields op_get_def ow_op_def)
    (simp add: ow_doc_def empty_doc_def)

lemma ow_settle: "op_commit (settle_update (ow_op Accepted False) (observed_only Unknown) True) (ow_doc [ow_op Accepted False]) w =
    (Inr (ow_op Unknown True, ow_doc [ow_op Unknown True]), w)"
proof -
  have "op_get (ow_doc [ow_op Accepted False]) ''op-e'' = Some (ow_op Accepted False)"
    by (simp add: op_get_def ow_doc_def ow_op_def)
  then have "settle_update (ow_op Accepted False) (observed_only Unknown) True (ow_doc [ow_op Accepted False]) w = Inr (ow_op Unknown True)"
    using ow_current[of "[ow_op Accepted False]" w]
    by (simp add: settle_update_def ow_op_def ow_agent_fields settled_phase_def settle_row_def observed_only_def)
  then show ?thesis by (simp add: op_commit_def) (simp add: ow_doc_def ow_op_def empty_doc_def)
qed

lemma ow_steps:
  "op_step\<^sup>*\<^sup>* (ow_doc []) (ow_doc [ow_op Accepted False])"
  "op_step\<^sup>*\<^sup>* (ow_doc [ow_op Accepted False]) (ow_doc [ow_op Unknown True])"
  by (rule r_into_rtranclp, rule os_write[OF oc_prepare ow_prepare],
      rule r_into_rtranclp, rule os_write[OF oc_settle ow_settle])

lemma operations_settle_once_witness:
  "\<exists>o2. op_get (ow_doc [ow_op Unknown True]) ''op-e'' = Some o2 \<and> op_blank o2 = op_blank (ow_op Accepted False)"
proof -
  have "fd_operations (ow_doc []) = []" "op_get (ow_doc [ow_op Accepted False]) ''op-e'' = Some (ow_op Accepted False)"
    by (simp_all add: ow_doc_def op_get_def ow_op_def)
  from operations_settle_once[OF ow_steps(1) this(1) ow_steps(2) this(2)] show ?thesis by blast
qed

lemma ow_differ: "\<not> doc_eq (ow_doc [ow_op Accepted False]) (ow_doc [])"
  "\<not> doc_eq (ow_doc [ow_op Unknown True]) (ow_doc [ow_op Accepted False])"
  by (simp_all add: doc_eq_def ow_doc_def dict_eq_def ow_op_def)

lemma dispatch_written_down_witness:
  "\<exists>res w' w1. op_execute ow_env [(''local'', ow_transport)] True ow_request ow_world = (res, [(ow_op Unknown True, w1)], w') \<and>
     (\<exists>doc rvn. fencing_rd (oe_ctx ow_env) w1 = Some (doc, rvn))"
proof -
  have slug: "fx_slug (oe_ctx ow_env) = ''s''" by (simp add: ow_env_def)
  have fields: "oe_epoch ow_env = None" "oe_others ow_env = [id]" by (simp_all add: ow_env_def)
  have rows: "\<not> fd_moved (ow_doc rows)" "fd_archive_ref (ow_doc rows) = None" for rows
    by (simp_all add: ow_doc_def empty_doc_def)
  let ?w0 = "calm_world ''s'' (ow_doc [ow_op Accepted False]) ow_world"
  let ?w1 = "calm_world ''s'' (ow_doc [ow_op Unknown True]) ?w0"
  have openw: "\<not> ms_closed (fw_states ow_world)" by (simp add: ow_world_def calm_get(2) empty_store_def)
  have write0: "fencing_write (oe_ctx ow_env) m (op_commit (prepare_create None ''op-e'' ''d'' [] ow_request)) [id] ow_world =
      (Inr (ow_op Accepted False), ?w0)" for m
    using calm_write[where c = "oe_ctx ow_env" and w = ow_world and doc = "ow_doc []" and docb = "ow_doc [ow_op Accepted False]"
        and r = "ow_op Accepted False" and change = "op_commit (prepare_create None ''op-e'' ''d'' [] ow_request)", unfolded slug]
      openw rows ow_prepare ow_differ(1)
      calm_get(1)[of "''s''" "ow_doc []" "\<lparr>fw_states = empty_store, fw_counters = empty_store, fw_now = 5\<rparr>", folded ow_world_def]
    by simp
  have write1: "fencing_write (oe_ctx ow_env) m (op_commit (settle_update (ow_op Accepted False) (observed_only Unknown) True)) [id] ?w0 =
      (Inr (ow_op Unknown True), ?w1)" for m
    using calm_write[where c = "oe_ctx ow_env" and w = ?w0 and doc = "ow_doc [ow_op Accepted False]" and docb = "ow_doc [ow_op Unknown True]"
        and r = "ow_op Unknown True" and change = "op_commit (settle_update (ow_op Accepted False) (observed_only Unknown) True)", unfolded slug]
      openw rows ow_settle ow_differ(2) calm_get[of "''s''" "ow_doc [ow_op Accepted False]" ow_world]
    by simp
  have ids: "oe_id ow_env s e k = e" "oe_digest ow_env a pl = ''d''" for s e k a pl by (simp_all add: ow_env_def)
  have prep: "journal_prepare ow_env [] ow_request ow_world = (Inr (ow_op Accepted False), ?w0)"
    using write0 by (simp add: journal_prepare_def journal_write_def lease_fenced_def fields ids Let_def ow_request_def op_actions_def)
  have mark: "journal_settle ow_env (ow_op Accepted False) (observed_only Unknown) True ?w0 = (Inr (ow_op Unknown True), ?w1)"
    using write1 by (simp add: journal_settle_def journal_write_def lease_fenced_def fields)
  have obs: "op_observe ow_transport (ow_op Accepted False) ?w0 = Inr (observed_only Absent)"
    by (simp add: op_observe_def ow_transport_def op_qualified_def observed_only_def)
  have op_fields: "op_backend (ow_op ph b) = ''local''" "op_phase (ow_op ph b) = ph" "ob_phase (observed_only ph) = Some ph" for ph b
    by (simp_all add: ow_op_def observed_only_def)
  have tr: "tr_apply ow_transport o1 pl v = Inl Timeout" "op_specs [(''local'', ow_transport)] ow_request = []" for o1 pl v
    by (simp_all add: ow_transport_def op_specs_def)
  obtain res w2 where last: "journal_settle ow_env (ow_op Unknown True) (op_qualified (ow_op Unknown True) (observed_only Unknown)) False ?w1 = (res, w2)"
    by fastforce
  have disp: "op_dispatch ow_env ow_transport (rq_payload ow_request) (ow_op Accepted False) ?w0 = (res, [(ow_op Unknown True, ?w1)], w2)"
    using last by (simp add: op_dispatch_def mark tr)
  have run: "op_execute ow_env [(''local'', ow_transport)] True ow_request ow_world = (res, [(ow_op Unknown True, ?w1)], w2)"
    by (simp add: op_execute_def tr prep obs op_fields settled_phase_def disp)
  have inv: "fdoc_inv (oe_ctx ow_env) ow_world"
    using store_put_inv[OF empty_store_inv prod.collapse[symmetric], of "''s''" "Whole (ow_doc [])"]
    by (auto simp: fdoc_inv_def fw_inv_def ow_world_def slug calm_get(1)) (simp_all add: calm_world_def)
  have "counts_ok (oe_ctx ow_env)" "others_ok (oe_ctx ow_env) (oe_others ow_env)"
    by (simp_all add: counts_ok_def others_ok_def ow_env_def)
  from dispatch_written_down[OF this inv run] run show ?thesis by auto
qed

end
