(* ===== verification/Runtime_Router.thy ===== *)
theory Runtime_Router
  imports Records
begin

text \<open>
  The runtime router (\<open>scripts/swarm_v2/runtime/base.py\<close>): which backend an attempt is spawned on,
  and the gate in front of a runtime's operations (registered, enabled, capable), with the counters
  of what it turned away. What a runtime answers to a call is a parameter (\<open>call\<close>).
\<close>

section \<open>Outcomes\<close>

datatype capability = Can_Spawn | Can_Observe | Can_Command | Can_Drain | Can_Terminate | Can_Recover | Can_Native_Resume

fun capability_name :: "capability \<Rightarrow> string" where
  "capability_name Can_Spawn = ''spawn''"
| "capability_name Can_Observe = ''observe''"
| "capability_name Can_Command = ''command''"
| "capability_name Can_Drain = ''drain''"
| "capability_name Can_Terminate = ''terminate''"
| "capability_name Can_Recover = ''recover''"
| "capability_name Can_Native_Resume = ''native_resume''"

datatype status = Ok | Ambiguous | Is_Unavailable | Unsupported | Is_Refused | Pending

datatype unqualified = No_Execution | No_Process | No_Namespace | Foreign_Namespace

fun unqualified_text :: "unqualified \<Rightarrow> string" where
  "unqualified_text No_Execution = ''no execution identity''"
| "unqualified_text No_Process = ''runtime target names no process''"
| "unqualified_text No_Namespace = ''local process namespace is unreadable''"
| "unqualified_text Foreign_Namespace = ''process belongs to another PID namespace''"

datatype recovery = Reattach | Resume

datatype outcome_value = No_Value | Unqualified unqualified | Answer json

record outcome =
  oc_operation :: string
  oc_status :: status
  oc_backend :: string
  oc_value :: outcome_value
  oc_detail :: string

definition outcome_ok :: "outcome \<Rightarrow> bool" where
  "outcome_ok oc \<longleftrightarrow> oc_status oc = Ok"

section \<open>Placement\<close>

record placement =
  pl_backend :: string
  pl_lanes :: "string list"
  pl_local_profiles :: "string list"
  pl_master_seats :: "string list"

text \<open>\<open>a or b\<close> on JSON values.\<close>

definition json_or :: "json \<Rightarrow> json \<Rightarrow> json" where
  "json_or a b = (if truthy a then a else b)"

definition json_text_in :: "json \<Rightarrow> string list \<Rightarrow> bool" where
  "json_text_in v names = (case v of JStr s \<Rightarrow> s \<in> set names | _ \<Rightarrow> False)"

definition backend_for :: "placement \<Rightarrow> string \<Rightarrow> jdict \<Rightarrow> string" where
  "backend_for pl lane task =
    (if lane = ''master''
     then (if json_text_in (jget task ''id'') (pl_master_seats pl) then pl_backend pl else ''local'')
     else
       let decision = (case jget task ''profile_decision'' of JObj d \<Rightarrow> d | _ \<Rightarrow> []);
           profile = json_or (jget decision ''profile'') (jget task ''profile'');
           anywhere = \<not> truthy (jget task ''workstation'') \<and> (pl_backend pl = ''hive'' \<or> \<not> truthy (jget task ''needs''));
           placed = anywhere \<and> \<not> json_text_in profile (pl_local_profiles pl) \<and> lane \<in> set (pl_lanes pl)
       in if placed then pl_backend pl else ''local'')"

section \<open>The router\<close>

record router =
  ro_runtimes :: "(string, capability list) dict"
  ro_default :: string
  ro_disabled :: "string list"
  ro_placement :: "placement option"
  ro_failures :: "(string \<times> string, nat) dict"
  ro_rejected :: "(string \<times> unqualified, nat) dict"

text \<open>\<open>Counter[key] += 1\<close>.\<close>

definition count_up :: "'k \<Rightarrow> ('k, nat) dict \<Rightarrow> ('k, nat) dict" where
  "count_up k d = dset k ((case dget d k of None \<Rightarrow> 0 | Some n \<Rightarrow> n) + 1) d"

definition foreign :: "string \<Rightarrow> string \<Rightarrow> agent_record \<Rightarrow> outcome option" where
  "foreign backend operation agent =
    (if ag_runtime_backend agent = backend then None
     else Some \<lparr>oc_operation = operation, oc_status = Is_Refused, oc_backend = backend, oc_value = No_Value,
            oc_detail = ''runtime object belongs to '' @ ag_runtime_backend agent\<rparr>)"

definition legacy_agent :: "agent_record \<Rightarrow> bool" where
  "legacy_agent agent \<longleftrightarrow> ag_runtime_backend agent = ''local'' \<and> ag_execution_id agent = '''' \<and> ag_generation agent = 0 \<and>
     ag_runtime_target agent = []"

definition placed_backend :: "router \<Rightarrow> string \<Rightarrow> jdict \<Rightarrow> string" where
  "placed_backend r lane task = (case ro_placement r of None \<Rightarrow> ro_default r | Some pl \<Rightarrow> backend_for pl lane task)"

definition enabled_backend :: "router \<Rightarrow> string \<Rightarrow> string" where
  "enabled_backend r wanted = (if wanted \<in> set (ro_disabled r) then ''local'' else wanted)"

definition spawn_backend :: "router \<Rightarrow> (string \<times> jdict) option \<Rightarrow> string" where
  "spawn_backend r request =
    enabled_backend r (case request of None \<Rightarrow> ro_default r | Some (lane, task) \<Rightarrow> placed_backend r lane task)"

definition no_runtime :: "string \<Rightarrow> string \<Rightarrow> string \<Rightarrow> outcome" where
  "no_runtime operation backend detail =
    \<lparr>oc_operation = operation, oc_status = Is_Unavailable, oc_backend = backend, oc_value = No_Value, oc_detail = detail\<rparr>"

definition unavailable :: "router \<Rightarrow> agent_record \<Rightarrow> string \<Rightarrow> outcome option" where
  "unavailable r agent operation =
    (let backend = ag_runtime_backend agent
     in if \<not> dhas (ro_runtimes r) backend
        then Some (no_runtime operation backend (''no runtime registered for '' @ backend))
        else if backend \<in> set (ro_disabled r)
        then Some (no_runtime operation backend (''runtime '' @ backend @ '' is disabled''))
        else None)"

fun comma_join :: "string list \<Rightarrow> string" where
  "comma_join [] = []"
| "comma_join [x] = x"
| "comma_join (x # xs) = x @ '', '' @ comma_join xs"

definition router_call ::
  "router \<Rightarrow> string \<Rightarrow> string \<Rightarrow> capability list \<Rightarrow> (string \<Rightarrow> string \<Rightarrow> outcome) \<Rightarrow> outcome \<times> router" where
  "router_call r backend operation needs call =
    (let missing = filter (\<lambda>need. need \<notin> set (case dget (ro_runtimes r) backend of None \<Rightarrow> [] | Some caps \<Rightarrow> caps)) needs
     in if missing \<noteq> []
        then (\<lparr>oc_operation = operation, oc_status = Unsupported, oc_backend = backend, oc_value = No_Value,
                oc_detail = backend @ '' lacks '' @ comma_join (map capability_name missing)\<rparr>,
              r\<lparr>ro_failures := count_up (backend, operation) (ro_failures r)\<rparr>)
        else (call backend operation, r))"

definition router_spawn ::
  "router \<Rightarrow> string \<Rightarrow> jdict \<Rightarrow> capability list \<Rightarrow> (string \<Rightarrow> string \<Rightarrow> outcome) \<Rightarrow> outcome \<times> router" where
  "router_spawn r lane task needs call =
    (let backend = spawn_backend r (Some (lane, task))
     in if \<not> dhas (ro_runtimes r) backend \<or> backend \<in> set (ro_disabled r)
        then (no_runtime ''spawn'' backend (''no enabled runtime for '' @ backend), r)
        else router_call r backend ''spawn'' (Can_Spawn # needs) call)"

definition router_own ::
  "router \<Rightarrow> agent_record \<Rightarrow> string \<Rightarrow> capability \<Rightarrow> (string \<Rightarrow> string \<Rightarrow> outcome) \<Rightarrow> outcome \<times> router" where
  "router_own r agent operation need call =
    (case unavailable r agent operation of
      Some out \<Rightarrow> (out, r)
    | None \<Rightarrow> router_call r (ag_runtime_backend agent) operation [need] call)"

definition router_observe where
  "router_observe r agent call = router_own r agent ''observe'' Can_Observe call"

definition router_command where
  "router_command r agent call = router_own r agent ''command'' Can_Command call"

definition router_drain where
  "router_drain r agent call = router_own r agent ''drain'' Can_Drain call"

definition router_recover :: "router \<Rightarrow> agent_record \<Rightarrow> recovery \<Rightarrow> (string \<Rightarrow> string \<Rightarrow> outcome) \<Rightarrow> outcome \<times> router" where
  "router_recover r agent mode call =
    router_own r agent ''recover'' (if mode = Resume then Can_Native_Resume else Can_Recover) call"

definition router_terminate :: "router \<Rightarrow> agent_record \<Rightarrow> (string \<Rightarrow> string \<Rightarrow> outcome) \<Rightarrow> outcome \<times> router" where
  "router_terminate r agent call =
    (let backend = ag_runtime_backend agent;
         (out, r1) =
           (case unavailable r agent ''terminate'' of
              Some out \<Rightarrow> (out, r)
            | None \<Rightarrow>
                if ag_execution_id agent = '''' \<and> \<not> legacy_agent agent
                then (\<lparr>oc_operation = ''terminate'', oc_status = Is_Refused, oc_backend = backend,
                        oc_value = Unqualified No_Execution, oc_detail = unqualified_text No_Execution\<rparr>, r)
                else router_call r backend ''terminate'' [Can_Terminate] call)
     in case oc_value out of
          Unqualified reason \<Rightarrow> (out, r1\<lparr>ro_rejected := count_up (backend, reason) (ro_rejected r1)\<rparr>)
        | _ \<Rightarrow> (out, r1))"

definition capability_failures_total :: "router \<Rightarrow> nat" where
  "capability_failures_total r = sum_list (dvals (ro_failures r))"

definition unqualified_rejected_total :: "router \<Rightarrow> nat" where
  "unqualified_rejected_total r = sum_list (dvals (ro_rejected r))"

section \<open>What the gate promises\<close>

lemma sum_count_up: "wf_dict d \<Longrightarrow> sum_list (dvals (count_up k d)) = sum_list (dvals d) + 1"
proof (induction d)
  case Nil
  show ?case by (simp add: count_up_def)
next
  case (Cons kv d)
  obtain a b where kv: "kv = (a, b)" by fastforce
  have "k \<noteq> a \<Longrightarrow> sum_list (dvals (count_up k (kv # d))) = b + sum_list (dvals (count_up k d))"
    by (simp add: count_up_def kv)
  then show ?case using Cons by (cases "k = a") (auto simp: kv count_up_def)
qed

text \<open>
  A runtime is called on its own behalf only. Observing, commanding, draining, recovering or
  terminating an attempt reaches the runtime (the outcome depends on its answer) only if that
  attempt's own backend is registered, enabled and has the capability; and the router counts one
  failure exactly when the capability is what is missing.
\<close>

theorem router_own_gated:
  assumes "wf_dict (ro_failures r)"
  shows "let backend = ag_runtime_backend agent; able = dhas (ro_runtimes r) backend \<and> backend \<notin> set (ro_disabled r);
             capable = need \<in> set (case dget (ro_runtimes r) backend of None \<Rightarrow> [] | Some caps \<Rightarrow> caps);
             (out, r') = router_own r agent operation need call
         in (if able \<and> capable then out = call backend operation
             else out = fst (router_own r agent operation need other) \<and> oc_status out \<in> {Is_Unavailable, Unsupported}) \<and>
            capability_failures_total r' = capability_failures_total r + (if able \<and> \<not> capable then 1 else 0)"
  using assms sum_count_up[OF assms, of "(ag_runtime_backend agent, operation)"]
  by (auto simp: router_own_def unavailable_def router_call_def Let_def no_runtime_def capability_failures_total_def
      split: option.splits)

text \<open>
  Nothing without an identity is terminated. An attempt with no execution id that is not a plain
  legacy agent is refused whatever the runtime would answer, and the refusal is counted once.
\<close>

theorem terminate_needs_identity:
  assumes "ag_execution_id agent = ''''" and "\<not> legacy_agent agent" and "unavailable r agent ''terminate'' = None"
    and "wf_dict (ro_rejected r)"
  shows "oc_status (fst (router_terminate r agent call)) = Is_Refused \<and>
    oc_value (fst (router_terminate r agent call)) = Unqualified No_Execution \<and>
    unqualified_rejected_total (snd (router_terminate r agent call)) = unqualified_rejected_total r + 1"
  using assms sum_count_up[OF assms(4)]
  by (simp add: router_terminate_def unqualified_rejected_total_def Let_def)

definition rw_router :: router where
  "rw_router = \<lparr>ro_runtimes = [(''local'', [Can_Observe])], ro_default = ''local'', ro_disabled = [], ro_placement = None,
     ro_failures = [], ro_rejected = []\<rparr>"

lemma router_own_gated_witness:
  "capability_failures_total (snd (router_own rw_router (new_agent ''n'' ''eng'' ''t'') ''drain'' Can_Drain (\<lambda>b o1. no_runtime o1 b []))) = 1"
proof -
  have "wf_dict (ro_failures rw_router)" by (simp add: rw_router_def)
  note gate = router_own_gated[OF this, of "new_agent ''n'' ''eng'' ''t''" Can_Drain "''drain''" "\<lambda>b o1. no_runtime o1 b []"]
  obtain out r' where out: "router_own rw_router (new_agent ''n'' ''eng'' ''t'') ''drain'' Can_Drain (\<lambda>b o1. no_runtime o1 b []) = (out, r')"
    by fastforce
  have backend: "ag_runtime_backend (new_agent ''n'' ''eng'' ''t'') = ''local''" by (simp add: new_agent_def)
  have r: "dhas (ro_runtimes rw_router) ''local''" "dget (ro_runtimes rw_router) ''local'' = Some [Can_Observe]" "ro_disabled rw_router = []"
      "capability_failures_total rw_router = 0"
    by (simp_all add: rw_router_def dhas_def capability_failures_total_def)
  show ?thesis using gate by (simp add: Let_def out backend r)
qed

lemma terminate_needs_identity_witness:
  "oc_status (fst (router_terminate rw_router ((new_agent ''n'' ''eng'' ''t'')\<lparr>ag_generation := 3\<rparr>) (\<lambda>b o1. no_runtime o1 b []))) = Is_Refused"
  by (rule conjunct1, rule terminate_needs_identity)
    (simp_all add: new_agent_def legacy_agent_def unavailable_def rw_router_def dhas_def Let_def)

end
