(* ===== verification/Event_Bus.thy ===== *)
theory Event_Bus
  imports Text_Tools
begin

text \<open>
  The in-process event bus (\<open>scripts/events/memory.py\<close>, \<open>subjects.py\<close>, \<open>scope.py\<close>,
  \<open>envelope.py\<close>, \<open>dead.py\<close>, \<open>config.py\<close>): subjects and their patterns, envelopes, the event
  log with its dedupe window and durable consumers, work queues with redelivery, backoff and a dead
  letter log. Each operation holds the bus lock, so it is one step; the clock is read once for each
  reading the code makes (\<open>clk i\<close> is the i-th). The digest that names a dead letter is a parameter.
\<close>

section \<open>Subjects\<close>

fun tokens_match :: "string list \<Rightarrow> string list \<Rightarrow> bool" where
  "tokens_match [] have_toks = (have_toks = [])"
| "tokens_match (token # want) have_toks =
    (if token = ''>'' then have_toks \<noteq> []
     else case have_toks of
            [] \<Rightarrow> False
          | h # hs \<Rightarrow> (token = ''*'' \<or> token = h) \<and> tokens_match want hs)"

definition subject_matches :: "string \<Rightarrow> string \<Rightarrow> bool" where
  "subject_matches pattern subject = tokens_match (split_on CHR ''.'' pattern) (split_on CHR ''.'' subject)"

text \<open>One token: no dot, star, angle bracket or white space, and not empty.\<close>

definition token_char :: "char \<Rightarrow> bool" where
  "token_char ch \<longleftrightarrow> ch \<notin> set ''.*> '' \<and> (of_char ch :: nat) \<notin> {9..13} \<union> {28..31} \<union> {133, 160}"

definition subject_token :: "string \<Rightarrow> fault + string" where
  "subject_token v =
    (if v = [] \<or> \<not> list_all token_char v then Inl (Value_Error ''invalid event subject token'') else Inr v)"

fun subject_tokens :: "string list \<Rightarrow> fault + string list" where
  "subject_tokens [] = Inr []"
| "subject_tokens (t # ts) = and_then (subject_token t) (\<lambda>t'. and_then (subject_tokens ts) (\<lambda>ts'. Inr (t' # ts')))"

definition bus_prefix :: string where "bus_prefix = ''swarm''"

definition event_subject :: "string \<Rightarrow> string list \<Rightarrow> fault + string" where
  "event_subject swarm toks =
    (if toks = [] then Inl (Value_Error ''event subject needs at least one token'')
     else and_then (subject_token swarm) (\<lambda>s. and_then (subject_tokens toks) (\<lambda>ts.
       Inr (join_with ''.'' (bus_prefix # s # ts)))))"

definition slot_request :: "string \<Rightarrow> string \<Rightarrow> fault + string" where
  "slot_request swarm hive =
    and_then (subject_token swarm) (\<lambda>s. and_then (subject_token hive) (\<lambda>h. Inr (join_with ''.'' [''slots'', s, h])))"

definition starts_with :: "string \<Rightarrow> string \<Rightarrow> bool" where
  "starts_with p s \<longleftrightarrow> take (length p) s = p"

definition remove_prefix :: "string \<Rightarrow> string \<Rightarrow> string" where
  "remove_prefix p s = (if starts_with p s then drop (length p) s else s)"

definition in_swarm :: "string \<Rightarrow> string \<Rightarrow> bool" where
  "in_swarm swarm subject \<longleftrightarrow>
    starts_with (bus_prefix @ ''.'' @ swarm @ ''.'') subject \<or> starts_with (''slots.'' @ swarm @ ''.'') subject"

definition inbox_subject :: "string \<Rightarrow> fault + string" where
  "inbox_subject user = and_then (subject_token user) (\<lambda>u. Inr (''_INBOX.'' @ u))"

section \<open>Scopes\<close>

definition bus_lanes :: "string list" where "bus_lanes = [''eng'', ''ci'', ''plan'']"

definition queue_lane :: "string \<Rightarrow> string \<Rightarrow> fault + string" where
  "queue_lane swarm name =
    (let lane = remove_prefix (bus_prefix @ ''.'' @ swarm @ ''.ready.'') name
     in if lane \<notin> set bus_lanes then Inl (Value_Error ''queue does not belong to swarm'') else Inr lane)"

definition scoped_subject :: "string \<Rightarrow> string \<Rightarrow> string \<Rightarrow> fault + string" where
  "scoped_subject swarm kind logical =
    and_then (event_subject swarm [kind]) (\<lambda>prefix.
      if kind = ''dead'' then
        (if logical = ''dead.'' @ swarm then Inr (prefix @ ''.event'')
         else let l = remove_prefix (''dead.'' @ swarm @ ''.'') logical
              in Inr (prefix @ ''.'' @ (if l = ''dead.>'' then ''>'' else l)))
      else if logical \<in> {bus_prefix @ ''.>'', bus_prefix @ ''.*.>''} then Inr (prefix @ ''.>'')
      else if starts_with (bus_prefix @ ''.*.'') logical
      then Inr (prefix @ ''.'' @ remove_prefix (bus_prefix @ ''.*.'') logical)
      else if starts_with (bus_prefix @ ''.'' @ swarm @ ''.'') logical
      then Inr (prefix @ ''.'' @ remove_prefix (bus_prefix @ ''.'' @ swarm @ ''.'') logical)
      else if starts_with (bus_prefix @ ''.'') logical
      then Inl (Value_Error ''subject does not belong to swarm'')
      else Inr (prefix @ ''.'' @ logical))"

section \<open>Envelopes\<close>

record envelope =
  ev_id :: string
  ev_type :: string
  ev_swarm :: string
  ev_entity :: string
  ev_key :: string
  ev_version :: int
  ev_time :: int
  ev_author :: string
  ev_data :: jdict
  ev_cause :: "string option"
  ev_schema_version :: int

definition envelope_check :: "envelope \<Rightarrow> fault + envelope" where
  "envelope_check e =
    (if ev_schema_version e \<noteq> 1 then Inl (Value_Error ''unsupported event schema version'')
     else if ev_id e = [] \<or> ev_type e = [] \<or> ev_swarm e = [] \<or> ev_entity e = [] \<or> ev_key e = [] \<or> ev_author e = []
     then Inl (Value_Error ''event field must be non empty text'')
     else if ev_version e < 0 \<or> ev_time e < 0 then Inl (Value_Error ''event field must be a non negative integer'')
     else if ev_cause e = Some [] then Inl (Value_Error ''event cause must be non empty text or None'')
     else Inr e)"

definition envelope_dict :: "envelope \<Rightarrow> jdict" where
  "envelope_dict e =
    [(''author'', JStr (ev_author e)), (''cause'', (case ev_cause e of None \<Rightarrow> JNull | Some s \<Rightarrow> JStr s)),
     (''data'', JObj (ev_data e)), (''entity'', JStr (ev_entity e)), (''id'', JStr (ev_id e)),
     (''key'', JStr (ev_key e)), (''schema_version'', JInt (ev_schema_version e)),
     (''swarm'', JStr (ev_swarm e)), (''time'', JInt (ev_time e)), (''type'', JStr (ev_type e)),
     (''version'', JInt (ev_version e))]"

definition field_str :: "jdict \<Rightarrow> string \<Rightarrow> fault + string" where
  "field_str d k = (case jget d k of JStr s \<Rightarrow> (if s = [] then Inl (Value_Error ''event field must be non empty text'') else Inr s)
     | _ \<Rightarrow> Inl (Value_Error ''event field must be non empty text''))"

definition field_int :: "jdict \<Rightarrow> string \<Rightarrow> fault + int" where
  "field_int d k = (case jget d k of JInt i \<Rightarrow> (if i < 0 then Inl (Value_Error ''event field must be a non negative integer'') else Inr i)
     | _ \<Rightarrow> Inl (Value_Error ''event field must be a non negative integer''))"

definition envelope_of :: "jdict \<Rightarrow> fault + envelope" where
  "envelope_of d =
    (if set (dkeys d) \<noteq> set (dkeys (envelope_dict
          \<lparr>ev_id = [], ev_type = [], ev_swarm = [], ev_entity = [], ev_key = [], ev_version = 0, ev_time = 0,
           ev_author = [], ev_data = [], ev_cause = None, ev_schema_version = 1\<rparr>))
     then Inl (Value_Error ''event envelope fields differ'')
     else if jget d ''schema_version'' \<noteq> JInt 1 then Inl (Value_Error ''unsupported event schema version'')
     else and_then (field_str d ''id'') (\<lambda>i. and_then (field_str d ''type'') (\<lambda>t.
       and_then (field_str d ''swarm'') (\<lambda>s. and_then (field_str d ''entity'') (\<lambda>en.
       and_then (field_str d ''key'') (\<lambda>k. and_then (field_str d ''author'') (\<lambda>a.
       and_then (field_int d ''version'') (\<lambda>v. and_then (field_int d ''time'') (\<lambda>tm.
       and_then (case jget d ''cause'' of JNull \<Rightarrow> Inr None
                 | JStr c \<Rightarrow> (if c = [] then Inl (Value_Error ''event cause must be non empty text or None'') else Inr (Some c))
                 | _ \<Rightarrow> Inl (Value_Error ''event cause must be non empty text or None'')) (\<lambda>c.
       and_then (case jget d ''data'' of JObj dd \<Rightarrow> Inr dd | _ \<Rightarrow> Inl (Value_Error ''event data must be a dict'')) (\<lambda>dd.
       envelope_check \<lparr>ev_id = i, ev_type = t, ev_swarm = s, ev_entity = en, ev_key = k, ev_version = v,
         ev_time = tm, ev_author = a, ev_data = dd, ev_cause = c, ev_schema_version = 1\<rparr>)))))))))))"

text \<open>\<open>sha source id\<close> is the digest of the two; \<open>now\<close> the wall clock.\<close>

definition dead_letter :: "(string \<Rightarrow> string \<Rightarrow> string) \<Rightarrow> int \<Rightarrow> envelope \<Rightarrow> string \<Rightarrow> nat \<Rightarrow> fault + envelope" where
  "dead_letter sha now event source attempts =
    envelope_check (event\<lparr>ev_id := sha source (ev_id event), ev_type := ''dead_lettered'', ev_time := now,
      ev_cause := Some (ev_id event),
      ev_data := [(''attempts'', JInt (int attempts)), (''event'', JObj (envelope_dict event)),
        (''source'', JStr source)]\<rparr>)"

definition require_owner :: "string \<Rightarrow> envelope \<Rightarrow> fault + unit" where
  "require_owner swarm event =
    (if ev_swarm event \<noteq> swarm then Inl (Value_Error ''event swarm does not match bus swarm'') else Inr ())"

section \<open>Policies\<close>

record queue_policy =
  qp_max_deliver :: nat
  qp_ack_wait_ms :: int
  qp_backoff_ms :: "int list"
  qp_inactive_ms :: "int option"

definition policy_check :: "queue_policy \<Rightarrow> fault + queue_policy" where
  "policy_check p =
    (if qp_max_deliver p = 0 then Inl (Value_Error ''queue max deliver must be a positive integer'')
     else if qp_ack_wait_ms p \<le> 0 then Inl (Value_Error ''queue ack wait must be a positive integer'')
     else if \<not> list_all (\<lambda>b. 0 \<le> b) (qp_backoff_ms p)
     then Inl (Value_Error ''queue backoff must be a tuple of non negative integers'')
     else if length (qp_backoff_ms p) > qp_max_deliver p then Inl (Value_Error ''queue backoff has too many steps'')
     else if (case qp_inactive_ms p of None \<Rightarrow> False | Some i \<Rightarrow> i \<le> 0)
     then Inl (Value_Error ''queue inactive threshold must be a positive integer'')
     else Inr p)"

definition wait_ms :: "queue_policy \<Rightarrow> nat \<Rightarrow> int" where
  "wait_ms p attempt =
    (if qp_backoff_ms p \<noteq> [] then qp_backoff_ms p ! (min attempt (length (qp_backoff_ms p)) - 1)
     else qp_ack_wait_ms p)"

section \<open>Dedupe\<close>

record dedupe =
  dd_window_ms :: int
  dd_seen :: "(string, int) dict"

definition dedupe_first :: "string \<Rightarrow> int \<Rightarrow> dedupe \<Rightarrow> bool \<times> dedupe" where
  "dedupe_first event_id now d =
    (let seen = filter (\<lambda>(k, t). now - t < dd_window_ms d) (dd_seen d)
     in if dhas seen event_id then (False, d\<lparr>dd_seen := seen\<rparr>)
        else (True, d\<lparr>dd_seen := dset event_id now seen\<rparr>))"

section \<open>The event log\<close>

record event_log =
  el_entries :: "(string \<times> envelope) list"
  el_dedupe :: dedupe

definition log_publish :: "bool \<Rightarrow> string \<Rightarrow> envelope \<Rightarrow> int \<Rightarrow> event_log \<Rightarrow> (fault + bool) \<times> event_log" where
  "log_publish shut subject event now lg =
    (if shut then (Inl (Runtime_Error ''bus is closed''), lg)
     else let (fresh, d) = dedupe_first (ev_id event) now (el_dedupe lg)
          in if \<not> fresh then (Inr False, lg\<lparr>el_dedupe := d\<rparr>)
             else (Inr True, lg\<lparr>el_dedupe := d, el_entries := el_entries lg @ [(subject, event)]\<rparr>))"

definition scoped_publish ::
  "string \<Rightarrow> string \<Rightarrow> bool \<Rightarrow> string \<Rightarrow> envelope \<Rightarrow> int \<Rightarrow> event_log \<Rightarrow> (fault + bool) \<times> event_log" where
  "scoped_publish swarm kind shut subject event now lg =
    (case require_owner swarm event of
      Inl e \<Rightarrow> (Inl e, lg)
    | Inr _ \<Rightarrow>
        (case scoped_subject swarm kind subject of
          Inl e \<Rightarrow> (Inl e, lg)
        | Inr s \<Rightarrow> log_publish shut s event now lg))"

section \<open>Redelivery\<close>

text \<open>
  A queued message; \<open>ms_no\<close> stands for the identity of the Python object. The source of a queue
  is its own offers (nothing to pull) or, for a consumer, the part of the log behind its cursor.
\<close>

record message =
  ms_no :: nat
  ms_event :: envelope
  ms_attempt :: nat
  ms_ready_at :: int
  ms_settled :: bool

record pending_queue =
  pq_messages :: "message list"
  pq_next :: nat
  pq_cursor :: nat
  pq_dead :: "event_log option"

record queue_env =
  qe_policy :: queue_policy
  qe_identity :: string
  qe_sha :: "string \<Rightarrow> string \<Rightarrow> string"
  qe_pattern :: string
  qe_source :: "(string \<times> envelope) list"

definition pending_add :: "envelope \<Rightarrow> pending_queue \<Rightarrow> pending_queue" where
  "pending_add event q =
    q\<lparr>pq_messages := pq_messages q @
        [\<lparr>ms_no = pq_next q, ms_event = event, ms_attempt = 0, ms_ready_at = 0, ms_settled = False\<rparr>],
      pq_next := pq_next q + 1\<rparr>"

text \<open>\<open>_pull\<close>: the entries behind the cursor that match; an offer queue has an empty source.\<close>

definition pending_pull :: "queue_env \<Rightarrow> pending_queue \<Rightarrow> pending_queue" where
  "pending_pull qe q =
    (let entries = drop (pq_cursor q) (qe_source qe)
     in fold pending_add (map snd (filter (\<lambda>(subject, event). subject_matches (qe_pattern qe) subject) entries))
          (q\<lparr>pq_cursor := pq_cursor q + length entries\<rparr>))"

definition exhausted :: "queue_env \<Rightarrow> int \<Rightarrow> nat list \<Rightarrow> message \<Rightarrow> bool" where
  "exhausted qe now taken m \<longleftrightarrow> ms_no m \<notin> set taken \<and> \<not> ms_settled m \<and>
     ms_attempt m \<ge> qp_max_deliver (qe_policy qe) \<and> ms_ready_at m \<le> now"

fun bury :: "queue_env \<Rightarrow> bool \<Rightarrow> int \<Rightarrow> int \<Rightarrow> nat list \<Rightarrow> message list \<Rightarrow> event_log option \<Rightarrow>
    fault + message list \<times> event_log option" where
  "bury qe shut wall now taken [] dead = Inr ([], dead)"
| "bury qe shut wall now taken (m # ms) dead =
    (if exhausted qe now taken m then
       (case dead of
          None \<Rightarrow> and_then (bury qe shut wall now taken ms dead) (\<lambda>(ms', dead'). Inr (m\<lparr>ms_settled := True\<rparr> # ms', dead'))
        | Some lg \<Rightarrow>
            and_then (dead_letter (qe_sha qe) wall (ms_event m) (qe_identity qe) (ms_attempt m)) (\<lambda>letter.
              case log_publish shut (''dead.'' @ ev_swarm (ms_event m)) letter now lg of
                (Inl e, _) \<Rightarrow> Inl e
              | (Inr _, lg') \<Rightarrow>
                  and_then (bury qe shut wall now taken ms (Some lg')) (\<lambda>(ms', dead').
                    Inr (m\<lparr>ms_settled := True\<rparr> # ms', dead'))))
     else and_then (bury qe shut wall now taken ms dead) (\<lambda>(ms', dead'). Inr (m # ms', dead')))"

definition pending_ready :: "queue_env \<Rightarrow> bool \<Rightarrow> int \<Rightarrow> int \<Rightarrow> nat list \<Rightarrow> pending_queue \<Rightarrow>
    fault + message option \<times> pending_queue" where
  "pending_ready qe shut wall now taken q =
    (let q1 = pending_pull qe q
     in and_then (bury qe shut wall now taken (pq_messages q1) (pq_dead q1)) (\<lambda>(ms, dead).
          let left = filter (\<lambda>m. \<not> ms_settled m) ms
          in Inr (find (\<lambda>m. ms_ready_at m \<le> now \<and> ms_no m \<notin> set taken) left,
                  q1\<lparr>pq_messages := left, pq_dead := dead\<rparr>)))"

definition bump_message :: "nat \<Rightarrow> nat \<Rightarrow> int \<Rightarrow> pending_queue \<Rightarrow> pending_queue" where
  "bump_message no attempt ready_at q =
    q\<lparr>pq_messages := map (\<lambda>m. if ms_no m = no then m\<lparr>ms_attempt := attempt, ms_ready_at := ready_at\<rparr> else m)
       (pq_messages q)\<rparr>"

text \<open>Two clock readings for each turn of the loop: one to find a message, one for its next due time.\<close>

fun take_loop :: "queue_env \<Rightarrow> bool \<Rightarrow> int \<Rightarrow> (nat \<Rightarrow> int) \<Rightarrow> nat \<Rightarrow> nat list \<Rightarrow> (nat \<times> nat) list \<Rightarrow> pending_queue \<Rightarrow>
    fault + (nat \<times> nat) list \<times> pending_queue" where
  "take_loop qe shut wall clk 0 taken got q = Inr (got, q)"
| "take_loop qe shut wall clk (Suc n) taken got q =
    and_then (pending_ready qe shut wall (clk 0) taken q) (\<lambda>(found, q1).
      case found of
        None \<Rightarrow> Inr (got, q1)
      | Some m \<Rightarrow>
          let attempt = ms_attempt m + 1
          in take_loop qe shut wall (\<lambda>i. clk (i + 2)) n (taken @ [ms_no m]) (got @ [(ms_no m, attempt)])
               (bump_message (ms_no m) attempt (clk 1 + wait_ms (qe_policy qe) attempt) q1))"

text \<open>
  A take that finds nothing gives the lock up for a while: \<open>meanwhile\<close> is what the others do then.
\<close>

definition pending_take :: "queue_env \<Rightarrow> bool \<Rightarrow> int \<Rightarrow> (nat \<Rightarrow> int) \<Rightarrow> (pending_queue \<Rightarrow> pending_queue) \<Rightarrow> nat \<Rightarrow>
    pending_queue \<Rightarrow> fault + (nat \<times> nat) list \<times> pending_queue" where
  "pending_take qe shut wall clk meanwhile batch q =
    (if shut then take_loop qe shut wall clk batch [] [] q
     else and_then (pending_ready qe shut wall (clk 0) [] q) (\<lambda>(found, q1).
       take_loop qe shut wall (\<lambda>i. clk (i + 1)) batch [] []
         (case found of None \<Rightarrow> meanwhile q1 | Some _ \<Rightarrow> q1)))"

definition pending_settle :: "nat \<Rightarrow> nat \<Rightarrow> pending_queue \<Rightarrow> pending_queue" where
  "pending_settle no attempt q =
    q\<lparr>pq_messages := map (\<lambda>m. if ms_no m = no \<and> ms_attempt m = attempt then m\<lparr>ms_settled := True\<rparr> else m)
       (pq_messages q)\<rparr>"

definition pending_retry :: "nat \<Rightarrow> nat \<Rightarrow> int \<Rightarrow> int \<Rightarrow> pending_queue \<Rightarrow> pending_queue" where
  "pending_retry no attempt delay_ms now q =
    q\<lparr>pq_messages := map (\<lambda>m. if ms_no m = no \<and> ms_attempt m = attempt \<and> \<not> ms_settled m
       then m\<lparr>ms_ready_at := now + delay_ms\<rparr> else m) (pq_messages q)\<rparr>"

record work_queue =
  wq_dedupe :: dedupe
  wq_pending :: pending_queue

definition queue_offer :: "bool \<Rightarrow> envelope \<Rightarrow> int \<Rightarrow> work_queue \<Rightarrow> (fault + bool) \<times> work_queue" where
  "queue_offer shut event now wq =
    (if shut then (Inl (Runtime_Error ''bus is closed''), wq)
     else let (fresh, d) = dedupe_first (ev_id event) now (wq_dedupe wq)
          in if \<not> fresh then (Inr False, wq\<lparr>wq_dedupe := d\<rparr>)
             else (Inr True, wq\<lparr>wq_dedupe := d, wq_pending := pending_add event (wq_pending wq)\<rparr>))"

text \<open>\<open>MemoryEventLog.consumer\<close>: a durable name keeps its filter and its policy.\<close>

definition log_consumer ::
  "string \<Rightarrow> string \<Rightarrow> queue_policy \<Rightarrow> (string, string \<times> queue_policy \<times> pending_queue) dict \<Rightarrow>
   event_log option \<Rightarrow> fault + (string, string \<times> queue_policy \<times> pending_queue) dict" where
  "log_consumer durable subject policy consumers dead =
    (case dget consumers durable of
      None \<Rightarrow> Inr (dset durable (subject, policy,
          \<lparr>pq_messages = [], pq_next = 0, pq_cursor = 0, pq_dead = dead\<rparr>) consumers)
    | Some (subject', policy', _) \<Rightarrow>
        if subject' \<noteq> subject then Inl (Value_Error ''durable consumer has another filter'')
        else if policy' \<noteq> policy then Inl (Value_Error ''durable consumer already has another policy'')
        else Inr consumers)"

text \<open>\<open>serve\<close> and \<open>request\<close>: the first handler whose pattern matches answers.\<close>

definition bus_request ::
  "bool \<Rightarrow> string option \<Rightarrow> (string \<times> (string \<Rightarrow> string \<Rightarrow> 'a)) list \<Rightarrow> string \<Rightarrow> string \<Rightarrow> fault + 'a" where
  "bus_request shut own handlers subject payload =
    (if (case own of None \<Rightarrow> False | Some swarm \<Rightarrow> \<not> in_swarm swarm subject)
     then Inl (Value_Error ''a scoped bus cannot request outside its swarm'')
     else if shut then Inl (Runtime_Error ''bus is closed'')
     else case find (\<lambda>(pattern, h). subject_matches pattern subject) handlers of
            None \<Rightarrow> Inl Timeout
          | Some (_, h) \<Rightarrow> Inr (h subject payload))"

end
