(* ===== verification/Launch_Grants.thy ===== *)
theory Launch_Grants
  imports Execution Event_Bus
begin

text \<open>
  Launch grants (\<open>scripts/swarm_v2/auth_context.py\<close>): the signed claims a worker is launched with,
  their audit rows in the fencing document, and the registration of an execution under its grant.
  Base64 with JSON (\<open>encode\<close>, \<open>decode\<close>) and the encoded HMAC under the controller's key (\<open>mac\<close>)
  are parameters; a time stamp is kept as its whole seconds, and \<open>la_stamp\<close> is its text where the
  document keeps the text. The count of refusals by class, a Redis hash, is \<open>grant_refusals\<close>.
\<close>

section \<open>Texts\<close>

definition alnum :: "char \<Rightarrow> bool" where
  "alnum ch \<longleftrightarrow> (let n = (of_char ch :: nat) in (48 \<le> n \<and> n \<le> 57) \<or> (65 \<le> n \<and> n \<le> 90) \<or> (97 \<le> n \<and> n \<le> 122))"

definition is_identifier :: "string \<Rightarrow> bool" where
  "is_identifier s \<longleftrightarrow> s \<noteq> [] \<and> length s \<le> 128 \<and> alnum (hd s) \<and> list_all (\<lambda>ch. alnum ch \<or> ch \<in> set ''._@-'') (tl s)"

definition is_grant_id :: "string \<Rightarrow> bool" where
  "is_grant_id s \<longleftrightarrow> take 4 s = ''lgr-'' \<and> length s = 36 \<and> list_all is_hex (drop 4 s)"

definition project_part :: "string \<Rightarrow> bool" where
  "project_part s \<longleftrightarrow> s \<noteq> [] \<and> list_all (\<lambda>ch. alnum ch \<or> ch \<in> set ''._-'') s"

definition is_project :: "string \<Rightarrow> bool" where
  "is_project s \<longleftrightarrow>
    (if starts_with ''github.com/'' s then
       (case split_on CHR ''/'' (drop 11 s) of [owner, repo] \<Rightarrow> project_part owner \<and> project_part repo | _ \<Rightarrow> False)
     else starts_with ''local:'' s \<and> project_part (drop 6 s))"

definition json_text :: "(string \<Rightarrow> bool) \<Rightarrow> json \<Rightarrow> bool" where
  "json_text ok v = (case v of JStr s \<Rightarrow> ok s | _ \<Rightarrow> False)"

section \<open>Claims\<close>

definition bound_fields :: "string list" where
  "bound_fields = [''swarm_id'', ''execution_id'', ''generation'', ''seat_id'', ''task_id'', ''account'', ''brain_id'', ''project_ids'']"

definition audit_fields :: "string list" where
  "audit_fields = [''grant_id'', ''issuer'', ''audience'', ''key_id'']"

definition claim_fields :: "string list" where
  "claim_fields = bound_fields @ audit_fields @ [''schema_version'', ''issued_at'', ''expires_at'']"

definition named_fields :: "string list" where
  "named_fields = [''issuer'', ''audience'', ''key_id'', ''swarm_id'', ''execution_id'', ''seat_id'', ''task_id'', ''account'', ''brain_id'']"

definition jtext :: "jdict \<Rightarrow> string \<Rightarrow> string" where
  "jtext d k = (case jget d k of JStr s \<Rightarrow> s | _ \<Rightarrow> '''')"

definition jint :: "jdict \<Rightarrow> string \<Rightarrow> int" where
  "jint d k = (case jget d k of JInt i \<Rightarrow> i | _ \<Rightarrow> 0)"

definition jtexts :: "jdict \<Rightarrow> string \<Rightarrow> string list" where
  "jtexts d k = (case jget d k of JList vs \<Rightarrow> map (\<lambda>v. case v of JStr s \<Rightarrow> s | _ \<Rightarrow> '''') vs | _ \<Rightarrow> [])"

definition is_stamp :: "json \<Rightarrow> bool" where
  "is_stamp v = (case v of JInt _ \<Rightarrow> True | _ \<Rightarrow> False)"

definition claims_valid :: "jdict \<Rightarrow> bool" where
  "claims_valid d \<longleftrightarrow>
     list_all (\<lambda>name. json_text is_identifier (jget d name)) named_fields \<and>
     json_text is_grant_id (jget d ''grant_id'') \<and>
     (case jget d ''generation'' of JInt g \<Rightarrow> g > 0 | _ \<Rightarrow> False) \<and>
     (case jget d ''project_ids'' of
        JList ps \<Rightarrow> ps \<noteq> [] \<and> list_all (json_text is_project) ps \<and> sorted_wrt (<) (jtexts d ''project_ids'')
      | _ \<Rightarrow> False) \<and>
     is_stamp (jget d ''issued_at'') \<and> is_stamp (jget d ''expires_at'')"

section \<open>The authority\<close>

record launch_authority =
  la_slug :: string
  la_key_id :: string
  la_issuer :: string
  la_audience :: string
  la_ttl :: int
  la_encode :: "jdict \<Rightarrow> string"
  la_decode :: "string \<Rightarrow> json option"
  la_mac :: "string \<Rightarrow> string"
  la_stamp :: "int \<Rightarrow> string"

definition launch_authority_ok :: "int \<Rightarrow> fault + unit" where
  "launch_authority_ok ttl =
    (if 0 < ttl \<and> ttl \<le> 900 then Inr () else Inl (Value_Error ''launch grant lifetime must be between 1 and 900 seconds''))"

definition grant_refuse :: "string \<Rightarrow> string \<Rightarrow> fault + 'a" where
  "grant_refuse cls msg = Inl (Grant_Refused cls msg)"

text \<open>\<open>refuse\<close> counts before it raises, and nothing catches what it raises.\<close>

definition grant_refusals :: "fault + 'a \<Rightarrow> (string, int) dict \<Rightarrow> (string, int) dict" where
  "grant_refusals res counts =
    (case res of
      Inl (Grant_Refused cls msg) \<Rightarrow> dset cls ((case dget counts cls of None \<Rightarrow> 0 | Some n \<Rightarrow> n) + 1) counts
    | _ \<Rightarrow> counts)"

definition grant_sign :: "launch_authority \<Rightarrow> jdict \<Rightarrow> string" where
  "grant_sign la claims =
    (let signed = ''v2.'' @ la_encode la claims in signed @ ''.'' @ la_mac la signed)"

definition check_claims :: "launch_authority \<Rightarrow> int \<Rightarrow> jdict \<Rightarrow> fault + unit" where
  "check_claims la now d =
    (if jtext d ''key_id'' \<noteq> la_key_id la then grant_refuse ''unauthenticated'' ''launch grant names another signing key''
     else if jtext d ''issuer'' \<noteq> la_issuer la then grant_refuse ''unauthenticated'' ''launch grant is from another issuer''
     else if jtext d ''audience'' \<noteq> la_audience la then grant_refuse ''unauthenticated'' ''launch grant is for another audience''
     else if now < jint d ''issued_at'' then grant_refuse ''unauthenticated'' ''launch grant is not yet valid''
     else if now \<ge> jint d ''expires_at'' then grant_refuse ''unauthenticated'' ''launch grant has expired''
     else if jtext d ''swarm_id'' \<noteq> la_slug la then grant_refuse ''forbidden_scope'' ''launch grant belongs to another swarm''
     else Inr ())"

definition grant_verify :: "launch_authority \<Rightarrow> int \<Rightarrow> string \<Rightarrow> fault + jdict" where
  "grant_verify la now token =
    (case split_on CHR ''.'' token of
      [version, payload, signature] \<Rightarrow>
        if version \<noteq> ''v2'' then grant_refuse ''unauthenticated'' ''launch grant is malformed''
        else if la_mac la (version @ ''.'' @ payload) \<noteq> signature
        then grant_refuse ''unauthenticated'' ''launch grant signature is invalid''
        else (case la_decode la payload of
                Some (JObj d) \<Rightarrow>
                  if jget d ''schema_version'' \<noteq> JStr ''2.0'' then grant_refuse ''invalid_request'' ''unsupported launch grant version''
                  else if set (dkeys d) \<noteq> set claim_fields \<or> \<not> claims_valid d
                  then grant_refuse ''unauthenticated'' ''launch grant is malformed''
                  else and_then (check_claims la now d) (\<lambda>_. Inr d)
              | _ \<Rightarrow> grant_refuse ''unauthenticated'' ''launch grant is malformed'')
    | _ \<Rightarrow> grant_refuse ''unauthenticated'' ''launch grant is malformed'')"

definition check_body :: "jdict \<Rightarrow> json \<Rightarrow> fault + unit" where
  "check_body claims body =
    (case body of
      JObj b \<Rightarrow>
        if \<exists>k \<in> set (dkeys b). k \<notin> set bound_fields
        then grant_refuse ''invalid_request'' ''registration names an unsupported identity field''
        else if \<not> dhas b ''execution_id'' \<or> \<not> dhas b ''generation''
        then grant_refuse ''invalid_request'' ''registration must name its execution and generation''
        else if \<exists>name \<in> set bound_fields. dhas b name \<and> jget b name \<noteq> jget claims name
        then grant_refuse ''forbidden_scope'' ''registration is outside the launch grant''
        else Inr ()
    | _ \<Rightarrow> grant_refuse ''invalid_request'' ''registration body must be an object'')"

section \<open>Changes of the document\<close>

definition occupant_ids :: "fdoc \<Rightarrow> string list" where
  "occupant_ids doc = map ag_execution_id (dvals (occupants_of doc))"

definition occupant_lives :: "fdoc \<Rightarrow> (string \<times> int) list" where
  "occupant_lives doc = map (\<lambda>a. (ag_execution_id a, ag_generation a)) (dvals (occupants_of doc))"

definition record_grant :: "string \<Rightarrow> grant_audit \<Rightarrow> fdoc \<Rightarrow> fault + unit \<times> fdoc" where
  "record_grant execution_id audit doc =
    (if fd_grants_disabled doc \<noteq> '''' then grant_refuse ''forbidden_scope'' ''launch grants are disabled for this swarm''
     else if execution_id \<notin> set (occupant_ids doc)
     then grant_refuse ''stale_generation'' ''execution is not the current attempt of its seat''
     else Inr ((), doc\<lparr>fd_grants := dset (gr_grant_id audit) audit (fd_grants doc)\<rparr>))"

definition grant_issued :: "fdoc \<Rightarrow> jdict \<Rightarrow> fault + grant_audit" where
  "grant_issued doc claims =
    (case dget (fd_grants doc) (jtext claims ''grant_id'') of
      None \<Rightarrow> grant_refuse ''unauthenticated'' ''launch grant was not issued by this controller''
    | Some audit \<Rightarrow>
        if gr_state audit = ''revoked'' then grant_refuse ''unauthenticated'' ''launch grant was revoked'' else Inr audit)"

definition registration_of :: "jdict \<Rightarrow> int \<Rightarrow> registration" where
  "registration_of d at_s =
    \<lparr>rg_grant_id = jtext d ''grant_id'', rg_swarm_id = jtext d ''swarm_id'', rg_execution_id = jtext d ''execution_id'',
     rg_generation = jint d ''generation'', rg_seat_id = jtext d ''seat_id'', rg_task_id = jtext d ''task_id'',
     rg_account = jtext d ''account'', rg_brain_id = jtext d ''brain_id'', rg_project_ids = jtexts d ''project_ids'',
     rg_issuer = jtext d ''issuer'', rg_audience = jtext d ''audience'', rg_key_id = jtext d ''key_id'', rg_registered_at = at_s\<rparr>"

definition admit_grant :: "int \<Rightarrow> jdict \<Rightarrow> fdoc \<Rightarrow> fault + registration \<times> fdoc" where
  "admit_grant now claims doc =
    and_then (grant_issued doc claims) (\<lambda>audit.
      let execution_id = jtext claims ''execution_id''; grant_id = jtext claims ''grant_id''
      in if (execution_id, jint claims ''generation'') \<notin> set (occupant_lives doc)
         then grant_refuse ''stale_generation'' ''launch grant is for a superseded execution''
         else case dget (fd_executions doc) execution_id of
                None \<Rightarrow> Inl (Key_Error execution_id)
              | Some row \<Rightarrow>
                  if ag_state row = ''ended'' then grant_refuse ''stale_generation'' ''launch grant is for an ended execution''
                  else case dget (fd_registrations doc) execution_id of
                         Some existing \<Rightarrow>
                           if rg_grant_id existing \<noteq> grant_id
                           then grant_refuse ''forbidden_scope'' ''execution is already registered under another launch grant''
                           else Inr (existing, doc)
                       | None \<Rightarrow>
                           if fd_grants_disabled doc \<noteq> ''''
                           then grant_refuse ''forbidden_scope'' ''launch grants are disabled for this swarm''
                           else let reg = registration_of claims now
                                in Inr (reg, doc\<lparr>fd_registrations := dset execution_id reg (fd_registrations doc),
                                     fd_grants := dset grant_id (audit\<lparr>gr_state := ''registered''\<rparr>) (fd_grants doc)\<rparr>))"

definition rewrite_grant ::
  "string \<Rightarrow> (grant_audit \<Rightarrow> fault + grant_audit option) \<Rightarrow> fdoc \<Rightarrow> fault + grant_audit option \<times> fdoc" where
  "rewrite_grant grant_id change doc =
    (case dget (fd_grants doc) grant_id of
      None \<Rightarrow> Inl (Key_Error grant_id)
    | Some audit \<Rightarrow>
        and_then (change audit) (\<lambda>out.
          case out of
            None \<Rightarrow> Inr (None, doc)
          | Some audit1 \<Rightarrow> Inr (Some audit1, doc\<lparr>fd_grants := dset grant_id audit1 (fd_grants doc)\<rparr>)))"

definition extend_grant :: "int \<Rightarrow> grant_audit \<Rightarrow> fault + grant_audit option" where
  "extend_grant expires audit =
    (if gr_state audit = ''revoked'' then grant_refuse ''unauthenticated'' ''launch grant was revoked''
     else Inr (Some (audit\<lparr>gr_expires_at := expires,
            gr_renewals := Some ((case gr_renewals audit of None \<Rightarrow> 0 | Some n \<Rightarrow> n) + 1)\<rparr>)))"

definition revoke_grant :: "grant_audit \<Rightarrow> fault + grant_audit option" where
  "revoke_grant audit = Inr (if gr_state audit = ''revoked'' then None else Some (audit\<lparr>gr_state := ''revoked''\<rparr>))"

definition disable_grants :: "string \<Rightarrow> fdoc \<Rightarrow> fault + string list \<times> fdoc" where
  "disable_grants stamp doc =
    (let issued = sort (map fst (filter (\<lambda>(k, audit). gr_state audit = ''issued'') (fd_grants doc)))
     in Inr (issued, doc\<lparr>fd_grants_disabled := stamp,
          fd_grants := map (\<lambda>(k, audit). (k, if k \<in> set issued then audit\<lparr>gr_state := ''revoked''\<rparr> else audit)) (fd_grants doc)\<rparr>))"

definition enable_grants :: "fdoc \<Rightarrow> fault + unit \<times> fdoc" where
  "enable_grants doc = Inr ((), doc\<lparr>fd_grants_disabled := ''''\<rparr>)"

section \<open>The operations\<close>

definition grant_write ::
  "fctx \<Rightarrow> (fault + 'r) \<Rightarrow> string \<Rightarrow> (fdoc \<Rightarrow> fault + 'r \<times> fdoc) \<Rightarrow> (fworld \<Rightarrow> fworld) list \<Rightarrow> fworld \<Rightarrow> (fault + 'r) \<times> fworld" where
  "grant_write c moved gave_up change others w =
    (case fencing_write c moved (plain_change change) others w of
      (Inl e, w1) \<Rightarrow> (if e = contention then grant_refuse ''dependency_unavailable'' gave_up else Inl e, w1)
    | out \<Rightarrow> out)"

definition issue_claims :: "launch_authority \<Rightarrow> int \<Rightarrow> string \<Rightarrow> agent_record \<Rightarrow> string list \<Rightarrow> string \<Rightarrow> string \<Rightarrow> jdict" where
  "issue_claims la now uuid execution project_ids brain_id account =
    [(''account'', JStr account), (''audience'', JStr (la_audience la)), (''brain_id'', JStr brain_id),
     (''execution_id'', JStr (ag_execution_id execution)), (''expires_at'', JInt (now + la_ttl la)),
     (''generation'', JInt (ag_generation execution)), (''grant_id'', JStr (''lgr-'' @ uuid)), (''issued_at'', JInt now),
     (''issuer'', JStr (la_issuer la)), (''key_id'', JStr (la_key_id la)),
     (''project_ids'', JList (map JStr (sort (remdups project_ids)))), (''schema_version'', JStr ''2.0''),
     (''seat_id'', JStr (ag_seat execution)), (''swarm_id'', JStr (la_slug la)), (''task_id'', JStr (ag_task execution))]"

definition issue_audit :: "launch_authority \<Rightarrow> int \<Rightarrow> string \<Rightarrow> agent_record \<Rightarrow> grant_audit" where
  "issue_audit la now uuid execution =
    \<lparr>gr_grant_id = ''lgr-'' @ uuid, gr_issuer = la_issuer la, gr_audience = la_audience la, gr_key_id = la_key_id la,
     gr_execution_id = ag_execution_id execution, gr_generation = ag_generation execution, gr_issued_at = now,
     gr_expires_at = now + la_ttl la, gr_state = ''issued'', gr_renewals = None\<rparr>"

definition grant_issue ::
  "launch_authority \<Rightarrow> fctx \<Rightarrow> (fault + unit) \<Rightarrow> int \<Rightarrow> string \<Rightarrow> agent_record \<Rightarrow> string list \<Rightarrow> string \<Rightarrow> string \<Rightarrow>
   (fworld \<Rightarrow> fworld) list \<Rightarrow> fworld \<Rightarrow> (fault + string) \<times> fworld" where
  "grant_issue la c moved now uuid execution project_ids brain_id account others w =
    (if \<not> is_identifier (ag_task execution) \<or> \<not> is_identifier (ag_seat execution)
     then (grant_refuse ''invalid_request'' ''execution task or seat is not an identifier'', w)
     else if project_ids = [] then (grant_refuse ''invalid_request'' ''a launch grant needs at least one project'', w)
     else if \<not> list_all is_project project_ids
     then (grant_refuse ''invalid_request'' ''launch grant project is not a canonical project ID'', w)
     else if \<not> is_identifier brain_id then (grant_refuse ''invalid_request'' ''launch grant brain is not an identifier'', w)
     else if \<not> is_identifier account then (grant_refuse ''invalid_request'' ''launch grant account is not an identifier'', w)
     else (case grant_write c moved ''launch grants kept changing; the grant was not issued''
               (record_grant (ag_execution_id execution) (issue_audit la now uuid execution)) others w of
             (Inl e, w1) \<Rightarrow> (Inl e, w1)
           | (Inr _, w1) \<Rightarrow> (Inr (grant_sign la (issue_claims la now uuid execution project_ids brain_id account)), w1)))"

definition grant_commit ::
  "launch_authority \<Rightarrow> fctx \<Rightarrow> (fault + registration) \<Rightarrow> int \<Rightarrow> string \<Rightarrow> json \<Rightarrow> (fworld \<Rightarrow> fworld) list \<Rightarrow> fworld \<Rightarrow>
   (fault + registration) \<times> fworld" where
  "grant_commit la c moved now token body others w =
    (case and_then (grant_verify la now token) (\<lambda>claims. and_then (check_body claims body) (\<lambda>_. Inr claims)) of
      Inl e \<Rightarrow> (Inl e, w)
    | Inr claims \<Rightarrow>
        grant_write c moved ''launch registrations kept changing; registration was not committed'' (admit_grant now claims) others w)"

definition grant_check :: "launch_authority \<Rightarrow> fctx \<Rightarrow> (fault + fdoc) \<Rightarrow> int \<Rightarrow> string \<Rightarrow> fworld \<Rightarrow> (fault + registration) \<times> fworld" where
  "grant_check la c moved now token w =
    (case grant_verify la now token of
      Inl e \<Rightarrow> (Inl e, w)
    | Inr claims \<Rightarrow>
        (case fencing_read c moved w of
          (Inl e, w1) \<Rightarrow> (Inl e, w1)
        | (Inr doc, w1) \<Rightarrow> (and_then (grant_issued doc claims) (\<lambda>_. Inr (registration_of claims 0)), w1)))"

definition bound_in :: "fdoc \<Rightarrow> jdict \<Rightarrow> fault + registration" where
  "bound_in doc claims =
    (case dget (fd_registrations doc) (jtext claims ''execution_id'') of
      None \<Rightarrow> grant_refuse ''unauthenticated'' ''launch grant is not registered''
    | Some reg \<Rightarrow>
        if rg_grant_id reg \<noteq> jtext claims ''grant_id'' then grant_refuse ''unauthenticated'' ''launch grant is not registered''
        else case dget (fd_grants doc) (rg_grant_id reg) of
               None \<Rightarrow> Inl (Key_Error (rg_grant_id reg))
             | Some audit \<Rightarrow>
                 if gr_state audit = ''revoked'' then grant_refuse ''unauthenticated'' ''launch grant was revoked''
                 else if (jtext claims ''execution_id'', jint claims ''generation'') \<notin> set (occupant_lives doc)
                 then grant_refuse ''stale_generation'' ''launch grant is for a superseded execution''
                 else Inr reg)"

definition grant_bound :: "launch_authority \<Rightarrow> fctx \<Rightarrow> (fault + fdoc) \<Rightarrow> int \<Rightarrow> string \<Rightarrow> fworld \<Rightarrow> (fault + registration) \<times> fworld" where
  "grant_bound la c moved now token w =
    (case grant_verify la now token of
      Inl e \<Rightarrow> (Inl e, w)
    | Inr claims \<Rightarrow>
        (case fencing_read c moved w of
          (Inl e, w1) \<Rightarrow> (Inl e, w1)
        | (Inr doc, w1) \<Rightarrow> (bound_in doc claims, w1)))"

definition renewed_claims :: "launch_authority \<Rightarrow> int \<Rightarrow> registration \<Rightarrow> jdict" where
  "renewed_claims la now reg =
    [(''account'', JStr (rg_account reg)), (''audience'', JStr (rg_audience reg)), (''brain_id'', JStr (rg_brain_id reg)),
     (''execution_id'', JStr (rg_execution_id reg)), (''expires_at'', JInt (now + la_ttl la)),
     (''generation'', JInt (rg_generation reg)), (''grant_id'', JStr (rg_grant_id reg)), (''issued_at'', JInt now),
     (''issuer'', JStr (rg_issuer reg)), (''key_id'', JStr (rg_key_id reg)),
     (''project_ids'', JList (map JStr (rg_project_ids reg))), (''schema_version'', JStr ''2.0''),
     (''seat_id'', JStr (rg_seat_id reg)), (''swarm_id'', JStr (rg_swarm_id reg)), (''task_id'', JStr (rg_task_id reg))]"

definition grant_renew ::
  "launch_authority \<Rightarrow> fctx \<Rightarrow> (fault + fdoc) \<Rightarrow> (fault + grant_audit option) \<Rightarrow> int \<Rightarrow> string \<Rightarrow>
   (fworld \<Rightarrow> fworld) list \<Rightarrow> fworld \<Rightarrow> (fault + string \<times> int) \<times> fworld" where
  "grant_renew la c moved moved_write now token others w =
    (case grant_bound la c moved now token w of
      (Inl e, w1) \<Rightarrow> (Inl e, w1)
    | (Inr reg, w1) \<Rightarrow>
        (case grant_write c moved_write ''launch grants kept changing; the credential was not renewed''
               (rewrite_grant (rg_grant_id reg) (extend_grant (now + la_ttl la))) others w1 of
           (Inl e, w2) \<Rightarrow> (Inl e, w2)
         | (Inr _, w2) \<Rightarrow> (Inr (grant_sign la (renewed_claims la now reg), now + la_ttl la), w2)))"

definition grant_revoke ::
  "fctx \<Rightarrow> (fault + fdoc) \<Rightarrow> (fault + grant_audit option) \<Rightarrow> string \<Rightarrow> (fworld \<Rightarrow> fworld) list \<Rightarrow> fworld \<Rightarrow> (fault + bool) \<times> fworld" where
  "grant_revoke c moved moved_write execution_id others w =
    (case fencing_read c moved w of
      (Inl e, w1) \<Rightarrow> (Inl e, w1)
    | (Inr doc, w1) \<Rightarrow>
        (case dget (fd_registrations doc) execution_id of
           None \<Rightarrow> (Inr False, w1)
         | Some reg \<Rightarrow>
             (case grant_write c moved_write ''launch grants kept changing; the registration was not revoked''
                     (rewrite_grant (rg_grant_id reg) revoke_grant) others w1 of
                (Inl e, w2) \<Rightarrow> (Inl e, w2)
              | (Inr out, w2) \<Rightarrow> (Inr (out \<noteq> None), w2))))"

definition grant_withdraw ::
  "launch_authority \<Rightarrow> fctx \<Rightarrow> (fault + grant_audit option) \<Rightarrow> int \<Rightarrow> string \<Rightarrow> (fworld \<Rightarrow> fworld) list \<Rightarrow> fworld \<Rightarrow>
   (fault + bool) \<times> fworld" where
  "grant_withdraw la c moved now token others w =
    (case grant_verify la now token of
      Inl e \<Rightarrow> (Inl e, w)
    | Inr claims \<Rightarrow>
        (case grant_write c moved ''launch grants kept changing; the grant was not withdrawn''
                (rewrite_grant (jtext claims ''grant_id'') revoke_grant) others w of
           (Inl e, w1) \<Rightarrow> (Inl e, w1)
         | (Inr out, w1) \<Rightarrow> (Inr (out \<noteq> None), w1)))"

definition grant_disable ::
  "launch_authority \<Rightarrow> fctx \<Rightarrow> (fault + string list) \<Rightarrow> int \<Rightarrow> (fworld \<Rightarrow> fworld) list \<Rightarrow> fworld \<Rightarrow> (fault + string list) \<times> fworld" where
  "grant_disable la c moved now others w =
    grant_write c moved ''launch grants kept changing; revocation was not committed'' (disable_grants (la_stamp la now)) others w"

definition grant_enable :: "fctx \<Rightarrow> (fault + unit) \<Rightarrow> (fworld \<Rightarrow> fworld) list \<Rightarrow> fworld \<Rightarrow> (fault + unit) \<times> fworld" where
  "grant_enable c moved others w =
    grant_write c moved ''launch grants kept changing; nothing was enabled'' enable_grants others w"

end
