(* ===== verification/Launch_Grants_Laws.thy ===== *)
theory Launch_Grants_Laws
  imports Launch_Grants
begin

text \<open>
  What launch grants promise: a grant the controller signed verifies to the claims it was issued
  with, a revoked grant stays revoked and admits nobody, and an execution is registered once, under
  one grant, for good.
\<close>

section \<open>Signed tokens\<close>

lemma split_on_none: "sep \<notin> set s \<Longrightarrow> split_on sep s = [s]"
  by (induction s) auto

lemma split_on_app: "sep \<notin> set a \<Longrightarrow> split_on sep (a @ sep # b) = a # split_on sep b"
  by (induction a) auto

lemma sorted_remdups_strict: "sorted_wrt (<) (sort (remdups xs))" for xs :: "'a :: linorder list"
  by (metis distinct_remdups distinct_sort sorted_sort strict_sorted_iff)

lemma json_texts: "map (\<lambda>v. case v of JStr s \<Rightarrow> s | _ \<Rightarrow> '''') (map JStr xs) = xs"
  by (induction xs) auto

text \<open>
  C35: a grant verifies to what was issued. For an execution and a scope the controller issues a
  grant for, the token it signs passes verification in the swarm it was issued for, at any time from
  its issue to its expiry, and the claims that come out are the ones that went in.
\<close>

theorem grant_round_trip:
  fixes la now uuid execution project_ids brain_id account
  defines "claims \<equiv> issue_claims la now uuid execution project_ids brain_id account"
  assumes "la_decode la (la_encode la claims) = Some (JObj claims)"
    and "CHR ''.'' \<notin> set (la_encode la claims)" and "\<And>s. CHR ''.'' \<notin> set (la_mac la s)"
    and "is_identifier (la_slug la)" "is_identifier (la_issuer la)" "is_identifier (la_audience la)" "is_identifier (la_key_id la)"
    and "is_identifier (ag_execution_id execution)" "is_identifier (ag_task execution)" "is_identifier (ag_seat execution)"
    and "is_identifier brain_id" "is_identifier account" "0 < ag_generation execution" "is_grant_id (''lgr-'' @ uuid)"
    and "project_ids \<noteq> []" "list_all is_project project_ids" and "now \<le> later" "later < now + la_ttl la"
  shows "grant_verify la later (grant_sign la claims) = Inr claims"
proof -
  have "split_on CHR ''.'' (grant_sign la claims) =
      [''v2'', la_encode la claims, la_mac la (''v2.'' @ la_encode la claims)]"
    using split_on_app[of "CHR ''.''" "la_encode la claims"] split_on_app[of "CHR ''.''" "''v2''"] assms(3,4)
    by (simp add: grant_sign_def Let_def split_on_none)
  then have verify: "grant_verify la later (grant_sign la claims) =
      (if jget claims ''schema_version'' \<noteq> JStr ''2.0'' then grant_refuse ''invalid_request'' ''unsupported launch grant version''
       else if set (dkeys claims) \<noteq> set claim_fields \<or> \<not> claims_valid claims
       then grant_refuse ''unauthenticated'' ''launch grant is malformed''
       else and_then (check_claims la later claims) (\<lambda>_. Inr claims))"
    using assms(2) by (simp add: grant_verify_def)
  have got: "jget claims ''schema_version'' = JStr ''2.0''" "jget claims ''issuer'' = JStr (la_issuer la)"
    "jget claims ''audience'' = JStr (la_audience la)" "jget claims ''key_id'' = JStr (la_key_id la)"
    "jget claims ''swarm_id'' = JStr (la_slug la)" "jget claims ''execution_id'' = JStr (ag_execution_id execution)"
    "jget claims ''seat_id'' = JStr (ag_seat execution)" "jget claims ''task_id'' = JStr (ag_task execution)"
    "jget claims ''account'' = JStr account" "jget claims ''brain_id'' = JStr brain_id"
    "jget claims ''grant_id'' = JStr (''lgr-'' @ uuid)" "jget claims ''generation'' = JInt (ag_generation execution)"
    "jget claims ''project_ids'' = JList (map JStr (sort (remdups project_ids)))"
    "jget claims ''issued_at'' = JInt now" "jget claims ''expires_at'' = JInt (now + la_ttl la)"
    by (simp_all add: claims_def issue_claims_def jget_def)
  have keys: "set (dkeys claims) = set claim_fields"
    by (auto simp: claims_def issue_claims_def claim_fields_def bound_fields_def audit_fields_def)
  have "sort (remdups project_ids) \<noteq> []" using assms(16) by (metis set_empty set_remdups set_sort)
  moreover have "list_all (json_text is_project) (map JStr (sort (remdups project_ids)))"
    using assms(17) by (simp add: list_all_iff json_text_def)
  ultimately have "claims_valid claims"
    using assms(5-15) sorted_remdups_strict[of project_ids]
    unfolding claims_valid_def jtexts_def got named_fields_def json.case json_texts
    by (simp add: got json_text_def is_stamp_def)
  moreover have "check_claims la later claims = Inr ()"
    using assms(18,19) by (simp add: check_claims_def jtext_def jint_def got)
  ultimately show ?thesis using verify keys got(1) by simp
qed

section \<open>Grants and registrations over a run\<close>

text \<open>Every change of the grants; a new grant has an id no audit row carries.\<close>

inductive grant_step :: "fdoc \<Rightarrow> fdoc \<Rightarrow> bool" where
  gs_record: "record_grant execution_id audit doc = Inr (u, doc') \<Longrightarrow> \<not> dhas (fd_grants doc) (gr_grant_id audit) \<Longrightarrow> grant_step doc doc'"
| gs_admit: "admit_grant now claims doc = Inr (reg, doc') \<Longrightarrow> grant_step doc doc'"
| gs_extend: "rewrite_grant grant_id (extend_grant expires) doc = Inr (out, doc') \<Longrightarrow> grant_step doc doc'"
| gs_revoke: "rewrite_grant grant_id revoke_grant doc = Inr (out, doc') \<Longrightarrow> grant_step doc doc'"
| gs_disable: "disable_grants stamp doc = Inr (ids, doc') \<Longrightarrow> grant_step doc doc'"
| gs_enable: "enable_grants doc = Inr (u, doc') \<Longrightarrow> grant_step doc doc'"
| gs_other: "fd_grants doc' = fd_grants doc \<Longrightarrow> fd_registrations doc' = fd_registrations doc \<Longrightarrow> grant_step doc doc'"

definition grant_revoked :: "fdoc \<Rightarrow> string \<Rightarrow> bool" where
  "grant_revoked doc grant_id \<longleftrightarrow> (\<exists>audit. dget (fd_grants doc) grant_id = Some audit \<and> gr_state audit = ''revoked'')"

lemma grant_issued_Inr:
  "grant_issued doc claims = Inr audit \<Longrightarrow> dget (fd_grants doc) (jtext claims ''grant_id'') = Some audit \<and> gr_state audit \<noteq> ''revoked''"
  by (auto simp: grant_issued_def grant_refuse_def split: option.splits if_splits)

lemma admit_grant_Inr:
  assumes "admit_grant now claims doc = Inr (reg, doc')"
  obtains audit where "grant_issued doc claims = Inr audit"
    "(doc' = doc \<and> dget (fd_registrations doc) (jtext claims ''execution_id'') = Some reg) \<or>
     (dget (fd_registrations doc) (jtext claims ''execution_id'') = None \<and>
      doc' = doc\<lparr>fd_registrations := dset (jtext claims ''execution_id'') reg (fd_registrations doc),
         fd_grants := dset (jtext claims ''grant_id'') (audit\<lparr>gr_state := ''registered''\<rparr>) (fd_grants doc)\<rparr>)"
    "(jtext claims ''execution_id'', jint claims ''generation'') \<in> set (occupant_lives doc)"
proof -
  obtain audit where a: "grant_issued doc claims = Inr audit"
    using assms by (auto simp: admit_grant_def and_then_Inr)
  have "(jtext claims ''execution_id'', jint claims ''generation'') \<in> set (occupant_lives doc)"
    using assms a by (auto simp: admit_grant_def Let_def grant_refuse_def split: if_splits)
  moreover have "(doc' = doc \<and> dget (fd_registrations doc) (jtext claims ''execution_id'') = Some reg) \<or>
     (dget (fd_registrations doc) (jtext claims ''execution_id'') = None \<and>
      doc' = doc\<lparr>fd_registrations := dset (jtext claims ''execution_id'') reg (fd_registrations doc),
         fd_grants := dset (jtext claims ''grant_id'') (audit\<lparr>gr_state := ''registered''\<rparr>) (fd_grants doc)\<rparr>)"
    using assms a by (auto simp: admit_grant_def Let_def grant_refuse_def split: if_splits option.splits)
  ultimately show ?thesis using that a by blast
qed

lemma dget_map_val: "dget (map (\<lambda>(k, v). (k, f k v)) d) x = map_option (f x) (dget d x)"
  by (induction d) auto

lemma grant_step_keeps:
  assumes "grant_step doc doc'"
  shows "(grant_revoked doc g \<longrightarrow> grant_revoked doc' g) \<and>
    (dget (fd_registrations doc) e = Some reg \<longrightarrow> dget (fd_registrations doc') e = Some reg)"
  using assms
proof cases
  case (gs_record execution_id audit u)
  then show ?thesis
    by (auto simp: record_grant_def grant_refuse_def grant_revoked_def dget_dset dhas_def split: if_splits)
next
  case (gs_admit now claims r)
  obtain audit where a: "grant_issued doc claims = Inr audit"
    and d: "(doc' = doc \<and> dget (fd_registrations doc) (jtext claims ''execution_id'') = Some r) \<or>
     (dget (fd_registrations doc) (jtext claims ''execution_id'') = None \<and>
      doc' = doc\<lparr>fd_registrations := dset (jtext claims ''execution_id'') r (fd_registrations doc),
         fd_grants := dset (jtext claims ''grant_id'') (audit\<lparr>gr_state := ''registered''\<rparr>) (fd_grants doc)\<rparr>)"
    by (rule admit_grant_Inr[OF gs_admit]) (rule that)
  show ?thesis using d grant_issued_Inr[OF a] by (auto simp: grant_revoked_def dget_dset)
next
  case (gs_extend grant_id expires out)
  show ?thesis
  proof (cases "dget (fd_grants doc) grant_id")
    case (Some audit)
    then have "gr_state audit \<noteq> ''revoked''" "fd_registrations doc' = fd_registrations doc"
      "\<exists>audit1. fd_grants doc' = dset grant_id audit1 (fd_grants doc)"
      using gs_extend by (auto simp: rewrite_grant_def extend_grant_def grant_refuse_def split: if_splits)
    then show ?thesis using Some by (auto simp: grant_revoked_def dget_dset)
  qed (use gs_extend in \<open>simp add: rewrite_grant_def\<close>)
next
  case (gs_revoke grant_id out)
  show ?thesis
  proof (cases "dget (fd_grants doc) grant_id")
    case (Some audit)
    then have "fd_registrations doc' = fd_registrations doc"
      "doc' = doc \<or> fd_grants doc' = dset grant_id (audit\<lparr>gr_state := ''revoked''\<rparr>) (fd_grants doc)"
      using gs_revoke by (auto simp: rewrite_grant_def revoke_grant_def split: if_splits)
    then show ?thesis by (auto simp: grant_revoked_def dget_dset)
  qed (use gs_revoke in \<open>simp add: rewrite_grant_def\<close>)
next
  case (gs_disable stamp ids)
  then show ?thesis by (auto simp: disable_grants_def Let_def grant_revoked_def dget_map_val)
next
  case (gs_enable u)
  then show ?thesis by (auto simp: enable_grants_def grant_revoked_def)
next
  case gs_other
  then show ?thesis by (simp add: grant_revoked_def)
qed

lemma grant_run_keeps:
  "grant_step\<^sup>*\<^sup>* doc doc' \<Longrightarrow> (grant_revoked doc g \<longrightarrow> grant_revoked doc' g) \<and>
    (dget (fd_registrations doc) e = Some reg \<longrightarrow> dget (fd_registrations doc') e = Some reg)"
  by (induction rule: rtranclp_induct) (use grant_step_keeps in blast)+

text \<open>
  C21: revocation is final. Once a grant is revoked, it registers nobody, is bound to nobody and is not
  extended at any later moment, whatever else is issued, registered, renewed, disabled or enabled.
\<close>

theorem revoked_grant_is_dead:
  assumes "grant_revoked doc g" and "grant_step\<^sup>*\<^sup>* doc doc'" and "jtext claims ''grant_id'' = g"
  shows "admit_grant now claims doc' = Inl (Grant_Refused ''unauthenticated'' ''launch grant was revoked'') \<and>
    rewrite_grant g (extend_grant expires) doc' = Inl (Grant_Refused ''unauthenticated'' ''launch grant was revoked'') \<and>
    (\<exists>f. bound_in doc' claims = Inl f)"
proof -
  obtain audit where a: "dget (fd_grants doc') g = Some audit" "gr_state audit = ''revoked''"
    using grant_run_keeps[OF assms(2), of g] assms(1) by (auto simp: grant_revoked_def)
  have "\<exists>f. bound_in doc' claims = Inl f"
    using a assms(3) by (auto simp: bound_in_def grant_refuse_def split: option.splits)
  then show ?thesis using a assms(3)
    by (simp add: admit_grant_def grant_issued_def rewrite_grant_def extend_grant_def grant_refuse_def)
qed

text \<open>
  An execution is registered once. The registration of an execution is the one its first grant
  made, for the life of the document, and registering it under any other grant is refused.
\<close>

theorem registered_once:
  assumes "dget (fd_registrations doc) (jtext claims ''execution_id'') = Some reg" and "grant_step\<^sup>*\<^sup>* doc doc'"
  shows "dget (fd_registrations doc') (jtext claims ''execution_id'') = Some reg \<and>
    (case admit_grant now claims doc' of
       Inr (reg', doc'') \<Rightarrow> reg' = reg \<and> doc'' = doc' \<and> rg_grant_id reg = jtext claims ''grant_id''
     | Inl _ \<Rightarrow> True)"
proof -
  have "dget (fd_registrations doc') (jtext claims ''execution_id'') = Some reg"
    using grant_run_keeps[OF assms(2)] assms(1) by blast
  then show ?thesis
    by (auto simp: admit_grant_def Let_def and_then_def grant_refuse_def split: sum.splits option.splits if_splits)
qed

section \<open>The statements at concrete inputs\<close>

definition lw_audit :: "string \<Rightarrow> grant_audit" where
  "lw_audit state = \<lparr>gr_grant_id = ''g'', gr_issuer = ''i'', gr_audience = ''u'', gr_key_id = ''k'', gr_execution_id = ''e'',
     gr_generation = 1, gr_issued_at = 0, gr_expires_at = 10, gr_state = state, gr_renewals = None\<rparr>"

definition lw_doc :: "string \<Rightarrow> fdoc" where
  "lw_doc state = empty_doc\<lparr>fd_grants := [(''g'', lw_audit state)],
     fd_executions := [(''e'', (new_agent ''n'' ''eng'' ''t'')\<lparr>ag_execution_id := ''e'', ag_generation := 1\<rparr>)]\<rparr>"

definition lw_claims :: jdict where
  "lw_claims = [(''execution_id'', JStr ''e''), (''generation'', JInt 1), (''grant_id'', JStr ''g'')]"

lemma lw_jtext: "jtext lw_claims ''grant_id'' = ''g''" "jtext lw_claims ''execution_id'' = ''e''" "jint lw_claims ''generation'' = 1"
  by (simp_all add: lw_claims_def jtext_def jint_def jget_def)

lemma revoked_grant_is_dead_witness:
  "admit_grant 5 lw_claims (lw_doc ''revoked'') = Inl (Grant_Refused ''unauthenticated'' ''launch grant was revoked'')"
proof -
  have "rewrite_grant ''g'' revoke_grant (lw_doc ''issued'') = Inr (Some (lw_audit ''revoked''), lw_doc ''revoked'')"
    by (simp add: rewrite_grant_def revoke_grant_def lw_doc_def lw_audit_def empty_doc_def)
  then have "grant_step (lw_doc ''issued'') (lw_doc ''revoked'')" by (rule gs_revoke)
  have "grant_revoked (lw_doc ''revoked'') ''g''" by (simp add: grant_revoked_def lw_doc_def lw_audit_def)
  from revoked_grant_is_dead[OF this rtranclp.rtrancl_refl lw_jtext(1)] show ?thesis by blast
qed

definition lw_registered :: fdoc where
  "lw_registered = (lw_doc ''registered'')\<lparr>fd_registrations := [(''e'', registration_of lw_claims 5)]\<rparr>"

lemma registered_once_witness:
  "dget (fd_registrations (lw_registered\<lparr>fd_grants_disabled := ''''\<rparr>)) ''e'' = Some (registration_of lw_claims 5)"
proof -
  have "enable_grants lw_registered = Inr ((), lw_registered\<lparr>fd_grants_disabled := ''''\<rparr>)" by (simp add: enable_grants_def)
  then have run: "grant_step\<^sup>*\<^sup>* lw_registered (lw_registered\<lparr>fd_grants_disabled := ''''\<rparr>)" by (intro r_into_rtranclp gs_enable)
  have "dget (fd_registrations lw_registered) (jtext lw_claims ''execution_id'') = Some (registration_of lw_claims 5)"
    by (simp add: lw_registered_def lw_jtext)
  from registered_once[OF this run] show ?thesis by (simp add: lw_jtext)
qed

definition lw_authority :: "jdict \<Rightarrow> launch_authority" where
  "lw_authority claims = \<lparr>la_slug = ''s'', la_key_id = ''k'', la_issuer = ''i'', la_audience = ''u'', la_ttl = 300,
     la_encode = (\<lambda>_. ''p''), la_decode = (\<lambda>_. Some (JObj claims)), la_mac = (\<lambda>_. ''m''), la_stamp = (\<lambda>_. ''t'')\<rparr>"

definition lw_agent :: agent_record where
  "lw_agent = (new_agent ''n'' ''eng'' ''t'')\<lparr>ag_execution_id := ''e'', ag_generation := 1, ag_seat := ''eng@s''\<rparr>"

definition lw_issued :: jdict where
  "lw_issued = issue_claims (lw_authority []) 5 ''0123456789abcdef0123456789abcdef'' lw_agent [''local:p''] ''b'' ''a''"

lemma lw_claims_same:
  "issue_claims (lw_authority c) 5 ''0123456789abcdef0123456789abcdef'' lw_agent [''local:p''] ''b'' ''a'' = lw_issued"
  by (simp add: lw_issued_def issue_claims_def lw_authority_def)

lemma grant_round_trip_witness:
  "grant_verify (lw_authority lw_issued) 100 (grant_sign (lw_authority lw_issued) lw_issued) = Inr lw_issued"
  by (rule grant_round_trip[where la = "lw_authority lw_issued" and now = 5 and uuid = "''0123456789abcdef0123456789abcdef''"
        and execution = lw_agent and project_ids = "[''local:p'']" and brain_id = "''b''" and account = "''a''" and later = 100,
        unfolded lw_claims_same])
    (simp_all add: lw_authority_def is_identifier_def alnum_def lw_agent_def new_agent_def is_grant_id_def is_hex_def
      is_project_def starts_with_def project_part_def of_char_def)

end
