(* ===== verification/Hub_Lease.thy ===== *)
theory Hub_Lease
  imports State_Store
begin

text \<open>
  The named leases of the hub (\<open>scripts/hub/lease.py\<close>), kept one to a key in the bucket
  \<open>hub-leases\<close>. \<open>env\<close> is what other replicas do between an operation's read and its write; \<open>now\<close>
  is its one reading of the wall clock.
\<close>

record hub_lease =
  hl_holder :: string
  hl_expires_ms :: int

definition hub_ttl_ok :: "int \<Rightarrow> fault + unit" where
  "hub_ttl_ok ttl = (if ttl \<le> 0 then Inl (Value_Error ''lease ttl must be a positive integer'') else Inr ())"

definition hub_read :: "string \<Rightarrow> hub_lease mem_store \<Rightarrow> hub_lease option" where
  "hub_read name s = map_option se_value (store_get s name)"

definition hub_acquire ::
  "string \<Rightarrow> string \<Rightarrow> int \<Rightarrow> int \<Rightarrow> (hub_lease mem_store \<Rightarrow> hub_lease mem_store) \<Rightarrow> hub_lease mem_store \<Rightarrow>
   (fault + bool) \<times> hub_lease mem_store" where
  "hub_acquire name holder ttl now env s =
    (let claim = \<lparr>hl_holder = holder, hl_expires_ms = now + ttl\<rparr>;
         settle = (\<lambda>(res, s'). (case res of
             Inr _ \<Rightarrow> Inr True
           | Inl e \<Rightarrow> if e = State_Conflict then Inr False else Inl e, s'))
     in case store_get s name of
          None \<Rightarrow> settle (store_create name claim (env s))
        | Some entry \<Rightarrow>
            if hl_holder (se_value entry) \<noteq> holder \<and> hl_expires_ms (se_value entry) > now
            then (Inr False, env s)
            else settle (store_update name claim (se_revision entry) (env s)))"

definition hub_release ::
  "string \<Rightarrow> string \<Rightarrow> (hub_lease mem_store \<Rightarrow> hub_lease mem_store) \<Rightarrow> hub_lease mem_store \<Rightarrow>
   (fault + unit) \<times> hub_lease mem_store" where
  "hub_release name holder env s =
    (case store_get s name of
      None \<Rightarrow> (Inr (), env s)
    | Some entry \<Rightarrow>
        if hl_holder (se_value entry) \<noteq> holder then (Inr (), env s)
        else (case store_update name \<lparr>hl_holder = holder, hl_expires_ms = 0\<rparr> (se_revision entry) (env s) of
          (Inr _, s') \<Rightarrow> (Inr (), s')
        | (Inl e, s') \<Rightarrow> (if e = State_Conflict then Inr () else Inl e, s')))"

lemma hub_update_same:
  assumes "store_inv s" "store_ev s s1" "store_get s name = Some entry"
    and "store_update name v (se_revision entry) s1 = (Inr n, s2)"
  shows "store_get s1 name = Some entry"
proof -
  obtain e where e: "store_get s1 name = Some e" "se_revision e = se_revision entry"
    using assms(4) by (auto simp: store_update_Inr)
  then show ?thesis using store_get_stable[OF assms(1,2,3) e(1)] by simp
qed

text \<open>
  A hub lease has one holder. An acquire that answers yes wrote its claim over a lease that, at
  the moment of the write, was free, the caller's own, or expired at the caller's reading of the
  clock; an acquire that answers no wrote nothing.
\<close>

theorem hub_acquire_exclusive:
  assumes inv: "store_inv s" "store_ev s (env s)"
    and run: "hub_acquire name holder ttl now env s = (Inr won, s')"
  shows "(won \<longrightarrow> hub_read name s' = Some \<lparr>hl_holder = holder, hl_expires_ms = now + ttl\<rparr> \<and>
      (\<forall>l. hub_read name (env s) = Some l \<longrightarrow> hl_holder l = holder \<or> hl_expires_ms l \<le> now)) \<and>
    (\<not> won \<longrightarrow> s' = env s) \<and> (\<forall>k. k \<noteq> name \<longrightarrow> hub_read k s' = hub_read k (env s))"
proof (cases "store_get s name")
  case None
  then show ?thesis using run
    by (auto simp: hub_acquire_def Let_def hub_read_def store_create_Inr store_get_put
        split: prod.splits sum.splits if_splits dest: store_create_Inl)
next
  case (Some entry)
  show ?thesis
  proof (cases "hl_holder (se_value entry) \<noteq> holder \<and> hl_expires_ms (se_value entry) > now")
    case True
    then show ?thesis using run Some by (auto simp: hub_acquire_def Let_def hub_read_def)
  next
    case False
    obtain res s2 where u: "store_update name \<lparr>hl_holder = holder, hl_expires_ms = now + ttl\<rparr>
        (se_revision entry) (env s) = (res, s2)" by fastforce
    show ?thesis
    proof (cases res)
      case (Inl e)
      then show ?thesis using run Some False u store_update_Inl[of name _ "se_revision entry" "env s" e s2]
        by (auto simp: hub_acquire_def Let_def split: if_splits)
    next
      case (Inr n)
      have "store_get (env s) name = Some entry" using hub_update_same[OF inv Some] u Inr by blast
      then show ?thesis using run Some False u Inr
        by (auto simp: hub_acquire_def Let_def hub_read_def store_update_Inr store_get_put split: if_splits)
    qed
  qed
qed

text \<open>A release only gives up the caller's own lease; it leaves the key free to take at once.\<close>

theorem hub_release_own:
  assumes inv: "store_inv s" "store_ev s (env s)"
    and run: "hub_release name holder env s = (Inr (), s')" "s' \<noteq> env s"
  shows "\<exists>l. hub_read name (env s) = Some l \<and> hl_holder l = holder \<and>
    hub_read name s' = Some \<lparr>hl_holder = holder, hl_expires_ms = 0\<rparr>"
proof (cases "store_get s name")
  case None
  then show ?thesis using run by (simp add: hub_release_def)
next
  case (Some entry)
  obtain res s2 where u: "store_update name \<lparr>hl_holder = holder, hl_expires_ms = 0\<rparr> (se_revision entry) (env s) = (res, s2)"
    by fastforce
  have own: "hl_holder (se_value entry) = holder" using run Some by (auto simp: hub_release_def split: if_splits)
  show ?thesis
  proof (cases res)
    case (Inl e)
    then show ?thesis using run Some own u store_update_Inl[of name _ "se_revision entry" "env s" e s2]
      by (auto simp: hub_release_def split: if_splits)
  next
    case (Inr n)
    have "store_get (env s) name = Some entry" using hub_update_same[OF inv Some] u Inr by blast
    then show ?thesis using run Some own u Inr
      by (auto simp: hub_release_def hub_read_def store_update_Inr store_get_put)
  qed
qed

section \<open>At concrete inputs\<close>

lemma hub_first: "hub_acquire ''hub'' ''a'' 100 5 id empty_store =
  (Inr True, snd (store_put ''hub'' \<lparr>hl_holder = ''a'', hl_expires_ms = 105\<rparr> empty_store))"
  by (simp add: hub_acquire_def Let_def store_get_def empty_store_def store_create_def dhas_def store_put_def)

theorem hub_acquire_exclusive_witness:
  "hub_read ''hub'' (snd (store_put ''hub'' \<lparr>hl_holder = ''a'', hl_expires_ms = 105\<rparr> empty_store)) =
    Some \<lparr>hl_holder = ''a'', hl_expires_ms = 105\<rparr>"
  using hub_acquire_exclusive[OF empty_store_inv _ hub_first] by simp

definition hub_store :: "hub_lease mem_store" where
  "hub_store = snd (store_put ''hub'' \<lparr>hl_holder = ''a'', hl_expires_ms = 105\<rparr> empty_store)"

lemma hub_store_inv: "store_inv hub_store"
  using store_put_inv[OF empty_store_inv, of "''hub''" _ _ hub_store] by (metis hub_store_def prod.collapse)

lemma hub_released: "hub_release ''hub'' ''a'' id hub_store =
  (Inr (), snd (store_put ''hub'' \<lparr>hl_holder = ''a'', hl_expires_ms = 0\<rparr> hub_store))"
  by (simp add: hub_release_def hub_store_def store_get_def store_update_def store_put_def empty_store_def Let_def)

theorem hub_release_own_witness:
  "\<exists>l. hub_read ''hub'' hub_store = Some l \<and> hl_holder l = ''a''"
proof -
  have "snd (store_put ''hub'' \<lparr>hl_holder = ''a'', hl_expires_ms = 0\<rparr> hub_store) \<noteq> id hub_store"
    by (simp add: store_put_def Let_def hub_store_def empty_store_def)
  then show ?thesis
    using hub_release_own[OF hub_store_inv _ hub_released] hub_store_inv by simp blast
qed

end
