(* ===== verification/Scheduler.thy ===== *)
theory Scheduler
  imports State_Store
begin

text \<open>
  The machine's scheduler: timers, stopwatches, intervals and cron entries in one document, and
  the dispatch lease in that same document (\<open>scripts/scheduler/core.py\<close>, \<open>lease.py\<close>,
  \<open>model.py\<close>). A float is a rational. A missing \<open>entries\<close> or \<open>retired\<close> key is an empty one.
  The next due time of a cron expression (\<open>croniter\<close>), fresh ids and the effect of delivering to a
  slot are parameters.
\<close>

section \<open>The document\<close>

record sched_lease =
  dl_token :: string
  dl_expires :: rat

record sched_slot =
  sl_id :: string
  sl_signal :: string
  sl_record :: jdict

record sched_pending =
  pn_id :: string
  pn_scheduled_at :: rat
  pn_fired_at :: rat
  pn_slots :: "sched_slot list"
  pn_delivered :: "string list"

record sched_entry =
  sc_kind :: string
  sc_owner :: string
  sc_payload :: string
  sc_due :: rat
  sc_delay :: "rat option"
  sc_expression :: string
  sc_timezone :: string
  sc_id :: string
  sc_state :: string
  sc_started_at :: "rat option"
  sc_signal :: string
  sc_slots :: "sched_slot list"
  sc_pending :: "sched_pending option"
  sc_stopped_at :: "rat option"

record sched_doc =
  sd_lease :: "sched_lease option"
  sd_entries :: "(string, sched_entry) dict"
  sd_retired :: "(string, bool) dict"

definition blank_doc :: sched_doc where
  "blank_doc = \<lparr>sd_lease = None, sd_entries = [], sd_retired = []\<rparr>"

type_synonym sched_world = "sched_doc timed_store"

section \<open>The dispatch lease\<close>

definition lease_seconds :: rat where "lease_seconds = 90"

definition lock_holds :: "sched_doc \<Rightarrow> string \<Rightarrow> rat \<Rightarrow> bool" where
  "lock_holds doc token now =
    (case sd_lease doc of None \<Rightarrow> False | Some held \<Rightarrow> dl_token held = token \<and> dl_expires held > now)"

definition lock_check :: "sched_doc \<Rightarrow> string \<Rightarrow> rat \<Rightarrow> fault + unit" where
  "lock_check doc token now = (if lock_holds doc token now then Inr () else Inl Lost_Lock)"

text \<open>\<open>_change\<close>: a change answers \<open>None\<close> (returning \<open>False\<close>) when there is nothing to write.\<close>

definition lock_change ::
  "string \<Rightarrow> (sched_doc \<Rightarrow> sched_world \<Rightarrow> fault + sched_doc option) \<Rightarrow>
   (sched_world \<Rightarrow> sched_world) list \<Rightarrow> sched_world \<Rightarrow> (fault + unit) \<times> sched_world" where
  "lock_change name change others w =
    cas_loop (doc_load blank_doc name)
      (\<lambda>doc w. (case change doc w of Inl e \<Rightarrow> Inl e | Inr out \<Rightarrow> Inr ((), out), w))
      (doc_commit name) State_Conflict others w"

definition lock_take :: "string \<Rightarrow> rat \<Rightarrow> sched_doc \<Rightarrow> sched_world \<Rightarrow> fault + sched_doc option" where
  "lock_take token now doc w =
    (case sd_lease doc of
      Some held \<Rightarrow> if dl_expires held > now then Inl Busy
                   else Inr (Some (doc\<lparr>sd_lease := Some \<lparr>dl_token = token, dl_expires = now + lease_seconds\<rparr>\<rparr>))
    | None \<Rightarrow> Inr (Some (doc\<lparr>sd_lease := Some \<lparr>dl_token = token, dl_expires = now + lease_seconds\<rparr>\<rparr>)))"

definition sched_acquire ::
  "string \<Rightarrow> string \<Rightarrow> (sched_world \<Rightarrow> sched_world) list \<Rightarrow> sched_world \<Rightarrow> (fault + string) \<times> sched_world" where
  "sched_acquire name token others w =
    (case lock_change name (lock_take token (ts_now w)) others w of
      (Inl e, w') \<Rightarrow> (Inl e, w')
    | (Inr _, w') \<Rightarrow> (Inr token, w'))"

text \<open>The renewal reads the clock on each attempt.\<close>

definition lock_extend :: "string \<Rightarrow> sched_doc \<Rightarrow> sched_world \<Rightarrow> fault + sched_doc option" where
  "lock_extend token doc w =
    (case lock_check doc token (ts_now w) of
      Inl e \<Rightarrow> Inl e
    | Inr _ \<Rightarrow> Inr (Some (doc\<lparr>sd_lease := Some \<lparr>dl_token = token, dl_expires = ts_now w + lease_seconds\<rparr>\<rparr>)))"

definition sched_renew ::
  "string \<Rightarrow> string \<Rightarrow> (sched_world \<Rightarrow> sched_world) list \<Rightarrow> sched_world \<Rightarrow> (fault + unit) \<times> sched_world" where
  "sched_renew name token others w = lock_change name (lock_extend token) others w"

text \<open>\<open>holds(document, lease, -inf)\<close>: the token alone decides.\<close>

definition lock_drop :: "string \<Rightarrow> sched_doc \<Rightarrow> sched_world \<Rightarrow> fault + sched_doc option" where
  "lock_drop token doc w =
    (case sd_lease doc of
      Some held \<Rightarrow> if dl_token held = token then Inr (Some (doc\<lparr>sd_lease := None\<rparr>)) else Inr None
    | None \<Rightarrow> Inr None)"

definition sched_release ::
  "string \<Rightarrow> string \<Rightarrow> (sched_world \<Rightarrow> sched_world) list \<Rightarrow> sched_world \<Rightarrow> (fault + unit) \<times> sched_world" where
  "sched_release name token others w = lock_change name (lock_drop token) others w"

definition verify_lock :: "string \<Rightarrow> string \<Rightarrow> sched_world \<Rightarrow> fault + unit" where
  "verify_lock name token w =
    (case doc_load blank_doc name w of
      (Inl e, _) \<Rightarrow> Inl e
    | (Inr (doc, _), _) \<Rightarrow> lock_check doc token (ts_now w))"

section \<open>Changing the document\<close>

text \<open>\<open>json.dumps(..., sort_keys=True)\<close> before and after: dicts compare whatever their order.\<close>

definition sched_same :: "sched_doc \<Rightarrow> sched_doc \<Rightarrow> bool" where
  "sched_same a b \<longleftrightarrow> sd_lease a = sd_lease b \<and> dict_eq (sd_entries a) (sd_entries b) \<and>
     dict_eq (sd_retired a) (sd_retired b)"

definition sched_step ::
  "string option \<Rightarrow> (sched_doc \<Rightarrow> fault + 'r \<times> sched_doc) \<Rightarrow> sched_doc \<Rightarrow> sched_world \<Rightarrow>
   (fault + 'r \<times> sched_doc option) \<times> sched_world" where
  "sched_step token change doc w =
    (case (case token of None \<Rightarrow> Inr () | Some t \<Rightarrow> lock_check doc t (ts_now w)) of
      Inl e \<Rightarrow> (Inl e, w)
    | Inr _ \<Rightarrow>
        (case change doc of
          Inl e \<Rightarrow> (Inl e, w)
        | Inr (r, doc') \<Rightarrow> (Inr (r, if sched_same doc' doc then None else Some doc'), w)))"

definition sched_change ::
  "string \<Rightarrow> string option \<Rightarrow> (sched_doc \<Rightarrow> fault + 'r \<times> sched_doc) \<Rightarrow>
   (sched_world \<Rightarrow> sched_world) list \<Rightarrow> sched_world \<Rightarrow> (fault + 'r) \<times> sched_world" where
  "sched_change name token change others w =
    cas_loop (doc_load blank_doc name) (sched_step token change) (doc_commit name) State_Conflict others w"

definition entry_update ::
  "string \<Rightarrow> (sched_entry \<Rightarrow> fault + sched_entry) \<Rightarrow> sched_doc \<Rightarrow> fault + unit \<times> sched_doc" where
  "entry_update entry_id change doc =
    (case dget (sd_entries doc) entry_id of
      None \<Rightarrow> Inl (Key_Error entry_id)
    | Some entry \<Rightarrow> and_then (change entry) (\<lambda>entry'.
        Inr ((), doc\<lparr>sd_entries := dset entry_id entry' (sd_entries doc)\<rparr>)))"

section \<open>Entries\<close>

definition new_entry :: "string \<Rightarrow> sched_entry \<Rightarrow> sched_doc \<Rightarrow> fault + string \<times> sched_doc" where
  "new_entry entry_id schedule doc =
    (if sc_owner schedule = '''' \<or> list_all (\<lambda>ch. ch \<in> set '' '' \<or> of_char ch \<in> {9 :: nat..13} \<or> of_char ch \<in> {28 :: nat..31} \<or> of_char ch \<in> {133 :: nat, 160}) (sc_payload schedule)
     then Inl (Value_Error ''a schedule needs an owner and payload'')
     else Inr (entry_id, doc\<lparr>sd_entries := dset entry_id
       (schedule\<lparr>sc_id := entry_id, sc_state := ''ready'', sc_started_at := None,
          sc_signal := (if sc_kind schedule = ''stopwatch'' then ''limit_reached'' else ''timeout''),
          sc_slots := [], sc_pending := None, sc_stopped_at := None\<rparr>) (sd_entries doc)\<rparr>))"

definition schedule :: "string \<Rightarrow> string \<Rightarrow> string \<Rightarrow> rat \<Rightarrow> rat option \<Rightarrow> string \<Rightarrow> string \<Rightarrow> sched_entry" where
  "schedule kind owner payload due delay expression timezone =
    \<lparr>sc_kind = kind, sc_owner = owner, sc_payload = payload, sc_due = due, sc_delay = delay,
     sc_expression = expression, sc_timezone = timezone, sc_id = '''', sc_state = ''ready'',
     sc_started_at = None, sc_signal = '''', sc_slots = [], sc_pending = None, sc_stopped_at = None\<rparr>"

definition new_timer :: "string \<Rightarrow> string \<Rightarrow> rat option \<Rightarrow> rat option \<Rightarrow> rat \<Rightarrow> fault + sched_entry" where
  "new_timer owner payload delay at_time now =
    (if (delay = None) = (at_time = None) then Inl (Value_Error ''a timer needs either delay or at'')
     else if (case delay of None \<Rightarrow> False | Some d \<Rightarrow> d < 0) then Inl (Value_Error ''delay must not be negative'')
     else Inr (schedule ''timer'' owner payload
       (case at_time of Some t \<Rightarrow> t | None \<Rightarrow> now + (case delay of None \<Rightarrow> 0 | Some d \<Rightarrow> d)) delay '''' ''UTC''))"

definition new_stopwatch :: "string \<Rightarrow> string \<Rightarrow> rat \<Rightarrow> rat \<Rightarrow> fault + sched_entry" where
  "new_stopwatch owner payload limit now =
    (if limit < 0 then Inl (Value_Error ''limit must not be negative'')
     else Inr (schedule ''stopwatch'' owner payload (now + limit) (Some limit) '''' ''UTC''))"

definition new_interval :: "string \<Rightarrow> string \<Rightarrow> rat \<Rightarrow> rat \<Rightarrow> fault + sched_entry" where
  "new_interval owner payload every now =
    (if every \<le> 0 then Inl (Value_Error ''an interval must be positive'')
     else Inr (schedule ''interval'' owner payload (now + every) (Some every) '''' ''UTC''))"

definition new_cron ::
  "(string \<Rightarrow> string \<Rightarrow> rat \<Rightarrow> fault + rat) \<Rightarrow> string \<Rightarrow> string \<Rightarrow> string \<Rightarrow> string \<Rightarrow> rat \<Rightarrow> fault + sched_entry" where
  "new_cron next_due owner payload expression timezone now =
    and_then (next_due expression timezone now) (\<lambda>due.
      Inr (schedule ''cron'' owner payload due None expression timezone))"

definition entry_start ::
  "(string \<Rightarrow> string \<Rightarrow> rat \<Rightarrow> fault + rat) \<Rightarrow> rat \<Rightarrow> sched_entry \<Rightarrow> fault + sched_entry" where
  "entry_start next_due now entry =
    (if sc_state entry \<noteq> ''ready'' then Inl (Value_Error ''only a ready schedule can be started'')
     else and_then
       (if sc_kind entry = ''cron'' then next_due (sc_expression entry) (sc_timezone entry) now
        else case sc_delay entry of Some d \<Rightarrow> Inr (now + d) | None \<Rightarrow> Inr (sc_due entry))
       (\<lambda>due. Inr (entry\<lparr>sc_started_at := Some now, sc_due := due, sc_state := ''active''\<rparr>)))"

definition entry_elapsed :: "rat \<Rightarrow> sched_entry \<Rightarrow> rat" where
  "entry_elapsed now entry =
    (case sc_started_at entry of
      None \<Rightarrow> 0
    | Some started \<Rightarrow>
        let end_at = (case sc_stopped_at entry of
              Some t \<Rightarrow> t
            | None \<Rightarrow> if sc_state entry = ''fired'' then sc_due entry else now)
        in max 0 (end_at - started))"

definition entry_stop :: "rat \<Rightarrow> sched_entry \<Rightarrow> fault + sched_entry" where
  "entry_stop now entry =
    Inr (entry\<lparr>sc_state := ''stopped'', sc_stopped_at := Some now, sc_pending := None\<rparr>)"

definition entry_cancel :: "sched_entry \<Rightarrow> fault + sched_entry" where
  "entry_cancel entry = Inr (entry\<lparr>sc_state := ''cancelled'', sc_pending := None\<rparr>)"

definition slot_connect :: "string \<Rightarrow> string \<Rightarrow> jdict \<Rightarrow> sched_entry \<Rightarrow> fault + sched_entry" where
  "slot_connect connection_id signal slot entry =
    Inr (entry\<lparr>sc_slots := sc_slots entry @ [\<lparr>sl_id = connection_id, sl_signal = signal, sl_record = slot\<rparr>]\<rparr>)"

definition slot_disconnect :: "string \<Rightarrow> sched_entry \<Rightarrow> fault + sched_entry" where
  "slot_disconnect connection_id entry =
    Inr (entry\<lparr>sc_slots := filter (\<lambda>slot. sl_id slot \<noteq> connection_id) (sc_slots entry)\<rparr>)"

section \<open>Dispatch\<close>

definition entry_due :: "rat \<Rightarrow> sched_entry \<Rightarrow> bool" where
  "entry_due now entry \<longleftrightarrow> sc_state entry = ''active'' \<and> \<not> sc_due entry > now"

definition entry_claim :: "string \<Rightarrow> rat \<Rightarrow> sched_entry \<Rightarrow> sched_entry" where
  "entry_claim uuid now entry =
    entry\<lparr>sc_pending := Some \<lparr>pn_id = uuid, pn_scheduled_at = sc_due entry, pn_fired_at = now,
            pn_slots = filter (\<lambda>slot. sl_signal slot = sc_signal entry) (sc_slots entry), pn_delivered = []\<rparr>,
          sc_state := ''pending''\<rparr>"

text \<open>\<open>uuid k\<close> is the fresh id drawn for the entry under key \<open>k\<close>.\<close>

definition sched_claim :: "(string \<Rightarrow> string) \<Rightarrow> rat \<Rightarrow> sched_doc \<Rightarrow> fault + nat \<times> sched_doc" where
  "sched_claim uuid now doc =
    Inr (length (filter (\<lambda>(k, e). entry_due now e) (sd_entries doc)),
         doc\<lparr>sd_entries := map (\<lambda>(k, e). (k, if entry_due now e then entry_claim (uuid k) now e else e))
                             (sd_entries doc)\<rparr>)"

definition entry_finish ::
  "(string \<Rightarrow> string \<Rightarrow> rat \<Rightarrow> fault + rat) \<Rightarrow> rat \<Rightarrow> sched_entry \<Rightarrow> fault + sched_entry" where
  "entry_finish next_due now entry =
    (if sc_state entry \<noteq> ''pending'' then Inr entry
     else if sc_kind entry = ''cron'' then
       and_then (next_due (sc_expression entry) (sc_timezone entry) now)
         (\<lambda>due. Inr (entry\<lparr>sc_state := ''active'', sc_due := due, sc_pending := None\<rparr>))
     else if sc_kind entry = ''interval'' then
       (case sc_delay entry of
         None \<Rightarrow> Inl Type_Error
       | Some d \<Rightarrow> Inr (entry\<lparr>sc_state := ''active'', sc_due := now + d, sc_pending := None\<rparr>))
     else Inr (entry\<lparr>sc_state := ''fired'', sc_pending := None\<rparr>))"

definition entry_acknowledge :: "string \<Rightarrow> sched_entry \<Rightarrow> fault + sched_entry" where
  "entry_acknowledge connection_id entry =
    (if sc_state entry = ''pending'' then
       (case sc_pending entry of
         None \<Rightarrow> Inl (Key_Error ''pending'')
       | Some p \<Rightarrow> Inr (entry\<lparr>sc_pending := Some (p\<lparr>pn_delivered := pn_delivered p @ [connection_id]\<rparr>)\<rparr>))
     else Inr entry)"

definition abandoned_s :: rat where "abandoned_s = 3600"

definition entry_abandoned :: "sched_entry \<Rightarrow> rat \<Rightarrow> bool" where
  "entry_abandoned entry now \<longleftrightarrow> sc_owner entry = ''process'' \<and>
     sc_state entry \<in> set [''ready'', ''fired'', ''cancelled'', ''stopped'', ''stale''] \<and>
     now - sc_due entry \<ge> abandoned_s"

definition sched_reap :: "rat \<Rightarrow> sched_doc \<Rightarrow> fault + unit \<times> sched_doc" where
  "sched_reap now doc =
    (let kept = filter (\<lambda>(k, e). \<not> dhas (sd_retired doc) k) (sd_entries doc)
     in Inr ((), doc\<lparr>sd_entries := filter (\<lambda>(k, e). \<not> entry_abandoned e now) kept, sd_retired := []\<rparr>))"

definition sched_has_work :: "sched_doc \<Rightarrow> rat \<Rightarrow> bool" where
  "sched_has_work doc now \<longleftrightarrow> sd_retired doc \<noteq> [] \<or>
     list_ex (\<lambda>(k, e). sc_state e = ''pending'' \<or> (sc_state e = ''active'' \<and> sc_due e \<le> now)) (sd_entries doc)"

definition retire_mark :: "string \<Rightarrow> sched_doc \<Rightarrow> fault + unit \<times> sched_doc" where
  "retire_mark entry_id doc = Inr ((), doc\<lparr>sd_retired := dset entry_id True (sd_retired doc)\<rparr>)"

text \<open>
  Delivering one claimed entry: each slot in turn, under the lease, acknowledged on its own. A slot
  whose delivery raises is left for the next pass. \<open>deliver\<close> tells whether the slot took the event;
  what it does to the state store is its own.
\<close>

definition delivery_id :: "string \<Rightarrow> string \<Rightarrow> string" where
  "delivery_id pending_id connection_id = pending_id @ '':'' @ connection_id"

fun deliver_slots ::
  "string \<Rightarrow> string \<Rightarrow> string \<Rightarrow> (sched_world \<Rightarrow> sched_world) list \<Rightarrow>
   (sched_slot \<Rightarrow> string \<Rightarrow> sched_world \<Rightarrow> bool \<times> sched_world) \<Rightarrow> sched_pending \<Rightarrow>
   sched_slot list \<Rightarrow> string list \<Rightarrow> sched_world \<Rightarrow> (fault + string list option) \<times> sched_world" where
  "deliver_slots name token entry_id others deliver pending [] failed w = (Inr (Some failed), w)"
| "deliver_slots name token entry_id others deliver pending (slot # rest) failed w =
    (case doc_load blank_doc name w of
      (Inl e, w1) \<Rightarrow> (Inl e, w1)
    | (Inr (doc, _), _) \<Rightarrow>
        (case dget (sd_entries doc) entry_id of
          None \<Rightarrow> (Inl (Key_Error entry_id), w)
        | Some entry \<Rightarrow>
            if sc_state entry \<noteq> ''pending'' then (Inr None, w)
            else (case verify_lock name token w of
              Inl e \<Rightarrow> (Inl e, w)
            | Inr _ \<Rightarrow>
                if sl_id slot \<in> set (pn_delivered pending)
                then deliver_slots name token entry_id others deliver pending rest failed w
                else (case deliver slot (delivery_id (pn_id pending) (sl_id slot)) w of
                  (False, w1) \<Rightarrow>
                    deliver_slots name token entry_id others deliver pending rest (failed @ [sl_id slot]) w1
                | (True, w1) \<Rightarrow>
                    (case sched_change name (Some token)
                        (entry_update entry_id (entry_acknowledge (sl_id slot))) others w1 of
                      (Inl e, w2) \<Rightarrow> (Inl e, w2)
                    | (Inr _, w2) \<Rightarrow>
                        deliver_slots name token entry_id others deliver pending rest failed w2)))))"

definition sched_deliver ::
  "string \<Rightarrow> string \<Rightarrow> (string \<Rightarrow> string \<Rightarrow> rat \<Rightarrow> fault + rat) \<Rightarrow> (sched_world \<Rightarrow> sched_world) list \<Rightarrow>
   (sched_slot \<Rightarrow> string \<Rightarrow> sched_world \<Rightarrow> bool \<times> sched_world) \<Rightarrow> rat \<Rightarrow> string \<Rightarrow> sched_world \<Rightarrow>
   (fault + unit) \<times> sched_world" where
  "sched_deliver name token next_due others deliver now entry_id w =
    (case doc_load blank_doc name w of
      (Inl e, w1) \<Rightarrow> (Inl e, w1)
    | (Inr (doc, _), _) \<Rightarrow>
        (case dget (sd_entries doc) entry_id of
          None \<Rightarrow> (Inl (Key_Error entry_id), w)
        | Some entry \<Rightarrow>
            (case sc_pending entry of
              None \<Rightarrow> sched_change name (Some token)
                (entry_update entry_id (\<lambda>current. Inr (current\<lparr>sc_state := ''stale''\<rparr>))) others w
            | Some pending \<Rightarrow>
                (case deliver_slots name token entry_id others deliver pending (pn_slots pending) [] w of
                  (Inl e, w1) \<Rightarrow> (Inl e, w1)
                | (Inr None, w1) \<Rightarrow> (Inr (), w1)
                | (Inr (Some failed), w1) \<Rightarrow>
                    if failed \<noteq> [] then (Inr (), w1)
                    else sched_change name (Some token)
                      (entry_update entry_id (entry_finish next_due now)) others w1))))"

fun deliver_all ::
  "(string \<Rightarrow> sched_world \<Rightarrow> (fault + unit) \<times> sched_world) \<Rightarrow> string list \<Rightarrow> sched_world \<Rightarrow>
   (fault + unit) \<times> sched_world" where
  "deliver_all f [] w = (Inr (), w)"
| "deliver_all f (k # ks) w =
    (case f k w of (Inl e, w1) \<Rightarrow> (Inl e, w1) | (Inr _, w1) \<Rightarrow> deliver_all f ks w1)"

text \<open>The lease is released whatever the pass raised, as the context manager does.\<close>

definition sched_run_due ::
  "string \<Rightarrow> string \<Rightarrow> (string \<Rightarrow> string) \<Rightarrow> (string \<Rightarrow> string \<Rightarrow> rat \<Rightarrow> fault + rat) \<Rightarrow>
   (sched_slot \<Rightarrow> string \<Rightarrow> sched_world \<Rightarrow> bool \<times> sched_world) \<Rightarrow> rat \<Rightarrow>
   (sched_world \<Rightarrow> sched_world) list \<Rightarrow> sched_world \<Rightarrow> (fault + nat) \<times> sched_world" where
  "sched_run_due name token uuid next_due deliver now others w =
    (case doc_load blank_doc name w of
      (Inl e, w1) \<Rightarrow> (Inl e, w1)
    | (Inr (doc, _), _) \<Rightarrow>
        if \<not> sched_has_work doc now then (Inr 0, w)
        else (case sched_acquire name token others w of
          (Inl e, w1) \<Rightarrow> (Inl e, w1)
        | (Inr _, w1) \<Rightarrow>
            let (out, w2) =
              (case sched_change name (Some token) (sched_claim uuid now) others w1 of
                (Inl e, w2) \<Rightarrow> (Inl e, w2)
              | (Inr fired, w2) \<Rightarrow>
                  (case doc_load blank_doc name w2 of
                    (Inl e, w3) \<Rightarrow> (Inl e, w3)
                  | (Inr (doc2, _), _) \<Rightarrow>
                      (case deliver_all (sched_deliver name token next_due others deliver now)
                          (map fst (filter (\<lambda>(k, e). sc_state e = ''pending'') (sd_entries doc2))) w2 of
                        (Inl e, w3) \<Rightarrow> (Inl e, w3)
                      | (Inr _, w3) \<Rightarrow>
                          (case sched_change name (Some token) (sched_reap now) others w3 of
                            (Inl e, w4) \<Rightarrow> (Inl e, w4)
                          | (Inr _, w4) \<Rightarrow> (Inr fired, w4)))))
            in (case sched_release name token others w2 of
                  (Inl e, w5) \<Rightarrow> (Inl e, w5)
                | (Inr _, w5) \<Rightarrow> (out, w5))))"

section \<open>Properties\<close>

text \<open>
  The dispatch lease is exclusive. An acquire that returns replaced a document that, at the
  moment of the write, carried no lease still live at the caller's reading of the clock, and left
  its own token in it, however other schedulers wrote in between.
\<close>

theorem acquire_exclusive:
  assumes "doc_others others" "timed_inv w"
    and "sched_acquire name token others w = (Inr t, w')"
  shows "t = token \<and> (\<exists>doc rvn w2. timed_ev w w2 \<and> doc_rd blank_doc name w2 = Some (doc, rvn) \<and>
    (\<forall>held. sd_lease doc = Some held \<longrightarrow> dl_expires held \<le> ts_now w) \<and>
    (\<exists>rvn' > rvn. doc_rd blank_doc name w' = Some
       (doc\<lparr>sd_lease := Some \<lparr>dl_token = token, dl_expires = ts_now w + lease_seconds\<rparr>\<rparr>, rvn')))"
proof -
  define change where "change = (\<lambda>doc (v :: sched_world).
    (case lock_take token (ts_now w) doc v of Inl e \<Rightarrow> Inl e | Inr out \<Rightarrow> Inr ((), out), v))"
  have run: "cas_loop (doc_load blank_doc name) change (doc_commit name) State_Conflict others w = (Inr (), w')"
    and t: "t = token"
    using assms(3) by (auto simp: sched_acquire_def lock_change_def change_def split: prod.splits sum.splits)
  have pure: "snd (change v s) = s" for v s by (simp add: change_def)
  obtain doc rvn w1 w2 where at: "timed_ev w w1" "timed_ev w1 w2" "doc_rd blank_doc name w2 = Some (doc, rvn)"
    "(fst (change doc w1) = Inr ((), None) \<and> w' = w2 \<and> w2 = w1) \<or>
     (\<exists>v'. fst (change doc w1) = Inr ((), Some v') \<and> doc_commit name v' rvn w2 = Inr w' \<and>
        (\<exists>rvn' > rvn. doc_rd blank_doc name w' = Some (v', rvn')))"
    by (rule doc_loop_Inr[OF pure assms(1,2) run]) blast
  have "timed_ev w w2" using at(1,2) store_ev_trans by (auto simp: timed_ev_def)
  moreover have "(\<forall>held. sd_lease doc = Some held \<longrightarrow> dl_expires held \<le> ts_now w) \<and>
    (\<exists>rvn' > rvn. doc_rd blank_doc name w' = Some
       (doc\<lparr>sd_lease := Some \<lparr>dl_token = token, dl_expires = ts_now w + lease_seconds\<rparr>\<rparr>, rvn'))"
    using at(4) by (auto simp: change_def lock_take_def split: option.splits if_splits)
  ultimately show ?thesis using at(3) t by blast
qed

text \<open>
  A change made under a dispatch lease commits only while the lease lives: the document it
  replaced carried the caller's token, unexpired when the change ran, and nobody replaced it before
  the commit.
\<close>

theorem leased_change_holds:
  assumes "doc_others others" "timed_inv w"
    and "sched_change name (Some token) change others w = (Inr r, w')"
  shows "\<exists>doc rvn w1 w2. timed_ev w w1 \<and> timed_ev w1 w2 \<and> doc_rd blank_doc name w2 = Some (doc, rvn) \<and>
    lock_holds doc token (ts_now w1) \<and>
    (\<exists>doc'. change doc = Inr (r, doc') \<and> (w' = w2 \<or> doc_commit name doc' rvn w2 = Inr w'))"
proof -
  have pure: "snd (sched_step (Some token) change v s) = s" for v s
    by (simp add: sched_step_def split: sum.splits prod.splits)
  have run: "cas_loop (doc_load blank_doc name) (sched_step (Some token) change) (doc_commit name) State_Conflict others w = (Inr r, w')"
    using assms(3) by (simp add: sched_change_def)
  obtain doc rvn w1 w2 where at: "timed_ev w w1" "timed_ev w1 w2" "doc_rd blank_doc name w2 = Some (doc, rvn)"
    "(fst (sched_step (Some token) change doc w1) = Inr (r, None) \<and> w' = w2 \<and> w2 = w1) \<or>
     (\<exists>v'. fst (sched_step (Some token) change doc w1) = Inr (r, Some v') \<and> doc_commit name v' rvn w2 = Inr w' \<and>
        (\<exists>rvn' > rvn. doc_rd blank_doc name w' = Some (v', rvn')))"
    by (rule doc_loop_Inr[OF pure assms(1,2) run]) blast
  then have "lock_holds doc token (ts_now w1)"
    by (auto simp: sched_step_def lock_check_def split: if_splits)
  moreover have "\<exists>doc'. change doc = Inr (r, doc') \<and> (w' = w2 \<or> doc_commit name doc' rvn w2 = Inr w')"
    using at(4) by (auto simp: sched_step_def split: sum.splits if_splits)
  ultimately show ?thesis using at(1-3) by blast
qed

lemma map_of_map_entries: "dget (map (\<lambda>(k, e). (k, f k e)) d) k = map_option (f k) (dget d k)"
  by (induction d) auto

text \<open>
  A claim fires exactly what is due. Every active entry due by now becomes pending with the slots
  connected to its signal and nothing delivered yet, every other entry is untouched, the count is
  the number of those entries, and a second claim at the same time fires nothing.
\<close>

theorem claim_fires_due:
  assumes "sched_claim uuid now doc = Inr (n, doc')"
  shows "n = length (filter (\<lambda>(k, e). entry_due now e) (sd_entries doc)) \<and>
    dkeys (sd_entries doc') = dkeys (sd_entries doc) \<and> sd_lease doc' = sd_lease doc \<and>
    (\<forall>k. dget (sd_entries doc') k = (case dget (sd_entries doc) k of
       None \<Rightarrow> None
     | Some e \<Rightarrow> if entry_due now e
         then Some (e\<lparr>sc_state := ''pending'', sc_pending := Some \<lparr>pn_id = uuid k, pn_scheduled_at = sc_due e,
           pn_fired_at = now, pn_slots = filter (\<lambda>slot. sl_signal slot = sc_signal e) (sc_slots e), pn_delivered = []\<rparr>\<rparr>)
         else Some e)) \<and>
    sched_claim uuid2 now doc' = Inr (0, doc')"
proof -
  have doc': "doc' = doc\<lparr>sd_entries := map (\<lambda>(k, e). (k, if entry_due now e then entry_claim (uuid k) now e else e)) (sd_entries doc)\<rparr>"
    and n: "n = length (filter (\<lambda>(k, e). entry_due now e) (sd_entries doc))"
    using assms by (simp_all add: sched_claim_def)
  have none: "\<not> entry_due now e" if "(k, e) \<in> set (sd_entries doc')" for k e
    using that by (auto simp: doc' entry_due_def entry_claim_def split: if_splits)
  have "filter (\<lambda>(k, e). entry_due now e) (sd_entries doc') = []"
    using none by (auto simp: filter_empty_conv)
  moreover have "map (\<lambda>(k, e). (k, if entry_due now e then entry_claim (uuid2 k) now e else e)) (sd_entries doc') = sd_entries doc'"
    using none by (intro map_idI) auto
  ultimately have "sched_claim uuid2 now doc' = Inr (0, doc')" by (simp add: sched_claim_def)
  then show ?thesis
    using n by (auto simp: doc' map_of_map_entries entry_claim_def comp_def case_prod_beta split: option.splits)
qed

section \<open>The life of an entry\<close>

text \<open>Every operation on an entry, with the number of times it was claimed.\<close>

inductive entry_life :: "(string \<Rightarrow> string \<Rightarrow> rat \<Rightarrow> fault + rat) \<Rightarrow> sched_entry \<Rightarrow> nat \<Rightarrow> sched_entry \<Rightarrow> bool"
  for next_due :: "string \<Rightarrow> string \<Rightarrow> rat \<Rightarrow> fault + rat" and e0 :: sched_entry where
  born: "sc_state e0 = ''ready'' \<Longrightarrow> entry_life next_due e0 0 e0"
| started: "entry_life next_due e0 n e \<Longrightarrow> entry_start next_due now e = Inr e' \<Longrightarrow> entry_life next_due e0 n e'"
| claimed: "entry_life next_due e0 n e \<Longrightarrow> entry_due now e \<Longrightarrow>
    entry_life next_due e0 (Suc n) (entry_claim uuid now e)"
| acknowledged: "entry_life next_due e0 n e \<Longrightarrow> entry_acknowledge cid e = Inr e' \<Longrightarrow> entry_life next_due e0 n e'"
| finished: "entry_life next_due e0 n e \<Longrightarrow> entry_finish next_due now e = Inr e' \<Longrightarrow> entry_life next_due e0 n e'"
| halted: "entry_life next_due e0 n e \<Longrightarrow> entry_stop now e = Inr e' \<Longrightarrow> entry_life next_due e0 n e'"
| cancelled: "entry_life next_due e0 n e \<Longrightarrow> entry_cancel e = Inr e' \<Longrightarrow> entry_life next_due e0 n e'"
| connected: "entry_life next_due e0 n e \<Longrightarrow> slot_connect cid sig slot e = Inr e' \<Longrightarrow> entry_life next_due e0 n e'"
| disconnected: "entry_life next_due e0 n e \<Longrightarrow> slot_disconnect cid e = Inr e' \<Longrightarrow> entry_life next_due e0 n e'"
| gone_stale: "entry_life next_due e0 n e \<Longrightarrow> entry_life next_due e0 n (e\<lparr>sc_state := ''stale''\<rparr>)"

lemma entry_life_kind:
  "entry_life next_due e0 n e \<Longrightarrow> sc_kind e = sc_kind e0 \<and> sc_delay e = sc_delay e0"
  by (induction rule: entry_life.induct)
    (auto simp: entry_start_def entry_claim_def entry_acknowledge_def entry_finish_def entry_stop_def
      entry_cancel_def slot_connect_def slot_disconnect_def and_then_Inr split: if_splits option.splits)

text \<open>
  A one-shot fires once. Through any sequence of operations, a timer or a stopwatch is claimed
  at most once, and once claimed it is never ready or active again; an interval that finishes is due
  again strictly later.
\<close>

theorem one_shot_fires_once:
  assumes "entry_life next_due e0 n e"
  shows "(sc_kind e0 \<notin> {''cron'', ''interval''} \<longrightarrow>
      n \<le> 1 \<and> (n = 1 \<longrightarrow> sc_state e \<notin> {''ready'', ''active''})) \<and>
    (sc_kind e0 = ''interval'' \<longrightarrow> (\<forall>d now e'. sc_delay e0 = Some d \<longrightarrow> 0 < d \<longrightarrow> sc_state e = ''pending'' \<longrightarrow>
      entry_finish next_due now e = Inr e' \<longrightarrow> sc_state e' = ''active'' \<and> now < sc_due e'))"
proof -
  have "sc_kind e0 \<notin> {''cron'', ''interval''} \<longrightarrow>
      n \<le> 1 \<and> (n = 1 \<longrightarrow> sc_state e \<notin> {''ready'', ''active''})"
    using assms
  proof (induction rule: entry_life.induct)
    case (claimed n e now uuid)
    then show ?case using entry_life_kind[OF claimed.hyps(1)] by (auto simp: entry_due_def entry_claim_def)
  next
    case (finished n e now e')
    then show ?case using entry_life_kind[OF finished.hyps(1)] by (auto simp: entry_finish_def split: if_splits)
  qed (auto simp: entry_start_def entry_acknowledge_def entry_stop_def entry_cancel_def slot_connect_def
      slot_disconnect_def and_then_Inr split: if_splits option.splits)
  then show ?thesis using entry_life_kind[OF assms] by (auto simp: entry_finish_def)
qed

section \<open>At concrete inputs\<close>

definition sched0 :: sched_world where
  "sched0 = \<lparr>ts_store = empty_store, ts_now = 10\<rparr>"

lemma sched0_inv: "timed_inv sched0"
  by (simp add: timed_inv_def sched0_def)

lemma id_others: "doc_others [id, id]"
  by (simp add: doc_others_def timed_ev_def timed_inv_def)

lemmas sched_eval = sched0_def doc_load_def doc_commit_def store_get_def store_create_def store_update_def
  store_put_def empty_store_def dhas_def Let_def blank_doc_def

lemma acquired0: "fst (sched_acquire ''m'' ''t'' [id, id] sched0) = Inr ''t''"
  by (simp add: sched_acquire_def lock_change_def lock_take_def sched_eval)

lemma fst_eq: "fst p = x \<Longrightarrow> p = (x, snd p)"
  by (cases p) simp

theorem acquire_exclusive_witness:
  "\<exists>doc rvn w2. doc_rd blank_doc ''m'' w2 = Some (doc, rvn) \<and>
    (\<forall>held. sd_lease doc = Some held \<longrightarrow> dl_expires held \<le> ts_now sched0)"
  using acquire_exclusive[OF id_others sched0_inv fst_eq[OF acquired0]] by blast

definition sched1 :: sched_world where
  "sched1 = sched0\<lparr>ts_store := snd (store_put ''m'' (blank_doc\<lparr>sd_lease := Some \<lparr>dl_token = ''t'', dl_expires = 100\<rparr>\<rparr>) empty_store)\<rparr>"

lemma sched1_inv: "timed_inv sched1"
  unfolding timed_inv_def sched1_def
  by (simp, rule conjunct1[OF store_put_inv[OF empty_store_inv prod.collapse[symmetric]]])

lemma leased1: "fst (sched_change ''m'' (Some ''t'') (retire_mark ''e'') [id, id] sched1) = Inr ()"
  by (simp add: sched_change_def sched_step_def lock_check_def lock_holds_def retire_mark_def sched_same_def
      dict_eq_def sched1_def sched_eval)

theorem leased_change_holds_witness:
  "\<exists>doc w1. timed_ev sched1 w1 \<and> lock_holds doc ''t'' (ts_now w1)"
  using leased_change_holds[OF id_others sched1_inv fst_eq[OF leased1]] by blast

definition timer1 :: sched_entry where
  "timer1 = (schedule ''timer'' ''o'' ''p'' 5 (Some 5) '''' ''UTC'')\<lparr>sc_id := ''e'', sc_signal := ''timeout''\<rparr>"

definition sched_doc1 :: sched_doc where
  "sched_doc1 = blank_doc\<lparr>sd_entries := [(''e'', timer1\<lparr>sc_state := ''active''\<rparr>)]\<rparr>"

lemma claimed1: "sched_claim (\<lambda>_. ''u'') 10 sched_doc1 =
  Inr (1, blank_doc\<lparr>sd_entries := [(''e'', entry_claim ''u'' 10 (timer1\<lparr>sc_state := ''active''\<rparr>))]\<rparr>)"
  by (simp add: sched_claim_def sched_doc1_def entry_due_def timer1_def schedule_def)

theorem claim_fires_due_witness:
  "sched_claim (\<lambda>_. ''v'') 10 (blank_doc\<lparr>sd_entries := [(''e'', entry_claim ''u'' 10 (timer1\<lparr>sc_state := ''active''\<rparr>))]\<rparr>) =
    Inr (0, blank_doc\<lparr>sd_entries := [(''e'', entry_claim ''u'' 10 (timer1\<lparr>sc_state := ''active''\<rparr>))]\<rparr>)"
  using claim_fires_due[OF claimed1] by blast

lemma timer1_life: "entry_life (\<lambda>_ _ _. Inl Type_Error) timer1 1
    (entry_claim ''u'' 10 (timer1\<lparr>sc_started_at := Some 0, sc_due := 5, sc_state := ''active''\<rparr>))"
proof -
  have "entry_life (\<lambda>_ _ _. Inl Type_Error) timer1 0 (timer1\<lparr>sc_started_at := Some 0, sc_due := 5, sc_state := ''active''\<rparr>)"
    by (rule started[OF born, of _ _ 0]) (simp_all add: timer1_def schedule_def entry_start_def)
  from claimed[OF this] show ?thesis by (simp add: timer1_def schedule_def entry_due_def)
qed

theorem one_shot_fires_once_witness:
  "sc_state (entry_claim ''u'' 10 (timer1\<lparr>sc_started_at := Some 0, sc_due := 5, sc_state := ''active''\<rparr>)) \<notin>
    {''ready'', ''active''}"
  using one_shot_fires_once[OF timer1_life] by (simp add: timer1_def schedule_def)

end
