(* ===== verification/Event_Bus_Laws.thy ===== *)
theory Event_Bus_Laws
  imports Event_Bus
begin

text \<open>
  What the event bus promises: what a pattern matches, that a scoped bus stays inside its swarm,
  one acceptance of an event id in a dedupe window, at most \<open>max_deliver\<close> deliveries of a message,
  each under its own attempt number, and envelopes that survive their encoding.
\<close>

section \<open>Patterns\<close>

text \<open>
  The meaning of a pattern: token for token, a star for any one token, and a closing angle
  bracket (the first one counts) for one token or more.
\<close>

definition token_ok :: "string \<Rightarrow> string \<Rightarrow> bool" where
  "token_ok w h \<longleftrightarrow> w = ''*'' \<or> w = h"

definition pattern_spec :: "string list \<Rightarrow> string list \<Rightarrow> bool" where
  "pattern_spec want have_toks \<longleftrightarrow>
    (let fixed = takeWhile (\<lambda>w. w \<noteq> ''>'') want
     in if ''>'' \<in> set want
        then length fixed < length have_toks \<and> list_all2 token_ok fixed (take (length fixed) have_toks)
        else list_all2 token_ok want have_toks)"

text \<open>The matching loop decides exactly the documented meaning of patterns.\<close>

theorem subject_matches_spec:
  "subject_matches pattern subject \<longleftrightarrow>
    pattern_spec (split_on CHR ''.'' pattern) (split_on CHR ''.'' subject)"
proof -
  have "tokens_match want hs \<longleftrightarrow> pattern_spec want hs" for want hs
  proof (induction want arbitrary: hs)
    case Nil
    then show ?case by (auto simp: pattern_spec_def)
  next
    case (Cons w want)
    show ?case
    proof (cases "w = ''>''")
      case True
      then show ?thesis by (cases hs) (simp_all add: pattern_spec_def)
    next
      case False
      then show ?thesis using Cons.IH
        by (cases hs) (auto simp: pattern_spec_def Let_def token_ok_def)
    qed
  qed
  then show ?thesis by (simp add: subject_matches_def)
qed

section \<open>Scopes\<close>

lemma starts_with_append [simp]: "starts_with p (p @ s)"
  by (simp add: starts_with_def)

lemma event_subject_one:
  "event_subject swarm [kind] = Inr s \<Longrightarrow> s = ''swarm.'' @ swarm @ ''.'' @ kind"
  by (auto simp: event_subject_def and_then_Inr bus_prefix_def subject_token_def split: if_splits)

text \<open>
  A scoped bus never leaves its swarm. Whatever logical subject it is asked for, the subject it
  uses lies under the swarm's own prefix; and a subject that names another swarm is refused.
\<close>

theorem scoped_subject_confined:
  assumes "scoped_subject swarm kind logical = Inr s"
  shows "in_swarm swarm s \<and> starts_with (''swarm.'' @ swarm @ ''.'' @ kind @ ''.'') s \<and>
    (kind \<noteq> ''dead'' \<and> starts_with ''swarm.'' logical \<longrightarrow>
       starts_with (''swarm.'' @ swarm @ ''.'') logical \<or> starts_with ''swarm.*.'' logical \<or> logical = ''swarm.>'')"
proof -
  obtain pre where pre: "event_subject swarm [kind] = Inr pre"
    using assms by (auto simp: scoped_subject_def and_then_Inr)
  have p: "pre = ''swarm.'' @ swarm @ ''.'' @ kind" by (rule event_subject_one[OF pre])
  obtain tail where s: "s = pre @ ''.'' @ tail"
    using assms pre by (auto simp: scoped_subject_def Let_def split: if_splits)
  have "in_swarm swarm s" unfolding s p in_swarm_def starts_with_def bus_prefix_def by simp
  moreover have "starts_with (''swarm.'' @ swarm @ ''.'' @ kind @ ''.'') s"
    unfolding s p starts_with_def by simp
  moreover have "kind \<noteq> ''dead'' \<and> starts_with ''swarm.'' logical \<longrightarrow>
       starts_with (''swarm.'' @ swarm @ ''.'') logical \<or> starts_with ''swarm.*.'' logical \<or> logical = ''swarm.>''"
    using assms pre by (auto simp: scoped_subject_def bus_prefix_def starts_with_def split: if_splits)
  ultimately show ?thesis by blast
qed

section \<open>The dedupe window\<close>

text \<open>The answers of one dedupe to a row of questions: an event id and the time each.\<close>

fun dedupe_asks :: "(string \<times> int) list \<Rightarrow> dedupe \<Rightarrow> bool list" where
  "dedupe_asks [] d = []"
| "dedupe_asks ((i, t) # asks) d = (let (fresh, d') = dedupe_first i t d in fresh # dedupe_asks asks d')"

definition dedupe_knows :: "(string \<times> int) set \<Rightarrow> int \<Rightarrow> dedupe \<Rightarrow> bool" where
  "dedupe_knows h now d \<longleftrightarrow> wf_dict (dd_seen d) \<and> (\<forall>k t. dget (dd_seen d) k = Some t \<longrightarrow> (k, t) \<in> h) \<and>
     (\<forall>k t. (k, t) \<in> h \<longrightarrow> t \<le> now \<and> (now - t < dd_window_ms d \<longrightarrow> dget (dd_seen d) k = Some t))"

lemma length_dedupe_asks [simp]: "length (dedupe_asks asks d) = length asks"
  by (induction asks d rule: dedupe_asks.induct) (auto split: prod.splits)

lemma map_of_filter_val:
  "wf_dict d \<Longrightarrow> dget (filter (\<lambda>(k, t). P t) d) k = (case dget d k of Some t \<Rightarrow> (if P t then Some t else None) | None \<Rightarrow> None)"
proof (induction d)
  case Nil
  show ?case by simp
next
  case (Cons kv d)
  obtain a b where kv: "kv = (a, b)" by fastforce
  show ?case
  proof (cases "k = a")
    case True
    then have "dget d k = None" using Cons.prems kv by (simp add: map_of_eq_None_iff)
    then show ?thesis using Cons True kv by simp
  next
    case False
    then show ?thesis using Cons kv by simp
  qed
qed

lemma dedupe_first_knows:
  assumes h: "dedupe_knows h now d" and le: "now \<le> t" and f: "dedupe_first i t d = (fresh, d')"
  shows "fresh \<longleftrightarrow> \<not> (\<exists>u. (i, u) \<in> h \<and> t - u < dd_window_ms d)"
    and "dedupe_knows (if fresh then insert (i, t) h else h) t d'"
    and "dd_window_ms d' = dd_window_ms d"
proof -
  define w where "w = dd_window_ms d"
  define seen where "seen = filter (\<lambda>(k, u). t - u < w) (dd_seen d)"
  have wf: "wf_dict (dd_seen d)" and wf': "wf_dict seen" using h unfolding seen_def dedupe_knows_def by auto
  have val: "dget seen k = (case dget (dd_seen d) k of Some u \<Rightarrow> (if t - u < w then Some u else None) | None \<Rightarrow> None)" for k
    unfolding seen_def by (rule map_of_filter_val[OF wf])
  have in_h: "(k, u) \<in> h" if "dget (dd_seen d) k = Some u" for k u
    using h that unfolding dedupe_knows_def by blast
  have from_h: "u \<le> now \<and> (now - u < w \<longrightarrow> dget (dd_seen d) k = Some u)" if "(k, u) \<in> h" for k u
    using h that unfolding dedupe_knows_def w_def by blast
  have seen_iff: "dget seen k = Some u \<longleftrightarrow> (k, u) \<in> h \<and> t - u < w" for k u
  proof
    assume "dget seen k = Some u"
    then show "(k, u) \<in> h \<and> t - u < w" unfolding val by (auto dest: in_h split: option.splits if_splits)
  next
    assume a: "(k, u) \<in> h \<and> t - u < w"
    then have "now - u < w" using le by linarith
    then show "dget seen k = Some u" unfolding val using from_h a by auto
  qed
  have fresh: "fresh \<longleftrightarrow> dget seen i = None"
    and d': "d' = (if fresh then d\<lparr>dd_seen := dset i t seen\<rparr> else d\<lparr>dd_seen := seen\<rparr>)"
    using f unfolding dedupe_first_def Let_def dhas_def seen_def w_def by (auto split: if_splits)
  show "fresh \<longleftrightarrow> \<not> (\<exists>u. (i, u) \<in> h \<and> t - u < dd_window_ms d)"
    unfolding fresh w_def[symmetric] using seen_iff[of i] by (metis not_None_eq)
  show "dd_window_ms d' = dd_window_ms d" unfolding d' by simp
  have old: "u \<le> t" if "(k, u) \<in> h" for k u using from_h[OF that] le by linarith
  show "dedupe_knows (if fresh then insert (i, t) h else h) t d'"
  proof (cases fresh)
    case True
    have none: "(i, u) \<in> h \<Longrightarrow> \<not> t - u < w" for u using True fresh seen_iff[of i u] by auto
    show ?thesis unfolding dedupe_knows_def d' using True wf' old none
      by (auto simp: dget_dset seen_iff w_def[symmetric])
  next
    case False
    show ?thesis unfolding dedupe_knows_def d' using False wf' old
      by (auto simp: seen_iff w_def[symmetric])
  qed
qed

lemma dedupe_asks_spec:
  "dedupe_knows h now d \<Longrightarrow> sorted (now # map snd asks) \<Longrightarrow> j < length asks \<Longrightarrow>
   dedupe_asks asks d ! j \<longleftrightarrow>
     \<not> (\<exists>u. (fst (asks ! j), u) \<in> h \<and> snd (asks ! j) - u < dd_window_ms d) \<and>
     \<not> (\<exists>i<j. fst (asks ! i) = fst (asks ! j) \<and> dedupe_asks asks d ! i \<and>
              snd (asks ! j) - snd (asks ! i) < dd_window_ms d)"
proof (induction asks d arbitrary: h now j rule: dedupe_asks.induct)
  case (1 d)
  then show ?case by simp
next
  case (2 i t asks d)
  obtain fresh d' where f: "dedupe_first i t d = (fresh, d')" by fastforce
  have le: "now \<le> t" using "2.prems"(2) by simp
  note k = dedupe_first_knows[OF "2.prems"(1) le f]
  have srt: "sorted (t # map snd asks)" using "2.prems"(2) by simp
  show ?case
  proof (cases j)
    case 0
    then show ?thesis using k(1) f by simp
  next
    case (Suc j')
    note ih = "2.IH"[OF refl f[symmetric] k(2) srt, of j', unfolded k(3)]
    have ex: "(\<exists>i'<Suc j'. Q i') \<longleftrightarrow> Q 0 \<or> (\<exists>i'<j'. Q (Suc i'))" for Q :: "nat \<Rightarrow> bool"
      using less_Suc_eq_0_disj by auto
    show ?thesis using "2.prems"(3) ih f unfolding Suc ex by auto
  qed
qed

text \<open>
  One event id is accepted once in a window. Of the asks about one id, at times that never go
  back, an ask is answered yes exactly when no ask about that id was answered yes within the window
  before it.
\<close>

theorem dedupe_window:
  assumes "sorted (map snd asks)" and "j < length asks"
    and "d = \<lparr>dd_window_ms = window, dd_seen = []\<rparr>"
  shows "dedupe_asks asks d ! j \<longleftrightarrow>
     \<not> (\<exists>i<j. fst (asks ! i) = fst (asks ! j) \<and> dedupe_asks asks d ! i \<and>
              snd (asks ! j) - snd (asks ! i) < window)"
proof -
  have ne: "asks \<noteq> []" using assms(2) by auto
  then have "sorted (snd (hd asks) # map snd asks)" using assms(1) by (cases asks) auto
  moreover have "dedupe_knows {} (snd (hd asks)) d" by (simp add: dedupe_knows_def assms(3))
  ultimately show ?thesis using dedupe_asks_spec[OF _ _ assms(2)] assms(3) by fastforce
qed

text \<open>The log keeps its events once: what it takes is what its dedupe answers.\<close>

lemma log_publish_entries:
  "log_publish shut s ev now lg = (Inr fresh, lg') \<Longrightarrow>
   el_entries lg' = el_entries lg @ (if fresh then [(s, ev)] else [])
   \<and> dedupe_first (ev_id ev) now (el_dedupe lg) = (fresh, el_dedupe lg')"
  by (auto simp: log_publish_def split: if_splits prod.splits)

section \<open>Redelivery\<close>

lemma bury_messages:
  "bury qe shut wall now taken ms dead = Inr (ms', dead') \<Longrightarrow>
   ms' = map (\<lambda>m. if exhausted qe now taken m then m\<lparr>ms_settled := True\<rparr> else m) ms"
proof (induction ms arbitrary: dead ms' dead')
  case Nil
  then show ?case by simp
next
  case (Cons m ms)
  show ?case
  proof (cases "exhausted qe now taken m")
    case False
    then show ?thesis using Cons.prems by (auto simp: and_then_Inr dest!: Cons.IH)
  next
    case True
    show ?thesis
    proof (cases dead)
      case None
      then show ?thesis using Cons.prems True by (auto simp: and_then_Inr dest!: Cons.IH)
    next
      case (Some lg)
      obtain letter where l: "dead_letter (qe_sha qe) wall (ms_event m) (qe_identity qe) (ms_attempt m) = Inr letter"
        using Cons.prems True Some by (auto simp: and_then_Inr)
      obtain r lg' where p: "log_publish shut (''dead.'' @ ev_swarm (ms_event m)) letter now lg = (r, lg')"
        by fastforce
      show ?thesis using Cons.prems True Some l p
        by (cases r) (auto simp: and_then_Inr dest!: Cons.IH)
    qed
  qed
qed

lemma pending_add_fields [simp]:
  "pq_next (pending_add e q) = Suc (pq_next q)"
  "pq_cursor (pending_add e q) = pq_cursor q"
  "map ms_no (pq_messages (pending_add e q)) = map ms_no (pq_messages q) @ [pq_next q]"
  by (simp_all add: pending_add_def)

text \<open>A queue with the deliveries it made so far: the message and the attempt number of each.\<close>

definition queue_ok :: "nat \<Rightarrow> pending_queue \<Rightarrow> (nat \<times> nat) list \<Rightarrow> bool" where
  "queue_ok limit q ds \<longleftrightarrow> distinct (map ms_no (pq_messages q)) \<and>
     (\<forall>m \<in> set (pq_messages q). ms_no m < pq_next q \<and> ms_attempt m \<le> limit \<and>
        (\<forall>a. (ms_no m, a) \<in> set ds \<longrightarrow> a \<le> ms_attempt m)) \<and>
     distinct ds \<and> (\<forall>(n, a) \<in> set ds. n < pq_next q \<and> 1 \<le> a \<and> a \<le> limit)"

lemma queue_ok_add: "queue_ok limit q ds \<Longrightarrow> queue_ok limit (pending_add e q) ds"
  unfolding queue_ok_def by (auto simp: pending_add_def less_Suc_eq)

lemma queue_ok_adds: "queue_ok limit q ds \<Longrightarrow> queue_ok limit (fold pending_add es q) ds"
  by (induction es arbitrary: q) (auto intro: queue_ok_add)

lemma queue_ok_pull: "queue_ok limit q ds \<Longrightarrow> queue_ok limit (pending_pull qe q) ds"
  unfolding pending_pull_def Let_def by (rule queue_ok_adds) (simp add: queue_ok_def)

lemma queue_ok_map:
  assumes "queue_ok limit q ds" "\<And>m. ms_no (f m) = ms_no m \<and> ms_attempt (f m) = ms_attempt m"
  shows "queue_ok limit (q\<lparr>pq_messages := map f (pq_messages q)\<rparr>) ds"
  using assms unfolding queue_ok_def by (auto simp: comp_def)

lemma queue_ok_filter:
  "queue_ok limit q ds \<Longrightarrow> queue_ok limit (q\<lparr>pq_messages := filter P (pq_messages q), pq_dead := dead\<rparr>) ds"
  unfolding queue_ok_def by (auto simp: distinct_map_filter)

lemma pending_ready_ok:
  assumes "queue_ok limit q ds" and "pending_ready qe shut wall now taken q = Inr (found, q')"
  shows "queue_ok limit q' ds \<and>
    (\<forall>m. found = Some m \<longrightarrow> m \<in> set (pq_messages q') \<and> ms_attempt m < qp_max_deliver (qe_policy qe) \<and>
       ms_no m \<notin> set taken \<and> ms_ready_at m \<le> now \<and> \<not> ms_settled m)"
proof -
  define q1 where "q1 = pending_pull qe q"
  define mark where "mark = (\<lambda>m. if exhausted qe now taken m then m\<lparr>ms_settled := True\<rparr> else m)"
  obtain ms dead where b: "bury qe shut wall now taken (pq_messages q1) (pq_dead q1) = Inr (ms, dead)"
    and f: "found = find (\<lambda>m. ms_ready_at m \<le> now \<and> ms_no m \<notin> set taken) (filter (\<lambda>m. \<not> ms_settled m) ms)"
    and q': "q' = q1\<lparr>pq_messages := filter (\<lambda>m. \<not> ms_settled m) ms, pq_dead := dead\<rparr>"
    using assms(2) unfolding pending_ready_def q1_def[symmetric] Let_def by (auto simp: and_then_Inr)
  have ms: "ms = map mark (pq_messages q1)" unfolding mark_def by (rule bury_messages[OF b])
  have "queue_ok limit (q1\<lparr>pq_messages := ms\<rparr>) ds"
    unfolding ms by (rule queue_ok_map) (auto simp: mark_def q1_def intro: queue_ok_pull assms(1))
  then have ok: "queue_ok limit q' ds" unfolding q'
    using queue_ok_filter[where q = "q1\<lparr>pq_messages := ms\<rparr>" and P = "\<lambda>m. \<not> ms_settled m" and dead = dead] by simp
  have "m \<in> set (pq_messages q') \<and> ms_attempt m < qp_max_deliver (qe_policy qe) \<and>
       ms_no m \<notin> set taken \<and> ms_ready_at m \<le> now \<and> \<not> ms_settled m" if "found = Some m" for m
  proof -
    have m: "m \<in> set ms" "\<not> ms_settled m" "ms_ready_at m \<le> now" "ms_no m \<notin> set taken"
      using that f by (auto simp: find_Some_iff dest!: sym[of "Some m"] dest: nth_mem)
    obtain m0 where m0: "m = mark m0" using m(1) unfolding ms by auto
    have "\<not> exhausted qe now taken m0" using m(2) unfolding m0 mark_def by (auto split: if_splits)
    then have "m = m0 \<and> \<not> exhausted qe now taken m" unfolding m0 mark_def by simp
    then show ?thesis using m unfolding q' exhausted_def by auto
  qed
  then show ?thesis using ok by blast
qed

lemma queue_ok_bump:
  assumes ok: "queue_ok limit q ds" and m: "m \<in> set (pq_messages q)" and lt: "ms_attempt m < limit"
  shows "queue_ok limit (bump_message (ms_no m) (Suc (ms_attempt m)) at' q) (ds @ [(ms_no m, Suc (ms_attempt m))])"
proof -
  have d: "distinct (map ms_no (pq_messages q))" and nl: "ms_no m < pq_next q"
    using ok m unfolding queue_ok_def by auto
  have only: "m' = m" if "m' \<in> set (pq_messages q)" "ms_no m' = ms_no m" for m'
    using d that m by (metis distinct_map inj_onD)
  have new: "(ms_no m, Suc (ms_attempt m)) \<notin> set ds" using ok m unfolding queue_ok_def by fastforce
  have nos: "map ms_no (pq_messages (bump_message (ms_no m) (Suc (ms_attempt m)) at' q)) = map ms_no (pq_messages q)"
    by (simp add: bump_message_def comp_def if_distrib[of ms_no] cong: if_cong)
  have each: "ms_no x < pq_next q \<and> ms_attempt x \<le> limit \<and>
      (\<forall>a. (ms_no x, a) \<in> set (ds @ [(ms_no m, Suc (ms_attempt m))]) \<longrightarrow> a \<le> ms_attempt x)"
    if "x \<in> set (pq_messages (bump_message (ms_no m) (Suc (ms_attempt m)) at' q))" for x
  proof -
    note x_in = that
    obtain m' where m': "m' \<in> set (pq_messages q)"
      and x: "x = (if ms_no m' = ms_no m then m'\<lparr>ms_attempt := Suc (ms_attempt m), ms_ready_at := at'\<rparr> else m')"
      using x_in unfolding bump_message_def by (auto simp: image_iff)
    have old: "ms_no m' < pq_next q" "ms_attempt m' \<le> limit" "\<And>a. (ms_no m', a) \<in> set ds \<Longrightarrow> a \<le> ms_attempt m'"
      using ok m' unfolding queue_ok_def by blast+
    show ?thesis
    proof (cases "ms_no m' = ms_no m")
      case True
      then have "m' = m" by (rule only[OF m'])
      then show ?thesis using old lt unfolding x by (auto intro: le_SucI)
    next
      case False
      then show ?thesis using old unfolding x by auto
    qed
  qed
  have pairs: "distinct (ds @ [(ms_no m, Suc (ms_attempt m))]) \<and>
      (\<forall>(n, a) \<in> set (ds @ [(ms_no m, Suc (ms_attempt m))]). n < pq_next q \<and> 1 \<le> a \<and> a \<le> limit)"
    using ok new nl lt unfolding queue_ok_def by auto
  have next_q: "pq_next (bump_message (ms_no m) (Suc (ms_attempt m)) at' q) = pq_next q" by (simp add: bump_message_def)
  show ?thesis unfolding queue_ok_def nos next_q using d each pairs by blast
qed

lemma take_loop_ok:
  "take_loop qe shut wall clk n taken got q = Inr (got', q') \<Longrightarrow> queue_ok (qp_max_deliver (qe_policy qe)) q (ds @ got) \<Longrightarrow>
   queue_ok (qp_max_deliver (qe_policy qe)) q' (ds @ got')"
proof (induction n arbitrary: clk taken got q)
  case 0
  then show ?case by simp
next
  case (Suc n)
  obtain found q1 where r: "pending_ready qe shut wall (clk 0) taken q = Inr (found, q1)"
    using Suc.prems(1) by (auto simp: and_then_Inr)
  note ok = pending_ready_ok[OF Suc.prems(2) r]
  show ?case
  proof (cases found)
    case None
    then show ?thesis using Suc.prems(1) r ok by simp
  next
    case (Some m)
    have m: "m \<in> set (pq_messages q1)" "ms_attempt m < qp_max_deliver (qe_policy qe)" using ok Some by auto
    note b = queue_ok_bump[OF conjunct1[OF ok] m]
    show ?thesis using Suc.prems(1) r Some by (auto simp: Let_def intro!: Suc.IH b[simplified])
  qed
qed

text \<open>
  What can happen to one queue under one policy: an event is added, a consumer looks, takes a
  batch, settles or asks again, in any order, at any times, with any arguments; the log behind a
  consumer may grow between two steps.
\<close>

inductive queue_run :: "queue_policy \<Rightarrow> pending_queue \<Rightarrow> (nat \<times> nat) list \<Rightarrow> bool" for p :: queue_policy where
  qr_new: "queue_run p \<lparr>pq_messages = [], pq_next = 0, pq_cursor = 0, pq_dead = dead\<rparr> []"
| qr_add: "queue_run p q ds \<Longrightarrow> queue_run p (pending_add event q) ds"
| qr_look: "queue_run p q ds \<Longrightarrow> qe_policy qe = p \<Longrightarrow> pending_ready qe shut wall now taken q = Inr (found, q') \<Longrightarrow>
    queue_run p q' ds"
| qr_take: "queue_run p q ds \<Longrightarrow> qe_policy qe = p \<Longrightarrow> take_loop qe shut wall clk batch [] [] q = Inr (got, q') \<Longrightarrow>
    queue_run p q' (ds @ got)"
| qr_settle: "queue_run p q ds \<Longrightarrow> queue_run p (pending_settle no attempt q) ds"
| qr_retry: "queue_run p q ds \<Longrightarrow> queue_run p (pending_retry no attempt delay now q) ds"

lemma queue_run_ok: "queue_run p q ds \<Longrightarrow> queue_ok (qp_max_deliver p) q ds"
proof (induction rule: queue_run.induct)
  case (qr_new dead)
  show ?case by (simp add: queue_ok_def)
next
  case (qr_take q ds qe shut wall clk batch got q')
  then show ?case using take_loop_ok[of qe shut wall clk batch "[]" "[]" q got q' ds] by simp
qed (auto simp: pending_settle_def pending_retry_def intro: queue_ok_add queue_ok_map dest: pending_ready_ok)

lemma take_loop_append:
  "take_loop qe shut wall clk n taken got q = Inr (got', q') \<Longrightarrow> \<exists>more. got' = got @ more"
proof (induction n arbitrary: clk taken got q)
  case (Suc n)
  show ?case using Suc.prems
    by (auto simp: and_then_Inr Let_def split: option.splits dest!: Suc.IH)
qed simp

text \<open>
  C38: a message is delivered at most \<open>max_deliver\<close> times, whatever the consumers do with it and
  whenever, and no two deliveries of it carry the same attempt number.
\<close>

theorem deliveries_bounded:
  assumes "queue_run p q ds"
  shows "distinct ds \<and> (\<forall>(n, a) \<in> set ds. 1 \<le> a \<and> a \<le> qp_max_deliver p) \<and>
    length (filter (\<lambda>(n, a). n = no) ds) \<le> qp_max_deliver p"
proof -
  have ok: "distinct ds" "\<forall>(n, a) \<in> set ds. 1 \<le> a \<and> a \<le> qp_max_deliver p"
    using queue_run_ok[OF assms] unfolding queue_ok_def by auto
  define mine where "mine = filter (\<lambda>(n, a). n = no) ds"
  have "set mine \<subseteq> (\<lambda>a. (no, a)) ` {1..qp_max_deliver p}" using ok(2) unfolding mine_def by auto
  then have "card (set mine) \<le> card {1..qp_max_deliver p}"
    by (meson card_image_le card_mono finite_atLeastAtMost finite_imageI order_trans)
  moreover have "card (set mine) = length mine" using ok(1) unfolding mine_def by (metis distinct_card distinct_filter)
  ultimately show ?thesis using ok unfolding mine_def by simp
qed

section \<open>Envelopes\<close>

text \<open>An envelope the program accepts is read back unchanged from its encoding, and one it does not is refused there too.\<close>

theorem envelope_round_trip:
  "(case envelope_check e of Inr e' \<Rightarrow> e' = e \<and> envelope_of (envelope_dict e) = Inr e
    | Inl _ \<Rightarrow> \<exists>f. envelope_of (envelope_dict e) = Inl f)"
proof (cases "envelope_check e")
  case (Inr e')
  then show ?thesis
    by (cases "ev_cause e")
       (auto simp: envelope_check_def envelope_of_def envelope_dict_def field_str_def field_int_def jget_def
         split: if_splits)
next
  case (Inl f)
  then have "envelope_of (envelope_dict e) \<noteq> Inr e'" for e'
    by (cases "ev_cause e")
       (auto simp: envelope_check_def envelope_of_def envelope_dict_def field_str_def field_int_def jget_def and_then_Inr
         split: if_splits)
  then show ?thesis using Inl by (cases "envelope_of (envelope_dict e)") auto
qed

section \<open>The statements at concrete inputs\<close>

definition sample_policy :: queue_policy where
  "sample_policy = \<lparr>qp_max_deliver = 2, qp_ack_wait_ms = 10, qp_backoff_ms = [], qp_inactive_ms = None\<rparr>"

definition sample_event :: envelope where
  "sample_event = \<lparr>ev_id = ''e'', ev_type = ''t'', ev_swarm = ''sw'', ev_entity = ''agent'', ev_key = ''k'',
     ev_version = 1, ev_time = 5, ev_author = ''a'', ev_data = [], ev_cause = None, ev_schema_version = 1\<rparr>"

definition sample_env :: queue_env where
  "sample_env = \<lparr>qe_policy = sample_policy, qe_identity = ''queue.q'', qe_sha = (\<lambda>s i. s @ i), qe_pattern = ''>'', qe_source = []\<rparr>"

lemma scoped_subject_confined_witness:
  "in_swarm ''sw'' ''swarm.sw.events.task.done'' \<and>
   starts_with ''swarm.sw.events.'' ''swarm.sw.events.task.done''"
proof -
  have "scoped_subject ''sw'' ''events'' ''swarm.sw.task.done'' = Inr ''swarm.sw.events.task.done''"
    by (simp add: scoped_subject_def event_subject_def subject_token_def token_char_def bus_prefix_def starts_with_def
        remove_prefix_def of_char_def)
  from scoped_subject_confined[OF this] show ?thesis by simp
qed

lemma dedupe_window_witness:
  "dedupe_asks [(''a'', 0), (''b'', 1), (''a'', 5), (''a'', 12)] \<lparr>dd_window_ms = 10, dd_seen = []\<rparr> ! 3"
proof -
  let ?asks = "[(''a'', 0), (''b'', 1), (''a'', 5), (''a'', 12)] :: (string \<times> int) list"
  have out: "dedupe_asks ?asks \<lparr>dd_window_ms = 10, dd_seen = []\<rparr> = [True, True, False, True]"
    by (simp add: dedupe_first_def dhas_def Let_def)
  have "i < 3 \<Longrightarrow> i = 0 \<or> i = 1 \<or> i = (2::nat)" for i by linarith
  then show ?thesis
    using dedupe_window[of ?asks 3 "\<lparr>dd_window_ms = 10, dd_seen = []\<rparr>" 10] out by auto
qed

lemma deliveries_bounded_witness:
  "distinct [(0::nat, 1::nat), (0, 2)] \<and>
   length (filter (\<lambda>(n, a). n = 0) [(0::nat, 1::nat), (0, 2)]) \<le> qp_max_deliver sample_policy"
proof -
  let ?new = "\<lparr>pq_messages = [], pq_next = 0, pq_cursor = 0, pq_dead = None\<rparr>"
  let ?msg = "\<lambda>a r. \<lparr>pq_messages = [\<lparr>ms_no = 0, ms_event = sample_event, ms_attempt = a, ms_ready_at = r, ms_settled = False\<rparr>],
     pq_next = 1, pq_cursor = 0, pq_dead = None\<rparr>"
  have add: "pending_add sample_event ?new = ?msg 0 0" by (simp add: pending_add_def)
  have t1: "take_loop sample_env False 0 (\<lambda>_. 0) 1 [] [] (?msg 0 0) = Inr ([(0, 1)], ?msg 1 10)"
    by (simp add: pending_ready_def pending_pull_def sample_env_def sample_policy_def exhausted_def bump_message_def wait_ms_def)
  have t2: "take_loop sample_env False 0 (\<lambda>_. 20) 1 [] [] (?msg 1 10) = Inr ([(0, 2)], ?msg 2 30)"
    by (simp add: pending_ready_def pending_pull_def sample_env_def sample_policy_def exhausted_def bump_message_def wait_ms_def)
  have pol: "qe_policy sample_env = sample_policy" by (simp add: sample_env_def)
  have "queue_run sample_policy (?msg 0 0) []"
    using queue_run.qr_add[OF queue_run.qr_new, of sample_policy sample_event None] unfolding add .
  from queue_run.qr_take[OF queue_run.qr_take[OF this pol t1] pol t2]
  have "queue_run sample_policy (?msg 2 30) [(0, 1), (0, 2)]" by simp
  from deliveries_bounded[OF this, of 0] show ?thesis by simp
qed

end
