(* ===== verification/Watch_Loop.thy ===== *)
theory Watch_Loop
  imports Prelude
begin

text \<open>
  The optimistic transaction the Redis clients of the program are written with: watch some keys,
  read and decide, and execute the queued commands only if no watched key was touched meanwhile,
  else start over (\<open>WATCH\<close>, \<open>MULTI\<close>, \<open>EXEC\<close>). A watched key that was written and holds its old value
  again counts as untouched here: the decision made over again would be the same one.
\<close>

text \<open>
  \<open>seen\<close> is what is watched, \<open>step\<close> the decision: a result with the writes to execute, or none. The
  list holds what the other clients do between the reading and the execution of each attempt.
\<close>

fun watch_loop ::
  "('s \<Rightarrow> 'w) \<Rightarrow> ('s \<Rightarrow> fault + 'r \<times> ('s \<Rightarrow> 's) option) \<Rightarrow> ('s \<Rightarrow> 's) list \<Rightarrow> 's \<Rightarrow> (fault + 'r) \<times> 's" where
  "watch_loop seen step [] s = (Inl (Swarm_Error ''dependency_unavailable''), s)"
| "watch_loop seen step (env # envs) s =
    (case step s of
      Inl e \<Rightarrow> (Inl e, s)
    | Inr (r, None) \<Rightarrow> (Inr r, s)
    | Inr (r, Some writes) \<Rightarrow>
        let s1 = env s
        in if seen s1 = seen s then (Inr r, writes s1) else watch_loop seen step envs s1)"

text \<open>A client that decides on nothing but what it watches.\<close>

locale watched_client =
  fixes seen :: "'s \<Rightarrow> 'w" and step :: "'s \<Rightarrow> fault + 'r \<times> ('s \<Rightarrow> 's) option" and world_step :: "'s \<Rightarrow> 's \<Rightarrow> bool"
  assumes decides: "seen s = seen s' \<Longrightarrow> step s = step s'"
begin

definition clients :: "('s \<Rightarrow> 's) list \<Rightarrow> bool" where
  "clients envs \<longleftrightarrow> (\<forall>env \<in> set envs. \<forall>s. world_step\<^sup>*\<^sup>* s (env s))"

text \<open>The transaction takes effect at one moment: as if decision and writes happened there at once.\<close>

lemma loop_atomic:
  assumes "clients envs" "watch_loop seen step envs s = (Inr r, s')"
  shows "\<exists>s1. world_step\<^sup>*\<^sup>* s s1 \<and>
    ((step s1 = Inr (r, None) \<and> s' = s1) \<or> (\<exists>writes. step s1 = Inr (r, Some writes) \<and> s' = writes s1))"
  using assms
proof (induction envs arbitrary: s)
  case Nil
  then show ?case by simp
next
  case (Cons env envs)
  have env: "world_step\<^sup>*\<^sup>* s (env s)" and rest: "clients envs" using Cons.prems(1) by (auto simp: clients_def)
  show ?case
  proof (cases "step s")
    case (Inl e)
    then show ?thesis using Cons.prems(2) by simp
  next
    case (Inr out)
    obtain r0 w where out: "out = (r0, w)" by fastforce
    show ?thesis
    proof (cases w)
      case None
      then show ?thesis using Cons.prems(2) Inr out by auto
    next
      case (Some writes)
      show ?thesis
      proof (cases "seen (env s) = seen s")
        case True
        then have "step (env s) = Inr (r0, Some writes)" using decides[OF True] Inr out Some by simp
        moreover have "r0 = r" "s' = writes (env s)" using Cons.prems(2) Inr out Some True by (auto simp: Let_def)
        ultimately show ?thesis using env by blast
      next
        case False
        then have "watch_loop seen step envs (env s) = (Inr r, s')"
          using Cons.prems(2) Inr out Some by (simp add: Let_def)
        from Cons.IH[OF rest this] show ?thesis using rtranclp_trans[OF env] by blast
      qed
    qed
  qed
qed

text \<open>A refusal leaves the world to the others.\<close>

lemma loop_refused:
  assumes "clients envs" "watch_loop seen step envs s = (Inl e, s')"
  shows "world_step\<^sup>*\<^sup>* s s'"
  using assms
proof (induction envs arbitrary: s)
  case Nil
  then show ?case by simp
next
  case (Cons env envs)
  have env: "world_step\<^sup>*\<^sup>* s (env s)" and rest: "clients envs" using Cons.prems(1) by (auto simp: clients_def)
  show ?case
    using Cons.prems(2) Cons.IH[OF rest, of "env s"] env
    by (auto split: sum.splits option.splits prod.splits if_splits simp: Let_def intro: rtranclp_trans)
qed

end

end
