(* ===== verification/Fleet_Registry.thy ===== *)
theory Fleet_Registry
  imports Watch_Loop Naming Records
begin

text \<open>
  The fleet session registry (\<open>scripts/swarm_v2/registry.py\<close>): one record per native session in its
  scope, and the owner of each seat, in two hashes of the swarm. The digest that makes a session's
  key, the name registry (\<open>resolve\<close>) and the check of a launch grant are parameters.
\<close>

section \<open>Records\<close>

record session_scope =
  sc_backend :: string
  sc_host :: string
  sc_namespace :: string

record session =
  se_session_id :: string
  se_scope :: session_scope
  se_pid :: int
  se_pid_start :: int
  se_harness :: string
  se_name :: string
  se_conversation_id :: string
  se_execution_id :: string
  se_generation :: int
  se_seat :: string
  se_state :: string
  se_heartbeat_ms :: int

record seat_owner =
  so_execution_id :: string
  so_generation :: int
  so_session :: string

record fleet =
  fl_sessions :: "(string, session) dict"
  fl_seats :: "(string, seat_owner) dict"

text \<open>The registry of one swarm: its slug, the digest, the clock's staleness.\<close>

record fleet_ctx =
  fc_slug :: string
  fc_key :: "session_scope \<Rightarrow> string \<Rightarrow> string"
  fc_stale_after_ms :: int

definition session_key :: "fleet_ctx \<Rightarrow> session \<Rightarrow> string" where
  "session_key fc record = fc_key fc (se_scope record) (se_session_id record)"

definition session_identity :: "session \<Rightarrow> session" where
  "session_identity record = record\<lparr>se_state := ''live'', se_heartbeat_ms := 0\<rparr>"

definition fleet_error :: "string \<Rightarrow> fault + 'a" where
  "fleet_error msg = Inl (Swarm_Error msg)"

section \<open>Grants and seats\<close>

definition fleet_grant :: "fleet_ctx \<Rightarrow> (string \<Rightarrow> fault + registration) \<Rightarrow> string \<Rightarrow> string \<Rightarrow> int \<Rightarrow> fault + registration" where
  "fleet_grant fc authorize token execution_id generation =
    (if token = '''' then fleet_error ''forbidden_scope''
     else and_then (authorize token) (\<lambda>grant.
       if rg_swarm_id grant \<noteq> fc_slug fc then fleet_error ''forbidden_scope''
       else if (rg_execution_id grant, rg_generation grant) \<noteq> (execution_id, generation) then fleet_error ''forbidden_scope''
       else Inr grant))"

definition fleet_seat :: "fleet_ctx \<Rightarrow> (string \<Rightarrow> fault + registration) \<Rightarrow> session \<Rightarrow> string \<Rightarrow> string \<Rightarrow> fault + string" where
  "fleet_seat fc authorize session name token =
    and_then (fleet_grant fc authorize token (se_execution_id session) (se_generation session)) (\<lambda>grant.
      let seat = rg_seat_id grant
      in if se_seat session \<noteq> '''' \<and> se_seat session \<noteq> seat then fleet_error ''forbidden_scope''
         else if lane_of name = ''master'' \<and> seat \<noteq> ''master@'' @ fc_slug fc then fleet_error ''forbidden_scope''
         else Inr seat)"

definition replaceable :: "session \<Rightarrow> session \<Rightarrow> fault + bool" where
  "replaceable existing record =
    (if session_identity existing = session_identity record
     then (if se_state existing = ''closed'' then fleet_error ''session_ended'' else Inr False)
     else if se_generation existing > se_generation record then fleet_error ''stale_generation''
     else if se_generation existing = se_generation record \<and> (se_state existing = ''live'' \<or> se_seat existing \<noteq> se_seat record)
     then fleet_error ''registration_conflict''
     else Inr True)"

section \<open>Registering\<close>

definition register_write :: "fleet_ctx \<Rightarrow> session \<Rightarrow> fleet \<Rightarrow> fleet" where
  "register_write fc record fl =
    (let key = session_key fc record
     in fl\<lparr>fl_sessions := dset key record (fl_sessions fl),
           fl_seats := (if se_seat record = '''' then fl_seats fl
             else dset (se_seat record) \<lparr>so_execution_id = se_execution_id record, so_generation = se_generation record,
                                         so_session = key\<rparr> (fl_seats fl))\<rparr>)"

definition register_step :: "fleet_ctx \<Rightarrow> session \<Rightarrow> fleet \<Rightarrow> fault + session \<times> (fleet \<Rightarrow> fleet) option" where
  "register_step fc record fl =
    (let key = session_key fc record; stored = dget (fl_sessions fl) key
     in and_then (case stored of None \<Rightarrow> Inr True | Some existing \<Rightarrow> replaceable existing record) (\<lambda>new.
          case (new, stored) of
            (False, Some existing) \<Rightarrow> Inr (existing, None)
          | _ \<Rightarrow>
              (case (if se_seat record = '''' then None else dget (fl_seats fl) (se_seat record)) of
                 None \<Rightarrow> Inr (record, Some (register_write fc record))
               | Some held \<Rightarrow>
                   if (so_generation held, so_execution_id held) \<noteq> (se_generation record, se_execution_id record) \<and>
                      so_generation held \<ge> se_generation record
                   then fleet_error ''stale_generation''
                   else Inr (record, Some (register_write fc record)))))"

definition fleet_seen :: "fleet \<Rightarrow> fleet" where
  "fleet_seen fl = fl"

definition fleet_register ::
  "fleet_ctx \<Rightarrow> (string \<Rightarrow> fault + registration) \<Rightarrow> (string \<Rightarrow> string) \<Rightarrow> int \<Rightarrow> session \<Rightarrow> string \<Rightarrow>
   (fleet \<Rightarrow> fleet) list \<Rightarrow> fleet \<Rightarrow> (fault + session) \<times> fleet" where
  "fleet_register fc authorize resolve now session token others fl =
    (let name = (if se_name session = '''' then '''' else resolve (se_name session))
     in case fleet_seat fc authorize session name token of
          Inl e \<Rightarrow> (Inl e, fl)
        | Inr seat \<Rightarrow>
            watch_loop fleet_seen
              (register_step fc (session\<lparr>se_name := name, se_seat := seat, se_state := ''live'', se_heartbeat_ms := now\<rparr>)) others fl)"

section \<open>Updates\<close>

text \<open>The rows a change answers with a new record, \<open>None\<close> to leave a row alone; a refusal refuses all.\<close>

fun changed_rows :: "(session \<Rightarrow> fault + session option) \<Rightarrow> (string \<Rightarrow> bool) \<Rightarrow> (string, session) dict \<Rightarrow>
    fault + (string, session) dict" where
  "changed_rows change wanted [] = Inr []"
| "changed_rows change wanted ((key, record) # rows) =
    (if \<not> wanted key then changed_rows change wanted rows
     else and_then (change record) (\<lambda>updated. and_then (changed_rows change wanted rows) (\<lambda>rest.
       Inr (case updated of None \<Rightarrow> rest | Some new \<Rightarrow> (key, new) # rest))))"

definition update_step ::
  "(fleet \<Rightarrow> session \<Rightarrow> fault + session option) \<Rightarrow> (string \<Rightarrow> bool) \<Rightarrow> fleet \<Rightarrow> fault + session list \<times> (fleet \<Rightarrow> fleet) option" where
  "update_step change wanted fl =
    and_then (changed_rows (change fl) wanted (fl_sessions fl)) (\<lambda>rows.
      Inr (dvals rows, if rows = [] then None
        else Some (\<lambda>fl1. fl1\<lparr>fl_sessions := dmerge (fl_sessions fl1) rows\<rparr>)))"

definition owned_change :: "session \<Rightarrow> (session \<Rightarrow> fault + session) \<Rightarrow> session \<Rightarrow> fault + session option" where
  "owned_change found change record =
    (if (se_execution_id record, se_generation record) \<noteq> (se_execution_id found, se_generation found)
     then fleet_error ''stale_generation'' else and_then (change record) (\<lambda>new. Inr (Some new)))"

text \<open>\<open>_one\<close>: a session that vanished in between leaves the list of updates empty, an \<open>IndexError\<close>.\<close>

definition fleet_one ::
  "fleet_ctx \<Rightarrow> (string \<Rightarrow> fault + registration) \<Rightarrow> session_scope \<Rightarrow> string \<Rightarrow> string \<Rightarrow> (fleet \<Rightarrow> session \<Rightarrow> fault + session) \<Rightarrow>
   (fleet \<Rightarrow> fleet) list \<Rightarrow> fleet \<Rightarrow> (fault + session) \<times> fleet" where
  "fleet_one fc authorize scope session_id token change others fl =
    (let key = fc_key fc scope session_id
     in case dget (fl_sessions fl) key of
          None \<Rightarrow> (fleet_error ''unknown_session'', fl)
        | Some found \<Rightarrow>
            (case fleet_grant fc authorize token (se_execution_id found) (se_generation found) of
               Inl e \<Rightarrow> (Inl e, fl)
             | Inr _ \<Rightarrow>
                 (case watch_loop fleet_seen (update_step (\<lambda>fl1. owned_change found (change fl1)) (\<lambda>k. k = key)) others fl of
                    (Inl e, fl1) \<Rightarrow> (Inl e, fl1)
                  | (Inr [], fl1) \<Rightarrow> (Inl (Key_Error ''0''), fl1)
                  | (Inr (record # _), fl1) \<Rightarrow> (Inr record, fl1))))"

definition beat :: "int \<Rightarrow> fleet \<Rightarrow> session \<Rightarrow> fault + session" where
  "beat now fl record =
    (if se_state record \<noteq> ''live'' \<and> se_state record \<noteq> ''suspect'' then fleet_error ''session_ended''
     else case dget (fl_seats fl) (se_seat record) of
            Some held \<Rightarrow>
              if (so_execution_id held, so_generation held) \<noteq> (se_execution_id record, se_generation record)
              then fleet_error ''stale_generation''
              else Inr (record\<lparr>se_state := ''live'', se_heartbeat_ms := now\<rparr>)
          | None \<Rightarrow> Inr (record\<lparr>se_state := ''live'', se_heartbeat_ms := now\<rparr>))"

definition fleet_heartbeat where
  "fleet_heartbeat fc authorize now scope session_id token others fl =
    fleet_one fc authorize scope session_id token (beat now) others fl"

definition close_record :: "fleet \<Rightarrow> session \<Rightarrow> fault + session" where
  "close_record fl record = Inr (record\<lparr>se_state := ''closed''\<rparr>)"

definition fleet_close where
  "fleet_close fc authorize scope session_id token others fl =
    fleet_one fc authorize scope session_id token close_record others fl"

text \<open>\<open>table\<close>: the start time of each process of the observed scope.\<close>

definition judge_record :: "session_scope \<Rightarrow> (int, int) dict \<Rightarrow> fleet \<Rightarrow> session \<Rightarrow> fault + session option" where
  "judge_record scope table fl record =
    Inr (if se_scope record \<noteq> scope \<or> se_state record \<noteq> ''live'' then None
         else if dget table (se_pid record) = Some (se_pid_start record) then None
         else Some (record\<lparr>se_state := ''suspect''\<rparr>))"

definition update_count :: "(fault + session list) \<times> fleet \<Rightarrow> (fault + nat) \<times> fleet" where
  "update_count out = (case out of (Inl e, fl) \<Rightarrow> (Inl e, fl) | (Inr rows, fl) \<Rightarrow> (Inr (length rows), fl))"

definition fleet_observe :: "session_scope \<Rightarrow> (int, int) dict \<Rightarrow> (fleet \<Rightarrow> fleet) list \<Rightarrow> fleet \<Rightarrow> (fault + nat) \<times> fleet" where
  "fleet_observe scope table others fl =
    (if table = [] then (Inr 0, fl)
     else update_count (watch_loop fleet_seen (update_step (judge_record scope table) (\<lambda>_. True)) others fl))"

definition stale_record :: "int \<Rightarrow> fleet \<Rightarrow> session \<Rightarrow> fault + session option" where
  "stale_record deadline fl record =
    Inr (if se_state record = ''live'' \<and> se_heartbeat_ms record < deadline then Some (record\<lparr>se_state := ''suspect''\<rparr>) else None)"

definition fleet_sweep :: "fleet_ctx \<Rightarrow> int \<Rightarrow> (fleet \<Rightarrow> fleet) list \<Rightarrow> fleet \<Rightarrow> (fault + nat) \<times> fleet" where
  "fleet_sweep fc now others fl =
    update_count (watch_loop fleet_seen (update_step (stale_record (now - fc_stale_after_ms fc)) (\<lambda>_. True)) others fl)"

section \<open>Reading\<close>

definition fleet_records :: "string list option \<Rightarrow> fleet \<Rightarrow> session list" where
  "fleet_records backends fl =
    filter (\<lambda>record. case backends of None \<Rightarrow> True | Some bs \<Rightarrow> sc_backend (se_scope record) \<in> set bs) (dvals (fl_sessions fl))"

text \<open>\<open>spawn_backend\<close>: what a router without runtimes answers for the environment.\<close>

definition fleet_visible :: "string \<Rightarrow> fleet \<Rightarrow> session list" where
  "fleet_visible spawn_backend fl = fleet_records (if spawn_backend = ''local'' then Some [''local''] else None) fl"

definition fleet_find :: "(string \<Rightarrow> string) \<Rightarrow> string \<Rightarrow> fleet \<Rightarrow> session list" where
  "fleet_find resolve name fl = filter (\<lambda>record. se_name record = resolve name) (fleet_records None fl)"

definition fleet_stale_records :: "fleet \<Rightarrow> nat" where
  "fleet_stale_records fl = length (filter (\<lambda>record. se_state record = ''suspect'') (fleet_records None fl))"

section \<open>What the registry promises\<close>

text \<open>A registration or an update, decided on the registry as it is.\<close>

inductive fleet_step :: "fleet_ctx \<Rightarrow> fleet \<Rightarrow> fleet \<Rightarrow> bool" for fc where
  fs_register: "register_step fc record fl = Inr (out, Some writes) \<Longrightarrow> fleet_step fc fl (writes fl)"
| fs_update: "update_step change wanted fl = Inr (out, Some writes) \<Longrightarrow> fleet_step fc fl (writes fl)"

interpretation registering: watched_client fleet_seen "register_step fc rc" "fleet_step fc" for fc rc
  by unfold_locales (simp add: fleet_seen_def)

interpretation updating: watched_client fleet_seen "update_step change wanted" "fleet_step fc" for fc change wanted
  by unfold_locales (simp add: fleet_seen_def)

lemma register_step_seat:
  assumes "register_step fc record fl = Inr (out, Some writes)" and "dget (fl_seats fl) seat = Some held"
  shows "\<exists>held'. dget (fl_seats (writes fl)) seat = Some held' \<and> so_generation held \<le> so_generation held' \<and>
    (so_generation held = so_generation held' \<longrightarrow> so_execution_id held = so_execution_id held')"
proof -
  have w: "writes = register_write fc record"
    using assms(1) by (auto simp: register_step_def Let_def and_then_Inr fleet_error_def split: option.splits bool.splits if_splits)
  show ?thesis
  proof (cases "seat = se_seat record \<and> seat \<noteq> ''''")
    case True
    then have "\<not> ((so_generation held, so_execution_id held) \<noteq> (se_generation record, se_execution_id record) \<and>
        so_generation held \<ge> se_generation record)"
      using assms by (auto simp: register_step_def Let_def and_then_Inr fleet_error_def split: option.splits bool.splits if_splits)
    then show ?thesis using True by (auto simp: w register_write_def Let_def dget_dset)
  next
    case False
    then show ?thesis using assms(2) by (auto simp: w register_write_def Let_def dget_dset)
  qed
qed

text \<open>
  C23: a seat only moves forward. The generation that owns a seat never goes back, and one generation
  of a seat belongs to one execution, whatever registrations, heartbeats, closes, sweeps and process
  tables come in between.
\<close>

theorem seat_generation_forward:
  assumes "(fleet_step fc)\<^sup>*\<^sup>* fl fl'" and "dget (fl_seats fl) seat = Some held"
  shows "\<exists>held'. dget (fl_seats fl') seat = Some held' \<and> so_generation held \<le> so_generation held' \<and>
    (so_generation held = so_generation held' \<longrightarrow> so_execution_id held = so_execution_id held')"
  using assms
proof (induction rule: rtranclp_induct)
  case base
  then show ?case by simp
next
  case (step x y)
  then obtain h1 where h1: "dget (fl_seats x) seat = Some h1" "so_generation held \<le> so_generation h1"
    "so_generation held = so_generation h1 \<longrightarrow> so_execution_id held = so_execution_id h1" by blast
  have "\<exists>h2. dget (fl_seats y) seat = Some h2 \<and> so_generation h1 \<le> so_generation h2 \<and>
    (so_generation h1 = so_generation h2 \<longrightarrow> so_execution_id h1 = so_execution_id h2)"
    using step.hyps(2)
  proof cases
    case (fs_register rc out writes)
    then show ?thesis using register_step_seat[OF fs_register(2) h1(1)] by simp
  next
    case (fs_update change wanted out writes)
    then have "fl_seats y = fl_seats x" by (auto simp: update_step_def and_then_Inr split: if_splits)
    then show ?thesis using h1(1) by auto
  qed
  then show ?case using h1 by fastforce
qed

text \<open>
  A registration that returns took effect at once: there was a moment at which the registry looked
  the way the decision saw it.
\<close>

lemma fleet_register_atomic:
  assumes "registering.clients fc others" and "fleet_register fc authorize resolve now session token others fl = (Inr r, fl')"
  shows "\<exists>record fl1. (fleet_step fc)\<^sup>*\<^sup>* fl fl1 \<and>
    ((register_step fc record fl1 = Inr (r, None) \<and> fl' = fl1) \<or>
     (\<exists>writes. register_step fc record fl1 = Inr (r, Some writes) \<and> fl' = writes fl1))"
  using assms registering.loop_atomic[OF assms(1)]
  unfolding fleet_register_def Let_def by (auto split: sum.splits) blast+

text \<open>
  A closed record can come back: the same session in the same scope registers again with another
  process under the same generation and seat.
\<close>

definition fw_session :: "int \<Rightarrow> string \<Rightarrow> session" where
  "fw_session pid state = \<lparr>se_session_id = ''x'', se_scope = \<lparr>sc_backend = ''local'', sc_host = ''h'', sc_namespace = ''n''\<rparr>,
     se_pid = pid, se_pid_start = 1, se_harness = ''claude'', se_name = '''', se_conversation_id = '''', se_execution_id = ''e'',
     se_generation = 1, se_seat = ''eng@s'', se_state = state, se_heartbeat_ms = 0\<rparr>"

lemma closed_record_revives:
  "\<exists>fl fl'. dget (fl_sessions fl) (session_key fc (fw_session 1 ''closed'')) = Some (fw_session 1 ''closed'') \<and> fleet_step fc fl fl' \<and>
     dget (fl_sessions fl') (session_key fc (fw_session 1 ''closed'')) = Some (fw_session 2 ''live'')"
proof -
  let ?key = "session_key fc (fw_session 1 ''closed'')"
  let ?fl = "\<lparr>fl_sessions = [(?key, fw_session 1 ''closed'')],
      fl_seats = [(''eng@s'', \<lparr>so_execution_id = ''e'', so_generation = 1, so_session = ?key\<rparr>)]\<rparr>"
  have key: "session_key fc (fw_session 2 ''live'') = ?key" by (simp add: session_key_def fw_session_def)
  have "register_step fc (fw_session 2 ''live'') ?fl = Inr (fw_session 2 ''live'', Some (register_write fc (fw_session 2 ''live'')))"
    unfolding register_step_def Let_def key
    by (simp add: replaceable_def session_identity_def) (simp add: fw_session_def)
  from fs_register[OF this] show ?thesis
    by (intro exI[of _ ?fl] exI[of _ "register_write fc (fw_session 2 ''live'') ?fl"])
       (simp add: register_write_def Let_def key dget_dset)
qed

definition fw_ctx :: fleet_ctx where
  "fw_ctx = \<lparr>fc_slug = ''s'', fc_key = (\<lambda>_ i. i), fc_stale_after_ms = 5\<rparr>"

definition fw_fleet :: fleet where
  "fw_fleet = \<lparr>fl_sessions = [], fl_seats = [(''eng@s'', \<lparr>so_execution_id = ''e'', so_generation = 1, so_session = ''x''\<rparr>)]\<rparr>"

lemma seat_generation_forward_witness:
  "\<exists>held'. dget (fl_seats (register_write fw_ctx (fw_session 2 ''live'') fw_fleet)) ''eng@s'' = Some held' \<and> 1 \<le> so_generation held'"
proof -
  have "register_step fw_ctx (fw_session 2 ''live'') fw_fleet = Inr (fw_session 2 ''live'', Some (register_write fw_ctx (fw_session 2 ''live'')))"
    by (simp add: register_step_def Let_def fw_fleet_def) (simp add: fw_session_def)
  from r_into_rtranclp[of "fleet_step fw_ctx", OF fs_register[OF this]]
  have run: "(fleet_step fw_ctx)\<^sup>*\<^sup>* fw_fleet (register_write fw_ctx (fw_session 2 ''live'') fw_fleet)" .
  have "dget (fl_seats fw_fleet) ''eng@s'' = Some \<lparr>so_execution_id = ''e'', so_generation = 1, so_session = ''x''\<rparr>"
    by (simp add: fw_fleet_def)
  from seat_generation_forward[OF run this] show ?thesis by auto
qed

end
