(* ===== verification/Account_Capacity.thy ===== *)
theory Account_Capacity
  imports Fleet_Registry
begin

text \<open>
  Fleet-wide account capacity (\<open>scripts/swarm_v2/accounts.py\<close>): the slots of a provider account,
  reserved with an expiry, occupied by a confirmed session, retired by a later generation, released
  by their own execution. The rows of each account are a Redis hash; \<open>live\<close> tells whether the
  registry record of an occupancy is there and not closed (\<open>live_record\<close>).
\<close>

section \<open>Slots\<close>

record account_slot =
  sl_account :: string
  sl_holder :: string
  sl_execution_id :: string
  sl_generation :: int
  sl_state :: string
  sl_expires_ms :: int
  sl_session :: string

definition slot_counts :: "int \<Rightarrow> account_slot \<Rightarrow> bool" where
  "slot_counts now slot \<longleftrightarrow> sl_state slot = ''occupied'' \<or> sl_expires_ms slot > now"

fun show_nat :: "nat \<Rightarrow> string" where
  "show_nat n = (if n < 10 then [digit_char n] else show_nat (n div 10) @ [digit_char (n mod 10)])"

definition show_int :: "int \<Rightarrow> string" where
  "show_int i = (if i < 0 then ''-'' @ show_nat (nat (- i)) else show_nat (nat i))"

definition retiring :: "string \<Rightarrow> int \<Rightarrow> string" where
  "retiring holder generation = holder @ ''#'' @ show_int generation"

definition seat_holder :: "string \<Rightarrow> string" where
  "seat_holder name = takeWhile (\<lambda>ch. ch \<noteq> CHR ''#'') name"

text \<open>The world of the accounts; the fleet registries of the swarms are part of it.\<close>

record capacity =
  ca_slots :: "(string, (string, account_slot) dict) dict"
  ca_frozen :: bool
  ca_conflicts :: "(string, int) dict"
  ca_fleets :: "(string, fleet) dict"

definition account_rows :: "string \<Rightarrow> capacity \<Rightarrow> (string, account_slot) dict" where
  "account_rows account ca = (case dget (ca_slots ca) account of None \<Rightarrow> [] | Some rows \<Rightarrow> rows)"

definition swarm_fleet :: "string \<Rightarrow> capacity \<Rightarrow> fleet" where
  "swarm_fleet slug ca = (case dget (ca_fleets ca) slug of None \<Rightarrow> \<lparr>fl_sessions = [], fl_seats = []\<rparr> | Some fl \<Rightarrow> fl)"

definition live_record :: "capacity \<Rightarrow> account_slot \<Rightarrow> session option" where
  "live_record ca slot =
    (case dget (fl_sessions (swarm_fleet (takeWhile (\<lambda>ch. ch \<noteq> CHR ''/'') (sl_holder slot)) ca)) (sl_session slot) of
      None \<Rightarrow> None
    | Some rec \<Rightarrow> if se_state rec = ''closed'' then None else Some rec)"

text \<open>\<open>fleet_held\<close>: what a local process table cannot see, by account.\<close>

definition slot_remote :: "capacity \<Rightarrow> int \<Rightarrow> account_slot \<Rightarrow> bool" where
  "slot_remote ca now slot =
    (if sl_state slot = ''occupied''
     then (case live_record ca slot of None \<Rightarrow> False | Some rec \<Rightarrow> sc_backend (se_scope rec) \<noteq> ''local'')
     else slot_counts now slot)"

definition count_in :: "string \<Rightarrow> (string, int) dict \<Rightarrow> (string, int) dict" where
  "count_in k held = dset k ((case dget held k of None \<Rightarrow> 0 | Some n \<Rightarrow> n) + 1) held"

definition fleet_held :: "int \<Rightarrow> capacity \<Rightarrow> (string, int) dict" where
  "fleet_held now ca =
    foldl (\<lambda>held slot. if slot_remote ca now slot then count_in (sl_account slot) held else held) []
      (concat (map dvals (dvals (ca_slots ca))))"

section \<open>Deciding\<close>

definition slot_owns :: "account_slot \<Rightarrow> registration \<Rightarrow> bool" where
  "slot_owns slot grant \<longleftrightarrow> (sl_execution_id slot, sl_generation slot) = (rg_execution_id grant, rg_generation grant)"

definition judge_slots :: "capacity \<Rightarrow> (string, account_slot) dict \<Rightarrow> (string, account_slot) dict" where
  "judge_slots ca rows = map (\<lambda>(holder, slot). (holder,
     if sl_state slot = ''occupied'' \<and> live_record ca slot = None then slot\<lparr>sl_state := ''ended''\<rparr> else slot)) rows"

type_synonym 'r slot_decision = "fault + account_slot list \<times> string list \<times> 'r"

definition put_rows :: "account_slot list \<Rightarrow> string list \<Rightarrow> (string, account_slot) dict \<Rightarrow> (string, account_slot) dict" where
  "put_rows written dropped rows =
    foldl (\<lambda>rs slot. dset (sl_holder slot) slot rs) (filter (\<lambda>(holder, _). holder \<notin> set dropped) rows) written"

definition account_step ::
  "string \<Rightarrow> (capacity \<Rightarrow> (string, account_slot) dict \<Rightarrow> 'r slot_decision) \<Rightarrow> capacity \<Rightarrow> fault + 'r \<times> (capacity \<Rightarrow> capacity) option" where
  "account_step account decide ca =
    and_then (decide ca (judge_slots ca (account_rows account ca))) (\<lambda>(written, dropped, r).
      Inr (r, if written = [] \<and> dropped = [] then None
        else Some (\<lambda>ca1. ca1\<lparr>ca_slots := dset account (put_rows written dropped (account_rows account ca1)) (ca_slots ca1)\<rparr>)))"

definition capacity_seen :: "string \<Rightarrow> string option \<Rightarrow> capacity \<Rightarrow> (string, account_slot) dict \<times> bool \<times> (string, session) dict" where
  "capacity_seen account sessions ca =
    (account_rows account ca, ca_frozen ca, (case sessions of None \<Rightarrow> [] | Some slug \<Rightarrow> fl_sessions (swarm_fleet slug ca)))"

definition account_write where
  "account_write account sessions decide others ca =
    watch_loop (capacity_seen account sessions) (account_step account decide) others ca"

section \<open>The operations\<close>

definition capacity_grant :: "string \<Rightarrow> (string \<Rightarrow> fault + registration) \<Rightarrow> string \<Rightarrow> fault + registration" where
  "capacity_grant slug authorize token =
    (if token = '''' then fleet_error ''forbidden_scope''
     else and_then (authorize token) (\<lambda>grant.
       if rg_swarm_id grant \<noteq> slug then fleet_error ''forbidden_scope'' else Inr grant))"

definition reserve_decide ::
  "int \<Rightarrow> int \<Rightarrow> int \<Rightarrow> string \<Rightarrow> registration \<Rightarrow> capacity \<Rightarrow> (string, account_slot) dict \<Rightarrow> account_slot option slot_decision" where
  "reserve_decide now cap ttl holder grant ca slots =
    (if ca_frozen ca then fleet_error ''reservations_frozen''
     else
       let expired = map fst (filter (\<lambda>(name, slot). \<not> slot_counts now slot) slots);
           held = dget slots holder;
           mine = (case held of Some h \<Rightarrow> slot_owns h grant \<and> slot_counts now h | None \<Rightarrow> False);
           stale = (case held of Some h \<Rightarrow> \<not> slot_owns h grant \<and> sl_generation h \<ge> rg_generation grant | None \<Rightarrow> False);
           retired = (case held of
               Some h \<Rightarrow> if sl_state h = ''occupied'' then [h\<lparr>sl_holder := retiring holder (sl_generation h)\<rparr>] else []
             | None \<Rightarrow> []);
           used = length retired + length (filter (\<lambda>(name, slot). name \<noteq> holder \<and> slot_counts now slot) slots);
           slot = \<lparr>sl_account = rg_account grant, sl_holder = holder, sl_execution_id = rg_execution_id grant,
             sl_generation = rg_generation grant, sl_state = ''reserved'', sl_expires_ms = now + ttl, sl_session = ''''\<rparr>
       in if mine then Inr ([], [], held)
          else if stale then fleet_error ''stale_generation''
          else if int used \<ge> cap then Inr ([], [], None)
          else Inr (retired @ [slot], expired, Some slot))"

definition account_reserve ::
  "string \<Rightarrow> (string \<Rightarrow> fault + registration) \<Rightarrow> int \<Rightarrow> string \<Rightarrow> int \<Rightarrow> int \<Rightarrow> (capacity \<Rightarrow> capacity) list \<Rightarrow> capacity \<Rightarrow>
   (fault + account_slot) \<times> capacity" where
  "account_reserve slug authorize now token cap ttl others ca =
    (if cap < 0 \<or> \<not> (0 < ttl \<and> ttl \<le> 900000) then (fleet_error ''invalid_request'', ca)
     else case capacity_grant slug authorize token of
            Inl e \<Rightarrow> (Inl e, ca)
          | Inr grant \<Rightarrow>
              (case account_write (rg_account grant) None
                      (reserve_decide now cap ttl (slug @ ''/'' @ rg_seat_id grant) grant) others ca of
                 (Inl e, ca1) \<Rightarrow> (Inl e, ca1)
               | (Inr None, ca1) \<Rightarrow>
                   (fleet_error ''account_full'', ca1\<lparr>ca_conflicts := count_in (rg_account grant) (ca_conflicts ca1)\<rparr>)
               | (Inr (Some slot), ca1) \<Rightarrow> (Inr slot, ca1)))"

definition occupy_decide ::
  "int \<Rightarrow> string \<Rightarrow> string \<Rightarrow> string \<Rightarrow> registration \<Rightarrow> capacity \<Rightarrow> (string, account_slot) dict \<Rightarrow> account_slot slot_decision" where
  "occupy_decide now slug holder key grant ca slots =
    (case dget slots holder of
       None \<Rightarrow> fleet_error ''reservation_expired''
     | Some held \<Rightarrow>
         if \<not> slot_owns held grant then fleet_error ''stale_generation''
         else if sl_state held = ''occupied''
         then (if sl_session held \<noteq> key then fleet_error ''registration_conflict'' else Inr ([], [], held))
         else if sl_state held = ''ended'' then fleet_error ''unregistered''
         else if \<not> slot_counts now held then fleet_error ''reservation_expired''
         else case dget (fl_sessions (swarm_fleet slug ca)) key of
                None \<Rightarrow> fleet_error ''unregistered''
              | Some rec \<Rightarrow>
                  if se_state rec \<noteq> ''live'' \<or>
                    (se_execution_id rec, se_generation rec) \<noteq> (rg_execution_id grant, rg_generation grant)
                  then fleet_error ''unregistered''
                  else let slot = held\<lparr>sl_state := ''occupied'', sl_expires_ms := 0, sl_session := key\<rparr>
                       in Inr ([slot], [], slot))"

definition account_occupy ::
  "string \<Rightarrow> (string \<Rightarrow> fault + registration) \<Rightarrow> int \<Rightarrow> string \<Rightarrow> string \<Rightarrow> (capacity \<Rightarrow> capacity) list \<Rightarrow> capacity \<Rightarrow>
   (fault + account_slot) \<times> capacity" where
  "account_occupy slug authorize now token key others ca =
    (case capacity_grant slug authorize token of
       Inl e \<Rightarrow> (Inl e, ca)
     | Inr grant \<Rightarrow>
         account_write (rg_account grant) (Some slug)
           (occupy_decide now slug (slug @ ''/'' @ rg_seat_id grant) key grant) others ca)"

definition end_decide ::
  "string \<Rightarrow> string \<Rightarrow> int \<Rightarrow> capacity \<Rightarrow> (string, account_slot) dict \<Rightarrow> account_slot option slot_decision" where
  "end_decide holder execution_id generation ca slots =
    (case dget slots holder of
       None \<Rightarrow> Inr ([], [], None)
     | Some held \<Rightarrow>
         if (sl_execution_id held, sl_generation held) \<noteq> (execution_id, generation) then fleet_error ''stale_generation''
         else Inr ([], [holder], Some held))"

text \<open>\<open>unlaunch\<close> is the release of the launch slot an execution may hold beside (\<open>LaunchSlots.release\<close>).\<close>

definition account_end ::
  "string \<Rightarrow> (string \<Rightarrow> capacity \<Rightarrow> capacity) \<Rightarrow> string \<Rightarrow> string \<Rightarrow> string \<Rightarrow> int \<Rightarrow> (capacity \<Rightarrow> capacity) list \<Rightarrow> capacity \<Rightarrow>
   (fault + account_slot option) \<times> capacity" where
  "account_end slug unlaunch account seat execution_id generation others ca =
    (case account_write account None (end_decide (slug @ ''/'' @ seat) execution_id generation) others ca of
       (Inr (Some held), ca1) \<Rightarrow> (Inr (Some held), unlaunch execution_id ca1)
     | out \<Rightarrow> out)"

definition account_release where
  "account_release slug unlaunch authorize token others ca =
    (case capacity_grant slug authorize token of
       Inl e \<Rightarrow> (Inl e, ca)
     | Inr grant \<Rightarrow>
         account_end slug unlaunch (rg_account grant) (rg_seat_id grant) (rg_execution_id grant) (rg_generation grant) others ca)"

definition account_slots :: "int \<Rightarrow> string \<Rightarrow> capacity \<Rightarrow> account_slot list" where
  "account_slots now account ca =
    sort_key sl_holder (filter (slot_counts now)
      (dvals (judge_slots ca (foldl (\<lambda>found slot. dset (sl_holder slot) slot found) [] (dvals (account_rows account ca))))))"

definition account_judged :: "string \<Rightarrow> capacity \<Rightarrow> (string, account_slot) dict" where
  "account_judged account ca = judge_slots ca (account_rows account ca)"

definition drop_decide :: "account_slot list \<Rightarrow> capacity \<Rightarrow> (string, account_slot) dict \<Rightarrow> account_slot list slot_decision" where
  "drop_decide expected ca slots =
    (let gone = filter (\<lambda>slot. dget slots (sl_holder slot) = Some slot) expected
     in Inr ([], map sl_holder gone, gone))"

definition account_drop where
  "account_drop account expected others ca = account_write account None (drop_decide expected) others ca"

definition capacity_freeze :: "capacity \<Rightarrow> capacity" where
  "capacity_freeze ca = ca\<lparr>ca_frozen := True\<rparr>"

definition capacity_thaw :: "capacity \<Rightarrow> capacity" where
  "capacity_thaw ca = ca\<lparr>ca_frozen := False\<rparr>"

section \<open>Rebuilding\<close>

text \<open>\<open>registration\<close> reads the registration of an execution; \<open>skey\<close> is the digest of a session's key.\<close>

definition confirm_one ::
  "string \<Rightarrow> (session \<Rightarrow> string) \<Rightarrow> (string \<Rightarrow> registration option) \<Rightarrow>
   (string, (string, account_slot) dict) dict \<times> string list \<Rightarrow> session \<Rightarrow> (string, (string, account_slot) dict) dict \<times> string list" where
  "confirm_one slug skey registration acc rec =
    (let (confirmed, seated) = acc;
         found = (if se_state rec \<noteq> ''closed'' \<and> se_execution_id rec \<noteq> '''' then registration (se_execution_id rec) else None)
     in case found of
          None \<Rightarrow> acc
        | Some reg \<Rightarrow>
            if rg_swarm_id reg \<noteq> slug \<or> (se_execution_id rec, se_generation rec) \<noteq> (rg_execution_id reg, rg_generation reg)
            then acc
            else let plain = slug @ ''/'' @ se_seat rec;
                     holder = (if se_seat rec \<in> set seated then retiring plain (se_generation rec) else plain);
                     slot = \<lparr>sl_account = rg_account reg, sl_holder = holder, sl_execution_id = se_execution_id rec,
                       sl_generation = se_generation rec, sl_state = ''occupied'', sl_expires_ms = 0, sl_session = skey rec\<rparr>;
                     rows = (case dget confirmed (rg_account reg) of None \<Rightarrow> [] | Some rs \<Rightarrow> rs)
                 in (dset (rg_account reg) (dset holder slot rows) confirmed, seated @ [se_seat rec]))"

definition confirmed_slots ::
  "string \<Rightarrow> (session \<Rightarrow> string) \<Rightarrow> (string \<Rightarrow> registration option) \<Rightarrow> session list \<Rightarrow> (string, (string, account_slot) dict) dict" where
  "confirmed_slots slug skey registration records =
    fst (foldl (confirm_one slug skey registration) ([], []) (sort_key (\<lambda>rec. - se_generation rec) records))"

definition rebuild_decide ::
  "string \<Rightarrow> (string, account_slot) dict \<Rightarrow> capacity \<Rightarrow> (string, account_slot) dict \<Rightarrow> nat slot_decision" where
  "rebuild_decide mine wanted ca slots =
    (let dropped = map fst (filter (\<lambda>(name, slot). take (length mine) name = mine \<and> sl_state slot \<noteq> ''reserved'' \<and> \<not> dhas wanted name) slots);
         written = map snd (filter (\<lambda>(name, slot). case dget slots name of None \<Rightarrow> True
             | Some stored \<Rightarrow> sl_generation stored \<le> sl_generation slot) wanted)
     in Inr (written, dropped, length wanted))"

fun rebuild_accounts ::
  "string \<Rightarrow> (string, (string, account_slot) dict) dict \<Rightarrow> (capacity \<Rightarrow> capacity) list \<Rightarrow> string list \<Rightarrow> (string, nat) dict \<Rightarrow> capacity \<Rightarrow>
   (fault + (string, nat) dict) \<times> capacity" where
  "rebuild_accounts slug confirmed others [] rebuilt ca = (Inr rebuilt, ca)"
| "rebuild_accounts slug confirmed others (account # rest) rebuilt ca =
    (let wanted = (case dget confirmed account of None \<Rightarrow> [] | Some rs \<Rightarrow> rs)
     in case account_write account None (rebuild_decide (slug @ ''/'') wanted) others ca of
          (Inl e, ca1) \<Rightarrow> (Inl e, ca1)
        | (Inr count, ca1) \<Rightarrow>
            rebuild_accounts slug confirmed others rest (if count = 0 then rebuilt else dset account count rebuilt) ca1)"

definition account_reconstruct where
  "account_reconstruct slug skey registration others ca =
    (let confirmed = confirmed_slots slug skey registration (fleet_records None (swarm_fleet slug ca));
         accounts = sort (remdups (dkeys (ca_slots ca) @ dkeys confirmed))
     in rebuild_accounts slug confirmed others accounts [] ca)"

definition conflicts_total :: "capacity \<Rightarrow> int" where
  "conflicts_total ca = sum_list (dvals (ca_conflicts ca))"

section \<open>What the capacity promises\<close>

definition counting :: "int \<Rightarrow> (string, account_slot) dict \<Rightarrow> nat" where
  "counting now rows = length (filter (\<lambda>(name, slot). slot_counts now slot) rows)"

lemma counting_dset_le: "counting now (dset k slot rows) \<le> counting now rows + 1"
  by (induction rows) (auto simp: counting_def)

lemma filter_split_holder:
  "length (filter (\<lambda>(name, slot). slot_counts now slot) (filter (\<lambda>(name, slot). name \<noteq> holder) rows)) =
   length (filter (\<lambda>(name, slot). name \<noteq> holder \<and> slot_counts now slot) rows)"
  by (induction rows) auto

lemma counting_dset_at:
  "wf_dict rows \<Longrightarrow> counting now (dset k slot rows) \<le> counting now (filter (\<lambda>(name, _). name \<noteq> k) rows) + 1"
proof (induction rows)
  case Nil
  show ?case by (simp add: counting_def)
next
  case (Cons kv rows)
  obtain a b where kv: "kv = (a, b)" by fastforce
  show ?case
  proof (cases "a = k")
    case True
    then have "filter (\<lambda>(name, _). name \<noteq> k) rows = rows" using Cons.prems kv by (force intro!: filter_True)
    then show ?thesis using True kv by (simp add: counting_def)
  next
    case False
    then show ?thesis using Cons kv by (auto simp: counting_def)
  qed
qed

text \<open>
  C22: an account is never overbooked. When a reservation is granted a new slot, no more than \<open>cap\<close>
  slots of the account count after it, retired occupancies included, as the registry judged them at
  that moment.
\<close>

theorem reserve_within_cap:
  assumes "reserve_decide now cap ttl holder grant ca slots = Inr (written, dropped, Some slot)" and "written \<noteq> []"
    and "wf_dict slots"
  shows "int (counting now (put_rows written dropped slots)) \<le> cap"
proof -
  define retired where "retired = (case dget slots holder of
      Some h \<Rightarrow> if sl_state h = ''occupied'' then [h\<lparr>sl_holder := retiring holder (sl_generation h)\<rparr>] else []
    | None \<Rightarrow> [])"
  define used where "used = length retired + length (filter (\<lambda>(name, slot). name \<noteq> holder \<and> slot_counts now slot) slots)"
  have w: "written = retired @ [slot]" "sl_holder slot = holder" "int used < cap"
    using assms(1,2) unfolding retired_def used_def
    by (auto simp: reserve_decide_def Let_def fleet_error_def split: if_splits)
  define rows where "rows = filter (\<lambda>(h, _). h \<notin> set dropped) slots"
  define others where "others = filter (\<lambda>(name, _). name \<noteq> holder) rows"
  have wf: "wf_dict rows" using assms(3) unfolding rows_def by auto
  have small: "length retired \<le> 1" unfolding retired_def by (auto split: option.splits)
  have "counting now others = length (filter (\<lambda>(name, slot). name \<noteq> holder \<and> slot_counts now slot) rows)"
    unfolding others_def counting_def by (rule filter_split_holder)
  also have "\<dots> \<le> length (filter (\<lambda>(name, slot). name \<noteq> holder \<and> slot_counts now slot) slots)"
    unfolding rows_def by (induction slots) auto
  finally have others: "counting now others + length retired \<le> used" unfolding used_def by simp
  have "counting now (put_rows written dropped slots) \<le> counting now others + length retired + 1"
  proof (cases retired)
    case Nil
    then have "put_rows written dropped slots = dset holder slot rows" using w by (simp add: put_rows_def rows_def)
    then show ?thesis using counting_dset_at[OF wf, of now holder slot] unfolding others_def by simp
  next
    case (Cons r rest)
    then have r: "retired = [r]" using small by simp
    define mid where "mid = dset (sl_holder r) r rows"
    have eq: "put_rows written dropped slots = dset holder slot mid" using w r by (simp add: put_rows_def rows_def mid_def)
    have "wf_dict mid" using wf unfolding mid_def by simp
    from counting_dset_at[OF this, of now holder slot]
    have "counting now (put_rows written dropped slots) \<le> counting now (filter (\<lambda>(name, _). name \<noteq> holder) mid) + 1" unfolding eq .
    also have "counting now (filter (\<lambda>(name, _). name \<noteq> holder) mid) \<le> counting now others + 1"
    proof -
      have "filter (\<lambda>(name, _). name \<noteq> holder) mid =
          (if sl_holder r = holder then filter (\<lambda>(name, _). name \<noteq> holder) rows else dset (sl_holder r) r others)"
        unfolding mid_def others_def by (induction rows) auto
      then show ?thesis using counting_dset_le[of now "sl_holder r" r others] unfolding others_def by (auto split: if_splits)
    qed
    finally show ?thesis using r by simp
  qed
  then show ?thesis using others w(3) by linarith
qed

text \<open>A reserved slot is its own execution's only: releasing it under any other is refused.\<close>

lemma end_only_own:
  "end_decide holder execution_id generation ca slots = Inr (written, dropped, Some held) \<Longrightarrow>
   written = [] \<and> dropped = [holder] \<and> dget slots holder = Some held \<and>
   sl_execution_id held = execution_id \<and> sl_generation held = generation"
  by (auto simp: end_decide_def fleet_error_def split: option.splits if_splits)

definition cw_grant :: registration where
  "cw_grant = \<lparr>rg_grant_id = ''g'', rg_swarm_id = ''s'', rg_execution_id = ''e'', rg_generation = 2, rg_seat_id = ''eng'',
     rg_task_id = ''t'', rg_account = ''a'', rg_brain_id = ''b'', rg_project_ids = [], rg_issuer = ''i'', rg_audience = ''u'',
     rg_key_id = ''k'', rg_registered_at = 0\<rparr>"

definition cw_slot :: "string \<Rightarrow> string \<Rightarrow> int \<Rightarrow> account_slot" where
  "cw_slot holder state generation = \<lparr>sl_account = ''a'', sl_holder = holder, sl_execution_id = (if generation = 2 then ''e'' else ''d''),
     sl_generation = generation, sl_state = state, sl_expires_ms = 100, sl_session = ''''\<rparr>"

lemma reserve_within_cap_witness:
  "int (counting 50 (put_rows [cw_slot ''s/eng#1'' ''occupied'' 1, cw_slot ''s/eng'' ''reserved'' 2] []
     [(''s/eng'', cw_slot ''s/eng'' ''occupied'' 1)])) \<le> 2"
proof -
  let ?ca = "\<lparr>ca_slots = [], ca_frozen = False, ca_conflicts = [], ca_fleets = []\<rparr>"
  have "reserve_decide 50 2 50 ''s/eng'' cw_grant ?ca [(''s/eng'', cw_slot ''s/eng'' ''occupied'' 1)] =
      Inr ([cw_slot ''s/eng#1'' ''occupied'' 1, cw_slot ''s/eng'' ''reserved'' 2], [], Some (cw_slot ''s/eng'' ''reserved'' 2))"
    by (simp add: reserve_decide_def cw_slot_def cw_grant_def slot_counts_def slot_owns_def Let_def retiring_def show_int_def digit_char_def)
  from reserve_within_cap[OF this] show ?thesis by simp
qed

end
