(* ===== verification/Routing.thy ===== *)
theory Routing
  imports Account_Capacity State_Store
begin

text \<open>
  Which account a session is placed on: the bands that turn a quota reading into a number of sessions
  (\<open>scripts/session_bands.py\<close>), the choice between the API slots and the pool
  (\<open>scripts/routing/split.py\<close>, \<open>place.py\<close>), the shared settings with their claim
  (\<open>settings.py\<close>), the declared master accounts (\<open>master_account.py\<close>) and the share of a week kept
  for live masters (\<open>reservation.py\<close>). A float is a rational; \<open>env\<close> looks up the environment.
\<close>

section \<open>Slots and bands\<close>

record slot =
  st_harness :: string
  st_account :: string
  st_cap :: int
  st_sessions :: int
  st_spend_before :: "rat option"
  st_kind :: string
  st_weight :: "rat option"
  st_provider :: string

definition slot_free :: "slot \<Rightarrow> int" where
  "slot_free slot = max 0 (st_cap slot - st_sessions slot)"

definition canonical_account :: "string \<Rightarrow> string" where
  "canonical_account account = map (\<lambda>ch. if ch = CHR ''_'' then CHR ''-'' else ch) account"

definition window_left :: "rat option \<Rightarrow> rat option \<Rightarrow> rat \<Rightarrow> rat option" where
  "window_left used resets_at now =
    (if (case resets_at of None \<Rightarrow> False | Some ts \<Rightarrow> ts \<le> now) then Some 100
     else map_option (\<lambda>u. max 0 (100 - u)) used)"

definition fresh_reading :: "rat option \<Rightarrow> rat \<Rightarrow> bool" where
  "fresh_reading observed_at now = (case observed_at of None \<Rightarrow> False | Some ts \<Rightarrow> now - ts \<le> 900)"

definition five_hour_bands :: "(rat \<times> int) list" where
  "five_hour_bands = [(60, 6), (40, 4), (10, 3), (5, 2)]"

definition five_hour_cap :: "rat \<Rightarrow> int" where
  "five_hour_cap five_left =
    (case find (\<lambda>(floor_at, seats). five_left \<ge> floor_at) five_hour_bands of None \<Rightarrow> 0 | Some (_, seats) \<Rightarrow> seats)"

definition week_cap :: "rat option \<Rightarrow> int option" where
  "week_cap week_left = map_option (\<lambda>left. if left < 5 then 0 else 6) week_left"

definition band_cap :: "rat option \<Rightarrow> rat option \<Rightarrow> int option" where
  "band_cap five_left week_left =
    (case (week_cap week_left, five_left) of
       (Some week, Some five) \<Rightarrow> Some (min week (five_hour_cap five))
     | (week, _) \<Rightarrow> week)"

text \<open>\<open>int(x)\<close> of a float: towards zero.\<close>

definition py_int :: "rat \<Rightarrow> int" where
  "py_int r = (if r < 0 then \<lceil>r\<rceil> else \<lfloor>r\<rfloor>)"

definition scaled_cap :: "rat option \<Rightarrow> rat option \<Rightarrow> int \<Rightarrow> int option" where
  "scaled_cap five_left week_left max_seats =
    (case band_cap five_left week_left of
       None \<Rightarrow> None
     | Some banded \<Rightarrow>
         if banded = 0 then Some 0
         else let left = (case (five_left, week_left) of
                    (Some five, Some week) \<Rightarrow> min five week | (Some five, None) \<Rightarrow> five
                  | (None, Some week) \<Rightarrow> week | (None, None) \<Rightarrow> 0)
              in Some (min max_seats (max banded (py_int (of_int max_seats * left / 100)))))"

definition upcoming_reset :: "rat option \<Rightarrow> rat \<Rightarrow> rat option" where
  "upcoming_reset resets_at now = (case resets_at of None \<Rightarrow> None | Some ts \<Rightarrow> if ts > now then Some ts else None)"

definition spend_by :: "rat option \<Rightarrow> rat option \<Rightarrow> rat option" where
  "spend_by five_left resets_at =
    (if (case five_left of None \<Rightarrow> True | Some five \<Rightarrow> five > 5) then resets_at else None)"

text \<open>The tuple \<open>min\<close> orders seats by; the value of a missing time is never looked at.\<close>

definition slot_order :: "slot \<Rightarrow> int \<times> bool \<times> rat \<times> string \<times> string" where
  "slot_order seat = (st_sessions seat, st_spend_before seat = None,
     (case st_spend_before seat of None \<Rightarrow> 0 | Some ts \<Rightarrow> ts), st_harness seat, st_account seat)"

definition pick_slot :: "slot list \<Rightarrow> slot option" where
  "pick_slot seats =
    (case filter (\<lambda>seat. slot_free seat \<noteq> 0) seats of [] \<Rightarrow> None | open_seats \<Rightarrow> Some (arg_min_list slot_order open_seats))"

section \<open>API or pool\<close>

datatype side = Api_Side | Pool_Side

definition choose_side :: "slot list \<Rightarrow> slot list \<Rightarrow> int \<Rightarrow> int \<Rightarrow> int \<Rightarrow> bool \<Rightarrow> side option" where
  "choose_side api pool weight api_live pool_live api_room =
    (if api = [] then Some Pool_Side
     else if pool = [] then (if api_room then Some Api_Side else None)
     else if (of_int api_live :: rat) / of_int (api_live + pool_live + 1) < of_int weight / 100 \<and> api_room then Some Api_Side
     else Some Pool_Side)"

definition place_slot :: "slot list \<Rightarrow> slot list \<Rightarrow> int \<Rightarrow> int \<Rightarrow> slot option" where
  "place_slot api pool weight pool_live =
    (let open_pool = filter (\<lambda>slot. slot_free slot \<noteq> 0) pool;
         api_live = sum_list (map st_sessions api)
     in case choose_side api open_pool weight api_live pool_live (list_ex (\<lambda>slot. slot_free slot \<noteq> 0) api) of
          None \<Rightarrow> None
        | Some Api_Side \<Rightarrow> pick_slot api
        | Some Pool_Side \<Rightarrow> pick_slot open_pool)"

section \<open>Settings\<close>

record setting_entry =
  sn_key :: string
  sn_value :: json
  sn_actor :: string
  sn_at :: rat

record routing_data =
  rd_settings :: jdict
  rd_history :: "setting_entry list"

type_synonym routing_world = "routing_data timed_store"

definition weight_ok :: "json \<Rightarrow> bool" where
  "weight_ok v = (case v of JInt i \<Rightarrow> 0 \<le> i \<and> i \<le> 100 | _ \<Rightarrow> False)"

definition count_ok :: "json \<Rightarrow> bool" where
  "count_ok v = (case v of JInt i \<Rightarrow> i \<ge> 0 | _ \<Rightarrow> False)"

definition blank_char :: "char \<Rightarrow> bool" where
  "blank_char ch \<longleftrightarrow> of_char ch \<in> {9, 10, 11, 12, 13, 28, 29, 30, 31, 32, 133, 160 :: nat}"

definition name_ok :: "json \<Rightarrow> bool" where
  "name_ok v = (case v of JStr s \<Rightarrow> \<not> list_all blank_char s | _ \<Rightarrow> False)"

definition setting_rules :: "(string \<times> (json \<Rightarrow> bool)) list" where
  "setting_rules =
    [(''claude-api-weight'', weight_ok), (''codex-api-weight'', weight_ok),
     (''claude-api-max-sessions'', count_ok), (''codex-api-max-sessions'', count_ok),
     (''master-account-claude'', name_ok), (''master-account-codex'', name_ok),
     (''master-tier-claude'', name_ok), (''master-tier-codex'', name_ok),
     (''master-account-claude-2'', name_ok), (''master-account-claude-3'', name_ok),
     (''master-account-claude-4'', name_ok), (''master-account-claude-5'', name_ok)]"

definition setting_defaults :: jdict where
  "setting_defaults = [(''claude-api-weight'', JInt 0), (''codex-api-weight'', JInt 0)]"

definition settings_all :: "routing_data \<Rightarrow> jdict" where
  "settings_all rdat = dmerge setting_defaults (rd_settings rdat)"

definition settings_read :: "routing_data \<Rightarrow> string \<Rightarrow> fault + json" where
  "settings_read rdat key =
    (if dget setting_rules key = None then Inl (Value_Error (''unknown routing setting '' @ key))
     else Inr (jget (settings_all rdat) key))"

text \<open>The checks of \<open>set\<close> and of \<open>claim\<close>, which takes no \<open>None\<close>.\<close>

definition setting_checked :: "bool \<Rightarrow> string \<Rightarrow> json \<Rightarrow> string \<Rightarrow> fault + unit" where
  "setting_checked may_clear key v actor =
    (case dget setting_rules key of
       None \<Rightarrow> Inl (Value_Error (''unknown routing setting '' @ key))
     | Some ok \<Rightarrow>
         if (v = JNull \<and> \<not> may_clear) \<or> (v \<noteq> JNull \<and> \<not> ok v) then Inl (Value_Error (''invalid value for '' @ key))
         else if actor = '''' then Inl (Value_Error ''a routing setting write needs an actor'')
         else Inr ())"

definition setting_apply :: "string \<Rightarrow> json \<Rightarrow> setting_entry \<Rightarrow> routing_data \<Rightarrow> routing_data" where
  "setting_apply key v entry rdat =
    (let popped = dpop key (rd_settings rdat)
     in rdat\<lparr>rd_settings := (if v = JNull then popped else dset key v popped), rd_history := rd_history rdat @ [entry]\<rparr>)"

text \<open>
  \<open>_commit\<close>: a change answers a held value to stop without a write, or the data to store. The legacy
  hash (\<open>legacy\<close>) stands in for a missing entry.
\<close>

definition settings_commit ::
  "routing_data \<Rightarrow> (routing_data \<Rightarrow> json option \<times> routing_data) \<Rightarrow> (routing_world \<Rightarrow> routing_world) list \<Rightarrow> routing_world \<Rightarrow>
   (fault + json option) \<times> routing_world" where
  "settings_commit legacy change others w =
    cas_loop (doc_load legacy ''settings'')
      (\<lambda>rdat w. (Inr (case change rdat of (Some held, _) \<Rightarrow> (Some held, None) | (None, new) \<Rightarrow> (None, Some new)), w))
      (doc_commit ''settings'') State_Conflict others w"

definition settings_set ::
  "routing_data \<Rightarrow> string \<Rightarrow> json \<Rightarrow> string \<Rightarrow> rat \<Rightarrow> (routing_world \<Rightarrow> routing_world) list \<Rightarrow> routing_world \<Rightarrow>
   (fault + unit) \<times> routing_world" where
  "settings_set legacy key v actor now others w =
    (case setting_checked True key v actor of
       Inl e \<Rightarrow> (Inl e, w)
     | Inr _ \<Rightarrow>
         (case settings_commit legacy
             (\<lambda>rdat. (None, setting_apply key v \<lparr>sn_key = key, sn_value = v, sn_actor = actor, sn_at = now\<rparr> rdat)) others w of
            (Inl e, w') \<Rightarrow> (Inl e, w')
          | (Inr _, w') \<Rightarrow> (Inr (), w')))"

definition claim_change :: "string \<Rightarrow> json \<Rightarrow> setting_entry \<Rightarrow> routing_data \<Rightarrow> json option \<times> routing_data" where
  "claim_change key v entry rdat =
    (case jget (rd_settings rdat) key of
       JNull \<Rightarrow> (None, setting_apply key v entry rdat)
     | held \<Rightarrow> (Some held, rdat))"

definition settings_claim ::
  "routing_data \<Rightarrow> string \<Rightarrow> json \<Rightarrow> string \<Rightarrow> rat \<Rightarrow> (routing_world \<Rightarrow> routing_world) list \<Rightarrow> routing_world \<Rightarrow>
   (fault + json) \<times> routing_world" where
  "settings_claim legacy key v actor now others w =
    (case setting_checked False key v actor of
       Inl e \<Rightarrow> (Inl e, w)
     | Inr _ \<Rightarrow>
         (case settings_commit legacy (claim_change key v \<lparr>sn_key = key, sn_value = v, sn_actor = actor, sn_at = now\<rparr>) others w of
            (Inl e, w') \<Rightarrow> (Inl e, w')
          | (Inr None, w') \<Rightarrow> (Inr v, w')
          | (Inr (Some held), w') \<Rightarrow> (Inr held, w')))"

text \<open>The file of a machine without a state store: written whole, claimed under an exclusive lock.\<close>

definition file_load :: "routing_data option \<Rightarrow> routing_data" where
  "file_load kept = (case kept of None \<Rightarrow> \<lparr>rd_settings = [], rd_history = []\<rparr> | Some rdat \<Rightarrow> rdat)"

definition file_set :: "string \<Rightarrow> json \<Rightarrow> string \<Rightarrow> rat \<Rightarrow> routing_data option \<Rightarrow> (fault + unit) \<times> routing_data option" where
  "file_set key v actor now kept =
    (case setting_checked True key v actor of
       Inl e \<Rightarrow> (Inl e, kept)
     | Inr _ \<Rightarrow> (Inr (), Some (setting_apply key v \<lparr>sn_key = key, sn_value = v, sn_actor = actor, sn_at = now\<rparr> (file_load kept))))"

definition file_claim :: "string \<Rightarrow> json \<Rightarrow> string \<Rightarrow> rat \<Rightarrow> routing_data option \<Rightarrow> (fault + json) \<times> routing_data option" where
  "file_claim key v actor now kept =
    (case setting_checked False key v actor of
       Inl e \<Rightarrow> (Inl e, kept)
     | Inr _ \<Rightarrow>
         (case claim_change key v \<lparr>sn_key = key, sn_value = v, sn_actor = actor, sn_at = now\<rparr> (file_load kept) of
            (Some held, _) \<Rightarrow> (Inr held, kept)
          | (None, rdat) \<Rightarrow> (Inr v, Some rdat)))"

section \<open>The API side\<close>

record api_policy =
  ap_weight :: json
  ap_cap :: json

definition routing_error :: "fault \<Rightarrow> bool" where
  "routing_error e = (case e of Value_Error _ \<Rightarrow> True | Key_Error _ \<Rightarrow> True | Type_Error \<Rightarrow> True | Unavailable _ \<Rightarrow> True | _ \<Rightarrow> False)"

text \<open>The settings as read, or why they could not be; \<open>SettingsError\<close> is \<open>Runtime_Error\<close>.\<close>

definition api_policy_of :: "string \<Rightarrow> fault + routing_data \<Rightarrow> fault + api_policy" where
  "api_policy_of harness loaded =
    (let cap_key = harness @ ''-api-max-sessions''; weight_key = harness @ ''-api-weight''
     in case and_then loaded (\<lambda>rdat. and_then (settings_read rdat cap_key) (\<lambda>cap.
               and_then (settings_read rdat weight_key) (\<lambda>weight. Inr (cap, weight)))) of
          Inl e \<Rightarrow> if routing_error e then Inl (Runtime_Error ''routing settings are unreadable'') else Inl e
        | Inr (cap, weight) \<Rightarrow>
            if cap \<noteq> JNull \<and> \<not> count_ok cap then Inl (Runtime_Error (''routing setting '' @ cap_key @ '' is invalid''))
            else if \<not> weight_ok weight then Inl (Runtime_Error (''routing setting '' @ weight_key @ '' is invalid''))
            else Inr \<lparr>ap_weight = weight, ap_cap = (if cap = JNull then JInt 1000000 else cap)\<rparr>)"

definition json_int :: "json \<Rightarrow> int" where
  "json_int v = (case v of JInt i \<Rightarrow> i | _ \<Rightarrow> 0)"

definition api_side :: "slot list \<Rightarrow> string \<Rightarrow> fault + routing_data \<Rightarrow> fault + slot list \<times> int" where
  "api_side found harness loaded =
    (if found = [] then Inr ([], 0)
     else case api_policy_of harness loaded of
            Inl (Runtime_Error msg) \<Rightarrow> Inr ([], 0)
          | Inl e \<Rightarrow> Inl e
          | Inr rules \<Rightarrow> Inr (map (\<lambda>slot. slot\<lparr>st_cap := json_int (ap_cap rules)\<rparr>) found, json_int (ap_weight rules)))"

definition api_closure :: "slot list \<Rightarrow> string \<Rightarrow> fault + routing_data \<Rightarrow> fault + string list" where
  "api_closure found harness loaded =
    (if found = [] then Inr []
     else case api_policy_of harness loaded of
            Inl (Runtime_Error msg) \<Rightarrow> Inr [''api side closed: '' @ msg]
          | Inl e \<Rightarrow> Inl e
          | Inr _ \<Rightarrow> Inr [])"

section \<open>Master accounts\<close>

record master_account =
  ma_harness :: string
  ma_slug :: string
  ma_tier :: string
  ma_kind :: string

type_synonym environ = "string \<Rightarrow> string option"

definition env_set :: "environ \<Rightarrow> string \<Rightarrow> bool" where
  "env_set env name = (case env name of None \<Rightarrow> False | Some v \<Rightarrow> v \<noteq> '''')"

definition master_marker :: "master_account \<Rightarrow> string" where
  "master_marker account = rev (dropWhile blank_char (rev (''MASTER '' @ ma_tier account)))"

definition master_kind :: "string \<Rightarrow> string \<Rightarrow> environ \<Rightarrow> string" where
  "master_kind harness slug env =
    (if harness = ''claude'' then (if env_set env (''AH_CC_TOKEN_'' @ slug) then ''subscription'' else ''interactive'')
     else if slug = ''default'' then ''interactive'' else ''subscription'')"

definition master_check :: "string \<Rightarrow> string \<Rightarrow> environ \<Rightarrow> fault + unit" where
  "master_check harness slug env =
    (if harness = ''codex'' \<and> slug \<noteq> ''default'' \<and> \<not> env_set env (''AH_CX_TOKEN_'' @ slug)
     then Inl (Value_Error (''unknown codex token slug '' @ slug @ '': no AH_CX_TOKEN_'' @ slug @ '' is set'')) else Inr ())"

text \<open>A run of writes; the first refusal ends it and leaves the earlier ones in place.\<close>

fun set_each ::
  "(string \<Rightarrow> json \<Rightarrow> 'w \<Rightarrow> (fault + unit) \<times> 'w) \<Rightarrow> (string \<times> json) list \<Rightarrow> 'w \<Rightarrow> (fault + unit) \<times> 'w" where
  "set_each put [] w = (Inr (), w)"
| "set_each put ((key, v) # rest) w =
    (case put key v w of (Inl e, w1) \<Rightarrow> (Inl e, w1) | (Inr _, w1) \<Rightarrow> set_each put rest w1)"

fun check_each :: "(string \<times> string \<times> string option) list \<Rightarrow> environ \<Rightarrow> fault + unit" where
  "check_each [] env = Inr ()"
| "check_each ((harness, slug, tier) # rest) env = and_then (master_check harness slug env) (\<lambda>_. check_each rest env)"

definition tier_json :: "string option \<Rightarrow> json" where
  "tier_json tier = (case tier of None \<Rightarrow> JNull | Some t \<Rightarrow> JStr t)"

definition master_declare where
  "master_declare put declarations env w =
    (case check_each declarations env of
       Inl e \<Rightarrow> (Inl e, w)
     | Inr _ \<Rightarrow> set_each put (concat (map (\<lambda>(harness, slug, tier).
         [(''master-account-'' @ harness, JStr slug), (''master-tier-'' @ harness, tier_json tier)]) declarations)) w)"

definition master_claim ::
  "(string \<Rightarrow> json \<Rightarrow> 'w \<Rightarrow> (fault + json) \<times> 'w) \<Rightarrow> string \<Rightarrow> string \<Rightarrow> environ \<Rightarrow> 'w \<Rightarrow> (fault + json) \<times> 'w" where
  "master_claim take_setting harness slug env w =
    (case master_check harness slug env of
       Inl e \<Rightarrow> (Inl e, w)
     | Inr _ \<Rightarrow> take_setting (''master-account-'' @ harness) (JStr slug) w)"

definition master_clear where
  "master_clear put harnesses w =
    set_each put (concat (map (\<lambda>harness. [(''master-account-'' @ harness, JNull), (''master-tier-'' @ harness, JNull)]) harnesses)) w"

definition text_or :: "json \<Rightarrow> string" where
  "text_or v = (case v of JStr s \<Rightarrow> s | _ \<Rightarrow> '''')"

definition master_declared :: "routing_data \<Rightarrow> environ \<Rightarrow> (string, master_account) dict" where
  "master_declared rdat env =
    (let values = settings_all rdat
     in concat (map (\<lambda>harness.
          let slug = text_or (jget values (''master-account-'' @ harness))
          in if slug = '''' then []
             else [(harness, \<lparr>ma_harness = harness, ma_slug = slug, ma_tier = text_or (jget values (''master-tier-'' @ harness)),
                     ma_kind = master_kind harness slug env\<rparr>)]) [''claude'', ''codex'']))"

section \<open>Reserved for masters\<close>

record reservation =
  rs_harness :: string
  rs_slug :: string
  rs_masters :: int

definition master_ceiling :: "int \<Rightarrow> rat option" where
  "master_ceiling masters_live = map_option snd (find (\<lambda>(count, limit). masters_live \<ge> count) [(3, 50), (2, 60), (1, 70)])"

definition ceiling_reached :: "rat option \<Rightarrow> int \<Rightarrow> bool" where
  "ceiling_reached week_used masters_live =
    (case (master_ceiling masters_live, week_used) of (Some limit, Some used) \<Rightarrow> used \<ge> limit | _ \<Rightarrow> False)"

definition reserved_reason :: "int \<Rightarrow> string" where
  "reserved_reason masters_live =
    (case master_ceiling masters_live of
       None \<Rightarrow> ''''
     | Some limit \<Rightarrow> ''reserved for '' @ show_int masters_live @ '' live '' @ (if masters_live = 1 then ''master'' else ''masters'') @
         '': workers stop at '' @ show_int \<lfloor>limit\<rfloor> @ ''% of the week'')"

definition reservation_closes :: "reservation \<Rightarrow> string \<Rightarrow> rat option \<Rightarrow> bool" where
  "reservation_closes rsv slug week_used \<longleftrightarrow>
    canonical_account slug = canonical_account (rs_slug rsv) \<and> ceiling_reached week_used (rs_masters rsv)"

definition closes_row :: "reservation \<Rightarrow> string \<Rightarrow> string \<Rightarrow> string \<Rightarrow> rat option \<Rightarrow> bool" where
  "closes_row rsv harness kind slug week_left =
    (harness = rs_harness rsv \<and> kind \<noteq> ''api'' \<and>
     (case week_left of None \<Rightarrow> False | Some left \<Rightarrow> reservation_closes rsv slug (Some (100 - left))))"

text \<open>\<open>primary\<close> is the operator's first login (\<open>primary_login()\<close>), \<open>pct\<close> the reserve read from the environment.\<close>

definition primary_reserved :: "string \<Rightarrow> rat \<Rightarrow> string \<Rightarrow> rat option \<Rightarrow> bool" where
  "primary_reserved primary pct slug week_left =
    (primary \<noteq> '''' \<and> canonical_account slug = canonical_account primary \<and>
     (case week_left of None \<Rightarrow> False | Some left \<Rightarrow> left \<le> pct))"

definition primary_login_ceiling :: "string \<Rightarrow> rat \<Rightarrow> string \<Rightarrow> rat option" where
  "primary_login_ceiling primary pct account =
    (if primary = '''' \<or> canonical_account account \<noteq> canonical_account primary then None else Some (100 - pct))"

definition is_master_session :: "(string, string) dict \<Rightarrow> string \<Rightarrow> bool" where
  "is_master_session env prefix_name =
    (list_ex (\<lambda>(name, _). take (length prefix_name) name = prefix_name) env \<or>
     (case dget env ''AGENTIHOOKS_AGENT_NAME'' of None \<Rightarrow> False | Some v \<Rightarrow> take 7 v = ''master@''))"

section \<open>What routing promises\<close>

lemma pick_slot_Some:
  assumes "pick_slot seats = Some seat"
  shows "seat \<in> set seats \<and> slot_free seat \<noteq> 0 \<and> (\<forall>other \<in> set seats. slot_free other \<noteq> 0 \<longrightarrow> slot_order seat \<le> slot_order other)"
proof -
  define open_seats where "open_seats = filter (\<lambda>seat. slot_free seat \<noteq> 0) seats"
  have ne: "open_seats \<noteq> []" and seat: "seat = arg_min_list slot_order open_seats"
    using assms unfolding open_seats_def by (auto simp: pick_slot_def split: list.splits)
  have "seat \<in> set open_seats" using arg_min_list_in[OF ne] seat by simp
  moreover have "slot_order seat \<le> slot_order other" if "other \<in> set open_seats" for other
    using f_arg_min_list_f[OF ne, of slot_order] seat that by simp
  ultimately show ?thesis unfolding open_seats_def by auto
qed

lemma pick_slot_None: "pick_slot seats = None \<longleftrightarrow> (\<forall>seat \<in> set seats. slot_free seat = 0)"
proof -
  have "pick_slot seats = None \<longleftrightarrow> filter (\<lambda>seat. slot_free seat \<noteq> 0) seats = []" by (simp add: pick_slot_def split: list.split)
  then show ?thesis by (simp add: filter_empty_conv)
qed

text \<open>
  Placement fails only when nothing is free. A slot that is chosen has room, is first among the
  open slots of its side in the documented order, and comes from the API side only while the share of
  live API sessions is under the weight or the pool is full.
\<close>

theorem place_slot_sound:
  "(place_slot api pool weight pool_live = None \<longleftrightarrow> (\<forall>seat \<in> set api \<union> set pool. slot_free seat = 0)) \<and>
   (\<forall>seat. place_slot api pool weight pool_live = Some seat \<longrightarrow> slot_free seat > 0 \<and>
     (\<exists>seats \<in> {api, pool}. seat \<in> set seats \<and> (\<forall>other \<in> set seats. slot_free other \<noteq> 0 \<longrightarrow> slot_order seat \<le> slot_order other) \<and>
        (seats = pool \<or> (\<forall>other \<in> set pool. slot_free other = 0) \<or>
         (of_int (sum_list (map st_sessions api)) :: rat) / of_int (sum_list (map st_sessions api) + pool_live + 1) < of_int weight / 100)))"
proof -
  define open_pool where "open_pool = filter (\<lambda>slot. slot_free slot \<noteq> 0) pool"
  define room where "room = list_ex (\<lambda>slot. slot_free slot \<noteq> 0) api"
  define chosen where "chosen = choose_side api open_pool weight (sum_list (map st_sessions api)) pool_live room"
  have place: "place_slot api pool weight pool_live =
      (case chosen of None \<Rightarrow> None | Some Api_Side \<Rightarrow> pick_slot api | Some Pool_Side \<Rightarrow> pick_slot open_pool)"
    unfolding place_slot_def Let_def chosen_def open_pool_def room_def ..
  have full: "open_pool = [] \<longleftrightarrow> (\<forall>seat \<in> set pool. slot_free seat = 0)" by (auto simp: open_pool_def filter_empty_conv)
  have room_iff: "room \<longleftrightarrow> (\<exists>seat \<in> set api. slot_free seat \<noteq> 0)" by (auto simp: room_def list_ex_iff)
  have pos: "slot_free seat \<noteq> 0 \<Longrightarrow> slot_free seat > 0" for seat by (simp add: slot_free_def)
  show ?thesis
  proof (cases chosen)
    case None
    then have "open_pool = []" "\<not> room" by (auto simp: chosen_def choose_side_def split: if_splits)
    then show ?thesis using place None full room_iff by auto
  next
    case (Some sd)
    show ?thesis
    proof (cases sd)
      case Api_Side
      have "room" "open_pool = [] \<or> (of_int (sum_list (map st_sessions api)) :: rat) /
          of_int (sum_list (map st_sessions api) + pool_live + 1) < of_int weight / 100"
        using Some Api_Side by (auto simp: chosen_def choose_side_def split: if_splits)
      then show ?thesis using place Some Api_Side full room_iff pick_slot_None[of api] pick_slot_Some[of api] pos by fastforce
    next
      case Pool_Side
      have p: "place_slot api pool weight pool_live = pick_slot open_pool" using place Some Pool_Side by simp
      have "open_pool \<noteq> [] \<or> api = []" using Some Pool_Side by (auto simp: chosen_def choose_side_def split: if_splits)
      then have "pick_slot open_pool = None \<longleftrightarrow> (\<forall>seat \<in> set api \<union> set pool. slot_free seat = 0)"
        using pick_slot_None[of open_pool] full by (auto simp: open_pool_def)
      moreover have "seat \<in> set pool \<and> slot_free seat > 0 \<and> (\<forall>other \<in> set pool. slot_free other \<noteq> 0 \<longrightarrow> slot_order seat \<le> slot_order other)"
        if "pick_slot open_pool = Some seat" for seat
        using pick_slot_Some[OF that] pos by (auto simp: open_pool_def)
      ultimately show ?thesis using p by auto
    qed
  qed
qed

text \<open>An API slot and two pool slots with room, the first of them busier than the second.\<close>

definition pw_slot :: "string \<Rightarrow> int \<Rightarrow> slot" where
  "pw_slot account sessions = \<lparr>st_harness = ''claude'', st_account = account, st_cap = 3, st_sessions = sessions,
     st_spend_before = None, st_kind = ''pool'', st_weight = None, st_provider = ''''\<rparr>"

lemma place_slot_sound_witness:
  "place_slot [pw_slot ''api'' 2] [pw_slot ''b'' 1, pw_slot ''a'' 0, pw_slot ''c'' 3] 50 1 = Some (pw_slot ''a'' 0) \<and>
   slot_free (pw_slot ''a'' 0) > 0 \<and> slot_order (pw_slot ''a'' 0) \<le> slot_order (pw_slot ''b'' 1)"
proof -
  have chosen: "place_slot [pw_slot ''api'' 2] [pw_slot ''b'' 1, pw_slot ''a'' 0, pw_slot ''c'' 3] 50 1 = Some (pw_slot ''a'' 0)"
    by (simp add: place_slot_def choose_side_def pick_slot_def slot_free_def slot_order_def pw_slot_def)
  have "slot_free (pw_slot ''b'' 1) \<noteq> 0" by (simp add: slot_free_def pw_slot_def)
  moreover have "pw_slot ''a'' 0 \<noteq> pw_slot ''api'' 2" by (simp add: pw_slot_def)
  ultimately show ?thesis
    using chosen place_slot_sound[of "[pw_slot ''api'' 2]" "[pw_slot ''b'' 1, pw_slot ''a'' 0, pw_slot ''c'' 3]" 50 1]
    by auto
qed

lemma five_hour_cap_cases:
  "five_hour_cap five = (if five \<ge> 60 then 6 else if five \<ge> 40 then 4 else if five \<ge> 10 then 3 else if five \<ge> 5 then 2 else 0)"
  by (simp add: five_hour_cap_def five_hour_bands_def)

text \<open>
  More quota never means fewer seats. The seats of an account grow with both of its windows, are
  at most six before scaling, and there are none exactly when a window is under five percent.
\<close>

theorem band_cap_monotone:
  assumes "five \<le> five'" and "week \<le> week'"
  shows "\<exists>a b. band_cap (Some five) (Some week) = Some a \<and> band_cap (Some five') (Some week') = Some b \<and>
    0 \<le> a \<and> a \<le> b \<and> b \<le> 6 \<and> (a = 0 \<longleftrightarrow> five < 5 \<or> week < 5)"
  using assms by (auto simp: band_cap_def week_cap_def five_hour_cap_cases)

lemma band_cap_monotone_witness:
  "\<exists>a b. band_cap (Some 7) (Some 30) = Some a \<and> band_cap (Some 45) (Some 31) = Some b \<and> a \<le> b \<and> a \<noteq> 0"
  using band_cap_monotone[of 7 45 30 31] by auto

text \<open>Scaling to a hive's ceiling keeps within the ceiling and opens no seat the bands keep shut.\<close>

lemma scaled_cap_within:
  "scaled_cap five week lim1 = Some n \<Longrightarrow> 0 \<le> lim1 \<Longrightarrow> n \<le> lim1 \<and> (band_cap five week = Some 0 \<longrightarrow> n = 0)"
  by (auto simp: scaled_cap_def Let_def split: option.splits if_splits)

lemma setting_apply_get: "jget (rd_settings (setting_apply key v entry rdat)) key = v"
  by (auto simp: setting_apply_def jget_def Let_def dict_simps)

lemma claim_change_cases:
  "claim_change key v entry rdat =
    (if jget (rd_settings rdat) key = JNull then (None, setting_apply key v entry rdat) else (Some (jget (rd_settings rdat) key), rdat))"
  by (simp add: claim_change_def split: json.split)

text \<open>
  The first claim of a routing setting wins. When a claim returns, the store holds the value it
  answered; that is the value some writer had set before, or the claimed one where the setting was
  open at the moment of the write, whatever other writers did meanwhile.
\<close>

theorem settings_claim_first:
  assumes "doc_others others" and "timed_inv w" and "settings_claim legacy key v actor now others w = (Inr r, w')"
  shows "\<exists>w1 rdat rvn rdat' rvn'. timed_ev w w1 \<and> timed_ev w1 w' \<and>
    doc_rd legacy ''settings'' w1 = Some (rdat, rvn) \<and> doc_rd legacy ''settings'' w' = Some (rdat', rvn') \<and>
    jget (rd_settings rdat') key = r \<and>
    (if jget (rd_settings rdat) key = JNull then r = v \<and> rvn < rvn' \<and> length (rd_history rdat') = length (rd_history rdat) + 1
     else r = jget (rd_settings rdat) key \<and> rdat' = rdat)"
proof -
  define entry where "entry = \<lparr>sn_key = key, sn_value = v, sn_actor = actor, sn_at = now\<rparr>"
  define change where "change = (\<lambda>rdat (w :: routing_world). (Inr (case claim_change key v entry rdat of
      (Some held, _) \<Rightarrow> (Some held, None) | (None, new) \<Rightarrow> (None, Some new)) :: fault + json option \<times> routing_data option, w))"
  obtain out where out: "cas_loop (doc_load legacy ''settings'') change (doc_commit ''settings'') State_Conflict others w = (Inr out, w')"
      "r = (case out of None \<Rightarrow> v | Some held \<Rightarrow> held)"
    using assms(3) unfolding settings_claim_def settings_commit_def change_def entry_def
    by (auto split: sum.splits option.splits prod.splits)
  have pure: "snd (change d ww) = ww" for d ww by (simp add: change_def)
  obtain rdat rvn w1 w2 where at: "timed_ev w w1" "timed_ev w1 w2" "doc_rd legacy ''settings'' w1 = Some (rdat, rvn)"
    "doc_rd legacy ''settings'' w2 = Some (rdat, rvn)"
    and how: "(fst (change rdat w1) = Inr (out, None) \<and> w' = w2 \<and> w2 = w1) \<or>
     (\<exists>v'. fst (change rdat w1) = Inr (out, Some v') \<and> doc_commit ''settings'' v' rvn w2 = Inr w' \<and>
        (\<exists>rvn' > rvn. doc_rd legacy ''settings'' w' = Some (v', rvn')))"
    by (rule doc_loop_Inr[OF pure assms(1,2) out(1)]) blast
  show ?thesis
  proof (cases "jget (rd_settings rdat) key = JNull")
    case True
    then have f: "fst (change rdat w1) = Inr (None, Some (setting_apply key v entry rdat))"
      by (simp add: change_def claim_change_cases)
    then obtain rvn' where new: "doc_commit ''settings'' (setting_apply key v entry rdat) rvn w2 = Inr w'" "rvn < rvn'"
        "doc_rd legacy ''settings'' w' = Some (setting_apply key v entry rdat, rvn')" and "out = None" using how by auto
    have "timed_inv w2" using at(2) by (simp add: timed_inv_def timed_ev_def store_ev_def)
    then have "timed_ev w2 w'" using doc_commit_put[OF _ new(1), where blank = legacy] by blast
    then have "timed_ev w1 w'" using at(2) store_ev_trans by (auto simp: timed_ev_def)
    moreover have "length (rd_history (setting_apply key v entry rdat)) = length (rd_history rdat) + 1"
      by (simp add: setting_apply_def Let_def)
    ultimately show ?thesis using at True new out(2) \<open>out = None\<close> setting_apply_get[of key v entry rdat] by auto
  next
    case False
    then have f: "fst (change rdat w1) = Inr (Some (jget (rd_settings rdat) key), None)"
      by (simp add: change_def claim_change_cases)
    then have "w' = w1" "w2 = w1" "out = Some (jget (rd_settings rdat) key)" using how by auto
    then have "timed_ev w1 w'" "doc_rd legacy ''settings'' w' = Some (rdat, rvn)" "r = jget (rd_settings rdat) key"
      using at out(2) by auto
    then show ?thesis using at(1,3) False by auto
  qed
qed

definition rw_world :: routing_world where
  "rw_world = \<lparr>ts_store = empty_store, ts_now = 0\<rparr>"

lemma settings_claim_first_witness:
  "\<exists>w'. settings_claim \<lparr>rd_settings = [], rd_history = []\<rparr> ''master-account-claude'' (JStr ''a'') ''op'' 0 [\<lambda>w. w] rw_world =
      (Inr (JStr ''a''), w') \<and>
    (\<exists>rdat rvn. doc_rd \<lparr>rd_settings = [], rd_history = []\<rparr> ''settings'' w' = Some (rdat, rvn) \<and>
      jget (rd_settings rdat) ''master-account-claude'' = JStr ''a'')"
proof -
  let ?blank = "\<lparr>rd_settings = [], rd_history = []\<rparr> :: routing_data"
  have "setting_checked False ''master-account-claude'' (JStr ''a'') ''op'' = Inr ()"
    by (simp add: setting_checked_def setting_rules_def name_ok_def blank_char_def)
  then have "fst (settings_claim ?blank ''master-account-claude'' (JStr ''a'') ''op'' 0 [\<lambda>w. w] rw_world) = Inr (JStr ''a'')"
    by (simp add: settings_claim_def settings_commit_def claim_change_def jget_def setting_apply_def doc_load_def doc_commit_def
        rw_world_def store_get_def store_create_def store_put_def empty_store_def dhas_def Let_def)
  then obtain w' where w': "settings_claim ?blank ''master-account-claude'' (JStr ''a'') ''op'' 0 [\<lambda>w. w] rw_world = (Inr (JStr ''a''), w')"
    by (metis prod.collapse)
  have "doc_others [\<lambda>w. w]" by (simp add: doc_others_def timed_ev_def timed_inv_def)
  moreover have "timed_inv rw_world" by (simp add: timed_inv_def rw_world_def)
  ultimately show ?thesis using settings_claim_first[OF _ _ w'] w' by blast
qed


section \<open>Stored settings are well typed\<close>

text \<open>
  What one committed write does to the settings, by \<open>set\<close> or by \<open>claim\<close>. The first one starts from the
  legacy hash, which nothing validated (\<open>_legacy\<close>), or from no settings.
\<close>

inductive setting_step :: "routing_data \<Rightarrow> routing_data \<Rightarrow> bool" where
  ss_set: "setting_checked True key v actor = Inr () \<Longrightarrow> setting_step rdat (setting_apply key v entry rdat)"
| ss_claim: "setting_checked False key v actor = Inr () \<Longrightarrow> claim_change key v entry rdat = (None, rdat') \<Longrightarrow> setting_step rdat rdat'"

definition setting_typed :: "string \<Rightarrow> json \<Rightarrow> bool" where
  "setting_typed key v = (case dget setting_rules key of None \<Rightarrow> False | Some ok \<Rightarrow> ok v)"

text \<open>Every value is one a write checked, or the one the settings started with.\<close>

definition typed_since :: "routing_data \<Rightarrow> routing_data \<Rightarrow> bool" where
  "typed_since start rdat \<longleftrightarrow> wf_dict (rd_settings rdat) \<and>
    (\<forall>k v. dget (rd_settings rdat) k = Some v \<longrightarrow> setting_typed k v \<or> dget (rd_settings start) k = Some v)"

lemma setting_apply_typed:
  assumes "typed_since start rdat" and "setting_checked may_clear key v actor = Inr ()"
  shows "typed_since start (setting_apply key v entry rdat)"
proof -
  have "v \<noteq> JNull \<Longrightarrow> setting_typed key v"
    using assms(2) by (auto simp: setting_checked_def setting_typed_def split: option.splits if_splits)
  moreover have "dget (rd_settings (setting_apply key v entry rdat)) k =
      (if k = key then (if v = JNull then None else Some v) else dget (rd_settings rdat) k)" for k
    using assms(1) by (simp add: typed_since_def setting_apply_def Let_def dget_dset dget_dpop)
  moreover have "wf_dict (rd_settings (setting_apply key v entry rdat))"
    using assms(1) by (auto simp: typed_since_def setting_apply_def Let_def)
  ultimately show ?thesis using assms(1) unfolding typed_since_def by (metis option.distinct(1) option.inject)
qed

lemma settings_all_get:
  "wf_dict (rd_settings rdat) \<Longrightarrow>
   dget (settings_all rdat) key = (case dget (rd_settings rdat) key of Some v \<Rightarrow> Some v | None \<Rightarrow> dget setting_defaults key)"
  by (simp add: settings_all_def dget_dmerge)

lemma settings_read_typed:
  assumes "wf_dict (rd_settings rdat)" and "\<And>s. dget (rd_settings rdat) key = Some s \<Longrightarrow> setting_typed key s"
    and "settings_read rdat key = Inr v"
  shows "(v = JNull \<and> key \<notin> {''claude-api-weight'', ''codex-api-weight''}) \<or> setting_typed key v"
proof -
  have v: "v = jget (settings_all rdat) key" using assms(3) by (auto simp: settings_read_def split: if_splits)
  show ?thesis
  proof (cases "dget (rd_settings rdat) key")
    case (Some s)
    then show ?thesis using assms(2) v settings_all_get[OF assms(1), of key] by (simp add: jget_def)
  next
    case None
    then show ?thesis using v settings_all_get[OF assms(1), of key]
      by (auto simp: jget_def setting_defaults_def setting_typed_def setting_rules_def weight_ok_def)
  qed
qed

text \<open>
  C34: stored settings are well typed. Whatever sequence of settings and claims followed, each stored
  value passes the validator of its key or is still the one the legacy hash came with; and where the
  weight and the cap of a harness in that hash are valid or absent, the placement policy of the harness
  is read from the settings, with a valid weight and cap: once they are loaded, the API side is never
  closed for a malformed setting.
\<close>

theorem settings_well_typed:
  assumes "setting_step\<^sup>*\<^sup>* start rdat" and "wf_dict (rd_settings start)"
  shows "(\<forall>key v. dget (rd_settings rdat) key = Some v \<longrightarrow> setting_typed key v \<or> dget (rd_settings start) key = Some v) \<and>
    (\<forall>harness \<in> {''claude'', ''codex''}.
       (\<forall>key \<in> {harness @ ''-api-weight'', harness @ ''-api-max-sessions''}. \<forall>v.
          dget (rd_settings start) key = Some v \<longrightarrow> setting_typed key v) \<longrightarrow>
       (\<exists>rules. api_policy_of harness (Inr rdat) = Inr rules \<and> weight_ok (ap_weight rules) \<and> count_ok (ap_cap rules)))"
proof -
  have typed: "typed_since start rdat"
    using assms(1)
  proof (induction rule: rtranclp_induct)
    case base
    then show ?case using assms(2) by (simp add: typed_since_def)
  next
    case (step x y)
    from step.hyps(2) step.IH show ?case
      by cases (auto simp: claim_change_cases intro: setting_apply_typed split: if_splits)
  qed
  then have wf: "wf_dict (rd_settings rdat)" by (simp add: typed_since_def)
  have reads: "\<exists>v. settings_read rdat key = Inr v \<and> ((v = JNull \<and> key \<notin> {''claude-api-weight'', ''codex-api-weight''}) \<or> ok v)"
    if "dget setting_rules key = Some ok" and "\<forall>v. dget (rd_settings start) key = Some v \<longrightarrow> setting_typed key v" for key ok
  proof -
    have "setting_typed key s" if "dget (rd_settings rdat) key = Some s" for s
      using typed that \<open>\<forall>v. dget (rd_settings start) key = Some v \<longrightarrow> setting_typed key v\<close> unfolding typed_since_def by blast
    from settings_read_typed[OF wf this] that(1) show ?thesis by (auto simp: settings_read_def setting_typed_def)
  qed
  have "\<exists>rules. api_policy_of harness (Inr rdat) = Inr rules \<and> weight_ok (ap_weight rules) \<and> count_ok (ap_cap rules)"
    if harness: "harness \<in> {''claude'', ''codex''}"
      and ok: "\<forall>key \<in> {harness @ ''-api-weight'', harness @ ''-api-max-sessions''}. \<forall>v.
          dget (rd_settings start) key = Some v \<longrightarrow> setting_typed key v" for harness
  proof -
    obtain c where c: "settings_read rdat (harness @ ''-api-max-sessions'') = Inr c" "c = JNull \<or> count_ok c"
      using reads[of "harness @ ''-api-max-sessions''" count_ok] harness ok by (auto simp: setting_rules_def)
    obtain w where w: "settings_read rdat (harness @ ''-api-weight'') = Inr w" "weight_ok w"
      using reads[of "harness @ ''-api-weight''" weight_ok] harness ok by (auto simp: setting_rules_def)
    show ?thesis using c w by (auto simp: api_policy_of_def Let_def count_ok_def)
  qed
  then show ?thesis using typed unfolding typed_since_def by blast
qed

text \<open>A legacy hash with a malformed weight of one harness does not close the API side of the other.\<close>

lemma settings_well_typed_witness:
  "\<exists>rules. api_policy_of ''codex'' (Inr (setting_apply ''codex-api-weight'' (JInt 30)
      \<lparr>sn_key = ''codex-api-weight'', sn_value = JInt 30, sn_actor = ''op'', sn_at = 0\<rparr>
      \<lparr>rd_settings = [(''claude-api-weight'', JInt 400)], rd_history = []\<rparr>)) = Inr rules \<and> weight_ok (ap_weight rules) \<and> count_ok (ap_cap rules)"
proof -
  let ?start = "\<lparr>rd_settings = [(''claude-api-weight'', JInt 400)], rd_history = []\<rparr>"
  let ?rdat = "setting_apply ''codex-api-weight'' (JInt 30)
      \<lparr>sn_key = ''codex-api-weight'', sn_value = JInt 30, sn_actor = ''op'', sn_at = 0\<rparr> ?start"
  have "setting_checked True ''codex-api-weight'' (JInt 30) ''op'' = Inr ()"
    by (simp add: setting_checked_def setting_rules_def weight_ok_def)
  then have step: "setting_step\<^sup>*\<^sup>* ?start ?rdat" by (intro r_into_rtranclp ss_set)
  have wf: "wf_dict (rd_settings ?start)" by simp
  have "\<forall>key \<in> {''codex'' @ ''-api-weight'', ''codex'' @ ''-api-max-sessions''}. \<forall>v.
      dget (rd_settings ?start) key = Some v \<longrightarrow> setting_typed key v" by simp
  then show ?thesis using settings_well_typed[OF step wf] by blast
qed

end
