(* ===== verification/Fleet_Quota.thy ===== *)
theory Fleet_Quota
  imports Routing
begin

text \<open>
  Quota observations of the fleet (\<open>scripts/swarm_v2/quota.py\<close>): the newest reading of each account
  and harness, published under a launch grant, with its history and the waits an exhausted account
  was given. An operation reads the clock once here. What the live hives published (the entries of
  their \<open>:quota\<close> keys) is a parameter, a list of slot names with their JSON readings.
\<close>

section \<open>Observations\<close>

record quota_observation =
  ob_account :: string
  ob_harness :: string
  ob_execution_id :: string
  ob_generation :: int
  ob_observed_ms :: int
  ob_provider_status :: string
  ob_five_used :: "rat option"
  ob_week_used :: "rat option"
  ob_five_reset :: "rat option"
  ob_week_reset :: "rat option"

record quota_window =
  qw_used :: "rat option"
  qw_resets_at :: "rat option"

record probe_result =
  pr_account :: string
  pr_provider_status :: string
  pr_state :: string
  pr_five_hour :: quota_window
  pr_seven_day :: quota_window

record quota_reading =
  qr_account :: string
  qr_harness :: string
  qr_state :: string
  qr_age_seconds :: "rat option"
  qr_routing_left :: "rat option"
  qr_five_left :: "rat option"
  qr_week_left :: "rat option"

datatype quota_admission = Admit string | Wait string int string | Handoff string string

record quota_store =
  qs_latest :: "(string \<times> string, quota_observation) dict"
  qs_history :: "(string \<times> string, quota_observation list) dict"
  qs_stale :: "(string \<times> string, int) dict"
  qs_waits :: "(string \<times> string, int) dict"

definition observation_probe :: "bool \<Rightarrow> quota_observation \<Rightarrow> probe_result" where
  "observation_probe known obs =
    (let failed = (\<not> known \<or> ob_provider_status obs = ''error'');
         none = \<lparr>qw_used = None, qw_resets_at = None\<rparr>
     in \<lparr>pr_account = ob_account obs, pr_provider_status = ob_provider_status obs, pr_state = ''FLEET'',
         pr_five_hour = (if failed then none else \<lparr>qw_used = ob_five_used obs, qw_resets_at = ob_five_reset obs\<rparr>),
         pr_seven_day = (if failed then none else \<lparr>qw_used = ob_week_used obs, qw_resets_at = ob_week_reset obs\<rparr>)\<rparr>)"

section \<open>Reports\<close>

text \<open>A number of a report: \<open>None\<close> or an int or float in range; a bool is neither. No upper bound is \<open>None\<close>.\<close>

definition json_number :: "json \<Rightarrow> rat option" where
  "json_number v = (case v of JInt i \<Rightarrow> Some (of_int i) | JNum r \<Rightarrow> Some r | _ \<Rightarrow> None)"

definition number_ok :: "json \<Rightarrow> rat \<Rightarrow> rat option \<Rightarrow> bool" where
  "number_ok v low high =
    (v = JNull \<or> (case json_number v of None \<Rightarrow> False
       | Some r \<Rightarrow> low \<le> r \<and> (case high of None \<Rightarrow> True | Some h \<Rightarrow> r \<le> h)))"

definition report_fields :: "string list" where
  "report_fields = [''observed_ms'', ''provider_status'', ''five_used'', ''week_used'', ''five_reset'', ''week_reset'']"

definition quota_statuses :: "string list" where
  "quota_statuses = [''allowed'', ''allowed_warning'', ''rejected'', ''error'']"

text \<open>\<open>limit\<close> is the clock, \<open>None\<close> where the code passes \<open>math.inf\<close>.\<close>

definition report_checked :: "json \<Rightarrow> int option \<Rightarrow> fault + jdict" where
  "report_checked report limit =
    (case report of
       JObj fs \<Rightarrow>
         if \<not> (dhas fs ''observed_ms'' \<and> dhas fs ''provider_status'' \<and> list_all (\<lambda>k. k \<in> set report_fields) (dkeys fs))
         then fleet_error ''invalid_request''
         else (case jget fs ''observed_ms'' of
             JInt observed \<Rightarrow>
               if \<not> (0 < observed \<and> (case limit of None \<Rightarrow> True | Some now \<Rightarrow> observed \<le> now + 60000)) then fleet_error ''invalid_request''
               else if (case jget fs ''provider_status'' of JStr s \<Rightarrow> s \<notin> set quota_statuses | _ \<Rightarrow> True) then fleet_error ''invalid_request''
               else if \<not> (number_ok (jget fs ''five_used'') 0 (Some 100) \<and> number_ok (jget fs ''week_used'') 0 (Some 100) \<and>
                        number_ok (jget fs ''five_reset'') 1 None \<and> number_ok (jget fs ''week_reset'') 1 None)
               then fleet_error ''invalid_request''
               else Inr (map (\<lambda>k. (k, jget fs k)) report_fields)
           | _ \<Rightarrow> fleet_error ''invalid_request'')
     | _ \<Rightarrow> fleet_error ''invalid_request'')"

definition observation_of :: "string \<Rightarrow> string \<Rightarrow> string \<Rightarrow> int \<Rightarrow> jdict \<Rightarrow> quota_observation" where
  "observation_of account harness execution_id generation fs =
    \<lparr>ob_account = account, ob_harness = harness, ob_execution_id = execution_id, ob_generation = generation,
     ob_observed_ms = (case jget fs ''observed_ms'' of JInt i \<Rightarrow> i | _ \<Rightarrow> 0),
     ob_provider_status = (case jget fs ''provider_status'' of JStr s \<Rightarrow> s | _ \<Rightarrow> ''''),
     ob_five_used = json_number (jget fs ''five_used''), ob_week_used = json_number (jget fs ''week_used''),
     ob_five_reset = json_number (jget fs ''five_reset''), ob_week_reset = json_number (jget fs ''week_reset'')\<rparr>"

definition number_json :: "rat option \<Rightarrow> json" where
  "number_json v = (case v of None \<Rightarrow> JNull | Some r \<Rightarrow> JNum r)"

definition observation_report :: "quota_observation \<Rightarrow> json" where
  "observation_report obs = JObj
    [(''observed_ms'', JInt (ob_observed_ms obs)), (''provider_status'', JStr (ob_provider_status obs)),
     (''five_used'', number_json (ob_five_used obs)), (''week_used'', number_json (ob_week_used obs)),
     (''five_reset'', number_json (ob_five_reset obs)), (''week_reset'', number_json (ob_week_reset obs))]"

definition latest_all :: "string \<Rightarrow> quota_store \<Rightarrow> (string, quota_observation) dict" where
  "latest_all harness qs =
    map (\<lambda>((h, account), obs). (account, obs))
      (filter (\<lambda>((h, account), obs). h = harness \<and> (case report_checked (observation_report obs) None of Inl _ \<Rightarrow> False | Inr _ \<Rightarrow> True))
        (qs_latest qs))"

text \<open>\<open>reading["five_hour"]["used"]\<close>: \<open>None\<close> for the \<open>KeyError\<close> and the \<open>TypeError\<close> alike, both are caught.\<close>

definition json_field :: "string \<Rightarrow> json \<Rightarrow> json option" where
  "json_field k v = (case v of JObj d \<Rightarrow> dget d k | _ \<Rightarrow> None)"

text \<open>\<open>int(x * 1000)\<close>; a bool counts as 0 or 1, a text repeats into a number no check admits.\<close>

definition scaled_ms :: "json \<Rightarrow> int option" where
  "scaled_ms v = (case v of JInt i \<Rightarrow> Some (i * 1000) | JNum r \<Rightarrow> Some (py_int (r * 1000))
     | JBool b \<Rightarrow> Some (if b then 1000 else 0) | _ \<Rightarrow> None)"

definition hive_reading :: "string \<Rightarrow> string \<Rightarrow> json \<Rightarrow> int \<Rightarrow> quota_observation option" where
  "hive_reading account harness reading now =
    (case (json_field ''five_hour'' reading, json_field ''seven_day'' reading, Option.bind (json_field ''observed_at'' reading) scaled_ms) of
       (Some five, Some week, Some observed) \<Rightarrow>
         (case (json_field ''used'' five, json_field ''used'' week, json_field ''resets_at'' five, json_field ''resets_at'' week) of
            (Some fu, Some wu, Some fr, Some wr) \<Rightarrow>
              (case report_checked (JObj [(''observed_ms'', JInt observed), (''provider_status'', JStr ''allowed''), (''five_used'', fu),
                      (''week_used'', wu), (''five_reset'', fr), (''week_reset'', wr)]) (Some now) of
                 Inl _ \<Rightarrow> None
               | Inr fs \<Rightarrow> Some (observation_of account harness '''' 0 fs))
          | _ \<Rightarrow> None)
     | _ \<Rightarrow> None)"

definition first_newest :: "quota_observation list \<Rightarrow> quota_observation option" where
  "first_newest found = (case found of [] \<Rightarrow> None | _ \<Rightarrow> Some (arg_min_list (\<lambda>obs. - ob_observed_ms obs) found))"

definition hive_observation :: "(string \<times> json) list \<Rightarrow> string \<Rightarrow> string \<Rightarrow> int \<Rightarrow> quota_observation option" where
  "hive_observation published account harness now =
    (let wanted = canonical_account (harness @ '':'' @ account)
     in first_newest (List.map_filter (\<lambda>(slot, reading).
          if canonical_account slot = wanted then hive_reading account harness reading now else None) published))"

section \<open>Publishing\<close>

definition quota_seen :: "string \<Rightarrow> quota_store \<Rightarrow> (string \<times> quota_observation) list" where
  "quota_seen harness qs = map (\<lambda>((h, account), obs). (account, obs)) (filter (\<lambda>((h, account), obs). h = harness) (qs_latest qs))"

definition publish_writes :: "quota_observation \<Rightarrow> quota_store \<Rightarrow> quota_store" where
  "publish_writes obs qs =
    (let k = (ob_harness obs, ob_account obs);
         past = (case dget (qs_history qs) k of None \<Rightarrow> [] | Some h \<Rightarrow> h)
     in qs\<lparr>qs_latest := dset k obs (qs_latest qs), qs_history := dset k (take 50 (obs # past)) (qs_history qs)\<rparr>)"

definition publish_step :: "quota_observation \<Rightarrow> quota_store \<Rightarrow> fault + quota_observation \<times> (quota_store \<Rightarrow> quota_store) option" where
  "publish_step obs qs =
    (case dget (quota_seen (ob_harness obs) qs) (ob_account obs) of
       Some stored \<Rightarrow> if ob_observed_ms stored \<ge> ob_observed_ms obs then Inr (stored, None) else Inr (obs, Some (publish_writes obs))
     | None \<Rightarrow> Inr (obs, Some (publish_writes obs)))"

definition count_pair :: "'k \<Rightarrow> ('k, int) dict \<Rightarrow> ('k, int) dict" where
  "count_pair k counts = dset k ((case dget counts k of None \<Rightarrow> 0 | Some n \<Rightarrow> n) + 1) counts"

definition quota_publish ::
  "string \<Rightarrow> (string \<Rightarrow> fault + registration) \<Rightarrow> int \<Rightarrow> string \<Rightarrow> string \<Rightarrow> json \<Rightarrow> (quota_store \<Rightarrow> quota_store) list \<Rightarrow> quota_store \<Rightarrow>
   (fault + quota_observation) \<times> quota_store" where
  "quota_publish slug authorize now token harness report others qs =
    (if harness \<notin> {''claude'', ''codex''} then (fleet_error ''invalid_request'', qs)
     else case report_checked report (Some now) of
            Inl e \<Rightarrow> (Inl e, qs)
          | Inr fs \<Rightarrow>
              (case capacity_grant slug authorize token of
                 Inl e \<Rightarrow> (Inl e, qs)
               | Inr grant \<Rightarrow>
                   let obs = observation_of (rg_account grant) harness (rg_execution_id grant) (rg_generation grant) fs
                   in case watch_loop (quota_seen harness) (publish_step obs) others qs of
                        (Inl e, qs1) \<Rightarrow> (Inl e, qs1)
                      | (Inr kept, qs1) \<Rightarrow>
                          (Inr kept, if kept \<noteq> obs then qs1\<lparr>qs_stale := count_pair (harness, rg_account grant) (qs_stale qs1)\<rparr> else qs1)))"

definition quota_history :: "string \<Rightarrow> string \<Rightarrow> quota_store \<Rightarrow> quota_observation list" where
  "quota_history account harness qs = (case dget (qs_history qs) (harness, account) of None \<Rightarrow> [] | Some h \<Rightarrow> h)"

definition stale_reports :: "string \<Rightarrow> string \<Rightarrow> quota_store \<Rightarrow> int" where
  "stale_reports account harness qs = (case dget (qs_stale qs) (harness, account) of None \<Rightarrow> 0 | Some n \<Rightarrow> n)"

section \<open>Reading\<close>

definition quota_latest :: "(string \<times> json) list \<Rightarrow> int \<Rightarrow> string \<Rightarrow> string \<Rightarrow> quota_store \<Rightarrow> quota_observation option" where
  "quota_latest hives now account harness qs =
    (let hive = hive_observation hives account harness now
     in case dget (qs_latest qs) (harness, account) of
          None \<Rightarrow> hive
        | Some published \<Rightarrow>
            (case hive of Some h \<Rightarrow> if ob_observed_ms h > ob_observed_ms published then Some h else Some published
             | None \<Rightarrow> Some published))"

definition quota_age :: "(string \<times> json) list \<Rightarrow> int \<Rightarrow> string \<Rightarrow> string \<Rightarrow> quota_store \<Rightarrow> rat option" where
  "quota_age hives now account harness qs =
    map_option (\<lambda>obs. of_int (now - ob_observed_ms obs) / 1000) (quota_latest hives now account harness qs)"

definition unknown_reading :: "string \<Rightarrow> string \<Rightarrow> rat option \<Rightarrow> quota_reading" where
  "unknown_reading account harness age = \<lparr>qr_account = account, qr_harness = harness, qr_state = ''unknown'', qr_age_seconds = age,
     qr_routing_left = None, qr_five_left = None, qr_week_left = None\<rparr>"

definition quota_reading_at :: "(string \<times> json) list \<Rightarrow> int \<Rightarrow> string \<Rightarrow> string \<Rightarrow> quota_store \<Rightarrow> quota_reading" where
  "quota_reading_at hives now account harness qs =
    (case quota_latest hives now account harness qs of
       None \<Rightarrow> unknown_reading account harness None
     | Some obs \<Rightarrow>
         let age = of_int (now - ob_observed_ms obs) / 1000;
             five = window_left (ob_five_used obs) (ob_five_reset obs) (of_int now / 1000);
             week = window_left (ob_week_used obs) (ob_week_reset obs) (of_int now / 1000)
         in case week of
              None \<Rightarrow> unknown_reading account harness (Some age)
            | Some wk \<Rightarrow>
                if ob_provider_status obs = ''error'' \<or> age > 900 then unknown_reading account harness (Some age)
                else let room = (if ob_provider_status obs = ''rejected'' then 0
                       else case five of None \<Rightarrow> wk | Some fv \<Rightarrow> if harness = ''codex'' then wk else min fv wk)
                     in \<lparr>qr_account = account, qr_harness = harness, qr_state = ''observed'', qr_age_seconds = Some age,
                         qr_routing_left = Some room, qr_five_left = five, qr_week_left = week\<rparr>)"

text \<open>\<open>reserved\<close>: what \<open>reservation.primary_reserved\<close> answers for the account and its week.\<close>

definition quota_cap ::
  "(string \<Rightarrow> rat option \<Rightarrow> bool) \<Rightarrow> (string \<times> json) list \<Rightarrow> int \<Rightarrow> string \<Rightarrow> string \<Rightarrow> quota_store \<Rightarrow> int option" where
  "quota_cap reserved hives now account harness qs =
    (let reading = quota_reading_at hives now account harness qs
     in if qr_state reading = ''unknown'' then Some 0
        else if qr_routing_left reading = None \<or> qr_routing_left reading = Some 0 then Some 0
        else if harness = ''claude'' \<and> reserved account (qr_week_left reading) then Some 0
        else if harness = ''codex'' then week_cap (qr_week_left reading)
        else band_cap (qr_five_left reading) (qr_week_left reading))"

definition quota_room ::
  "(string \<Rightarrow> rat option \<Rightarrow> bool) \<Rightarrow> (string \<times> json) list \<Rightarrow> int \<Rightarrow> string \<Rightarrow> string \<Rightarrow> quota_store \<Rightarrow> bool" where
  "quota_room reserved hives now account harness qs =
    (let reading = quota_reading_at hives now account harness qs
     in if qr_state reading \<noteq> ''observed'' \<or> (case qr_routing_left reading of None \<Rightarrow> False | Some left \<Rightarrow> left < 5) then False
        else \<not> (harness = ''claude'' \<and> reserved account (qr_week_left reading)))"

section \<open>Admission\<close>

definition wait_step :: "string \<times> string \<Rightarrow> int \<Rightarrow> quota_store \<Rightarrow> fault + int \<times> (quota_store \<Rightarrow> quota_store) option" where
  "wait_step k now qs =
    (case dget (qs_waits qs) k of
       Some stored \<Rightarrow> if stored > now then Inr (stored, None)
                      else Inr (now + 300000, Some (\<lambda>qs1. qs1\<lparr>qs_waits := dset k (now + 300000) (qs_waits qs1)\<rparr>))
     | None \<Rightarrow> Inr (now + 300000, Some (\<lambda>qs1. qs1\<lparr>qs_waits := dset k (now + 300000) (qs_waits qs1)\<rparr>)))"

definition quota_admit ::
  "(string \<Rightarrow> rat option \<Rightarrow> bool) \<Rightarrow> (string \<times> json) list \<Rightarrow> int \<Rightarrow> string \<Rightarrow> string \<Rightarrow> string \<Rightarrow> (quota_store \<Rightarrow> quota_store) list \<Rightarrow>
   quota_store \<Rightarrow> (fault + quota_admission) \<times> quota_store" where
  "quota_admit reserved hives now account harness handoff others qs =
    (if quota_room reserved hives now account harness qs then (Inr (Admit account), qs)
     else let reason = (if qr_state (quota_reading_at hives now account harness qs) = ''unknown'' then ''unknown'' else ''exhausted'')
          in if handoff \<noteq> '''' \<and> quota_room reserved hives now handoff harness qs then (Inr (Handoff handoff reason), qs)
             else case watch_loop (\<lambda>qs. dget (qs_waits qs) (harness, account)) (wait_step (harness, account) now) others qs of
                    (Inl e, qs1) \<Rightarrow> (Inl e, qs1)
                  | (Inr until, qs1) \<Rightarrow> (Inr (Wait account until reason), qs1))"

definition fleet_observations :: "bool \<Rightarrow> string \<Rightarrow> int \<Rightarrow> fault + quota_store \<Rightarrow> (rat \<times> probe_result) list" where
  "fleet_observations switched_on harness now store =
    (if \<not> switched_on then []
     else case store of
            Inl _ \<Rightarrow> []
          | Inr qs \<Rightarrow> map (\<lambda>(account, obs). (of_int (ob_observed_ms obs) / 1000,
              observation_probe (fresh_reading (Some (of_int (ob_observed_ms obs) / 1000)) (of_int now / 1000)) obs)) (latest_all harness qs))"


section \<open>What the observations promise\<close>

lemma seen_latest: "dget (quota_seen harness qs) account = dget (qs_latest qs) (harness, account)"
proof -
  have "dget (map (\<lambda>((h, a), obs). (a, obs)) (filter (\<lambda>((h, a), obs). h = harness) d)) account = dget d (harness, account)"
    for d :: "(string \<times> string, quota_observation) dict"
    by (induction d) auto
  then show ?thesis by (simp add: quota_seen_def)
qed

text \<open>The writes of all clients: publications, waits and the counting of stale reports.\<close>

inductive quota_step :: "quota_store \<Rightarrow> quota_store \<Rightarrow> bool" where
  qs_publish: "publish_step obs qs = Inr (out, Some writes) \<Longrightarrow> quota_step qs (writes qs)"
| qs_wait: "wait_step k now qs = Inr (out, Some writes) \<Longrightarrow> quota_step qs (writes qs)"
| qs_count: "quota_step qs (qs\<lparr>qs_stale := count_pair k (qs_stale qs)\<rparr>)"

interpretation publishing: watched_client "quota_seen (ob_harness obs)" "publish_step obs" quota_step for obs
  by unfold_locales (simp add: publish_step_def)

interpretation waiting: watched_client "\<lambda>qs. dget (qs_waits qs) k" "wait_step k now" quota_step for k now
  by unfold_locales (simp add: wait_step_def)

definition blank_quota :: quota_store where
  "blank_quota = \<lparr>qs_latest = [], qs_history = [], qs_stale = [], qs_waits = []\<rparr>"

definition history_ok :: "quota_store \<Rightarrow> string \<times> string \<Rightarrow> bool" where
  "history_ok qs k = (case (dget (qs_latest qs) k, dget (qs_history qs) k) of
      (None, None) \<Rightarrow> True
    | (Some obs, Some past) \<Rightarrow> past \<noteq> [] \<and> hd past = obs \<and> length past \<le> 50 \<and>
        sorted_wrt (\<lambda>a b. ob_observed_ms a > ob_observed_ms b) past \<and> (\<forall>o1 \<in> set past. (ob_harness o1, ob_account o1) = k)
    | _ \<Rightarrow> False)"

lemma publish_writes_cases:
  assumes "publish_step obs qs = Inr (out, Some writes)"
  shows "writes = publish_writes obs" "out = obs"
    "\<forall>stored. dget (qs_latest qs) (ob_harness obs, ob_account obs) = Some stored \<longrightarrow> ob_observed_ms stored < ob_observed_ms obs"
  using assms by (auto simp: publish_step_def seen_latest split: option.splits if_splits)

lemma wait_writes_cases:
  "wait_step k now qs = Inr (out, Some writes) \<Longrightarrow> qs_latest (writes qs) = qs_latest qs \<and> qs_history (writes qs) = qs_history qs"
  by (auto simp: wait_step_def split: option.splits if_splits)

lemma sorted_wrt_take: "sorted_wrt P xs \<Longrightarrow> sorted_wrt P (take n xs)"
  by (metis append_take_drop_id sorted_wrt_append)

lemma history_ok_publish:
  assumes "history_ok qs k" and "publish_step obs qs = Inr (out, Some writes)"
  shows "history_ok (writes qs) k"
proof (cases "k = (ob_harness obs, ob_account obs)")
  case False
  then show ?thesis using assms publish_writes_cases(1)[OF assms(2)] by (simp add: history_ok_def publish_writes_def Let_def dict_simps)
next
  case True
  define past where "past = (case dget (qs_history qs) k of None \<Rightarrow> [] | Some h \<Rightarrow> h)"
  have newer: "dget (qs_latest qs) k = Some stored \<Longrightarrow> ob_observed_ms stored < ob_observed_ms obs" for stored
    using publish_writes_cases(3)[OF assms(2)] True by blast
  have past: "sorted_wrt (\<lambda>a b. ob_observed_ms a > ob_observed_ms b) past \<and> (\<forall>o1 \<in> set past. (ob_harness o1, ob_account o1) = k) \<and>
      (\<forall>o1 \<in> set past. ob_observed_ms o1 < ob_observed_ms obs)"
  proof (cases past)
    case (Cons p rest)
    then have h: "dget (qs_history qs) k = Some (p # rest)" unfolding past_def by (auto split: option.splits)
    then have l: "dget (qs_latest qs) k = Some p" and ok: "sorted_wrt (\<lambda>a b. ob_observed_ms a > ob_observed_ms b) past"
        "\<forall>o1 \<in> set past. (ob_harness o1, ob_account o1) = k"
      using assms(1) Cons by (auto simp: history_ok_def split: option.splits)
    have "\<forall>o1 \<in> set past. ob_observed_ms o1 < ob_observed_ms obs"
      using newer[OF l] ok(1) Cons by fastforce
    then show ?thesis using ok by blast
  qed simp
  have out: "dget (qs_latest (writes qs)) k = Some obs" "dget (qs_history (writes qs)) k = Some (take 50 (obs # past))"
    using True publish_writes_cases(1)[OF assms(2)] by (simp_all add: publish_writes_def Let_def dict_simps past_def)
  have "sorted_wrt (\<lambda>a b. ob_observed_ms a > ob_observed_ms b) (obs # past)" using past by simp
  then have s: "sorted_wrt (\<lambda>a b. ob_observed_ms a > ob_observed_ms b) (take 50 (obs # past))" by (rule sorted_wrt_take)
  have "\<forall>o1 \<in> set (take 50 (obs # past)). (ob_harness o1, ob_account o1) = k" using past True by (auto dest: in_set_takeD)
  moreover have "take 50 (obs # past) \<noteq> []" "hd (take 50 (obs # past)) = obs" "length (take 50 (obs # past)) \<le> 50" by auto
  ultimately show ?thesis using out s unfolding history_ok_def by simp
qed

text \<open>
  The history of an account starts with its newest observation, is in strictly falling order of
  observation time and holds at most fifty, all of that account and harness, whatever reports were
  published in whatever order.
\<close>

theorem quota_history_ordered:
  assumes "quota_step\<^sup>*\<^sup>* blank_quota qs"
  shows "history_ok qs (harness, account)"
  using assms
proof (induction rule: rtranclp_induct)
  case base
  then show ?case by (simp add: history_ok_def blank_quota_def)
next
  case (step x y)
  from step.hyps(2) step.IH show ?case
  proof cases
    case (qs_publish obs out writes)
    then show ?thesis using history_ok_publish[OF step.IH] by simp
  next
    case (qs_wait k now out writes)
    then show ?thesis using wait_writes_cases step.IH by (simp add: history_ok_def)
  qed (simp add: history_ok_def)
qed

text \<open>
  A stale report never replaces a newer one. Once an account has an observation, it always has one
  that is at least as new.
\<close>

theorem newest_observation_kept:
  assumes "quota_step\<^sup>*\<^sup>* qs qs'" and "dget (qs_latest qs) k = Some stored"
  shows "\<exists>stored'. dget (qs_latest qs') k = Some stored' \<and> ob_observed_ms stored \<le> ob_observed_ms stored' \<and>
    (ob_observed_ms stored = ob_observed_ms stored' \<longrightarrow> stored' = stored)"
  using assms
proof (induction rule: rtranclp_induct)
  case base
  then show ?case by simp
next
  case (step x y)
  then obtain s1 where s1: "dget (qs_latest x) k = Some s1" "ob_observed_ms stored \<le> ob_observed_ms s1"
    "ob_observed_ms stored = ob_observed_ms s1 \<longrightarrow> s1 = stored" by blast
  from step.hyps(2) show ?case
  proof cases
    case (qs_publish obs out writes)
    show ?thesis
    proof (cases "k = (ob_harness obs, ob_account obs)")
      case True
      then have "ob_observed_ms s1 < ob_observed_ms obs" using publish_writes_cases(3)[OF qs_publish(2)] s1(1) by blast
      then show ?thesis using True s1 qs_publish publish_writes_cases(1)[OF qs_publish(2)]
        by (auto simp: publish_writes_def Let_def dict_simps)
    next
      case False
      then show ?thesis using s1 qs_publish publish_writes_cases(1)[OF qs_publish(2)]
        by (auto simp: publish_writes_def Let_def dict_simps)
    qed
  next
    case (qs_wait k1 now out writes)
    then show ?thesis using s1 wait_writes_cases by simp
  next
    case (qs_count k1)
    then show ?thesis using s1 by simp
  qed
qed

text \<open>
  Quota that is not known is not spent. An account gets seats only on an observation that is no
  error and no rejection, is at most fifteen minutes old, leaves five percent of the week and of a
  reported five hour window, and is not reserved.
\<close>

theorem quota_cap_needs_reading:
  assumes "quota_cap reserved hives now account harness qs = Some n" and "n \<noteq> 0"
  shows "\<exists>obs week. quota_latest hives now account harness qs = Some obs \<and>
    ob_provider_status obs \<notin> {''error'', ''rejected''} \<and> now - ob_observed_ms obs \<le> 900000 \<and>
    window_left (ob_week_used obs) (ob_week_reset obs) (of_int now / 1000) = Some week \<and> week \<ge> 5 \<and>
    (harness \<noteq> ''codex'' \<longrightarrow> (\<forall>five. window_left (ob_five_used obs) (ob_five_reset obs) (of_int now / 1000) = Some five \<longrightarrow> five \<ge> 5)) \<and>
    \<not> (harness = ''claude'' \<and> reserved account (Some week)) \<and> 0 < n \<and> n \<le> 6"
proof -
  define reading where "reading = quota_reading_at hives now account harness qs"
  have known: "qr_state reading \<noteq> ''unknown''" "qr_routing_left reading \<noteq> Some 0"
    "\<not> (harness = ''claude'' \<and> reserved account (qr_week_left reading))"
    and n: "(if harness = ''codex'' then week_cap (qr_week_left reading) else band_cap (qr_five_left reading) (qr_week_left reading)) = Some n"
    using assms unfolding quota_cap_def reading_def Let_def by (auto split: if_splits)
  obtain obs where obs: "quota_latest hives now account harness qs = Some obs"
    using known(1) unfolding reading_def quota_reading_at_def by (auto simp: unknown_reading_def split: option.splits)
  define five where "five = window_left (ob_five_used obs) (ob_five_reset obs) (of_int now / 1000)"
  obtain week where week: "window_left (ob_week_used obs) (ob_week_reset obs) (of_int now / 1000) = Some week"
    using known(1) obs unfolding reading_def quota_reading_at_def by (auto simp: unknown_reading_def Let_def split: option.splits)
  have fresh: "ob_provider_status obs \<noteq> ''error''" "of_int (now - ob_observed_ms obs) / 1000 \<le> (900 :: rat)"
    using known(1) obs week unfolding reading_def quota_reading_at_def
    by (auto simp: unknown_reading_def Let_def split: if_splits)
  have reading: "qr_week_left reading = Some week" "qr_five_left reading = five"
    "ob_provider_status obs = ''rejected'' \<Longrightarrow> qr_routing_left reading = Some 0"
    using obs week fresh unfolding reading_def quota_reading_at_def five_def by (simp_all add: Let_def)
  have "(of_int (now - ob_observed_ms obs) :: rat) \<le> of_int 900000" using fresh(2) by simp
  then have "now - ob_observed_ms obs \<le> 900000" using of_int_le_iff by blast
  moreover have "week \<ge> 5 \<and> 0 < n \<and> n \<le> 6 \<and> (harness \<noteq> ''codex'' \<longrightarrow> (\<forall>fv. five = Some fv \<longrightarrow> fv \<ge> 5))"
    using n assms(2) reading(1,2)
    by (auto simp: band_cap_def week_cap_def five_hour_cap_cases split: if_splits option.splits)
  ultimately show ?thesis using obs week fresh(1) reading known(2,3) five_def by auto
qed

section \<open>The statements at concrete inputs\<close>

definition qw_obs :: "int \<Rightarrow> quota_observation" where
  "qw_obs ts = \<lparr>ob_account = ''a'', ob_harness = ''claude'', ob_execution_id = ''e'', ob_generation = 1, ob_observed_ms = ts,
     ob_provider_status = ''allowed'', ob_five_used = Some 50, ob_week_used = Some 10, ob_five_reset = None, ob_week_reset = None\<rparr>"

lemma qw_runs:
  "quota_step blank_quota (publish_writes (qw_obs 1000) blank_quota)"
  "quota_step (publish_writes (qw_obs 1000) blank_quota) (publish_writes (qw_obs 2000) (publish_writes (qw_obs 1000) blank_quota))"
proof -
  have "publish_step (qw_obs 1000) blank_quota = Inr (qw_obs 1000, Some (publish_writes (qw_obs 1000)))"
    by (simp add: publish_step_def seen_latest blank_quota_def)
  then show "quota_step blank_quota (publish_writes (qw_obs 1000) blank_quota)" by (rule qs_publish)
  have "publish_step (qw_obs 2000) (publish_writes (qw_obs 1000) blank_quota) = Inr (qw_obs 2000, Some (publish_writes (qw_obs 2000)))"
    by (simp add: publish_step_def seen_latest blank_quota_def publish_writes_def qw_obs_def Let_def)
  then show "quota_step (publish_writes (qw_obs 1000) blank_quota) (publish_writes (qw_obs 2000) (publish_writes (qw_obs 1000) blank_quota))"
    by (rule qs_publish)
qed

lemma quota_history_ordered_witness:
  "history_ok (publish_writes (qw_obs 2000) (publish_writes (qw_obs 1000) blank_quota)) (''claude'', ''a'')"
  by (rule quota_history_ordered) (meson qw_runs converse_rtranclp_into_rtranclp rtranclp.rtrancl_refl)

lemma newest_observation_kept_witness:
  "\<exists>stored'. dget (qs_latest (publish_writes (qw_obs 2000) (publish_writes (qw_obs 1000) blank_quota))) (''claude'', ''a'') = Some stored' \<and>
    1000 \<le> ob_observed_ms stored'"
proof -
  have "dget (qs_latest (publish_writes (qw_obs 1000) blank_quota)) (''claude'', ''a'') = Some (qw_obs 1000)"
    by (simp add: publish_writes_def qw_obs_def blank_quota_def Let_def)
  moreover have "quota_step\<^sup>*\<^sup>* (publish_writes (qw_obs 1000) blank_quota) (publish_writes (qw_obs 2000) (publish_writes (qw_obs 1000) blank_quota))"
    using qw_runs(2) by (rule r_into_rtranclp[of quota_step])
  ultimately show ?thesis using newest_observation_kept by (fastforce simp: qw_obs_def)
qed

lemma quota_cap_needs_reading_witness:
  "\<exists>obs. quota_latest [] 2000 ''a'' ''claude'' (publish_writes (qw_obs 1000) blank_quota) = Some obs \<and> 2000 - ob_observed_ms obs \<le> 900000"
proof -
  have "quota_cap (\<lambda>_ _. False) [] 2000 ''a'' ''claude'' (publish_writes (qw_obs 1000) blank_quota) = Some 4"
    by (simp add: quota_cap_def quota_reading_at_def quota_latest_def hive_observation_def first_newest_def publish_writes_def
        blank_quota_def qw_obs_def window_left_def band_cap_def week_cap_def five_hour_cap_cases unknown_reading_def Let_def)
  from quota_cap_needs_reading[OF this] show ?thesis by auto
qed

end
