(* ===== verification/Slot_Holders.thy ===== *)
theory Slot_Holders
  imports Routing
begin

text \<open>
  The account slots the hives share (\<open>scripts/hive/account_slots.py\<close>): per account the executions
  that hold a slot and what each hive last reported, both with an expiry, in one document changed by
  compare and set. The digest that names the document, the report of a hive and the launch itself are
  parameters; asking over the bus (\<open>Remote\<close>) and the wiring of \<open>execute\<close> are not modelled.
\<close>

section \<open>The document\<close>

record slot_holder =
  sh_hive :: string
  sh_expires_ms :: int

record slot_hive =
  hv_cap :: int
  hv_sessions :: int
  hv_observed :: "string list"
  hv_expires_ms :: int

record slot_doc =
  sv_holders :: "(string, slot_holder) dict"
  sv_hives :: "(string, slot_hive) dict"

definition no_slots :: slot_doc where
  "no_slots = \<lparr>sv_holders = [], sv_hives = []\<rparr>"

type_synonym slot_world = "slot_doc timed_store"

record hive_report =
  hr_slots :: "(string \<times> string \<times> int) list"
  hr_sessions :: "(string, int) dict"
  hr_executions :: "(string, string list) dict"

text \<open>
  \<open>_change\<close>: every call writes the edited value, even where the edit left it alone. The clock is read
  on each attempt.
\<close>

definition slots_change ::
  "string \<Rightarrow> (int \<Rightarrow> slot_doc \<Rightarrow> fault + 'r \<times> slot_doc) \<Rightarrow> (slot_world \<Rightarrow> slot_world) list \<Rightarrow> slot_world \<Rightarrow> (fault + 'r) \<times> slot_world" where
  "slots_change name edit others w =
    cas_loop (doc_load no_slots name)
      (\<lambda>doc w. (case edit \<lfloor>ts_now w\<rfloor> doc of Inl e \<Rightarrow> Inl e | Inr (r, doc') \<Rightarrow> Inr (r, Some doc'), w))
      (doc_commit name) State_Conflict others w"

definition live_slots :: "int \<Rightarrow> slot_doc \<Rightarrow> slot_doc" where
  "live_slots now doc = doc\<lparr>sv_holders := filter (\<lambda>(name, row). sh_expires_ms row > now) (sv_holders doc),
     sv_hives := filter (\<lambda>(name, row). hv_expires_ms row > now) (sv_hives doc)\<rparr>"

definition slots_used :: "slot_doc \<Rightarrow> int" where
  "slots_used doc = int (length (sv_holders doc)) +
     sum_list (map (\<lambda>(name, row). max (hv_sessions row - int (length (hv_observed row))) 0) (sv_hives doc))"

section \<open>Heartbeat\<close>

definition beat_holder :: "string \<Rightarrow> int \<Rightarrow> (string, string) dict \<Rightarrow> string \<times> slot_holder \<Rightarrow> (string \<times> slot_holder) list" where
  "beat_holder hive now states kv =
    (let (execution, row) = kv; state = dget states execution
     in if sh_hive row \<noteq> hive then [kv]
        else if state \<in> {Some ''exited'', Some ''dead''} then []
        else if state \<in> {Some ''working'', Some ''running'', Some ''idle'', Some ''waiting'', Some ''blocked''}
        then [(execution, row\<lparr>sh_expires_ms := now + 90000\<rparr>)] else [kv])"

definition own_holder :: "string \<Rightarrow> slot_doc \<Rightarrow> string \<Rightarrow> bool" where
  "own_holder hive doc name = (case dget (sv_holders doc) name of None \<Rightarrow> False | Some row \<Rightarrow> sh_hive row = hive)"

definition renew_slots ::
  "string \<Rightarrow> hive_report \<Rightarrow> (string, string) dict \<Rightarrow> string \<Rightarrow> string \<Rightarrow> int \<Rightarrow> slot_doc \<Rightarrow> fault + unit \<times> slot_doc" where
  "renew_slots hive report states harness account now doc =
    (let live = live_slots now doc;
         held = live\<lparr>sv_holders := concat (map (beat_holder hive now states) (sv_holders live))\<rparr>;
         name = harness @ '':'' @ account;
         seen = filter (own_holder hive held) (case dget (hr_executions report) name of None \<Rightarrow> [] | Some ids \<Rightarrow> ids);
         slot = dget (rev (map (\<lambda>(h, a, cap). ((h, a), cap)) (hr_slots report))) (harness, account)
     in Inr ((),
          if slot \<noteq> None \<or> list_ex (\<lambda>(_, row). sh_hive row = hive) (sv_holders held)
          then held\<lparr>sv_hives := dset hive \<lparr>hv_cap = (case slot of None \<Rightarrow> 0 | Some cap \<Rightarrow> cap),
                  hv_sessions = (case dget (hr_sessions report) name of None \<Rightarrow> 0 | Some n \<Rightarrow> n),
                  hv_observed = seen, hv_expires_ms = now + 90000\<rparr> (sv_hives held)\<rparr>
          else held\<lparr>sv_hives := dpop hive (sv_hives held)\<rparr>))"

text \<open>The accounts a hive ever reported, in their own document.\<close>

type_synonym accounts_world = "(string \<times> string) list timed_store"

record hive_slots =
  hs_accounts :: accounts_world
  hs_slots :: slot_world

definition remember_accounts :: "(string \<times> string \<times> int) list \<Rightarrow> (string \<times> string) list \<Rightarrow> (string \<times> string) list" where
  "remember_accounts slots known = sort (remdups (known @ map (\<lambda>(h, a, cap). (h, a)) slots))"

definition known_accounts ::
  "string \<Rightarrow> (string \<times> string \<times> int) list \<Rightarrow> (accounts_world \<Rightarrow> accounts_world) list \<Rightarrow> accounts_world \<Rightarrow>
   (fault + (string \<times> string) list) \<times> accounts_world" where
  "known_accounts name slots others w =
    cas_loop (doc_load [] name)
      (\<lambda>known w. (Inr (remember_accounts slots known, Some (remember_accounts slots known)), w)) (doc_commit name) State_Conflict others w"

fun renew_each ::
  "(string \<Rightarrow> string \<Rightarrow> string) \<Rightarrow> string \<Rightarrow> hive_report \<Rightarrow> (string, string) dict \<Rightarrow> (string \<times> string) list \<Rightarrow>
   (slot_world \<Rightarrow> slot_world) list \<Rightarrow> slot_world \<Rightarrow> (fault + unit) \<times> slot_world" where
  "renew_each key hive report states [] others w = (Inr (), w)"
| "renew_each key hive report states ((harness, account) # rest) others w =
    (case slots_change (key harness account) (renew_slots hive report states harness account) others w of
       (Inl e, w1) \<Rightarrow> (Inl e, w1)
     | (Inr _, w1) \<Rightarrow> renew_each key hive report states rest others w1)"

text \<open>What the others do to the two documents during a call: \<open>(others_accounts, others_slots)\<close>.\<close>

definition slots_heartbeat where
  "slots_heartbeat key hive report states others hs =
    (case known_accounts (key ''hive'' hive) (hr_slots report) (fst others) (hs_accounts hs) of
       (Inl e, a1) \<Rightarrow> (Inl e, hs\<lparr>hs_accounts := a1\<rparr>)
     | (Inr accounts, a1) \<Rightarrow>
         (case renew_each key hive report states accounts (snd others) (hs_slots hs) of
            (r, w1) \<Rightarrow> (r, hs\<lparr>hs_accounts := a1, hs_slots := w1\<rparr>)))"

section \<open>Taking and releasing\<close>

text \<open>\<open>min\<close> of no hive raises \<open>ValueError\<close>.\<close>

definition reserve_slot :: "string \<Rightarrow> string \<Rightarrow> int \<Rightarrow> slot_doc \<Rightarrow> fault + bool \<times> slot_doc" where
  "reserve_slot hive execution now doc =
    (let live = live_slots now doc
     in case dget (sv_holders live) execution of
          Some holder \<Rightarrow> Inr (sh_hive holder = hive, live)
        | None \<Rightarrow>
            if sv_hives live = [] then Inl (Value_Error ''min() iterable argument is empty'')
            else if slots_used live \<ge> Min (set (map hv_cap (dvals (sv_hives live)))) then Inr (False, live)
            else Inr (True, live\<lparr>sv_holders := dset execution \<lparr>sh_hive = hive, sh_expires_ms = now + 90000\<rparr> (sv_holders live)\<rparr>))"

fun take_first ::
  "(string \<Rightarrow> string \<Rightarrow> string) \<Rightarrow> string \<Rightarrow> string \<Rightarrow> string \<Rightarrow> string \<Rightarrow> (string \<times> string \<times> int) list \<Rightarrow>
   (slot_world \<Rightarrow> slot_world) list \<Rightarrow> slot_world \<Rightarrow> (fault + string option) \<times> slot_world" where
  "take_first key hive execution harness preferred [] others w = (Inr None, w)"
| "take_first key hive execution harness preferred ((h, account, cap) # rest) others w =
    (if h \<noteq> harness \<or> (preferred \<noteq> '''' \<and> account \<noteq> preferred)
     then take_first key hive execution harness preferred rest others w
     else case slots_change (key harness account) (reserve_slot hive execution) others w of
            (Inl e, w1) \<Rightarrow> (Inl e, w1)
          | (Inr True, w1) \<Rightarrow> (Inr (Some account), w1)
          | (Inr False, w1) \<Rightarrow> take_first key hive execution harness preferred rest others w1)"

definition slots_take where
  "slots_take key hive report execution harness preferred others hs =
    (case slots_heartbeat key hive report [] others hs of
       (Inl e, hs1) \<Rightarrow> (Inl e, hs1)
     | (Inr _, hs1) \<Rightarrow>
         (case take_first key hive execution harness preferred (hr_slots report) (snd others) (hs_slots hs1) of
            (r, w1) \<Rightarrow> (r, hs1\<lparr>hs_slots := w1\<rparr>)))"

definition remove_slot :: "string \<Rightarrow> string \<Rightarrow> int \<Rightarrow> slot_doc \<Rightarrow> fault + unit \<times> slot_doc" where
  "remove_slot hive execution now doc =
    Inr ((), if own_holder hive doc execution then doc\<lparr>sv_holders := dpop execution (sv_holders doc)\<rparr> else doc)"

definition slots_release where
  "slots_release key hive execution harness account others hs =
    (case slots_change (key harness account) (remove_slot hive execution) others (hs_slots hs) of
       (r, w1) \<Rightarrow> (r, hs\<lparr>hs_slots := w1\<rparr>))"

text \<open>
  \<open>launch\<close>: an invocation that failed gives its slot back, unless the failure is ambiguous (the flag):
  then the launch may have happened and the slot stays until it expires.
\<close>

definition slots_launch where
  "slots_launch key hive report execution harness preferred others invoke hs =
    (case slots_take key hive report execution harness preferred others hs of
       (Inl e, hs1) \<Rightarrow> (Inl (Unavailable ''Account slot admission failed''), hs1)
     | (Inr None, hs1) \<Rightarrow> (Inl (Unavailable ''No account slot available''), hs1)
     | (Inr (Some account), hs1) \<Rightarrow>
         (case invoke account of
            Inr r \<Rightarrow> (Inr r, hs1)
          | Inl (ambiguous, e) \<Rightarrow>
              if ambiguous then (Inl e, hs1)
              else (case slots_release key hive execution harness account (snd others) hs1 of
                  (Inl e2, hs2) \<Rightarrow> (Inl e2, hs2)
                | (Inr _, hs2) \<Rightarrow> (Inl e, hs2))))"

section \<open>What the slots promise\<close>

lemma slots_change_Inr:
  assumes "doc_others others" and "timed_inv w" and "slots_change name edit others w = (Inr r, w')"
  obtains doc rvn w1 w2 doc' rvn' where "timed_ev w w1" "timed_ev w1 w2" "doc_rd no_slots name w1 = Some (doc, rvn)"
    "doc_rd no_slots name w2 = Some (doc, rvn)" "edit \<lfloor>ts_now w1\<rfloor> doc = Inr (r, doc')" "doc_rd no_slots name w' = Some (doc', rvn')" "rvn < rvn'"
proof -
  define change where "change = (\<lambda>doc (w :: slot_world). (case edit \<lfloor>ts_now w\<rfloor> doc of
      Inl e \<Rightarrow> Inl e | Inr (r, doc') \<Rightarrow> Inr (r, Some doc'), w))"
  have run: "cas_loop (doc_load no_slots name) change (doc_commit name) State_Conflict others w = (Inr r, w')"
    using assms(3) by (simp add: slots_change_def change_def)
  have pure: "snd (change d ww) = ww" for d ww by (simp add: change_def)
  show thesis
  proof (rule doc_loop_Inr[OF pure assms(1,2) run], goal_cases)
    case (1 v rvn s1 s2)
    then obtain doc' where "edit \<lfloor>ts_now s1\<rfloor> v = Inr (r, doc')" "\<exists>rvn' > rvn. doc_rd no_slots name w' = Some (doc', rvn')"
      by (auto simp: change_def split: sum.splits prod.splits)
    then show ?case using 1 that by blast
  qed
qed

lemma reserve_slot_within:
  assumes "reserve_slot hive execution now doc = Inr (True, doc')"
  shows "own_holder hive doc' execution \<and>
    (own_holder hive (live_slots now doc) execution \<or>
     (dget (sv_holders (live_slots now doc)) execution = None \<and> (\<forall>row \<in> set (dvals (sv_hives doc')). slots_used doc' \<le> hv_cap row)))"
proof -
  define live where "live = live_slots now doc"
  show ?thesis
  proof (cases "dget (sv_holders live) execution")
    case (Some holder)
    then show ?thesis using assms by (auto simp: reserve_slot_def Let_def own_holder_def live_def)
  next
    case None
    then have ok: "sv_hives live \<noteq> []" "\<not> Min (set (map hv_cap (dvals (sv_hives live)))) \<le> slots_used live"
      and doc': "doc' = live\<lparr>sv_holders := dset execution \<lparr>sh_hive = hive, sh_expires_ms = now + 90000\<rparr> (sv_holders live)\<rparr>"
      using assms by (auto simp: reserve_slot_def Let_def live_def split: if_splits)
    have len: "length (dset execution v d) \<le> length d + 1" for v and d :: "(string, slot_holder) dict" by (induction d) auto
    have "int (length (dset execution v (sv_holders live))) \<le> int (length (sv_holders live)) + 1" for v
      using len[of v "sv_holders live"] by linarith
    then have "slots_used doc' \<le> slots_used live + 1" unfolding doc' slots_used_def by simp
    moreover have "slots_used live < hv_cap row" if "row \<in> set (dvals (sv_hives live))" for row
    proof -
      have "Min (set (map hv_cap (dvals (sv_hives live)))) \<le> hv_cap row" using that by (intro Min_le) auto
      then show ?thesis using ok(2) by linarith
    qed
    ultimately have "\<forall>row \<in> set (dvals (sv_hives doc')). slots_used doc' \<le> hv_cap row" unfolding doc' by fastforce
    then show ?thesis using None doc' by (auto simp: own_holder_def dict_simps live_def)
  qed
qed

lemma slots_change_inv:
  assumes "doc_others others" and "timed_inv w" and "slots_change name edit others w = (res, w')"
  shows "timed_ev w w'"
proof -
  have pure: "\<And>v (s :: slot_world). snd ((case edit \<lfloor>ts_now s\<rfloor> v of Inl e \<Rightarrow> Inl e | Inr (r, doc') \<Rightarrow> Inr (r, Some doc'), s)) = s" by simp
  have "doc.others others" using assms(1) by (simp add: doc.others_def doc_others_def)
  from doc.loop_ev[OF doc_load_reads doc_pure_quiet[OF pure] this assms(2) assms(3)[unfolded slots_change_def]] show ?thesis .
qed

text \<open>
  C26: the hives together never overbook an account. When a take answers an account, its document holds
  the slot for the asking hive; if it did not hold it in the document that was replaced, then the
  holders and the sessions the hives see besides them are within the cap of every hive that reports.
\<close>

theorem slot_take_within_cap:
  assumes "doc_others others" and "timed_inv w"
    and "take_first key hive execution harness preferred slots others w = (Inr (Some account), w')"
  shows "\<exists>w1 doc rvn doc' rvn'. timed_ev w w1 \<and> doc_rd no_slots (key harness account) w1 = Some (doc, rvn) \<and>
    doc_rd no_slots (key harness account) w' = Some (doc', rvn') \<and> rvn < rvn' \<and> own_holder hive doc' execution \<and>
    (own_holder hive (live_slots \<lfloor>ts_now w1\<rfloor> doc) execution \<or>
     (dget (sv_holders (live_slots \<lfloor>ts_now w1\<rfloor> doc)) execution = None \<and>
      (\<forall>row \<in> set (dvals (sv_hives doc')). slots_used doc' \<le> hv_cap row)))"
  using assms(2,3)
proof (induction slots arbitrary: w)
  case Nil
  then show ?case by simp
next
  case (Cons slot slots)
  obtain h a cap where slot: "slot = (h, a, cap)" by (cases slot) auto
  show ?case
  proof (cases "h \<noteq> harness \<or> (preferred \<noteq> '''' \<and> a \<noteq> preferred)")
    case True
    then show ?thesis using Cons.IH[OF Cons.prems(1)] Cons.prems(2) slot by simp
  next
    case False
    obtain r w1 where step: "slots_change (key harness a) (reserve_slot hive execution) others w = (r, w1)" by fastforce
    then obtain took where r: "r = Inr took" using Cons.prems(2) slot False by (cases r) auto
    have ev: "timed_ev w w1" by (rule slots_change_inv[OF assms(1) Cons.prems(1) step])
    show ?thesis
    proof (cases took)
      case True
      then have same: "account = a" "w' = w1" using Cons.prems(2) slot False step r by auto
      show ?thesis
      proof (rule slots_change_Inr[OF assms(1) Cons.prems(1) step[unfolded r]], goal_cases)
        case (1 doc rvn v1 v2 doc' rvn')
        then show ?case using reserve_slot_within[of hive execution "\<lfloor>ts_now v1\<rfloor>" doc doc'] same True
          by (intro exI[of _ v1] exI[of _ doc] exI[of _ rvn] exI[of _ doc'] exI[of _ rvn']) simp
      qed
    next
      case False': False
      have rest: "take_first key hive execution harness preferred slots others w1 = (Inr (Some account), w')"
        using Cons.prems(2) slot False step r False' by auto
      have "timed_inv w1" using ev by (simp add: timed_ev_def timed_inv_def store_ev_def)
      from Cons.IH[OF this rest] obtain v1 doc rvn doc' rvn' where at: "timed_ev w1 v1"
        and post: "doc_rd no_slots (key harness account) v1 = Some (doc, rvn) \<and>
          doc_rd no_slots (key harness account) w' = Some (doc', rvn') \<and> rvn < rvn' \<and> own_holder hive doc' execution \<and>
          (own_holder hive (live_slots \<lfloor>ts_now v1\<rfloor> doc) execution \<or>
           (dget (sv_holders (live_slots \<lfloor>ts_now v1\<rfloor> doc)) execution = None \<and>
            (\<forall>row \<in> set (dvals (sv_hives doc')). slots_used doc' \<le> hv_cap row)))" by blast
      have "timed_ev w v1" using ev at store_ev_trans by (auto simp: timed_ev_def)
      then show ?thesis using post by blast
    qed
  qed
qed

text \<open>Releasing takes a slot from its own hive only.\<close>

lemma remove_slot_own:
  "remove_slot hive execution now doc = Inr (u, doc') \<Longrightarrow> other \<noteq> execution \<or> \<not> own_holder hive doc other \<Longrightarrow>
   dget (sv_holders doc') other = dget (sv_holders doc) other"
  by (auto simp: remove_slot_def dict_simps split: if_splits)

definition hw_world :: slot_world where
  "hw_world = \<lparr>ts_store = \<lparr>ms_closed = False,
      ms_history = [\<lparr>se_key = ''k'', se_value = \<lparr>sv_holders = [], sv_hives = [(''h'', \<lparr>hv_cap = 2, hv_sessions = 1, hv_observed = [], hv_expires_ms = 100\<rparr>)]\<rparr>, se_revision = 1\<rparr>],
      ms_current = [(''k'', \<lparr>se_key = ''k'', se_value = \<lparr>sv_holders = [], sv_hives = [(''h'', \<lparr>hv_cap = 2, hv_sessions = 1, hv_observed = [], hv_expires_ms = 100\<rparr>)]\<rparr>, se_revision = 1\<rparr>)]\<rparr>,
    ts_now = 50\<rparr>"

lemma slot_take_within_cap_witness:
  "\<exists>w' doc' rvn'. take_first (\<lambda>_ _. ''k'') ''h'' ''e'' ''claude'' '''' [(''claude'', ''a'', 2)] [\<lambda>w. w] hw_world = (Inr (Some ''a''), w') \<and>
    doc_rd no_slots ''k'' w' = Some (doc', rvn') \<and> own_holder ''h'' doc' ''e''"
proof -
  have "fst (take_first (\<lambda>_ _. ''k'') ''h'' ''e'' ''claude'' '''' [(''claude'', ''a'', 2)] [\<lambda>w. w] hw_world) = Inr (Some ''a'')"
    by (simp add: slots_change_def doc_load_def doc_commit_def hw_world_def store_get_def store_update_def store_put_def
        reserve_slot_def live_slots_def slots_used_def Let_def)
  then obtain w' where w': "take_first (\<lambda>_ _. ''k'') ''h'' ''e'' ''claude'' '''' [(''claude'', ''a'', 2)] [\<lambda>w. w] hw_world = (Inr (Some ''a''), w')"
    by (metis prod.collapse)
  have "doc_others [\<lambda>w. w]" by (simp add: doc_others_def timed_ev_def timed_inv_def)
  moreover have "timed_inv hw_world" by (simp add: timed_inv_def hw_world_def store_inv_def last_entry_def)
  ultimately show ?thesis using slot_take_within_cap[OF _ _ w'] w' by blast
qed

end
