(* ===== verification/Autoscale.thy ===== *)
theory Autoscale
  imports Account_Capacity
begin

text \<open>
  The lane ceilings of a swarm (\<open>scripts/swarm/autoscale.py\<close>): how many agents each lane may run, from
  the live ones, the ready work, the free seats and the room of the host, raised by at most two seats
  per pass and only once a raise was asked for long enough (\<open>scripts/swarm/elapsed.py\<close>).
\<close>

section \<open>Elapsed time\<close>

definition elapsed_reached :: "int \<Rightarrow> int \<Rightarrow> bool" where
  "elapsed_reached elapsed_ms limit_ms \<longleftrightarrow> elapsed_ms + 30000 \<ge> limit_ms"

definition elapsed_passes :: "int \<Rightarrow> int" where
  "elapsed_passes elapsed_ms = max 1 ((elapsed_ms + 30000) div 60000 + 1)"

definition elapsed_anchored :: "int \<Rightarrow> int \<Rightarrow> int" where
  "elapsed_anchored now_ms counted = now_ms - max 0 counted * 60000"

text \<open>
  The stored starts of events, by kind and agent; a key expires after a day, which is another client's
  deletion here.
\<close>

type_synonym starts = "(string \<times> string, int) dict"

definition elapsed_start :: "string \<Rightarrow> string \<Rightarrow> int \<Rightarrow> int \<Rightarrow> starts \<Rightarrow> int \<times> starts" where
  "elapsed_start kind name now_ms counted st =
    (case (if counted \<noteq> 0 then dget st (kind, name) else None) of
       Some found \<Rightarrow> (found, st)
     | None \<Rightarrow> let since = elapsed_anchored now_ms counted in (since, dset (kind, name) since st))"

definition elapsed_due :: "string \<Rightarrow> string \<Rightarrow> int \<Rightarrow> int \<Rightarrow> int \<Rightarrow> starts \<Rightarrow> bool" where
  "elapsed_due kind name now_ms counted limit_ms st =
    (if counted = 0 then False
     else elapsed_reached (now_ms - (case dget st (kind, name) of None \<Rightarrow> elapsed_anchored now_ms counted | Some found \<Rightarrow> found)) limit_ms)"

definition elapsed_hold :: "string \<Rightarrow> string \<Rightarrow> int \<Rightarrow> starts \<Rightarrow> starts" where
  "elapsed_hold kind name counted st = (if counted \<noteq> 0 then dpop (kind, name) st else st)"

section \<open>Ceilings\<close>

type_synonym lane_seats = "(string, int) dict"

definition lane_get :: "lane_seats \<Rightarrow> string \<Rightarrow> int" where
  "lane_get d lane = (case dget d lane of None \<Rightarrow> 0 | Some n \<Rightarrow> n)"

definition lane_sum :: "lane_seats \<Rightarrow> int" where
  "lane_sum d = sum_list (dvals d)"

fun seat_live :: "lane_seats \<Rightarrow> int \<Rightarrow> string list \<Rightarrow> lane_seats \<times> int" where
  "seat_live live room [] = ([], room)"
| "seat_live live room (lane # rest) =
    (let c = min room (lane_get live lane); (cs, left) = seat_live live (room - c) rest in ((lane, c) # cs, left))"

fun seat_demand :: "lane_seats \<Rightarrow> int \<Rightarrow> lane_seats \<Rightarrow> lane_seats \<times> int" where
  "seat_demand demand room [] = ([], room)"
| "seat_demand demand room ((lane, c) # rest) =
    (let added = min room (if lane_get demand lane \<noteq> 0 then 1 else 0); (cs, left) = seat_demand demand (room - added) rest
     in ((lane, c + added) # cs, left))"

definition bump_lane :: "string \<Rightarrow> lane_seats \<Rightarrow> lane_seats" where
  "bump_lane lane cs = map (\<lambda>(l, c). (l, if l = lane then c + 1 else c)) cs"

definition lane_gap :: "(string \<Rightarrow> int) \<Rightarrow> lane_seats \<Rightarrow> nat" where
  "lane_gap want cs = sum_list (map (\<lambda>(l, c). nat (want l - c)) cs)"

lemma bump_gap_le: "lane_gap want (bump_lane lane cs) \<le> lane_gap want cs"
proof (induction cs)
  case (Cons lc cs)
  obtain l c where lc: "lc = (l, c)" by fastforce
  have "nat (want l - (if l = lane then c + 1 else c)) \<le> nat (want l - c)" by (simp add: nat_mono)
  then show ?case using Cons.IH lc by (simp add: bump_lane_def lane_gap_def add_mono)
qed (simp add: bump_lane_def lane_gap_def)

lemma bump_gap:
  "(lane, c) \<in> set cs \<Longrightarrow> c < want lane \<Longrightarrow> lane_gap want (bump_lane lane cs) < lane_gap want cs"
proof (induction cs)
  case (Cons lc cs)
  obtain l c1 where lc: "lc = (l, c1)" by fastforce
  define d where "d = (if l = lane then c1 + 1 else c1)"
  have split: "lane_gap want (bump_lane lane (lc # cs)) = nat (want l - d) + lane_gap want (bump_lane lane cs)"
      "lane_gap want (lc # cs) = nat (want l - c1) + lane_gap want cs"
    by (simp_all add: lc bump_lane_def lane_gap_def d_def)
  show ?case
  proof (cases "(lane, c) = lc")
    case True
    then have "nat (want l - d) < nat (want l - c1)" using Cons.prems(2) lc d_def by auto
    then show ?thesis using split bump_gap_le[of want lane cs] by linarith
  next
    case False
    then have "(lane, c) \<in> set cs" using Cons.prems(1) by auto
    from Cons.IH[OF this Cons.prems(2)] show ?thesis using split d_def by (auto split: if_splits)
  qed
qed simp

text \<open>\<open>while room\<close>: the lane with the fewest seats among those with work left gets the next one.\<close>

function raise_ceilings :: "(string \<Rightarrow> int) \<Rightarrow> int \<Rightarrow> lane_seats \<Rightarrow> lane_seats" where
  "raise_ceilings want room cs =
    (let ready = filter (\<lambda>(l, c). c < want l) cs
     in if room = 0 \<or> ready = [] then cs
        else raise_ceilings want (room - 1) (bump_lane (fst (arg_min_list snd ready)) cs))"
  by auto

lemma ready_lane:
  assumes "filter (\<lambda>(l, c). c < want l) cs \<noteq> []"
  obtains l c where "arg_min_list snd (filter (\<lambda>(l, c). c < want l) cs) = (l, c)" "(l, c) \<in> set cs" "c < want l"
proof -
  obtain l c where lc: "arg_min_list snd (filter (\<lambda>(l, c). c < want l) cs) = (l, c)" by fastforce
  then have "(l, c) \<in> set (filter (\<lambda>(l, c). c < want l) cs)" using arg_min_list_in[OF assms, of snd] by simp
  then show thesis using that[OF lc] by auto
qed

termination raise_ceilings
proof (relation "measure (\<lambda>(want, room, cs). lane_gap want cs)", goal_cases)
  case (2 want room cs ready)
  then have ne: "filter (\<lambda>(l, c). c < want l) cs \<noteq> []" by blast
  obtain l c where lc: "arg_min_list snd (filter (\<lambda>(l, c). c < want l) cs) = (l, c)" "(l, c) \<in> set cs" "c < want l"
    using ready_lane[OF ne] .
  then show ?case using 2 bump_gap[of l c cs want] lc by simp
qed simp

declare raise_ceilings.simps [simp del]

definition scale_lanes :: "string list" where
  "scale_lanes = [''plan'', ''ci'', ''eng'']"

definition lane_ceilings :: "lane_seats \<Rightarrow> lane_seats \<Rightarrow> int \<Rightarrow> lane_seats" where
  "lane_ceilings live demand seats_total =
    (let (seated, room) = seat_live live seats_total scale_lanes; (asked, room') = seat_demand demand room seated
     in raise_ceilings (\<lambda>lane. lane_get live lane + lane_get demand lane) room' asked)"

section \<open>The decision\<close>

record pending_raise =
  pd_target :: "int option"
  pd_ticks :: int
  pd_since :: "int option"

record scale_decision =
  sd_ceilings :: lane_seats
  sd_pending :: pending_raise
  sd_reason :: string

definition join_text :: "string \<Rightarrow> string list \<Rightarrow> string" where
  "join_text sep parts = (case parts of [] \<Rightarrow> '''' | p # ps \<Rightarrow> foldl (\<lambda>acc q. acc @ sep @ q) p ps)"

definition no_raise :: pending_raise where
  "no_raise = \<lparr>pd_target = None, pd_ticks = 0, pd_since = None\<rparr>"

definition scale_target :: "lane_seats \<Rightarrow> lane_seats \<Rightarrow> int option \<Rightarrow> int" where
  "scale_target live free_seats host_room =
    (let seats = lane_sum free_seats
     in min 50 (lane_sum live + (case host_room of None \<Rightarrow> seats | Some room \<Rightarrow> min seats room)))"

definition scale_current :: "lane_seats \<Rightarrow> scale_decision option \<Rightarrow> int" where
  "scale_current live previous = (case previous of None \<Rightarrow> lane_sum live | Some d \<Rightarrow> lane_sum (sd_ceilings d))"

definition scale_prior :: "scale_decision option \<Rightarrow> pending_raise" where
  "scale_prior previous = (case previous of None \<Rightarrow> no_raise | Some d \<Rightarrow> sd_pending d)"

definition scale_since :: "pending_raise \<Rightarrow> int \<Rightarrow> int" where
  "scale_since prior now_ms =
    (if pd_ticks prior \<noteq> 0 then (case pd_since prior of None \<Rightarrow> elapsed_anchored now_ms (pd_ticks prior) | Some s \<Rightarrow> s) else now_ms)"

definition scale_held :: "pending_raise \<Rightarrow> int \<Rightarrow> bool" where
  "scale_held prior now_ms \<longleftrightarrow> \<not> elapsed_reached (now_ms - scale_since prior now_ms) 120000"

definition scale_total :: "lane_seats \<Rightarrow> lane_seats \<Rightarrow> int \<Rightarrow> int \<Rightarrow> bool \<Rightarrow> int" where
  "scale_total live demand target current held =
    (let seats_total = (if target > current then (if held then current else min target (current + 2)) else target)
     in max seats_total (min target (lane_sum live + sum_list (map (\<lambda>count. if count \<noteq> 0 then 1 else 0) (dvals demand)))))"

definition scale_pending :: "pending_raise \<Rightarrow> int \<Rightarrow> int \<Rightarrow> bool \<Rightarrow> int \<Rightarrow> pending_raise" where
  "scale_pending prior target current held now_ms =
    (if target > current \<and> (if held then current else min target (current + 2)) \<noteq> target
     then \<lparr>pd_target = Some target, pd_ticks = min (pd_ticks prior + 1) 3, pd_since = Some (scale_since prior now_ms)\<rparr>
     else no_raise)"

definition scale_reason ::
  "lane_seats \<Rightarrow> lane_seats \<Rightarrow> int option \<Rightarrow> lane_seats \<Rightarrow> int \<Rightarrow> int \<Rightarrow> bool \<Rightarrow> pending_raise \<Rightarrow> int \<Rightarrow> string" where
  "scale_reason live free_seats host_room demand target seats_total held pending allocated =
    (let harnesses = join_text '', '' (map (\<lambda>(harness, seats). harness @ '' '' @ show_int seats) (sort free_seats));
         host_text = (case host_room of None \<Rightarrow> ''unknown'' | Some room \<Rightarrow> show_int room);
         reason = ''Quota seats '' @ show_int (lane_sum free_seats) @ '' ('' @ harnesses @ ''); host room '' @ host_text @
           ''; ceiling '' @ show_int allocated @ '' of '' @ show_int target;
         ready = join_text '', '' (map (\<lambda>lane. lane @ '' '' @ show_int (lane_get demand lane)) [''eng'', ''ci'', ''plan''])
     in (if allocated < target \<and> allocated \<ge> lane_sum live + lane_sum demand then reason @ ''; capped by ready work '' @ ready
         else if target > seats_total
         then (if held then reason @ ''; raise held at tick '' @ show_int (pd_ticks pending) @ '' of 3''
               else reason @ ''; raise held by the two seat per tick limit'')
         else reason) @ ''.'')"

definition scale_calculate ::
  "lane_seats \<Rightarrow> lane_seats \<Rightarrow> int option \<Rightarrow> lane_seats \<Rightarrow> scale_decision option \<Rightarrow> int \<Rightarrow> scale_decision" where
  "scale_calculate live free_seats host_room demand previous now_ms =
    (let target = scale_target live free_seats host_room; current = scale_current live previous;
         prior = scale_prior previous; held = scale_held prior now_ms;
         pending = scale_pending prior target current held now_ms;
         seats_total = scale_total live demand target current held;
         ceilings = lane_ceilings live demand seats_total
     in \<lparr>sd_ceilings = ceilings, sd_pending = pending,
         sd_reason = scale_reason live free_seats host_room demand target seats_total held pending (lane_sum ceilings)\<rparr>)"

section \<open>What the ceilings promise\<close>

definition want_sum :: "(string \<Rightarrow> int) \<Rightarrow> lane_seats \<Rightarrow> int" where
  "want_sum want cs = sum_list (map want (dkeys cs))"

lemma seat_live_sound:
  "seat_live live room ls = (cs, left) \<Longrightarrow> 0 \<le> room \<Longrightarrow> (\<And>l. 0 \<le> lane_get live l) \<Longrightarrow>
   dkeys cs = ls \<and> 0 \<le> left \<and> lane_sum cs + left = room \<and> (\<forall>(l, c) \<in> set cs. 0 \<le> c \<and> c \<le> lane_get live l) \<and>
   (sum_list (map (lane_get live) ls) \<le> room \<longrightarrow> (\<forall>(l, c) \<in> set cs. c = lane_get live l))"
proof (induction live room ls arbitrary: cs left rule: seat_live.induct)
  case (1 live room)
  then show ?case by (simp add: lane_sum_def)
next
  case (2 live room lane rest)
  define c where "c = min room (lane_get live lane)"
  obtain cs1 left1 where r: "seat_live live (room - c) rest = (cs1, left1)" by fastforce
  have out: "cs = (lane, c) # cs1" "left = left1" using 2(2) r by (auto simp: c_def Let_def)
  have pos: "0 \<le> room - c" "0 \<le> c" "c \<le> lane_get live lane" using 2(3) 2(4)[of lane] by (auto simp: c_def)
  have ih: "dkeys cs1 = rest \<and> 0 \<le> left1 \<and> lane_sum cs1 + left1 = room - c \<and> (\<forall>(l, c) \<in> set cs1. 0 \<le> c \<and> c \<le> lane_get live l) \<and>
      (sum_list (map (lane_get live) rest) \<le> room - c \<longrightarrow> (\<forall>(l, c) \<in> set cs1. c = lane_get live l))"
    using 2(1)[OF c_def r pos(1) 2(4)] .
  have "sum_list (map (lane_get live) rest) \<ge> 0" using 2(4) by (intro sum_list_nonneg) auto
  then have "sum_list (map (lane_get live) (lane # rest)) \<le> room \<Longrightarrow> c = lane_get live lane" by (simp add: c_def)
  then show ?case using ih out pos by (auto simp: lane_sum_def)
qed

lemma seat_demand_sound:
  "seat_demand demand room cs = (cs', left) \<Longrightarrow> 0 \<le> room \<Longrightarrow> (\<And>l. 0 \<le> lane_get demand l) \<Longrightarrow>
   dkeys cs' = dkeys cs \<and> 0 \<le> left \<and> lane_sum cs' + left = lane_sum cs + room \<and>
   list_all2 (\<lambda>(l, c) (l', c'). c \<le> c' \<and> c' \<le> c + lane_get demand l) cs cs'"
proof (induction demand room cs arbitrary: cs' left rule: seat_demand.induct)
  case (1 demand room)
  then show ?case by simp
next
  case (2 demand room lane c rest)
  define added where "added = min room (if lane_get demand lane \<noteq> 0 then 1 else 0)"
  obtain cs1 left1 where r: "seat_demand demand (room - added) rest = (cs1, left1)" by fastforce
  have out: "cs' = (lane, c + added) # cs1" "left = left1" using 2(2) r by (auto simp: added_def Let_def)
  have pos: "0 \<le> room - added" "0 \<le> added" "added \<le> lane_get demand lane"
    using 2(3) 2(4)[of lane] by (auto simp: added_def min_def)
  have "dkeys cs1 = dkeys rest \<and> 0 \<le> left1 \<and> lane_sum cs1 + left1 = lane_sum rest + (room - added) \<and>
      list_all2 (\<lambda>(l, c) (l', c'). c \<le> c' \<and> c' \<le> c + lane_get demand l) rest cs1"
    using 2(1)[OF added_def r pos(1) 2(4)] .
  then show ?case using out pos by (simp add: lane_sum_def)
qed

lemma bump_lane_facts:
  "distinct (dkeys cs) \<Longrightarrow> (lane, c) \<in> set cs \<Longrightarrow> lane_sum (bump_lane lane cs) = lane_sum cs + 1"
  "dkeys (bump_lane lane cs) = dkeys cs"
proof (induction cs)
  case (Cons lc cs)
  obtain l c1 where lc: "lc = (l, c1)" by fastforce
  have same: "lane \<notin> set (dkeys cs) \<Longrightarrow> lane_sum (bump_lane lane cs) = lane_sum cs"
    by (induction cs) (auto simp: bump_lane_def lane_sum_def)
  {
    case 1
    show ?case
    proof (cases "l = lane")
      case True
      then show ?thesis using 1 same lc by (auto simp: bump_lane_def lane_sum_def)
    next
      case False
      then have "lane_sum (bump_lane lane cs) = lane_sum cs + 1" using 1 Cons.IH(1) lc by auto
      then show ?thesis using False lc by (simp add: bump_lane_def lane_sum_def)
    qed
  next
    case 2
    show ?case by (simp add: bump_lane_def split_beta comp_def)
  }
qed (simp_all add: bump_lane_def)

text \<open>The loop ends with no room or with no work left, and hands out every seat it takes.\<close>

lemma raise_ceilings_sound:
  assumes "distinct (dkeys cs)" and "0 \<le> room" and "\<forall>(l, c) \<in> set cs. c \<le> want l"
  shows "dkeys (raise_ceilings want room cs) = dkeys cs \<and>
    lane_sum (raise_ceilings want room cs) = min (lane_sum cs + room) (want_sum want cs) \<and>
    (\<forall>(l, c) \<in> set (raise_ceilings want room cs). c \<le> want l) \<and>
    (\<forall>(l, c) \<in> set cs. \<exists>c'. (l, c') \<in> set (raise_ceilings want room cs) \<and> c \<le> c')"
  using assms
proof (induction want room cs rule: raise_ceilings.induct)
  case (1 want room cs)
  define ready where "ready = filter (\<lambda>(l, c). c < want l) cs"
  have le: "lane_sum d \<le> want_sum want d" if "\<forall>(l, c) \<in> set d. c \<le> want l" for d
    using that by (induction d) (auto simp: lane_sum_def want_sum_def)
  have full: "lane_sum d = want_sum want d" if "\<forall>(l, c) \<in> set d. c = want l" for d
    using that by (induction d) (auto simp: lane_sum_def want_sum_def)
  show ?case
  proof (cases "room = 0 \<or> ready = []")
    case True
    then have out: "raise_ceilings want room cs = cs" by (simp add: raise_ceilings.simps[of want room cs] ready_def Let_def)
    have "lane_sum cs = min (lane_sum cs + room) (want_sum want cs)"
    proof (cases "room = 0")
      case False
      then have "\<forall>(l, c) \<in> set cs. c = want l" using True 1(4) by (fastforce simp: ready_def filter_empty_conv)
      then show ?thesis using full[of cs] 1(3) by simp
    qed (use le[OF 1(4)] in simp)
    then show ?thesis using out 1(4) by auto
  next
    case False
    obtain l c where lc: "arg_min_list snd ready = (l, c)" "(l, c) \<in> set cs" "c < want l"
      using ready_lane[of want cs] False unfolding ready_def by blast
    define next_cs where "next_cs = bump_lane l cs"
    have step: "raise_ceilings want room cs = raise_ceilings want (room - 1) next_cs"
      using False lc(1) by (simp add: raise_ceilings.simps[of want room cs] ready_def Let_def next_cs_def)
    have sum: "lane_sum next_cs = lane_sum cs + 1" and keys: "dkeys next_cs = dkeys cs"
      using bump_lane_facts(1)[OF 1(2) lc(2)] bump_lane_facts(2) by (simp_all add: next_cs_def)
    have c_only: "c1 = c" if "(l, c1) \<in> set cs" for c1 using that lc(2) 1(2) by (metis eq_key_imp_eq_value)
    have bound: "\<forall>(l1, c1) \<in> set next_cs. c1 \<le> want l1" using 1(4) lc(3) c_only unfolding next_cs_def bump_lane_def by fastforce
    have grow: "\<forall>(l1, c1) \<in> set cs. \<exists>c2. (l1, c2) \<in> set next_cs \<and> c1 \<le> c2"
      unfolding next_cs_def bump_lane_def by force
    have wants: "want_sum want next_cs = want_sum want cs" using keys by (simp add: want_sum_def)
    have ih: "dkeys (raise_ceilings want (room - 1) next_cs) = dkeys next_cs \<and>
        lane_sum (raise_ceilings want (room - 1) next_cs) = min (lane_sum next_cs + (room - 1)) (want_sum want next_cs) \<and>
        (\<forall>(l, c) \<in> set (raise_ceilings want (room - 1) next_cs). c \<le> want l) \<and>
        (\<forall>(l, c) \<in> set next_cs. \<exists>c'. (l, c') \<in> set (raise_ceilings want (room - 1) next_cs) \<and> c \<le> c')"
    proof -
      have "distinct (dkeys next_cs)" "0 \<le> room - 1" using keys 1(2,3) False by auto
      moreover have "\<not> (room = 0 \<or> ready = [])" using False .
      ultimately show ?thesis using 1(1)[of ready] bound lc(1) unfolding next_cs_def ready_def by simp
    qed
    have "\<forall>(l1, c1) \<in> set cs. \<exists>c2. (l1, c2) \<in> set (raise_ceilings want (room - 1) next_cs) \<and> c1 \<le> c2"
      using grow ih by (fastforce dest: bspec)
    then show ?thesis using ih step sum keys wants by simp
  qed
qed


definition seats_ok :: "lane_seats \<Rightarrow> bool" where
  "seats_ok d \<longleftrightarrow> list_all (\<lambda>n. 0 \<le> n) (dvals d)"

lemma counts_get: "seats_ok d \<Longrightarrow> 0 \<le> lane_get d l"
  by (force simp: seats_ok_def lane_get_def list_all_iff dest: map_of_SomeD split: option.splits)

lemma counts_sum: "seats_ok d \<Longrightarrow> 0 \<le> lane_sum d"
  unfolding seats_ok_def lane_sum_def by (rule sum_list_nonneg) (auto simp: list_all_iff)

definition lane_want :: "lane_seats \<Rightarrow> lane_seats \<Rightarrow> string \<Rightarrow> int" where
  "lane_want live demand lane = lane_get live lane + lane_get demand lane"

definition all_work :: "lane_seats \<Rightarrow> lane_seats \<Rightarrow> int" where
  "all_work live demand = sum_list (map (lane_want live demand) scale_lanes)"

text \<open>
  The lanes share out exactly the seats there are, or the work there is. No lane gets more than its
  live agents and its ready work, and while the live agents fit, no lane gets fewer seats than it has
  live agents.
\<close>

theorem lane_ceilings_exact:
  assumes "0 \<le> seats" and "seats_ok live" and "seats_ok demand"
  shows "lane_sum (lane_ceilings live demand seats) = min seats (all_work live demand) \<and>
    dkeys (lane_ceilings live demand seats) = [''plan'', ''ci'', ''eng''] \<and>
    (\<forall>(lane, c) \<in> set (lane_ceilings live demand seats). c \<le> lane_want live demand lane \<and>
      (sum_list (map (lane_get live) scale_lanes) \<le> seats \<longrightarrow> lane_get live lane \<le> c))"
proof -
  obtain cs room where a: "seat_live live seats scale_lanes = (cs, room)" by fastforce
  obtain cs' room' where b: "seat_demand demand room cs = (cs', room')" by fastforce
  have want: "(\<lambda>lane. lane_get live lane + lane_get demand lane) = lane_want live demand" by (simp add: lane_want_def fun_eq_iff)
  have out: "lane_ceilings live demand seats = raise_ceilings (lane_want live demand) room' cs'"
    using a b by (simp add: lane_ceilings_def want)
  have A: "dkeys cs = scale_lanes" "0 \<le> room" "lane_sum cs + room = seats" "\<forall>(l, c) \<in> set cs. 0 \<le> c \<and> c \<le> lane_get live l"
    "sum_list (map (lane_get live) scale_lanes) \<le> seats \<longrightarrow> (\<forall>(l, c) \<in> set cs. c = lane_get live l)"
    using seat_live_sound[OF a assms(1) counts_get[OF assms(2)]] by auto
  have B: "dkeys cs' = dkeys cs" "0 \<le> room'" "lane_sum cs' + room' = lane_sum cs + room"
    and rel: "list_all2 (\<lambda>(l, c) (l', c'). c \<le> c' \<and> c' \<le> c + lane_get demand l) cs cs'"
    using seat_demand_sound[OF b A(2) counts_get[OF assms(3)]] by auto
  have d: "distinct (dkeys cs')" using A(1) B(1) by (simp add: scale_lanes_def)
  have at: "\<exists>c. (l, c) \<in> set cs \<and> c \<le> c' \<and> c' \<le> c + lane_get demand l" if mem: "(l, c') \<in> set cs'" for l c'
  proof -
    obtain i where i: "i < length cs'" "cs' ! i = (l, c')" using mem by (auto simp: in_set_conv_nth)
    then have i': "i < length cs" using rel by (simp add: list_all2_lengthD)
    moreover have "fst (cs ! i) = l" using B(1) i i' by (metis fst_conv nth_map)
    ultimately show ?thesis using list_all2_nthD[OF rel i'] i(2) nth_mem[OF i'] by (cases "cs ! i") auto
  qed
  have le: "\<forall>(l, c) \<in> set cs'. c \<le> lane_want live demand l"
    using at A(4) by (fastforce simp: lane_want_def)
  note R = raise_ceilings_sound[OF d B(2) le]
  have "want_sum (lane_want live demand) cs' = all_work live demand" using A(1) B(1) by (simp add: want_sum_def all_work_def)
  moreover have "lane_sum cs' + room' = seats" using A(3) B(3) by simp
  moreover have keep: "lane_get live lane \<le> c"
    if fits: "sum_list (map (lane_get live) scale_lanes) \<le> seats" and c: "(lane, c) \<in> set (raise_ceilings (lane_want live demand) room' cs')" for lane c
  proof -
    have keys: "dkeys (raise_ceilings (lane_want live demand) room' cs') = dkeys cs'" using R by blast
    have "lane \<in> set (dkeys (raise_ceilings (lane_want live demand) room' cs'))" using c by force
    then obtain c' where c': "(lane, c') \<in> set cs'" unfolding keys by auto
    then have low: "lane_get live lane \<le> c'" using at[OF c'] A(5) fits by fastforce
    obtain c2 where c2: "(lane, c2) \<in> set (raise_ceilings (lane_want live demand) room' cs')" "c' \<le> c2" using R c' by fastforce
    have "c2 = c" by (rule eq_key_imp_eq_value[OF _ c2(1) c]) (simp add: keys d)
    then show ?thesis using low c2(2) by simp
  qed
  ultimately show ?thesis using R A(1) B(1) unfolding out by (auto simp: scale_lanes_def)
qed

lemma lane_ceilings_exact_witness:
  "lane_sum (lane_ceilings [(''eng'', 2)] [(''ci'', 1), (''eng'', 4)] 5) = 5"
  using lane_ceilings_exact[of 5 "[(''eng'', 2)]" "[(''ci'', 1), (''eng'', 4)]"]
  by (simp add: seats_ok_def all_work_def scale_lanes_def lane_want_def lane_get_def)

lemma scale_total_bounds:
  assumes "0 \<le> target" and "seats_ok live"
  shows "0 \<le> scale_total live demand target current held" and "scale_total live demand target current held \<le> target"
proof -
  have "0 \<le> sum_list (map (\<lambda>count. if count \<noteq> 0 then 1 else 0 :: int) (dvals demand))" by (rule sum_list_nonneg) auto
  then show "0 \<le> scale_total live demand target current held" using assms(1) counts_sum[OF assms(2)]
    by (simp add: scale_total_def Let_def max_def min_def)
  show "scale_total live demand target current held \<le> target" by (simp add: scale_total_def Let_def)
qed

lemma scale_target_nonneg:
  "seats_ok live \<Longrightarrow> seats_ok free_seats \<Longrightarrow> (case host_room of None \<Rightarrow> True | Some room \<Rightarrow> 0 \<le> room) \<Longrightarrow>
   0 \<le> scale_target live free_seats host_room"
  using counts_sum[of live] counts_sum[of free_seats] by (auto simp: scale_target_def Let_def split: option.splits)

text \<open>
  A decision never opens more seats than the free seats, the host and the bound of fifty allow
  beside the live agents, and at most two more than the pass before it, unless live agents and lanes
  with ready work need them.
\<close>

theorem scale_within_target:
  assumes "seats_ok live" and "seats_ok demand" and "seats_ok free_seats" and "case host_room of None \<Rightarrow> True | Some room \<Rightarrow> 0 \<le> room"
  shows "lane_sum (sd_ceilings (scale_calculate live free_seats host_room demand previous now_ms)) \<le> scale_target live free_seats host_room \<and>
    scale_target live free_seats host_room \<le> 50 \<and>
    lane_sum (sd_ceilings (scale_calculate live free_seats host_room demand previous now_ms)) \<le>
      max (scale_current live previous + 2) (lane_sum live + sum_list (map (\<lambda>count. if count \<noteq> 0 then 1 else 0) (dvals demand)))"
proof -
  define target where "target = scale_target live free_seats host_room"
  define seats where "seats = scale_total live demand target (scale_current live previous) (scale_held (scale_prior previous) now_ms)"
  have "0 \<le> target" unfolding target_def by (rule scale_target_nonneg[OF assms(1,3,4)])
  then have b: "0 \<le> seats" "seats \<le> target" unfolding seats_def using scale_total_bounds[OF _ assms(1)] by auto
  have "sd_ceilings (scale_calculate live free_seats host_room demand previous now_ms) = lane_ceilings live demand seats"
    by (simp add: scale_calculate_def Let_def seats_def target_def)
  then have "lane_sum (sd_ceilings (scale_calculate live free_seats host_room demand previous now_ms)) \<le> seats"
    using lane_ceilings_exact[OF b(1) assms(1,2)] by simp
  moreover have "seats \<le> max (scale_current live previous + 2) (lane_sum live + sum_list (map (\<lambda>count. if count \<noteq> 0 then 1 else 0) (dvals demand)))"
    unfolding seats_def scale_total_def Let_def by auto
  moreover have "target \<le> 50" by (simp add: target_def scale_target_def Let_def)
  ultimately show ?thesis using b(2) target_def by linarith
qed

lemma scale_within_target_witness:
  "lane_sum (sd_ceilings (scale_calculate [(''eng'', 2)] [(''claude'', 3)] None [(''eng'', 4)] None 0)) \<le> 5"
  using scale_within_target[of "[(''eng'', 2)]" "[(''eng'', 4)]" "[(''claude'', 3)]" None None 0]
  by (simp add: seats_ok_def scale_target_def lane_sum_def)

section \<open>Raises settle\<close>

text \<open>The seats a swarm ends up with: all the target allows, or all the work there is.\<close>

definition scale_goal :: "lane_seats \<Rightarrow> lane_seats \<Rightarrow> int option \<Rightarrow> lane_seats \<Rightarrow> int" where
  "scale_goal live free_seats host_room demand = min (scale_target live free_seats host_room) (all_work live demand)"

definition raising :: "int \<Rightarrow> int \<Rightarrow> scale_decision \<Rightarrow> bool" where
  "raising goal since d \<longleftrightarrow> lane_sum (sd_ceilings d) = goal \<or>
    (lane_sum (sd_ceilings d) \<le> goal \<and> 0 < pd_ticks (sd_pending d) \<and> pd_since (sd_pending d) = Some since)"

lemma calculate_seats:
  assumes "seats_ok live" "seats_ok demand" "seats_ok free_seats" "case host_room of None \<Rightarrow> True | Some room \<Rightarrow> 0 \<le> room"
  shows "lane_sum (sd_ceilings (scale_calculate live free_seats host_room demand (Some d) now_ms)) =
    min (scale_total live demand (scale_target live free_seats host_room) (lane_sum (sd_ceilings d)) (scale_held (sd_pending d) now_ms))
      (all_work live demand)"
proof -
  have "0 \<le> scale_target live free_seats host_room" by (rule scale_target_nonneg[OF assms(1,3,4)])
  from scale_total_bounds(1)[OF this assms(1)] show ?thesis
    using lane_ceilings_exact[OF _ assms(1,2)] by (simp add: scale_calculate_def Let_def scale_current_def scale_prior_def)
qed

lemma raising_step:
  assumes ok: "seats_ok live" "seats_ok demand" "seats_ok free_seats" "case host_room of None \<Rightarrow> True | Some room \<Rightarrow> 0 \<le> room"
    and "raising (scale_goal live free_seats host_room demand) since d"
  shows "raising (scale_goal live free_seats host_room demand) since (scale_calculate live free_seats host_room demand (Some d) now_ms) \<and>
    min (scale_goal live free_seats host_room demand) (lane_sum (sd_ceilings d) + (if since + 90000 \<le> now_ms then 2 else 0)) \<le>
      lane_sum (sd_ceilings (scale_calculate live free_seats host_room demand (Some d) now_ms))"
proof -
  define target where "target = scale_target live free_seats host_room"
  define goal where "goal = scale_goal live free_seats host_room demand"
  define x where "x = lane_sum (sd_ceilings d)"
  define d' where "d' = scale_calculate live free_seats host_room demand (Some d) now_ms"
  define held where "held = scale_held (sd_pending d) now_ms"
  define more where "more = (if since + 90000 \<le> now_ms then 2 else 0 :: int)"
  have x': "lane_sum (sd_ceilings d') = min (scale_total live demand target x held) (all_work live demand)"
    unfolding d'_def target_def x_def held_def by (rule calculate_seats[OF ok])
  have goal: "goal = min target (all_work live demand)" by (simp add: goal_def scale_goal_def target_def)
  have up: "x \<le> target \<Longrightarrow> x \<le> scale_total live demand target x held"
    "target \<le> x \<Longrightarrow> scale_total live demand target x held = target"
    by (auto simp: scale_total_def Let_def)
  show ?thesis
  proof (cases "x = goal")
    case True
    then have "lane_sum (sd_ceilings d') = goal"
      using x' up goal by (cases "target \<le> x") (auto simp: min_def scale_total_def Let_def)
    then show ?thesis unfolding goal_def[symmetric] d'_def[symmetric] x_def[symmetric] by (simp add: raising_def)
  next
    case False
    then have pend: "x < goal" "0 < pd_ticks (sd_pending d)" "pd_since (sd_pending d) = Some since"
      using assms(5) unfolding raising_def goal_def[symmetric] x_def[symmetric] by auto
    then have open_now: "held \<longleftrightarrow> more = 0" "scale_since (sd_pending d) now_ms = since" "x < target"
      using goal by (auto simp: held_def scale_held_def scale_since_def elapsed_reached_def more_def)
    have "min target (x + more) \<le> scale_total live demand target x held"
      using open_now by (auto simp: scale_total_def Let_def more_def)
    then have ge: "min goal (x + more) \<le> lane_sum (sd_ceilings d')" using x' goal by (auto simp: min_def split: if_splits)
    have "scale_total live demand target x held \<le> target" by (simp add: scale_total_def Let_def)
    then have le: "lane_sum (sd_ceilings d') \<le> goal" using x' goal by simp
    have "raising goal since d'"
    proof (cases "\<not> held \<and> min target (x + 2) = target")
      case True
      then have "goal \<le> min goal (x + more)" using goal open_now(1) by (auto simp: min_def more_def split: if_splits)
      then show ?thesis using ge le by (simp add: raising_def)
    next
      case False
      then have "sd_pending d' = \<lparr>pd_target = Some target, pd_ticks = min (pd_ticks (sd_pending d) + 1) 3, pd_since = Some since\<rparr>"
        using open_now unfolding d'_def scale_calculate_def Let_def
        by (auto simp: scale_pending_def scale_prior_def scale_current_def x_def[symmetric] target_def[symmetric] held_def[symmetric])
      then show ?thesis using le pend(2) by (simp add: raising_def)
    qed
    then show ?thesis using ge unfolding goal_def[symmetric] d'_def[symmetric] x_def[symmetric] more_def by simp
  qed
qed

lemma raising_run:
  assumes ok: "seats_ok live" "seats_ok demand" "seats_ok free_seats" "case host_room of None \<Rightarrow> True | Some room \<Rightarrow> 0 \<le> room"
    and "raising (scale_goal live free_seats host_room demand) since d"
  shows "raising (scale_goal live free_seats host_room demand) since
      (foldl (\<lambda>d t. scale_calculate live free_seats host_room demand (Some d) t) d ticks) \<and>
    min (scale_goal live free_seats host_room demand) (lane_sum (sd_ceilings d) + 2 * int (length (filter (\<lambda>t. since + 90000 \<le> t) ticks))) \<le>
      lane_sum (sd_ceilings (foldl (\<lambda>d t. scale_calculate live free_seats host_room demand (Some d) t) d ticks))"
  using assms(5)
proof (induction ticks arbitrary: d)
  case Nil
  then show ?case by simp
next
  case (Cons t ticks)
  define d1 where "d1 = scale_calculate live free_seats host_room demand (Some d) t"
  have s: "raising (scale_goal live free_seats host_room demand) since d1"
    "min (scale_goal live free_seats host_room demand) (lane_sum (sd_ceilings d) + (if since + 90000 \<le> t then 2 else 0)) \<le> lane_sum (sd_ceilings d1)"
    using raising_step[OF ok Cons.prems(1), of t] by (auto simp: d1_def)
  from Cons.IH[OF s(1)] s(2) show ?case by (auto simp: d1_def min_def split: if_splits)
qed

text \<open>
  The decisions a swarm keeps: none before its first pass, then the one of each pass, under whatever
  inputs it had, on a clock that does not go back.
\<close>

inductive scaled_at :: "int \<Rightarrow> scale_decision option \<Rightarrow> bool" where
  scaled_first: "scaled_at now None"
| scaled_pass: "scaled_at earlier previous \<Longrightarrow> earlier \<le> now \<Longrightarrow>
    scaled_at now (Some (scale_calculate live free_seats host_room demand previous now))"

text \<open>A pending raise began no later than the pass that finds it.\<close>

lemma scaled_pending:
  "scaled_at t previous \<Longrightarrow> t \<le> now \<Longrightarrow> 0 \<le> pd_ticks (scale_prior previous) \<and> scale_since (scale_prior previous) now \<le> now \<and>
     (\<forall>since. pd_since (scale_prior previous) = Some since \<longrightarrow> since \<le> now)"
proof (induction arbitrary: now rule: scaled_at.induct)
  case (scaled_first t)
  then show ?case by (simp add: scale_prior_def no_raise_def scale_since_def)
next
  case (scaled_pass earlier previous t live free_seats host_room demand)
  from scaled_pass.IH[OF scaled_pass.hyps(2)] scaled_pass.prems show ?case
    by (auto simp: scale_calculate_def Let_def scale_prior_def[of "Some _"] scale_pending_def no_raise_def scale_since_def)
qed

text \<open>
  C33: a raise settles. While the live agents, the work, the free seats and the host stay the same, a
  swarm whose passes go on reaches all the seats the target and the work allow: by the twenty fifth
  pass that comes ninety seconds or more after the first of them, whatever decision it started from,
  whatever raise was pending, and however many passes come sooner. With a pass a minute that is the
  twenty seventh.
\<close>

theorem raise_settles:
  assumes "seats_ok live" and "seats_ok demand" and "seats_ok free_seats" and "case host_room of None \<Rightarrow> True | Some room \<Rightarrow> 0 \<le> room"
    and "scaled_at t previous" and "t \<le> first" and "25 \<le> length (filter (\<lambda>now. first + 90000 \<le> now) ticks)"
  shows "lane_sum (sd_ceilings (foldl (\<lambda>d now. scale_calculate live free_seats host_room demand (Some d) now)
      (scale_calculate live free_seats host_room demand previous first) ticks)) = scale_goal live free_seats host_room demand"
proof -
  define target where "target = scale_target live free_seats host_room"
  define goal where "goal = scale_goal live free_seats host_room demand"
  define d1 where "d1 = scale_calculate live free_seats host_room demand previous first"
  define x where "x = scale_current live previous"
  define held where "held = scale_held (scale_prior previous) first"
  define since where "since = scale_since (scale_prior previous) first"
  have prior: "0 \<le> pd_ticks (scale_prior previous)" "since \<le> first" using scaled_pending[OF assms(5,6)] by (auto simp: since_def)
  have goal: "goal = min target (all_work live demand)" "goal \<le> 50"
    by (auto simp: goal_def scale_goal_def target_def scale_target_def Let_def)
  have "0 \<le> target" unfolding target_def by (rule scale_target_nonneg[OF assms(1,3,4)])
  then have bounds: "0 \<le> scale_total live demand target x held" "scale_total live demand target x held \<le> target"
    using scale_total_bounds[OF _ assms(1)] by auto
  have x1: "lane_sum (sd_ceilings d1) = min (scale_total live demand target x held) (all_work live demand)"
    using lane_ceilings_exact[OF bounds(1) assms(1,2)]
    by (simp add: d1_def scale_calculate_def Let_def target_def x_def held_def)
  have "0 \<le> all_work live demand" unfolding all_work_def
    by (rule sum_list_nonneg) (auto simp: lane_want_def intro!: add_nonneg_nonneg counts_get assms)
  then have nonneg: "0 \<le> lane_sum (sd_ceilings d1)" using x1 bounds by simp
  have "raising goal since d1"
  proof (cases "target \<le> x \<or> (\<not> held \<and> min target (x + 2) = target)")
    case True
    then have "scale_total live demand target x held = target" by (auto simp: scale_total_def Let_def)
    then show ?thesis using x1 goal by (simp add: raising_def)
  next
    case False
    then have "sd_pending d1 = \<lparr>pd_target = Some target, pd_ticks = min (pd_ticks (scale_prior previous) + 1) 3, pd_since = Some since\<rparr>"
      unfolding d1_def scale_calculate_def Let_def
      by (auto simp: scale_pending_def x_def[symmetric] target_def[symmetric] since_def[symmetric] held_def[symmetric])
    moreover have "lane_sum (sd_ceilings d1) \<le> goal" using x1 goal bounds by simp
    ultimately show ?thesis using prior by (simp add: raising_def)
  qed
  from raising_run[OF assms(1-4) this[unfolded goal_def], of ticks]
  have run: "raising goal since (foldl (\<lambda>d t. scale_calculate live free_seats host_room demand (Some d) t) d1 ticks)"
    "min goal (lane_sum (sd_ceilings d1) + 2 * int (length (filter (\<lambda>t. since + 90000 \<le> t) ticks))) \<le>
      lane_sum (sd_ceilings (foldl (\<lambda>d t. scale_calculate live free_seats host_room demand (Some d) t) d1 ticks))"
    unfolding goal_def by auto
  have "length (filter (\<lambda>t. first + 90000 \<le> t) ticks) \<le> length (filter (\<lambda>t. since + 90000 \<le> t) ticks)"
    using prior(2) by (induction ticks) auto
  then have "goal \<le> lane_sum (sd_ceilings d1) + 2 * int (length (filter (\<lambda>t. since + 90000 \<le> t) ticks))"
    using goal(2) nonneg assms(7) by linarith
  then show ?thesis using run unfolding raising_def goal_def[symmetric] by (auto simp: d1_def[symmetric])
qed

lemma raise_settles_witness:
  "lane_sum (sd_ceilings (foldl (\<lambda>d now. scale_calculate [(''eng'', 2)] [(''claude'', 9)] None [(''eng'', 8)] (Some d) now)
     (scale_calculate [(''eng'', 2)] [(''claude'', 9)] None [(''eng'', 8)] None 0) (map (\<lambda>n. 60000 * int n) [1..<27]))) = 10"
proof -
  have "25 \<le> length (filter (\<lambda>now. 0 + 90000 \<le> now) (map (\<lambda>n. 60000 * int n) [1..<27]))" by (simp add: upt_conv_Cons)
  from raise_settles[OF _ _ _ _ scaled_first order_refl this, of "[(''eng'', 2)]" "[(''eng'', 8)]" "[(''claude'', 9)]" None]
  show ?thesis
    by (simp add: seats_ok_def lane_sum_def scale_goal_def scale_target_def all_work_def scale_lanes_def lane_want_def lane_get_def)
qed

end
