(* ===== verification/Outcomes.thy ===== *)
theory Outcomes
  imports Authority_Laws
begin

text \<open>
  Task outcomes (\<open>scripts/swarm_v2/outcomes.py\<close>): a worker proposes a pull request as the outcome of
  its claim, the controller integrates it through the provider at most once and reads back what the
  provider did. An outcome is the result of the task's claim, written through the task authority. The
  ledger's reading of a task, its revision digest, the operation's identity (\<open>uuid5\<close>), the check of a
  proof and the provider are parameters; the counter of conflicts and the completion in the ledger
  (\<open>complete\<close> and its gate) are not modelled.
\<close>

section \<open>Proposals\<close>

record proposal =
  pp_task_id :: string
  pp_generation :: int
  pp_task_revision :: string
  pp_pr_url :: string
  pp_head_sha :: string
  pp_proof :: jdict

record pull_request =
  pu_url :: string
  pu_identity :: string
  pu_head_sha :: string
  pu_base :: string
  pu_state :: string
  pu_queue_id :: string
  pu_merge_sha :: string

text \<open>\<open>asdict(proposal)\<close>, in canonical key order, and \<open>Proposal(**fields)\<close>.\<close>

definition proposal_json :: "proposal \<Rightarrow> json" where
  "proposal_json p = JObj [(''generation'', JInt (pp_generation p)), (''head_sha'', JStr (pp_head_sha p)),
     (''pr_url'', JStr (pp_pr_url p)), (''proof'', JObj (pp_proof p)), (''task_id'', JStr (pp_task_id p)),
     (''task_revision'', JStr (pp_task_revision p))]"

definition proposal_of :: "json \<Rightarrow> fault + proposal" where
  "proposal_of v =
    (case v of
       JObj [(k1, JInt generation), (k2, JStr head), (k3, JStr url), (k4, JObj proof), (k5, JStr task), (k6, JStr rvn)] \<Rightarrow>
         if [k1, k2, k3, k4, k5, k6] = [''generation'', ''head_sha'', ''pr_url'', ''proof'', ''task_id'', ''task_revision'']
         then Inr \<lparr>pp_task_id = task, pp_generation = generation, pp_task_revision = rvn, pp_pr_url = url,
                   pp_head_sha = head, pp_proof = proof\<rparr>
         else Inl Type_Error
     | _ \<Rightarrow> Inl Type_Error)"

text \<open>What the outcomes of a swarm rely on.\<close>

record outcome_ctx =
  oz_slug :: string
  oz_read_task :: "string \<Rightarrow> fault + jdict"
  oz_revision :: "json \<Rightarrow> string"
  oz_operation_id :: "string \<Rightarrow> string"
  oz_verify_proof :: "jdict \<Rightarrow> bool"

definition outcome_conflict :: "fault + 'a" where
  "outcome_conflict = claim_refused ''outcome_conflict''"

definition validate_proposal :: "outcome_ctx \<Rightarrow> proposal \<Rightarrow> pull_request \<Rightarrow> fault + unit" where
  "validate_proposal oz p pull =
    and_then (oz_read_task oz (pp_task_id p)) (\<lambda>task.
      if jget task ''id'' \<noteq> JStr (pp_task_id p) \<or> oz_revision oz (JObj task) \<noteq> pp_task_revision p then outcome_conflict
      else if jget task ''pr_url'' \<noteq> JStr (pp_pr_url p) \<or> pu_url pull \<noteq> pp_pr_url p \<or> pu_head_sha pull \<noteq> pp_head_sha p \<or>
        pu_base pull \<noteq> ''dev'' \<or> pu_identity pull = '''' then outcome_conflict
      else if \<not> truthy (jget (pp_proof p) ''artifact'') \<or> \<not> truthy (jget (pp_proof p) ''run'') \<or>
        jget (pp_proof p) ''sha'' \<noteq> JStr (pp_head_sha p) \<or> \<not> oz_verify_proof oz (pp_proof p)
      then claim_refused ''required proof artifacts are absent or unverified''
      else Inr ())"

section \<open>Proposing\<close>

definition fresh_outcome :: "outcome_ctx \<Rightarrow> proposal \<Rightarrow> pull_request \<Rightarrow> jdict" where
  "fresh_outcome oz p pull =
    [(''operation_id'', JStr (oz_operation_id oz (oz_revision oz (JList [JStr (oz_slug oz), JStr (pp_task_id p),
        JInt (pp_generation p), JStr (pu_identity pull), JStr (pu_head_sha pull)])))),
     (''phase'', JStr ''accepted''), (''proposal'', proposal_json p), (''provider_id'', JStr (pu_identity pull))]"

definition json_sub :: "json \<Rightarrow> string \<Rightarrow> json" where
  "json_sub v k = (case v of JObj d \<Rightarrow> jget d k | _ \<Rightarrow> JNull)"

text \<open>The operations the journal of a task has seen, each with its last result.\<close>

definition journal_operations :: "journal_entry list \<Rightarrow> (json \<times> jdict) list" where
  "journal_operations rows =
    foldl (\<lambda>ops (event, claim). let prior = tc_result claim
       in if truthy (jget prior ''operation_id'') then dset (jget prior ''operation_id'') prior ops else ops) [] rows"

definition dispatched :: "jdict \<Rightarrow> bool" where
  "dispatched prior \<longleftrightarrow> jget prior ''phase'' \<in> {JStr ''unknown'', JStr ''committed'', JStr ''externally_verified''}"

definition same_change :: "jdict \<Rightarrow> jdict \<Rightarrow> bool" where
  "same_change prior outcome \<longleftrightarrow>
    jget prior ''provider_id'' = jget outcome ''provider_id'' \<and>
    json_sub (jget prior ''proposal'') ''head_sha'' = json_sub (jget outcome ''proposal'') ''head_sha'' \<and>
    json_sub (jget prior ''proposal'') ''pr_url'' = json_sub (jget outcome ''proposal'') ''pr_url''"

fun inherit_outcome :: "jdict list \<Rightarrow> jdict \<Rightarrow> fault + jdict" where
  "inherit_outcome [] outcome = Inr outcome"
| "inherit_outcome (prior # rest) outcome =
    (if \<not> dispatched prior then inherit_outcome rest outcome
     else if \<not> same_change prior outcome then outcome_conflict
     else inherit_outcome rest (jset ''proposal'' (jget outcome ''proposal'') prior))"

definition outcome_accept :: "outcome_ctx \<Rightarrow> proposal \<Rightarrow> pull_request \<Rightarrow> claim_action" where
  "outcome_accept oz p pull clk doc w scope previous =
    (if rg_task_id scope \<noteq> pp_task_id p then claim_refused ''forbidden_scope''
     else and_then (claim_holder (clk 0) scope (pp_generation p) previous) (\<lambda>held.
       and_then (validate_proposal oz p pull) (\<lambda>_.
         if tc_result held \<noteq> []
         then (if jget (tc_result held) ''proposal'' \<noteq> proposal_json p then outcome_conflict else Inr held)
         else and_then (inherit_outcome (dvals (journal_operations (journal_of doc (pp_task_id p)))) (fresh_outcome oz p pull))
                (\<lambda>outcome. Inr (held\<lparr>tc_result := outcome\<rparr>)))))"

section \<open>Integrating\<close>

definition outcome_update :: "outcome_ctx \<Rightarrow> int \<Rightarrow> pull_request \<Rightarrow> (jdict \<Rightarrow> fault + jdict) \<Rightarrow> claim_action" where
  "outcome_update oz generation pull change clk doc w scope previous =
    and_then (case previous of
        Some p \<Rightarrow> and_then (claim_identity scope generation previous) (\<lambda>_.
          if tc_state p \<noteq> ''completed'' then claim_holder (clk 0) scope generation previous else Inr p)
      | None \<Rightarrow> claim_identity scope generation previous) (\<lambda>held.
      if tc_result held = [] then claim_refused ''an accepted outcome is required''
      else and_then (proposal_of (jget (tc_result held) ''proposal'')) (\<lambda>p.
        and_then (validate_proposal oz p pull) (\<lambda>_.
          and_then (change (tc_result held)) (\<lambda>outcome. Inr (held\<lparr>tc_result := outcome\<rparr>)))))"

definition settle_outcome :: "pull_request \<Rightarrow> jdict \<Rightarrow> fault + jdict" where
  "settle_outcome pull previous =
    (if JStr (pu_identity pull) \<noteq> jget previous ''provider_id'' then outcome_conflict
     else if jget previous ''phase'' = JStr ''externally_verified'' then Inr previous
     else if pu_state pull = ''MERGED''
     then (if pu_merge_sha pull = '''' then outcome_conflict
           else Inr (jset ''merge_sha'' (JStr (pu_merge_sha pull)) (jset ''phase'' (JStr ''externally_verified'') previous)))
     else if pu_state pull \<noteq> ''OPEN'' then outcome_conflict
     else if pu_queue_id pull \<noteq> ''''
     then Inr (jset ''queue_id'' (JStr (pu_queue_id pull)) (jset ''phase'' (JStr ''committed'') previous))
     else Inr previous)"

definition reserve_outcome :: "string \<Rightarrow> jdict \<Rightarrow> fault + jdict" where
  "reserve_outcome dispatch previous =
    (if jget previous ''phase'' \<noteq> JStr ''accepted'' then Inr previous
     else Inr (jset ''dispatch'' (JStr dispatch) (jset ''phase'' (JStr ''unknown'') previous)))"

definition reopen_outcome :: "jdict \<Rightarrow> fault + jdict" where
  "reopen_outcome previous = Inr (jset ''phase'' (JStr ''accepted'') previous)"

text \<open>One write through the authority under the caller's token; it answers the claim.\<close>

definition claim_write where
  "claim_write c moved moved_write ctl authorize lag others event action w =
    (case authority_write c moved moved_write ctl authorize lag event action None others w of
       (Inl e, w1) \<Rightarrow> (Inl e, w1)
     | (Inr (claim, written), w1) \<Rightarrow> (Inr claim, w1))"

text \<open>
  The provider has its own state \<open>'p\<close>, the switch of the integration included. \<open>oe_update\<close> is
  \<open>claim_write\<close> with its parameters.
\<close>

record 'p outcome_env =
  oe_update :: "string \<Rightarrow> claim_action \<Rightarrow> fworld \<Rightarrow> (fault + task_claim) \<times> fworld"
  oe_read :: "string \<Rightarrow> 'p \<Rightarrow> fault + pull_request"
  oe_queue :: "pull_request \<Rightarrow> 'p \<Rightarrow> (fault + unit) \<times> 'p"
  oe_enabled :: "'p \<Rightarrow> bool"

definition outcome_write ::
  "'p outcome_env \<Rightarrow> outcome_ctx \<Rightarrow> int \<Rightarrow> pull_request \<Rightarrow> (jdict \<Rightarrow> fault + jdict) \<Rightarrow> fworld \<Rightarrow> (fault + jdict) \<times> fworld" where
  "outcome_write oe oz generation pull change w =
    (case oe_update oe ''outcome_reconciled'' (outcome_update oz generation pull change) w of
       (Inl e, w1) \<Rightarrow> (Inl e, w1)
     | (Inr claim, w1) \<Rightarrow> (Inr (tc_result claim), w1))"

definition outcome_propose ::
  "'p outcome_env \<Rightarrow> outcome_ctx \<Rightarrow> proposal \<Rightarrow> 'p \<Rightarrow> fworld \<Rightarrow> (fault + jdict) \<times> fworld" where
  "outcome_propose oe oz p prov w =
    (case oe_read oe (pp_pr_url p) prov of
       Inl e \<Rightarrow> (Inl e, w)
     | Inr pull \<Rightarrow>
         (case oe_update oe ''outcome_proposed'' (outcome_accept oz p pull) w of
            (Inl e, w1) \<Rightarrow> (Inl e, w1)
          | (Inr claim, w1) \<Rightarrow> (Inr (tc_result claim), w1)))"

text \<open>The guard a provider invokes immediately before it mutates anything.\<close>

definition outcome_guard ::
  "'p outcome_env \<Rightarrow> outcome_ctx \<Rightarrow> int \<Rightarrow> pull_request \<Rightarrow> string \<Rightarrow> 'p \<Rightarrow> fworld \<Rightarrow> (fault + unit) \<times> fworld" where
  "outcome_guard oe oz generation pull dispatch prov w =
    (case outcome_write oe oz generation pull Inr w of
       (Inl e, w1) \<Rightarrow> (Inl e, w1)
     | (Inr checked, w1) \<Rightarrow>
         if jget checked ''dispatch'' \<noteq> JStr dispatch \<or> jget checked ''phase'' \<noteq> JStr ''unknown'' then (outcome_conflict, w1)
         else if \<not> oe_enabled oe prov
         then (case outcome_write oe oz generation pull reopen_outcome w1 of
                 (Inl e, w2) \<Rightarrow> (Inl e, w2)
               | (Inr _, w2) \<Rightarrow> (claim_refused ''final integration is paused'', w2))
         else (Inr (), w1))"

text \<open>\<open>GitHubIntegration.enqueue\<close>: the pull request must read as it was, the guard must pass, then it is queued.\<close>

definition provider_enqueue ::
  "'p outcome_env \<Rightarrow> outcome_ctx \<Rightarrow> int \<Rightarrow> pull_request \<Rightarrow> string \<Rightarrow> 'p \<Rightarrow> fworld \<Rightarrow> (fault + pull_request) \<times> 'p \<times> fworld" where
  "provider_enqueue oe oz generation pull dispatch prov w =
    (case oe_read oe (pu_url pull) prov of
       Inl e \<Rightarrow> (Inl e, prov, w)
     | Inr found \<Rightarrow>
         if found \<noteq> pull \<or> pu_base pull \<noteq> ''dev'' then (claim_refused ''outcome_conflict'', prov, w)
         else (case outcome_guard oe oz generation pull dispatch prov w of
             (Inl e, w1) \<Rightarrow> (Inl e, prov, w1)
           | (Inr _, w1) \<Rightarrow>
               (case oe_queue oe pull prov of
                  (Inl e, prov1) \<Rightarrow> (Inl e, prov1, w1)
                | (Inr _, prov1) \<Rightarrow> (oe_read oe (pu_url pull) prov1, prov1, w1))))"

text \<open>
  \<open>integrate\<close>, once the caller's scope, its claim (with a result) and the controller's gate were
  checked: \<open>dispatch\<close> is fresh. A timeout or a lost connection (\<open>Timeout\<close>) leaves the outcome unknown.
\<close>

definition outcome_integrate ::
  "'p outcome_env \<Rightarrow> outcome_ctx \<Rightarrow> int \<Rightarrow> task_claim \<Rightarrow> string \<Rightarrow> 'p \<Rightarrow> fworld \<Rightarrow> (fault + jdict) \<times> 'p \<times> fworld" where
  "outcome_integrate oe oz generation claim dispatch prov w =
    (if tc_result claim = [] then (claim_refused ''an accepted outcome is required'', prov, w)
     else case and_then (proposal_of (jget (tc_result claim) ''proposal'')) (\<lambda>p. oe_read oe (pp_pr_url p) prov) of
       Inl e \<Rightarrow> (Inl e, prov, w)
     | Inr pull \<Rightarrow>
         (case outcome_write oe oz generation pull (settle_outcome pull) w of
            (Inl e, w1) \<Rightarrow> (Inl e, prov, w1)
          | (Inr settled, w1) \<Rightarrow>
              if jget settled ''phase'' \<noteq> JStr ''accepted'' then (Inr settled, prov, w1)
              else if \<not> oe_enabled oe prov then (claim_refused ''final integration is paused'', prov, w1)
              else (case outcome_write oe oz generation pull (reserve_outcome dispatch) w1 of
                  (Inl e, w2) \<Rightarrow> (Inl e, prov, w2)
                | (Inr outcome, w2) \<Rightarrow>
                    if jget outcome ''dispatch'' \<noteq> JStr dispatch then (Inr outcome, prov, w2)
                    else (case provider_enqueue oe oz generation pull dispatch prov w2 of
                        (Inl Timeout, prov1, w3) \<Rightarrow> (Inr outcome, prov1, w3)
                      | (Inl e, prov1, w3) \<Rightarrow> (Inl e, prov1, w3)
                      | (Inr observed, prov1, w3) \<Rightarrow>
                          (case outcome_write oe oz generation observed (settle_outcome observed) w3 of
                             (r, w4) \<Rightarrow> (r, prov1, w4))))))"

section \<open>The receipt of a completion\<close>

text \<open>The scope and the gate the code checks over again here are those \<open>authority_change\<close> has just checked.\<close>

definition receipt_check :: "outcome_ctx \<Rightarrow> bool \<Rightarrow> int \<Rightarrow> jdict \<Rightarrow> claim_action" where
  "receipt_check oz enabled generation outcome clk doc w scope previous =
    (let proof = (case json_sub (jget outcome ''proposal'') ''proof'' of JObj d \<Rightarrow> d | _ \<Rightarrow> [])
     in if \<not> oz_verify_proof oz proof then claim_refused ''required proof artifacts are absent or unverified''
        else if \<not> enabled then claim_refused ''final integration is paused''
        else and_then (claim_identity scope generation previous) (\<lambda>p.
          and_then (if tc_state p \<noteq> ''completed'' then claim_holder (clk 0) scope generation previous else Inr p) (\<lambda>held.
            if tc_result held \<noteq> outcome then outcome_conflict else Inr held)))"

section \<open>What outcomes promise\<close>

text \<open>
  Outcomes write results only, so the promises of the task authority hold with them: a claim follows
  its journal, a completed claim is final.
\<close>

lemma outcome_actions:
  "result_only (outcome_accept oz p pull)" "result_only (outcome_update oz generation pull change)"
  "result_only (receipt_check oz enabled generation outcome)"
proof -
  have same: "q = q\<lparr>tc_result := tc_result q\<rparr>" for q :: task_claim by simp
  show "result_only (outcome_accept oz p pull)"
    unfolding result_only_def outcome_accept_def
    by (auto simp: claim_refused_def outcome_conflict_def and_then_Inr claim_holder_Inr split: if_splits intro: same)
  show "result_only (outcome_update oz generation pull change)"
    unfolding result_only_def outcome_update_def
    by (auto simp: claim_refused_def and_then_Inr claim_holder_Inr split: if_splits option.splits)
      (auto simp: claim_identity_def claim_stale_def claim_refused_def split: if_splits)
  have id: "claim_identity scope generation previous = Inr q \<Longrightarrow> previous = Some q" for scope previous q
    by (auto simp: claim_identity_def claim_stale_def claim_refused_def split: option.splits if_splits)
  show "result_only (receipt_check oz enabled generation outcome)"
    unfolding result_only_def receipt_check_def Let_def
    by (auto simp: claim_refused_def outcome_conflict_def and_then_Inr claim_holder_Inr split: if_splits dest!: id intro: same)
qed

lemma outcome_claim_ops:
  "claim_op ''outcome_proposed'' (outcome_accept oz p pull) None"
  "claim_op ''outcome_reconciled'' (outcome_update oz generation pull change) None"
  "claim_op ''outcome_checked'' (receipt_check oz enabled generation outcome) None"
  by (auto intro: co_result outcome_actions)

lemma jget_jset [dict_simps]: "jget (jset k v d) k' = (if k' = k then v else jget d k')"
  by (simp add: jget_def dget_jset)

lemma inherit_outcome_sound:
  assumes "inherit_outcome priors outcome = Inr out"
  shows "jget out ''proposal'' = jget outcome ''proposal'' \<and> jget out ''provider_id'' = jget outcome ''provider_id'' \<and>
    (\<forall>prior \<in> set priors. dispatched prior \<longrightarrow> same_change prior out) \<and>
    (if \<exists>prior \<in> set priors. dispatched prior
     then \<exists>prior \<in> set priors. dispatched prior \<and> jget out ''operation_id'' = jget prior ''operation_id'' \<and>
       jget out ''phase'' = jget prior ''phase''
     else out = outcome)"
  using assms
proof (induction priors outcome rule: inherit_outcome.induct)
  case (1 outcome)
  then show ?case by simp
next
  case (2 prior rest outcome)
  show ?case
  proof (cases "dispatched prior")
    case False
    then show ?thesis using 2(1) 2(3) by auto
  next
    case True
    then have same: "same_change prior outcome"
      and run: "inherit_outcome rest (jset ''proposal'' (jget outcome ''proposal'') prior) = Inr out"
      using 2(3) by (auto simp: outcome_conflict_def claim_refused_def split: if_splits)
    define outcome' where "outcome' = jset ''proposal'' (jget outcome ''proposal'') prior"
    have eqs: "jget outcome' ''proposal'' = jget outcome ''proposal''" "jget outcome' ''provider_id'' = jget outcome ''provider_id''"
      "jget outcome' ''operation_id'' = jget prior ''operation_id''" "jget outcome' ''phase'' = jget prior ''phase''"
      using same by (simp_all add: outcome'_def dict_simps same_change_def)
    have ih: "jget out ''proposal'' = jget outcome' ''proposal'' \<and> jget out ''provider_id'' = jget outcome' ''provider_id'' \<and>
        (\<forall>prior \<in> set rest. dispatched prior \<longrightarrow> same_change prior out) \<and>
        (if \<exists>prior \<in> set rest. dispatched prior
         then \<exists>prior \<in> set rest. dispatched prior \<and> jget out ''operation_id'' = jget prior ''operation_id'' \<and>
           jget out ''phase'' = jget prior ''phase''
         else out = outcome')"
      using 2(2)[of] run True same unfolding outcome'_def by blast
    have "same_change prior out" using same ih eqs unfolding same_change_def by metis
    then show ?thesis using ih eqs True by (auto split: if_splits)
  qed
qed

text \<open>
  A change that was handed to the provider is never proposed as a new operation. When the journal
  of a task holds dispatched outcomes, a proposal of a later holder either is refused or names the very
  same pull request and head, and carries on one of those operations in the phase it had reached.
\<close>

theorem dispatched_outcome_inherited:
  assumes "outcome_accept oz p pull clk doc w scope (Some held) = Inr cur" and "tc_result held = []"
    and "prior \<in> set (dvals (journal_operations (journal_of doc (pp_task_id p))))" and "dispatched prior"
  shows "same_change prior (tc_result cur) \<and> dispatched (tc_result cur) \<and> jget (tc_result cur) ''proposal'' = proposal_json p \<and>
    (\<exists>known \<in> set (dvals (journal_operations (journal_of doc (pp_task_id p)))). dispatched known \<and>
       jget (tc_result cur) ''operation_id'' = jget known ''operation_id'')"
proof -
  obtain out where run: "inherit_outcome (dvals (journal_operations (journal_of doc (pp_task_id p)))) (fresh_outcome oz p pull) = Inr out"
    and cur: "cur = held\<lparr>tc_result := out\<rparr>"
    using assms(1,2) by (auto simp: outcome_accept_def claim_refused_def and_then_Inr claim_holder_Inr split: if_splits)
  note s = inherit_outcome_sound[OF run]
  obtain known where k: "known \<in> set (dvals (journal_operations (journal_of doc (pp_task_id p))))" "dispatched known"
    "jget out ''operation_id'' = jget known ''operation_id''" "jget out ''phase'' = jget known ''phase''"
    using s assms(3,4) by (metis (no_types, lifting))
  have "dispatched out" using k(2,4) by (simp add: dispatched_def)
  moreover have "jget out ''proposal'' = proposal_json p" using s by (simp add: fresh_outcome_def jget_def)
  ultimately show ?thesis using s assms(3,4) k cur by auto
qed


lemma provider_enqueue_once:
  assumes "provider_enqueue oe oz generation pull dispatch prov w = (r, prov', w')" and "prov' \<noteq> prov"
  shows "oe_enabled oe prov \<and> oe_read oe (pu_url pull) prov = Inr pull \<and> pu_base pull = ''dev'' \<and> prov' = snd (oe_queue oe pull prov) \<and>
    (\<exists>checked w1. outcome_write oe oz generation pull Inr w = (Inr checked, w1) \<and>
       jget checked ''dispatch'' = JStr dispatch \<and> jget checked ''phase'' = JStr ''unknown'')"
proof -
  have read: "oe_read oe (pu_url pull) prov = Inr pull" "pu_base pull = ''dev''"
    using assms by (auto simp: provider_enqueue_def split: sum.splits if_splits)
  obtain g w1 where g: "outcome_guard oe oz generation pull dispatch prov w = (g, w1)" by fastforce
  have g_ok: "g = Inr ()" and prov': "prov' = snd (oe_queue oe pull prov)"
    using assms read g by (auto simp: provider_enqueue_def split: sum.splits prod.splits)
  have "oe_enabled oe prov \<and> (\<exists>checked w1. outcome_write oe oz generation pull Inr w = (Inr checked, w1) \<and>
       jget checked ''dispatch'' = JStr dispatch \<and> jget checked ''phase'' = JStr ''unknown'')"
    using g g_ok by (auto simp: outcome_guard_def outcome_conflict_def claim_refused_def split: sum.splits prod.splits if_splits)
  then show ?thesis using read prov' by blast
qed

text \<open>
  A change is handed to the provider at most once and only as reserved. When an integration changed
  anything at the provider, the integration was enabled, the pull request still read as it was, based on
  \<open>dev\<close>, the outcome was held in the phase \<open>unknown\<close> under this very dispatch right before, and one
  queueing is all that was done.
\<close>

theorem integrate_queues_once:
  assumes "outcome_integrate oe oz generation claim dispatch prov w = (r, prov', w')" and "prov' \<noteq> prov"
  shows "oe_enabled oe prov \<and>
    (\<exists>pull. oe_read oe (pu_url pull) prov = Inr pull \<and> pu_base pull = ''dev'' \<and> prov' = snd (oe_queue oe pull prov) \<and>
      (\<exists>checked w1 w2. outcome_write oe oz generation pull Inr w1 = (Inr checked, w2) \<and>
         jget checked ''dispatch'' = JStr dispatch \<and> jget checked ''phase'' = JStr ''unknown''))"
proof -
  obtain pull where pull: "and_then (proposal_of (jget (tc_result claim) ''proposal'')) (\<lambda>p. oe_read oe (pp_pr_url p) prov) = Inr pull"
    using assms by (cases "and_then (proposal_of (jget (tc_result claim) ''proposal'')) (\<lambda>p. oe_read oe (pp_pr_url p) prov)")
      (auto simp: outcome_integrate_def split: if_splits)
  obtain s w1 where s: "outcome_write oe oz generation pull (settle_outcome pull) w = (s, w1)" by fastforce
  obtain o1 w2 where o1: "outcome_write oe oz generation pull (reserve_outcome dispatch) w1 = (o1, w2)" by fastforce
  obtain q prov1 w3 where q: "provider_enqueue oe oz generation pull dispatch prov w2 = (q, prov1, w3)" by (metis prod_cases3)
  have "prov1 = prov'"
    using assms pull s o1 q unfolding outcome_integrate_def
    by (simp split: sum.splits prod.splits if_splits fault.splits)
  then show ?thesis using provider_enqueue_once[OF q] assms(2) by blast
qed

section \<open>The statements at concrete inputs\<close>

definition ow_proposal :: proposal where
  "ow_proposal = \<lparr>pp_task_id = ''t'', pp_generation = 1, pp_task_revision = ''r'', pp_pr_url = ''u'', pp_head_sha = ''h'',
     pp_proof = [(''artifact'', JStr ''x''), (''run'', JStr ''y''), (''sha'', JStr ''h'')]\<rparr>"

definition ow_pull :: pull_request where
  "ow_pull = \<lparr>pu_url = ''u'', pu_identity = ''i'', pu_head_sha = ''h'', pu_base = ''dev'', pu_state = ''OPEN'', pu_queue_id = '''', pu_merge_sha = ''''\<rparr>"

definition ow_ctx :: outcome_ctx where
  "ow_ctx = \<lparr>oz_slug = ''s'', oz_read_task = (\<lambda>_. Inr [(''id'', JStr ''t''), (''pr_url'', JStr ''u'')]), oz_revision = (\<lambda>_. ''r''),
     oz_operation_id = (\<lambda>_. ''op''), oz_verify_proof = (\<lambda>_. True)\<rparr>"

definition ow_claim :: "jdict \<Rightarrow> task_claim" where
  "ow_claim result = \<lparr>tc_task_id = ''t'', tc_holder = ''n'', tc_generation = 1, tc_execution_id = ''e'', tc_execution_generation = 1,
     tc_lease_deadline_ms = 100, tc_state = ''active'', tc_result = result\<rparr>"

definition ow_scope :: registration where
  "ow_scope = \<lparr>rg_grant_id = ''g'', rg_swarm_id = ''s'', rg_execution_id = ''e'', rg_generation = 1, rg_seat_id = ''eng'',
     rg_task_id = ''t'', rg_account = ''a'', rg_brain_id = ''b'', rg_project_ids = [], rg_issuer = ''i'', rg_audience = ''u'',
     rg_key_id = ''k'', rg_registered_at = 0\<rparr>"

definition ow_result :: "string \<Rightarrow> jdict" where
  "ow_result phase = jset ''phase'' (JStr phase) (fresh_outcome ow_ctx ow_proposal ow_pull)"

definition ow_doc :: fdoc where
  "ow_doc = empty_doc\<lparr>fd_journals := [(''t'', [(''outcome_reconciled'', ow_claim (ow_result ''unknown''))])]\<rparr>"

lemmas ow_defs = ow_proposal_def ow_pull_def ow_ctx_def ow_claim_def ow_scope_def ow_result_def ow_doc_def fresh_outcome_def
  proposal_json_def validate_proposal_def jget_def claim_holder_def claim_identity_def same_change_def json_sub_def dispatched_def

lemma dispatched_outcome_inherited_witness:
  "\<exists>cur. outcome_accept ow_ctx ow_proposal ow_pull (\<lambda>_. 5) ow_doc \<lparr>fw_states = empty_store, fw_counters = empty_store, fw_now = 5\<rparr>
      ow_scope (Some (ow_claim [])) = Inr cur \<and>
    dispatched (tc_result cur) \<and> jget (tc_result cur) ''operation_id'' = JStr ''op''"
proof -
  have ops: "dvals (journal_operations (journal_of ow_doc ''t'')) = [ow_result ''unknown'']"
    by (simp add: journal_operations_def journal_of_def ow_defs Let_def)
  have "outcome_accept ow_ctx ow_proposal ow_pull (\<lambda>_. 5) ow_doc \<lparr>fw_states = empty_store, fw_counters = empty_store, fw_now = 5\<rparr>
      ow_scope (Some (ow_claim [])) = Inr (ow_claim (ow_result ''unknown''))"
    using ops by (simp add: outcome_accept_def ow_defs)
  moreover have "tc_result (ow_claim []) = []" by (simp add: ow_claim_def)
  moreover have "ow_result ''unknown'' \<in> set (dvals (journal_operations (journal_of ow_doc (pp_task_id ow_proposal))))"
    using ops by (simp add: ow_proposal_def)
  moreover have "dispatched (ow_result ''unknown'')" by (simp add: ow_defs)
  ultimately have "dispatched (tc_result (ow_claim (ow_result ''unknown'')))" using dispatched_outcome_inherited by blast
  moreover have "jget (tc_result (ow_claim (ow_result ''unknown''))) ''operation_id'' = JStr ''op''" by (simp add: ow_defs)
  ultimately show ?thesis using \<open>outcome_accept ow_ctx _ _ _ _ _ _ _ = _\<close> by blast
qed

text \<open>A provider that counts its queueings, and an authority that keeps the one claim in its clock.\<close>

definition ow_env :: "nat outcome_env" where
  "ow_env = \<lparr>oe_update = (\<lambda>event action w.
       case action (\<lambda>_. 5) ow_doc w ow_scope (Some (ow_claim (if fw_now w = 0 then ow_result ''accepted''
           else jset ''dispatch'' (JStr ''d'') (ow_result ''unknown'')))) of
         Inl e \<Rightarrow> (Inl e, w)
       | Inr cur \<Rightarrow> (Inr cur, if jget (tc_result cur) ''phase'' = JStr ''unknown'' then w\<lparr>fw_now := 1\<rparr> else w)),
     oe_read = (\<lambda>_ _. Inr ow_pull), oe_queue = (\<lambda>_ n. (Inr (), n + 1)), oe_enabled = (\<lambda>_. True)\<rparr>"

lemma integrate_queues_once_witness:
  "fst (snd (outcome_integrate ow_env ow_ctx 1 (ow_claim (ow_result ''accepted'')) ''d'' 0
      \<lparr>fw_states = empty_store, fw_counters = empty_store, fw_now = 0\<rparr>)) = 1 \<and>
   (\<exists>checked w1 w2. outcome_write ow_env ow_ctx 1 ow_pull Inr w1 = (Inr checked, w2) \<and> jget checked ''dispatch'' = JStr ''d'')"
proof -
  let ?run = "outcome_integrate ow_env ow_ctx 1 (ow_claim (ow_result ''accepted'')) ''d'' 0
      \<lparr>fw_states = empty_store, fw_counters = empty_store, fw_now = 0\<rparr>"
  have once: "fst (snd ?run) = 1"
    by (simp add: outcome_integrate_def provider_enqueue_def outcome_guard_def outcome_write_def outcome_update_def settle_outcome_def
        reserve_outcome_def ow_env_def proposal_of_def ow_defs)
  obtain r prov' w' where run: "?run = (r, prov', w')" by (metis prod_cases3)
  then have "prov' \<noteq> 0" using once by simp
  from integrate_queues_once[OF run this] obtain pull checked w1 w2 where
    "oe_read ow_env (pu_url pull) 0 = Inr pull" "outcome_write ow_env ow_ctx 1 pull Inr w1 = (Inr checked, w2)"
    "jget checked ''dispatch'' = JStr ''d''" by blast
  moreover from this have "pull = ow_pull" by (simp add: ow_env_def)
  ultimately show ?thesis using once by blast
qed

end
