(* ===== verification/Fenced_Records.thy ===== *)
theory Fenced_Records
  imports Prelude
begin

text \<open>
  The per record layout of the fencing state (\<open>_write_records\<close> and what it calls in
  \<open>scripts/swarm/fencing.py\<close>, the port \<open>scripts/tick/ports/records.py\<close> and its Redis script in
  \<open>scripts/tick/adapters/records_redis.py\<close>): every record has a revision, a change runs on a copy of the
  sections that remembers what it read, and one batch checks and writes all of it or nothing.

  A change is a program over the tracked sections: the operations of \<open>Reads\<close>. A scan hands the rows
  over in key order, where Redis has no order. The scalars of the document are the section \<open>meta\<close>. The
  archive, which a change has to hydrate on its own, and the derived index of archived names are not
  modelled.
\<close>

section \<open>The port\<close>

datatype write_kind = Put | Delete | Check

record record_write =
  rw_kind :: write_kind
  rw_section :: string
  rw_key :: string
  rw_expected :: int
  rw_value :: json

record lease_fence =
  lf_owner :: string
  lf_epoch :: int
  lf_now_ms :: int

record fenced_batch =
  fb_writes :: "record_write list"
  fb_lease :: "lease_fence option"

record stored_record =
  rc_revision :: int
  rc_value :: json

type_synonym rows = "(string, (string, stored_record) dict) dict"

record rec_store =
  rs_revision :: int
  rs_rows :: rows

definition section_of :: "('k, ('j, 'v) dict) dict \<Rightarrow> 'k \<Rightarrow> ('j, 'v) dict" where
  "section_of d s = (case dget d s of None \<Rightarrow> [] | Some rows \<Rightarrow> rows)"

definition rec_at :: "rows \<Rightarrow> string \<Rightarrow> string \<Rightarrow> stored_record option" where
  "rec_at d s k = dget (section_of d s) k"

definition revision_of :: "rows \<Rightarrow> string \<Rightarrow> string \<Rightarrow> int" where
  "revision_of d s k = (case rec_at d s k of None \<Rightarrow> 0 | Some found \<Rightarrow> rc_revision found)"

text \<open>The lease record has to be a table with the wanted owner and epoch that has not expired.\<close>

definition fence_stale :: "lease_fence \<Rightarrow> rows \<Rightarrow> bool" where
  "fence_stale fence d =
    (case rec_at d ''meta'' ''lease'' of
       Some found \<Rightarrow>
         (case rc_value found of
            JObj lease \<Rightarrow>
              (lf_owner fence \<noteq> '''' \<and> jget lease ''owner'' \<noteq> JStr (lf_owner fence)) \<or>
              jget lease ''epoch'' \<noteq> JInt (lf_epoch fence) \<or>
              (case jget lease ''expires_at'' of JInt until \<Rightarrow> until \<le> lf_now_ms fence | _ \<Rightarrow> True)
          | _ \<Rightarrow> True)
     | None \<Rightarrow> True)"

definition apply_record :: "int \<Rightarrow> rows \<Rightarrow> record_write \<Rightarrow> rows" where
  "apply_record revision d w =
    (case rw_kind w of
       Put \<Rightarrow> dset (rw_section w) (dset (rw_key w) \<lparr>rc_revision = revision, rc_value = rw_value w\<rparr> (section_of d (rw_section w))) d
     | Delete \<Rightarrow> dset (rw_section w) (dpop (rw_key w) (section_of d (rw_section w))) d
     | Check \<Rightarrow> d)"

definition batch_commit :: "fenced_batch \<Rightarrow> rec_store \<Rightarrow> fault + rec_store" where
  "batch_commit batch st =
    (if (case fb_lease batch of None \<Rightarrow> False | Some fence \<Rightarrow> fence_stale fence (rs_rows st)) then Inl Stale_Lease
     else if list_ex (\<lambda>w. rw_expected w \<ge> 0 \<and> revision_of (rs_rows st) (rw_section w) (rw_key w) \<noteq> rw_expected w) (fb_writes batch)
     then Inl Revision_Conflict
     else Inr \<lparr>rs_revision = rs_revision st + 1,
               rs_rows = foldl (apply_record (rs_revision st + 1)) (rs_rows st) (fb_writes batch)\<rparr>)"

section \<open>Changes that remember what they read\<close>

type_synonym sections = "(string, (string, json) dict) dict"

datatype 'r tracked =
    Return 'r
  | Get string string "json option \<Rightarrow> 'r tracked"
  | Scan string "(string, json) dict \<Rightarrow> 'r tracked"
  | Set_Item string string json "'r tracked"
  | Pop string string "json option \<Rightarrow> 'r tracked"

record read_set =
  tr_seen :: "(string \<times> string) list"
  tr_whole :: "string list"

definition no_reads :: read_set where
  "no_reads = \<lparr>tr_seen = [], tr_whole = []\<rparr>"

definition item_at :: "sections \<Rightarrow> string \<Rightarrow> string \<Rightarrow> json option" where
  "item_at d s k = dget (section_of d s) k"

primrec run_tracked :: "'r tracked \<Rightarrow> sections \<Rightarrow> read_set \<Rightarrow> 'r \<times> sections \<times> read_set" where
  "run_tracked (Return r) d rds = (r, d, rds)"
| "run_tracked (Get s k cont) d rds = run_tracked (cont (item_at d s k)) d (rds\<lparr>tr_seen := (s, k) # tr_seen rds\<rparr>)"
| "run_tracked (Scan s cont) d rds = run_tracked (cont (sort_key fst (section_of d s))) d (rds\<lparr>tr_whole := s # tr_whole rds\<rparr>)"
| "run_tracked (Set_Item s k v cont) d rds = run_tracked cont (dset s (dset k v (section_of d s)) d) rds"
| "run_tracked (Pop s k cont) d rds =
    run_tracked (cont (item_at d s k)) (dset s (dpop k (section_of d s)) d) (rds\<lparr>tr_seen := (s, k) # tr_seen rds\<rparr>)"

section \<open>One attempt\<close>

definition doc_sections :: "string list" where
  "doc_sections = [''meta'', ''intents'', ''orphans'', ''executions'', ''grants'', ''registrations'', ''claims'', ''journals'',
     ''fences'', ''operations'']"

definition meta_defaults :: "(string, json) dict" where
  "meta_defaults = [(''lease'', JNull), (''legacy_owner'', JStr ''''), (''epoch'', JInt 0), (''leader_changes'', JInt 0),
     (''grants_disabled'', JStr '''')]"

text \<open>\<open>_assemble\<close>: the values, the scalars over their defaults, the layout marker left out.\<close>

definition assemble :: "rows \<Rightarrow> sections" where
  "assemble d = map (\<lambda>s. (s, let vals = map (\<lambda>(k, found). (k, rc_value found)) (section_of d s)
       in if s = ''meta'' then dmerge meta_defaults (dpop ''layout'' vals) else vals)) doc_sections"

definition generation_number :: "json \<Rightarrow> rat option" where
  "generation_number v = (case v of JInt i \<Rightarrow> Some (of_int i) | JNum r \<Rightarrow> Some r | JBool b \<Rightarrow> Some (if b then 1 else 0) | _ \<Rightarrow> None)"

definition head_row :: "(string, rat \<times> string) dict \<Rightarrow> string \<times> json \<Rightarrow> (string, rat \<times> string) dict" where
  "head_row found kv =
    (case kv of
       (key, JObj row) \<Rightarrow>
         (case (jget row ''name'', generation_number (jget row ''generation'')) of
            (JStr name, Some generation) \<Rightarrow>
              dset name (max (generation, key) (case dget found name of None \<Rightarrow> (generation, key) | Some best \<Rightarrow> best)) found
          | _ \<Rightarrow> found)
     | _ \<Rightarrow> found)"

definition name_heads :: "(string, json) dict \<Rightarrow> (string, json) dict" where
  "name_heads rows = map (\<lambda>(name, generation, key). (name, JStr key)) (foldl head_row [] rows)"

definition section_changes :: "string \<Rightarrow> (string, json) dict \<Rightarrow> (string, json) dict \<Rightarrow> rows \<Rightarrow> record_write list" where
  "section_changes s before after loaded =
    map (\<lambda>(k, v). \<lparr>rw_kind = Put, rw_section = s, rw_key = k, rw_expected = revision_of loaded s k, rw_value = v\<rparr>)
      (filter (\<lambda>(k, v). dget before k \<noteq> Some v) after) @
    map (\<lambda>k. \<lparr>rw_kind = Delete, rw_section = s, rw_key = k, rw_expected = revision_of loaded s k, rw_value = JNull\<rparr>)
      (sort (filter (\<lambda>k. \<not> dhas after k) (dkeys before)))"

definition record_changes :: "sections \<Rightarrow> sections \<Rightarrow> rows \<Rightarrow> record_write list" where
  "record_changes before after loaded =
    concat (map (\<lambda>s. section_changes s (section_of before s) (section_of after s) loaded) doc_sections) @
    section_changes ''by-name'' (name_heads (section_of before ''executions'')) (name_heads (section_of after ''executions'')) loaded"

text \<open>A check for each record that was read and not written; a fence covers the lease itself.\<close>

definition section_reads :: "read_set \<Rightarrow> rows \<Rightarrow> string \<Rightarrow> string list" where
  "section_reads rds loaded s =
    (if s \<in> set (tr_whole rds) then dkeys (section_of loaded s)
     else map snd (filter (\<lambda>(t, k). t = s) (tr_seen rds)))"

definition record_checks :: "read_set \<Rightarrow> rows \<Rightarrow> record_write list \<Rightarrow> bool \<Rightarrow> record_write list" where
  "record_checks rds loaded writes fenced =
    (let skip = map (\<lambda>w. (rw_section w, rw_key w)) writes @ (if fenced then [(''meta'', ''lease'')] else [])
     in concat (map (\<lambda>s. map (\<lambda>k. \<lparr>rw_kind = Check, rw_section = s, rw_key = k, rw_expected = revision_of loaded s k, rw_value = JNull\<rparr>)
          (filter (\<lambda>k. (s, k) \<notin> set skip) (sort (section_reads rds loaded s)))) (sort doc_sections)))"

definition plan_batch :: "'r tracked \<Rightarrow> lease_fence option \<Rightarrow> rows \<Rightarrow> 'r \<times> fenced_batch option" where
  "plan_batch change fence loaded =
    (let before = assemble loaded; (r, after, rds) = run_tracked change before no_reads;
         writes = record_changes before after loaded
     in (r, if writes = [] then None
            else Some \<lparr>fb_writes = writes @ record_checks rds loaded writes (fence \<noteq> None), fb_lease = fence\<rparr>))"

text \<open>
  \<open>_write_records\<close>: \<open>envs\<close> holds what the other writers do between the loading and the batch of each
  attempt; the fence reads the clock on each of them.
\<close>

fun records_write ::
  "'r tracked \<Rightarrow> (rec_store \<Rightarrow> lease_fence option) \<Rightarrow> (rec_store \<Rightarrow> rec_store) list \<Rightarrow> rec_store \<Rightarrow> (fault + 'r) \<times> rec_store" where
  "records_write change fence [] st =
    (Inl (Swarm_Error ''the swarm fencing state kept changing; nothing was committed''), st)"
| "records_write change fence (env # envs) st =
    (case plan_batch change (fence st) (rs_rows st) of
       (r, None) \<Rightarrow> (Inr r, st)
     | (r, Some batch) \<Rightarrow>
         let st1 = env st
         in case batch_commit batch st1 of
              Inr st2 \<Rightarrow> (Inr r, st2)
            | Inl e \<Rightarrow>
                if e = Revision_Conflict then records_write change fence envs st1
                else if e = Stale_Lease then (Inl (Swarm_Error ''the controller lease is stale''), st1)
                else (Inl e, st1))"

end
