(* ===== verification/Fenced_Records_Laws.thy ===== *)
theory Fenced_Records_Laws
  imports Fenced_Records
begin

text \<open>
  What the per record layout promises: a batch that is admitted has the effect its change would have
  had on the records as they were at that moment, as long as no section it scanned gained a record
  meanwhile. The example at the end shows that a scan is not protected against new records.
\<close>

section \<open>Revisions\<close>

definition rec_inv :: "rec_store \<Rightarrow> bool" where
  "rec_inv st \<longleftrightarrow> (\<forall>s k found. rec_at (rs_rows st) s k = Some found \<longrightarrow> 1 \<le> rc_revision found \<and> rc_revision found \<le> rs_revision st) \<and>
    (\<forall>s. wf_dict (section_of (rs_rows st) s)) \<and> 0 \<le> rs_revision st"

text \<open>How the records move on under other writers: a record keeps its value while it keeps its revision.\<close>

definition rec_ev :: "rec_store \<Rightarrow> rec_store \<Rightarrow> bool" where
  "rec_ev st st' \<longleftrightarrow> rec_inv st' \<and> rs_revision st \<le> rs_revision st' \<and>
    (\<forall>s k found. rec_at (rs_rows st') s k = Some found \<and> rc_revision found \<le> rs_revision st \<longrightarrow> rec_at (rs_rows st) s k = Some found)"

lemma section_of_dset [simp]: "section_of (dset s rows d) t = (if t = s then rows else section_of d t)"
  by (simp add: section_of_def dget_dset)

lemma rec_at_apply:
  "rec_at (apply_record n d w) s k =
    (if rw_section w = s \<and> rw_key w = k \<and> rw_kind w \<noteq> Check
     then (if rw_kind w = Put then Some \<lparr>rc_revision = n, rc_value = rw_value w\<rparr> else None)
     else rec_at d s k)"
  by (cases "rw_kind w") (auto simp: apply_record_def rec_at_def dict_simps)

lemma rec_at_applies:
  "rec_at (foldl (apply_record n) d ws) s k = rec_at d s k \<or>
   (\<exists>w \<in> set ws. rw_section w = s \<and> rw_key w = k \<and> rw_kind w \<noteq> Check \<and>
      rec_at (foldl (apply_record n) d ws) s k = (if rw_kind w = Put then Some \<lparr>rc_revision = n, rc_value = rw_value w\<rparr> else None))"
proof (induction ws rule: rev_induct)
  case (snoc w ws)
  then show ?case by (auto simp: rec_at_apply)
qed simp

text \<open>With one write per record, that write decides.\<close>

lemma rec_at_write:
  assumes "w \<in> set ws" and "rw_kind w \<noteq> Check" and "rw_section w = s" "rw_key w = k"
    and "\<And>w'. w' \<in> set ws \<Longrightarrow> rw_kind w' \<noteq> Check \<Longrightarrow> rw_section w' = s \<Longrightarrow> rw_key w' = k \<Longrightarrow> w' = w"
  shows "rec_at (foldl (apply_record n) d ws) s k = (if rw_kind w = Put then Some \<lparr>rc_revision = n, rc_value = rw_value w\<rparr> else None)"
  using assms
proof (induction ws rule: rev_induct)
  case Nil
  show ?case using Nil.prems(1) by simp
next
  case (snoc x ws)
  show ?case
  proof (cases "rw_section x = s \<and> rw_key x = k \<and> rw_kind x \<noteq> Check")
    case True
    then have "x = w" using snoc.prems(5)[of x] by simp
    then show ?thesis using True by (simp add: rec_at_apply)
  next
    case False
    then have "w \<in> set ws" using snoc.prems(1-4) by auto
    then have "rec_at (foldl (apply_record n) d ws) s k = (if rw_kind w = Put then Some \<lparr>rc_revision = n, rc_value = rw_value w\<rparr> else None)"
    proof (rule snoc.IH)
      show "w' = w" if "w' \<in> set ws" "rw_kind w' \<noteq> Check" "rw_section w' = s" "rw_key w' = k" for w'
        using snoc.prems(5)[of w'] that by simp
    qed (use snoc.prems(2-4) in simp_all)
    then show ?thesis unfolding foldl_append foldl.simps rec_at_apply if_not_P[OF False] .
  qed
qed

lemma wf_applies: "(\<And>s. wf_dict (section_of d s)) \<Longrightarrow> wf_dict (section_of (foldl (apply_record n) d ws) s)"
  by (induction ws arbitrary: d) (auto simp: apply_record_def split: write_kind.split)

lemma batch_commit_Inr:
  "batch_commit batch st = Inr st' \<longleftrightarrow>
    \<not> (case fb_lease batch of None \<Rightarrow> False | Some fence \<Rightarrow> fence_stale fence (rs_rows st)) \<and>
    (\<forall>w \<in> set (fb_writes batch). rw_expected w \<ge> 0 \<longrightarrow> revision_of (rs_rows st) (rw_section w) (rw_key w) = rw_expected w) \<and>
    st' = \<lparr>rs_revision = rs_revision st + 1, rs_rows = foldl (apply_record (rs_revision st + 1)) (rs_rows st) (fb_writes batch)\<rparr>"
  by (auto simp: batch_commit_def list_ex_iff)

text \<open>Every batch that is admitted is such a move.\<close>

lemma batch_commit_ev:
  assumes "rec_inv st" and "batch_commit batch st = Inr st'"
  shows "rec_ev st st'"
proof -
  have st': "st' = \<lparr>rs_revision = rs_revision st + 1, rs_rows = foldl (apply_record (rs_revision st + 1)) (rs_rows st) (fb_writes batch)\<rparr>"
    using assms(2) by (simp add: batch_commit_Inr)
  have cases_at: "rec_at (rs_rows st) s k = Some found \<or> rc_revision found = rs_revision st + 1"
    if "rec_at (rs_rows st') s k = Some found" for s k found
    using rec_at_applies[of "rs_revision st + 1" "rs_rows st" "fb_writes batch" s k] that unfolding st' by (auto split: if_splits)
  have "rec_inv st'"
    using assms(1) cases_at wf_applies unfolding rec_inv_def by (fastforce simp: st')
  then show ?thesis unfolding rec_ev_def using cases_at by (force simp: st')
qed

lemma rec_ev_refl: "rec_inv st \<Longrightarrow> rec_ev st st"
  by (simp add: rec_ev_def)

lemma rec_ev_trans: "rec_ev a b \<Longrightarrow> rec_ev b c \<Longrightarrow> rec_ev a c"
  unfolding rec_ev_def by (meson order_trans)

lemma rec_ev_same:
  assumes "rec_inv st" and "rec_ev st st'" and "revision_of (rs_rows st') s k = revision_of (rs_rows st) s k"
  shows "rec_at (rs_rows st') s k = rec_at (rs_rows st) s k"
proof (cases "rec_at (rs_rows st') s k")
  case None
  then show ?thesis using assms(1,3) by (fastforce simp: revision_of_def rec_inv_def split: option.splits)
next
  case (Some found)
  have "1 \<le> rc_revision found" using assms(2) Some by (auto simp: rec_ev_def rec_inv_def)
  then have "rc_revision found \<le> rs_revision st" using assms(1,3) Some by (fastforce simp: revision_of_def rec_inv_def split: option.splits)
  then show ?thesis using assms(2) Some unfolding rec_ev_def by metis
qed

section \<open>Tracked changes\<close>

definition wf_sections :: "sections \<Rightarrow> bool" where
  "wf_sections d \<longleftrightarrow> (\<forall>s. wf_dict (section_of d s))"

lemma item_at_set: "item_at (dset s (dset k v (section_of d s)) d) t j = (if t = s \<and> j = k then Some v else item_at d t j)"
  by (simp add: item_at_def dict_simps)

lemma item_at_pop: "item_at (dset s (dpop k (section_of d s)) d) t j = (if t = s \<and> j = k then None else item_at d t j)"
  by (simp add: item_at_def dict_simps)

lemma wf_sections_upd [intro]:
  "wf_sections d \<Longrightarrow> wf_sections (dset s (dset k v (section_of d s)) d)"
  "wf_sections d \<Longrightarrow> wf_sections (dset s (dpop k (section_of d s)) d)"
  by (auto simp: wf_sections_def)

lemma scan_same:
  assumes "wf_dict a" and "wf_dict b" and "\<And>k. dget a k = dget b k"
  shows "sort_key fst a = sort_key (fst :: string \<times> 'v \<Rightarrow> string) b"
proof (rule map_sorted_distinct_set_unique[of fst])
  have same: "set a = set b" using assms map_of_eqI[of a b] map_of_SomeD[of a] map_of_SomeD[of b]
    by (metis (no_types, lifting) map_of_eq_Some_iff old.prod.exhaust subsetI subset_antisym)
  then show "set (sort_key fst a) = set (sort_key fst b)" by simp
  show "inj_on fst (set (sort_key fst a) \<union> set (sort_key fst b))" using assms(1) same by (simp add: distinct_map)
  have "distinct (map fst (sort_key fst xs))" if "wf_dict xs" for xs :: "(string \<times> 'v) list"
    using that by (simp add: distinct_map)
  then show "distinct (map fst (sort_key fst a))" "distinct (map fst (sort_key fst b))" using assms by blast+
qed simp_all

text \<open>The records a change stores or removes.\<close>

primrec stored_keys :: "'r tracked \<Rightarrow> sections \<Rightarrow> (string \<times> string) set" where
  "stored_keys (Return r) d = {}"
| "stored_keys (Get s k cont) d = stored_keys (cont (item_at d s k)) d"
| "stored_keys (Scan s cont) d = stored_keys (cont (sort_key fst (section_of d s))) d"
| "stored_keys (Set_Item s k v cont) d = insert (s, k) (stored_keys cont (dset s (dset k v (section_of d s)) d))"
| "stored_keys (Pop s k cont) d = insert (s, k) (stored_keys (cont (item_at d s k)) (dset s (dpop k (section_of d s)) d))"

lemma run_reads_grow:
  "run_tracked p d rds = (r, a, rds') \<Longrightarrow> set (tr_seen rds) \<subseteq> set (tr_seen rds') \<and> set (tr_whole rds) \<subseteq> set (tr_whole rds')"
  by (induction p arbitrary: d rds) (auto, (fastforce)+)

lemma run_wf: "run_tracked p d rds = (r, a, rds') \<Longrightarrow> wf_sections d \<Longrightarrow> wf_sections a"
proof (induction p arbitrary: d rds)
  case (Get s k cont)
  then show ?case using Get.IH[OF rangeI] by (simp only: run_tracked.simps)
next
  case (Scan s cont)
  then show ?case using Scan.IH[OF rangeI] by (simp only: run_tracked.simps)
next
  case (Pop s k cont)
  then show ?case using Pop.IH[OF rangeI _ wf_sections_upd(2)] by (simp only: run_tracked.simps)
qed (auto intro: wf_sections_upd)

text \<open>
  A change runs the same on every document that agrees with its own on what it read, and leaves each
  record equal in both or as it was in either.
\<close>

lemma run_same:
  assumes "run_tracked p d rds = (r, a, rds')" and "wf_sections d" "wf_sections e"
    and "\<And>s k. (s, k) \<in> set (tr_seen rds') \<Longrightarrow> item_at d s k = item_at e s k"
    and "\<And>s k. s \<in> set (tr_whole rds') \<Longrightarrow> item_at d s k = item_at e s k"
  shows "\<exists>b. run_tracked p e rds = (r, b, rds') \<and>
    (\<forall>s k. (item_at a s k = item_at b s k \<and> (s, k) \<in> stored_keys p d) \<or> (item_at a s k = item_at d s k \<and> item_at b s k = item_at e s k))"
  using assms
proof (induction p arbitrary: d e rds)
  case (Return x)
  then show ?case by auto
next
  case (Get s k cont)
  have "(s, k) \<in> set (tr_seen rds')" using run_reads_grow[OF Get.prems(1)[unfolded run_tracked.simps]] by auto
  then have eq: "item_at d s k = item_at e s k" by (rule Get.prems(4))
  from Get.IH[OF rangeI Get.prems(1)[unfolded run_tracked.simps] Get.prems(2-5)] eq show ?case by simp
next
  case (Scan s cont)
  have "s \<in> set (tr_whole rds')" using run_reads_grow[OF Scan.prems(1)[unfolded run_tracked.simps]] by auto
  then have "item_at d s k = item_at e s k" for k by (rule Scan.prems(5))
  then have eq: "sort_key fst (section_of d s) = sort_key fst (section_of e s)"
    using Scan.prems(2,3) by (intro scan_same) (auto simp: wf_sections_def item_at_def)
  from Scan.IH[OF rangeI Scan.prems(1)[unfolded run_tracked.simps] Scan.prems(2-5)] eq show ?case by simp
next
  case (Set_Item s k v cont)
  define d1 where "d1 = dset s (dset k v (section_of d s)) d"
  define e1 where "e1 = dset s (dset k v (section_of e s)) e"
  have "\<exists>b. run_tracked cont e1 rds = (r, b, rds') \<and>
    (\<forall>t j. (item_at a t j = item_at b t j \<and> (t, j) \<in> stored_keys cont d1) \<or> (item_at a t j = item_at d1 t j \<and> item_at b t j = item_at e1 t j))"
  proof (rule Set_Item.IH)
    show "run_tracked cont d1 rds = (r, a, rds')" using Set_Item.prems(1) by (simp add: d1_def)
  qed (use Set_Item.prems in \<open>auto simp: d1_def e1_def item_at_set\<close>)
  then obtain b where b: "run_tracked cont e1 rds = (r, b, rds')"
    "\<And>t j. (item_at a t j = item_at b t j \<and> (t, j) \<in> stored_keys cont d1) \<or> (item_at a t j = item_at d1 t j \<and> item_at b t j = item_at e1 t j)" by blast
  have "(item_at a t j = item_at b t j \<and> (t, j) \<in> insert (s, k) (stored_keys cont d1)) \<or> (item_at a t j = item_at d t j \<and> item_at b t j = item_at e t j)" for t j
    using b(2)[of t j] by (auto simp: d1_def e1_def item_at_set split: if_splits)
  then show ?case using b(1) unfolding d1_def e1_def by auto
next
  case (Pop s k cont)
  define d1 where "d1 = dset s (dpop k (section_of d s)) d"
  define e1 where "e1 = dset s (dpop k (section_of e s)) e"
  define rds1 where "rds1 = rds\<lparr>tr_seen := (s, k) # tr_seen rds\<rparr>"
  have run: "run_tracked (cont (item_at d s k)) d1 rds1 = (r, a, rds')" using Pop.prems(1) by (simp add: d1_def rds1_def)
  have "(s, k) \<in> set (tr_seen rds')" using run_reads_grow[OF run] by (auto simp: rds1_def)
  then have eq: "item_at d s k = item_at e s k" by (rule Pop.prems(4))
  have "\<exists>b. run_tracked (cont (item_at d s k)) e1 rds1 = (r, b, rds') \<and>
    (\<forall>t j. (item_at a t j = item_at b t j \<and> (t, j) \<in> stored_keys (cont (item_at d s k)) d1) \<or> (item_at a t j = item_at d1 t j \<and> item_at b t j = item_at e1 t j))"
    by (rule Pop.IH[OF rangeI run]) (use Pop.prems in \<open>auto simp: d1_def e1_def item_at_pop\<close>)
  then obtain b where b: "run_tracked (cont (item_at d s k)) e1 rds1 = (r, b, rds')"
    "\<And>t j. (item_at a t j = item_at b t j \<and> (t, j) \<in> stored_keys (cont (item_at d s k)) d1) \<or> (item_at a t j = item_at d1 t j \<and> item_at b t j = item_at e1 t j)" by blast
  have "(item_at a t j = item_at b t j \<and> (t, j) \<in> insert (s, k) (stored_keys (cont (item_at d s k)) d1)) \<or> (item_at a t j = item_at d t j \<and> item_at b t j = item_at e t j)" for t j
    using b(2)[of t j] by (auto simp: d1_def e1_def item_at_pop split: if_splits)
  then show ?case using b(1) eq unfolding d1_def e1_def rds1_def by auto
qed


section \<open>A batch is serializable\<close>

lemma sections_known:
  "distinct doc_sections" "''by-name'' \<notin> set doc_sections" "''meta'' \<in> set doc_sections"
  by (simp_all add: doc_sections_def)

lemma section_assemble:
  "section_of (assemble d) s = (if s \<in> set doc_sections
     then (let vals = map (\<lambda>(k, found). (k, rc_value found)) (section_of d s)
           in if s = ''meta'' then dmerge meta_defaults (dpop ''layout'' vals) else vals) else [])"
proof -
  have "dget (map (\<lambda>s. (s, f s)) ss) s = (if s \<in> set ss then Some (f s) else None)" for f :: "string \<Rightarrow> (string, json) dict" and ss
    by (induction ss) auto
  then have "section_of (map (\<lambda>s. (s, f s)) ss) s = (if s \<in> set ss then f s else [])" for f :: "string \<Rightarrow> (string, json) dict" and ss
    by (simp add: section_of_def)
  then show ?thesis unfolding assemble_def .
qed

lemma dget_values: "dget (map (\<lambda>(k, found). (k, rc_value found)) d) k = map_option rc_value (dget d k)"
  by (induction d) auto

lemma wf_values: "wf_dict d \<Longrightarrow> wf_dict (map (\<lambda>(k, found). (k, rc_value found)) d)"
  by (simp add: comp_def split_beta)

lemma item_assemble:
  assumes "wf_dict (section_of d s)" and "s \<in> set doc_sections"
  shows "item_at (assemble d) s k =
    (case (if s = ''meta'' \<and> k = ''layout'' then None else map_option rc_value (rec_at d s k)) of
       Some v \<Rightarrow> Some v | None \<Rightarrow> if s = ''meta'' then dget meta_defaults k else None)"
proof -
  have "wf_dict (dpop ''layout'' (map (\<lambda>(k, found). (k, rc_value found)) (section_of d s)))"
    using wf_values[OF assms(1)] by auto
  then show ?thesis using assms(2)
    by (auto simp: item_at_def section_assemble Let_def dget_dmerge dget_dpop dget_values rec_at_def split: option.splits)
qed

lemma item_assemble_none: "s \<notin> set doc_sections \<Longrightarrow> item_at (assemble d) s k = None"
  by (simp add: item_at_def section_assemble)

lemma item_assemble_same:
  assumes "\<And>s. wf_dict (section_of d s)" and "\<And>s. wf_dict (section_of e s)" and "rec_at d s k = rec_at e s k"
  shows "item_at (assemble d) s k = item_at (assemble e) s k"
proof (cases "s \<in> set doc_sections")
  case True
  show ?thesis unfolding item_assemble[OF assms(1) True] item_assemble[OF assms(2) True] assms(3) ..
qed (simp add: item_assemble_none)

lemma wf_assemble: "(\<And>s. wf_dict (section_of d s)) \<Longrightarrow> wf_sections (assemble d)"
proof -
  assume wf: "\<And>s. wf_dict (section_of d s)"
  have "wf_dict (section_of (assemble d) s)" for s
    using wf_dict_dmerge[of meta_defaults] wf_values[OF wf[of s]] by (simp add: section_assemble Let_def meta_defaults_def)
  then show ?thesis by (simp add: wf_sections_def)
qed

lemma section_changes_iff:
  "w \<in> set (section_changes s before after loaded) \<longleftrightarrow>
    (\<exists>k v. (k, v) \<in> set after \<and> dget before k \<noteq> Some v \<and>
       w = \<lparr>rw_kind = Put, rw_section = s, rw_key = k, rw_expected = revision_of loaded s k, rw_value = v\<rparr>) \<or>
    (\<exists>k. k \<in> set (dkeys before) \<and> \<not> dhas after k \<and>
       w = \<lparr>rw_kind = Delete, rw_section = s, rw_key = k, rw_expected = revision_of loaded s k, rw_value = JNull\<rparr>)"
  by (auto simp: section_changes_def)

lemma change_expected: "w \<in> set (record_changes before after loaded) \<Longrightarrow> rw_expected w = revision_of loaded (rw_section w) (rw_key w)"
  by (auto simp: record_changes_def section_changes_iff)

lemma change_at:
  assumes "s \<in> set doc_sections" and "wf_dict (section_of after s)"
  shows "w \<in> set (record_changes before after loaded) \<and> rw_section w = s \<and> rw_key w = k \<longleftrightarrow>
    (case item_at after s k of
       Some v \<Rightarrow> item_at before s k \<noteq> Some v \<and>
         w = \<lparr>rw_kind = Put, rw_section = s, rw_key = k, rw_expected = revision_of loaded s k, rw_value = v\<rparr>
     | None \<Rightarrow> item_at before s k \<noteq> None \<and>
         w = \<lparr>rw_kind = Delete, rw_section = s, rw_key = k, rw_expected = revision_of loaded s k, rw_value = JNull\<rparr>)"
proof -
  have "s \<noteq> ''by-name''" using assms(1) sections_known by auto
  then have "w \<in> set (record_changes before after loaded) \<and> rw_section w = s \<longleftrightarrow>
      w \<in> set (section_changes s (section_of before s) (section_of after s) loaded)"
  proof -
    have own: "w \<in> set (section_changes t b c loaded) \<Longrightarrow> rw_section w = t" for t b c by (auto simp: section_changes_iff)
    show ?thesis unfolding record_changes_def using assms(1) \<open>s \<noteq> ''by-name''\<close> own by (auto dest: own)
  qed
  then have here: "w \<in> set (record_changes before after loaded) \<and> rw_section w = s \<and> rw_key w = k \<longleftrightarrow>
      w \<in> set (section_changes s (section_of before s) (section_of after s) loaded) \<and> rw_key w = k" by blast
  have keys: "j \<in> set (dkeys (section_of before s)) \<longleftrightarrow> item_at before s j \<noteq> None" for j
    by (simp add: item_at_def map_of_eq_None_iff)
  have vals: "(j, v) \<in> set (section_of after s) \<longleftrightarrow> item_at after s j = Some v" for j v
    using assms(2) by (simp add: item_at_def map_of_eq_Some_iff)
  have has: "dhas (section_of after s) j \<longleftrightarrow> item_at after s j \<noteq> None" for j by (simp add: dhas_def item_at_def)
  have "w \<in> set (section_changes s (section_of before s) (section_of after s) loaded) \<and> rw_key w = k \<longleftrightarrow>
      (\<exists>v. item_at after s k = Some v \<and> item_at before s k \<noteq> Some v \<and>
         w = \<lparr>rw_kind = Put, rw_section = s, rw_key = k, rw_expected = revision_of loaded s k, rw_value = v\<rparr>) \<or>
      (item_at before s k \<noteq> None \<and> item_at after s k = None \<and>
         w = \<lparr>rw_kind = Delete, rw_section = s, rw_key = k, rw_expected = revision_of loaded s k, rw_value = JNull\<rparr>)"
    unfolding section_changes_iff vals keys has item_at_def[of before, symmetric] by (cases w) fastforce
  then show ?thesis unfolding here by (cases "item_at after s k") simp_all
qed

lemma plan_batch_Some:
  "plan_batch change fence loaded = (r, Some batch) \<longleftrightarrow>
    (\<exists>a rds. run_tracked change (assemble loaded) no_reads = (r, a, rds) \<and> record_changes (assemble loaded) a loaded \<noteq> [] \<and>
      batch = \<lparr>fb_writes = record_changes (assemble loaded) a loaded @
        record_checks rds loaded (record_changes (assemble loaded) a loaded) (fence \<noteq> None), fb_lease = fence\<rparr>)"
  by (auto simp: plan_batch_def Let_def split: prod.splits if_splits)

lemma record_checks_at:
  assumes "s \<in> set doc_sections" and "k \<in> set (section_reads rds loaded s)"
    and "(s, k) \<notin> set (map (\<lambda>w. (rw_section w, rw_key w)) writes)" and "fenced \<Longrightarrow> (s, k) \<noteq> (''meta'', ''lease'')"
  shows "\<lparr>rw_kind = Check, rw_section = s, rw_key = k, rw_expected = revision_of loaded s k, rw_value = JNull\<rparr>
    \<in> set (record_checks rds loaded writes fenced)"
proof -
  have "(s, k) \<notin> set (map (\<lambda>w. (rw_section w, rw_key w)) writes @ (if fenced then [(''meta'', ''lease'')] else []))"
    using assms(3,4) by auto
  then show ?thesis using assms(1,2) unfolding record_checks_def Let_def by simp blast
qed

lemma record_checks_kind: "w \<in> set (record_checks rds loaded writes fenced) \<Longrightarrow> rw_kind w = Check"
  by (auto simp: record_checks_def Let_def)

lemma revision_nonneg: "rec_inv st \<Longrightarrow> 0 \<le> revision_of (rs_rows st) s k"
  by (auto simp: revision_of_def rec_inv_def split: option.splits) (metis int_one_le_iff_zero_less less_imp_le)

text \<open>What a batch that is admitted proves about the records its change saw.\<close>

lemma admitted_same:
  assumes inv: "rec_inv st0" and ev: "rec_ev st0 st1"
    and run: "run_tracked change (assemble (rs_rows st0)) no_reads = (r, a, rds)"
    and batch: "batch = \<lparr>fb_writes = record_changes (assemble (rs_rows st0)) a (rs_rows st0) @
        record_checks rds (rs_rows st0) (record_changes (assemble (rs_rows st0)) a (rs_rows st0)) (fence \<noteq> None), fb_lease = fence\<rparr>"
    and ok: "batch_commit batch st1 = Inr st2"
    and k: "s \<in> set doc_sections" "k \<in> set (section_reads rds (rs_rows st0) s)" "fence \<noteq> None \<Longrightarrow> (s, k) \<noteq> (''meta'', ''lease'')"
  shows "rec_at (rs_rows st1) s k = rec_at (rs_rows st0) s k"
proof -
  define writes where "writes = record_changes (assemble (rs_rows st0)) a (rs_rows st0)"
  have all: "\<And>w. w \<in> set (fb_writes batch) \<Longrightarrow> rw_expected w \<ge> 0 \<Longrightarrow> revision_of (rs_rows st1) (rw_section w) (rw_key w) = rw_expected w"
    using ok unfolding batch_commit_Inr by blast
  have "revision_of (rs_rows st1) s k = revision_of (rs_rows st0) s k"
  proof (cases "(s, k) \<in> set (map (\<lambda>w. (rw_section w, rw_key w)) writes)")
    case True
    then obtain w where w: "w \<in> set writes" "rw_section w = s" "rw_key w = k" by auto
    have "rw_expected w = revision_of (rs_rows st0) s k" using change_expected[OF w(1)[unfolded writes_def]] w by simp
    then show ?thesis using all[of w] w revision_nonneg[OF inv, of s k] unfolding batch writes_def by simp
  next
    case False
    from record_checks_at[OF k(1,2) False, of "fence \<noteq> None"] k(3)
    have "\<lparr>rw_kind = Check, rw_section = s, rw_key = k, rw_expected = revision_of (rs_rows st0) s k, rw_value = JNull\<rparr> \<in> set (fb_writes batch)"
      unfolding batch writes_def by simp
    from all[OF this] revision_nonneg[OF inv, of s k] show ?thesis by simp
  qed
  then show ?thesis by (rule rec_ev_same[OF inv ev])
qed

text \<open>What the change stores is what the records hold after the batch.\<close>

lemma committed_item:
  assumes wf: "\<And>s. wf_dict (section_of (rs_rows st1) s)" "\<And>s. wf_dict (section_of a s)"
    and batch: "fb_writes batch = record_changes before a loaded @ record_checks rds loaded (record_changes before a loaded) fenced"
    and ok: "batch_commit batch st1 = Inr st2" and s: "s \<in> set doc_sections" "(s, k) \<noteq> (''meta'', ''layout'')"
  shows "item_at a s k \<noteq> item_at before s k \<Longrightarrow> s \<noteq> ''meta'' \<or> item_at a s k \<noteq> None \<Longrightarrow> item_at (assemble (rs_rows st2)) s k = item_at a s k"
    and "item_at a s k = item_at before s k \<Longrightarrow> item_at (assemble (rs_rows st2)) s k = item_at (assemble (rs_rows st1)) s k"
proof -
  define n where "n = rs_revision st1 + 1"
  have st2: "rs_rows st2 = foldl (apply_record n) (rs_rows st1) (fb_writes batch)" using ok by (simp add: batch_commit_Inr n_def)
  have wf2: "wf_dict (section_of (rs_rows st2) t)" for t unfolding st2 by (rule wf_applies[OF wf(1)])
  have at: "w \<in> set (fb_writes batch) \<and> rw_kind w \<noteq> Check \<and> rw_section w = s \<and> rw_key w = k \<longleftrightarrow>
      w \<in> set (record_changes before a loaded) \<and> rw_section w = s \<and> rw_key w = k" for w
  proof -
    have "w \<in> set (record_changes before a loaded) \<Longrightarrow> rw_kind w \<noteq> Check"
      by (auto simp: record_changes_def section_changes_iff)
    then show ?thesis unfolding batch using record_checks_kind[of w rds loaded "record_changes before a loaded" fenced] by auto
  qed
  show "item_at (assemble (rs_rows st2)) s k = item_at a s k"
    if changed: "item_at a s k \<noteq> item_at before s k" and keep: "s \<noteq> ''meta'' \<or> item_at a s k \<noteq> None"
  proof -
    define w where "w = (case item_at a s k of
        Some v \<Rightarrow> \<lparr>rw_kind = Put, rw_section = s, rw_key = k, rw_expected = revision_of loaded s k, rw_value = v\<rparr>
      | None \<Rightarrow> \<lparr>rw_kind = Delete, rw_section = s, rw_key = k, rw_expected = revision_of loaded s k, rw_value = JNull\<rparr>)"
    have char: "w' \<in> set (record_changes before a loaded) \<and> rw_section w' = s \<and> rw_key w' = k \<longleftrightarrow> w' = w" for w'
      unfolding change_at[OF s(1) wf(2)] w_def using changed[symmetric] by (cases "item_at a s k") simp_all
    have "rec_at (rs_rows st2) s k = (if rw_kind w = Put then Some \<lparr>rc_revision = n, rc_value = rw_value w\<rparr> else None)"
      unfolding st2
    proof (rule rec_at_write)
      show "w \<in> set (fb_writes batch)" "rw_kind w \<noteq> Check" "rw_section w = s" "rw_key w = k" using at[of w] char[of w] by auto
      show "w' = w" if "w' \<in> set (fb_writes batch)" "rw_kind w' \<noteq> Check" "rw_section w' = s" "rw_key w' = k" for w'
        using at[of w'] char[of w'] that by auto
    qed
    then show ?thesis using keep s item_assemble[OF wf2 s(1)] unfolding w_def by (auto split: option.splits)
  qed
  show "item_at (assemble (rs_rows st2)) s k = item_at (assemble (rs_rows st1)) s k" if same: "item_at a s k = item_at before s k"
  proof -
    have "\<not> (w \<in> set (fb_writes batch) \<and> rw_kind w \<noteq> Check \<and> rw_section w = s \<and> rw_key w = k)" for w
      unfolding at change_at[OF s(1) wf(2)] using same by (auto split: option.splits)
    then have "rec_at (rs_rows st2) s k = rec_at (rs_rows st1) s k"
      unfolding st2 using rec_at_applies[of n "rs_rows st1" "fb_writes batch" s k] by blast
    then show ?thesis by (intro item_assemble_same wf2 wf(1))
  qed
qed


text \<open>
  What the theorem asks of a change and of the others: no section it scanned gained a record after the
  loading, and every record it stores is one it reads or really changes. A fenced change reads the lease
  in its guard, and its batch leaves the lease out of the checks: the fence judges the lease found at
  the commit, which may have been renewed. So a fenced change has to answer the same for that lease, and
  to leave the lease itself alone.
\<close>

definition no_new_rows :: "read_set \<Rightarrow> rows \<Rightarrow> rows \<Rightarrow> bool" where
  "no_new_rows rds old now \<longleftrightarrow> (\<forall>s \<in> set (tr_whole rds). \<forall>k. rec_at old s k = None \<longrightarrow> rec_at now s k = None)"

definition no_blind_store :: "'r tracked \<Rightarrow> sections \<Rightarrow> sections \<Rightarrow> read_set \<Rightarrow> bool" where
  "no_blind_store change before after rds \<longleftrightarrow> (\<forall>(s, k) \<in> stored_keys change before.
     (s, k) \<in> set (tr_seen rds) \<or> item_at after s k \<noteq> item_at before s k)"

text \<open>The document that was loaded, under a fence with the lease the fence finds.\<close>

definition under_lease :: "lease_fence option \<Rightarrow> sections \<Rightarrow> sections \<Rightarrow> sections" where
  "under_lease fence found d = (case (fence, item_at found ''meta'' ''lease'') of
     (Some _, Some v) \<Rightarrow> dset ''meta'' (dset ''lease'' v (section_of d ''meta'')) d
   | _ \<Rightarrow> d)"

definition off_lease :: "sections \<Rightarrow> sections \<Rightarrow> bool" where
  "off_lease a b \<longleftrightarrow> (\<forall>s k. (s, k) \<noteq> (''meta'', ''lease'') \<longrightarrow> item_at a s k = item_at b s k)"

definition answers_alike :: "'r tracked \<Rightarrow> lease_fence option \<Rightarrow> sections \<Rightarrow> sections \<Rightarrow> 'r \<times> sections \<times> read_set \<Rightarrow> bool" where
  "answers_alike change fence d e res \<longleftrightarrow> fence = None \<or>
    (item_at (fst (snd res)) ''meta'' ''lease'' = item_at d ''meta'' ''lease'' \<and>
     (''meta'', ''lease'') \<notin> stored_keys change (under_lease fence e d) \<and>
     (\<exists>a. run_tracked change (under_lease fence e d) no_reads = (fst res, a, snd (snd res)) \<and> off_lease a (fst (snd res))))"

lemma under_no_fence [simp]: "under_lease None e d = d"
  by (simp add: under_lease_def)

lemma wf_under_lease: "wf_sections d \<Longrightarrow> wf_sections (under_lease fence e d)"
  by (auto simp: under_lease_def split: option.splits)

lemma item_under_lease: "(s, k) \<noteq> (''meta'', ''lease'') \<Longrightarrow> item_at (under_lease fence e d) s k = item_at d s k"
  by (auto simp: under_lease_def item_at_set split: option.splits)

lemma lease_under_lease: "item_at e ''meta'' ''lease'' = Some v \<Longrightarrow>
    item_at (under_lease (Some f) e d) ''meta'' ''lease'' = item_at e ''meta'' ''lease''"
  by (simp add: under_lease_def item_at_set)

lemma lease_assembled:
  assumes "\<And>s. wf_dict (section_of d s)"
  shows "\<exists>v. item_at (assemble d) ''meta'' ''lease'' = Some v"
  unfolding item_assemble[OF assms sections_known(3)] by (auto simp: meta_defaults_def split: option.splits)

text \<open>A change that neither reads the lease nor stores it answers alike under every lease.\<close>

lemma unread_lease_alike:
  assumes run: "run_tracked change d no_reads = (r, a, rds)" and wf: "wf_sections d"
    and "(''meta'', ''lease'') \<notin> set (tr_seen rds)" and "''meta'' \<notin> set (tr_whole rds)"
    and stored: "\<And>x. (''meta'', ''lease'') \<notin> stored_keys change x"
  shows "answers_alike change fence d e (r, a, rds)"
proof -
  have same: "item_at d s k = item_at (under_lease fence e d) s k" if "(s, k) \<in> set (tr_seen rds) \<or> s \<in> set (tr_whole rds)" for s k
    using that assms(3,4) by (intro item_under_lease[symmetric]) auto
  obtain b where b: "run_tracked change (under_lease fence e d) no_reads = (r, b, rds)"
    "\<And>s k. (item_at a s k = item_at b s k \<and> (s, k) \<in> stored_keys change d) \<or>
       (item_at a s k = item_at d s k \<and> item_at b s k = item_at (under_lease fence e d) s k)"
    using run_same[OF run wf wf_under_lease[OF wf]] same by blast
  have "off_lease b a" unfolding off_lease_def using b(2) item_under_lease by metis
  moreover have "item_at a ''meta'' ''lease'' = item_at d ''meta'' ''lease''" using b(2) stored by blast
  ultimately show ?thesis using b(1) stored by (auto simp: answers_alike_def)
qed

text \<open>
  C3: the per record layout is serializable. When the batch of a change is admitted on the records as
  the other writers left them, no section the change scanned gained a record, every record it stores is
  one it read or really changed, and, under a fence, it answers alike for the lease found at the commit
  and leaves the lease alone, then the change would have answered the same and read the same on those
  very records, and every record holds afterwards what the change would have left there.
\<close>

theorem batch_serializable:
  assumes "rec_inv st0" and "rec_ev st0 st1"
    and "plan_batch change fence (rs_rows st0) = (r, Some batch)" and "batch_commit batch st1 = Inr st2"
    and "run_tracked change (assemble (rs_rows st0)) no_reads = (r, a, rds)"
    and "no_new_rows rds (rs_rows st0) (rs_rows st1)"
    and "no_blind_store change (under_lease fence (assemble (rs_rows st1)) (assemble (rs_rows st0))) a rds"
    and "answers_alike change fence (assemble (rs_rows st0)) (assemble (rs_rows st1)) (r, a, rds)"
  shows "\<exists>b. run_tracked change (assemble (rs_rows st1)) no_reads = (r, b, rds) \<and>
    (\<forall>s \<in> set doc_sections. \<forall>k. (s = ''meta'' \<longrightarrow> k \<noteq> ''layout'' \<and> item_at b s k \<noteq> None) \<longrightarrow>
       item_at (assemble (rs_rows st2)) s k = item_at b s k)"
proof -
  define d where "d = assemble (rs_rows st0)"
  define e where "e = assemble (rs_rows st1)"
  define base where "base = under_lease fence e d"
  have wf0: "wf_dict (section_of (rs_rows st0) s)" and wf1: "wf_dict (section_of (rs_rows st1) s)" for s
    using assms(1,2) by (auto simp: rec_inv_def rec_ev_def)
  have wfd: "wf_sections d" "wf_sections e" unfolding d_def e_def by (auto intro: wf_assemble wf0 wf1)
  have batch: "batch = \<lparr>fb_writes = record_changes (assemble (rs_rows st0)) a (rs_rows st0) @
      record_checks rds (rs_rows st0) (record_changes (assemble (rs_rows st0)) a (rs_rows st0)) (fence \<noteq> None), fb_lease = fence\<rparr>"
    using assms(3,5) unfolding plan_batch_Some by auto
  obtain v where v: "item_at e ''meta'' ''lease'' = Some v" using lease_assembled[OF wf1] by (auto simp: e_def)
  have lease: "item_at base ''meta'' ''lease'' = item_at e ''meta'' ''lease''" if "fence \<noteq> None"
    using that lease_under_lease[OF v] by (auto simp: base_def)
  have off: "item_at base s k = item_at d s k" if "fence = None \<or> (s, k) \<noteq> (''meta'', ''lease'')" for s k
    using that item_under_lease[of s k fence e d] by (auto simp: base_def)
  have read: "item_at base s k = item_at e s k" if k: "k \<in> set (section_reads rds (rs_rows st0) s)" for s k
  proof (cases "fence \<noteq> None \<and> (s, k) = (''meta'', ''lease'')")
    case True
    then show ?thesis using lease by simp
  next
    case False
    show ?thesis
    proof (cases "s \<in> set doc_sections")
      case True
      from admitted_same[OF assms(1,2,5) batch assms(4) True k] False
      have "item_at d s k = item_at e s k" unfolding d_def e_def by (intro item_assemble_same wf0 wf1) auto
      then show ?thesis using off[of s k] False by auto
    qed (use off[of s k] False in \<open>auto simp: d_def e_def item_assemble_none\<close>)
  qed
  have whole: "item_at base s k = item_at e s k" if s: "s \<in> set (tr_whole rds)" for s k
  proof (cases "fence \<noteq> None \<and> (s, k) = (''meta'', ''lease'')")
    case False
    show ?thesis
    proof (cases "rec_at (rs_rows st0) s k")
      case None
      then have "rec_at (rs_rows st1) s k = None" using assms(6) s by (auto simp: no_new_rows_def)
      then have "item_at d s k = item_at e s k" unfolding d_def e_def using None by (intro item_assemble_same wf0 wf1) simp
      then show ?thesis using off[of s k] False by auto
    next
      case (Some found)
      then have "k \<in> set (dkeys (section_of (rs_rows st0) s))" by (force simp: rec_at_def dest: map_of_SomeD)
      then show ?thesis using s by (intro read) (simp add: section_reads_def)
    qed
  qed (use lease in simp)
  have seen: "item_at base s k = item_at e s k" if "(s, k) \<in> set (tr_seen rds)" for s k
  proof (cases "s \<in> set (tr_whole rds)")
    case False
    then show ?thesis using that by (intro read) (force simp: section_reads_def)
  qed (rule whole)
  obtain a' where run': "run_tracked change base no_reads = (r, a', rds)" and a': "off_lease a' a" "fence = None \<Longrightarrow> a' = a"
  proof (cases fence)
    case None
    then show thesis using that[of a] assms(5) by (simp add: base_def d_def off_lease_def)
  next
    case (Some f)
    then show thesis using that assms(8) unfolding answers_alike_def base_def d_def e_def by auto
  qed
  obtain b where run: "run_tracked change e no_reads = (r, b, rds)"
    and each: "\<And>s k. (item_at a' s k = item_at b s k \<and> (s, k) \<in> stored_keys change base) \<or>
      (item_at a' s k = item_at base s k \<and> item_at b s k = item_at e s k)"
    using run_same[OF run' wf_under_lease[OF wfd(1), of fence e, folded base_def] wfd(2) seen whole] by blast
  have wfa: "wf_dict (section_of a s)" for s using run_wf[OF assms(5)[folded d_def] wfd(1)] by (simp add: wf_sections_def)
  have w: "fb_writes batch = record_changes d a (rs_rows st0) @ record_checks rds (rs_rows st0) (record_changes d a (rs_rows st0)) (fence \<noteq> None)"
    by (simp add: batch d_def)
  have "item_at (assemble (rs_rows st2)) s k = item_at b s k"
    if s: "s \<in> set doc_sections" and keep: "s = ''meta'' \<longrightarrow> k \<noteq> ''layout'' \<and> item_at b s k \<noteq> None" for s k
  proof (cases "fence \<noteq> None \<and> (s, k) = (''meta'', ''lease'')")
    case True
    then have "item_at a s k = item_at d s k" "(s, k) \<notin> stored_keys change base"
      using assms(8) by (auto simp: answers_alike_def base_def d_def e_def)
    moreover from this(2) have "item_at b s k = item_at e s k" using each by blast
    ultimately show ?thesis using committed_item(2)[OF wf1 wfa w assms(4) s, of k] keep unfolding e_def by auto
  next
    case plain: False
    then have eq: "item_at base s k = item_at d s k" "item_at a' s k = item_at a s k"
      using off[of s k] a' by (auto simp: off_lease_def)
    show ?thesis
    proof (cases "item_at a s k = item_at d s k")
      case False
      then have "item_at a s k = item_at b s k" using each[of s k] eq by auto
      then show ?thesis using committed_item(1)[OF wf1 wfa w assms(4) s, of k] keep False by auto
    next
      case True
      have "item_at b s k = item_at e s k"
      proof (cases "(s, k) \<in> stored_keys change base \<and> item_at a' s k = item_at b s k")
        case stored: True
        then have "(s, k) \<in> set (tr_seen rds)"
          using assms(7) True eq unfolding no_blind_store_def base_def d_def e_def by fastforce
        then show ?thesis using seen True stored eq by metis
      qed (use each[of s k] in blast)
      then show ?thesis using committed_item(2)[OF wf1 wfa w assms(4) s, of k] keep True unfolding e_def by auto
    qed
  qed
  then show ?thesis using run unfolding e_def by blast
qed

text \<open>A write of the records that returns has made one such attempt last, or had nothing to write.\<close>

definition record_others :: "(rec_store \<Rightarrow> rec_store) list \<Rightarrow> bool" where
  "record_others envs \<longleftrightarrow> (\<forall>env \<in> set envs. \<forall>st. rec_inv st \<longrightarrow> rec_ev st (env st))"

lemma records_write_attempt:
  assumes "rec_inv st" and "record_others envs" and "records_write change fence envs st = (Inr r, st')"
  shows "\<exists>st0. rec_ev st st0 \<and> ((plan_batch change (fence st0) (rs_rows st0) = (r, None) \<and> st' = st0) \<or>
    (\<exists>batch st1. plan_batch change (fence st0) (rs_rows st0) = (r, Some batch) \<and> rec_ev st0 st1 \<and> batch_commit batch st1 = Inr st'))"
  using assms
proof (induction envs arbitrary: st)
  case Nil
  then show ?case by simp
next
  case (Cons env envs)
  have ev: "rec_ev st (env st)" using Cons.prems(1,2) by (simp add: record_others_def)
  obtain x batch where plan: "plan_batch change (fence st) (rs_rows st) = (x, batch)" by fastforce
  show ?case
  proof (cases batch)
    case None
    then show ?thesis using Cons.prems(1,3) plan rec_ev_refl by auto
  next
    case (Some bt)
    show ?thesis
    proof (cases "batch_commit bt (env st)")
      case (Inr st2)
      then show ?thesis using Cons.prems plan Some ev rec_ev_refl by (auto simp: Let_def)
    next
      case (Inl err)
      then have "records_write change fence envs (env st) = (Inr r, st')" "record_others envs"
        using Cons.prems plan Some by (auto simp: Let_def record_others_def split: if_splits)
      moreover have "rec_inv (env st)" using ev by (simp add: rec_ev_def)
      ultimately show ?thesis using Cons.IH rec_ev_trans[OF ev] by blast
    qed
  qed
qed

section \<open>Where it ends: scans and new records\<close>

text \<open>
  A change that counts the executions and files the count under a grant. Its batch, planned on no
  executions, is admitted after another writer added one, and the count stays zero: a scan checks the
  rows it saw, not the absence of others.
\<close>

definition count_change :: "unit tracked" where
  "count_change = Scan ''executions'' (\<lambda>rows. Set_Item ''grants'' ''count'' (JInt (int (length rows))) (Return ()))"

definition one_execution :: rec_store where
  "one_execution = \<lparr>rs_revision = 1, rs_rows = [(''executions'', [(''e1'', \<lparr>rc_revision = 1, rc_value = JInt 7\<rparr>)])]\<rparr>"

definition no_records :: rec_store where
  "no_records = \<lparr>rs_revision = 0, rs_rows = []\<rparr>"

lemmas rec_eval = plan_batch_def count_change_def no_records_def one_execution_def assemble_def doc_sections_def section_of_def
  record_changes_def section_changes_def name_heads_def record_checks_def section_reads_def batch_commit_def revision_of_def rec_at_def
  apply_record_def meta_defaults_def dmerge_def no_reads_def item_at_def dhas_def Let_def

text \<open>C40: A scanned section is checked only on the records it had when it was loaded: a change that counts
  the executions of the empty store still commits, with the count zero, after another writer has added
  one, where the change run on the records at that moment counts one.\<close>

lemma scan_misses_new_row:
  "\<exists>batch st2. rec_ev no_records one_execution \<and>
    plan_batch count_change None (rs_rows no_records) = ((), Some batch) \<and> batch_commit batch one_execution = Inr st2 \<and>
    item_at (assemble (rs_rows st2)) ''grants'' ''count'' = Some (JInt 0) \<and>
    item_at (fst (snd (run_tracked count_change (assemble (rs_rows one_execution)) no_reads))) ''grants'' ''count'' = Some (JInt 1)"
proof -
  have "rec_ev no_records one_execution"
    by (auto simp: rec_ev_def rec_inv_def no_records_def one_execution_def rec_at_def section_of_def)
  moreover have "\<exists>batch st2. plan_batch count_change None (rs_rows no_records) = ((), Some batch) \<and> batch_commit batch one_execution = Inr st2 \<and>
    item_at (assemble (rs_rows st2)) ''grants'' ''count'' = Some (JInt 0)"
    by (simp add: rec_eval)
  moreover have "item_at (fst (snd (run_tracked count_change (assemble (rs_rows one_execution)) no_reads))) ''grants'' ''count'' = Some (JInt 1)"
    by (simp add: rec_eval)
  ultimately show ?thesis by blast
qed

text \<open>
  The guard of a fenced change, \<open>guarded\<close> of lease.py over the recorded lease: it goes on only while the
  lease is the one it was given, at the clock it read.
\<close>

definition lease_held :: "lease_fence \<Rightarrow> json option \<Rightarrow> bool" where
  "lease_held f found = (case found of
     Some (JObj lease) \<Rightarrow>
       (lf_owner f = '''' \<or> jget lease ''owner'' = JStr (lf_owner f)) \<and> jget lease ''epoch'' = JInt (lf_epoch f) \<and>
       (case jget lease ''expires_at'' of JInt until \<Rightarrow> lf_now_ms f < until | _ \<Rightarrow> False)
   | _ \<Rightarrow> False)"

definition guarded_by :: "lease_fence \<Rightarrow> 'r \<Rightarrow> 'r tracked \<Rightarrow> 'r tracked" where
  "guarded_by f refused change = Get ''meta'' ''lease'' (\<lambda>found. if lease_held f found then change else Return refused)"

lemma run_reads_add:
  "run_tracked p d rds = (case run_tracked p d no_reads of (r, a, n) \<Rightarrow>
     (r, a, \<lparr>tr_seen = tr_seen n @ tr_seen rds, tr_whole = tr_whole n @ tr_whole rds\<rparr>))"
proof (induction p arbitrary: d rds)
  case (Get s k cont)
  obtain r a n where "run_tracked (cont (item_at d s k)) d no_reads = (r, a, n)" by (cases rule: prod_cases3)
  then have "run_tracked (cont (item_at d s k)) d x = (r, a, \<lparr>tr_seen = tr_seen n @ tr_seen x, tr_whole = tr_whole n @ tr_whole x\<rparr>)" for x
    using Get.IH[OF rangeI, of "item_at d s k" d x] by simp
  then show ?case by (simp add: no_reads_def)
next
  case (Scan s cont)
  obtain r a n where "run_tracked (cont (sort_key fst (section_of d s))) d no_reads = (r, a, n)" by (cases rule: prod_cases3)
  then have "run_tracked (cont (sort_key fst (section_of d s))) d x = (r, a, \<lparr>tr_seen = tr_seen n @ tr_seen x, tr_whole = tr_whole n @ tr_whole x\<rparr>)" for x
    using Scan.IH[OF rangeI, of "sort_key fst (section_of d s)" d x] by simp
  then show ?case by (simp add: no_reads_def)
next
  case (Pop s k cont)
  define e where "e = dset s (dpop k (section_of d s)) d"
  obtain r a n where "run_tracked (cont (item_at d s k)) e no_reads = (r, a, n)" by (cases rule: prod_cases3)
  then have "run_tracked (cont (item_at d s k)) e x = (r, a, \<lparr>tr_seen = tr_seen n @ tr_seen x, tr_whole = tr_whole n @ tr_whole x\<rparr>)" for x
    using Pop.IH[OF rangeI, of "item_at d s k" e x] by simp
  then show ?case by (simp add: no_reads_def e_def)
next
  case (Set_Item s k v cont)
  show ?case unfolding run_tracked.simps by (rule Set_Item.IH)
qed (simp add: no_reads_def)

text \<open>
  A fenced change whose work leaves the lease alone answers alike for the lease it loaded and the renewed
  one, so its batch commits without a second run.
\<close>

lemma guarded_alike:
  assumes "lease_held f (item_at d ''meta'' ''lease'')" and "lease_held f (item_at e ''meta'' ''lease'')" and "wf_sections d"
    and "run_tracked (guarded_by f x change) d no_reads = (r, a, rds)"
    and "run_tracked change d no_reads = (r', a', own)" and "(''meta'', ''lease'') \<notin> set (tr_seen own)" "''meta'' \<notin> set (tr_whole own)"
    and "\<And>y. (''meta'', ''lease'') \<notin> stored_keys change y"
  shows "answers_alike (guarded_by f x change) (Some f) d e (r, a, rds)"
proof -
  have on_d: "run_tracked (guarded_by f x change) d no_reads =
      (r', a', \<lparr>tr_seen = tr_seen own @ [(''meta'', ''lease'')], tr_whole = tr_whole own\<rparr>)"
    using assms(1,5) by (simp add: guarded_by_def) (subst run_reads_add, simp add: no_reads_def)
  obtain v where "item_at e ''meta'' ''lease'' = Some v" using assms(2) by (auto simp: lease_held_def split: option.splits)
  then have held: "lease_held f (item_at (under_lease (Some f) e d) ''meta'' ''lease'')"
    using lease_under_lease assms(2) by metis
  have "answers_alike change (Some f) d e (r', a', own)" by (rule unread_lease_alike[OF assms(5,3,6,7,8)])
  then obtain b where b: "run_tracked change (under_lease (Some f) e d) no_reads = (r', b, own)" "off_lease b a'"
    "item_at a' ''meta'' ''lease'' = item_at d ''meta'' ''lease''"
    by (auto simp: answers_alike_def)
  have "run_tracked (guarded_by f x change) (under_lease (Some f) e d) no_reads =
      (r', b, \<lparr>tr_seen = tr_seen own @ [(''meta'', ''lease'')], tr_whole = tr_whole own\<rparr>)"
    using held b(1) by (simp add: guarded_by_def) (subst run_reads_add, simp add: no_reads_def)
  moreover have "(''meta'', ''lease'') \<notin> stored_keys (guarded_by f x change) (under_lease (Some f) e d)"
    using assms(8) by (simp add: guarded_by_def)
  ultimately show ?thesis using on_d assms(4) b(2,3) by (auto simp: answers_alike_def)
qed

text \<open>
  A guarded change that files an intent, planned under a lease that is renewed before its batch arrives.
\<close>

definition fence_seven :: lease_fence where
  "fence_seven = \<lparr>lf_owner = ''home'', lf_epoch = 7, lf_now_ms = 50\<rparr>"

definition lease_till :: "int \<Rightarrow> json" where
  "lease_till n = JObj [(''owner'', JStr ''home''), (''epoch'', JInt 7), (''expires_at'', JInt n)]"

definition leased_at :: "int \<Rightarrow> int \<Rightarrow> rec_store" where
  "leased_at rv n = \<lparr>rs_revision = rv, rs_rows = [(''meta'', [(''lease'', \<lparr>rc_revision = rv, rc_value = lease_till n\<rparr>)])]\<rparr>"

definition intent_change :: "bool tracked" where
  "intent_change = guarded_by fence_seven False (Set_Item ''intents'' ''i'' (JInt 1) (Return True))"

lemmas lease_eval = rec_eval intent_change_def guarded_by_def lease_held_def fence_seven_def lease_till_def leased_at_def jget_def
  fence_stale_def

lemma batch_serializable_witness:
  "\<exists>b batch st2. plan_batch intent_change (Some fence_seven) (rs_rows (leased_at 1 100)) = (True, Some batch) \<and>
    batch_commit batch (leased_at 2 200) = Inr st2 \<and>
    run_tracked intent_change (assemble (rs_rows (leased_at 2 200))) no_reads = (True, b, \<lparr>tr_seen = [(''meta'', ''lease'')], tr_whole = []\<rparr>) \<and>
    item_at (assemble (rs_rows st2)) ''intents'' ''i'' = item_at b ''intents'' ''i'' \<and>
    item_at (assemble (rs_rows st2)) ''meta'' ''lease'' = Some (lease_till 200)"
proof -
  let ?rds = "\<lparr>tr_seen = [(''meta'', ''lease'')], tr_whole = []\<rparr> :: read_set"
  let ?d = "assemble (rs_rows (leased_at 1 100))" and ?e = "assemble (rs_rows (leased_at 2 200))"
  have inv: "rec_inv (leased_at 1 100)" "rec_ev (leased_at 1 100) (leased_at 2 200)"
    by (auto simp: rec_ev_def rec_inv_def leased_at_def rec_at_def section_of_def)
  have "\<exists>batch st2. plan_batch intent_change (Some fence_seven) (rs_rows (leased_at 1 100)) = (True, Some batch) \<and>
      batch_commit batch (leased_at 2 200) = Inr st2 \<and> item_at (assemble (rs_rows st2)) ''meta'' ''lease'' = Some (lease_till 200)"
    by (simp add: lease_eval)
  then obtain batch st2 where b: "plan_batch intent_change (Some fence_seven) (rs_rows (leased_at 1 100)) = (True, Some batch)"
    "batch_commit batch (leased_at 2 200) = Inr st2" and lease: "item_at (assemble (rs_rows st2)) ''meta'' ''lease'' = Some (lease_till 200)"
    by blast
  have "\<exists>a. run_tracked intent_change ?d no_reads = (True, a, ?rds) \<and> item_at a ''intents'' ''i'' = Some (JInt 1)"
    by (simp add: lease_eval)
  then obtain a where a: "run_tracked intent_change ?d no_reads = (True, a, ?rds)" "item_at a ''intents'' ''i'' = Some (JInt 1)" by blast
  have none: "item_at ?d ''intents'' ''i'' = None" by (simp add: lease_eval)
  have wf: "wf_sections ?d" using inv(1) by (intro wf_assemble) (simp add: rec_inv_def)
  have held: "lease_held fence_seven (item_at ?d ''meta'' ''lease'')" "lease_held fence_seven (item_at ?e ''meta'' ''lease'')"
    by (simp_all add: lease_eval)
  obtain a0 where own: "run_tracked (Set_Item ''intents'' ''i'' (JInt 1) (Return True)) ?d no_reads = (True, a0, no_reads)" by simp
  have "answers_alike intent_change (Some fence_seven) ?d ?e (True, a, ?rds)"
    unfolding intent_change_def
    by (rule guarded_alike[OF held wf a(1)[unfolded intent_change_def] own]) (simp_all add: no_reads_def)
  moreover have "no_new_rows ?rds (rs_rows (leased_at 1 100)) (rs_rows (leased_at 2 200))" by (simp add: no_new_rows_def)
  moreover have "no_blind_store intent_change (under_lease (Some fence_seven) ?e ?d) a ?rds"
    using a(2) none by (auto simp: no_blind_store_def intent_change_def guarded_by_def item_under_lease split: if_splits)
  ultimately obtain bb where bb: "run_tracked intent_change ?e no_reads = (True, bb, ?rds)"
    "\<forall>s \<in> set doc_sections. \<forall>k. (s = ''meta'' \<longrightarrow> k \<noteq> ''layout'' \<and> item_at bb s k \<noteq> None) \<longrightarrow>
       item_at (assemble (rs_rows st2)) s k = item_at bb s k"
    using batch_serializable[OF inv b a(1)] by blast
  have "''intents'' \<in> set doc_sections" "''intents'' \<noteq> ''meta''" by (simp_all add: doc_sections_def)
  then have "item_at (assemble (rs_rows st2)) ''intents'' ''i'' = item_at bb ''intents'' ''i''"
    by (intro bb(2)[rule_format]) simp_all
  with b bb(1) lease show ?thesis by - (rule exI[of _ bb], rule exI[of _ batch], rule exI[of _ st2], (rule conjI | assumption)+)
qed

end
