(* ===== verification/Broadcasts.thy ===== *)
theory Broadcasts
  imports Watch_Loop Text_Tools Fleet_Registry
begin

text \<open>
  Fleet broadcasts (\<open>scripts/swarm_v2/broadcasts.py\<close>): the messages of a swarm with their revisions, what
  each seat was handed and has acknowledged, and the answers kept for retried requests, all in hashes
  of the swarm that one optimistic transaction changes. The check of a launch grant, the operator's
  login and the random part of a broadcast's name are parameters. Stored rows are kept decoded; a
  character is one of the first 256. Lags are rational seconds.
\<close>

section \<open>Records\<close>

record broadcast =
  bc_broadcast_id :: string
  bc_revision :: int
  bc_fleet :: string
  bc_brain_id :: string
  bc_project_id :: string
  bc_target_role :: string
  bc_channel :: string
  bc_severity :: string
  bc_policy :: string
  bc_message :: string
  bc_author :: string
  bc_published_ms :: int
  bc_expires_ms :: int

record bc_delivery =
  bl_broadcast :: broadcast
  bl_delivered_ms :: int
  bl_lag_seconds :: rat

record bc_draft =
  bd_broadcast_id :: string
  bd_channel :: string
  bd_target_role :: string
  bd_brain_id :: json
  bd_project_id :: string
  bd_severity :: string
  bd_policy :: string
  bd_message :: string
  bd_ttl_seconds :: int

text \<open>What a seat was handed of one broadcast, and the last answer a seat got under a claim id.\<close>

record bc_receipt =
  br_revision :: int
  br_delivered_ms :: int
  br_acked :: bool
  br_execution_id :: string
  br_generation :: int

record bc_answer =
  bq_claim_id :: string
  bq_generation :: int
  bq_deliveries :: "bc_delivery list"

record bc_store =
  bs_canonical :: "(string, broadcast) dict"
  bs_history :: "broadcast list"
  bs_operations :: "(string, broadcast) dict"
  bs_frozen :: bool
  bs_deliveries :: "(string, (string, bc_receipt) dict) dict"
  bs_claims :: "(string, bc_answer) dict"
  bs_generations :: "(string, int) dict"
  bs_duplicates :: "(string, int) dict"

section \<open>Drafts\<close>

definition once :: string where
  "once = ''once''"

definition until_ack :: string where
  "until_ack = ''until_ack''"

definition policies :: "(string, string) dict" where
  "policies = [(''nuclear'', until_ack), (''critical'', until_ack), (''alert'', until_ack), (''warning'', until_ack),
     (''info'', once), (''resolved'', once)]"

definition operator_only :: "string list" where
  "operator_only = [''nuclear'', ''critical'']"

definition draft_fields :: "string list" where
  "draft_fields = [''broadcast_id'', ''channel'', ''severity'', ''message'', ''ttl_seconds'', ''brain_id'', ''project_id'',
     ''target_role'', ''policy'']"

definition draft_required :: "string list" where
  "draft_required = [''severity'', ''message'', ''ttl_seconds'']"

definition name_char :: "char \<Rightarrow> bool" where
  "name_char ch \<longleftrightarrow> is_lower ch \<or> is_digit ch"

text \<open>\<open>[a-z0-9][a-z0-9._-]{0,63}\<close> over the whole text.\<close>

definition name_text :: "string \<Rightarrow> bool" where
  "name_text s \<longleftrightarrow> s \<noteq> [] \<and> length s \<le> 64 \<and> name_char (hd s) \<and> list_all (\<lambda>ch. name_char ch \<or> ch \<in> set ''._-'') (tl s)"

definition bc_name :: "json \<Rightarrow> fault + string" where
  "bc_name v = (case v of JStr s \<Rightarrow> if name_text s then Inr s else fleet_error ''invalid_request'' | _ \<Rightarrow> fleet_error ''invalid_request'')"

definition bc_optional :: "json \<Rightarrow> fault + string" where
  "bc_optional v = (if v = JStr '''' then Inr '''' else bc_name v)"

definition jdefault :: "jdict \<Rightarrow> string \<Rightarrow> json \<Rightarrow> json" where
  "jdefault d k v = (case dget d k of None \<Rightarrow> v | Some found \<Rightarrow> found)"

text \<open>A severity that no dict can look up (a list or an object) raises \<open>TypeError\<close>.\<close>

definition read_draft :: "json \<Rightarrow> fault + bc_draft" where
  "read_draft draft =
    (case draft of
      JObj d \<Rightarrow>
        if \<not> set draft_required \<subseteq> set (dkeys d) \<or> \<not> set (dkeys d) \<subseteq> set draft_fields then fleet_error ''invalid_request''
        else (case jget d ''message'' of
          JStr message \<Rightarrow>
            if py_strip message = [] \<or> length message > 8192 then fleet_error ''invalid_request''
            else (case jget d ''severity'' of
              JList _ \<Rightarrow> Inl Type_Error
            | JObj _ \<Rightarrow> Inl Type_Error
            | JStr severity \<Rightarrow>
                (case (dget policies severity, jget d ''ttl_seconds'') of
                  (Some usual, JInt ttl) \<Rightarrow>
                    if ttl \<le> 0 \<or> ttl > 86400 then fleet_error ''invalid_request''
                    else (case (jdefault d ''policy'' (JStr usual), jdefault d ''project_id'' (JStr '''')) of
                      (JStr policy, JStr project) \<Rightarrow>
                        if policy \<noteq> once \<and> policy \<noteq> until_ack then fleet_error ''invalid_request''
                        else and_then (bc_optional (jdefault d ''broadcast_id'' (JStr ''''))) (\<lambda>broadcast_id.
                          and_then (bc_optional (jdefault d ''channel'' (JStr ''''))) (\<lambda>channel.
                            and_then (bc_optional (jdefault d ''target_role'' (JStr ''''))) (\<lambda>target_role.
                              Inr \<lparr>bd_broadcast_id = broadcast_id, bd_channel = channel, bd_target_role = target_role,
                                   bd_brain_id = jget d ''brain_id'', bd_project_id = project, bd_severity = severity,
                                   bd_policy = policy, bd_message = py_strip message, bd_ttl_seconds = ttl\<rparr>)))
                    | _ \<Rightarrow> fleet_error ''invalid_request'')
                | _ \<Rightarrow> fleet_error ''invalid_request'')
            | _ \<Rightarrow> fleet_error ''invalid_request'')
        | _ \<Rightarrow> fleet_error ''invalid_request'')
    | _ \<Rightarrow> fleet_error ''invalid_request'')"

section \<open>Publishing\<close>

definition broadcast_content :: "broadcast \<Rightarrow> string list" where
  "broadcast_content b = [bc_brain_id b, bc_project_id b, bc_target_role b, bc_channel b, bc_severity b, bc_policy b, bc_message b]"

definition draft_content :: "string \<Rightarrow> bc_draft \<Rightarrow> string list" where
  "draft_content brain d = [brain, bd_project_id d, bd_target_role d, bd_channel d, bd_severity d, bd_policy d, bd_message d]"

definition owner_of :: "string \<Rightarrow> string" where
  "owner_of author = (if starts_with ''operator:'' author then ''operator'' else takeWhile (\<lambda>ch. ch \<noteq> CHR ''/'') author)"

text \<open>\<open>re.sub(r"-\d+$", "", seat.partition("@")[0])\<close>\<close>

definition role_of :: "string \<Rightarrow> string" where
  "role_of seat =
    (let front = takeWhile (\<lambda>ch. ch \<noteq> CHR ''@'') seat;
         digits = takeWhile is_digit (rev front); rest = dropWhile is_digit (rev front)
     in if digits \<noteq> [] \<and> rest \<noteq> [] \<and> hd rest = CHR ''-'' then rev (tl rest) else front)"

definition bc_grant :: "string \<Rightarrow> (string \<Rightarrow> fault + registration) \<Rightarrow> string \<Rightarrow> fault + registration" where
  "bc_grant slug authorize token =
    (if token = '''' then fleet_error ''forbidden_scope''
     else and_then (authorize token) (\<lambda>grant.
       if rg_swarm_id grant \<noteq> slug then fleet_error ''forbidden_scope'' else Inr grant))"

record bc_request =
  bp_draft :: bc_draft
  bp_brain :: string
  bp_author :: string
  bp_operation_id :: string
  bp_now :: int
  bp_uuid :: string

definition request_id :: "bc_request \<Rightarrow> string" where
  "request_id rq = (if bd_broadcast_id (bp_draft rq) = '''' then ''bc-'' @ bp_uuid rq else bd_broadcast_id (bp_draft rq))"

definition request_operation :: "bc_request \<Rightarrow> string" where
  "request_operation rq = owner_of (bp_author rq) @ '':'' @ bp_operation_id rq"

definition built_broadcast :: "string \<Rightarrow> bc_request \<Rightarrow> broadcast option \<Rightarrow> broadcast" where
  "built_broadcast slug rq stored =
    (let d = bp_draft rq
     in \<lparr>bc_broadcast_id = request_id rq, bc_revision = (case stored of None \<Rightarrow> 1 | Some b \<Rightarrow> bc_revision b + 1), bc_fleet = slug,
         bc_brain_id = bp_brain rq, bc_project_id = bd_project_id d, bc_target_role = bd_target_role d,
         bc_channel = bd_channel d, bc_severity = bd_severity d, bc_policy = bd_policy d, bc_message = bd_message d,
         bc_author = bp_author rq, bc_published_ms = bp_now rq, bc_expires_ms = bp_now rq + bd_ttl_seconds d * 1000\<rparr>)"

definition commit_writes :: "bc_request \<Rightarrow> broadcast \<Rightarrow> bc_store \<Rightarrow> bc_store" where
  "commit_writes rq built bs =
    bs\<lparr>bs_canonical := dset (bc_broadcast_id built) built (bs_canonical bs), bs_history := bs_history bs @ [built],
       bs_operations := (if bp_operation_id rq = '''' then bs_operations bs
                         else dset (request_operation rq) built (bs_operations bs))\<rparr>"

definition commit_decide :: "string \<Rightarrow> bc_request \<Rightarrow> bc_store \<Rightarrow> fault + broadcast \<times> (bc_store \<Rightarrow> bc_store) option" where
  "commit_decide slug rq bs =
    (if bs_frozen bs then fleet_error ''distribution_disabled''
     else
       let lifetime = bd_ttl_seconds (bp_draft rq) * 1000; explicit = bd_broadcast_id (bp_draft rq)
       in case (if bp_operation_id rq = '''' then None else dget (bs_operations bs) (request_operation rq)) of
            Some replayed \<Rightarrow>
              if broadcast_content replayed \<noteq> draft_content (bp_brain rq) (bp_draft rq) \<or>
                 bc_expires_ms replayed - bc_published_ms replayed \<noteq> lifetime \<or>
                 (explicit \<noteq> '''' \<and> explicit \<noteq> bc_broadcast_id replayed)
              then fleet_error ''invalid_request''
              else Inr (replayed, None)
          | None \<Rightarrow>
              let stored = dget (bs_canonical bs) (request_id rq); built = built_broadcast slug rq stored
              in case stored of
                   Some b \<Rightarrow>
                     if owner_of (bc_author b) \<noteq> owner_of (bp_author rq) \<or> bc_brain_id b \<noteq> bp_brain rq
                     then fleet_error ''forbidden_scope''
                     else if bc_expires_ms b - bc_published_ms b = lifetime \<and> broadcast_content b = broadcast_content built \<and>
                             bp_now rq < bc_expires_ms b
                     then Inr (b, None)
                     else Inr (built, Some (commit_writes rq built))
                 | None \<Rightarrow> Inr (built, Some (commit_writes rq built)))"

definition commit_seen :: "bc_store \<Rightarrow> (string, broadcast) dict \<times> (string, broadcast) dict \<times> bool" where
  "commit_seen bs = (bs_canonical bs, bs_operations bs, bs_frozen bs)"

text \<open>\<open>_transact\<close> makes five attempts: \<open>envs\<close> holds what the others do in each.\<close>

definition bc_commit :: "string \<Rightarrow> bc_request \<Rightarrow> (bc_store \<Rightarrow> bc_store) list \<Rightarrow> bc_store \<Rightarrow> (fault + broadcast) \<times> bc_store" where
  "bc_commit slug rq envs bs =
    (if bp_operation_id rq \<noteq> '''' \<and> \<not> name_text (bp_operation_id rq) then (fleet_error ''invalid_request'', bs)
     else watch_loop commit_seen (commit_decide slug rq) (take 5 envs) bs)"

definition bc_publish ::
  "string \<Rightarrow> (string \<Rightarrow> fault + registration) \<Rightarrow> string \<Rightarrow> json \<Rightarrow> string \<Rightarrow> int \<Rightarrow> string \<Rightarrow> (bc_store \<Rightarrow> bc_store) list \<Rightarrow>
   bc_store \<Rightarrow> (fault + broadcast) \<times> bc_store" where
  "bc_publish slug authorize token draft operation_id now uuid envs bs =
    (case read_draft draft of
      Inl e \<Rightarrow> (Inl e, bs)
    | Inr d \<Rightarrow>
        (case bc_grant slug authorize token of
          Inl e \<Rightarrow> (Inl e, bs)
        | Inr grant \<Rightarrow>
            if (truthy (bd_brain_id d) \<and> bd_brain_id d \<noteq> JStr (rg_brain_id grant)) \<or> bd_project_id d \<notin> set (rg_project_ids grant)
            then (fleet_error ''forbidden_scope'', bs)
            else if bd_severity d \<in> set operator_only then (fleet_error ''forbidden_scope'', bs)
            else bc_commit slug \<lparr>bp_draft = d, bp_brain = rg_brain_id grant,
                   bp_author = rg_seat_id grant @ ''/'' @ rg_execution_id grant, bp_operation_id = operation_id,
                   bp_now = now, bp_uuid = uuid\<rparr> envs bs))"

text \<open>\<open>operator\<close> is the check of the operator's login, \<open>None\<close> where it names nobody.\<close>

definition bc_publish_operator ::
  "string \<Rightarrow> (string \<Rightarrow> fault + string option) \<Rightarrow> string \<Rightarrow> json \<Rightarrow> string \<Rightarrow> int \<Rightarrow> string \<Rightarrow> (bc_store \<Rightarrow> bc_store) list \<Rightarrow>
   bc_store \<Rightarrow> (fault + broadcast) \<times> bc_store" where
  "bc_publish_operator slug operator token draft operation_id now uuid envs bs =
    (case read_draft draft of
      Inl e \<Rightarrow> (Inl e, bs)
    | Inr d \<Rightarrow>
        (case (if token \<noteq> '''' \<and> takeWhile (\<lambda>ch. ch \<noteq> CHR ''.'') token \<noteq> ''v2'' then operator token else Inr None) of
          Inl e \<Rightarrow> (Inl e, bs)
        | Inr found \<Rightarrow>
            (case found of
              None \<Rightarrow> (fleet_error ''unauthenticated'', bs)
            | Some name \<Rightarrow>
                if name = '''' then (fleet_error ''unauthenticated'', bs)
                else (case bc_name (bd_brain_id d) of
                        Inl e \<Rightarrow> (Inl e, bs)
                      | Inr brain \<Rightarrow>
                          bc_commit slug \<lparr>bp_draft = d, bp_brain = brain, bp_author = ''operator:'' @ name,
                            bp_operation_id = operation_id, bp_now = now, bp_uuid = uuid\<rparr> envs bs))))"

section \<open>Claiming and acknowledging\<close>

definition bc_matches :: "string \<Rightarrow> broadcast \<Rightarrow> registration \<Rightarrow> string list \<Rightarrow> int \<Rightarrow> bool" where
  "bc_matches slug b grant channels now \<longleftrightarrow>
    bc_fleet b = slug \<and> now < bc_expires_ms b \<and> bc_brain_id b = rg_brain_id grant \<and>
    (bc_project_id b = '''' \<or> bc_project_id b \<in> set (rg_project_ids grant)) \<and>
    (bc_target_role b = '''' \<or> bc_target_role b = role_of (rg_seat_id grant)) \<and>
    (bc_channel b = '''' \<or> bc_channel b \<in> set channels \<or> ''*'' \<in> set channels)"

text \<open>The highest generation a seat has claimed with; an older attempt is refused.\<close>

definition bc_fence :: "registration \<Rightarrow> bc_store \<Rightarrow> fault + int" where
  "bc_fence grant bs =
    (let admitted = (case dget (bs_generations bs) (rg_seat_id grant) of None \<Rightarrow> 0 | Some g \<Rightarrow> g)
     in if admitted > rg_generation grant then fleet_error ''stale_generation'' else Inr admitted)"

definition seat_receipts :: "bc_store \<Rightarrow> string \<Rightarrow> (string, bc_receipt) dict" where
  "seat_receipts bs seat = (case dget (bs_deliveries bs) seat of None \<Rightarrow> [] | Some d \<Rightarrow> d)"

definition bc_order :: "broadcast \<Rightarrow> int \<times> string" where
  "bc_order b = (bc_published_ms b, bc_broadcast_id b)"

text \<open>The receipt a seat has of the very revision at hand.\<close>

definition same_receipt :: "(string, bc_receipt) dict \<Rightarrow> broadcast \<Rightarrow> bc_receipt option" where
  "same_receipt held b =
    (case dget held (bc_broadcast_id b) of
      None \<Rightarrow> None
    | Some r \<Rightarrow> if br_revision r = bc_revision b then Some r else None)"

text \<open>One round of the loop: what is handed out is added to the found, what is recorded to the changed.\<close>

definition claim_one ::
  "string \<Rightarrow> registration \<Rightarrow> string list \<Rightarrow> int \<Rightarrow> (string, bc_receipt) dict \<Rightarrow> bc_delivery list \<times> (string, bc_receipt) dict \<Rightarrow>
   broadcast \<Rightarrow> bc_delivery list \<times> (string, bc_receipt) dict" where
  "claim_one slug grant channels now held acc b =
    (let (found, changed) = acc; same = same_receipt held b
     in if \<not> bc_matches slug b grant channels now then acc
        else if (case same of None \<Rightarrow> False | Some r \<Rightarrow> br_acked r \<or> bc_policy b = once) then acc
        else
          let first = (case same of None \<Rightarrow> now | Some r \<Rightarrow> br_delivered_ms r);
              found1 = found @ [\<lparr>bl_broadcast = b, bl_delivered_ms = first,
                                 bl_lag_seconds = of_int (first - bc_published_ms b) / 1000\<rparr>]
          in if (case same of None \<Rightarrow> True | Some r \<Rightarrow> br_generation r \<noteq> rg_generation grant)
             then (found1, dset (bc_broadcast_id b) \<lparr>br_revision = bc_revision b, br_delivered_ms = first, br_acked = False,
                     br_execution_id = rg_execution_id grant, br_generation = rg_generation grant\<rparr> changed)
             else (found1, changed))"

definition claim_found ::
  "string \<Rightarrow> registration \<Rightarrow> string list \<Rightarrow> int \<Rightarrow> bc_store \<Rightarrow> bc_delivery list \<times> (string, bc_receipt) dict" where
  "claim_found slug grant channels now bs =
    foldl (claim_one slug grant channels now (seat_receipts bs (rg_seat_id grant))) ([], [])
      (sort_key bc_order (dvals (bs_canonical bs)))"

definition bc_claim_writes :: "registration \<Rightarrow> string \<Rightarrow> bc_delivery list \<Rightarrow> (string, bc_receipt) dict \<Rightarrow> bc_store \<Rightarrow> bc_store" where
  "bc_claim_writes grant claim_id found changed bs =
    (let seat = rg_seat_id grant
     in bs\<lparr>bs_deliveries := (if changed = [] then bs_deliveries bs
              else dset seat (dmerge (seat_receipts bs seat) changed) (bs_deliveries bs)),
           bs_claims := (if claim_id = '''' then bs_claims bs
              else dset seat \<lparr>bq_claim_id = claim_id, bq_generation = rg_generation grant, bq_deliveries = found\<rparr> (bs_claims bs)),
           bs_generations := dset seat (rg_generation grant) (bs_generations bs)\<rparr>)"

definition bc_claim_decide ::
  "string \<Rightarrow> registration \<Rightarrow> string list \<Rightarrow> string \<Rightarrow> int \<Rightarrow> bc_store \<Rightarrow> fault + bc_delivery list \<times> (bc_store \<Rightarrow> bc_store) option" where
  "bc_claim_decide slug grant channels claim_id now bs =
    and_then (bc_fence grant bs) (\<lambda>admitted.
      case (if claim_id = '''' then None else dget (bs_claims bs) (rg_seat_id grant)) of
        Some last_answer \<Rightarrow>
          if bq_claim_id last_answer = claim_id \<and> bq_generation last_answer = rg_generation grant
          then Inr (bq_deliveries last_answer, None)
          else (case claim_found slug grant channels now bs of
                  (found, changed) \<Rightarrow> Inr (found, Some (bc_claim_writes grant claim_id found changed)))
      | None \<Rightarrow>
          (case claim_found slug grant channels now bs of
             (found, changed) \<Rightarrow>
               Inr (found, if changed \<noteq> [] \<or> claim_id \<noteq> '''' \<or> rg_generation grant > admitted
                           then Some (bc_claim_writes grant claim_id found changed) else None)))"

definition bc_claim_seen ::
  "string \<Rightarrow> bc_store \<Rightarrow> (string, bc_receipt) dict option \<times> (string, bc_answer) dict \<times> (string, broadcast) dict \<times> (string, int) dict" where
  "bc_claim_seen seat bs = (dget (bs_deliveries bs) seat, bs_claims bs, bs_canonical bs, bs_generations bs)"

definition bc_claim ::
  "string \<Rightarrow> (string \<Rightarrow> fault + registration) \<Rightarrow> string \<Rightarrow> string list \<Rightarrow> string \<Rightarrow> int \<Rightarrow> (bc_store \<Rightarrow> bc_store) list \<Rightarrow> bc_store \<Rightarrow>
   (fault + bc_delivery list) \<times> bc_store" where
  "bc_claim slug authorize token channels claim_id now envs bs =
    (case bc_grant slug authorize token of
      Inl e \<Rightarrow> (Inl e, bs)
    | Inr grant \<Rightarrow>
        if claim_id \<noteq> '''' \<and> \<not> name_text claim_id then (fleet_error ''invalid_request'', bs)
        else watch_loop (bc_claim_seen (rg_seat_id grant)) (bc_claim_decide slug grant channels claim_id now) (take 5 envs) bs)"

definition ack_decide :: "registration \<Rightarrow> string \<Rightarrow> int \<Rightarrow> bc_store \<Rightarrow> fault + bool \<times> (bc_store \<Rightarrow> bc_store) option" where
  "ack_decide grant broadcast_id revision bs =
    and_then (bc_fence grant bs) (\<lambda>_.
      let seat = rg_seat_id grant
      in case dget (seat_receipts bs seat) broadcast_id of
           None \<Rightarrow> fleet_error ''not_delivered''
         | Some r \<Rightarrow>
             if br_revision r < revision then fleet_error ''not_delivered''
             else if br_revision r > revision then fleet_error ''stale_revision''
             else if br_acked r
             then Inr (False, Some (\<lambda>bs1. bs1\<lparr>bs_duplicates := dset seat
                    ((case dget (bs_duplicates bs1) seat of None \<Rightarrow> 0 | Some n \<Rightarrow> n) + 1) (bs_duplicates bs1)\<rparr>))
             else Inr (True, Some (\<lambda>bs1. bs1\<lparr>bs_deliveries := dset seat (dset broadcast_id
                    (r\<lparr>br_acked := True, br_execution_id := rg_execution_id grant, br_generation := rg_generation grant\<rparr>)
                    (seat_receipts bs1 seat)) (bs_deliveries bs1)\<rparr>)))"

definition ack_seen :: "string \<Rightarrow> bc_store \<Rightarrow> (string, bc_receipt) dict option \<times> (string, int) dict" where
  "ack_seen seat bs = (dget (bs_deliveries bs) seat, bs_generations bs)"

definition bc_acknowledge ::
  "string \<Rightarrow> (string \<Rightarrow> fault + registration) \<Rightarrow> string \<Rightarrow> string \<Rightarrow> int \<Rightarrow> (bc_store \<Rightarrow> bc_store) list \<Rightarrow> bc_store \<Rightarrow>
   (fault + bool) \<times> bc_store" where
  "bc_acknowledge slug authorize token broadcast_id revision envs bs =
    (case bc_grant slug authorize token of
      Inl e \<Rightarrow> (Inl e, bs)
    | Inr grant \<Rightarrow> watch_loop (ack_seen (rg_seat_id grant)) (ack_decide grant broadcast_id revision) (take 5 envs) bs)"

section \<open>Reading and freezing\<close>

definition delivery_of :: "bc_store \<Rightarrow> string \<Rightarrow> string \<Rightarrow> bc_receipt option" where
  "delivery_of bs seat broadcast_id = dget (seat_receipts bs seat) broadcast_id"

definition broadcast_current :: "bc_store \<Rightarrow> string \<Rightarrow> broadcast option" where
  "broadcast_current bs broadcast_id = dget (bs_canonical bs) broadcast_id"

definition delivery_lag_seconds :: "bc_store \<Rightarrow> string \<Rightarrow> string \<Rightarrow> rat option" where
  "delivery_lag_seconds bs seat broadcast_id =
    (case (delivery_of bs seat broadcast_id, broadcast_current bs broadcast_id) of
      (Some r, Some b) \<Rightarrow> if bc_revision b \<noteq> br_revision r then None else Some (of_int (br_delivered_ms r - bc_published_ms b) / 1000)
    | _ \<Rightarrow> None)"

definition duplicate_acknowledgements :: "bc_store \<Rightarrow> string \<Rightarrow> int" where
  "duplicate_acknowledgements bs seat = (case dget (bs_duplicates bs) seat of None \<Rightarrow> 0 | Some n \<Rightarrow> n)"

definition broadcasts_freeze :: "bc_store \<Rightarrow> bc_store" where
  "broadcasts_freeze bs = bs\<lparr>bs_frozen := True\<rparr>"

definition broadcasts_thaw :: "bc_store \<Rightarrow> bc_store" where
  "broadcasts_thaw bs = bs\<lparr>bs_frozen := False\<rparr>"

end
