(* ===== verification/Broadcasts_Laws.thy ===== *)
theory Broadcasts_Laws
  imports Broadcasts "HOL-Library.Multiset"
begin

text \<open>
  What the broadcasts promise: the revisions of a broadcast are numbered in order under one owner, a
  revision that was acknowledged, or is handed out once only, never reaches the seat again, and a
  retried publication answers what the first one did.
\<close>

section \<open>What a claim finds\<close>

definition handed :: "string \<Rightarrow> registration \<Rightarrow> string list \<Rightarrow> int \<Rightarrow> (string, bc_receipt) dict \<Rightarrow> broadcast \<Rightarrow> bool" where
  "handed slug grant channels now held b \<longleftrightarrow> bc_matches slug b grant channels now \<and>
    (case same_receipt held b of None \<Rightarrow> True | Some r \<Rightarrow> \<not> br_acked r \<and> bc_policy b \<noteq> once)"

definition handed_first :: "int \<Rightarrow> (string, bc_receipt) dict \<Rightarrow> broadcast \<Rightarrow> int" where
  "handed_first now held b = (case same_receipt held b of None \<Rightarrow> now | Some r \<Rightarrow> br_delivered_ms r)"

definition handed_delivery :: "int \<Rightarrow> (string, bc_receipt) dict \<Rightarrow> broadcast \<Rightarrow> bc_delivery" where
  "handed_delivery now held b = \<lparr>bl_broadcast = b, bl_delivered_ms = handed_first now held b,
     bl_lag_seconds = of_int (handed_first now held b - bc_published_ms b) / 1000\<rparr>"

definition recorded :: "registration \<Rightarrow> (string, bc_receipt) dict \<Rightarrow> broadcast \<Rightarrow> bool" where
  "recorded grant held b \<longleftrightarrow> (case same_receipt held b of None \<Rightarrow> True | Some r \<Rightarrow> br_generation r \<noteq> rg_generation grant)"

definition handed_receipt :: "registration \<Rightarrow> int \<Rightarrow> (string, bc_receipt) dict \<Rightarrow> broadcast \<Rightarrow> string \<times> bc_receipt" where
  "handed_receipt grant now held b = (bc_broadcast_id b, \<lparr>br_revision = bc_revision b, br_delivered_ms = handed_first now held b,
     br_acked = False, br_execution_id = rg_execution_id grant, br_generation = rg_generation grant\<rparr>)"

lemma dset_new: "k \<notin> set (dkeys d) \<Longrightarrow> dset k v d = d @ [(k, v)]"
  by (induction d) auto

lemma claim_one_cases:
  assumes "bc_broadcast_id b \<notin> set (dkeys changed)"
  shows "claim_one slug grant channels now held (found, changed) b =
    (if handed slug grant channels now held b
     then (found @ [handed_delivery now held b],
           changed @ (if recorded grant held b then [handed_receipt grant now held b] else []))
     else (found, changed))"
  using assms
  by (auto simp: claim_one_def handed_def handed_delivery_def handed_first_def recorded_def handed_receipt_def dset_new Let_def
      split: option.split)

lemma claim_fold:
  assumes "distinct (map bc_broadcast_id bs)" and "set (map bc_broadcast_id bs) \<inter> set (dkeys changed) = {}"
  shows "foldl (claim_one slug grant channels now held) (found, changed) bs =
    (found @ map (handed_delivery now held) (filter (handed slug grant channels now held) bs),
     changed @ map (handed_receipt grant now held) (filter (\<lambda>b. handed slug grant channels now held b \<and> recorded grant held b) bs))"
  using assms
proof (induction bs arbitrary: found changed)
  case Nil
  show ?case by simp
next
  case (Cons b bs)
  have new: "bc_broadcast_id b \<notin> set (dkeys changed)" using Cons.prems(2) by auto
  have keys: "dkeys (map (handed_receipt grant now held) xs) = map bc_broadcast_id xs" for xs
    by (induction xs) (auto simp: handed_receipt_def)
  show ?case
    using Cons.prems by (auto simp: claim_one_cases[OF new] Cons.IH handed_receipt_def)
qed

section \<open>The steps of all clients\<close>

inductive bc_step :: "string \<Rightarrow> bc_store \<Rightarrow> bc_store \<Rightarrow> bool" for slug where
  bc_published: "commit_decide slug rq bs = Inr (b, Some writes) \<Longrightarrow> bc_step slug bs (writes bs)"
| bc_claimed: "bc_claim_decide slug grant channels claim_id now bs = Inr (found, Some writes) \<Longrightarrow> bc_step slug bs (writes bs)"
| bc_acked: "ack_decide grant broadcast_id revision bs = Inr (res, Some writes) \<Longrightarrow> bc_step slug bs (writes bs)"
| bc_froze: "bc_step slug bs (broadcasts_freeze bs)"
| bc_thawed: "bc_step slug bs (broadcasts_thaw bs)"

definition no_broadcasts :: bc_store where
  "no_broadcasts = \<lparr>bs_canonical = [], bs_history = [], bs_operations = [], bs_frozen = False, bs_deliveries = [],
     bs_claims = [], bs_generations = [], bs_duplicates = []\<rparr>"

abbreviation bc_reachable :: "string \<Rightarrow> bc_store \<Rightarrow> bool" where
  "bc_reachable slug \<equiv> (bc_step slug)\<^sup>*\<^sup>* no_broadcasts"

lemma commit_decides: "commit_seen bs = commit_seen bs' \<Longrightarrow> commit_decide slug rq bs = commit_decide slug rq bs'"
proof -
  assume "commit_seen bs = commit_seen bs'"
  then have eqs: "bs_canonical bs = bs_canonical bs'" "bs_operations bs = bs_operations bs'" "bs_frozen bs = bs_frozen bs'"
    by (simp_all add: commit_seen_def)
  show ?thesis unfolding commit_decide_def eqs ..
qed

lemma claim_decides:
  "bc_claim_seen (rg_seat_id grant) bs = bc_claim_seen (rg_seat_id grant) bs' \<Longrightarrow>
   bc_claim_decide slug grant channels claim_id now bs = bc_claim_decide slug grant channels claim_id now bs'"
proof -
  assume "bc_claim_seen (rg_seat_id grant) bs = bc_claim_seen (rg_seat_id grant) bs'"
  then have "bs_claims bs = bs_claims bs'" "bc_fence grant bs = bc_fence grant bs'"
    "claim_found slug grant channels now bs = claim_found slug grant channels now bs'"
    by (simp_all add: bc_claim_seen_def bc_fence_def claim_found_def seat_receipts_def)
  then show ?thesis unfolding bc_claim_decide_def by (simp only:)
qed

lemma ack_decides: "ack_seen (rg_seat_id grant) bs = ack_seen (rg_seat_id grant) bs' \<Longrightarrow>
   ack_decide grant broadcast_id revision bs = ack_decide grant broadcast_id revision bs'"
  by (simp add: ack_seen_def ack_decide_def bc_fence_def seat_receipts_def)

interpretation bc_publishing: watched_client commit_seen "commit_decide slug rq" "bc_step slug" for slug rq
  by unfold_locales (rule commit_decides)

interpretation bc_claiming: watched_client "bc_claim_seen (rg_seat_id grant)" "bc_claim_decide slug grant channels claim_id now" "bc_step slug"
  for slug grant channels claim_id now
  by unfold_locales (rule claim_decides)

interpretation bc_acking: watched_client "ack_seen (rg_seat_id grant)" "ack_decide grant broadcast_id revision" "bc_step slug"
  for slug grant broadcast_id revision
  by unfold_locales (rule ack_decides)

section \<open>The invariant\<close>

text \<open>The history of one broadcast.\<close>

definition revisions_of :: "bc_store \<Rightarrow> string \<Rightarrow> broadcast list" where
  "revisions_of bs name = filter (\<lambda>b. bc_broadcast_id b = name) (bs_history bs)"

text \<open>
  Revisions count from one, the stored broadcast is the last of them, and all of them have its owner,
  its brain and its fleet.
\<close>

definition revisions_ok :: "string \<Rightarrow> broadcast list \<Rightarrow> broadcast option \<Rightarrow> bool" where
  "revisions_ok slug revs stored \<longleftrightarrow>
    map bc_revision revs = map (\<lambda>i. int i + 1) [0..<length revs] \<and>
    stored = (if revs = [] then None else Some (last revs)) \<and>
    (\<forall>b \<in> set revs. \<forall>c \<in> set revs. owner_of (bc_author b) = owner_of (bc_author c) \<and> bc_brain_id b = bc_brain_id c) \<and>
    (\<forall>b \<in> set revs. bc_fleet b = slug)"

definition bc_inv :: "string \<Rightarrow> bc_store \<Rightarrow> bool" where
  "bc_inv slug bs \<longleftrightarrow> wf_dict (bs_canonical bs) \<and>
    (\<forall>name. revisions_ok slug (revisions_of bs name) (dget (bs_canonical bs) name)) \<and>
    (\<forall>seat name r. dget (seat_receipts bs seat) name = Some r \<longrightarrow>
       (\<exists>b. dget (bs_canonical bs) name = Some b \<and> br_revision r \<le> bc_revision b))"

lemma revisions_id: "b \<in> set (revisions_of bs name) \<Longrightarrow> bc_broadcast_id b = name"
  by (simp add: revisions_of_def)

lemma revisions_last:
  assumes "bc_inv slug bs" "dget (bs_canonical bs) name = Some b"
  shows "revisions_of bs name \<noteq> [] \<and> last (revisions_of bs name) = b"
  using assms by (auto simp: bc_inv_def revisions_ok_def split: if_splits)

lemma canonical_id:
  assumes "bc_inv slug bs" "dget (bs_canonical bs) name = Some b"
  shows "bc_broadcast_id b = name"
  using revisions_last[OF assms] last_in_set revisions_id by metis


lemma commit_cases:
  assumes "commit_decide slug rq bs = Inr (b, Some writes)"
  shows "writes = commit_writes rq b" "b = built_broadcast slug rq (dget (bs_canonical bs) (request_id rq))"
    "dget (bs_canonical bs) (request_id rq) = Some c \<Longrightarrow> owner_of (bc_author c) = owner_of (bp_author rq) \<and> bc_brain_id c = bp_brain rq"
    "bp_operation_id rq \<noteq> '''' \<Longrightarrow> dget (bs_operations bs) (request_operation rq) = None"
  using assms by (auto simp: commit_decide_def fleet_error_def Let_def split: if_splits option.splits)

lemma claim_cases:
  assumes "bc_claim_decide slug grant channels claim_id now bs = Inr (found, Some writes)"
  shows "\<exists>changed. claim_found slug grant channels now bs = (found, changed) \<and> writes = bc_claim_writes grant claim_id found changed"
proof -
  obtain f c where "claim_found slug grant channels now bs = (f, c)" by fastforce
  with assms show ?thesis by (auto simp: bc_claim_decide_def and_then_Inr split: if_splits option.splits)
qed

lemma ack_cases:
  assumes "ack_decide grant name revision bs = Inr (res, w)"
  obtains (again) r d where "dget (seat_receipts bs (rg_seat_id grant)) name = Some r" "br_revision r = revision" "br_acked r"
      "res = False" "w = Some (\<lambda>bs1. bs1\<lparr>bs_duplicates := d bs1\<rparr>)"
  | (first) r where "dget (seat_receipts bs (rg_seat_id grant)) name = Some r" "br_revision r = revision" "\<not> br_acked r" "res = True"
      "w = Some (\<lambda>bs1. bs1\<lparr>bs_deliveries := dset (rg_seat_id grant) (dset name
         (r\<lparr>br_acked := True, br_execution_id := rg_execution_id grant, br_generation := rg_generation grant\<rparr>)
         (seat_receipts bs1 (rg_seat_id grant))) (bs_deliveries bs1)\<rparr>)"
proof -
  obtain r where r: "dget (seat_receipts bs (rg_seat_id grant)) name = Some r"
    using assms by (auto simp: ack_decide_def and_then_Inr fleet_error_def Let_def split: option.splits)
  show thesis
  proof (cases "br_acked r")
    case True
    with assms r show thesis
      by (intro again[of r "\<lambda>bs1. dset (rg_seat_id grant)
        ((case dget (bs_duplicates bs1) (rg_seat_id grant) of None \<Rightarrow> 0 | Some n \<Rightarrow> n) + 1) (bs_duplicates bs1)"]) (simp_all add: ack_decide_def and_then_Inr fleet_error_def Let_def split: if_splits)
  next
    case False
    with assms r show thesis
      by (intro first[of r]) (simp_all add: ack_decide_def and_then_Inr fleet_error_def Let_def split: if_splits)
  qed
qed

section \<open>Receipts\<close>

text \<open>How a receipt of one broadcast may change: to a later revision, or at one revision only towards acknowledged.\<close>

definition receipt_forward :: "bc_receipt option \<Rightarrow> bc_receipt option \<Rightarrow> bool" where
  "receipt_forward old new \<longleftrightarrow> (\<forall>r. old = Some r \<longrightarrow> (\<exists>r'. new = Some r' \<and>
     (br_revision r' > br_revision r \<or> (br_revision r' = br_revision r \<and> br_delivered_ms r' = br_delivered_ms r \<and> (br_acked r \<longrightarrow> br_acked r')))))"

lemma receipt_forward_refl [simp, intro]: "receipt_forward r r"
  by (simp add: receipt_forward_def)

lemma receipt_forward_trans: "receipt_forward a b \<Longrightarrow> receipt_forward b c \<Longrightarrow> receipt_forward a c"
  by (cases a; cases b; cases c) (auto simp: receipt_forward_def)

lemma seat_receipts_dset [simp]:
  "seat_receipts (bs\<lparr>bs_deliveries := dset seat d (bs_deliveries bs)\<rparr>) seat' = (if seat' = seat then d else seat_receipts bs seat')"
  by (simp add: seat_receipts_def dget_dset)

lemma option_eqI: "(\<And>r. x = Some r \<longleftrightarrow> y = Some r) \<Longrightarrow> x = y"
  by (cases x; cases y) auto

lemma canonical_ids:
  assumes "bc_inv slug bs"
  shows "map bc_broadcast_id (dvals (bs_canonical bs)) = dkeys (bs_canonical bs)"
  using assms canonical_id[OF assms] by (auto simp: bc_inv_def intro!: map_of_is_SomeI)

lemma sorted_ids:
  assumes "bc_inv slug bs"
  shows "distinct (map bc_broadcast_id (sort_key bc_order (dvals (bs_canonical bs))))"
proof -
  have "mset (map bc_broadcast_id (sort_key bc_order (dvals (bs_canonical bs)))) = mset (dkeys (bs_canonical bs))"
    using canonical_ids[OF assms] by (metis mset_map mset_sort)
  then show ?thesis using assms mset_eq_imp_distinct_iff unfolding bc_inv_def by metis
qed

lemma canonical_member:
  assumes "bc_inv slug bs"
  shows "b \<in> set (sort_key bc_order (dvals (bs_canonical bs))) \<longleftrightarrow> dget (bs_canonical bs) (bc_broadcast_id b) = Some b"
proof
  assume "b \<in> set (sort_key bc_order (dvals (bs_canonical bs)))"
  then obtain k where "(k, b) \<in> set (bs_canonical bs)" by auto
  then have "dget (bs_canonical bs) k = Some b" using assms by (simp add: bc_inv_def)
  then show "dget (bs_canonical bs) (bc_broadcast_id b) = Some b" using canonical_id[OF assms] by metis
qed (auto dest: map_of_SomeD intro: image_eqI[where x = "(bc_broadcast_id b, b)"])

lemma claim_found_spec:
  assumes "bc_inv slug bs" and "claim_found slug grant channels now bs = (found, changed)"
  defines "held \<equiv> seat_receipts bs (rg_seat_id grant)"
  shows "d \<in> set found \<longleftrightarrow> (\<exists>b. dget (bs_canonical bs) (bc_broadcast_id b) = Some b \<and> handed slug grant channels now held b \<and>
      d = handed_delivery now held b)"
    and "wf_dict changed"
    and "dget changed name = (case dget (bs_canonical bs) name of None \<Rightarrow> None | Some b \<Rightarrow>
      if handed slug grant channels now held b \<and> recorded grant held b then Some (snd (handed_receipt grant now held b)) else None)"
proof -
  let ?sorted = "sort_key bc_order (dvals (bs_canonical bs))"
  let ?rows = "filter (\<lambda>b. handed slug grant channels now held b \<and> recorded grant held b) ?sorted"
  have eqs: "found = map (handed_delivery now held) (filter (handed slug grant channels now held) ?sorted)"
    "changed = map (handed_receipt grant now held) ?rows"
    using assms(2) claim_fold[OF sorted_ids[OF assms(1)], of "[]"] by (simp_all add: claim_found_def held_def)
  show "d \<in> set found \<longleftrightarrow> (\<exists>b. dget (bs_canonical bs) (bc_broadcast_id b) = Some b \<and> handed slug grant channels now held b \<and>
      d = handed_delivery now held b)"
    using canonical_member[OF assms(1)] unfolding eqs by auto
  have keys: "dkeys changed = map bc_broadcast_id ?rows" unfolding eqs by (simp add: handed_receipt_def)
  have "distinct (map bc_broadcast_id ?rows)"
    using sorted_ids[OF assms(1)] by (rule distinct_map_filter)
  then show wf: "wf_dict changed" unfolding keys .
  have spec: "dget changed name = Some r \<longleftrightarrow> (\<exists>b. dget (bs_canonical bs) name = Some b \<and> handed slug grant channels now held b \<and>
      recorded grant held b \<and> r = snd (handed_receipt grant now held b))" for r
  proof -
    have "dget changed name = Some r \<longleftrightarrow> (name, r) \<in> set changed" using wf by (simp add: map_of_eq_Some_iff)
    also have "\<dots> \<longleftrightarrow> (\<exists>b \<in> set ?sorted. handed slug grant channels now held b \<and> recorded grant held b \<and>
        name = bc_broadcast_id b \<and> r = snd (handed_receipt grant now held b))"
      unfolding eqs by (auto simp: handed_receipt_def)
    also have "\<dots> \<longleftrightarrow> (\<exists>b. dget (bs_canonical bs) name = Some b \<and> handed slug grant channels now held b \<and>
      recorded grant held b \<and> r = snd (handed_receipt grant now held b))"
      using canonical_member[OF assms(1)] canonical_id[OF assms(1)] by metis
    finally show ?thesis .
  qed
  show "dget changed name = (case dget (bs_canonical bs) name of None \<Rightarrow> None | Some b \<Rightarrow>
      if handed slug grant channels now held b \<and> recorded grant held b then Some (snd (handed_receipt grant now held b)) else None)"
    using spec by (intro option_eqI) (auto split: option.splits if_splits)
qed

lemma claim_writes_receipts:
  assumes "wf_dict changed"
  shows "dget (seat_receipts (bc_claim_writes grant claim_id found changed bs) seat) name =
    (if seat = rg_seat_id grant
     then (case dget changed name of None \<Rightarrow> dget (seat_receipts bs seat) name | Some r \<Rightarrow> Some r)
     else dget (seat_receipts bs seat) name)"
  using assms by (auto simp: bc_claim_writes_def Let_def seat_receipts_def dget_dset dget_dmerge split: option.splits)

section \<open>Every step keeps the invariant and goes forward\<close>

definition broadcast_forward :: "broadcast option \<Rightarrow> broadcast option \<Rightarrow> bool" where
  "broadcast_forward old new \<longleftrightarrow> (\<forall>b. old = Some b \<longrightarrow> (\<exists>b'. new = Some b' \<and> (b' = b \<or> bc_revision b' > bc_revision b)))"

lemma broadcast_forward_refl [simp, intro]: "broadcast_forward b b"
  by (simp add: broadcast_forward_def)

lemma broadcast_forward_trans: "broadcast_forward a b \<Longrightarrow> broadcast_forward b c \<Longrightarrow> broadcast_forward a c"
  by (cases a; cases b; cases c) (auto simp: broadcast_forward_def)

definition bc_forward :: "bc_store \<Rightarrow> bc_store \<Rightarrow> bool" where
  "bc_forward bs bs' \<longleftrightarrow>
    (\<forall>seat name. receipt_forward (dget (seat_receipts bs seat) name) (dget (seat_receipts bs' seat) name)) \<and>
    (\<forall>name. broadcast_forward (dget (bs_canonical bs) name) (dget (bs_canonical bs') name)) \<and>
    (\<forall>k b. dget (bs_operations bs) k = Some b \<longrightarrow> dget (bs_operations bs') k = Some b)"

lemma bc_forward_refl [simp, intro]: "bc_forward bs bs"
  by (simp add: bc_forward_def)

lemma bc_forward_trans: "bc_forward a b \<Longrightarrow> bc_forward b c \<Longrightarrow> bc_forward a c"
  unfolding bc_forward_def by (blast intro: receipt_forward_trans broadcast_forward_trans)

lemma next_revision:
  assumes "revisions_ok slug revs stored"
  shows "(case stored of None \<Rightarrow> 1 | Some c \<Rightarrow> bc_revision c + 1) = int (length revs) + 1"
proof (cases revs rule: rev_cases)
  case Nil
  then show ?thesis using assms by (simp add: revisions_ok_def)
next
  case (snoc front c)
  then have "map bc_revision (front @ [c]) = map (\<lambda>i. int i + 1) [0..<length front] @ [int (length front) + 1]" "stored = Some c"
    using assms by (auto simp: revisions_ok_def)
  then show ?thesis using snoc by simp
qed

lemma revisions_ok_append:
  assumes "revisions_ok slug revs stored" and "bc_revision b = int (length revs) + 1" and "bc_fleet b = slug"
    and "\<And>c. stored = Some c \<Longrightarrow> owner_of (bc_author c) = owner_of (bc_author b) \<and> bc_brain_id c = bc_brain_id b"
  shows "revisions_ok slug (revs @ [b]) (Some b)"
proof -
  have "owner_of (bc_author c) = owner_of (bc_author b) \<and> bc_brain_id c = bc_brain_id b" if "c \<in> set revs" for c
  proof -
    have "revs \<noteq> []" "stored = Some (last revs)" using that assms(1) by (auto simp: revisions_ok_def)
    then show ?thesis using assms(4) that assms(1) last_in_set[of revs] unfolding revisions_ok_def by metis
  qed
  then show ?thesis using assms(1,2,3) by (simp add: revisions_ok_def)
qed

lemma published_ok:
  assumes "bc_inv slug bs" and "commit_decide slug rq bs = Inr (b, Some writes)"
  shows "bc_inv slug (writes bs) \<and> bc_forward bs (writes bs)"
proof -
  have w: "writes = commit_writes rq b" and b: "b = built_broadcast slug rq (dget (bs_canonical bs) (request_id rq))"
    using commit_cases[OF assms(2)] by blast+
  let ?old = "revisions_of bs (request_id rq)" and ?stored = "dget (bs_canonical bs) (request_id rq)"
  have ok: "revisions_ok slug (revisions_of bs name) (dget (bs_canonical bs) name)" for name
    using assms(1) by (simp add: bc_inv_def)
  have id: "bc_broadcast_id b = request_id rq" by (simp add: b built_broadcast_def Let_def)
  have rev: "bc_revision b = int (length ?old) + 1"
    using next_revision[OF ok] by (simp add: b built_broadcast_def Let_def)
  have new: "revisions_ok slug (?old @ [b]) (Some b)"
    using commit_cases(3)[OF assms(2)] by (intro revisions_ok_append[OF ok rev]) (auto simp: b built_broadcast_def Let_def)
  have revs: "revisions_of (writes bs) name = (if name = request_id rq then ?old @ [b] else revisions_of bs name)" for name
    using id by (auto simp: w commit_writes_def revisions_of_def)
  have canon: "dget (bs_canonical (writes bs)) name = (if name = request_id rq then Some b else dget (bs_canonical bs) name)" for name
    using id by (simp add: w commit_writes_def dget_dset)
  have recs: "seat_receipts (writes bs) seat = seat_receipts bs seat" for seat by (simp add: w commit_writes_def seat_receipts_def)
  have later: "bc_revision c < bc_revision b" if "?stored = Some c" for c using that by (simp add: b built_broadcast_def Let_def)
  have "bc_inv slug (writes bs)"
    unfolding bc_inv_def
  proof (intro conjI allI impI)
    show "wf_dict (bs_canonical (writes bs))" using assms(1) by (auto simp: bc_inv_def w commit_writes_def)
    show "revisions_ok slug (revisions_of (writes bs) name) (dget (bs_canonical (writes bs)) name)" for name
      using ok new by (simp add: revs canon)
    show "\<exists>b'. dget (bs_canonical (writes bs)) name = Some b' \<and> br_revision r \<le> bc_revision b'"
      if "dget (seat_receipts (writes bs) seat) name = Some r" for seat name r
      using that assms(1) later unfolding bc_inv_def recs canon by force
  qed
  moreover have "bc_forward bs (writes bs)"
    using commit_cases(4)[OF assms(2)] later
    unfolding bc_forward_def recs canon by (auto simp: broadcast_forward_def w commit_writes_def dget_dset)
  ultimately show ?thesis ..
qed

lemma claimed_ok:
  assumes "bc_inv slug bs" and "bc_claim_decide slug grant channels claim_id now bs = Inr (found, Some writes)"
  shows "bc_inv slug (writes bs) \<and> bc_forward bs (writes bs)"
proof -
  obtain changed where f: "claim_found slug grant channels now bs = (found, changed)"
    and w: "writes = bc_claim_writes grant claim_id found changed" using claim_cases[OF assms(2)] by blast
  note spec = claim_found_spec[OF assms(1) f]
  have recs: "dget (seat_receipts (writes bs) seat) name =
    (if seat = rg_seat_id grant
     then (case dget changed name of None \<Rightarrow> dget (seat_receipts bs seat) name | Some r \<Rightarrow> Some r)
     else dget (seat_receipts bs seat) name)" for seat name
    unfolding w by (rule claim_writes_receipts[OF spec(2)])
  have same: "bs_canonical (writes bs) = bs_canonical bs" "bs_history (writes bs) = bs_history bs"
    "bs_operations (writes bs) = bs_operations bs" by (simp_all add: w bc_claim_writes_def Let_def)
  have chg: "\<exists>b. dget (bs_canonical bs) name = Some b \<and> bc_broadcast_id b = name \<and> br_revision r = bc_revision b \<and>
      (case same_receipt (seat_receipts bs (rg_seat_id grant)) b of None \<Rightarrow> True | Some r0 \<Rightarrow> \<not> br_acked r0 \<and> br_delivered_ms r = br_delivered_ms r0)"
    if "dget changed name = Some r" for name r
    using that canonical_id[OF assms(1), of name] unfolding spec(3)
    by (auto simp: handed_def handed_receipt_def handed_first_def split: option.splits if_splits)
  have "bc_inv slug (writes bs)"
    using assms(1) chg unfolding bc_inv_def revisions_of_def recs same
    by (auto split: option.splits if_splits) force
  moreover have "receipt_forward (dget (seat_receipts bs seat) name) (dget (seat_receipts (writes bs) seat) name)" for seat name
  proof (cases "seat = rg_seat_id grant \<and> dget changed name \<noteq> None")
    case True
    then obtain r b where r: "dget changed name = Some r" and b: "dget (bs_canonical bs) name = Some b" "bc_broadcast_id b = name"
      "br_revision r = bc_revision b" "case same_receipt (seat_receipts bs (rg_seat_id grant)) b of None \<Rightarrow> True
        | Some r0 \<Rightarrow> \<not> br_acked r0 \<and> br_delivered_ms r = br_delivered_ms r0" using chg by blast
    have "br_revision r0 \<le> bc_revision b" if "dget (seat_receipts bs seat) name = Some r0" for r0
      using that assms(1) b(1) by (force simp: bc_inv_def)
    then show ?thesis using True r b by (auto simp: recs receipt_forward_def same_receipt_def split: option.splits if_splits)
  next
    case False
    then show ?thesis by (auto simp: recs)
  qed
  ultimately show ?thesis by (simp add: bc_forward_def same)
qed

lemma receipt_bound:
  assumes "bc_inv slug bs" "dget (seat_receipts bs seat) name = Some r"
  obtains b where "dget (bs_canonical bs) name = Some b" "br_revision r \<le> bc_revision b"
  using assms unfolding bc_inv_def by blast

text \<open>A step that leaves messages and receipts alone.\<close>

lemma aside_ok:
  assumes "bc_inv slug bs" "bs_canonical bs' = bs_canonical bs" "bs_history bs' = bs_history bs"
    "bs_operations bs' = bs_operations bs" "bs_deliveries bs' = bs_deliveries bs"
  shows "bc_inv slug bs' \<and> bc_forward bs bs'"
  using assms(1) unfolding bc_inv_def bc_forward_def revisions_of_def seat_receipts_def assms(2-5) by auto

lemma acked_ok:
  assumes "bc_inv slug bs" and "ack_decide grant name revision bs = Inr (res, Some writes)"
  shows "bc_inv slug (writes bs) \<and> bc_forward bs (writes bs) \<and>
    (\<exists>r. dget (seat_receipts (writes bs) (rg_seat_id grant)) name = Some r \<and> br_revision r = revision \<and> br_acked r)"
  using assms(2)
proof (cases rule: ack_cases)
  case (again r d)
  have "writes bs = bs\<lparr>bs_duplicates := d bs\<rparr>" using again(5) by simp
  moreover from this have "bc_inv slug (writes bs) \<and> bc_forward bs (writes bs)" by (intro aside_ok[OF assms(1)]) simp_all
  ultimately show ?thesis using again(1-3) by (simp add: seat_receipts_def)
next
  case (first r)
  let ?acked = "r\<lparr>br_acked := True, br_execution_id := rg_execution_id grant, br_generation := rg_generation grant\<rparr>"
  have w: "writes bs = bs\<lparr>bs_deliveries := dset (rg_seat_id grant) (dset name ?acked (seat_receipts bs (rg_seat_id grant))) (bs_deliveries bs)\<rparr>"
    using first(5) by simp
  have recs: "dget (seat_receipts (writes bs) seat) name' =
      (if seat = rg_seat_id grant \<and> name' = name then Some ?acked else dget (seat_receipts bs seat) name')" for seat name'
    unfolding w by (simp add: dget_dset)
  have "bc_inv slug (writes bs)"
    using assms(1) first(1) unfolding bc_inv_def recs revisions_of_def by (auto simp: w)
  moreover have "bc_forward bs (writes bs)"
    using first(1) unfolding bc_forward_def recs by (auto simp: w receipt_forward_def)
  ultimately show ?thesis using recs first(2) by simp
qed

theorem bc_step_ok:
  assumes "bc_step slug bs bs'" and "bc_inv slug bs"
  shows "bc_inv slug bs' \<and> bc_forward bs bs'"
  using assms
proof (cases rule: bc_step.cases)
  case (bc_published rq b writes)
  then show ?thesis using published_ok assms(2) by simp
next
  case (bc_claimed grant channels claim_id now found writes)
  then show ?thesis using claimed_ok assms(2) by simp
next
  case (bc_acked grant broadcast_id revision res writes)
  then show ?thesis using acked_ok[OF assms(2)] by simp
qed (use aside_ok[OF assms(2)] in \<open>simp_all add: broadcasts_freeze_def broadcasts_thaw_def\<close>)

lemma bc_steps_ok:
  assumes "(bc_step slug)\<^sup>*\<^sup>* bs bs'" and "bc_inv slug bs"
  shows "bc_inv slug bs' \<and> bc_forward bs bs'"
  using assms by (induction rule: rtranclp_induct) (auto dest: bc_step_ok intro: bc_forward_trans)

lemma no_broadcasts_inv: "bc_inv slug no_broadcasts"
  by (simp add: bc_inv_def no_broadcasts_def revisions_of_def revisions_ok_def seat_receipts_def)

lemma bc_reachable_inv: "bc_reachable slug bs \<Longrightarrow> bc_inv slug bs"
  using bc_steps_ok no_broadcasts_inv by blast

section \<open>What is settled for a seat\<close>

definition bc_settled :: "bc_store \<Rightarrow> string \<Rightarrow> string \<Rightarrow> int \<Rightarrow> bool" where
  "bc_settled bs seat name revision \<longleftrightarrow> (\<exists>r. dget (seat_receipts bs seat) name = Some r \<and>
    (br_revision r > revision \<or> (br_revision r = revision \<and>
      (br_acked r \<or> (\<forall>b. dget (bs_canonical bs) name = Some b \<and> bc_revision b = revision \<longrightarrow> bc_policy b = once)))))"

lemma settled_forward:
  assumes "bc_inv slug bs" "bc_forward bs bs'" "bc_settled bs seat name revision"
  shows "bc_settled bs' seat name revision"
proof -
  obtain r where r: "dget (seat_receipts bs seat) name = Some r" and s: "br_revision r > revision \<or> (br_revision r = revision \<and>
      (br_acked r \<or> (\<forall>b. dget (bs_canonical bs) name = Some b \<and> bc_revision b = revision \<longrightarrow> bc_policy b = once)))"
    using assms(3) by (auto simp: bc_settled_def)
  obtain b where b: "dget (bs_canonical bs) name = Some b" "br_revision r \<le> bc_revision b"
    using receipt_bound[OF assms(1) r] .
  obtain r' where r': "dget (seat_receipts bs' seat) name = Some r'" "br_revision r' > br_revision r \<or>
      (br_revision r' = br_revision r \<and> (br_acked r \<longrightarrow> br_acked r'))"
    using assms(2) r unfolding bc_forward_def receipt_forward_def by blast
  obtain b' where b': "dget (bs_canonical bs') name = Some b'" "b' = b \<or> bc_revision b' > bc_revision b"
    using assms(2) b(1) unfolding bc_forward_def broadcast_forward_def by blast
  show ?thesis using s r' b b' unfolding bc_settled_def by (intro exI[of _ r']) auto
qed

lemma settled_not_found:
  assumes "bc_inv slug bs" "bc_settled bs (rg_seat_id grant) name revision"
    and "claim_found slug grant channels now bs = (found, changed)" "d \<in> set found"
  shows "(bc_broadcast_id (bl_broadcast d), bc_revision (bl_broadcast d)) \<noteq> (name, revision)"
proof
  assume eq: "(bc_broadcast_id (bl_broadcast d), bc_revision (bl_broadcast d)) = (name, revision)"
  obtain b where b: "dget (bs_canonical bs) (bc_broadcast_id b) = Some b"
      "handed slug grant channels now (seat_receipts bs (rg_seat_id grant)) b" "bl_broadcast d = b"
    using assms(4) claim_found_spec(1)[OF assms(1,3)] by (auto simp: handed_delivery_def)
  then have id: "bc_broadcast_id b = name" "bc_revision b = revision" using eq by simp_all
  obtain r where r: "dget (seat_receipts bs (rg_seat_id grant)) name = Some r" and s: "br_revision r > revision \<or> (br_revision r = revision \<and>
      (br_acked r \<or> bc_policy b = once))"
    using assms(2) b(1) id by (auto simp: bc_settled_def)
  have "br_revision r \<le> revision" using receipt_bound[OF assms(1) r] b(1) id by auto
  then show False using b(2) r s id by (auto simp: handed_def same_receipt_def)
qed


text \<open>A claim answers again what its claim id was answered before, or looks for what is due.\<close>

lemma claim_decided:
  assumes "bc_claim_decide slug grant channels claim_id now bs = Inr (found, w)"
  obtains (again) answer where "claim_id \<noteq> ''''" "dget (bs_claims bs) (rg_seat_id grant) = Some answer" "bq_claim_id answer = claim_id"
      "bq_generation answer = rg_generation grant" "found = bq_deliveries answer" "w = None"
  | (new) changed where "claim_found slug grant channels now bs = (found, changed)"
      "w = Some (bc_claim_writes grant claim_id found changed) \<or> w = None \<and> changed = []"
proof -
  obtain f c where "claim_found slug grant channels now bs = (f, c)" by fastforce
  with assms that show thesis by (auto simp: bc_claim_decide_def and_then_Inr split: if_splits option.splits)
qed




section \<open>The promises\<close>

text \<open>
  C25: The revisions a broadcast has had are numbered one, two, three in the order they were published, the
  stored broadcast is the last of them, and all of them come from one owner, for one brain.
\<close>

theorem broadcast_revisions_ordered:
  assumes "bc_reachable slug bs"
  shows "map bc_revision (revisions_of bs name) = map (\<lambda>i. int i + 1) [0..<length (revisions_of bs name)] \<and>
    broadcast_current bs name = (if revisions_of bs name = [] then None else Some (last (revisions_of bs name))) \<and>
    (\<forall>b \<in> set (revisions_of bs name). \<forall>c \<in> set (revisions_of bs name).
       owner_of (bc_author b) = owner_of (bc_author c) \<and> bc_brain_id b = bc_brain_id c)"
proof -
  have "revisions_ok slug (revisions_of bs name) (dget (bs_canonical bs) name)"
    using bc_reachable_inv[OF assms] unfolding bc_inv_def by blast
  then show ?thesis unfolding revisions_ok_def broadcast_current_def by blast
qed

lemma bc_claim_granted:
  assumes "authorize token = Inr grant" and "bc_claim slug authorize token channels claim_id now envs bs = (Inr found, bs')"
  shows "watch_loop (bc_claim_seen (rg_seat_id grant)) (bc_claim_decide slug grant channels claim_id now) (take 5 envs) bs = (Inr found, bs')"
proof -
  have "bc_grant slug authorize token = Inr grant"
    using assms by (simp add: bc_claim_def bc_grant_def fleet_error_def split: if_splits)
  then show ?thesis using assms(2) by (simp add: bc_claim_def fleet_error_def split: if_splits)
qed

lemma claim_ends:
  assumes "bc_reachable slug bs" and "bc_claiming.clients slug envs" and "authorize token = Inr grant"
    and "bc_claim slug authorize token channels claim_id now envs bs = (Inr found, bs')"
  obtains bs1 w where "(bc_step slug)\<^sup>*\<^sup>* bs bs1" "bc_claim_decide slug grant channels claim_id now bs1 = Inr (found, w)"
    "bs' = (case w of None \<Rightarrow> bs1 | Some writes \<Rightarrow> writes bs1)" "(bc_step slug)\<^sup>*\<^sup>* bs bs'"
proof -
  have "bc_claiming.clients slug (take 5 envs)" using assms(2) by (auto simp: bc_claiming.clients_def dest: in_set_takeD)
  moreover have "watch_loop (bc_claim_seen (rg_seat_id grant)) (bc_claim_decide slug grant channels claim_id now) (take 5 envs) bs = (Inr found, bs')"
    using bc_claim_granted[OF assms(3,4)] .
  ultimately obtain bs1 where bs1: "(bc_step slug)\<^sup>*\<^sup>* bs bs1" and out: "(bc_claim_decide slug grant channels claim_id now bs1 = Inr (found, None) \<and> bs' = bs1) \<or>
      (\<exists>writes. bc_claim_decide slug grant channels claim_id now bs1 = Inr (found, Some writes) \<and> bs' = writes bs1)"
    using bc_claiming.loop_atomic by blast
  show thesis
  proof (cases "bc_claim_decide slug grant channels claim_id now bs1 = Inr (found, None) \<and> bs' = bs1")
    case True
    then show thesis using bs1 by (intro that[of bs1 None]) simp_all
  next
    case False
    then obtain writes where w: "bc_claim_decide slug grant channels claim_id now bs1 = Inr (found, Some writes)" "bs' = writes bs1"
      using out by blast
    then show thesis using bs1 bc_claimed[OF w(1)] by (intro that[of bs1 "Some writes"]) (auto intro: rtranclp.rtrancl_into_rtrancl)
  qed
qed

lemma settled_for_good:
  assumes "bc_reachable slug bs" "bc_settled bs (rg_seat_id grant) name revision" "(bc_step slug)\<^sup>*\<^sup>* bs bs1"
    and "bc_claiming.clients slug envs" "authorize token = Inr grant"
    and "bc_claim slug authorize token channels claim_id now envs bs1 = (Inr found, bs2)" "d \<in> set found"
  shows "(bc_broadcast_id (bl_broadcast d), bc_revision (bl_broadcast d)) \<noteq> (name, revision) \<or>
    (claim_id \<noteq> '''' \<and> (\<exists>bs3 answer. (bc_step slug)\<^sup>*\<^sup>* bs1 bs3 \<and> dget (bs_claims bs3) (rg_seat_id grant) = Some answer \<and>
       bq_claim_id answer = claim_id \<and> found = bq_deliveries answer))"
proof -
  have reach: "bc_reachable slug bs1" using assms(1,3) by (rule rtranclp_trans)
  obtain bs3 w where bs3: "(bc_step slug)\<^sup>*\<^sup>* bs1 bs3" "bc_claim_decide slug grant channels claim_id now bs3 = Inr (found, w)"
    using claim_ends[OF reach assms(4,5,6)] by metis
  have "(bc_step slug)\<^sup>*\<^sup>* bs bs3" using assms(3) bs3(1) by (rule rtranclp_trans)
  then have ok: "bc_inv slug bs3" "bc_settled bs3 (rg_seat_id grant) name revision"
    using bc_steps_ok bc_reachable_inv[OF assms(1)] settled_forward[OF _ _ assms(2)] by blast+
  from bs3(2) show ?thesis
  proof (cases rule: claim_decided)
    case (again answer)
    then show ?thesis using bs3(1) by blast
  next
    case (new changed)
    then show ?thesis using settled_not_found[OF ok new(1) assms(7)] by blast
  qed
qed


text \<open>
  An acknowledged revision never comes back: once an acknowledgement returned, whether it was the first
  or a duplicate, no later claim of the seat returns that revision.
\<close>

theorem acknowledged_not_again:
  assumes "bc_reachable slug bs" and "bc_acking.clients slug envs" and "bc_claiming.clients slug envs'"
    and "authorize token = Inr grant" and "authorize token' = Inr grant'" and "rg_seat_id grant' = rg_seat_id grant"
    and "bc_acknowledge slug authorize token name revision envs bs = (Inr res, bs1)" and "(bc_step slug)\<^sup>*\<^sup>* bs1 bs2"
    and "bc_claim slug authorize token' channels '''' now envs' bs2 = (Inr found, bs3)" and "d \<in> set found"
  shows "(bc_broadcast_id (bl_broadcast d), bc_revision (bl_broadcast d)) \<noteq> (name, revision)"
proof -
  have "bc_acking.clients slug (take 5 envs)" using assms(2) by (auto simp: bc_acking.clients_def dest: in_set_takeD)
  moreover have "watch_loop (ack_seen (rg_seat_id grant)) (ack_decide grant name revision) (take 5 envs) bs = (Inr res, bs1)"
    using assms(4,7) by (auto simp: bc_acknowledge_def bc_grant_def fleet_error_def split: if_splits)
  ultimately obtain bs0 where bs0: "(bc_step slug)\<^sup>*\<^sup>* bs bs0" "(ack_decide grant name revision bs0 = Inr (res, None) \<and> bs1 = bs0) \<or>
      (\<exists>writes. ack_decide grant name revision bs0 = Inr (res, Some writes) \<and> bs1 = writes bs0)"
    using bc_acking.loop_atomic by blast
  have reach: "bc_reachable slug bs0" using assms(1) bs0(1) by (rule rtranclp_trans)
  have "ack_decide grant name revision bs0 \<noteq> Inr (res, None)" by (auto elim: ack_cases)
  then obtain writes where w: "ack_decide grant name revision bs0 = Inr (res, Some writes)" "bs1 = writes bs0" using bs0(2) by blast
  have "bc_settled bs1 (rg_seat_id grant') name revision"
    using acked_ok[OF bc_reachable_inv[OF reach] w(1)] assms(6) by (auto simp: bc_settled_def w(2))
  moreover have "bc_reachable slug bs1" using reach bc_acked[of _ _ _ _ _ _ slug, OF w(1)] unfolding w(2) by (rule rtranclp.rtrancl_into_rtrancl)
  ultimately show ?thesis using settled_for_good assms(3,5,8,9,10) by blast
qed

text \<open>
  An operation is answered once: when a publication was recorded under an operation id, every later
  publication under that id, by the same owner, is refused or answers that very broadcast and writes nothing.
\<close>

theorem operation_answered_once:
  assumes "bc_reachable slug bs" and "dget (bs_operations bs) (request_operation rq) = Some b" and "bp_operation_id rq \<noteq> ''''"
    and "(bc_step slug)\<^sup>*\<^sup>* bs bs1" and "bc_publishing.clients slug envs" and "bc_commit slug rq envs bs1 = (Inr b', bs2)"
  shows "b' = b \<and> commit_decide slug rq bs2 = Inr (b, None) \<and> (bc_step slug)\<^sup>*\<^sup>* bs1 bs2"
proof -
  have "bc_publishing.clients slug (take 5 envs)" using assms(5) by (auto simp: bc_publishing.clients_def dest: in_set_takeD)
  moreover have "watch_loop commit_seen (commit_decide slug rq) (take 5 envs) bs1 = (Inr b', bs2)"
    using assms(6) by (simp add: bc_commit_def fleet_error_def split: if_splits)
  ultimately obtain bs3 where bs3: "(bc_step slug)\<^sup>*\<^sup>* bs1 bs3" "(commit_decide slug rq bs3 = Inr (b', None) \<and> bs2 = bs3) \<or>
      (\<exists>writes. commit_decide slug rq bs3 = Inr (b', Some writes) \<and> bs2 = writes bs3)"
    using bc_publishing.loop_atomic by blast
  have "bc_forward bs bs3" using bc_steps_ok[OF rtranclp_trans[OF assms(4) bs3(1)] bc_reachable_inv[OF assms(1)]] ..
  then have op: "dget (bs_operations bs3) (request_operation rq) = Some b" using assms(2) by (simp add: bc_forward_def)
  then have "commit_decide slug rq bs3 = Inr (b, None)"
    using bs3(2) assms(3) by (auto simp: commit_decide_def fleet_error_def Let_def split: if_splits)
  then show ?thesis using bs3 by auto
qed

section \<open>A broadcast, its claim and its acknowledgement\<close>

text \<open>The operator's broadcast \<open>news\<close> to the engineers of brain \<open>b\<close>, to be handed out under a given policy.\<close>

definition bw_request :: "string \<Rightarrow> bc_request" where
  "bw_request policy = \<lparr>bp_draft = \<lparr>bd_broadcast_id = ''news'', bd_channel = '''', bd_target_role = ''eng'', bd_brain_id = JStr ''b'',
     bd_project_id = '''', bd_severity = ''info'', bd_policy = policy, bd_message = ''hi'', bd_ttl_seconds = 60\<rparr>,
     bp_brain = ''b'', bp_author = ''operator:o'', bp_operation_id = ''op'', bp_now = 1000, bp_uuid = ''''\<rparr>"

definition bw_broadcast :: "string \<Rightarrow> broadcast" where
  "bw_broadcast policy = built_broadcast ''s'' (bw_request policy) None"

definition bw_store :: "string \<Rightarrow> bc_store" where
  "bw_store policy = commit_writes (bw_request policy) (bw_broadcast policy) no_broadcasts"

definition bw_grant :: registration where
  "bw_grant = \<lparr>rg_grant_id = ''g'', rg_swarm_id = ''s'', rg_execution_id = ''e'', rg_generation = 1, rg_seat_id = ''eng-1@s'',
     rg_task_id = ''t'', rg_account = ''a'', rg_brain_id = ''b'', rg_project_ids = [''''], rg_issuer = '''', rg_audience = '''',
     rg_key_id = '''', rg_registered_at = 0\<rparr>"

lemma bw_published: "commit_decide ''s'' (bw_request policy) no_broadcasts = Inr (bw_broadcast policy, Some (commit_writes (bw_request policy) (bw_broadcast policy)))"
  by (simp add: commit_decide_def no_broadcasts_def bw_broadcast_def bw_request_def Let_def)

lemma bw_reachable: "bc_reachable ''s'' (bw_store policy)"
  unfolding bw_store_def using bc_published[OF bw_published] by (rule r_into_rtranclp)

lemma bw_role: "role_of ''eng-1@s'' = ''eng''"
  by (simp add: role_of_def is_digit_def Let_def)

lemmas bw_eval = bc_claim_def bc_grant_def bc_claim_decide_def bc_fence_def claim_found_def claim_one_def bc_matches_def
  seat_receipts_def same_receipt_def bc_order_def bw_store_def bw_broadcast_def bw_request_def bw_grant_def commit_writes_def
  built_broadcast_def no_broadcasts_def request_id_def fleet_error_def Let_def bw_role bc_claim_seen_def

lemma bw_claimed: "bc_claim ''s'' (\<lambda>_. Inr bw_grant) ''k'' [] '''' 2000 [id] (bw_store policy) =
    (Inr [\<lparr>bl_broadcast = bw_broadcast policy, bl_delivered_ms = 2000, bl_lag_seconds = 1\<rparr>],
     bc_claim_writes bw_grant '''' [] [(''news'', \<lparr>br_revision = 1, br_delivered_ms = 2000, br_acked = False,
       br_execution_id = ''e'', br_generation = 1\<rparr>)] (bw_store policy))"
  by (simp add: bw_eval bc_claim_writes_def)

lemma no_others [simp]: "bc_claiming.clients slug [id]" "bc_acking.clients slug [id]" "bc_publishing.clients slug [id]"
  by (simp_all add: bc_claiming.clients_def bc_acking.clients_def bc_publishing.clients_def)

lemma broadcast_revisions_ordered_witness:
  "map bc_revision (revisions_of (bw_store once) ''news'') = [1] \<and> broadcast_current (bw_store once) ''news'' = Some (bw_broadcast once)"
  using broadcast_revisions_ordered[OF bw_reachable[of once], of "''news''"]
  by (simp add: revisions_of_def bw_store_def commit_writes_def no_broadcasts_def bw_broadcast_def built_broadcast_def request_id_def
      bw_request_def Let_def)

lemma operation_answered_once_witness:
  "bc_commit ''s'' (bw_request once) [id] (bw_store once) = (Inr (bw_broadcast once), bw_store once) \<and>
   commit_decide ''s'' (bw_request once) (bw_store once) = Inr (bw_broadcast once, None)"
proof -
  have op: "dget (bs_operations (bw_store once)) (request_operation (bw_request once)) = Some (bw_broadcast once)"
    by (simp add: bw_store_def commit_writes_def no_broadcasts_def request_operation_def bw_request_def)
  have run: "bc_commit ''s'' (bw_request once) [id] (bw_store once) = (Inr (bw_broadcast once), bw_store once)"
    using op by (simp add: bc_commit_def commit_decide_def bw_store_def commit_writes_def no_broadcasts_def bw_broadcast_def
        built_broadcast_def bw_request_def broadcast_content_def draft_content_def request_id_def name_text_def name_char_def is_lower_def Let_def)
  have "bp_operation_id (bw_request once) \<noteq> ''''" by (simp add: bw_request_def)
  from operation_answered_once[OF bw_reachable op this rtranclp.rtrancl_refl _ run] run show ?thesis by simp
qed

text \<open>The operator revises the message, and the seat claims the second revision.\<close>

definition bw_revision :: "string \<Rightarrow> bc_request" where
  "bw_revision policy = (bw_request policy)\<lparr>bp_draft := bp_draft (bw_request policy)\<lparr>bd_message := ''ho''\<rparr>, bp_operation_id := '''', bp_now := 3000\<rparr>"

definition bw_revised :: "string \<Rightarrow> broadcast" where
  "bw_revised policy = built_broadcast ''s'' (bw_revision policy) (Some (bw_broadcast policy))"

lemma bw_revise:
  assumes "bs_canonical bs = [(''news'', bw_broadcast policy)]" "\<not> bs_frozen bs"
  shows "bc_step ''s'' bs (commit_writes (bw_revision policy) (bw_revised policy) bs)"
proof -
  have "commit_decide ''s'' (bw_revision policy) bs = Inr (bw_revised policy, Some (commit_writes (bw_revision policy) (bw_revised policy)))"
    using assms by (simp add: commit_decide_def bw_revised_def bw_revision_def bw_request_def bw_broadcast_def built_broadcast_def
        request_id_def broadcast_content_def owner_of_def starts_with_def Let_def)
  then show ?thesis by (rule bc_published)
qed

lemma bw_claim_again:
  assumes "bs_canonical bs = [(''news'', bw_revised policy)]" "dget (bs_generations bs) ''eng-1@s'' = Some 1"
    "dget (seat_receipts bs ''eng-1@s'') ''news'' = Some r" "br_revision r = 1"
  shows "\<exists>bs'. bc_claim ''s'' (\<lambda>_. Inr bw_grant) ''k'' [] '''' 4000 [id] bs =
    (Inr [\<lparr>bl_broadcast = bw_revised policy, bl_delivered_ms = 4000, bl_lag_seconds = 1\<rparr>], bs')"
  using assms
  by (simp add: bc_claim_def bc_grant_def bc_claim_decide_def bc_fence_def claim_found_def claim_one_def bc_matches_def
      same_receipt_def bc_order_def bw_revised_def bw_revision_def bw_request_def bw_broadcast_def bw_grant_def
      built_broadcast_def request_id_def fleet_error_def Let_def bw_role)

lemma bw_claim_keeps:
  "bs_canonical (bc_claim_writes grant claim_id found changed bs) = bs_canonical bs"
  "bs_frozen (bc_claim_writes grant claim_id found changed bs) = bs_frozen bs"
  "bs_generations (bc_claim_writes grant claim_id found changed bs) = dset (rg_seat_id grant) (rg_generation grant) (bs_generations bs)"
  by (simp_all add: bc_claim_writes_def Let_def)

lemma bw_stored: "bs_canonical (bw_store policy) = [(''news'', bw_broadcast policy)]" "\<not> bs_frozen (bw_store policy)"
  by (simp_all add: bw_store_def commit_writes_def no_broadcasts_def bw_broadcast_def built_broadcast_def bw_request_def request_id_def Let_def)

lemma bw_revised_store:
  assumes "bs_canonical bs = [(''news'', bw_broadcast policy)]"
  shows "bs_canonical (commit_writes (bw_revision policy) (bw_revised policy) bs) = [(''news'', bw_revised policy)]"
    "bs_generations (commit_writes (bw_revision policy) (bw_revised policy) bs) = bs_generations bs"
    "seat_receipts (commit_writes (bw_revision policy) (bw_revised policy) bs) seat = seat_receipts bs seat"
  using assms by (simp_all add: commit_writes_def bw_revised_def built_broadcast_def bw_revision_def bw_request_def request_id_def
      seat_receipts_def Let_def)


lemma acknowledged_not_again_witness:
  "\<exists>bs0 bs1 bs3. bc_claim ''s'' (\<lambda>_. Inr bw_grant) ''k'' [] '''' 2000 [id] (bw_store until_ack) =
      (Inr [\<lparr>bl_broadcast = bw_broadcast until_ack, bl_delivered_ms = 2000, bl_lag_seconds = 1\<rparr>], bs0) \<and>
    bc_acknowledge ''s'' (\<lambda>_. Inr bw_grant) ''k'' ''news'' 1 [id] bs0 = (Inr True, bs1) \<and>
    bc_claim ''s'' (\<lambda>_. Inr bw_grant) ''k'' [] '''' 4000 [id] (commit_writes (bw_revision until_ack) (bw_revised until_ack) bs1) =
      (Inr [\<lparr>bl_broadcast = bw_revised until_ack, bl_delivered_ms = 4000, bl_lag_seconds = 1\<rparr>], bs3) \<and>
    (bc_broadcast_id (bw_revised until_ack), bc_revision (bw_revised until_ack)) \<noteq> (''news'', 1)"
proof -
  obtain bs0 r where bs0: "bc_claim ''s'' (\<lambda>_. Inr bw_grant) ''k'' [] '''' 2000 [id] (bw_store until_ack) =
      (Inr [\<lparr>bl_broadcast = bw_broadcast until_ack, bl_delivered_ms = 2000, bl_lag_seconds = 1\<rparr>], bs0)"
    "bs_canonical bs0 = [(''news'', bw_broadcast until_ack)]" "\<not> bs_frozen bs0" "dget (bs_generations bs0) ''eng-1@s'' = Some 1"
    "dget (seat_receipts bs0 ''eng-1@s'') ''news'' = Some r" "br_revision r = 1" "\<not> br_acked r"
    using bw_claimed[of until_ack] bw_stored[of until_ack]
    by (simp add: bw_claim_keeps claim_writes_receipts bw_grant_def dget_dset)
  have reach: "bc_reachable ''s'' bs0"
    using claim_ends[OF bw_reachable no_others(1) refl bs0(1)] bw_reachable by (metis rtranclp_trans)
  obtain bs1 r1 where bs1: "bc_acknowledge ''s'' (\<lambda>_. Inr bw_grant) ''k'' ''news'' 1 [id] bs0 = (Inr True, bs1)"
    "bs_canonical bs1 = [(''news'', bw_broadcast until_ack)]" "\<not> bs_frozen bs1" "dget (bs_generations bs1) ''eng-1@s'' = Some 1"
    "dget (seat_receipts bs1 ''eng-1@s'') ''news'' = Some r1" "br_revision r1 = 1"
    using bs0 by (simp add: bc_acknowledge_def bc_grant_def ack_decide_def bc_fence_def bw_grant_def Let_def dget_dset)
  let ?bs2 = "commit_writes (bw_revision until_ack) (bw_revised until_ack) bs1"
  obtain bs3 where bs3: "bc_claim ''s'' (\<lambda>_. Inr bw_grant) ''k'' [] '''' 4000 [id] ?bs2 =
      (Inr [\<lparr>bl_broadcast = bw_revised until_ack, bl_delivered_ms = 4000, bl_lag_seconds = 1\<rparr>], bs3)"
    using bw_claim_again[of ?bs2 until_ack] bs1(4,5,6) bw_revised_store[OF bs1(2)] by auto
  have "(bc_broadcast_id (bw_revised until_ack), bc_revision (bw_revised until_ack)) \<noteq> (''news'', 1)"
    using acknowledged_not_again[OF reach no_others(2) no_others(1) refl refl refl bs1(1)
        r_into_rtranclp[of "bc_step ''s''", OF bw_revise[OF bs1(2,3)]] bs3] by force
  then show ?thesis using bs0(1) bs1(1) bs3 by blast
qed

end
