(* ===== verification/Hive_Registry.thy ===== *)
theory Hive_Registry
  imports State_Store Text_Tools Naming
begin

text \<open>
  The registry of hives (\<open>scripts/hive/registry.py\<close> over \<open>scripts/hive/hive_state.py\<close>): one record per hive in
  a revisioned store, changed by compare and set, and the index of their ids. A record is a JSON object;
  \<open>JNull\<close> stands for the empty bytes of a removed one. \<open>HiveError\<close> is \<open>Runtime_Error\<close>, without the quoted
  value. Fields have the types the settings and the beats give them. What the hash of the old layout
  holds is a parameter, decoded, \<open>JNull\<close> for none; the store is the one that is not Redis.
\<close>

section \<open>Amending a record\<close>

type_synonym hive_world = "json timed_store"

text \<open>\<open>None\<close> as an answer of the change is \<open>KEEP\<close>.\<close>

definition amend_decide :: "(json \<Rightarrow> fault + json option) \<Rightarrow> json \<Rightarrow> fault + json \<times> json option" where
  "amend_decide change current =
    (case change current of
       Inl e \<Rightarrow> Inl e
     | Inr None \<Rightarrow> Inr (current, None)
     | Inr (Some changed) \<Rightarrow> if changed = JNull \<and> current = JNull then Inr (JNull, None) else Inr (changed, Some changed))"

definition hive_amend ::
  "json \<Rightarrow> string \<Rightarrow> (json \<Rightarrow> fault + json option) \<Rightarrow> (hive_world \<Rightarrow> hive_world) list \<Rightarrow> hive_world \<Rightarrow> (fault + json) \<times> hive_world" where
  "hive_amend legacy key change others w =
    cas_loop (doc_load legacy key) (\<lambda>current w. (amend_decide change current, w)) (doc_commit key) State_Conflict (take 16 others) w"

definition hive_read :: "json \<Rightarrow> string \<Rightarrow> hive_world \<Rightarrow> json" where
  "hive_read legacy key w = (case store_get (ts_store w) key of None \<Rightarrow> legacy | Some e \<Rightarrow> se_value e)"

definition index_key :: string where
  "index_key = ''_index''"

fun json_texts :: "json \<Rightarrow> string list" where
  "json_texts (JList xs) = concat (map (\<lambda>v. case v of JStr s \<Rightarrow> [s] | _ \<Rightarrow> []) xs)"
| "json_texts _ = []"

definition hive_index :: "hive_world \<Rightarrow> string list" where
  "hive_index w = json_texts (hive_read (JList []) index_key w)"

definition index_change :: "string \<Rightarrow> bool \<Rightarrow> json \<Rightarrow> fault + json option" where
  "index_change hive_id present current =
    (let ids = json_texts current;
         wanted = (if present then (if hive_id \<in> set ids then ids else ids @ [hive_id]) else filter (\<lambda>i. i \<noteq> hive_id) ids)
     in Inr (if set wanted = set ids \<and> current \<noteq> JNull then None else Some (JList (map JStr (sort (remdups wanted))))))"

definition hive_indexed :: "string \<Rightarrow> bool \<Rightarrow> (hive_world \<Rightarrow> hive_world) list \<Rightarrow> hive_world \<Rightarrow> (fault + json) \<times> hive_world" where
  "hive_indexed hive_id present others w = hive_amend (JList []) index_key (index_change hive_id present) others w"

section \<open>Records\<close>

text \<open>\<open>{**a, **b}\<close> on objects kept in key order.\<close>

definition jmerge :: "jdict \<Rightarrow> jdict \<Rightarrow> jdict" where
  "jmerge a b = foldl (\<lambda>d (k, v). jset k v d) a b"

definition obj_of :: "json \<Rightarrow> jdict" where
  "obj_of v = (case v of JObj d \<Rightarrow> d | _ \<Rightarrow> [])"

definition num_of :: "json \<Rightarrow> int" where
  "num_of v = (case v of JInt i \<Rightarrow> i | _ \<Rightarrow> 0)"

definition kept_fields :: "string list" where
  "kept_fields = [''max_agents'', ''excluded'', ''ui'', ''ephemeral'']"

definition master_name :: string where
  "master_name = ''swarm-master''"

definition hive_default :: "string \<Rightarrow> json \<Rightarrow> jdict" where
  "hive_default hive_id ui =
    (let headless = ui \<noteq> JStr ''yes''
     in jmerge [] [(''id'', JStr hive_id), (''name'', JStr hive_id), (''ui'', ui), (''ephemeral'', JStr ''no''),
          (''excluded'', JList (if headless then [JStr ''master''] else [])), (''prefer'', JObj []),
          (''max_agents'', JInt (if headless then 20 else 15)), (''harnesses'', JList []), (''slots'', JList []),
          (''interactive'', JObj [(''claude'', JStr ''''), (''codex'', JStr '''')]), (''master_login'', JObj [(''claude'', JStr '''')]),
          (''master_login_enabled'', JStr ''no''), (''repos'', JList []), (''capabilities'', JList []), (''heartbeat_at'', JInt 0),
          (''version'', JStr '''')])"

definition hive_seeded :: "string \<Rightarrow> jdict" where
  "hive_seeded hive_id = filter (\<lambda>(field, v). field \<notin> set kept_fields) (hive_default hive_id (JStr ''no''))"

definition jor :: "jdict \<Rightarrow> string \<Rightarrow> json \<Rightarrow> json" where
  "jor d k v = (case dget d k of None \<Rightarrow> v | Some found \<Rightarrow> found)"

text \<open>The hive that hosts the operator's interface is always named \<open>swarm-master\<close>.\<close>

definition hive_settle :: "string \<Rightarrow> jdict \<Rightarrow> jdict" where
  "hive_settle hive_id record =
    (let settled = jmerge (hive_default hive_id (jor record ''ui'' (JStr ''no''))) record
     in if jget settled ''ui'' = JStr ''yes'' then jset ''name'' (JStr master_name) settled else settled)"

definition hive_show :: "(string \<Rightarrow> json) \<Rightarrow> string \<Rightarrow> hive_world \<Rightarrow> jdict option" where
  "hive_show legacy hive_id w =
    (case hive_read (legacy hive_id) hive_id w of JObj d \<Rightarrow> Some (hive_settle hive_id d) | _ \<Rightarrow> None)"

definition hives_all :: "(string \<Rightarrow> json) \<Rightarrow> hive_world \<Rightarrow> jdict list" where
  "hives_all legacy w = concat (map (\<lambda>hive_id. case hive_show legacy hive_id w of None \<Rightarrow> [] | Some r \<Rightarrow> [r]) (hive_index w))"

definition hive_live :: "jdict \<Rightarrow> int \<Rightarrow> bool" where
  "hive_live record now \<longleftrightarrow>
    (let beat = num_of (jget record ''heartbeat_at''); finished_at = num_of (jor record ''beat_at'' (JInt beat))
     in beat > 0 \<and> now - beat \<le> 90000 \<and> now - finished_at \<le> 300000)"

section \<open>Settings\<close>

definition hive_error :: "string \<Rightarrow> fault + 'a" where
  "hive_error msg = Inl (Runtime_Error msg)"

definition id_text :: "string \<Rightarrow> bool" where
  "id_text s \<longleftrightarrow> s \<noteq> [] \<and> (is_alpha (hd s) \<or> is_digit (hd s)) \<and> list_all (\<lambda>ch. is_alpha ch \<or> is_digit ch \<or> ch \<in> set ''._-'') (tl s)"

definition hive_id_ok :: "string \<Rightarrow> bool" where
  "hive_id_ok s \<longleftrightarrow> id_text s \<and> length s \<le> 63"

definition setting_name :: "string \<Rightarrow> string \<Rightarrow> fault + json" where
  "setting_name setting value = (if value = '''' then hive_error (setting @ '' must not be empty'') else Inr (JStr value))"

definition setting_flag :: "string \<Rightarrow> string \<Rightarrow> fault + json" where
  "setting_flag setting value =
    (if value \<noteq> ''yes'' \<and> value \<noteq> ''no'' then hive_error (setting @ '' must be yes or no'') else Inr (JStr value))"

definition setting_count :: "string \<Rightarrow> string \<Rightarrow> fault + json" where
  "setting_count setting value =
    (if value = '''' \<or> \<not> list_all is_digit value \<or> digits_value value < 1
     then hive_error (setting @ '' must be a positive whole number'') else Inr (JInt (int (digits_value value))))"

text \<open>\<open>dict.fromkeys\<close>: the first of equal names keeps its place.\<close>

definition in_order :: "string list \<Rightarrow> string list" where
  "in_order xs = rev (remdups (rev xs))"

definition setting_names :: "string \<Rightarrow> string \<Rightarrow> string \<Rightarrow> fault + json" where
  "setting_names noun setting value =
    (let names = in_order (filter (\<lambda>name. name \<noteq> '''') (map py_strip (split_on CHR '','' value)))
     in if list_all id_text names then Inr (JList (map JStr names)) else hive_error (setting @ '' takes '' @ noun))"

fun prefer_pairs :: "string \<Rightarrow> string list \<Rightarrow> jdict \<Rightarrow> fault + json" where
  "prefer_pairs setting [] prefer = Inr (JObj prefer)"
| "prefer_pairs setting (pair # pairs) prefer =
    (case partition_at CHR '':'' pair of
      (role, colon, rank) \<Rightarrow>
        if \<not> colon then hive_error (setting @ '' takes role:rank'')
        else and_then (setting_count (''the rank of '' @ role) rank) (\<lambda>v. prefer_pairs setting pairs (jset role v prefer)))"

definition setting_prefer :: "string \<Rightarrow> string \<Rightarrow> fault + json" where
  "setting_prefer setting value = prefer_pairs setting (filter (\<lambda>pair. pair \<noteq> '''') (split_on CHR '','' value)) []"

definition hive_settings :: "(string, string \<times> (string \<Rightarrow> string \<Rightarrow> fault + json)) dict" where
  "hive_settings = [(''name'', ''name'', setting_name), (''ui'', ''ui'', setting_flag), (''ephemeral'', ''ephemeral'', setting_flag),
     (''draining'', ''draining'', setting_flag), (''excluded'', ''excluded'', setting_names ''lane roles or profiles''),
     (''master-swarms'', ''master_swarms'', setting_names ''swarm slugs''), (''prefer'', ''prefer'', setting_prefer),
     (''max-agents'', ''max_agents'', setting_count), (''capabilities'', ''capabilities'', setting_names ''capability names'')]"

fun hive_parse :: "string list \<Rightarrow> jdict \<Rightarrow> fault + jdict" where
  "hive_parse [] parsed = Inr parsed"
| "hive_parse (pair # pairs) parsed =
    (case partition_at CHR ''='' pair of
      (setting, equals, value) \<Rightarrow>
        (case (equals, dget hive_settings setting) of
          (True, Some (field, reader)) \<Rightarrow> and_then (reader setting value) (\<lambda>v. hive_parse pairs (jset field v parsed))
        | _ \<Rightarrow> hive_error ''unknown setting''))"

section \<open>Changing a record\<close>

record drain =
  dn_owner :: string
  dn_reason :: string
  dn_deadline_at :: int

definition hive_check :: "jdict \<Rightarrow> fault + unit" where
  "hive_check record =
    (if list_ex (\<lambda>role. role \<in> set (json_texts (jget record ''excluded''))) (dkeys (obj_of (jget record ''prefer'')))
     then hive_error ''prefer names a role this hive excludes'' else Inr ())"

definition hive_ready :: "jdict \<Rightarrow> int \<Rightarrow> bool" where
  "hive_ready record at_ms \<longleftrightarrow> dhas record ''heartbeat_at'' \<and> hive_live record at_ms \<and> jget record ''draining'' \<noteq> JStr ''yes''"

definition json_items :: "json \<Rightarrow> json list" where
  "json_items v = (case v of JList xs \<Rightarrow> xs | _ \<Rightarrow> [])"

definition hive_drained :: "jdict \<Rightarrow> jdict \<Rightarrow> drain \<Rightarrow> int \<Rightarrow> jdict" where
  "hive_drained record stored dn at_ms =
    (if jor record ''draining'' (JStr ''no'') = jor stored ''draining'' (JStr ''no'') then record
     else
       let entry = JObj (jmerge [] [(''at'', JInt at_ms), (''draining'', jget record ''draining''), (''owner'', JStr (dn_owner dn)),
             (''reason'', JStr (dn_reason dn)), (''deadline_at'', JInt (dn_deadline_at dn)),
             (''ready_before'', JBool (hive_ready stored at_ms)), (''ready_after'', JBool (hive_ready record at_ms))]);
           drains = json_items (jget stored ''drains'') @ [entry]
       in jset ''drains'' (JList (drop (length drains - 20) drains)) record)"

definition kept_back :: "bool \<Rightarrow> string \<Rightarrow> jdict \<Rightarrow> string \<Rightarrow> bool" where
  "kept_back keep hive_id stored field \<longleftrightarrow> keep \<and> dhas stored field \<and>
    (field \<in> set kept_fields \<or> (field = ''name'' \<and> jget stored field \<noteq> JStr hive_id))"

definition update_write :: "string \<Rightarrow> jdict \<Rightarrow> bool \<Rightarrow> drain \<Rightarrow> int \<Rightarrow> json \<Rightarrow> fault + json option" where
  "update_write hive_id parsed keep dn at_ms current =
    (let stored = obj_of current;
         changed = filter (\<lambda>(field, v). \<not> kept_back keep hive_id stored field) parsed
     in and_then (hive_check (hive_settle hive_id (jmerge stored changed))) (\<lambda>_.
          Inr (Some (JObj (hive_drained (jmerge (jmerge (hive_seeded hive_id) stored) changed) stored dn at_ms)))))"

text \<open>\<open>member\<close> is the hive this process speaks for as a member: it leaves the index to the hub.\<close>

definition hive_update ::
  "(string \<Rightarrow> json) \<Rightarrow> string \<Rightarrow> string \<Rightarrow> string list \<Rightarrow> bool \<Rightarrow> drain \<Rightarrow> int \<Rightarrow> (hive_world \<Rightarrow> hive_world) list \<Rightarrow>
   (hive_world \<Rightarrow> hive_world) list \<Rightarrow> hive_world \<Rightarrow> (fault + jdict) \<times> hive_world" where
  "hive_update legacy member hive_id pairs keep dn at_ms others index_others w =
    (if \<not> hive_id_ok hive_id then (hive_error ''hive id must be letters, digits, dots, dashes or underscores'', w)
     else if pairs = [] then (hive_error ''hive set needs at least one setting'', w)
     else case hive_parse pairs [] of
            Inl e \<Rightarrow> (Inl e, w)
          | Inr parsed \<Rightarrow>
              (case hive_amend (legacy hive_id) hive_id (update_write hive_id parsed keep dn at_ms) others w of
                 (Inl e, w1) \<Rightarrow> (Inl e, w1)
               | (Inr written, w1) \<Rightarrow>
                   let record = hive_settle hive_id (obj_of written)
                   in if hive_id = member then (Inr record, w1)
                      else (case hive_indexed hive_id True index_others w1 of
                              (Inl (Unavailable msg), w2) \<Rightarrow> (Inr record, w2)
                            | (Inl e, w2) \<Rightarrow> (Inl e, w2)
                            | (Inr _, w2) \<Rightarrow> (Inr record, w2))))"

definition beat_write :: "string \<Rightarrow> jdict \<Rightarrow> json \<Rightarrow> fault + json option" where
  "beat_write hive_id beat current = Inr (Some (JObj (jmerge (jmerge (hive_seeded hive_id) (obj_of current)) beat)))"

definition hive_beat :: "(string \<Rightarrow> json) \<Rightarrow> string \<Rightarrow> jdict \<Rightarrow> (hive_world \<Rightarrow> hive_world) list \<Rightarrow> hive_world \<Rightarrow> (fault + json) \<times> hive_world" where
  "hive_beat legacy hive_id beat others w = hive_amend (legacy hive_id) hive_id (beat_write hive_id beat) others w"

definition hive_forget ::
  "(string \<Rightarrow> json) \<Rightarrow> string \<Rightarrow> (hive_world \<Rightarrow> hive_world) list \<Rightarrow> (hive_world \<Rightarrow> hive_world) list \<Rightarrow> hive_world \<Rightarrow> (fault + json) \<times> hive_world" where
  "hive_forget legacy hive_id others index_others w =
    (case hive_amend (legacy hive_id) hive_id (\<lambda>stored. Inr (Some JNull)) others w of
      (Inl e, w1) \<Rightarrow> (Inl e, w1)
    | (Inr _, w1) \<Rightarrow> hive_indexed hive_id False index_others w1)"

text \<open>A heartbeat between two beats. The first one sets the end of the last beat, so a beat that never ends ages out.\<close>

definition touch_write :: "int \<Rightarrow> json \<Rightarrow> fault + json option" where
  "touch_write now current =
    (let stored = obj_of current
     in Inr (if stored = [] \<or> \<not> dhas stored ''heartbeat_at'' then None
             else Some (JObj (jset ''heartbeat_at'' (JInt now) (jmerge [(''beat_at'', JInt now)] stored)))))"

definition hive_touch :: "(string \<Rightarrow> json) \<Rightarrow> string \<Rightarrow> int \<Rightarrow> (hive_world \<Rightarrow> hive_world) list \<Rightarrow> hive_world \<Rightarrow> (fault + json) \<times> hive_world" where
  "hive_touch legacy hive_id now others w = hive_amend (legacy hive_id) hive_id (touch_write now) others w"

definition finished_write :: "int \<Rightarrow> json \<Rightarrow> fault + json option" where
  "finished_write now current =
    (let stored = obj_of current in Inr (if stored = [] then None else Some (JObj (jset ''beat_at'' (JInt now) stored))))"

definition hive_finished :: "(string \<Rightarrow> json) \<Rightarrow> string \<Rightarrow> int \<Rightarrow> (hive_world \<Rightarrow> hive_world) list \<Rightarrow> hive_world \<Rightarrow> (fault + json) \<times> hive_world" where
  "hive_finished legacy hive_id now others w = hive_amend (legacy hive_id) hive_id (finished_write now) others w"

section \<open>What the records promise\<close>

lemma dget_jmerge [dict_simps]:
  "wf_dict b \<Longrightarrow> dget (jmerge a b) k = (case dget b k of Some v \<Rightarrow> Some v | None \<Rightarrow> dget a k)"
proof (induction b arbitrary: a)
  case Nil
  then show ?case by (simp add: jmerge_def)
next
  case (Cons kv b)
  obtain k0 v0 where kv: "kv = (k0, v0)" by fastforce
  have "jmerge a (kv # b) = jmerge (jset k0 v0 a) b" by (simp add: jmerge_def kv)
  moreover have "dget b k0 = None" using Cons.prems kv by (simp add: map_of_eq_None_iff)
  ultimately show ?case using Cons by (auto simp: kv dget_jset split: option.splits)
qed

text \<open>Objects in key order have distinct keys, and stay in order.\<close>

definition jordered :: "jdict \<Rightarrow> bool" where
  "jordered d \<longleftrightarrow> sorted_wrt (<) (dkeys d)"

lemma jordered_nil [simp, intro]: "jordered []"
  by (simp add: jordered_def)

lemma jordered_wf: "jordered d \<Longrightarrow> wf_dict d"
  by (simp add: jordered_def strict_sorted_iff)

lemma dkeys_jset: "set (dkeys (jset k v d)) = insert k (set (dkeys d))"
  by (induction k v d rule: jset.induct) auto

lemma jordered_jset: "jordered d \<Longrightarrow> jordered (jset k v d)"
  unfolding jordered_def by (induction k v d rule: jset.induct) (auto simp: dkeys_jset[unfolded set_map] image_iff)

lemma jordered_jmerge: "jordered a \<Longrightarrow> jordered (jmerge a b)"
  by (induction b arbitrary: a) (auto simp: jmerge_def jordered_jset)

lemma jordered_filter: "jordered d \<Longrightarrow> jordered (filter P d)"
  unfolding jordered_def by (induction d) auto

text \<open>
  Every write is one change, made at the moment it commits on the value it replaces: nothing another
  process wrote in between is lost.
\<close>

lemma hive_amend_atomic:
  assumes "doc_others others" and "timed_inv w" and "hive_amend legacy key change others w = (Inr r, w')"
  obtains v rvn w1 where "timed_ev w w1" "doc_rd legacy key w1 = Some (v, rvn)"
    "(r = v \<and> w' = w1 \<and> (change v = Inr None \<or> (v = JNull \<and> change v = Inr (Some JNull)))) \<or>
     (change v = Inr (Some r) \<and> (\<exists>rvn' > rvn. doc_rd legacy key w' = Some (r, rvn')))"
proof -
  have "doc_others (take 16 others)" using assms(1) by (auto simp: doc_others_def dest: in_set_takeD)
  then obtain v rvn w1 w2 where at: "timed_ev w w1" "doc_rd legacy key w1 = Some (v, rvn)"
    and out: "(amend_decide change v = Inr (r, None) \<and> w' = w2 \<and> w2 = w1) \<or>
       (\<exists>v'. amend_decide change v = Inr (r, Some v') \<and> doc_commit key v' rvn w2 = Inr w' \<and>
         (\<exists>rvn' > rvn. doc_rd legacy key w' = Some (v', rvn')))"
    using doc_loop_Inr[where change = "\<lambda>current w. (amend_decide change current, w)", OF _ _ assms(2) assms(3)[unfolded hive_amend_def]]
    by (metis (no_types, lifting) fst_conv snd_conv)
  have keep: "r = v \<and> (change v = Inr None \<or> (v = JNull \<and> change v = Inr (Some JNull)))" if "amend_decide change v = Inr (r, None)"
    using that by (auto simp: amend_decide_def split: sum.splits option.splits if_splits)
  have put: "change v = Inr (Some r) \<and> v' = r" if "amend_decide change v = Inr (r, Some v')" for v'
    using that by (auto simp: amend_decide_def split: sum.splits option.splits if_splits)
  show thesis using that[OF at] out keep put by blast
qed


lemma parse_step:
  assumes "hive_parse (pair # pairs) d = Inr parsed"
  obtains field v where "field \<in> set (map (fst \<circ> snd) hive_settings)" "hive_parse pairs (jset field v d) = Inr parsed"
proof -
  obtain setting sep given where p: "partition_at CHR ''='' pair = (setting, sep, given)" by (metis prod_cases3)
  then obtain field reader v where f: "dget hive_settings setting = Some (field, reader)" and "hive_parse pairs (jset field v d) = Inr parsed"
    using assms by (auto simp: and_then_Inr hive_error_def split: bool.splits option.splits)
  moreover have "field \<in> set (map (fst \<circ> snd) hive_settings)"
    using map_of_SomeD[OF f] by (auto intro: image_eqI[where x = "(setting, field, reader)"])
  ultimately show thesis using that by blast
qed

lemma parsed_fields:
  "hive_parse pairs d = Inr parsed \<Longrightarrow> jordered d \<Longrightarrow>
   jordered parsed \<and> set (dkeys parsed) \<subseteq> set (dkeys d) \<union> set (map (fst \<circ> snd) hive_settings)"
proof (induction pairs arbitrary: d)
  case Nil
  then show ?case by simp
next
  case (Cons pair pairs)
  obtain field v where f: "field \<in> set (map (fst \<circ> snd) hive_settings)" "hive_parse pairs (jset field v d) = Inr parsed"
    using parse_step[OF Cons.prems(1)] .
  show ?case using Cons.IH[OF f(2) jordered_jset[OF Cons.prems(2)]] f(1) unfolding dkeys_jset by auto
qed

lemma parsed_settings:
  assumes "hive_parse pairs [] = Inr parsed"
  shows "jordered parsed" "dget parsed ''drains'' = None" "dget parsed ''beat_at'' = None" "dget parsed ''heartbeat_at'' = None"
proof -
  have "jordered parsed \<and> set (dkeys parsed) \<subseteq> set (map (fst \<circ> snd) hive_settings)"
    using parsed_fields[OF assms] by (simp add: jordered_def)
  moreover have "set (map (fst \<circ> snd) hive_settings) = {''name'', ''ui'', ''ephemeral'', ''draining'', ''excluded'', ''master_swarms'',
      ''prefer'', ''max_agents'', ''capabilities''}" by (simp add: hive_settings_def)
  ultimately have ok: "jordered parsed" "set (dkeys parsed) \<subseteq> {''name'', ''ui'', ''ephemeral'', ''draining'', ''excluded'', ''master_swarms'',
      ''prefer'', ''max_agents'', ''capabilities''}" by simp_all
  show "jordered parsed" by (rule ok(1))
  have "k \<notin> set (dkeys parsed)" if "k \<in> {''drains'', ''beat_at'', ''heartbeat_at''}" for k using ok(2) that by auto
  then show "dget parsed ''drains'' = None" "dget parsed ''beat_at'' = None" "dget parsed ''heartbeat_at'' = None"
    by (simp_all add: map_of_eq_None_iff)
qed

text \<open>
  A record in order: a role it prefers is not one it excludes, its drain history keeps twenty entries at most, and the
  hive with the operator's interface goes by the master's name.
\<close>

definition prefers_hosted :: "jdict \<Rightarrow> bool" where
  "prefers_hosted record \<longleftrightarrow> (\<forall>role \<in> set (dkeys (obj_of (jget record ''prefer''))). role \<notin> set (json_texts (jget record ''excluded'')))"

definition hive_record_ok :: "string \<Rightarrow> jdict \<Rightarrow> bool" where
  "hive_record_ok hive_id d \<longleftrightarrow> jordered d \<and> prefers_hosted (hive_settle hive_id d) \<and> length (json_items (jget d ''drains'')) \<le> 20"

lemma hive_check_Inr: "hive_check record = Inr u \<longleftrightarrow> prefers_hosted record"
  by (auto simp: hive_check_def prefers_hosted_def hive_error_def list_ex_iff)

lemma hive_default_get:
  "dget (hive_default hive_id ui) k =
    (if k = ''ui'' then Some ui else if k = ''excluded'' then Some (JList (if ui \<noteq> JStr ''yes'' then [JStr ''master''] else []))
     else if k = ''max_agents'' then Some (JInt (if ui \<noteq> JStr ''yes'' then 20 else 15)) else dget (hive_default hive_id (JStr ''no'')) k)"
  by (simp add: hive_default_def Let_def dget_jmerge)

lemma hive_default_ordered: "jordered (hive_default hive_id ui)"
  unfolding hive_default_def Let_def by (intro jordered_jmerge jordered_nil)

lemma hive_seeded_get: "dget (hive_seeded hive_id) k = (if k \<in> set kept_fields then None else dget (hive_default hive_id (JStr ''no'')) k)"
  using map_of_filter_keys[of "\<lambda>k. k \<notin> set kept_fields" "hive_default hive_id (JStr ''no'')" k]
  by (simp add: hive_seeded_def case_prod_unfold)

lemma hive_seeded_ordered: "jordered (hive_seeded hive_id)"
  by (simp add: hive_seeded_def jordered_filter hive_default_ordered)

lemma settle_get:
  assumes "wf_dict d" and "k \<noteq> ''name''"
  shows "dget (hive_settle hive_id d) k = (case dget d k of Some v \<Rightarrow> Some v | None \<Rightarrow> dget (hive_default hive_id (jor d ''ui'' (JStr ''no''))) k)"
  using assms by (auto simp: hive_settle_def Let_def dget_jset dget_jmerge)

text \<open>Laying a record over the seeds changes nothing about what it prefers, excludes and shows.\<close>

lemma settle_seeded:
  assumes "wf_dict d" "wf_dict d'" and "\<And>k. dget d' k = (case dget d k of Some v \<Rightarrow> Some v | None \<Rightarrow> dget (hive_seeded hive_id) k)"
  shows "jget (hive_settle hive_id d') ''prefer'' = jget (hive_settle hive_id d) ''prefer'' \<and>
    jget (hive_settle hive_id d') ''excluded'' = jget (hive_settle hive_id d) ''excluded''"
proof -
  have "jor d' ''ui'' (JStr ''no'') = jor d ''ui'' (JStr ''no'')"
    using assms(3)[of "''ui''"] by (simp add: jor_def hive_seeded_get kept_fields_def split: option.splits)
  moreover have "dget (hive_default hive_id ui) ''prefer'' = Some (JObj [])" for ui by (simp add: hive_default_def Let_def dget_jmerge)
  ultimately show ?thesis
    using assms(3)[of "''prefer''"] assms(3)[of "''excluded''"]
    by (simp add: jget_def settle_get assms(1,2) hive_seeded_get kept_fields_def split: option.splits)
qed

text \<open>
  What a beat writes (\<open>daemon.beat\<close>): slots, logins, repositories and the heartbeat, but neither the settings nor the end
  of the beat.
\<close>

definition beat_fields_ok :: "jdict \<Rightarrow> bool" where
  "beat_fields_ok beat \<longleftrightarrow> wf_dict beat \<and>
    set (dkeys beat) \<subseteq> {''slots'', ''interactive'', ''repos'', ''master_login'', ''master_login_enabled'', ''heartbeat_at''}"

lemma beat_fields_get:
  assumes "beat_fields_ok beat"
  shows "dget beat ''prefer'' = None" "dget beat ''excluded'' = None" "dget beat ''ui'' = None" "dget beat ''drains'' = None"
    "dget beat ''beat_at'' = None"
proof -
  have "k \<notin> set (dkeys beat)" if "k \<in> {''prefer'', ''excluded'', ''ui'', ''drains'', ''beat_at''}" for k
    using assms that unfolding beat_fields_ok_def by auto
  then show "dget beat ''prefer'' = None" "dget beat ''excluded'' = None" "dget beat ''ui'' = None" "dget beat ''drains'' = None"
    "dget beat ''beat_at'' = None" by (simp_all add: map_of_eq_None_iff)
qed

text \<open>The writes during one beat, and all the writes of a record.\<close>

inductive hive_busy :: "string \<Rightarrow> json \<Rightarrow> json \<Rightarrow> bool" for hive_id where
  hb_update: "hive_parse pairs [] = Inr parsed \<Longrightarrow> update_write hive_id parsed keep dn at_ms v = Inr (Some v') \<Longrightarrow> hive_busy hive_id v v'"
| hb_beat: "beat_fields_ok beat \<Longrightarrow> beat_write hive_id beat v = Inr (Some v') \<Longrightarrow> hive_busy hive_id v v'"
| hb_touch: "touch_write now v = Inr (Some v') \<Longrightarrow> hive_busy hive_id v v'"

inductive hive_change :: "string \<Rightarrow> json \<Rightarrow> json \<Rightarrow> bool" for hive_id where
  hc_busy: "hive_busy hive_id v v' \<Longrightarrow> hive_change hive_id v v'"
| hc_finished: "finished_write now v = Inr (Some v') \<Longrightarrow> hive_change hive_id v v'"
| hc_forget: "hive_change hive_id v JNull"

fun hive_value_ok :: "string \<Rightarrow> json \<Rightarrow> bool" where
  "hive_value_ok hive_id (JObj d) = hive_record_ok hive_id d"
| "hive_value_ok hive_id JNull = True"
| "hive_value_ok hive_id _ = False"

lemma hive_value_obj: "hive_value_ok hive_id v \<Longrightarrow> jordered (obj_of v) \<and> length (json_items (jget (obj_of v) ''drains'')) \<le> 20"
  by (cases v) (auto simp: hive_record_ok_def obj_of_def jget_def json_items_def)

lemma hive_value_prefers: "hive_value_ok hive_id v \<Longrightarrow> prefers_hosted (hive_settle hive_id (obj_of v))"
proof (cases v)
  case (JObj d)
  then show "hive_value_ok hive_id v \<Longrightarrow> ?thesis" by (simp add: hive_record_ok_def obj_of_def)
next
  case JNull
  have "dget (hive_settle hive_id []) ''prefer'' = Some (JObj [])" by (simp add: settle_get) (simp add: hive_default_def Let_def dget_jmerge)
  then show ?thesis using JNull by (simp add: obj_of_def prefers_hosted_def jget_def)
qed auto

lemma prefers_same:
  assumes "wf_dict d" "wf_dict d'" "\<And>k. k \<in> {''ui'', ''prefer'', ''excluded''} \<Longrightarrow> dget d' k = dget d k"
  shows "prefers_hosted (hive_settle hive_id d') = prefers_hosted (hive_settle hive_id d)"
proof -
  have "dget d' ''ui'' = dget d ''ui''" by (rule assms(3)) simp
  then have ui: "jor d' ''ui'' (JStr ''no'') = jor d ''ui'' (JStr ''no'')" by (simp only: jor_def)
  have "jget (hive_settle hive_id d') k = jget (hive_settle hive_id d) k" if "k \<in> {''prefer'', ''excluded''}" for k
  proof -
    have "dget d' k = dget d k" using that by (intro assms(3)) auto
    moreover have "k \<noteq> ''name''" using that by auto
    ultimately show ?thesis unfolding jget_def by (simp only: settle_get[OF assms(1)] settle_get[OF assms(2)] ui not_False_eq_True)
  qed
  then show ?thesis by (simp add: prefers_hosted_def)
qed

lemma seeded_ok:
  assumes "jordered d" "jordered d'" "prefers_hosted (hive_settle hive_id d)" "length (json_items (jget d ''drains'')) \<le> 20"
    and "\<And>k. dget d' k = (case dget d k of Some v \<Rightarrow> Some v | None \<Rightarrow> dget (hive_seeded hive_id) k)"
  shows "hive_record_ok hive_id d'"
proof -
  have "prefers_hosted (hive_settle hive_id d')"
    using assms(3) settle_seeded[OF jordered_wf[OF assms(1)] jordered_wf[OF assms(2)] assms(5)] by (simp add: prefers_hosted_def)
  moreover have "dget (hive_seeded hive_id) ''drains'' = None"
    by (simp add: hive_seeded_get kept_fields_def) (simp add: hive_default_def Let_def dget_jmerge)
  then have "jget d' ''drains'' = jget d ''drains''" using assms(5)[of "''drains''"] by (simp add: jget_def split: option.splits)
  ultimately show ?thesis using assms(2,4) by (simp add: hive_record_ok_def)
qed

lemma drained_ok:
  assumes "hive_record_ok hive_id d"
  shows "hive_record_ok hive_id (hive_drained d stored dn at_ms)"
proof -
  let ?d' = "hive_drained d stored dn at_ms"
  have d: "jordered d" using assms by (simp add: hive_record_ok_def)
  have "jordered ?d'" using d by (simp add: hive_drained_def Let_def jordered_jset)
  moreover have "dget ?d' k = dget d k" if "k \<in> {''ui'', ''prefer'', ''excluded''}" for k
    using that by (auto simp: hive_drained_def Let_def dget_jset)
  then have "prefers_hosted (hive_settle hive_id ?d') = prefers_hosted (hive_settle hive_id d)"
    using prefers_same[OF jordered_wf[OF d] jordered_wf[OF \<open>jordered ?d'\<close>]] by blast
  moreover have "length (json_items (jget ?d' ''drains'')) \<le> 20"
  proof (cases "jor d ''draining'' (JStr ''no'') = jor stored ''draining'' (JStr ''no'')")
    case True
    then show ?thesis using assms by (simp add: hive_drained_def hive_record_ok_def)
  next
    case False
    then obtain xs where "?d' = jset ''drains'' (JList (drop (length xs - 20) xs)) d" by (simp only: hive_drained_def Let_def if_False)
    then show ?thesis by (simp add: jget_def dget_jset json_items_def)
  qed
  ultimately show ?thesis using assms by (simp add: hive_record_ok_def)
qed

lemma update_ok:
  assumes "hive_parse pairs [] = Inr parsed" "update_write hive_id parsed keep dn at_ms v = Inr (Some v')" "hive_value_ok hive_id v"
  shows "hive_value_ok hive_id v'"
proof -
  define changed where "changed = filter (\<lambda>(field, v1). \<not> kept_back keep hive_id (obj_of v) field) parsed"
  note v = hive_value_obj[OF assms(3)]
  have c: "jordered changed" using parsed_settings(1)[OF assms(1)] by (simp add: changed_def jordered_filter)
  have cget: "dget changed k = (if kept_back keep hive_id (obj_of v) k then None else dget parsed k)" for k
    using map_of_filter_keys[of "\<lambda>field. \<not> kept_back keep hive_id (obj_of v) field" parsed k]
    by (simp add: changed_def case_prod_unfold)
  let ?d = "jmerge (obj_of v) changed" and ?d' = "jmerge (jmerge (hive_seeded hive_id) (obj_of v)) changed"
  have checked: "prefers_hosted (hive_settle hive_id ?d)" and v': "v' = JObj (hive_drained ?d' (obj_of v) dn at_ms)"
    using assms(2) by (auto simp: update_write_def Let_def and_then_Inr hive_check_Inr changed_def)
  have "length (json_items (jget ?d ''drains'')) \<le> 20"
    using v parsed_settings(2)[OF assms(1)] by (simp add: jget_def dget_jmerge jordered_wf c cget)
  moreover have "dget ?d' k = (case dget ?d k of Some v1 \<Rightarrow> Some v1 | None \<Rightarrow> dget (hive_seeded hive_id) k)" for k
    using v by (simp add: dget_jmerge jordered_wf c split: option.split)
  ultimately have "hive_record_ok hive_id ?d'"
    using v checked by (intro seeded_ok) (auto intro: jordered_jmerge hive_seeded_ordered)
  then show ?thesis unfolding v' by (simp add: drained_ok)
qed

lemma beat_ok:
  assumes "beat_fields_ok beat" "beat_write hive_id beat v = Inr (Some v')" "hive_value_ok hive_id v"
  shows "hive_value_ok hive_id v'"
proof -
  note v = hive_value_obj[OF assms(3)] hive_value_prefers[OF assms(3)] and b = beat_fields_get[OF assms(1)]
  have wf: "wf_dict beat" using assms(1) by (simp add: beat_fields_ok_def)
  let ?d = "jmerge (hive_seeded hive_id) (obj_of v)"
  have "hive_record_ok hive_id ?d"
    using v by (intro seeded_ok[of "obj_of v"]) (auto simp: dget_jmerge jordered_wf intro: jordered_jmerge hive_seeded_ordered)
  moreover have "jordered (jmerge ?d beat)" "jordered ?d" by (intro jordered_jmerge hive_seeded_ordered)+
  moreover have "dget (jmerge ?d beat) k = dget ?d k" if "k \<in> {''ui'', ''prefer'', ''excluded'', ''drains''}" for k
    using b that wf by (auto simp: dget_jmerge split: option.splits)
  ultimately have "hive_record_ok hive_id (jmerge ?d beat)"
    using prefers_same[of ?d "jmerge ?d beat"] jordered_wf unfolding hive_record_ok_def jget_def by auto
  then show ?thesis using assms(2) by (auto simp: beat_write_def)
qed


lemma touch_cases:
  assumes "touch_write now v = Inr (Some v')"
  shows "v' = JObj (jset ''heartbeat_at'' (JInt now) (jmerge [(''beat_at'', JInt now)] (obj_of v)))" "dhas (obj_of v) ''heartbeat_at''"
  using assms by (auto simp: touch_write_def Let_def split: if_splits)

lemma stamp_ok:
  assumes "hive_value_ok hive_id (JObj d)" "jordered d'" "\<And>k. k \<in> {''ui'', ''prefer'', ''excluded'', ''drains''} \<Longrightarrow> dget d' k = dget d k"
  shows "hive_value_ok hive_id (JObj d')"
proof -
  have d: "jordered d" using assms(1) by (simp add: hive_record_ok_def)
  have "prefers_hosted (hive_settle hive_id d') = prefers_hosted (hive_settle hive_id d)"
    using prefers_same[OF jordered_wf[OF d] jordered_wf[OF assms(2)]] assms(3) by blast
  then show ?thesis using assms(1,2) assms(3)[of "''drains''"] by (simp add: hive_record_ok_def jget_def)
qed

lemma busy_ok:
  assumes "hive_busy hive_id v v'" "hive_value_ok hive_id v"
  shows "hive_value_ok hive_id v'"
  using assms
proof (cases rule: hive_busy.cases)
  case (hb_touch now)
  obtain d where d: "v = JObj d" using touch_cases(2)[OF hb_touch] by (cases v) (auto simp: obj_of_def dhas_def)
  then have o: "obj_of v = d" "jordered d" using assms(2) by (simp_all add: obj_of_def hive_record_ok_def)
  have "jordered (jmerge [(''beat_at'', JInt now)] d)" by (intro jordered_jmerge) (simp add: jordered_def)
  then have "hive_value_ok hive_id (JObj (jset ''heartbeat_at'' (JInt now) (jmerge [(''beat_at'', JInt now)] d)))"
    using o(2) by (intro stamp_ok[OF assms(2)[unfolded d]])
      (auto simp: jordered_jset dget_jset dget_jmerge jordered_wf split: option.split)
  then show ?thesis unfolding touch_cases(1)[OF hb_touch] o(1) .
qed (use assms(2) update_ok beat_ok in blast)+

lemma change_ok:
  assumes "hive_change hive_id v v'" "hive_value_ok hive_id v"
  shows "hive_value_ok hive_id v'"
  using assms
proof (cases rule: hive_change.cases)
  case (hc_finished now)
  then obtain d where d: "v = JObj d" "v' = JObj (jset ''beat_at'' (JInt now) d)"
    by (auto simp: finished_write_def Let_def obj_of_def split: if_splits json.splits)
  have "jordered d" using assms(2) unfolding d by (simp add: hive_record_ok_def)
  then show ?thesis unfolding d by (intro stamp_ok[OF assms(2)[unfolded d]]) (auto simp: jordered_jset dget_jset)
qed (use assms(2) busy_ok in auto)

text \<open>
  C28: Whatever settings, beats, heartbeats and removals made a hive's record, it prefers no role it excludes, once the
  defaults are laid under it, and keeps twenty entries of its drain history at most.
\<close>

theorem hive_records_in_order:
  assumes "(hive_change hive_id)\<^sup>*\<^sup>* JNull (JObj d)"
  shows "prefers_hosted (hive_settle hive_id d) \<and> length (json_items (jget d ''drains'')) \<le> 20"
proof -
  have "hive_value_ok hive_id v" if "(hive_change hive_id)\<^sup>*\<^sup>* JNull v" for v
    using that by (induction rule: rtranclp_induct) (auto intro: change_ok)
  from this[OF assms] show ?thesis by (simp add: hive_record_ok_def)
qed

lemma drained_get: "k \<noteq> ''drains'' \<Longrightarrow> dget (hive_drained d stored dn at_ms) k = dget d k"
  by (simp add: hive_drained_def Let_def dget_jset)

lemma busy_keeps_beat:
  assumes "hive_busy hive_id v v'" "hive_value_ok hive_id v" "dget (obj_of v) ''beat_at'' = Some b"
  shows "dget (obj_of v') ''beat_at'' = Some b"
proof -
  note wf = jordered_wf[OF conjunct1[OF hive_value_obj[OF assms(2)]]]
  show ?thesis
    using assms(1)
  proof (cases rule: hive_busy.cases)
    case (hb_update pairs parsed keep dn at_ms)
    have "wf_dict (filter (\<lambda>(field, v1). \<not> kept_back keep hive_id (obj_of v) field) parsed)"
      using jordered_wf[OF parsed_settings(1)[OF hb_update(1)]] by (rule wf_dict_filter)
    moreover have "dget (filter (\<lambda>(field, v1). \<not> kept_back keep hive_id (obj_of v) field) parsed) ''beat_at'' = None"
      using parsed_settings(3)[OF hb_update(1)] map_of_filter_keys[of "\<lambda>field. \<not> kept_back keep hive_id (obj_of v) field" parsed "''beat_at''"]
      by (simp add: case_prod_unfold)
    ultimately show ?thesis using hb_update(2) assms(3) wf
      by (auto simp: update_write_def Let_def and_then_Inr obj_of_def[of "JObj _"] drained_get dget_jmerge)
  next
    case (hb_beat beat)
    then show ?thesis using assms(3) wf beat_fields_get(5)[OF hb_beat(1)]
      by (auto simp: beat_write_def obj_of_def[of "JObj _"] dget_jmerge beat_fields_ok_def)
  next
    case (hb_touch now)
    show ?thesis using assms(3) wf unfolding touch_cases(1)[OF hb_touch] by (simp add: obj_of_def[of "JObj _"] dget_jset dget_jmerge)
  qed
qed

text \<open>
  C29: A beat that never ends ages out: five minutes after the end of the last finished beat the hive is no longer live,
  however often its heartbeat, its settings and the start of a beat were written meanwhile.
\<close>

theorem unfinished_beat_ages_out:
  assumes "hive_value_ok hive_id (JObj d)" and "dget d ''beat_at'' = Some (JInt b)" and "(hive_busy hive_id)\<^sup>*\<^sup>* (JObj d) (JObj d')"
    and "now > b + 300000"
  shows "\<not> hive_live (hive_settle hive_id d') now"
proof -
  have "hive_value_ok hive_id v \<and> dget (obj_of v) ''beat_at'' = Some (JInt b)" if "(hive_busy hive_id)\<^sup>*\<^sup>* (JObj d) v" for v
    using that
  proof (induction rule: rtranclp_induct)
    case base
    then show ?case using assms(1,2) by (simp add: obj_of_def)
  next
    case (step v v')
    then show ?case using busy_ok busy_keeps_beat by blast
  qed
  from this[OF assms(3)] have "hive_record_ok hive_id d'" "dget d' ''beat_at'' = Some (JInt b)" by (simp_all add: obj_of_def)
  then have "dget (hive_settle hive_id d') ''beat_at'' = Some (JInt b)" by (simp add: settle_get jordered_wf hive_record_ok_def)
  then show ?thesis using assms(4) by (simp add: hive_live_def Let_def jor_def num_of_def)
qed

section \<open>A hive and its settings\<close>

lemma hw_parsed: "hive_parse [''prefer=eng:1'', ''draining=yes''] [] = Inr [(''draining'', JStr ''yes''), (''prefer'', JObj [(''eng'', JInt 1)])]"
  by (simp add: partition_at_def hive_settings_def setting_prefer_def setting_flag_def setting_count_def is_digit_def digits_value_def digit_value_def)

lemma hw_update:
  "\<exists>d. update_write ''h'' [(''draining'', JStr ''yes''), (''prefer'', JObj [(''eng'', JInt 1)])] False
      \<lparr>dn_owner = ''o'', dn_reason = ''r'', dn_deadline_at = 0\<rparr> 7 JNull = Inr (Some (JObj d)) \<and> jget d ''prefer'' = JObj [(''eng'', JInt 1)] \<and>
    length (json_items (jget d ''drains'')) = 1"
  by (simp add: update_write_def hive_check_def hive_settle_def hive_default_def hive_seeded_def kept_fields_def kept_back_def hive_drained_def
      jmerge_def jor_def jget_def obj_of_def json_items_def Let_def dhas_def)

lemma hive_records_in_order_witness:
  "\<exists>d. hive_change ''h'' JNull (JObj d) \<and> jget d ''prefer'' = JObj [(''eng'', JInt 1)] \<and>
    prefers_hosted (hive_settle ''h'' d) \<and> length (json_items (jget d ''drains'')) = 1"
proof -
  obtain d where d: "update_write ''h'' [(''draining'', JStr ''yes''), (''prefer'', JObj [(''eng'', JInt 1)])] False
      \<lparr>dn_owner = ''o'', dn_reason = ''r'', dn_deadline_at = 0\<rparr> 7 JNull = Inr (Some (JObj d))" "jget d ''prefer'' = JObj [(''eng'', JInt 1)]"
    "length (json_items (jget d ''drains'')) = 1" using hw_update by blast
  have step: "hive_change ''h'' JNull (JObj d)" by (intro hc_busy hb_update[OF hw_parsed d(1)])
  from hive_records_in_order[OF r_into_rtranclp[of "hive_change ''h''", OF step]] show ?thesis using step d(2,3) by blast
qed

lemma unfinished_beat_ages_out_witness:
  "touch_write 400000 (JObj [(''beat_at'', JInt 5), (''heartbeat_at'', JInt 5)]) = Inr (Some (JObj [(''beat_at'', JInt 5), (''heartbeat_at'', JInt 400000)])) \<and>
   \<not> hive_live (hive_settle ''h'' [(''beat_at'', JInt 5), (''heartbeat_at'', JInt 400000)]) 400000"
proof -
  have run: "touch_write 400000 (JObj [(''beat_at'', JInt 5), (''heartbeat_at'', JInt 5)]) =
      Inr (Some (JObj [(''beat_at'', JInt 5), (''heartbeat_at'', JInt 400000)]))"
    by (simp add: touch_write_def obj_of_def dhas_def jmerge_def Let_def)
  have "hive_value_ok ''h'' (JObj [(''beat_at'', JInt 5), (''heartbeat_at'', JInt 5)])"
    by (simp add: hive_record_ok_def jordered_def prefers_hosted_def hive_settle_def hive_default_def jmerge_def jor_def jget_def obj_of_def
        json_items_def Let_def)
  from unfinished_beat_ages_out[OF this _ r_into_rtranclp[of "hive_busy ''h''", OF hb_touch[OF run]], of 5 400000] run
  show ?thesis by simp
qed

end
