(* ===== verification/Hive_Placement.thy ===== *)
theory Hive_Placement
  imports Routing Text_Tools
begin

text \<open>
  Where an agent is launched (\<open>scripts/hive/placement.py\<close>): the hive for a role, harness, account and
  repository, or the reason why it waits, with the fallback and the spill it is recorded under. A hive is
  its record as placement reads it, with the fields other modules add before (agents, room, refusal). The
  remote of a checkout (\<open>origin\<close>) is a parameter. Floats are rationals; \<open>inf\<close> is the larger half of a sum.
\<close>

section \<open>Hives\<close>

record hive_slot =
  ho_harness :: string
  ho_account :: string
  ho_kind :: string

text \<open>
  \<open>hi_spread\<close> is the entry \<open>spread\<close> of a record that has one, \<open>hi_first\<close> the entries \<open>first_room\<close> and
  \<open>first_refusal\<close>, which are set together.
\<close>

record hive_view =
  hi_id :: string
  hi_draining :: string
  hi_excluded :: "string list"
  hi_prefer :: "(string, int) dict"
  hi_master_swarms :: "string list"
  hi_agents :: int
  hi_placed :: int
  hi_max_agents :: int
  hi_ui :: string
  hi_ephemeral :: string
  hi_slots :: "hive_slot list"
  hi_interactive :: "(string, string) dict"
  hi_master_login :: "(string, string) dict"
  hi_master_login_enabled :: string
  hi_repos :: "string list"
  hi_capabilities :: "string list"
  hi_heartbeat_at :: int
  hi_beat_at :: "int option"
  hi_room :: int
  hi_refusal :: "string option"
  hi_first :: "(int \<times> string option) option"
  hi_spread :: "int option"

definition view_live :: "hive_view \<Rightarrow> int \<Rightarrow> bool" where
  "view_live hive now \<longleftrightarrow>
    (let finished_at = (case hi_beat_at hive of None \<Rightarrow> hi_heartbeat_at hive | Some b \<Rightarrow> b)
     in hi_heartbeat_at hive > 0 \<and> now - hi_heartbeat_at hive \<le> 90000 \<and> now - finished_at \<le> 300000)"

type_synonym spill = "string \<times> string"

text \<open>\<open>Chosen hive fallback spill\<close> is a \<open>Choice\<close>, \<open>Waits reason\<close> a \<open>Wait\<close>.\<close>

datatype hive_choice = Chosen string string "spill option" | Waits string

definition master_role :: string where
  "master_role = ''master''"

definition ui_roles :: "string list" where
  "ui_roles = [''master'', ''qa'', ''frontend'']"

definition hosts :: "string \<Rightarrow> hive_view \<Rightarrow> string list \<Rightarrow> bool" where
  "hosts role hive aliases \<longleftrightarrow> hi_draining hive \<noteq> ''yes'' \<and> set (role # aliases) \<inter> set (hi_excluded hive) = {}"

text \<open>\<open>Path(repo).name\<close> without a suffix \<open>.git\<close>.\<close>

definition path_name :: "string \<Rightarrow> string" where
  "path_name repo = (case rev (filter (\<lambda>part. part \<noteq> '''' \<and> part \<noteq> ''.'') (split_on CHR ''/'' repo)) of [] \<Rightarrow> '''' | part # _ \<Rightarrow> part)"

definition is_absolute :: "string \<Rightarrow> bool" where
  "is_absolute repo \<longleftrightarrow> starts_with ''/'' repo"

definition repository :: "(string \<Rightarrow> string) \<Rightarrow> hive_view \<Rightarrow> string \<Rightarrow> string" where
  "repository origin hive repo =
    (if repo \<in> set (hi_repos hive) then repo
     else
       let name = remove_suffix ''.git'' (path_name repo);
           identity = (if origin repo \<noteq> '''' then origin repo else if \<not> is_absolute repo \<and> CHR ''/'' \<in> set repo then repo else '''');
           remotes = filter (\<lambda>path. \<not> is_absolute path \<and> CHR ''/'' \<in> set path \<and> remove_suffix ''.git'' (path_name path) = name) (hi_repos hive)
       in if identity \<noteq> '''' \<and> remotes \<noteq> [] then (if identity \<in> set remotes then identity else '''')
          else (case find (\<lambda>path. is_absolute path \<and> path_name path = name) (hi_repos hive) of None \<Rightarrow> '''' | Some path \<Rightarrow> path))"

definition equipped :: "string list \<Rightarrow> hive_view option \<Rightarrow> bool" where
  "equipped needs hive \<longleftrightarrow> set needs \<subseteq> (case hive of None \<Rightarrow> {} | Some h \<Rightarrow> set (hi_capabilities h))"

definition needs_refusal :: "string list \<Rightarrow> hive_view list \<Rightarrow> string" where
  "needs_refusal needs hives =
    (let missing = filter (\<lambda>name. \<not> list_ex (\<lambda>hive. name \<in> set (hi_capabilities hive)) hives) needs
     in if missing \<noteq> [] then ''the task needs a hive with '' @ join_with '', '' missing @ '', and no hive declares it''
        else ''the task needs a hive with '' @ join_with '', '' needs @ '', and no single hive declares all of them'')"

definition for_swarm :: "hive_view list \<Rightarrow> string \<Rightarrow> hive_view list" where
  "for_swarm hives slug = map (\<lambda>hive.
     if slug \<in> set (hi_master_swarms hive) then hive\<lparr>hi_excluded := filter (\<lambda>role. role \<noteq> master_role) (hi_excluded hive)\<rparr> else hive) hives"

text \<open>\<open>chosen[: nodes or None]\<close>\<close>

definition first_nodes :: "int \<Rightarrow> 'a list \<Rightarrow> 'a list" where
  "first_nodes nodes xs = (if nodes = 0 then xs else if nodes > 0 then take (nat nodes) xs else take (length xs - nat (- nodes)) xs)"

definition round_robin :: "(string \<Rightarrow> string) \<Rightarrow> hive_view list \<Rightarrow> int \<Rightarrow> string \<Rightarrow> int \<Rightarrow> hive_view list" where
  "round_robin origin hives nodes repo now =
    map (\<lambda>hive. hive\<lparr>hi_spread := Some (hi_agents hive + hi_placed hive)\<rparr>)
      (first_nodes nodes (sort_key hi_id (filter (\<lambda>hive. view_live hive now \<and> repository origin hive repo \<noteq> '''') hives)))"

section \<open>Room and refusals\<close>

definition first_place :: "string \<Rightarrow> hive_view \<Rightarrow> (int \<times> string option) option" where
  "first_place role hive = (if hi_spread hive = None \<and> dhas (hi_prefer hive) role then hi_first hive else None)"

definition hive_room :: "hive_view \<Rightarrow> string \<Rightarrow> int" where
  "hive_room hive role = (case first_place role hive of None \<Rightarrow> hi_room hive | Some (room, _) \<Rightarrow> room)"

definition hive_refusal :: "hive_view \<Rightarrow> string \<Rightarrow> string" where
  "hive_refusal hive role =
    (case (case first_place role hive of None \<Rightarrow> hi_refusal hive | Some (_, said) \<Rightarrow> said) of None \<Rightarrow> '''' | Some text \<Rightarrow> text)"

definition refused_all :: "string \<Rightarrow> hive_view list \<Rightarrow> string \<Rightarrow> string" where
  "refused_all reason hives role =
    (let held = join_with ''; '' (map (\<lambda>hive. hi_id hive @ '' '' @ hive_refusal hive role) (filter (\<lambda>hive. hive_refusal hive role \<noteq> '''') hives))
     in if held \<noteq> '''' then reason @ '': '' @ held else reason)"

definition holds_login :: "(string, string) dict \<Rightarrow> string \<Rightarrow> string \<Rightarrow> bool" where
  "holds_login logins harness key \<longleftrightarrow> (case dget logins harness of None \<Rightarrow> False | Some found \<Rightarrow> canonical_account found = key)"

definition place_checks ::
  "(string \<Rightarrow> string) \<Rightarrow> string \<Rightarrow> string \<Rightarrow> string \<Rightarrow> string \<Rightarrow> string \<Rightarrow> string \<Rightarrow> ((hive_view \<Rightarrow> bool) \<times> string) list" where
  "place_checks origin role harness slot route_kind repo kind =
    (let key = canonical_account slot; head = ''no '' @ kind @ '' for '' @ role
     in [(\<lambda>hive. role = master_role \<or> hive_room hive role > 0, head @ '' has room''),
         (\<lambda>hive. list_ex (\<lambda>item. ho_harness item = harness \<and> canonical_account (ho_account item) = key) (hi_slots hive),
          head @ '' advertises the '' @ harness @ '' slot '' @ slot),
         (\<lambda>hive. repository origin hive repo \<noteq> '''', head @ '' lists the repo '' @ repo),
         (\<lambda>hive. route_kind \<noteq> ''interactive'' \<or> holds_login (hi_interactive hive) harness key,
          head @ '' holds the '' @ harness @ '' login for '' @ slot),
         (\<lambda>hive. route_kind \<noteq> ''master-login'' \<or> holds_login (hi_master_login hive) harness key,
          head @ '' holds the '' @ harness @ '' master login for '' @ slot)])"

text \<open>\<open>math.inf\<close> comes after every rank.\<close>

type_synonym hive_rank = "bool \<times> int \<times> rat \<times> bool \<times> string"

definition hive_order :: "string \<Rightarrow> hive_view \<Rightarrow> hive_rank" where
  "hive_order role hive =
    (let (unranked, rank) = (case hi_spread hive of Some n \<Rightarrow> (False, n) | None \<Rightarrow>
           (case dget (hi_prefer hive) role of Some n \<Rightarrow> (False, n) | None \<Rightarrow> (True, 0)))
     in (unranked, rank, of_int (hi_agents hive) / of_int (max (hi_max_agents hive) 1), hi_ephemeral hive = ''yes'', hi_id hive))"

definition best_hive :: "string \<Rightarrow> hive_view list \<Rightarrow> hive_view" where
  "best_hive role hives = arg_min_list (hive_order role) hives"

definition preferred_hive :: "string \<Rightarrow> hive_view list \<Rightarrow> hive_view option" where
  "preferred_hive role hives =
    (let ranked = filter (\<lambda>hive. hi_spread hive = None \<and> dhas (hi_prefer hive) role) hives
     in if ranked = [] then None else Some (best_hive role ranked))"

section \<open>Choosing\<close>

text \<open>
  The loop of \<open>_pick\<close>: \<open>index\<close> counts the checks, \<open>spilled\<close> is the preferred hive's first failure.
\<close>

fun pick_checks ::
  "string \<Rightarrow> hive_view option \<Rightarrow> nat \<Rightarrow> ((hive_view \<Rightarrow> bool) \<times> string) list \<Rightarrow> spill option \<Rightarrow> hive_view list \<Rightarrow> hive_choice" where
  "pick_checks role preferred index [] spilled candidates = Chosen (hi_id (best_hive role candidates)) '''' spilled"
| "pick_checks role preferred index ((check, reason) # checks) spilled candidates =
    (let kept = filter check candidates
     in if kept = [] then Waits (if index = 0 then refused_all reason candidates role else reason)
        else
          let spilled1 = (case (preferred, spilled) of
                (Some p, None) \<Rightarrow>
                  if check p then None
                  else Some (hi_id p, if index = 0 \<and> hive_refusal p role \<noteq> '''' then hive_refusal p role else reason)
              | _ \<Rightarrow> spilled)
          in pick_checks role preferred (index + 1) checks spilled1 kept)"

definition pick_hive ::
  "(string \<Rightarrow> string) \<Rightarrow> string \<Rightarrow> string \<Rightarrow> string \<Rightarrow> string \<Rightarrow> string \<Rightarrow> hive_view list \<Rightarrow> string \<Rightarrow> hive_choice" where
  "pick_hive origin role harness slot route_kind repo candidates kind =
    pick_checks role (preferred_hive role candidates) 0 (place_checks origin role harness slot route_kind repo kind) None candidates"

definition unhosted :: "string \<Rightarrow> hive_view list \<Rightarrow> int \<Rightarrow> string list \<Rightarrow> spill option" where
  "unhosted role hives now aliases =
    (case preferred_hive role hives of
      None \<Rightarrow> None
    | Some p \<Rightarrow>
        if \<not> view_live p now then Some (hi_id p, ''its heartbeat is older than 90 seconds'')
        else if hi_draining p = ''yes'' then Some (hi_id p, ''it is draining'')
        else if \<not> hosts role p aliases then Some (hi_id p, ''it excludes '' @ role)
        else None)"

definition choose_within ::
  "(string \<Rightarrow> string) \<Rightarrow> string \<Rightarrow> string \<Rightarrow> string \<Rightarrow> string \<Rightarrow> string \<Rightarrow> hive_view list \<Rightarrow> int \<Rightarrow> hive_choice" where
  "choose_within origin role harness slot route_kind repo hives now =
    (let candidates = filter (\<lambda>hive. view_live hive now \<and> hosts role hive []) hives;
         pick = pick_hive origin role harness slot route_kind repo
     in if candidates = [] then Waits (''no live hive takes '' @ role)
        else if role \<notin> set ui_roles then pick candidates ''hive''
        else
          let front = filter (\<lambda>hive. hi_ui hive = ''yes'') candidates; rest = filter (\<lambda>hive. hi_ui hive \<noteq> ''yes'') candidates
          in if rest = [] then pick front ''hive''
             else
               case (if front \<noteq> [] then pick front ''swarm-master'' else Waits (''no live swarm-master takes '' @ role)) of
                 Chosen h fallback spilled \<Rightarrow> Chosen h fallback spilled
               | Waits reason \<Rightarrow>
                   if role \<noteq> master_role then Waits reason
                   else (case pick rest ''hive'' of Chosen h _ _ \<Rightarrow> Chosen h reason None | Waits _ \<Rightarrow> Waits reason))"

definition choose_hive ::
  "(string \<Rightarrow> string) \<Rightarrow> string \<Rightarrow> string \<Rightarrow> string \<Rightarrow> string \<Rightarrow> string \<Rightarrow> hive_view list \<Rightarrow> int \<Rightarrow> hive_choice" where
  "choose_hive origin role harness slot route_kind repo hives now =
    (case choose_within origin role harness slot route_kind repo hives now of
      Chosen h fallback None \<Rightarrow> Chosen h fallback (unhosted role hives now [])
    | picked \<Rightarrow> picked)"

definition place_hive ::
  "(string \<Rightarrow> string) \<Rightarrow> string \<Rightarrow> string \<Rightarrow> string \<Rightarrow> string \<Rightarrow> string \<Rightarrow> hive_view list \<Rightarrow> int \<Rightarrow> string + string" where
  "place_hive origin role harness slot route_kind repo hives now =
    (case choose_hive origin role harness slot route_kind repo hives now of Chosen h _ _ \<Rightarrow> Inr h | Waits reason \<Rightarrow> Inl reason)"

definition local_full :: "string \<Rightarrow> int \<Rightarrow> int \<Rightarrow> int \<Rightarrow> hive_choice" where
  "local_full waited local_agents local_max reserved =
    Waits (waited @ '', and the local machine runs '' @ show_int local_agents @ '' of its '' @ show_int local_max @ '' agents'' @
      (if reserved \<noteq> 0 then '' with '' @ show_int reserved @ '' kept for waiting workstation tasks'' else ''''))"

definition overflow_local :: "string \<Rightarrow> string \<Rightarrow> int \<Rightarrow> int \<Rightarrow> int \<Rightarrow> hive_choice" where
  "overflow_local role waited local_agents local_max reserved =
    (if role \<in> set ui_roles then Waits waited
     else if local_agents + reserved \<ge> local_max then local_full waited local_agents local_max reserved
     else Chosen ''local machine'' waited None)"

section \<open>Masters\<close>

record master_placement =
  mp_hive :: string
  mp_account :: string
  mp_route_kind :: string
  mp_headless :: bool

definition private_master :: "hive_view \<Rightarrow> string \<Rightarrow> bool \<Rightarrow> bool" where
  "private_master hive harness front \<longleftrightarrow> front \<and>
    ((case dget (hi_master_login hive) harness of None \<Rightarrow> False | Some account \<Rightarrow> account \<noteq> '''') \<or>
     (harness = ''claude'' \<and> hi_master_login_enabled hive = ''yes''))"

type_synonym master_candidate = "(bool \<times> bool \<times> hive_rank \<times> string) \<times> master_placement"

text \<open>The candidates one hive gives: a forced login of its own, else its interactive login and its slots.\<close>

definition master_candidates :: "string \<Rightarrow> string \<Rightarrow> bool \<Rightarrow> hive_view \<Rightarrow> master_candidate list" where
  "master_candidates harness login front hive =
    (let headless = (hi_ui hive \<noteq> ''yes'');
         account = (case dget (hi_master_login hive) harness of None \<Rightarrow> '''' | Some a \<Rightarrow> a);
         order = hive_order master_role hive;
         seat = (\<lambda>late account kind. ((headless, late, order, account),
           \<lparr>mp_hive = hi_id hive, mp_account = account, mp_route_kind = kind, mp_headless = False\<rparr>))
     in if private_master hive harness front
        then (if login = '''' \<or> login = account then [seat (account = '''') account ''master-login''] else [])
        else
          (case dget (hi_interactive hive) harness of
             None \<Rightarrow> []
           | Some native \<Rightarrow> if native \<noteq> '''' \<and> (login = '''' \<or> login = native) then [seat False native ''interactive''] else []) @
          map (\<lambda>slot. seat True (ho_account slot) (ho_kind slot))
            (filter (\<lambda>slot. ho_harness slot = harness \<and> ho_kind slot \<in> {''subscription'', ''api''}) (hi_slots hive)))"

definition place_master ::
  "(string \<Rightarrow> string) \<Rightarrow> string \<Rightarrow> string \<Rightarrow> string \<Rightarrow> hive_view list \<Rightarrow> int \<Rightarrow> bool \<Rightarrow> string + master_placement" where
  "place_master origin harness login repo hives now front =
    (let hosting = filter (\<lambda>hive. view_live hive now \<and> hosts master_role hive []) hives;
         listing = filter (\<lambda>hive. repository origin hive repo \<noteq> '''') hosting;
         candidates = concat (map (master_candidates harness login front) listing)
     in if hosting = [] then Inl ''no live hive takes master''
        else if listing = [] then Inl (''no hive for master lists the repo '' @ repo)
        else if candidates = [] \<and> login \<noteq> '''' then Inl (''no hive for master holds the '' @ harness @ '' login for '' @ login)
        else if candidates = [] then Inl (''no hive for master advertises a '' @ harness @ '' slot'')
        else Inr (snd (arg_min_list fst candidates)))"

section \<open>What placement promises\<close>

text \<open>The reference: a hive suits when it passes every check by itself.\<close>

definition suits :: "(string \<Rightarrow> string) \<Rightarrow> string \<Rightarrow> string \<Rightarrow> string \<Rightarrow> string \<Rightarrow> string \<Rightarrow> int \<Rightarrow> hive_view \<Rightarrow> bool" where
  "suits origin role harness slot route_kind repo now hive \<longleftrightarrow>
    view_live hive now \<and> hosts role hive [] \<and> (role = master_role \<or> hive_room hive role > 0) \<and>
    (\<exists>item \<in> set (hi_slots hive). ho_harness item = harness \<and> canonical_account (ho_account item) = canonical_account slot) \<and>
    repository origin hive repo \<noteq> '''' \<and>
    (route_kind = ''interactive'' \<longrightarrow> holds_login (hi_interactive hive) harness (canonical_account slot)) \<and>
    (route_kind = ''master-login'' \<longrightarrow> holds_login (hi_master_login hive) harness (canonical_account slot))"

lemma pick_checks_spec:
  "candidates \<noteq> [] \<Longrightarrow>
   (case filter (\<lambda>hive. \<forall>(check, reason) \<in> set checks. check hive) candidates of
      [] \<Rightarrow> \<exists>reason. pick_checks role preferred index checks spilled candidates = Waits reason
    | suited \<Rightarrow> \<exists>sp. pick_checks role preferred index checks spilled candidates = Chosen (hi_id (best_hive role suited)) '''' sp)"
proof (induction checks arbitrary: index spilled candidates)
  case Nil
  then show ?case by (cases candidates) (auto simp: case_prod_unfold)
next
  case (Cons c checks)
  obtain check reason where c: "c = (check, reason)" by fastforce
  let ?kept = "filter check candidates"
  have flt: "filter (\<lambda>hive. \<forall>(check, reason) \<in> set (c # checks). check hive) candidates =
      filter (\<lambda>hive. \<forall>(check, reason) \<in> set checks. check hive) ?kept"
    by (simp add: c conj_commute)
  show ?case
  proof (cases "?kept = []")
    case True
    then show ?thesis unfolding flt by (simp add: c Let_def)
  next
    case False
    obtain sp1 where "pick_checks role preferred index (c # checks) spilled candidates = pick_checks role preferred (index + 1) checks sp1 ?kept"
      using False by (simp add: c Let_def)
    then show ?thesis unfolding flt using Cons.IH[OF False, of "index + 1" sp1] by (simp only:)
  qed
qed


lemma pick_hive_spec:
  assumes "candidates = filter (\<lambda>hive. view_live hive now \<and> hosts role hive [] \<and> P hive) hives" and "candidates \<noteq> []"
  shows "case filter (\<lambda>hive. suits origin role harness slot route_kind repo now hive \<and> P hive) hives of
      [] \<Rightarrow> \<exists>reason. pick_hive origin role harness slot route_kind repo candidates kind = Waits reason
    | suited \<Rightarrow> \<exists>sp. pick_hive origin role harness slot route_kind repo candidates kind = Chosen (hi_id (best_hive role suited)) '''' sp"
proof -
  have "filter (\<lambda>hive. \<forall>(check, reason) \<in> set (place_checks origin role harness slot route_kind repo kind). check hive) candidates =
      filter (\<lambda>hive. suits origin role harness slot route_kind repo now hive \<and> P hive) hives"
    unfolding assms(1) by (auto simp: place_checks_def suits_def Let_def list_ex_iff intro!: filter_cong)
  then show ?thesis
    using pick_checks_spec[OF assms(2), of role "preferred_hive role candidates" 0 "place_checks origin role harness slot route_kind repo kind" None]
    by (simp only: pick_hive_def)
qed

lemma placed_best:
  assumes "role \<notin> set ui_roles"
  shows "case filter (suits origin role harness slot route_kind repo now) hives of
      [] \<Rightarrow> \<exists>reason. place_hive origin role harness slot route_kind repo hives now = Inl reason
    | suited \<Rightarrow> place_hive origin role harness slot route_kind repo hives now = Inr (hi_id (best_hive role suited))"
proof (cases "filter (\<lambda>hive. view_live hive now \<and> hosts role hive []) hives = []")
  case True
  then have "filter (suits origin role harness slot route_kind repo now) hives = []" by (auto simp: filter_empty_conv suits_def)
  then show ?thesis using True by (simp add: place_hive_def choose_hive_def choose_within_def Let_def)
next
  case False
  then have pick: "choose_within origin role harness slot route_kind repo hives now =
      pick_hive origin role harness slot route_kind repo (filter (\<lambda>hive. view_live hive now \<and> hosts role hive []) hives) ''hive''"
    using assms by (simp add: choose_within_def Let_def)
  show ?thesis
    using pick_hive_spec[of "filter (\<lambda>hive. view_live hive now \<and> hosts role hive []) hives" now role "\<lambda>_. True" hives origin harness slot
        route_kind repo "''hive''"] False
    by (auto simp: place_hive_def choose_hive_def pick split: list.splits option.splits)
qed

text \<open>
  C27: Placement is the reference: an agent that needs no interface gets the best hive, in the documented
  order, among those that pass every check by themselves, and waits exactly when there is none.
\<close>

theorem placement_is_best:
  assumes "role \<notin> set ui_roles"
  shows "case filter (suits origin role harness slot route_kind repo now) hives of
      [] \<Rightarrow> \<exists>reason. place_hive origin role harness slot route_kind repo hives now = Inl reason
    | suited \<Rightarrow> place_hive origin role harness slot route_kind repo hives now = Inr (hi_id (best_hive role suited))"
  using placed_best[OF assms] .

text \<open>
  A hive that is chosen suits, whatever the role, and an agent that tests or builds the interface is only
  ever placed on the hive that has it.
\<close>

theorem chosen_hive_suits:
  assumes "place_hive origin role harness slot route_kind repo hives now = Inr h"
  shows "\<exists>hive \<in> set hives. hi_id hive = h \<and> suits origin role harness slot route_kind repo now hive \<and>
    (role \<in> {''qa'', ''frontend''} \<longrightarrow> hi_ui hive = ''yes'')"
proof (cases "role \<in> set ui_roles")
  case False
  have "\<exists>hive \<in> set hives. hi_id hive = h \<and> suits origin role harness slot route_kind repo now hive"
  proof (cases "filter (suits origin role harness slot route_kind repo now) hives")
    case Nil
    then show ?thesis using placed_best[OF False, of origin harness slot route_kind repo hives now] assms by simp
  next
    case (Cons x xs)
    then have "h = hi_id (best_hive role (x # xs))" using placed_best[OF False, of origin harness slot route_kind repo hives now] assms by simp
    moreover have "best_hive role (x # xs) \<in> set (x # xs)" unfolding best_hive_def by (intro arg_min_list_in) simp
    moreover have "y \<in> set hives \<and> suits origin role harness slot route_kind repo now y" if "y \<in> set (x # xs)" for y
      using that unfolding Cons[symmetric] by simp
    ultimately show ?thesis by blast
  qed
  then show ?thesis using False by (auto simp: ui_roles_def)
next
  case True
  let ?cand = "filter (\<lambda>hive. view_live hive now \<and> hosts role hive []) hives"
  let ?front = "filter (\<lambda>hive. hi_ui hive = ''yes'') ?cand" and ?rest = "filter (\<lambda>hive. hi_ui hive \<noteq> ''yes'') ?cand"
  have pick: "\<exists>hive \<in> set hives. hi_id hive = g \<and> suits origin role harness slot route_kind repo now hive \<and> P hive"
    if "pick_hive origin role harness slot route_kind repo cand kind = Chosen g fb sp" "cand = filter P ?cand" "cand \<noteq> []" for cand kind g fb sp P
  proof -
    have c: "cand = filter (\<lambda>hive. view_live hive now \<and> hosts role hive [] \<and> P hive) hives"
      unfolding that(2) by (simp add: conj_assoc)
    show ?thesis
    proof (cases "filter (\<lambda>hive. suits origin role harness slot route_kind repo now hive \<and> P hive) hives")
      case Nil
      then show ?thesis using pick_hive_spec[OF c that(3), of origin harness slot route_kind repo kind] that(1) by simp
    next
      case (Cons x xs)
      then have "g = hi_id (best_hive role (x # xs))" using pick_hive_spec[OF c that(3), of origin harness slot route_kind repo kind] that(1) by simp
      moreover have "best_hive role (x # xs) \<in> set (x # xs)" unfolding best_hive_def by (intro arg_min_list_in) simp
      moreover have "y \<in> set hives \<and> suits origin role harness slot route_kind repo now y \<and> P y" if "y \<in> set (x # xs)" for y
        using that unfolding Cons[symmetric] by simp
      ultimately show ?thesis by blast
    qed
  qed
  obtain fb sp where within: "choose_within origin role harness slot route_kind repo hives now = Chosen h fb sp"
    using assms by (auto simp: place_hive_def choose_hive_def split: hive_choice.splits option.splits)
  then have ne: "?cand \<noteq> []" by (auto simp: choose_within_def Let_def)
  show ?thesis
  proof (cases "\<exists>fb' sp' kind. pick_hive origin role harness slot route_kind repo ?front kind = Chosen h fb' sp' \<and> ?front \<noteq> []")
    case True
    then show ?thesis using pick[of ?front _ h _ _ "\<lambda>hive. hi_ui hive = ''yes''"] by blast
  next
    case False
    then have "role = master_role" "?rest \<noteq> []" "\<exists>fb' sp'. pick_hive origin role harness slot route_kind repo ?rest ''hive'' = Chosen h fb' sp'"
      using within \<open>role \<in> set ui_roles\<close> ne
      by (auto simp: choose_within_def Let_def filter_empty_conv split: if_splits hive_choice.splits)
    moreover from this have "\<exists>hive \<in> set hives. hi_id hive = h \<and> suits origin role harness slot route_kind repo now hive"
      using pick[of ?rest _ h _ _ "\<lambda>hive. hi_ui hive \<noteq> ''yes''"] by blast
    ultimately show ?thesis by (simp add: master_role_def)
  qed
qed


text \<open>
  A master is placed on a live hive that hosts masters and lists the repository, and on one without the
  interface only when no such hive with the interface has a login or a slot for it.
\<close>

theorem master_on_interface_first:
  assumes "place_master origin harness login repo hives now front = Inr mp"
  shows "\<exists>hive \<in> set hives. hi_id hive = mp_hive mp \<and> view_live hive now \<and> hosts master_role hive [] \<and> repository origin hive repo \<noteq> '''' \<and>
    (hi_ui hive \<noteq> ''yes'' \<longrightarrow> (\<forall>other \<in> set hives. hi_ui other = ''yes'' \<and> view_live other now \<and> hosts master_role other [] \<and>
       repository origin other repo \<noteq> '''' \<longrightarrow> master_candidates harness login front other = []))"
proof -
  define listing where "listing = filter (\<lambda>hive. repository origin hive repo \<noteq> '''') (filter (\<lambda>hive. view_live hive now \<and> hosts master_role hive []) hives)"
  define candidates where "candidates = concat (map (master_candidates harness login front) listing)"
  define best where "best = arg_min_list fst candidates"
  have ne: "candidates \<noteq> []" and mp: "mp = snd best"
    using assms unfolding place_master_def Let_def listing_def[symmetric] candidates_def[symmetric] best_def[symmetric]
    by (auto split: if_splits)
  have head: "fst (fst c) = (hi_ui hive \<noteq> ''yes'') \<and> mp_hive (snd c) = hi_id hive" if "c \<in> set (master_candidates harness login front hive)" for c hive
    using that by (auto simp: master_candidates_def Let_def split: if_splits option.splits)
  have "best \<in> set candidates" unfolding best_def by (rule arg_min_list_in[OF ne])
  then obtain hive where hive: "hive \<in> set listing" "best \<in> set (master_candidates harness login front hive)"
    by (auto simp: candidates_def)
  have "master_candidates harness login front other = []" if "hi_ui hive \<noteq> ''yes''" "other \<in> set listing" "hi_ui other = ''yes''" for other
  proof (rule ccontr)
    assume "master_candidates harness login front other \<noteq> []"
    then obtain c where c: "c \<in> set (master_candidates harness login front other)" using hd_in_set by blast
    then have "c \<in> set candidates" using that(2) by (auto simp: candidates_def)
    then have "fst best \<le> fst c" unfolding best_def using f_arg_min_list_f[OF ne, of fst] by simp
    then have "fst (fst best) \<le> fst (fst c)" by (cases "fst best"; cases "fst c") auto
    then show False using head[OF hive(2)] head[OF c] that(1,3) by simp
  qed
  then show ?thesis using hive head[OF hive(2)] mp by (intro bexI[of _ hive]) (auto simp: listing_def)
qed

section \<open>Two hives\<close>

text \<open>The hive \<open>a\<close> has the interface and hosts masters, the hive \<open>b\<close> is headless and less busy.\<close>

definition pw_hive :: "string \<Rightarrow> string \<Rightarrow> int \<Rightarrow> string list \<Rightarrow> hive_view" where
  "pw_hive name ui agents excluded = \<lparr>hi_id = name, hi_draining = ''no'', hi_excluded = excluded, hi_prefer = [], hi_master_swarms = [],
     hi_agents = agents, hi_placed = 0, hi_max_agents = 4, hi_ui = ui, hi_ephemeral = ''no'',
     hi_slots = [\<lparr>ho_harness = ''claude'', ho_account = ''x_1'', ho_kind = ''api''\<rparr>], hi_interactive = [], hi_master_login = [],
     hi_master_login_enabled = ''no'', hi_repos = [''o/r''], hi_capabilities = [], hi_heartbeat_at = 5, hi_beat_at = None, hi_room = 2,
     hi_refusal = None, hi_first = None, hi_spread = None\<rparr>"

definition pw_hives :: "hive_view list" where
  "pw_hives = [pw_hive ''a'' ''yes'' 3 [], pw_hive ''b'' ''no'' 1 [''master'']]"

lemmas pw_eval = suits_def view_live_def hosts_def hive_room_def first_place_def repository_def pw_hive_def pw_hives_def canonical_account_def
  master_role_def

lemma placement_is_best_witness:
  "place_hive (\<lambda>_. '''') ''eng'' ''claude'' ''x-1'' ''api'' ''o/r'' pw_hives 9 = Inr ''b''"
proof -
  have both: "filter (suits (\<lambda>_. '''') ''eng'' ''claude'' ''x-1'' ''api'' ''o/r'' 9) pw_hives = pw_hives"
    by (simp add: pw_eval)
  have "hi_id (best_hive ''eng'' pw_hives) = ''b''"
    by (simp add: best_hive_def pw_hives_def pw_hive_def hive_order_def Let_def)
  moreover have "''eng'' \<notin> set ui_roles" by (simp add: ui_roles_def)
  ultimately show ?thesis
    using placement_is_best[of "''eng''" "\<lambda>_. ''''" "''claude''" "''x-1''" "''api''" "''o/r''" pw_hives 9]
    unfolding both by (simp add: pw_hives_def)
qed

lemma chosen_hive_suits_witness:
  "place_hive (\<lambda>_. '''') ''qa'' ''claude'' ''x-1'' ''api'' ''o/r'' pw_hives 9 = Inr ''a'' \<and> hi_ui (pw_hive ''a'' ''yes'' 3 []) = ''yes''"
proof -
  have run: "place_hive (\<lambda>_. '''') ''qa'' ''claude'' ''x-1'' ''api'' ''o/r'' pw_hives 9 = Inr ''a''"
    by (simp add: place_hive_def choose_hive_def choose_within_def pick_hive_def place_checks_def ui_roles_def preferred_hive_def
        best_hive_def unhosted_def dhas_def pw_eval Let_def)
  show ?thesis using chosen_hive_suits[OF run] run by (simp add: pw_hives_def pw_hive_def)
qed

lemma master_on_interface_first_witness:
  "\<exists>mp. place_master (\<lambda>_. '''') ''claude'' '''' ''o/r'' pw_hives 9 False = Inr mp \<and> mp_hive mp = ''a'' \<and> (\<exists>hive \<in> set pw_hives. hi_id hive = mp_hive mp)"
proof -
  obtain mp where run: "place_master (\<lambda>_. '''') ''claude'' '''' ''o/r'' pw_hives 9 False = Inr mp" "mp_hive mp = ''a''"
    by (simp add: place_master_def master_candidates_def private_master_def pw_eval Let_def)
  from master_on_interface_first[OF run(1)] show ?thesis using run by blast
qed

end
