(* ===== verification/Merge_Queue.thy ===== *)
theory Merge_Queue
  imports Text_Tools Naming
begin

text \<open>
  The merge queue of the provider as the swarm works it (\<open>scripts/swarm/merge_queue.py\<close>): queueing and
  dequeueing one pull request, and moving one to the front by taking out the others and putting them
  back, with a record of the displaced ones that outlives an interruption (\<open>Displaced\<close> and \<open>requeue\<close> of
  \<open>scripts/swarm/queue_priority.py\<close>). The provider is a parameter: a state with one function per call,
  each of which may answer anything or fail, with or without having had its effect. The calls made and
  what they answered are kept in order. The journal file is not modelled.
\<close>

section \<open>The provider and the world\<close>

text \<open>A pull request as \<open>STATE\<close> reads it; \<open>ps_entry\<close> is the state of its entry in the merge queue.\<close>

record pull_state =
  ps_id :: string
  ps_state :: string
  ps_head :: string
  ps_base :: string
  ps_entry :: "string option"
  ps_draft :: bool
  ps_mergeable :: string
  ps_merge_state :: string
  ps_review :: "string option"
  ps_has_queue :: bool
  ps_body :: string

text \<open>The verdict on its required checks (\<open>ledger_events.PullRequest\<close>).\<close>

record checks_view =
  vw_head :: string
  vw_resolved :: bool
  vw_red :: bool
  vw_failed :: "string list"

record queue_pull =
  qp_id :: string
  qp_url :: string
  qp_head :: string

datatype queue_call =
    Read_State string "fault + pull_state option"
  | Read_Waiting string "fault + (string \<times> queue_pull) list"
  | Read_Checks string "fault + checks_view option"
  | Enqueued string string "fault + unit"
  | Dequeued string "fault + unit"
  | Squashed string string "fault + string option"
  | Sent string string "fault + unit"

record 'p provider =
  pv_state :: "string \<Rightarrow> 'p \<Rightarrow> (fault + pull_state option) \<times> 'p"
  pv_checks :: "string \<Rightarrow> 'p \<Rightarrow> (fault + checks_view option) \<times> 'p"
  pv_enqueue :: "string \<Rightarrow> string \<Rightarrow> 'p \<Rightarrow> (fault + unit) \<times> 'p"
  pv_dequeue :: "string \<Rightarrow> 'p \<Rightarrow> (fault + unit) \<times> 'p"
  pv_merge :: "string \<Rightarrow> string \<Rightarrow> 'p \<Rightarrow> (fault + string option) \<times> 'p"
  pv_waiting :: "string \<Rightarrow> 'p \<Rightarrow> (fault + (string \<times> queue_pull) list) \<times> 'p"
  pv_compatible :: "string \<Rightarrow> string \<Rightarrow> string \<Rightarrow> 'p \<Rightarrow> (fault + unit) \<times> 'p"
  pv_send :: "string \<Rightarrow> string \<Rightarrow> 'p \<Rightarrow> (fault + unit) \<times> 'p"

record displaced_pull =
  dp_pull :: queue_pull
  dp_order :: int
  dp_notified :: bool

record 'p queue_world =
  qw_provider :: 'p
  qw_displaced :: "(string, displaced_pull) dict"
  qw_order :: int
  qw_calls :: "queue_call list"

definition called :: "(fault + 'a) \<times> 'p \<Rightarrow> (fault + 'a \<Rightarrow> queue_call) \<Rightarrow> 'p queue_world \<Rightarrow> (fault + 'a) \<times> 'p queue_world" where
  "called answer event w = (fst answer, w\<lparr>qw_provider := snd answer, qw_calls := qw_calls w @ [event (fst answer)]\<rparr>)"

definition call_state :: "'p provider \<Rightarrow> string \<Rightarrow> 'p queue_world \<Rightarrow> (fault + pull_state option) \<times> 'p queue_world" where
  "call_state pv url w = called (pv_state pv url (qw_provider w)) (Read_State url) w"

definition call_checks :: "'p provider \<Rightarrow> string \<Rightarrow> 'p queue_world \<Rightarrow> (fault + checks_view option) \<times> 'p queue_world" where
  "call_checks pv url w = called (pv_checks pv url (qw_provider w)) (Read_Checks url) w"

definition call_enqueue :: "'p provider \<Rightarrow> string \<Rightarrow> string \<Rightarrow> 'p queue_world \<Rightarrow> (fault + unit) \<times> 'p queue_world" where
  "call_enqueue pv pull_id head w = called (pv_enqueue pv pull_id head (qw_provider w)) (Enqueued pull_id head) w"

definition call_dequeue :: "'p provider \<Rightarrow> string \<Rightarrow> 'p queue_world \<Rightarrow> (fault + unit) \<times> 'p queue_world" where
  "call_dequeue pv pull_id w = called (pv_dequeue pv pull_id (qw_provider w)) (Dequeued pull_id) w"

definition call_merge :: "'p provider \<Rightarrow> string \<Rightarrow> string \<Rightarrow> 'p queue_world \<Rightarrow> (fault + string option) \<times> 'p queue_world" where
  "call_merge pv pull_id head w = called (pv_merge pv pull_id head (qw_provider w)) (Squashed pull_id head) w"

definition call_send :: "'p provider \<Rightarrow> string \<Rightarrow> string \<Rightarrow> 'p queue_world \<Rightarrow> (fault + unit) \<times> 'p queue_world" where
  "call_send pv receiver message w = called (pv_send pv receiver message (qw_provider w)) (Sent receiver message) w"

definition call_waiting :: "'p provider \<Rightarrow> string \<Rightarrow> 'p queue_world \<Rightarrow> (fault + (string \<times> queue_pull) list) \<times> 'p queue_world" where
  "call_waiting pv url w = called (pv_waiting pv url (qw_provider w)) (Read_Waiting url) w"

text \<open>\<open>staged_compatibility.require\<close>\<close>

definition call_compatible :: "'p provider \<Rightarrow> string \<Rightarrow> string \<Rightarrow> string \<Rightarrow> 'p queue_world \<Rightarrow> (fault + unit) \<times> 'p queue_world" where
  "call_compatible pv url head body w =
    (case pv_compatible pv url head body (qw_provider w) of (res, p) \<Rightarrow> (res, w\<lparr>qw_provider := p\<rparr>))"

definition queue_error :: "string \<Rightarrow> fault + 'a" where
  "queue_error msg = Inl (Swarm_Error msg)"

text \<open>Running on in the world an answer left.\<close>

definition bind_world ::
  "(fault + 'a) \<times> 'w \<Rightarrow> ('a \<Rightarrow> 'w \<Rightarrow> (fault + 'b) \<times> 'w) \<Rightarrow> (fault + 'b) \<times> 'w" where
  "bind_world r f = (case r of (Inl e, w) \<Rightarrow> (Inl e, w) | (Inr a, w) \<Rightarrow> f a w)"

text \<open>\<open>except SwarmError\<close> catches these.\<close>

definition swarm_fault :: "fault \<Rightarrow> bool" where
  "swarm_fault e = (case e of Swarm_Error _ \<Rightarrow> True | _ \<Rightarrow> False)"

definition fault_text :: "fault \<Rightarrow> string" where
  "fault_text e =
    (case e of Swarm_Error msg \<Rightarrow> msg | Inbox_Error msg \<Rightarrow> msg | Duplicate_Item msg \<Rightarrow> msg | Contended msg \<Rightarrow> msg | Gone msg \<Rightarrow> msg | _ \<Rightarrow> '''')"

fun contains :: "string \<Rightarrow> string \<Rightarrow> bool" where
  "contains part [] = (part = [])"
| "contains part (ch # rest) = (starts_with part (ch # rest) \<or> contains part rest)"

section \<open>One pull request\<close>

text \<open>A subscript of \<open>None\<close> raises \<open>TypeError\<close>.\<close>

definition some_state :: "pull_state option \<Rightarrow> 'w \<Rightarrow> (fault + pull_state) \<times> 'w" where
  "some_state raw w = (case raw of None \<Rightarrow> (Inl Type_Error, w) | Some ps \<Rightarrow> (Inr ps, w))"

definition refuse_checks :: "checks_view option \<Rightarrow> fault + 'a" where
  "refuse_checks found =
    queue_error (''required checks on the current pull request head must pass before queueing'' @
      (case found of None \<Rightarrow> '''' | Some v \<Rightarrow> if vw_failed v = [] then '''' else ''; failed: '' @ join_with '', '' (vw_failed v)))"

definition require_green :: "'p provider \<Rightarrow> string \<Rightarrow> string \<Rightarrow> 'p queue_world \<Rightarrow> (fault + unit) \<times> 'p queue_world" where
  "require_green pv url head w =
    bind_world (call_checks pv url w) (\<lambda>found w1.
      case found of
        None \<Rightarrow> (refuse_checks None, w1)
      | Some v \<Rightarrow>
          if vw_head v \<noteq> head \<or> \<not> vw_resolved v \<or> vw_red v then (refuse_checks (Some v), w1) else (Inr (), w1))"

definition not_accessible :: string where
  "not_accessible = ''not accessible by integration''"

definition readable_view :: "'p provider \<Rightarrow> string \<Rightarrow> 'p queue_world \<Rightarrow> (fault + checks_view option) \<times> 'p queue_world" where
  "readable_view pv url w =
    (case call_checks pv url w of
      (Inl e, w1) \<Rightarrow> if swarm_fault e \<and> contains not_accessible (fault_text e) then (Inr None, w1) else (Inl e, w1)
    | (Inr found, w1) \<Rightarrow> (Inr found, w1))"

definition mergeable_states :: "string list" where
  "mergeable_states = [''CLEAN'', ''HAS_HOOKS'', ''UNSTABLE'']"

text \<open>\<open>settle\<close>: the rounds left, and the merge state last read.\<close>

fun settle_merge :: "'p provider \<Rightarrow> string \<Rightarrow> string \<Rightarrow> nat \<Rightarrow> string \<Rightarrow> 'p queue_world \<Rightarrow> (fault + unit) \<times> 'p queue_world" where
  "settle_merge pv url head 0 status w =
    (queue_error (''required checks on the current pull request head must pass before merging; merge state '' @ status), w)"
| "settle_merge pv url head (Suc n) status w =
    bind_world (readable_view pv url w) (\<lambda>found w1.
      case found of
        Some v \<Rightarrow>
          if vw_head v \<noteq> head \<or> vw_red v then (refuse_checks (Some v), w1)
          else if vw_resolved v then (Inr (), w1)
          else settle_merge pv url head n status w1
      | None \<Rightarrow>
          bind_world (call_state pv url w1) (\<lambda>raw w2. bind_world (some_state raw w2) (\<lambda>ps w3.
            if ps_head ps \<noteq> head then (queue_error ''the pull request head moved; merge the new head once its checks pass'', w3)
            else if ps_merge_state ps \<in> set mergeable_states then (Inr (), w3)
            else if ps_merge_state ps = ''DIRTY''
            then (queue_error ''the pull request conflicts with dev; merge dev into it before merging'', w3)
            else settle_merge pv url head n (ps_merge_state ps) w3)))"

definition squash_merge :: "'p provider \<Rightarrow> pull_state \<Rightarrow> 'p queue_world \<Rightarrow> (fault + string option) \<times> 'p queue_world" where
  "squash_merge pv ps w =
    (case call_merge pv (ps_id ps) (ps_head ps) w of
      (Inl e, w1) \<Rightarrow>
        (if swarm_fault e \<and> contains not_accessible (fault_text e)
         then queue_error (''squash merge refused: '' @ fault_text e @ ''; the GitHub App token needs the pull requests write permission'')
         else Inl e, w1)
    | (Inr oid, w1) \<Rightarrow> (Inr oid, w1))"

record queue_report =
  qr_pull_state :: string
  qr_head :: string
  qr_queued :: bool
  qr_merge_commit :: "string option option"

definition report_of :: "pull_state \<Rightarrow> string option option \<Rightarrow> queue_report" where
  "report_of ps merged = \<lparr>qr_pull_state = ps_state ps, qr_head = ps_head ps, qr_queued = (ps_entry ps \<noteq> None), qr_merge_commit = merged\<rparr>"

text \<open>\<open>admit\<close> is the caller's own check of the head, \<open>None\<close> where it passes.\<close>

definition operate_queue ::
  "'p provider \<Rightarrow> string \<Rightarrow> (string \<Rightarrow> fault option) \<Rightarrow> nat \<Rightarrow> pull_state \<Rightarrow> 'p queue_world \<Rightarrow> (fault + string option option) \<times> 'p queue_world" where
  "operate_queue pv url admit attempts ps w =
    bind_world (call_compatible pv url (ps_head ps) (ps_body ps) w) (\<lambda>_ w1.
      case admit (ps_head ps) of
        Some e \<Rightarrow> (Inl e, w1)
      | None \<Rightarrow>
          if \<not> ps_has_queue ps
          then (if ps_draft ps \<or> (ps_review ps \<noteq> None \<and> ps_review ps \<noteq> Some ''APPROVED'')
                then (queue_error ''squash merge requires a ready pull request with green checks and no pending review'', w1)
                else bind_world (settle_merge pv url (ps_head ps) attempts ''PENDING'' w1) (\<lambda>_ w2.
                  bind_world (squash_merge pv ps w2) (\<lambda>oid w3. (Inr (Some oid), w3))))
          else bind_world (require_green pv url (ps_head ps) w1) (\<lambda>_ w2.
                 bind_world (call_enqueue pv (ps_id ps) (ps_head ps) w2) (\<lambda>_ w3. (Inr None, w3))))"

definition operate_pull ::
  "'p provider \<Rightarrow> string \<Rightarrow> string \<Rightarrow> (string \<Rightarrow> fault option) \<Rightarrow> nat \<Rightarrow> 'p queue_world \<Rightarrow> (fault + queue_report) \<times> 'p queue_world" where
  "operate_pull pv action url admit attempts w =
    bind_world (call_state pv url w) (\<lambda>raw w1.
      case raw of
        None \<Rightarrow> (queue_error ''GitHub URL does not identify a pull request'', w1)
      | Some ps \<Rightarrow>
          if action \<noteq> ''state'' \<and> ps_base ps \<noteq> ''dev''
          then (queue_error ''swarm merge queue operations require a pull request into dev'', w1)
          else if action = ''queue'' \<and> ps_entry ps = None
          then bind_world (operate_queue pv url admit attempts ps w1) (\<lambda>merged w2.
                 bind_world (call_state pv url w2) (\<lambda>raw2 w3. bind_world (some_state raw2 w3) (\<lambda>ps2 w4. (Inr (report_of ps2 merged), w4))))
          else if action = ''dequeue''
          then bind_world (call_dequeue pv (ps_id ps) w1) (\<lambda>_ w2.
                 bind_world (call_state pv url w2) (\<lambda>raw2 w3. bind_world (some_state raw2 w3) (\<lambda>ps2 w4. (Inr (report_of ps2 None), w4))))
          else (Inr (report_of ps None), w1))"

section \<open>Moving one to the front\<close>

text \<open>The record of displaced pulls; a caller without one gives \<open>Untracked\<close>.\<close>

definition displaced_add :: "bool \<Rightarrow> queue_pull \<Rightarrow> 'p queue_world \<Rightarrow> 'p queue_world" where
  "displaced_add tracked pull w =
    (if tracked then w\<lparr>qw_order := qw_order w + 1,
       qw_displaced := dset (qp_url pull) \<lparr>dp_pull = pull, dp_order = qw_order w + 1, dp_notified = False\<rparr> (qw_displaced w)\<rparr>
     else w)"

definition displaced_discard :: "bool \<Rightarrow> string \<Rightarrow> 'p queue_world \<Rightarrow> 'p queue_world" where
  "displaced_discard tracked url w = (if tracked then w\<lparr>qw_displaced := dpop url (qw_displaced w)\<rparr> else w)"

definition displaced_mark :: "displaced_pull \<Rightarrow> 'p queue_world \<Rightarrow> 'p queue_world" where
  "displaced_mark row w = w\<lparr>qw_displaced := dset (qp_url (dp_pull row)) (row\<lparr>dp_notified := True\<rparr>) (qw_displaced w)\<rparr>"

definition displaced_pulls :: "'p queue_world \<Rightarrow> displaced_pull list" where
  "displaced_pulls w = sort_key dp_order (dvals (qw_displaced w))"

text \<open>
  \<open>waiting_around\<close>: the entries of all pages in order; those before the target, and those behind it, that
  wait as \<open>QUEUED\<close>.
\<close>

fun around :: "string \<Rightarrow> (string \<times> queue_pull) list \<Rightarrow> bool \<Rightarrow> queue_pull list \<Rightarrow> queue_pull list \<Rightarrow> queue_pull list \<times> queue_pull list" where
  "around target [] behind_it ahead behind = (ahead, behind)"
| "around target ((state, pull) # rest) behind_it ahead behind =
    (if qp_id pull = target then around target rest True ahead behind
     else if state = ''QUEUED''
     then (if behind_it then around target rest behind_it ahead (behind @ [pull]) else around target rest behind_it (ahead @ [pull]) behind)
     else around target rest behind_it ahead behind)"

definition waiting_around :: "'p provider \<Rightarrow> string \<Rightarrow> string \<Rightarrow> 'p queue_world \<Rightarrow> (fault + queue_pull list) \<times> 'p queue_world" where
  "waiting_around pv url target w =
    bind_world (call_waiting pv url w) (\<lambda>nodes w1. case around target nodes False [] [] of (ahead, behind) \<Rightarrow> (Inr (ahead @ behind), w1))"

text \<open>
  The second loop of \<open>displace\<close>, over the waiting pulls from the last to the first. The pulls taken out so
  far are an answer of their own: they count even where the loop ends in an exception.
\<close>

fun take_out :: "'p provider \<Rightarrow> bool \<Rightarrow> queue_pull list \<Rightarrow> queue_pull list \<Rightarrow> 'p queue_world \<Rightarrow> (fault option \<times> queue_pull list) \<times> 'p queue_world" where
  "take_out pv tracked [] removed w = ((None, removed), w)"
| "take_out pv tracked (pull # rest) removed w =
    (case bind_world (call_state pv (qp_url pull) w) some_state of
      (Inl e, w1) \<Rightarrow> ((Some e, removed), w1)
    | (Inr ps, w1) \<Rightarrow>
        if ps_entry ps = Some ''QUEUED''
        then (case call_dequeue pv (qp_id pull) w1 of
                (Inl e, w2) \<Rightarrow> ((Some e, removed @ [pull]), w2)
              | (Inr _, w2) \<Rightarrow> take_out pv tracked rest (removed @ [pull]) w2)
        else take_out pv tracked rest removed (displaced_discard tracked (qp_url pull) w1))"

definition displace ::
  "'p provider \<Rightarrow> bool \<Rightarrow> queue_pull list \<Rightarrow> 'p queue_world \<Rightarrow> (fault option \<times> queue_pull list) \<times> 'p queue_world" where
  "displace pv tracked waiting w = take_out pv tracked (rev waiting) [] (foldl (\<lambda>w pull. displaced_add tracked pull w) w waiting)"

text \<open>One round of \<open>restore\<close>: whether the pull was queued again.\<close>

definition restore_one :: "'p provider \<Rightarrow> queue_pull \<Rightarrow> 'p queue_world \<Rightarrow> (fault + bool) \<times> 'p queue_world" where
  "restore_one pv pull w =
    bind_world (call_state pv (qp_url pull) w) (\<lambda>raw w1. bind_world (some_state raw w1) (\<lambda>ps w2.
      if ps_entry ps = None
      then bind_world (call_compatible pv (qp_url pull) (qp_head pull) (ps_body ps) w2) (\<lambda>_ w3.
             bind_world (call_enqueue pv (qp_id pull) (qp_head pull) w3) (\<lambda>_ w4. (Inr True, w4)))
      else (Inr False, w2)))"

text \<open>An exception that is no \<open>SwarmError\<close> leaves the loop and \<open>prioritize\<close>.\<close>

fun restore_pulls ::
  "'p provider \<Rightarrow> bool \<Rightarrow> queue_pull list \<Rightarrow> string list \<Rightarrow> string list \<Rightarrow> 'p queue_world \<Rightarrow> (fault + string list \<times> string list) \<times> 'p queue_world" where
  "restore_pulls pv tracked [] restored errors w = (Inr (restored, errors), w)"
| "restore_pulls pv tracked (pull # rest) restored errors w =
    (case restore_one pv pull w of
      (Inr again, w1) \<Rightarrow>
        restore_pulls pv tracked rest (if again then restored @ [qp_url pull] else restored) errors (displaced_discard tracked (qp_url pull) w1)
    | (Inl e, w1) \<Rightarrow>
        if swarm_fault e then (Inr (restored, errors @ [''could not restore '' @ qp_url pull @ '': '' @ fault_text e]), w1)
        else (Inl e, w1))"

record priority_report =
  pq_displaced :: "string list"
  pq_errors :: "string list"

definition queue_target :: "'p provider \<Rightarrow> string \<Rightarrow> pull_state \<Rightarrow> 'p queue_world \<Rightarrow> (fault + unit) \<times> 'p queue_world" where
  "queue_target pv url ps w =
    bind_world (call_state pv url w) (\<lambda>raw w1. bind_world (some_state raw w1) (\<lambda>current w2.
      if ps_entry current = None then call_enqueue pv (ps_id ps) (ps_head ps) w2 else (Inr (), w2)))"

definition move_front ::
  "'p provider \<Rightarrow> bool \<Rightarrow> string \<Rightarrow> pull_state \<Rightarrow> queue_pull list \<Rightarrow> 'p queue_world \<Rightarrow> (fault + priority_report) \<times> 'p queue_world" where
  "move_front pv tracked url ps waiting w =
    (case displace pv tracked waiting w of
      ((failed, removed), w1) \<Rightarrow>
        if (case failed of None \<Rightarrow> False | Some e \<Rightarrow> \<not> swarm_fault e) then (Inl (the failed), w1)
        else
          let errors = (case failed of None \<Rightarrow> [] | Some e \<Rightarrow> [fault_text e])
          in case (if errors = [] \<or> ps_entry ps \<noteq> None then queue_target pv url ps w1 else (Inr (), w1)) of
               (Inl e, w2) \<Rightarrow>
                 if swarm_fault e
                 then bind_world (restore_pulls pv tracked (rev removed) [] (errors @ [fault_text e]) w2)
                        (\<lambda>(restored, errs) w3. (Inr \<lparr>pq_displaced = restored, pq_errors = errs\<rparr>, w3))
                 else (Inl e, w2)
             | (Inr _, w2) \<Rightarrow>
                 bind_world (restore_pulls pv tracked (rev removed) [] errors w2)
                   (\<lambda>(restored, errs) w3. (Inr \<lparr>pq_displaced = restored, pq_errors = errs\<rparr>, w3)))"

definition prioritize ::
  "'p provider \<Rightarrow> bool \<Rightarrow> string \<Rightarrow> string list \<Rightarrow> 'p queue_world \<Rightarrow> (fault + priority_report) \<times> 'p queue_world" where
  "prioritize pv tracked url ahead w =
    bind_world (call_state pv url w) (\<lambda>raw w1.
      case raw of
        None \<Rightarrow> (queue_error ''queue priority requires an open pull request into dev'', w1)
      | Some ps \<Rightarrow>
          if ps_base ps \<noteq> ''dev'' \<or> ps_state ps \<noteq> ''OPEN'' then (queue_error ''queue priority requires an open pull request into dev'', w1)
          else if ps_draft ps then (queue_error ''queue priority requires a ready pull request'', w1)
          else if \<not> ps_has_queue ps then (queue_error ''queue priority requires a dev merge queue'', w1)
          else bind_world (call_compatible pv url (ps_head ps) (ps_body ps) w1) (\<lambda>_ w2.
            bind_world (require_green pv url (ps_head ps) w2) (\<lambda>_ w3.
              bind_world (waiting_around pv url (ps_id ps) w3) (\<lambda>found w4.
                move_front pv tracked url ps (filter (\<lambda>pull. qp_url pull \<notin> set ahead) found) w4))))"

section \<open>Putting back what an interruption left out\<close>

record claimed_task =
  ct_pr_url :: string
  ct_claimed_by :: string
  ct_state :: string
  ct_awaiting :: bool

definition pull_owners :: "claimed_task list \<Rightarrow> string list \<Rightarrow> claimed_task list" where
  "pull_owners tasks urls =
    filter (\<lambda>task. ct_pr_url task \<in> set urls \<and> ct_claimed_by task \<noteq> '''' \<and> ct_state task \<noteq> ''done'' \<and> \<not> ct_awaiting task) tasks"

definition pull_settled :: "pull_state option \<Rightarrow> bool" where
  "pull_settled raw \<longleftrightarrow> (case raw of None \<Rightarrow> True | Some ps \<Rightarrow> ps_state ps \<noteq> ''OPEN'' \<or> ps_base ps \<noteq> ''dev'' \<or> ps_entry ps \<noteq> None)"

definition pull_blocker :: "pull_state \<Rightarrow> string \<Rightarrow> string" where
  "pull_blocker ps head =
    (if ps_draft ps then ''it became a draft''
     else if ps_head ps \<noteq> head then ''its head moved''
     else if ps_mergeable ps = ''CONFLICTING'' then ''it has merge conflicts with dev''
     else '''')"

fun send_all :: "'p provider \<Rightarrow> string list \<Rightarrow> string \<Rightarrow> 'p queue_world \<Rightarrow> (fault + unit) \<times> 'p queue_world" where
  "send_all pv [] message w = (Inr (), w)"
| "send_all pv (receiver # rest) message w = bind_world (call_send pv receiver message w) (\<lambda>_ w1. send_all pv rest message w1)"

definition leave_out ::
  "'p provider \<Rightarrow> claimed_task list \<Rightarrow> string \<Rightarrow> string \<Rightarrow> 'p queue_world \<Rightarrow> (fault + string) \<times> 'p queue_world" where
  "leave_out pv tasks url reason w =
    bind_world (send_all pv (map ct_claimed_by (pull_owners tasks [url]))
      (''Your pull request '' @ url @ '' left the merge queue in an interrupted priority and stays out because '' @ reason @
       ''. Queue it again once its checks pass.'') w)
      (\<lambda>_ w1. (Inr (''left '' @ url @ '' out of the merge queue after an interrupted priority: '' @ reason), w1))"

text \<open>The catch of \<open>retrying\<close> is for \<open>InboxError\<close>: the mark waits for the next pass.\<close>

definition mail_fault :: "fault \<Rightarrow> bool" where
  "mail_fault e =
    (case e of Inbox_Error _ \<Rightarrow> True | Duplicate_Item _ \<Rightarrow> True | Contended _ \<Rightarrow> True | Gone _ \<Rightarrow> True | _ \<Rightarrow> False)"

definition retrying ::
  "'p provider \<Rightarrow> claimed_task list \<Rightarrow> displaced_pull \<Rightarrow> string \<Rightarrow> 'p queue_world \<Rightarrow> (fault + unit) \<times> 'p queue_world" where
  "retrying pv tasks row reason w =
    (let url = qp_url (dp_pull row); claimants = map ct_claimed_by (pull_owners tasks [url])
     in if dp_notified row \<or> claimants = [] then (Inr (), w)
        else (case send_all pv claimants (''Your pull request '' @ url @ '' left the merge queue in a priority and could not be queued again: '' @
                reason @ ''. The swarm retries it at the end of the queue on every refresh until it is back or stays out for a reason.'') w of
                (Inl e, w1) \<Rightarrow> (if mail_fault e then Inr () else Inl e, w1)
              | (Inr _, w1) \<Rightarrow> (Inr (), displaced_mark row w1)))"

text \<open>One displaced pull: what was done about it, or the exception.\<close>

definition requeue_one ::
  "'p provider \<Rightarrow> claimed_task list \<Rightarrow> displaced_pull \<Rightarrow> 'p queue_world \<Rightarrow> (fault + string list) \<times> 'p queue_world" where
  "requeue_one pv tasks row w =
    (let pull = dp_pull row; url = qp_url pull
     in bind_world (call_state pv url w) (\<lambda>raw w1.
          if pull_settled raw then (Inr [], displaced_discard True url w1)
          else
            let ps = the raw
            in if pull_blocker ps (qp_head pull) \<noteq> ''''
               then bind_world (leave_out pv tasks url (pull_blocker ps (qp_head pull)) w1) (\<lambda>said w2. (Inr [said], displaced_discard True url w2))
               else bind_world (call_compatible pv url (qp_head pull) (ps_body ps) w1) (\<lambda>_ w2.
                 bind_world (call_enqueue pv (qp_id pull) (qp_head pull) w2) (\<lambda>_ w3.
                   (Inr [''requeued '' @ url @ '' left out of the merge queue by an interrupted priority''], displaced_discard True url w3)))))"

fun requeue_rows ::
  "'p provider \<Rightarrow> claimed_task list \<Rightarrow> displaced_pull list \<Rightarrow> string list \<Rightarrow> 'p queue_world \<Rightarrow> (fault + string list) \<times> 'p queue_world" where
  "requeue_rows pv tasks [] actions w = (Inr actions, w)"
| "requeue_rows pv tasks (row # rows) actions w =
    (case requeue_one pv tasks row w of
      (Inr said, w1) \<Rightarrow> requeue_rows pv tasks rows (actions @ said) w1
    | (Inl e, w1) \<Rightarrow>
        if swarm_fault e \<or> mail_fault e
        then bind_world (retrying pv tasks row (fault_text e) w1) (\<lambda>_ w2.
               requeue_rows pv tasks rows
                 (actions @ [''could not requeue '' @ qp_url (dp_pull row) @ '' after an interrupted priority: '' @ fault_text e]) w2)
        else (Inl e, w1))"

definition requeue :: "'p provider \<Rightarrow> claimed_task list \<Rightarrow> 'p queue_world \<Rightarrow> (fault + string list) \<times> 'p queue_world" where
  "requeue pv tasks w = requeue_rows pv tasks (displaced_pulls w) [] w"

text \<open>Why a deferred priority is dropped.\<close>

definition drop_reason :: "'p provider \<Rightarrow> string \<Rightarrow> 'p queue_world \<Rightarrow> (fault + string) \<times> 'p queue_world" where
  "drop_reason pv url w =
    bind_world (call_state pv url w) (\<lambda>raw w1.
      case raw of
        None \<Rightarrow> (queue_error ''pull request could not be read'', w1)
      | Some ps \<Rightarrow>
          (Inr (if ps_state ps \<noteq> ''OPEN'' then ''pull request is '' @ ps_state ps
                else if ps_base ps \<noteq> ''dev'' then ''pull request no longer targets dev''
                else if ps_draft ps then ''pull request is a draft'' else ''''), w1))"

section \<open>What is called and what is recorded\<close>

text \<open>\<open>grows w w' calls\<close>: the calls of an operation; \<open>still\<close>: it left the record of displaced pulls alone.\<close>

definition grows :: "'p queue_world \<Rightarrow> 'p queue_world \<Rightarrow> queue_call list \<Rightarrow> bool" where
  "grows w w' calls \<longleftrightarrow> qw_calls w' = qw_calls w @ calls"

definition still :: "'p queue_world \<Rightarrow> 'p queue_world \<Rightarrow> bool" where
  "still w w' \<longleftrightarrow> qw_displaced w' = qw_displaced w \<and> qw_order w' = qw_order w"

lemma grows_trans: "grows a b xs \<Longrightarrow> grows b c ys \<Longrightarrow> grows a c (xs @ ys)"
  by (simp add: grows_def)

lemma still_trans [trans]: "still a b \<Longrightarrow> still b c \<Longrightarrow> still a c"
  by (simp add: still_def)

lemma still_refl [simp, intro]: "still w w" by (simp add: still_def)

lemma grows_refl [simp, intro]: "grows w w []" by (simp add: grows_def)

lemma bind_world_Inr: "bind_world r f = (Inr b, w') \<longleftrightarrow> (\<exists>a w. r = (Inr a, w) \<and> f a w = (Inr b, w'))"
  by (auto simp: bind_world_def split: prod.splits sum.splits)

lemma bind_world_split: "P (bind_world r f) \<longleftrightarrow> (\<forall>e w. r = (Inl e, w) \<longrightarrow> P (Inl e, w)) \<and> (\<forall>a w. r = (Inr a, w) \<longrightarrow> P (f a w))"
  by (auto simp: bind_world_def split: prod.splits sum.splits)

lemmas call_defs = call_state_def call_waiting_def call_checks_def call_enqueue_def call_dequeue_def call_merge_def call_send_def called_def

lemma call_effects:
  "call_state pv url w = (r, w') \<Longrightarrow> grows w w' [Read_State url r] \<and> still w w'"
  "call_checks pv url w = (r1, w') \<Longrightarrow> grows w w' [Read_Checks url r1] \<and> still w w'"
  "call_enqueue pv pid head w = (r2, w') \<Longrightarrow> grows w w' [Enqueued pid head r2] \<and> still w w'"
  "call_dequeue pv pid w = (r2, w') \<Longrightarrow> grows w w' [Dequeued pid r2] \<and> still w w'"
  "call_merge pv pid head w = (r3, w') \<Longrightarrow> grows w w' [Squashed pid head r3] \<and> still w w'"
  "call_send pv receiver message w = (r2, w') \<Longrightarrow> grows w w' [Sent receiver message r2] \<and> still w w'"
  "call_compatible pv url head body w = (r2, w') \<Longrightarrow> grows w w' [] \<and> still w w'"
  "call_waiting pv url w = (r4, w') \<Longrightarrow> grows w w' [Read_Waiting url r4] \<and> still w w'"
  by (auto simp: call_defs call_compatible_def grows_def still_def split: prod.splits)

definition kept_out :: "'p queue_world \<Rightarrow> queue_pull \<Rightarrow> bool" where
  "kept_out w pull \<longleftrightarrow> map_option dp_pull (dget (qw_displaced w) (qp_url pull)) = Some pull"

definition dequeues :: "queue_call list \<Rightarrow> string set" where
  "dequeues calls = {pid. \<exists>r. Dequeued pid r \<in> set calls}"

lemma dequeues_simps [simp]:
  "dequeues [] = {}" "dequeues (xs @ ys) = dequeues xs \<union> dequeues ys" "dequeues (Read_State url s # xs) = dequeues xs"
  "dequeues (Read_Waiting url nodes # xs) = dequeues xs" "dequeues (Read_Checks url v # xs) = dequeues xs" "dequeues (Enqueued pid head r # xs) = dequeues xs"
  "dequeues (Dequeued pid r # xs) = insert pid (dequeues xs)" "dequeues (Sent url m r # xs) = dequeues xs"
  by (auto simp: dequeues_def)

text \<open>A call that shows the pull in the queue: it was read there, or was queued.\<close>

definition back_in_queue :: "queue_pull \<Rightarrow> queue_call \<Rightarrow> bool" where
  "back_in_queue pull c \<longleftrightarrow> (\<exists>ps. c = Read_State (qp_url pull) (Inr (Some ps)) \<and> ps_entry ps \<noteq> None) \<or>
    c = Enqueued (qp_id pull) (qp_head pull) (Inr ())"

lemma still_kept: "still w w' \<Longrightarrow> kept_out w' pull = kept_out w pull"
  by (simp add: still_def kept_out_def)

lemma discard_kept [simp]:
  "dhas (qw_displaced (displaced_discard True url w)) url' \<longleftrightarrow> url' \<noteq> url \<and> dhas (qw_displaced w) url'"
  "kept_out (displaced_discard True url w) pull \<longleftrightarrow> qp_url pull \<noteq> url \<and> kept_out w pull"
  "grows w0 (displaced_discard tracked url w) calls \<longleftrightarrow> grows w0 w calls"
  by (auto simp: displaced_discard_def dhas_def dget_dpop grows_def kept_out_def)

lemma some_state_Inr: "some_state raw w = (Inr ps, w') \<longleftrightarrow> raw = Some ps \<and> w' = w"
  by (auto simp: some_state_def split: option.splits)

lemma state_of:
  assumes "bind_world (call_state pv url w) some_state = (res, w')"
  shows "still w w'" "\<exists>raw. grows w w' [Read_State url raw] \<and> (\<forall>ps. res = Inr ps \<longrightarrow> raw = Inr (Some ps))"
proof -
  obtain raw w1 where c: "call_state pv url w = (raw, w1)" by fastforce
  have "w' = w1 \<and> (\<forall>ps. res = Inr ps \<longrightarrow> raw = Inr (Some ps))"
    using assms c by (auto simp: bind_world_def some_state_def split: sum.splits option.splits)
  then show "still w w'" "\<exists>raw. grows w w' [Read_State url raw] \<and> (\<forall>ps. res = Inr ps \<longrightarrow> raw = Inr (Some ps))"
    using call_effects(1)[OF c] by auto
qed

lemma take_out_spec:
  assumes "take_out pv True rest removed w = ((e, removed'), w')" and "distinct (map qp_url (removed @ rest))"
    and "\<forall>pull \<in> set (removed @ rest). kept_out w pull"
  shows "\<exists>calls. grows w w' calls \<and> dequeues calls \<subseteq> qp_id ` set removed' \<and> distinct (map qp_url removed') \<and>
    set removed \<subseteq> set removed' \<and> set removed' \<subseteq> set removed \<union> set rest \<and> (\<forall>pull \<in> set removed'. kept_out w' pull)"
  using assms
proof (induction rest arbitrary: removed w)
  case Nil
  then show ?case by (intro exI[of _ "[]"]) auto
next
  case (Cons pull rest)
  obtain res w1 where st: "bind_world (call_state pv (qp_url pull) w) some_state = (res, w1)" by fastforce
  obtain raw where g: "grows w w1 [Read_State (qp_url pull) raw]" and s: "still w w1" using state_of[OF st] by blast
  have kept: "\<forall>pull' \<in> set (removed @ pull # rest). kept_out w1 pull'" using Cons.prems(3) still_kept[OF s] by simp
  have dist: "distinct (map qp_url removed)" using Cons.prems(2) by simp
  show ?case
  proof (cases res)
    case (Inl err)
    then have "removed' = removed" "w' = w1" using Cons.prems(1) st by simp_all
    then show ?thesis using g kept dist by (intro exI[of _ "[Read_State (qp_url pull) raw]"]) auto
  next
    case (Inr ps)
    show ?thesis
    proof (cases "ps_entry ps = Some ''QUEUED''")
      case True
      obtain r w2 where dq: "call_dequeue pv (qp_id pull) w1 = (r, w2)" by fastforce
      have g2: "grows w w2 ([Read_State (qp_url pull) raw] @ [Dequeued (qp_id pull) r])" and s2: "still w1 w2"
        using grows_trans[OF g] call_effects(4)[OF dq] by blast+
      have kept2: "\<forall>pull' \<in> set ((removed @ [pull]) @ rest). kept_out w2 pull'" using kept still_kept[OF s2] by simp
      have dist2: "distinct (map qp_url ((removed @ [pull]) @ rest))" using Cons.prems(2) by simp
      show ?thesis
      proof (cases r)
        case (Inl err)
        then have "removed' = removed @ [pull]" "w' = w2" using Cons.prems(1) st Inr True dq by simp_all
        then show ?thesis using g2 kept2 dist2 by (intro exI[of _ "[Read_State (qp_url pull) raw] @ [Dequeued (qp_id pull) r]"]) auto
      next
        case (Inr u)
        then have "take_out pv True rest (removed @ [pull]) w2 = ((e, removed'), w')" using Cons.prems(1) st \<open>res = Inr ps\<close> True dq by simp
        from Cons.IH[OF this dist2 kept2] obtain calls where c: "grows w2 w' calls" "dequeues calls \<subseteq> qp_id ` set removed'"
          "distinct (map qp_url removed')" "set (removed @ [pull]) \<subseteq> set removed'" "set removed' \<subseteq> set (removed @ [pull]) \<union> set rest" "\<forall>pull \<in> set removed'. kept_out w' pull" by blast
        show ?thesis using grows_trans[OF g2 c(1)] c(2-6)
          by (intro exI[of _ "([Read_State (qp_url pull) raw] @ [Dequeued (qp_id pull) r]) @ calls"]) (auto simp del: append_assoc)
      qed
    next
      case False
      let ?w2 = "displaced_discard True (qp_url pull) w1"
      have "take_out pv True rest removed ?w2 = ((e, removed'), w')" using Cons.prems(1) st Inr False by simp
      moreover have "distinct (map qp_url (removed @ rest))" using Cons.prems(2) by auto
      moreover have "\<forall>pull' \<in> set (removed @ rest). kept_out ?w2 pull'" using kept Cons.prems(2) by (auto simp: image_iff)
      ultimately obtain calls where c: "grows ?w2 w' calls" "dequeues calls \<subseteq> qp_id ` set removed'"
        "distinct (map qp_url removed')" "set removed \<subseteq> set removed'" "set removed' \<subseteq> set removed \<union> set rest" "\<forall>pull \<in> set removed'. kept_out w' pull" using Cons.IH by blast
      have "grows w ?w2 [Read_State (qp_url pull) raw]" using g by simp
      from grows_trans[OF this c(1)] show ?thesis using c(2-6)
        by (intro exI[of _ "[Read_State (qp_url pull) raw] @ calls"]) auto
    qed
  qed
qed


lemma restore_one_spec:
  assumes "restore_one pv pull w = (res, w')"
  shows "\<exists>calls. grows w w' calls \<and> still w w' \<and> dequeues calls = {} \<and> (\<forall>again. res = Inr again \<longrightarrow> (\<exists>c \<in> set calls. back_in_queue pull c))"
proof -
  obtain st w1 where s1: "bind_world (call_state pv (qp_url pull) w) some_state = (st, w1)" by fastforce
  note so = state_of[OF s1]
  obtain raw where raw: "grows w w1 [Read_State (qp_url pull) raw]" "\<forall>ps. st = Inr ps \<longrightarrow> raw = Inr (Some ps)" using so(2) by blast
  have run: "restore_one pv pull w = bind_world (st, w1) (\<lambda>ps w2.
      if ps_entry ps = None
      then bind_world (call_compatible pv (qp_url pull) (qp_head pull) (ps_body ps) w2) (\<lambda>_ w3.
             bind_world (call_enqueue pv (qp_id pull) (qp_head pull) w3) (\<lambda>_ w4. (Inr True, w4)))
      else (Inr False, w2))"
    unfolding restore_one_def s1[symmetric] by (auto simp: bind_world_def some_state_def split: prod.splits sum.splits option.splits)
  show ?thesis
  proof (cases st)
    case (Inl e)
    then show ?thesis using assms run so(1) raw(1) by (intro exI[of _ "[Read_State (qp_url pull) raw]"]) (auto simp: bind_world_def)
  next
    case (Inr ps)
    show ?thesis
    proof (cases "ps_entry ps")
      case (Some x)
      then have "back_in_queue pull (Read_State (qp_url pull) raw)" using raw(2) Inr by (simp add: back_in_queue_def)
      moreover have "w' = w1" using assms run Inr Some by (simp add: bind_world_def)
      ultimately show ?thesis using so(1) raw(1) by (intro exI[of _ "[Read_State (qp_url pull) raw]"]) auto
    next
      case None
      obtain c w2 where cc: "call_compatible pv (qp_url pull) (qp_head pull) (ps_body ps) w1 = (c, w2)" by fastforce
      have g2: "grows w w2 [Read_State (qp_url pull) raw]" "still w w2"
        using grows_trans[OF raw(1)] still_trans[OF so(1)] call_effects(7)[OF cc] by auto
      show ?thesis
      proof (cases c)
        case (Inl e)
        then have "w' = w2 \<and> res = Inl e" using assms run \<open>st = Inr ps\<close> None cc by (simp add: bind_world_def)
        then show ?thesis using g2 by (intro exI[of _ "[Read_State (qp_url pull) raw]"]) auto
      next
        case (Inr u)
        obtain r w3 where ec: "call_enqueue pv (qp_id pull) (qp_head pull) w2 = (r, w3)" by fastforce
        have "w' = w3 \<and> (\<forall>again. res = Inr again \<longrightarrow> r = Inr ())"
          using assms run \<open>st = Inr ps\<close> None cc Inr ec by (auto simp: bind_world_def split: sum.splits)
        moreover have "grows w w3 ([Read_State (qp_url pull) raw] @ [Enqueued (qp_id pull) (qp_head pull) r])" "still w w3"
          using grows_trans[OF g2(1)] still_trans[OF g2(2)] call_effects(3)[OF ec] by blast+
        ultimately show ?thesis
          by (intro exI[of _ "[Read_State (qp_url pull) raw] @ [Enqueued (qp_id pull) (qp_head pull) r]"]) (auto simp: back_in_queue_def)
      qed
    qed
  qed
qed

lemma restore_spec:
  assumes "restore_pulls pv True rest restored errors w = (res, w')" and "distinct (map qp_url rest)" and "\<forall>pull \<in> set rest. kept_out w pull"
  shows "\<exists>calls. grows w w' calls \<and> dequeues calls = {} \<and> (\<forall>pull \<in> set rest. kept_out w' pull \<or> (\<exists>c \<in> set calls. back_in_queue pull c)) \<and>
    (\<forall>url. url \<notin> qp_url ` set rest \<longrightarrow> dhas (qw_displaced w') url = dhas (qw_displaced w) url)"
  using assms
proof (induction rest arbitrary: restored w)
  case Nil
  then show ?case by (intro exI[of _ "[]"]) auto
next
  case (Cons pull rest)
  obtain one w1 where o: "restore_one pv pull w = (one, w1)" by fastforce
  obtain calls1 where c1: "grows w w1 calls1" "still w w1" "dequeues calls1 = {}"
    "\<forall>again. one = Inr again \<longrightarrow> (\<exists>c \<in> set calls1. back_in_queue pull c)" using restore_one_spec[OF o] by blast
  have kept: "\<forall>pull' \<in> set (pull # rest). kept_out w1 pull'" using Cons.prems(3) still_kept[OF c1(2)] by simp
  have same: "dhas (qw_displaced w1) url = dhas (qw_displaced w) url" for url using c1(2) by (simp add: still_def)
  show ?case
  proof (cases one)
    case (Inl e)
    then have "w' = w1" using Cons.prems(1) o by (simp split: if_splits)
    then show ?thesis using c1 kept same by (intro exI[of _ calls1]) auto
  next
    case (Inr again)
    let ?w2 = "displaced_discard True (qp_url pull) w1"
    have run: "restore_pulls pv True rest (if again then restored @ [qp_url pull] else restored) errors ?w2 = (res, w')"
      using Cons.prems(1) o Inr by simp
    have "\<forall>pull' \<in> set rest. kept_out ?w2 pull'" using kept Cons.prems(2) by (auto simp: image_iff)
    then obtain calls2 where c2: "grows ?w2 w' calls2" "dequeues calls2 = {}"
      "\<forall>pull \<in> set rest. kept_out w' pull \<or> (\<exists>c \<in> set calls2. back_in_queue pull c)"
      "\<forall>url. url \<notin> qp_url ` set rest \<longrightarrow> dhas (qw_displaced w') url = dhas (qw_displaced ?w2) url"
      using Cons.IH[OF run] Cons.prems(2) by auto
    have "grows w ?w2 calls1" using c1(1) by simp
    from grows_trans[OF this c2(1)] show ?thesis
      using c1(3,4) c2(2-4) Inr same by (intro exI[of _ "calls1 @ calls2"]) auto
  qed
qed

lemma add_all:
  assumes "distinct (map qp_url waiting)"
  shows "grows w (foldl (\<lambda>w pull. displaced_add True pull w) w waiting) [] \<and>
   (\<forall>pull \<in> set waiting. kept_out (foldl (\<lambda>w pull. displaced_add True pull w) w waiting) pull) \<and>
   (\<forall>pull. kept_out w pull \<and> qp_url pull \<notin> qp_url ` set waiting \<longrightarrow>
      kept_out (foldl (\<lambda>w pull. displaced_add True pull w) w waiting) pull)"
  using assms
proof (induction waiting arbitrary: w)
  case Nil
  then show ?case by simp
next
  case (Cons pull waiting)
  have "grows w (displaced_add True pull w) []" "kept_out (displaced_add True pull w) pull"
    "\<forall>pull'. kept_out w pull' \<and> qp_url pull' \<noteq> qp_url pull \<longrightarrow> kept_out (displaced_add True pull w) pull'"
    by (auto simp: displaced_add_def grows_def dget_dset kept_out_def)
  then show ?case using Cons.IH[of "displaced_add True pull w"] Cons.prems by (auto simp: grows_def)
qed

lemma around_distinct:
  assumes "distinct (map qp_url (ahead @ behind @ map snd nodes))"
  shows "distinct (map qp_url (fst (around target nodes b ahead behind) @ snd (around target nodes b ahead behind)))"
  using assms by (induction target nodes b ahead behind rule: around.induct) auto

lemma waiting_nodes:
  assumes "waiting_around pv url target w = (Inr pulls, w')"
  obtains nodes p' where "pv_waiting pv url (qw_provider w) = (Inr nodes, p')" "grows w w' [Read_Waiting url (Inr nodes)]"
    "pulls = fst (around target nodes False [] []) @ snd (around target nodes False [] [])"
proof -
  obtain r p' where p: "pv_waiting pv url (qw_provider w) = (r, p')" by fastforce
  obtain w1 where c: "call_waiting pv url w = (r, w1)" using p by (simp add: call_defs)
  obtain nodes where r: "r = Inr nodes" using assms c by (cases r) (auto simp: waiting_around_def bind_world_def)
  then have "w' = w1" "pulls = fst (around target nodes False [] []) @ snd (around target nodes False [] [])"
    using assms c by (auto simp: waiting_around_def bind_world_def case_prod_unfold)
  then show thesis using that p r call_effects(8)[OF c] by blast
qed

lemma queue_target_spec:
  assumes "queue_target pv url ps w = (res, w')"
  shows "\<exists>calls. grows w w' calls \<and> still w w' \<and> dequeues calls = {}"
proof -
  obtain raw w1 where c: "call_state pv url w = (raw, w1)" by fastforce
  have read: "grows w w1 [Read_State url raw]" "still w w1" using call_effects(1)[OF c] by blast+
  show ?thesis
  proof (cases "\<exists>ps2. raw = Inr (Some ps2) \<and> ps_entry ps2 = None")
    case True
    then obtain ps2 where raw: "raw = Inr (Some ps2)" "ps_entry ps2 = None" by blast
    then have e: "call_enqueue pv (ps_id ps) (ps_head ps) w1 = (res, w')"
      using assms c by (simp add: queue_target_def bind_world_def some_state_def)
    have "grows w w' ([Read_State url raw] @ [Enqueued (ps_id ps) (ps_head ps) res])" "still w w'"
      using grows_trans[OF read(1)] still_trans[OF read(2)] call_effects(3)[OF e] by blast+
    then show ?thesis by (intro exI[of _ "[Read_State url raw] @ [Enqueued (ps_id ps) (ps_head ps) res]"]) simp
  next
    case False
    then have "w' = w1" using assms c
      by (auto simp: queue_target_def bind_world_def some_state_def split: sum.splits option.splits if_splits)
    then show ?thesis using read by (intro exI[of _ "[Read_State url raw]"]) simp
  qed
qed

lemma require_green_spec:
  assumes "require_green pv url head w = (res, w')"
  shows "\<exists>found. grows w w' [Read_Checks url found] \<and> still w w' \<and>
    (res = Inr () \<longrightarrow> (\<exists>v. found = Inr (Some v) \<and> vw_head v = head \<and> vw_resolved v \<and> \<not> vw_red v))"
proof -
  obtain found w1 where c: "call_checks pv url w = (found, w1)" by fastforce
  have "w' = w1" "res = Inr () \<longrightarrow> (\<exists>v. found = Inr (Some v) \<and> vw_head v = head \<and> vw_resolved v \<and> \<not> vw_red v)"
    using assms c by (auto simp: require_green_def bind_world_def refuse_checks_def queue_error_def split: sum.splits option.splits if_splits)
  then show ?thesis using call_effects(2)[OF c] by blast
qed

text \<open>
  What a run of the queue's moves leaves behind: each pull it took out is one of \<open>pulls\<close>, and is recorded as displaced
  or was seen back in the queue after the last removal.
\<close>

definition nothing_lost :: "queue_pull set \<Rightarrow> 'p queue_world \<Rightarrow> 'p queue_world \<Rightarrow> bool" where
  "nothing_lost pulls w w' \<longleftrightarrow> (\<exists>before after. qw_calls w' = qw_calls w @ before @ after \<and> dequeues after = {} \<and>
    (\<forall>pid \<in> dequeues before. \<exists>pull \<in> pulls. qp_id pull = pid \<and> (kept_out w' pull \<or> (\<exists>c \<in> set after. back_in_queue pull c))))"

text \<open>The pulls the provider listed as the queue's entries.\<close>

definition listed :: "queue_call list \<Rightarrow> queue_pull set" where
  "listed calls = {pull. \<exists>url nodes state. Read_Waiting url (Inr nodes) \<in> set calls \<and> (state, pull) \<in> set nodes}"

lemma nothing_lost_reads:
  assumes "grows w w1 calls" "dequeues calls = {}" "nothing_lost pulls w1 w'"
  shows "nothing_lost pulls w w'"
  using assms unfolding nothing_lost_def grows_def by (metis append_assoc dequeues_simps(2) sup_bot_left)

lemma nothing_lost_still:
  assumes "grows w w' calls" "dequeues calls = {}"
  shows "nothing_lost pulls w w'"
  using assms unfolding nothing_lost_def grows_def by (intro exI[of _ "[]"] exI[of _ calls]) simp

lemma nothing_lost_mono: "nothing_lost pulls w w' \<Longrightarrow> pulls \<subseteq> larger \<Longrightarrow> nothing_lost larger w w'"
  unfolding nothing_lost_def by blast

lemma around_listed:
  "set (fst (around target nodes b ahead behind)) \<union> set (snd (around target nodes b ahead behind)) \<subseteq> set ahead \<union> set behind \<union> snd ` set nodes"
proof (induction target nodes b ahead behind rule: around.induct)
  case (2 target state pull rest behind_it ahead behind)
  then show ?case by (cases "qp_id pull = target"; cases "state = ''QUEUED''"; cases behind_it) auto
qed simp

lemma restored_all:
  assumes "displace pv True waiting w = ((failed, removed), w1)" and "distinct (map qp_url waiting)"
    and "grows w1 w2 calls2" "still w1 w2" "dequeues calls2 = {}"
    and "w' = w2 \<or> (\<exists>restored errors res. restore_pulls pv True (rev removed) restored errors w2 = (res, w'))"
  shows "nothing_lost (set waiting) w w'"
proof -
  let ?w0 = "foldl (\<lambda>w pull. displaced_add True pull w) w waiting"
  have "take_out pv True (rev waiting) [] ?w0 = ((failed, removed), w1)" using assms(1) by (simp add: displace_def)
  moreover have "distinct (map qp_url ([] @ rev waiting))" using assms(2) by (simp add: rev_map[symmetric])
  moreover have "\<forall>pull \<in> set ([] @ rev waiting). kept_out ?w0 pull" using add_all[OF assms(2), of w] by simp
  ultimately obtain calls1 where c1: "grows ?w0 w1 calls1" "dequeues calls1 \<subseteq> qp_id ` set removed" "distinct (map qp_url removed)"
    "\<forall>pull \<in> set removed. kept_out w1 pull" "set removed \<subseteq> set [] \<union> set (rev waiting)" using take_out_spec by blast
  have g1: "grows w w1 calls1" using grows_trans[of w ?w0 "[]"] add_all[OF assms(2), of w] c1(1) by simp
  have kept: "\<forall>pull \<in> set removed. kept_out w2 pull" using c1(4) still_kept[OF assms(4)] by simp
  obtain calls3 where c3: "grows w2 w' calls3" "dequeues calls3 = {}"
    "\<forall>pull \<in> set removed. kept_out w' pull \<or> (\<exists>c \<in> set calls3. back_in_queue pull c)"
  proof -
    have "\<exists>calls. grows w2 w' calls \<and> dequeues calls = {} \<and> (\<forall>pull \<in> set removed. kept_out w' pull \<or> (\<exists>c \<in> set calls. back_in_queue pull c))"
      using assms(6)
    proof
      assume "w' = w2"
      then show ?thesis using kept by (intro exI[of _ "[]"]) simp
    next
      assume "\<exists>restored errors res. restore_pulls pv True (rev removed) restored errors w2 = (res, w')"
      then obtain restored errors res where r: "restore_pulls pv True (rev removed) restored errors w2 = (res, w')" by blast
      have "distinct (map qp_url (rev removed))" using c1(3) by (simp add: rev_map[symmetric])
      from restore_spec[OF r this] show ?thesis using kept by auto
    qed
    then show thesis using that by blast
  qed
  have "qw_calls w' = qw_calls w @ calls1 @ (calls2 @ calls3)"
    using grows_trans[OF grows_trans[OF g1 assms(3)] c3(1)] by (simp add: grows_def)
  moreover have "dequeues (calls2 @ calls3) = {}" using assms(5) c3(2) by simp
  moreover have "\<forall>pid \<in> dequeues calls1. \<exists>pull \<in> set waiting. qp_id pull = pid \<and> (kept_out w' pull \<or> (\<exists>c \<in> set (calls2 @ calls3). back_in_queue pull c))"
  proof
    fix pid
    assume "pid \<in> dequeues calls1"
    then obtain pull where "pull \<in> set removed" "qp_id pull = pid" using c1(2) by auto
    then show "\<exists>pull \<in> set waiting. qp_id pull = pid \<and> (kept_out w' pull \<or> (\<exists>c \<in> set (calls2 @ calls3). back_in_queue pull c))"
      using c1(5) c3(3) by (intro bexI[of _ pull]) auto
  qed
  ultimately show ?thesis unfolding nothing_lost_def by blast
qed

lemma bind_restore: "bind_world (restore_pulls pv tracked rest restored errors w) (\<lambda>(r, errs) w3. (Inr (f r errs), w3)) = (res, w') \<Longrightarrow>
  \<exists>out. restore_pulls pv tracked rest restored errors w = (out, w')"
  by (auto simp: bind_world_def split: prod.splits sum.splits)

lemma move_front_spec:
  assumes "move_front pv True url ps waiting w = (res, w')" and "distinct (map qp_url waiting)"
  shows "nothing_lost (set waiting) w w'"
proof -
  obtain out w1 where "displace pv True waiting w = (out, w1)" by fastforce
  moreover obtain failed removed where "out = (failed, removed)" by fastforce
  ultimately have d: "displace pv True waiting w = ((failed, removed), w1)" by simp
  show ?thesis
  proof (cases "case failed of None \<Rightarrow> False | Some e \<Rightarrow> \<not> swarm_fault e")
    case True
    then have "w' = w1" using assms(1) d by (simp add: move_front_def)
    then show ?thesis using restored_all[OF d assms(2), of w1 "[]"] by auto
  next
    case False
    define errors where "errors = (case failed of None \<Rightarrow> [] | Some e \<Rightarrow> [fault_text e])"
    obtain t w2 where t: "(if errors = [] \<or> ps_entry ps \<noteq> None then queue_target pv url ps w1 else (Inr (), w1)) = (t, w2)" by fastforce
    have "\<exists>calls. grows w1 w2 calls \<and> still w1 w2 \<and> dequeues calls = {}"
    proof (cases "errors = [] \<or> ps_entry ps \<noteq> None")
      case True
      then show ?thesis using queue_target_spec[of pv url ps w1 t w2] t by simp
    next
      case False
      then show ?thesis using t by (intro exI[of _ "[]"]) simp
    qed
    then obtain calls2 where c2: "grows w1 w2 calls2" "still w1 w2" "dequeues calls2 = {}" by blast
    have run: "move_front pv True url ps waiting w = (case t of
        Inl e \<Rightarrow> if swarm_fault e
          then bind_world (restore_pulls pv True (rev removed) [] (errors @ [fault_text e]) w2)
                 (\<lambda>(restored, errs) w3. (Inr \<lparr>pq_displaced = restored, pq_errors = errs\<rparr>, w3))
          else (Inl e, w2)
      | Inr u \<Rightarrow> bind_world (restore_pulls pv True (rev removed) [] errors w2)
                 (\<lambda>(restored, errs) w3. (Inr \<lparr>pq_displaced = restored, pq_errors = errs\<rparr>, w3)))"
      unfolding move_front_def d prod.case Let_def if_not_P[OF False] errors_def[symmetric] t ..
    have "w' = w2 \<or> (\<exists>restored errs out. restore_pulls pv True (rev removed) restored errs w2 = (out, w'))"
      using assms(1) unfolding run by (auto split: sum.splits if_splits dest!: bind_restore)
    then show ?thesis using restored_all[OF d assms(2) c2] by blast
  qed
qed

text \<open>
  C10: No displaced pull request is lost: whatever the provider answers, as long as no listing of the queue names a pull
  request twice, and wherever it fails, even with an exception the code does not expect, every pull request that was taken out of the queue to make room is one the
  provider listed, and afterwards it is in the record the next refresh works from, or was seen back in the queue
  once the last one had been taken out.
\<close>

theorem displaced_not_lost:
  assumes "\<And>p nodes p'. pv_waiting pv url p = (Inr nodes, p') \<Longrightarrow> distinct (map (qp_url \<circ> snd) nodes)"
    and "prioritize pv True url ahead w = (res, w')"
  shows "\<exists>calls. qw_calls w' = qw_calls w @ calls \<and> nothing_lost (listed calls) w w'"
proof -
  obtain raw w1 where st: "call_state pv url w = (raw, w1)" by fastforce
  have read: "grows w w1 [Read_State url raw]" using call_effects(1)[OF st] by blast
  have quiet: ?thesis if "grows w w' calls" "dequeues calls = {}" for calls
    using that nothing_lost_still[OF that] unfolding grows_def by blast
  show ?thesis
  proof (cases "w' = w1")
    case True
    then show ?thesis using quiet[of "[Read_State url raw]"] read by simp
  next
    case False
    then obtain ps where ps: "raw = Inr (Some ps)"
      and run: "bind_world (call_compatible pv url (ps_head ps) (ps_body ps) w1) (\<lambda>_ w2.
            bind_world (require_green pv url (ps_head ps) w2) (\<lambda>_ w3.
              bind_world (waiting_around pv url (ps_id ps) w3) (\<lambda>found w4.
                move_front pv True url ps (filter (\<lambda>pull. qp_url pull \<notin> set ahead) found) w4))) = (res, w')"
      using assms(2) st by (auto simp: prioritize_def bind_world_def[of "(raw, w1)"] split: sum.splits option.splits if_splits)
    obtain c w2 where c: "call_compatible pv url (ps_head ps) (ps_body ps) w1 = (c, w2)" by fastforce
    obtain g w3 where g: "require_green pv url (ps_head ps) w2 = (g, w3)" by fastforce
    obtain found w4 where f: "waiting_around pv url (ps_id ps) w3 = (found, w4)" by fastforce
    obtain view where view: "grows w2 w3 [Read_Checks url view]" using require_green_spec[OF g] by blast
    have r2: "grows w w2 [Read_State url raw]" using grows_trans[OF read] call_effects(7)[OF c] by fastforce
    have r3: "grows w w3 ([Read_State url raw] @ [Read_Checks url view])" by (rule grows_trans[OF r2 view])
    obtain list where "grows w3 w4 [Read_Waiting url list]"
      using f call_effects(8)[of pv url w3] by (cases "call_waiting pv url w3")
        (auto simp: waiting_around_def bind_world_def split: prod.splits sum.splits)
    from grows_trans[OF r3 this] have r4: "grows w w4 (([Read_State url raw] @ [Read_Checks url view]) @ [Read_Waiting url list])" .
    consider "w' = w2" | "w' = w3" | "w' = w4" | pulls where "found = Inr pulls"
      "move_front pv True url ps (filter (\<lambda>pull. qp_url pull \<notin> set ahead) pulls) w4 = (res, w')"
      using run c g f by (auto simp: bind_world_def split: sum.splits)
    then show ?thesis
    proof cases
      case 4
      obtain nodes p' where n: "pv_waiting pv url (qw_provider w3) = (Inr nodes, p')" "grows w3 w4 [Read_Waiting url (Inr nodes)]"
        and pulls: "pulls = fst (around (ps_id ps) nodes False [] []) @ snd (around (ps_id ps) nodes False [] [])"
        using waiting_nodes[OF f[unfolded 4(1)]] .
      let ?reads = "([Read_State url raw] @ [Read_Checks url view]) @ [Read_Waiting url (Inr nodes)]"
      have r4: "grows w w4 ?reads" by (rule grows_trans[OF r3 n(2)])
      have "distinct (map qp_url pulls)"
        using around_distinct[of "[]" "[]" nodes] assms(1)[OF n(1)] pulls by simp
      then have moved: "nothing_lost (set (filter (\<lambda>pull. qp_url pull \<notin> set ahead) pulls)) w4 w'"
        using move_front_spec[OF 4(2)] by (simp add: distinct_map_filter)
      then obtain more where more: "qw_calls w' = qw_calls w4 @ more" unfolding nothing_lost_def by blast
      have "set (filter (\<lambda>pull. qp_url pull \<notin> set ahead) pulls) \<subseteq> listed (?reads @ more)"
        using around_listed[of "ps_id ps" nodes False "[]" "[]"] pulls unfolding listed_def by fastforce
      from nothing_lost_reads[OF r4 _ nothing_lost_mono[OF moved this]] show ?thesis
        using r4 more by (intro exI[of _ "?reads @ more"]) (simp add: grows_def)
    qed (use quiet[OF _ _] r2 r3 r4 in fastforce)+
  qed
qed

section \<open>Leaving the record, entering the queue\<close>

definition left_for_reason :: "displaced_pull \<Rightarrow> queue_call list \<Rightarrow> bool" where
  "left_for_reason row calls \<longleftrightarrow>
    (\<exists>raw. Read_State (qp_url (dp_pull row)) (Inr raw) \<in> set calls \<and>
       (pull_settled raw \<or> (\<exists>ps. raw = Some ps \<and> pull_blocker ps (qp_head (dp_pull row)) \<noteq> ''''))) \<or>
    Enqueued (qp_id (dp_pull row)) (qp_head (dp_pull row)) (Inr ()) \<in> set calls"

definition only_left :: "'p queue_world \<Rightarrow> 'p queue_world \<Rightarrow> displaced_pull list \<Rightarrow> queue_call list \<Rightarrow> bool" where
  "only_left w w' rows calls \<longleftrightarrow> grows w w' calls \<and>
    (\<forall>url. dhas (qw_displaced w) url \<longrightarrow> dhas (qw_displaced w') url \<or> (\<exists>row \<in> set rows. url = qp_url (dp_pull row) \<and> left_for_reason row calls))"

lemma only_left_still: "grows w w' calls \<Longrightarrow> still w w' \<Longrightarrow> only_left w w' rows calls"
  by (simp add: only_left_def still_def)

lemma left_more: "left_for_reason row calls \<Longrightarrow> set calls \<subseteq> set calls' \<Longrightarrow> left_for_reason row calls'"
  unfolding left_for_reason_def by blast

lemma only_left_trans:
  assumes "only_left a b rows xs" "only_left b c rows' ys"
  shows "only_left a c (rows @ rows') (xs @ ys)"
  using assms grows_trans[of a b xs c ys] left_more[of _ xs "xs @ ys"] left_more[of _ ys "xs @ ys"]
  unfolding only_left_def by (simp add: bex_Un) blast

lemma only_left_discard:
  assumes "grows w w1 calls" "still w w1" "left_for_reason row calls"
  shows "only_left w (displaced_discard True (qp_url (dp_pull row)) w1) [row] calls"
  using assms by (auto simp: only_left_def still_def)

lemma send_all_spec: "send_all pv receivers message w = (res, w') \<Longrightarrow> \<exists>calls. grows w w' calls \<and> still w w'"
proof (induction receivers arbitrary: w)
  case Nil
  then show ?case by (intro exI[of _ "[]"]) simp
next
  case (Cons receiver rest)
  obtain r w1 where s: "call_send pv receiver message w = (r, w1)" by fastforce
  note e = call_effects(6)[OF s]
  show ?case
  proof (cases r)
    case (Inl err)
    then show ?thesis using Cons.prems s e by (auto simp: bind_world_def)
  next
    case (Inr u)
    then have "send_all pv rest message w1 = (res, w')" using Cons.prems s by (simp add: bind_world_def)
    from Cons.IH[OF this] show ?thesis using e grows_trans still_trans by blast
  qed
qed

lemma requeue_one_spec:
  assumes "requeue_one pv tasks row w = (res, w')"
  shows "\<exists>calls. only_left w w' [row] calls"
proof -
  let ?url = "qp_url (dp_pull row)" and ?head = "qp_head (dp_pull row)"
  obtain raw w1 where st: "call_state pv ?url w = (raw, w1)" by fastforce
  have read: "grows w w1 [Read_State ?url raw]" "still w w1" using call_effects(1)[OF st] by blast+
  consider (failed) e where "raw = Inl e" | (settled) found where "raw = Inr found" "pull_settled found"
    | (blocked) ps where "raw = Inr (Some ps)" "\<not> pull_settled (Some ps)" "pull_blocker ps ?head \<noteq> ''''"
    | (free) ps where "raw = Inr (Some ps)" "\<not> pull_settled (Some ps)" "pull_blocker ps ?head = ''''"
  proof (cases raw)
    case (Inr found)
    show thesis
    proof (cases "pull_settled found")
      case False
      then obtain ps where "found = Some ps" by (cases found) (auto simp: pull_settled_def)
      then show thesis using that(3,4) Inr False by blast
    qed (use that(2) Inr in blast)
  qed (use that(1) in blast)
  then show ?thesis
  proof cases
    case failed
    then have "w' = w1" using assms st by (simp add: requeue_one_def Let_def bind_world_def)
    then show ?thesis using only_left_still[OF read] by blast
  next
    case settled
    then have "w' = displaced_discard True ?url w1" using assms st by (simp add: requeue_one_def Let_def bind_world_def)
    moreover have "left_for_reason row [Read_State ?url raw]" using settled by (simp add: left_for_reason_def)
    ultimately show ?thesis using only_left_discard[OF read] by blast
  next
    case blocked
    obtain said w2 where s: "leave_out pv tasks ?url (pull_blocker ps ?head) w1 = (said, w2)" by fastforce
    obtain r w3 where "send_all pv (map ct_claimed_by (pull_owners tasks [?url])) (''Your pull request '' @ ?url @
        '' left the merge queue in an interrupted priority and stays out because '' @ pull_blocker ps ?head @
        ''. Queue it again once its checks pass.'') w1 = (r, w3)" by fastforce
    moreover from this have "w3 = w2" using s by (cases r) (simp_all add: leave_out_def bind_world_def)
    ultimately obtain calls where c: "grows w1 w2 calls" "still w1 w2" using send_all_spec by blast
    have g: "grows w w2 ([Read_State ?url raw] @ calls)" "still w w2"
      using grows_trans[OF read(1) c(1)] still_trans[OF read(2) c(2)] by blast+
    have "left_for_reason row ([Read_State ?url raw] @ calls)" using blocked unfolding left_for_reason_def by auto
    moreover have "w' = w2 \<or> w' = displaced_discard True ?url w2"
      using assms st blocked s by (cases said) (simp_all add: requeue_one_def Let_def bind_world_def)
    ultimately show ?thesis using only_left_still[OF g] only_left_discard[OF g] by blast
  next
    case free
    obtain c w2 where cc: "call_compatible pv ?url ?head (ps_body ps) w1 = (c, w2)" by fastforce
    have g: "grows w w2 [Read_State ?url raw]" "still w w2"
      using grows_trans[OF read(1)] still_trans[OF read(2)] call_effects(7)[OF cc] by auto
    show ?thesis
    proof (cases c)
      case (Inl e)
      then have "w' = w2" using assms st free cc by (simp add: requeue_one_def Let_def bind_world_def)
      then show ?thesis using only_left_still[OF g] by blast
    next
      case (Inr u)
      obtain r w3 where ec: "call_enqueue pv (qp_id (dp_pull row)) ?head w2 = (r, w3)" by fastforce
      have g3: "grows w w3 ([Read_State ?url raw] @ [Enqueued (qp_id (dp_pull row)) ?head r])" "still w w3"
        using grows_trans[OF g(1)] still_trans[OF g(2)] call_effects(3)[OF ec] by blast+
      show ?thesis
      proof (cases r)
        case (Inl e)
        then have "w' = w3" using assms st free cc ec \<open>c = Inr u\<close> by (simp add: requeue_one_def Let_def bind_world_def)
        then show ?thesis using only_left_still[OF g3] by blast
      next
        case (Inr v)
        then have "w' = displaced_discard True ?url w3" using assms st free cc ec \<open>c = Inr u\<close>
          by (simp add: requeue_one_def Let_def bind_world_def)
        moreover have "left_for_reason row ([Read_State ?url raw] @ [Enqueued (qp_id (dp_pull row)) ?head r])"
          using Inr by (simp add: left_for_reason_def)
        ultimately show ?thesis using only_left_discard[OF g3] by blast
      qed
    qed
  qed
qed

lemma retrying_spec:
  assumes "retrying pv tasks row reason w = (res, w')"
  shows "\<exists>calls. only_left w w' [] calls"
proof -
  let ?url = "qp_url (dp_pull row)"
  let ?claimants = "map ct_claimed_by (pull_owners tasks [?url])"
  show ?thesis
  proof (cases "dp_notified row \<or> ?claimants = []")
    case True
    then have "w' = w" using assms by (auto simp: retrying_def Let_def)
    then show ?thesis using only_left_still[OF grows_refl still_refl] by blast
  next
    case False
    obtain r w1 where s: "send_all pv ?claimants (''Your pull request '' @ ?url @ '' left the merge queue in a priority and could not be queued again: '' @
        reason @ ''. The swarm retries it at the end of the queue on every refresh until it is back or stays out for a reason.'') w = (r, w1)" by fastforce
    obtain calls where c: "grows w w1 calls" "still w w1" using send_all_spec[OF s] by blast
    have "w' = w1 \<or> w' = displaced_mark row w1"
      using assms s False by (cases r) (simp_all add: retrying_def Let_def split: if_splits)
    then show ?thesis using c by (auto simp: only_left_def displaced_mark_def grows_def still_def dhas_def dget_dset)
  qed
qed

lemma requeue_rows_spec: "requeue_rows pv tasks rows actions w = (res, w') \<Longrightarrow> \<exists>calls. only_left w w' rows calls"
proof (induction rows arbitrary: actions w)
  case Nil
  then show ?case using only_left_still[OF grows_refl still_refl] by auto
next
  case (Cons row rows)
  obtain one w1 where o: "requeue_one pv tasks row w = (one, w1)" by fastforce
  obtain calls1 where c1: "only_left w w1 [row] calls1" using requeue_one_spec[OF o] by blast
  have stop: "\<exists>calls. only_left w w2 (row # rows) calls" if "only_left w w2 [row] calls2" for w2 calls2
    using that unfolding only_left_def by auto
  show ?case
  proof (cases one)
    case (Inr said)
    then have "requeue_rows pv tasks rows (actions @ said) w1 = (res, w')" using Cons.prems o by simp
    from Cons.IH[OF this] show ?thesis using only_left_trans[OF c1] by fastforce
  next
    case (Inl e)
    show ?thesis
    proof (cases "swarm_fault e \<or> mail_fault e")
      case False
      then show ?thesis using Cons.prems o Inl stop[OF c1] by simp
    next
      case True
      obtain r w2 where rt: "retrying pv tasks row (fault_text e) w1 = (r, w2)" by fastforce
      obtain calls2 where "only_left w1 w2 [] calls2" using retrying_spec[OF rt] by blast
      then have c2: "only_left w w2 [row] (calls1 @ calls2)" using only_left_trans[OF c1] by fastforce
      show ?thesis
      proof (cases r)
        case (Inl e2)
        then have "w' = w2" using Cons.prems o \<open>one = Inl e\<close> True rt by (auto simp: bind_world_def)
        then show ?thesis using stop[OF c2] by simp
      next
        case (Inr u)
        then have "requeue_rows pv tasks rows
            (actions @ [''could not requeue '' @ qp_url (dp_pull row) @ '' after an interrupted priority: '' @ fault_text e]) w2 = (res, w')"
          using Cons.prems o \<open>one = Inl e\<close> True rt by (auto simp: bind_world_def)
        from Cons.IH[OF this] show ?thesis using only_left_trans[OF c2] by fastforce
      qed
    qed
  qed
qed

text \<open>
  A displaced pull request leaves the record for a reason only: a refresh read it as gone, closed, moved to
  another base or back in the queue, read it as a draft, at another head or in conflict, or queued it again at
  the head it had.
\<close>

theorem requeue_leaves_for_reason:
  assumes "requeue pv tasks w = (res, w')"
  shows "\<exists>calls. qw_calls w' = qw_calls w @ calls \<and>
    (\<forall>url. dhas (qw_displaced w) url \<longrightarrow> dhas (qw_displaced w') url \<or>
       (\<exists>row \<in> set (displaced_pulls w). qp_url (dp_pull row) = url \<and> left_for_reason row calls))"
proof -
  obtain calls where "only_left w w' (displaced_pulls w) calls" using requeue_rows_spec assms unfolding requeue_def by blast
  then show ?thesis unfolding only_left_def grows_def by metis
qed

text \<open>A stretch of calls that asks for no place in the queue.\<close>

definition unqueued :: "'p queue_world \<Rightarrow> 'p queue_world \<Rightarrow> bool" where
  "unqueued w w' \<longleftrightarrow> (\<exists>cs. grows w w' cs \<and> (\<forall>pid head r. Enqueued pid head r \<notin> set cs))"

lemma unqueued_refl [simp, intro]: "unqueued w w"
  unfolding unqueued_def by (intro exI[of _ "[]"]) simp

lemma unqueued_trans: "unqueued a b \<Longrightarrow> unqueued b c \<Longrightarrow> unqueued a c"
  unfolding unqueued_def by (elim exE conjE, intro exI conjI, erule (1) grows_trans) auto

lemma unqueued_one: "grows w w' [c] \<Longrightarrow> (\<forall>pid head r. c \<noteq> Enqueued pid head r) \<Longrightarrow> unqueued w w'"
  unfolding unqueued_def by (intro exI[of _ "[c]"]) auto

lemma unqueued_none: "grows w w' [] \<Longrightarrow> unqueued w w'"
  unfolding unqueued_def by (intro exI[of _ "[]"]) auto

lemma unqueued_calls:
  "call_state pv url w = (r, w') \<Longrightarrow> unqueued w w'"
  "call_checks pv url w = (r1, w') \<Longrightarrow> unqueued w w'"
  "call_dequeue pv pid w = (r2, w') \<Longrightarrow> unqueued w w'"
  "call_merge pv pid head w = (r3, w') \<Longrightarrow> unqueued w w'"
  "call_compatible pv url head body w = (r2, w') \<Longrightarrow> unqueued w w'"
      apply (erule call_effects(1)[THEN conjunct1, THEN unqueued_one], simp)
     apply (erule call_effects(2)[THEN conjunct1, THEN unqueued_one], simp)
    apply (erule call_effects(4)[THEN conjunct1, THEN unqueued_one], simp)
   apply (erule call_effects(5)[THEN conjunct1, THEN unqueued_one], simp)
  by (erule call_effects(7)[THEN conjunct1, THEN unqueued_none])

lemma unqueued_bind:
  assumes "bind_world r f = (res, w')" and "\<And>a w1. r = (a, w1) \<Longrightarrow> unqueued w w1"
    and "\<And>a w1. r = (Inr a, w1) \<Longrightarrow> f a w1 = (res, w') \<Longrightarrow> unqueued w1 w'"
  shows "unqueued w w'"
proof -
  obtain a w1 where r: "r = (a, w1)" by fastforce
  show ?thesis
  proof (cases a)
    case (Inl e)
    then show ?thesis using assms(1,2) r by (simp add: bind_world_def)
  next
    case (Inr b)
    then have "f b w1 = (res, w')" using assms(1) r by (simp add: bind_world_def)
    then show ?thesis using assms(2)[OF r] assms(3)[of b w1] r Inr unqueued_trans by blast
  qed
qed

lemma unqueued_state: "some_state raw w = (ps, w') \<Longrightarrow> unqueued w w'"
  by (auto simp: some_state_def split: option.splits)

lemma unqueued_settle: "settle_merge pv url head n status w = (res, w') \<Longrightarrow> unqueued w w'"
proof (induction n arbitrary: status w)
  case 0
  then show ?case by (auto simp: queue_error_def)
next
  case (Suc n)
  show ?case
  proof (rule unqueued_bind[OF Suc.prems[unfolded settle_merge.simps]])
    fix a w1
    assume "readable_view pv url w = (a, w1)"
    then show "unqueued w w1"
      by (cases "call_checks pv url w") (auto simp: readable_view_def split: sum.splits if_splits intro: unqueued_calls)
  next
    fix found w1
    assume rest: "(case found of
        Some v \<Rightarrow> if vw_head v \<noteq> head \<or> vw_red v then (refuse_checks (Some v), w1)
          else if vw_resolved v then (Inr (), w1) else settle_merge pv url head n status w1
      | None \<Rightarrow> bind_world (call_state pv url w1) (\<lambda>raw w2. bind_world (some_state raw w2) (\<lambda>ps w3.
            if ps_head ps \<noteq> head then (queue_error ''the pull request head moved; merge the new head once its checks pass'', w3)
            else if ps_merge_state ps \<in> set mergeable_states then (Inr (), w3)
            else if ps_merge_state ps = ''DIRTY''
            then (queue_error ''the pull request conflicts with dev; merge dev into it before merging'', w3)
            else settle_merge pv url head n (ps_merge_state ps) w3))) = (res, w')"
    show "unqueued w1 w'"
    proof (cases found)
      case (Some v)
      then show ?thesis using rest Suc.IH[of status w1] by (auto split: if_splits)
    next
      case None
      show ?thesis
      proof (rule unqueued_bind[OF rest[unfolded None option.case]])
        show "unqueued w1 w2" if "call_state pv url w1 = (a, w2)" for a w2 using that by (rule unqueued_calls)
      next
        fix raw w2
        assume state: "bind_world (some_state raw w2) (\<lambda>ps w3.
            if ps_head ps \<noteq> head then (queue_error ''the pull request head moved; merge the new head once its checks pass'', w3)
            else if ps_merge_state ps \<in> set mergeable_states then (Inr (), w3)
            else if ps_merge_state ps = ''DIRTY''
            then (queue_error ''the pull request conflicts with dev; merge dev into it before merging'', w3)
            else settle_merge pv url head n (ps_merge_state ps) w3) = (res, w')"
        show "unqueued w2 w'"
        proof (rule unqueued_bind[OF state])
          show "unqueued w2 w3" if "some_state raw w2 = (a, w3)" for a w3 using that by (rule unqueued_state)
        next
          fix ps w3
          assume last: "(if ps_head ps \<noteq> head then (queue_error ''the pull request head moved; merge the new head once its checks pass'', w3)
            else if ps_merge_state ps \<in> set mergeable_states then (Inr (), w3)
            else if ps_merge_state ps = ''DIRTY''
            then (queue_error ''the pull request conflicts with dev; merge dev into it before merging'', w3)
            else settle_merge pv url head n (ps_merge_state ps) w3) = (res, w')"
          show "unqueued w3 w'" using last Suc.IH[of "ps_merge_state ps" w3] by (simp split: if_splits)
        qed
      qed
    qed
  qed
qed

lemma operate_queue_spec:
  assumes "operate_queue pv url admit attempts ps w = (res, w')"
  shows "unqueued w w' \<or> (\<exists>v w1 w2 r. unqueued w w1 \<and> grows w1 w2 [Read_Checks url (Inr (Some v))] \<and>
    grows w2 w' [Enqueued (ps_id ps) (ps_head ps) r] \<and> admit (ps_head ps) = None \<and> vw_head v = ps_head ps \<and> vw_resolved v \<and> \<not> vw_red v)"
proof -
  obtain c w1 where cc: "call_compatible pv url (ps_head ps) (ps_body ps) w = (c, w1)" by fastforce
  note u1 = unqueued_calls(5)[OF cc]
  show ?thesis
  proof (cases "\<exists>u. c = Inr u \<and> admit (ps_head ps) = None")
    case False
    then have "w' = w1" using assms cc by (auto simp: operate_queue_def bind_world_def split: sum.splits option.splits)
    then show ?thesis using u1 by simp
  next
    case True
    then obtain u where c: "c = Inr u" and adm: "admit (ps_head ps) = None" by blast
    show ?thesis
    proof (cases "ps_has_queue ps")
      case False
      have "unqueued w1 w'"
      proof (cases "ps_draft ps \<or> (ps_review ps \<noteq> None \<and> ps_review ps \<noteq> Some ''APPROVED'')")
        case True
        then show ?thesis using assms cc c adm False by (auto simp: operate_queue_def bind_world_def)
      next
        case ready: False
        have "operate_queue pv url admit attempts ps w =
            bind_world (settle_merge pv url (ps_head ps) attempts ''PENDING'' w1) (\<lambda>_ w2.
            bind_world (squash_merge pv ps w2) (\<lambda>oid w3. (Inr (Some oid), w3)))"
          unfolding operate_queue_def cc c bind_world_def[of "(Inr _, _)"] prod.case sum.case adm option.case if_P[OF False] if_not_P[OF ready] ..
        then have "bind_world (settle_merge pv url (ps_head ps) attempts ''PENDING'' w1) (\<lambda>_ w2.
            bind_world (squash_merge pv ps w2) (\<lambda>oid w3. (Inr (Some oid), w3))) = (res, w')"
          using assms by simp
        then show ?thesis
        proof (rule unqueued_bind)
          show "unqueued w1 w2" if "settle_merge pv url (ps_head ps) attempts ''PENDING'' w1 = (a, w2)" for a w2
            using that by (rule unqueued_settle)
          show "unqueued w2 w'" if "bind_world (squash_merge pv ps w2) (\<lambda>oid w3. (Inr (Some oid), w3)) = (res, w')" for w2
            using that
          proof (rule unqueued_bind)
            show "unqueued w2 w3" if "squash_merge pv ps w2 = (a, w3)" for a w3
              using that by (cases "call_merge pv (ps_id ps) (ps_head ps) w2")
                (auto simp: squash_merge_def split: sum.splits intro: unqueued_calls)
          qed auto
        qed
      qed
      then show ?thesis using unqueued_trans[OF u1] by blast
    next
      case True
      obtain g w2 where rg: "require_green pv url (ps_head ps) w1 = (g, w2)" by fastforce
      obtain found where f: "grows w1 w2 [Read_Checks url found]"
        "g = Inr () \<longrightarrow> (\<exists>v. found = Inr (Some v) \<and> vw_head v = ps_head ps \<and> vw_resolved v \<and> \<not> vw_red v)"
        using require_green_spec[OF rg] by blast
      show ?thesis
      proof (cases g)
        case (Inl e)
        then have "w' = w2" using assms cc c adm True rg by (simp add: operate_queue_def bind_world_def)
        then show ?thesis using unqueued_trans[OF u1 unqueued_one[OF f(1)]] by simp
      next
        case (Inr x)
        obtain r w3 where e: "call_enqueue pv (ps_id ps) (ps_head ps) w2 = (r, w3)" by fastforce
        have "w' = w3" using assms cc c adm True rg Inr e by (cases r) (simp_all add: operate_queue_def bind_world_def)
        then have "grows w2 w' [Enqueued (ps_id ps) (ps_head ps) r]" using call_effects(3)[OF e] by simp
        then show ?thesis using u1 f Inr adm by auto
      qed
    qed
  qed
qed

text \<open>
  C11: A pull request is queued on its own merits: \<open>operate\<close> on one pull request asks for the merge queue only when told to queue, only
  for a pull request into dev it read as outside the queue, at the head it read and the caller admitted, and
  after the required checks of that very head were read as resolved and not red.
\<close>

theorem queued_only_green:
  assumes "operate_pull pv action url admit attempts w = (res, w')" and "qw_calls w' = qw_calls w @ calls"
    and "Enqueued pid head r \<in> set calls"
  shows "action = ''queue'' \<and> admit head = None \<and>
    (\<exists>ps v. Read_State url (Inr (Some ps)) \<in> set calls \<and> ps_id ps = pid \<and> ps_head ps = head \<and> ps_base ps = ''dev'' \<and> ps_entry ps = None \<and>
       Read_Checks url (Inr (Some v)) \<in> set calls \<and> vw_head v = head \<and> vw_resolved v \<and> \<not> vw_red v)"
proof -
  obtain raw w1 where st: "call_state pv url w = (raw, w1)" by fastforce
  have read: "grows w w1 [Read_State url raw]" using call_effects(1)[OF st] by blast
  have later: "unqueued wa wb"
    if "bind_world (call_state pv url wa) (\<lambda>raw2 w3. bind_world (some_state raw2 w3) (\<lambda>ps2 w4. (Inr (f ps2), w4))) = (out, wb)"
    for wa wb f and out :: "fault + queue_report"
  proof -
    obtain raw2 w3 where c: "call_state pv url wa = (raw2, w3)" by fastforce
    then have "wb = w3" using that by (auto simp: bind_world_def some_state_def split: sum.splits option.splits)
    then show ?thesis using unqueued_calls(1)[OF c] by simp
  qed
  have own: "qw_calls w' = qw_calls w @ cs \<Longrightarrow> calls = cs" for cs using assms(2) by simp
  show ?thesis
  proof (cases "\<exists>ps. raw = Inr (Some ps) \<and> action = ''queue'' \<and> ps_base ps = ''dev'' \<and> ps_entry ps = None")
    case False
    have "unqueued w1 w'"
    proof (cases "\<exists>ps. raw = Inr (Some ps) \<and> action = ''dequeue'' \<and> ps_base ps = ''dev''")
      case True
      then obtain ps where ps: "raw = Inr (Some ps)" "action = ''dequeue''" "ps_base ps = ''dev''" by blast
      obtain d w2 where dq: "call_dequeue pv (ps_id ps) w1 = (d, w2)" by fastforce
      note out_of_queue = unqueued_calls(3)[OF dq]
      show ?thesis
      proof (cases d)
        case (Inl e)
        then have "w' = w2" using assms(1) st ps dq by (simp add: operate_pull_def bind_world_def)
        then show ?thesis using out_of_queue by simp
      next
        case (Inr u)
        then have "bind_world (call_state pv url w2) (\<lambda>raw2 w3. bind_world (some_state raw2 w3) (\<lambda>ps2 w4. (Inr (report_of ps2 None), w4))) = (res, w')"
          using assms(1) st ps dq by (simp add: operate_pull_def bind_world_def[of "(Inr _, _)"])
        from later[OF this] show ?thesis by (rule unqueued_trans[OF out_of_queue])
      qed
    next
      case no_dequeue: False
      then have "w' = w1" using assms(1) st False
        by (auto simp: operate_pull_def bind_world_def[of "(_, w1)"] split: sum.splits option.splits if_splits)
      then show ?thesis by simp
    qed
    then obtain cs where cs: "grows w1 w' cs" "\<forall>pid head r. Enqueued pid head r \<notin> set cs" unfolding unqueued_def by blast
    have "calls = [Read_State url raw] @ cs" using grows_trans[OF read cs(1)] own by (simp add: grows_def)
    then show ?thesis using assms(3) cs(2) by auto
  next
    case True
    then obtain ps where ps: "raw = Inr (Some ps)" "action = ''queue''" "ps_base ps = ''dev''" "ps_entry ps = None" by blast
    obtain out w2 where oq: "operate_queue pv url admit attempts ps w1 = (out, w2)" by fastforce
    have merits: "\<exists>cs. grows w1 w2 cs \<and> (\<forall>pid head r. Enqueued pid head r \<in> set cs \<longrightarrow> pid = ps_id ps \<and> head = ps_head ps \<and> admit head = None \<and>
        (\<exists>v. Read_Checks url (Inr (Some v)) \<in> set cs \<and> vw_head v = head \<and> vw_resolved v \<and> \<not> vw_red v))"
      using operate_queue_spec[OF oq]
    proof (elim disjE exE conjE)
      assume "unqueued w1 w2"
      then show ?thesis unfolding unqueued_def by blast
    next
      fix v wa wb r
      assume "unqueued w1 wa" and green: "grows wa wb [Read_Checks url (Inr (Some v))]" "vw_head v = ps_head ps" "vw_resolved v" "\<not> vw_red v"
        and last: "grows wb w2 [Enqueued (ps_id ps) (ps_head ps) r]" "admit (ps_head ps) = None"
      then obtain cs where "grows w1 wa cs" "\<forall>pid head r. Enqueued pid head r \<notin> set cs" unfolding unqueued_def by blast
      then show ?thesis using grows_trans[OF grows_trans[OF _ green(1)] last(1)] green last
        by (intro exI[of _ "(cs @ [Read_Checks url (Inr (Some v))]) @ [Enqueued (ps_id ps) (ps_head ps) r]"]) auto
    qed
    then obtain cs where cs: "grows w1 w2 cs" "\<And>pid head r. Enqueued pid head r \<in> set cs \<Longrightarrow> pid = ps_id ps \<and> head = ps_head ps \<and> admit head = None \<and>
        (\<exists>v. Read_Checks url (Inr (Some v)) \<in> set cs \<and> vw_head v = head \<and> vw_resolved v \<and> \<not> vw_red v)" by blast
    have "unqueued w2 w'"
    proof (cases out)
      case (Inl e)
      then have "w' = w2" using assms(1) st ps oq by (simp add: operate_pull_def bind_world_def)
      then show ?thesis by simp
    next
      case (Inr merged)
      then have "bind_world (call_state pv url w2) (\<lambda>raw2 w3. bind_world (some_state raw2 w3) (\<lambda>ps2 w4. (Inr (report_of ps2 merged), w4))) = (res, w')"
        using assms(1) st ps oq by (simp add: operate_pull_def bind_world_def[of "(Inr _, _)"])
      from later[OF this] show ?thesis .
    qed
    then obtain more where more: "grows w2 w' more" "\<forall>pid head r. Enqueued pid head r \<notin> set more" unfolding unqueued_def by blast
    have "calls = ([Read_State url raw] @ cs) @ more" using grows_trans[OF grows_trans[OF read cs(1)] more(1)] own by (simp add: grows_def)
    then have "Enqueued pid head r \<in> set cs" using assms(3) more(2) by auto
    from cs(2)[OF this] show ?thesis using ps \<open>calls = ([Read_State url raw] @ cs) @ more\<close> by auto
  qed
qed


section \<open>At a concrete provider\<close>

text \<open>
  A provider of two pull requests: its state is the ids queued, it refuses to queue the id \<open>''B''\<close>, and every
  pull request is at head \<open>''h''\<close> with green checks.
\<close>

definition two_pulls :: "string list provider" where
  "two_pulls = \<lparr>
    pv_state = (\<lambda>url q. (Inr (Some \<lparr>ps_id = url, ps_state = ''OPEN'', ps_head = ''h'', ps_base = ''dev'',
      ps_entry = (if url \<in> set q then Some ''QUEUED'' else None), ps_draft = False, ps_mergeable = ''MERGEABLE'',
      ps_merge_state = ''CLEAN'', ps_review = None, ps_has_queue = True, ps_body = ''''\<rparr>), q)),
    pv_checks = (\<lambda>url q. (Inr (Some \<lparr>vw_head = ''h'', vw_resolved = True, vw_red = False, vw_failed = []\<rparr>), q)),
    pv_enqueue = (\<lambda>pid head q. if pid = ''B'' then (Inl (Swarm_Error ''refused''), q) else (Inr (), q @ [pid])),
    pv_dequeue = (\<lambda>pid q. (Inr (), filter (\<lambda>x. x \<noteq> pid) q)),
    pv_merge = (\<lambda>pid head q. (Inr None, q)),
    pv_waiting = (\<lambda>url q. (Inr [(''QUEUED'', \<lparr>qp_id = ''B'', qp_url = ''B'', qp_head = ''h''\<rparr>)], q)),
    pv_compatible = (\<lambda>url head body q. (Inr (), q)),
    pv_send = (\<lambda>receiver message q. (Inr (), q))\<rparr>"

definition queue_of :: "string list \<Rightarrow> string list queue_world" where
  "queue_of q = \<lparr>qw_provider = q, qw_displaced = [], qw_order = 0, qw_calls = []\<rparr>"

definition displaced_b :: "string list queue_world" where
  "displaced_b = snd (prioritize two_pulls True ''A'' [] (queue_of [''B'']))"

lemmas two_pulls_eval = two_pulls_def queue_of_def displaced_b_def prioritize_def operate_pull_def operate_queue_def bind_world_def
  call_defs call_compatible_def require_green_def waiting_around_def move_front_def displace_def displaced_add_def
  displaced_discard_def queue_target_def some_state_def restore_one_def swarm_fault_def requeue_def displaced_pulls_def
  requeue_one_def pull_settled_def pull_blocker_def mail_fault_def retrying_def pull_owners_def Let_def

lemma displaced_not_lost_witness:
  "\<exists>res. prioritize two_pulls True ''A'' [] (queue_of [''B'']) = (Inr res, displaced_b) \<and> dhas (qw_displaced displaced_b) ''B'' \<and>
    (\<exists>calls. qw_calls displaced_b = calls \<and> dequeues calls = {''B''} \<and> nothing_lost (listed calls) (queue_of [''B'']) displaced_b)"
proof -
  obtain res where run: "prioritize two_pulls True ''A'' [] (queue_of [''B'']) = (Inr res, displaced_b)"
    by (simp add: two_pulls_eval)
  have lost: "dhas (qw_displaced displaced_b) ''B''" "dequeues (qw_calls displaced_b) = {''B''}"
    by (simp_all add: two_pulls_eval dhas_def)
  have "distinct (map (qp_url \<circ> snd) nodes)" if "pv_waiting two_pulls ''A'' p = (Inr nodes, p')" for p nodes p'
    using that by (auto simp: two_pulls_def)
  from displaced_not_lost[OF this run] show ?thesis using run lost by (auto simp: queue_of_def)
qed

lemma requeue_leaves_for_reason_witness:
  "let w = displaced_b\<lparr>qw_provider := [''B'']\<rparr>; w' = snd (requeue two_pulls [] w)
   in dhas (qw_displaced w) ''B'' \<and> \<not> dhas (qw_displaced w') ''B'' \<and>
      (\<exists>calls. qw_calls w' = qw_calls w @ calls \<and>
        (\<exists>row \<in> set (displaced_pulls w). qp_url (dp_pull row) = ''B'' \<and> left_for_reason row calls))"
proof -
  let ?w = "displaced_b\<lparr>qw_provider := [''B'']\<rparr>"
  obtain res w' where run: "requeue two_pulls [] ?w = (res, w')" by fastforce
  have there: "dhas (qw_displaced ?w) ''B''" by (simp add: two_pulls_eval dhas_def)
  have "\<not> dhas (qw_displaced (snd (requeue two_pulls [] ?w))) ''B''" by (simp add: two_pulls_eval dhas_def)
  then have gone: "\<not> dhas (qw_displaced w') ''B''" unfolding run snd_conv .
  obtain calls where c: "qw_calls w' = qw_calls ?w @ calls" "\<forall>url. dhas (qw_displaced ?w) url \<longrightarrow> dhas (qw_displaced w') url \<or>
      (\<exists>row \<in> set (displaced_pulls ?w). qp_url (dp_pull row) = url \<and> left_for_reason row calls)"
    using requeue_leaves_for_reason[OF run] by (elim exE conjE)
  show ?thesis unfolding Let_def run snd_conv using there gone c(1) c(2)[rule_format, OF there] by blast
qed

lemma queued_only_green_witness:
  "\<exists>calls. qw_calls (snd (operate_pull two_pulls ''queue'' ''A'' (\<lambda>_. None) 3 (queue_of []))) = calls \<and> Enqueued ''A'' ''h'' (Inr ()) \<in> set calls \<and>
    (\<exists>v. Read_Checks ''A'' (Inr (Some v)) \<in> set calls \<and> vw_head v = ''h'' \<and> vw_resolved v)"
proof -
  obtain res w' where run: "operate_pull two_pulls ''queue'' ''A'' (\<lambda>_. None) 3 (queue_of []) = (res, w')" by fastforce
  then have asked: "Enqueued ''A'' ''h'' (Inr ()) \<in> set (qw_calls w')" by (auto simp: two_pulls_eval)
  show ?thesis using queued_only_green[OF run _ asked] run asked by (auto simp: queue_of_def)
qed

end
