(* ===== verification/Seats.thy ===== *)
theory Seats
  imports Naming Watch_Loop Text_Tools
begin

text \<open>
  The seats of a swarm (\<open>scripts/inbox/seats.py\<close>): addresses that outlive their occupants. Taking a seat bumps its
  generation and appends to its history in one optimistic transaction; an exit is recorded once per occupancy; notes
  learned on a seat rise in maturity and are retired, never rewritten. The registry of names is a parameter:
  \<open>resolve\<close> follows an alias, \<open>slug_of\<close> gives the swarm of a name.
\<close>

record occupancy =
  oc_occupant :: string
  oc_generation :: int

record seat_entry =
  te_generation :: int
  te_occupant :: string
  te_at :: int
  te_event :: "(string \<times> string) option"

record seat_exit =
  tx_seat :: string
  tx_reason :: string
  tx_generation :: int

record promotion =
  pm_from :: string
  pm_to :: string
  pm_by :: string
  pm_reason :: string
  pm_at :: int

record learned_note =
  ln_occupant :: string
  ln_text :: string
  ln_at :: int
  ln_maturity :: string
  ln_promotions :: "promotion list"
  ln_retired :: "(string \<times> string \<times> int) option"

text \<open>The keys of the registry; an absent hash is the empty occupancy, an absent string the empty one.\<close>

record seats =
  st_held :: "string \<Rightarrow> occupancy"
  st_history :: "string \<Rightarrow> seat_entry list"
  st_of :: "string \<Rightarrow> string"
  st_exit :: "string \<Rightarrow> seat_exit option"
  st_legacy :: "string \<Rightarrow> string list"
  st_learned :: "string \<Rightarrow> learned_note list"

definition no_occupant :: occupancy where
  "no_occupant = \<lparr>oc_occupant = '''', oc_generation = 0\<rparr>"

definition no_seats :: seats where
  "no_seats = \<lparr>st_held = \<lambda>_. no_occupant, st_history = \<lambda>_. [], st_of = \<lambda>_. '''', st_exit = \<lambda>_. None,
    st_legacy = \<lambda>_. [], st_learned = \<lambda>_. []\<rparr>"

definition seat_address :: "string \<Rightarrow> string \<Rightarrow> string" where
  "seat_address slug seat = seat @ ''@'' @ slug"

text \<open>\<open>address.split("@", 1)[1]\<close> of an address with an at sign.\<close>

definition after_at :: "string \<Rightarrow> string" where
  "after_at address = tl (dropWhile (\<lambda>ch. ch \<noteq> CHR ''@'') address)"

definition master_of :: "(string \<Rightarrow> string) \<Rightarrow> string \<Rightarrow> string" where
  "master_of slug_of address =
    (if is_seat address then seat_address (after_at address) ''master''
     else if slug_of address \<noteq> '''' then seat_address (slug_of address) ''master'' else '''')"

section \<open>Taking a seat\<close>

definition occupy_writes :: "string \<Rightarrow> string \<Rightarrow> int \<Rightarrow> int \<Rightarrow> seats \<Rightarrow> seats" where
  "occupy_writes address occupant at_ms generation st =
    st\<lparr>st_held := (st_held st)(address := \<lparr>oc_occupant = occupant, oc_generation = generation\<rparr>),
       st_history := (st_history st)(address := st_history st address @
         [\<lparr>te_generation = generation, te_occupant = occupant, te_at = at_ms, te_event = None\<rparr>]),
       st_of := (st_of st)(occupant := address),
       st_legacy := (if legacy_slug occupant = '''' then st_legacy st
         else (st_legacy st)(legacy_slug occupant := List.insert occupant (st_legacy st (legacy_slug occupant))))\<rparr>"

definition seat_occupy_decide :: "string \<Rightarrow> string \<Rightarrow> int \<Rightarrow> seats \<Rightarrow> fault + int \<times> (seats \<Rightarrow> seats) option" where
  "seat_occupy_decide address occupant at_ms st =
    (let generation = oc_generation (st_held st address) + 1
     in Inr (generation, Some (occupy_writes address occupant at_ms generation)))"

definition occupy_attempts :: nat where "occupy_attempts = 5"

definition seat_occupy :: "string \<Rightarrow> string \<Rightarrow> int \<Rightarrow> (seats \<Rightarrow> seats) list \<Rightarrow> seats \<Rightarrow> (fault + int) \<times> seats" where
  "seat_occupy address occupant at_ms others st =
    (case watch_loop (\<lambda>st. st_held st address) (seat_occupy_decide address occupant at_ms) (take occupy_attempts others) st of
      (Inl _, st') \<Rightarrow> (Inl (Runtime_Error (''seat '' @ address @ '' kept changing; '' @ occupant @ '' could not take it'')), st')
    | (Inr generation, st') \<Rightarrow> (Inr generation, st'))"

section \<open>Who holds a seat\<close>

definition seat_of :: "(string \<Rightarrow> string) \<Rightarrow> seats \<Rightarrow> string \<Rightarrow> string" where
  "seat_of resolve st name =
    (let name = resolve name; address = st_of st name
     in if address \<noteq> '''' \<and> oc_occupant (st_held st address) = name then address else '''')"

definition seat_recipient :: "(string \<Rightarrow> string) \<Rightarrow> seats \<Rightarrow> string \<Rightarrow> string" where
  "seat_recipient resolve st address =
    (let address = resolve address
     in if lane_of address = ''master'' then (if seat_of resolve st address \<noteq> '''' then seat_of resolve st address else address)
        else address)"

definition known_seat :: "seats \<Rightarrow> string \<Rightarrow> string" where
  "known_seat st name = st_of st name"

definition record_exit :: "string \<Rightarrow> string \<Rightarrow> string \<Rightarrow> seats \<Rightarrow> seats" where
  "record_exit name seat reason st =
    (let held = known_seat st name;
         generation = (if held \<noteq> '''' then oc_generation (st_held st held) else 0);
         replace = (case st_exit st name of None \<Rightarrow> False | Some earlier \<Rightarrow> tx_generation earlier \<noteq> generation)
     in if replace \<or> st_exit st name = None
        then st\<lparr>st_exit := (st_exit st)(name := Some \<lparr>tx_seat = seat, tx_reason = reason, tx_generation = generation\<rparr>)\<rparr>
        else st)"

definition seat_left :: "seats \<Rightarrow> string \<Rightarrow> string \<Rightarrow> bool" where
  "seat_left st name seat =
    (case st_exit st name of None \<Rightarrow> False | Some e \<Rightarrow> tx_generation e = oc_generation (st_held st seat))"

definition seat_note :: "string \<Rightarrow> string \<Rightarrow> string \<Rightarrow> int \<Rightarrow> seats \<Rightarrow> seats" where
  "seat_note address event detail at_ms st =
    st\<lparr>st_history := (st_history st)(address := st_history st address @
      [\<lparr>te_generation = oc_generation (st_held st address), te_occupant = oc_occupant (st_held st address),
        te_at = at_ms, te_event = Some (event, detail)\<rparr>])\<rparr>"

section \<open>What a seat learned\<close>

definition maturities :: "string list" where
  "maturities = [''data'', ''note'', ''insight'', ''canon'']"

definition rank :: "string \<Rightarrow> nat" where
  "rank maturity = length (takeWhile (\<lambda>m. m \<noteq> maturity) maturities)"

definition learn :: "string \<Rightarrow> string \<Rightarrow> string \<Rightarrow> int \<Rightarrow> string \<Rightarrow> seats \<Rightarrow> fault + seats" where
  "learn address occupant txt at_ms maturity st =
    (if maturity \<notin> set maturities then Inl (Runtime_Error ''maturity'')
     else Inr (st\<lparr>st_learned := (st_learned st)(address := st_learned st address @
       [\<lparr>ln_occupant = occupant, ln_text = txt, ln_at = at_ms, ln_maturity = maturity, ln_promotions = [], ln_retired = None\<rparr>])\<rparr>))"

text \<open>\<open>redis.lindex(key, number - 1) if number > 0 else None\<close>\<close>

definition numbered :: "learned_note list \<Rightarrow> int \<Rightarrow> learned_note option" where
  "numbered notes number = (if number > 0 \<and> nat (number - 1) < length notes then Some (notes ! nat (number - 1)) else None)"

definition promote :: "string \<Rightarrow> int \<Rightarrow> string \<Rightarrow> string \<Rightarrow> string \<Rightarrow> int \<Rightarrow> seats \<Rightarrow> fault + seats" where
  "promote address number maturity by reason at_ms st =
    (if maturity \<notin> set maturities then Inl (Runtime_Error ''maturity'')
     else case numbered (st_learned st address) number of
       None \<Rightarrow> Inl (Runtime_Error ''no learned note'')
     | Some note \<Rightarrow>
         if ln_maturity note \<notin> set maturities then Inl (Value_Error ''tuple.index(x): x not in tuple'')
         else if rank maturity \<le> rank (ln_maturity note) then Inl (Runtime_Error ''promote only raises it'')
         else if py_strip reason = '''' then Inl (Runtime_Error ''a promotion needs a reason'')
         else Inr (st\<lparr>st_learned := (st_learned st)(address := (st_learned st address)[nat (number - 1) :=
           note\<lparr>ln_maturity := maturity, ln_promotions := ln_promotions note @
             [\<lparr>pm_from = ln_maturity note, pm_to = maturity, pm_by = by, pm_reason = reason, pm_at = at_ms\<rparr>]\<rparr>])\<rparr>))"

definition retire_note :: "string \<Rightarrow> int \<Rightarrow> string \<Rightarrow> string \<Rightarrow> int \<Rightarrow> seats \<Rightarrow> fault + seats" where
  "retire_note address number by reason at_ms st =
    (case numbered (st_learned st address) number of
       None \<Rightarrow> Inl (Runtime_Error ''no learned note'')
     | Some note \<Rightarrow>
         if ln_retired note \<noteq> None then Inl (Runtime_Error ''already retired'')
         else if py_strip reason = '''' then Inl (Runtime_Error ''a retirement needs a reason'')
         else Inr (st\<lparr>st_learned := (st_learned st)(address := (st_learned st address)[nat (number - 1) :=
           note\<lparr>ln_retired := Some (by, reason, at_ms)\<rparr>])\<rparr>))"


section \<open>Generations are counted\<close>

definition occupations :: "seats \<Rightarrow> string \<Rightarrow> seat_entry list" where
  "occupations st address = filter (\<lambda>entry. te_event entry = None) (st_history st address)"

definition seat_counted :: "seats \<Rightarrow> string \<Rightarrow> bool" where
  "seat_counted st address \<longleftrightarrow>
    map te_generation (occupations st address) = map (\<lambda>i. int i + 1) [0..<length (occupations st address)] \<and>
    st_held st address = (if occupations st address = [] then no_occupant
      else \<lparr>oc_occupant = te_occupant (last (occupations st address)), oc_generation = int (length (occupations st address))\<rparr>)"

text \<open>What the processes of the program do to the registry, one transaction at a time.\<close>

inductive seat_step :: "seats \<Rightarrow> seats \<Rightarrow> bool" where
  occupied: "seat_occupy_decide address occupant at_ms st = Inr (generation, Some writes) \<Longrightarrow> seat_step st (writes st)"
| exited: "seat_step st (record_exit name seat reason st)"
| noted: "seat_step st (seat_note address event detail at_ms st)"
| learned: "learn address occupant txt at_ms maturity st = Inr st' \<Longrightarrow> seat_step st st'"
| promoted: "promote address number maturity by reason at_ms st = Inr st' \<Longrightarrow> seat_step st st'"
| retired: "retire_note address number by reason at_ms st = Inr st' \<Longrightarrow> seat_step st st'"

lemma learned_notes_only:
  "learn address occupant txt at_ms maturity st = Inr st' \<Longrightarrow> \<exists>notes. st' = st\<lparr>st_learned := notes\<rparr>"
  "promote address number maturity by reason at_ms st = Inr st' \<Longrightarrow> \<exists>notes. st' = st\<lparr>st_learned := notes\<rparr>"
  "retire_note address number by reason at_ms st = Inr st' \<Longrightarrow> \<exists>notes. st' = st\<lparr>st_learned := notes\<rparr>"
  by (auto simp: learn_def promote_def retire_note_def split: if_splits option.splits)

lemma seat_counted_learned [simp]: "seat_counted (st\<lparr>st_learned := notes\<rparr>) address = seat_counted st address"
  by (simp add: seat_counted_def occupations_def)

lemma seat_counted_step: "seat_step st st' \<Longrightarrow> seat_counted st address \<Longrightarrow> seat_counted st' address"
proof (induction rule: seat_step.induct)
  case (occupied addr occupant at_ms st generation writes)
  then show ?case
    by (cases "addr = address") (auto simp: seat_occupy_decide_def occupy_writes_def Let_def seat_counted_def occupations_def no_occupant_def)
next
  case (exited st name seat reason)
  then show ?case by (simp add: record_exit_def seat_counted_def occupations_def Let_def)
next
  case (noted st addr event detail at_ms)
  then show ?case by (cases "addr = address") (auto simp: seat_note_def seat_counted_def occupations_def)
qed (auto dest!: learned_notes_only)

lemma seats_counted: "seat_step\<^sup>*\<^sup>* no_seats st \<Longrightarrow> seat_counted st address"
proof (induction rule: rtranclp_induct)
  case base
  then show ?case by (simp add: seat_counted_def occupations_def no_seats_def)
next
  case (step st1 st2)
  show ?case by (rule seat_counted_step[OF step.hyps(2) step.IH])
qed

interpretation occupying: watched_client "\<lambda>st. st_held st address" "seat_occupy_decide address occupant at_ms" seat_step
  for address occupant at_ms
  by unfold_locales (simp add: seat_occupy_decide_def Let_def)

text \<open>An entry of the history stays, and its place with it.\<close>

lemma seat_history_grows: "seat_step st st' \<Longrightarrow> \<exists>more. occupations st' address = occupations st address @ more"
proof (induction rule: seat_step.induct)
  case (occupied addr occupant at_ms st generation writes)
  then show ?case by (cases "addr = address") (auto simp: seat_occupy_decide_def occupy_writes_def Let_def occupations_def)
next
  case (exited st name seat reason)
  then show ?case by (simp add: record_exit_def occupations_def Let_def)
next
  case (noted st addr event detail at_ms)
  then show ?case by (cases "addr = address") (auto simp: seat_note_def occupations_def)
qed (auto dest!: learned_notes_only simp: occupations_def)

lemma seat_histories_grow: "seat_step\<^sup>*\<^sup>* st st' \<Longrightarrow> \<exists>more. occupations st' address = occupations st address @ more"
proof (induction rule: rtranclp_induct)
  case (step st1 st2)
  then show ?case using seat_history_grows[OF step.hyps(2), of address] by force
qed simp

text \<open>
  C19: A generation of a seat is one occupancy: the generation a taker was given is recorded once in the history of the
  seat, under that taker, and never again, whatever is done to the seats later.
\<close>

theorem generation_taken_once:
  assumes "seat_step\<^sup>*\<^sup>* no_seats st" and "occupying.clients others"
    and "seat_occupy address occupant at_ms others st = (Inr generation, st1)" and "seat_step\<^sup>*\<^sup>* st1 st2"
  shows "filter (\<lambda>entry. te_generation entry = generation) (occupations st2 address) =
    [\<lparr>te_generation = generation, te_occupant = occupant, te_at = at_ms, te_event = None\<rparr>]"
proof -
  let ?mine = "\<lparr>te_generation = generation, te_occupant = occupant, te_at = at_ms, te_event = None\<rparr>"
  have "occupying.clients (take occupy_attempts others)" using assms(2) by (auto simp: occupying.clients_def dest: in_set_takeD)
  moreover have "watch_loop (\<lambda>st. st_held st address) (seat_occupy_decide address occupant at_ms) (take occupy_attempts others) st = (Inr generation, st1)"
    using assms(3) by (auto simp: seat_occupy_def split: prod.splits sum.splits)
  ultimately obtain st0 where st0: "seat_step\<^sup>*\<^sup>* st st0"
    "seat_occupy_decide address occupant at_ms st0 = Inr (generation, Some (occupy_writes address occupant at_ms generation))"
    "st1 = occupy_writes address occupant at_ms generation st0"
    using occupying.loop_atomic by (fastforce simp: seat_occupy_decide_def Let_def)
  have c0: "seat_counted st0 address" using seats_counted rtranclp_trans[OF assms(1) st0(1)] by blast
  have mine: "occupations st1 address = occupations st0 address @ [?mine]" using st0(3) by (simp add: occupy_writes_def occupations_def)
  obtain more where occ: "occupations st2 address = occupations st0 address @ [?mine] @ more"
    using seat_histories_grow[OF assms(4), of address] mine by auto
  let ?n = "length (occupations st0 address)"
  have gen: "generation = int ?n + 1" using st0(2) c0
    by (auto simp: seat_occupy_decide_def Let_def seat_counted_def no_occupant_def split: if_splits)
  have "seat_step st0 st1" using seat_step.occupied[OF st0(2)] st0(3) by simp
  then have "seat_step\<^sup>*\<^sup>* no_seats st2"
    using rtranclp_trans[OF rtranclp.rtrancl_into_rtrancl[OF rtranclp_trans[OF assms(1) st0(1)]] assms(4)] by blast
  then have all: "map te_generation (occupations st2 address) = map (\<lambda>i. int i + 1) [0..<length (occupations st2 address)]"
    using seats_counted unfolding seat_counted_def by blast
  then have "distinct (map te_generation (occupations st2 address))" by (simp add: distinct_map inj_on_def)
  then have "te_generation entry \<noteq> generation" if "entry \<in> set (occupations st0 address) \<union> set more" for entry
    using that unfolding occ by auto
  then show ?thesis unfolding occ by (auto intro: filter_False)
qed

lemma generation_taken_once_witness:
  "let st = occupy_writes ''eng-1@s'' ''a'' 5 1 no_seats
   in \<exists>st1. seat_occupy ''eng-1@s'' ''b'' 7 [id] st = (Inr 2, st1) \<and>
      filter (\<lambda>entry. te_generation entry = 2) (occupations st1 ''eng-1@s'') =
        [\<lparr>te_generation = 2, te_occupant = ''b'', te_at = 7, te_event = None\<rparr>]"
proof -
  let ?st = "occupy_writes ''eng-1@s'' ''a'' 5 1 no_seats"
  have "seat_occupy_decide ''eng-1@s'' ''a'' 5 no_seats = Inr (1, Some (occupy_writes ''eng-1@s'' ''a'' 5 1))"
    by (simp add: seat_occupy_decide_def no_seats_def no_occupant_def)
  then have reach: "seat_step\<^sup>*\<^sup>* no_seats ?st" by (intro r_into_rtranclp seat_step.occupied)
  have run: "seat_occupy ''eng-1@s'' ''b'' 7 [id] ?st = (Inr 2, occupy_writes ''eng-1@s'' ''b'' 7 2 ?st)"
    by (simp add: seat_occupy_def occupy_attempts_def seat_occupy_decide_def occupy_writes_def no_seats_def no_occupant_def)
  have "occupying.clients [id]" by (simp add: occupying.clients_def)
  from generation_taken_once[OF reach this run rtranclp.rtrancl_refl] show ?thesis using run by (auto simp: Let_def)
qed

end
