(* ===== verification/Inbox.thy ===== *)
theory Inbox
  imports Seats
begin

text \<open>
  The agents' inbox (\<open>scripts/inbox/store.py\<close>) and the pool of a swarm's masters (\<open>scripts/inbox/pool.py\<close>): messages
  with their states and append only histories, the indexes that list them, and the transactions that move them.
  Each transaction reads under \<open>WATCH\<close> and then writes at once; \<open>_seen\<close> is what it watches on the path it took,
  \<open>_decide\<close> what it decides. What the code reads outside its transactions is an argument: the clock, the live
  masters of a swarm, the aliases of names (\<open>resolve\<close>), the swarm of a name (\<open>slug_of\<close>). One world of one hive:
  the routing between members is not modelled, nor the building of the indexes of a store from before they existed.
\<close>

section \<open>Messages and their indexes\<close>

datatype mail_state = M_Pending | M_Delivered | M_Confirmed | M_Read | M_Done | M_Blocked | M_Handed_Off | M_Cancelled

fun closed_state :: "mail_state \<Rightarrow> bool" where
  "closed_state M_Done = True"
| "closed_state M_Blocked = True"
| "closed_state M_Handed_Off = True"
| "closed_state M_Cancelled = True"
| "closed_state _ = False"

definition open_states :: "mail_state list" where
  "open_states = [M_Pending, M_Delivered, M_Confirmed, M_Read]"

record mail =
  ml_id :: string
  ml_sender :: string
  ml_address :: string
  ml_text :: string
  ml_state :: mail_state
  ml_created_at :: int
  ml_updated_at :: int
  ml_reason :: string
  ml_ref :: string
  ml_sequence :: int
  ml_fyi :: bool
  ml_task :: string
  ml_session :: string

text \<open>The hash of an item: its fields, \<open>pool_holder\<close>, \<open>pool_skip\<close> and the fields \<open>reply:<replier>\<close>.\<close>

record mail_row =
  mr_item :: mail
  mr_holder :: "string option"
  mr_skip :: "string option"
  mr_replies :: "(string, string) dict"

text \<open>A history entry has a \<open>state\<close> key or an \<open>event\<close> key.\<close>

datatype mail_entry =
    Moved (en_state: mail_state) (en_by: string) (en_reason: string) (en_at: int) (en_session: string)
  | Noted (en_event: string) (en_by: string) (en_reason: string) (en_at: int)

definition state_entry_of :: "mail_state \<Rightarrow> string \<Rightarrow> string \<Rightarrow> int \<Rightarrow> string \<Rightarrow> mail_entry" where
  "state_entry_of state by reason at_ms session = Moved state by reason at_ms (if state = M_Delivered then session else '''')"

type_synonym zset = "(string, int) dict"

text \<open>The keys of the inbox; \<open>ib_pool\<close>, \<open>ib_last\<close> and \<open>ib_holders\<close> are those of a swarm's pool.\<close>

record inbox =
  ib_items :: "(string, mail_row) dict"
  ib_history :: "string \<Rightarrow> mail_entry list"
  ib_address :: "string \<Rightarrow> zset"
  ib_open :: "string \<Rightarrow> zset"
  ib_pending :: "string \<Rightarrow> zset"
  ib_delivered :: zset
  ib_open_size :: "string \<Rightarrow> int option"
  ib_sequence :: "string \<Rightarrow> int"
  ib_waiting :: "string list"
  ib_indexed :: "string set"
  ib_open_indexed :: "string set"
  ib_settled :: "string set"
  ib_wake :: "string list"
  ib_about :: "string \<Rightarrow> string"
  ib_pool :: "string \<Rightarrow> zset"
  ib_pools :: "string list"
  ib_last :: "string \<Rightarrow> string"
  ib_holders :: "string \<Rightarrow> string list"
  ib_owner :: "string set"
  ib_reservation :: "string \<Rightarrow> string"
  ib_delivery :: "string \<Rightarrow> string"
  ib_seats :: seats

definition empty_inbox :: "seats \<Rightarrow> inbox" where
  "empty_inbox st = \<lparr>ib_items = [], ib_history = \<lambda>_. [], ib_address = \<lambda>_. [], ib_open = \<lambda>_. [], ib_pending = \<lambda>_. [],
    ib_delivered = [], ib_open_size = \<lambda>_. None, ib_sequence = \<lambda>_. 0, ib_waiting = [], ib_indexed = {}, ib_open_indexed = {},
    ib_settled = {}, ib_wake = [], ib_about = \<lambda>_. '''', ib_pool = \<lambda>_. [], ib_pools = [], ib_last = \<lambda>_. '''', ib_holders = \<lambda>_. [],
    ib_owner = {}, ib_reservation = \<lambda>_. '''', ib_delivery = \<lambda>_. '''', ib_seats = st\<rparr>"

text \<open>\<open>ZRANGE key 0 -1\<close>: by score, equal scores by member; \<open>ZRANGEBYSCORE key -inf top\<close>.\<close>

definition zrange :: "zset \<Rightarrow> string list" where
  "zrange z = map fst (sort_key (\<lambda>(member, score). (score, member)) z)"

definition zrange_upto :: "zset \<Rightarrow> int \<Rightarrow> string list" where
  "zrange_upto z limit = zrange (filter (\<lambda>(member, score). score \<le> limit) z)"

text \<open>\<open>HSET\<close> of the fields of an item keeps the other fields of its hash.\<close>

definition put_item :: "mail \<Rightarrow> inbox \<Rightarrow> inbox" where
  "put_item item s = s\<lparr>ib_items := dset (ml_id item)
    (case dget (ib_items s) (ml_id item) of
       None \<Rightarrow> \<lparr>mr_item = item, mr_holder = None, mr_skip = None, mr_replies = []\<rparr>
     | Some row \<Rightarrow> row\<lparr>mr_item := item\<rparr>) (ib_items s)\<rparr>"

definition change_row :: "string \<Rightarrow> (mail_row \<Rightarrow> mail_row) \<Rightarrow> inbox \<Rightarrow> inbox" where
  "change_row item_id f s = (case dget (ib_items s) item_id of None \<Rightarrow> s | Some row \<Rightarrow> s\<lparr>ib_items := dset item_id (f row) (ib_items s)\<rparr>)"

definition push_entry :: "string \<Rightarrow> mail_entry \<Rightarrow> inbox \<Rightarrow> inbox" where
  "push_entry item_id entry s = s\<lparr>ib_history := (ib_history s)(item_id := ib_history s item_id @ [entry])\<rparr>"

definition size_add :: "string \<Rightarrow> int \<Rightarrow> inbox \<Rightarrow> inbox" where
  "size_add address n s = s\<lparr>ib_open_size := (ib_open_size s)(address :=
    Some ((case ib_open_size s address of None \<Rightarrow> 0 | Some held \<Rightarrow> held) + n))\<rparr>"

definition set_wait :: "string \<Rightarrow> inbox \<Rightarrow> inbox" where
  "set_wait address s = s\<lparr>ib_waiting := List.insert address (ib_waiting s)\<rparr>"

definition drop_wait :: "bool \<Rightarrow> string \<Rightarrow> inbox \<Rightarrow> inbox" where
  "drop_wait emptied address s = (if emptied then s\<lparr>ib_waiting := removeAll address (ib_waiting s)\<rparr> else s)"

definition add_pending :: "string \<Rightarrow> mail \<Rightarrow> inbox \<Rightarrow> inbox" where
  "add_pending address item s = s\<lparr>ib_pending := (ib_pending s)(address := dset (ml_id item) (ml_created_at item) (ib_pending s address))\<rparr>"

definition drop_pending :: "string \<Rightarrow> string \<Rightarrow> inbox \<Rightarrow> inbox" where
  "drop_pending address item_id s = s\<lparr>ib_pending := (ib_pending s)(address := dpop item_id (ib_pending s address))\<rparr>"

definition add_open :: "string \<Rightarrow> mail \<Rightarrow> inbox \<Rightarrow> inbox" where
  "add_open address item s = s\<lparr>ib_open := (ib_open s)(address := dset (ml_id item) (ml_created_at item) (ib_open s address)),
    ib_settled := ib_settled s - {address}\<rparr>"

definition drop_open :: "string \<Rightarrow> string \<Rightarrow> inbox \<Rightarrow> inbox" where
  "drop_open address item_id s = s\<lparr>ib_open := (ib_open s)(address := dpop item_id (ib_open s address))\<rparr>"

definition add_address :: "string \<Rightarrow> mail \<Rightarrow> inbox \<Rightarrow> inbox" where
  "add_address address item s = s\<lparr>ib_address := (ib_address s)(address := dset (ml_id item) (ml_created_at item) (ib_address s address))\<rparr>"

definition drop_address :: "string \<Rightarrow> string \<Rightarrow> inbox \<Rightarrow> inbox" where
  "drop_address address item_id s = s\<lparr>ib_address := (ib_address s)(address := dpop item_id (ib_address s address))\<rparr>"

definition drop_delivered :: "string \<Rightarrow> inbox \<Rightarrow> inbox" where
  "drop_delivered item_id s = s\<lparr>ib_delivered := dpop item_id (ib_delivered s)\<rparr>"

section \<open>The pool of the masters\<close>

definition operator_name :: string where "operator_name = ''operator''"

definition pool_slug :: "string \<Rightarrow> string" where
  "pool_slug address = (case partition_at (CHR ''@'') address of (seat, _, slug) \<Rightarrow>
    if is_seat address \<and> seat = ''master'' then slug else '''')"

text \<open>\<open>number\<close> of a master seat: 1, or what follows \<open>master-\<close>, which the seats of live masters have.\<close>

definition seat_number :: "string \<Rightarrow> nat" where
  "seat_number address = (let seat = fst (partition_at (CHR ''@'') address)
    in if seat = ''master'' then 1 else digits_value (drop 7 seat))"

definition next_turn :: "string list \<Rightarrow> string \<Rightarrow> string option \<Rightarrow> string" where
  "next_turn live previous skip =
    (let kept = filter (\<lambda>seat. Some seat \<noteq> skip) live;
         choices = (if kept = [] then live else kept);
         later = filter (\<lambda>seat. previous \<noteq> '''' \<and> seat_number seat > seat_number previous) choices
     in hd (if later = [] then choices else later))"

definition masters_for :: "(string \<Rightarrow> string list) \<Rightarrow> string \<Rightarrow> string \<Rightarrow> string list" where
  "masters_for live sender address =
    (let slug = pool_slug address
     in if slug = '''' \<or> sender = operator_name then []
        else if length (live slug) > 1 \<or> (live slug \<noteq> [] \<and> address \<notin> set (live slug)) then live slug else [])"

text \<open>\<open>vacant\<close> tells of a backend master seat whether no master is in it.\<close>

definition rerouted :: "(string \<Rightarrow> bool) \<Rightarrow> string \<Rightarrow> string \<Rightarrow> string \<times> string" where
  "rerouted vacant requested address =
    (if \<not> (is_seat address \<and> starts_with ''master-'' address) then (requested, address)
     else if \<not> vacant address then (requested, address)
     else (master_of legacy_slug address, master_of legacy_slug address))"

definition pool_add :: "mail \<Rightarrow> inbox \<Rightarrow> inbox" where
  "pool_add item s = (let slug = pool_slug (ml_address item) in
    s\<lparr>ib_pool := (ib_pool s)(slug := dset (ml_id item) (ml_sequence item) (ib_pool s slug)), ib_pools := List.insert slug (ib_pools s)\<rparr>)"

definition pool_remove :: "mail \<Rightarrow> inbox \<Rightarrow> inbox" where
  "pool_remove item s = (let slug = pool_slug (ml_address item) in
    if slug = '''' then s else s\<lparr>ib_pool := (ib_pool s)(slug := dpop (ml_id item) (ib_pool s slug))\<rparr>)"

definition pool_holds :: "inbox \<Rightarrow> mail \<Rightarrow> bool" where
  "pool_holds s item \<longleftrightarrow> pool_slug (ml_address item) \<noteq> '''' \<and> dhas (ib_pool s (pool_slug (ml_address item))) (ml_id item)"

definition takes_back :: "(string \<Rightarrow> string list) \<Rightarrow> string option \<Rightarrow> bool" where
  "takes_back live holder =
    (case holder of None \<Rightarrow> False
     | Some seat \<Rightarrow> let found = live (pool_slug (master_of legacy_slug seat)) in seat \<noteq> '''' \<and> (length found > 1 \<or> seat \<notin> set found))"


section \<open>Moving a message\<close>

definition acts_for :: "(string \<Rightarrow> string) \<Rightarrow> inbox \<Rightarrow> string \<Rightarrow> string \<Rightarrow> bool" where
  "acts_for resolve s by address =
    (resolve by = resolve address \<or>
     (is_seat (resolve address) \<and> resolve (oc_occupant (st_held (ib_seats s) (resolve address))) = resolve by))"

text \<open>The seats \<open>any(acts_for(...))\<close> watches until one answers yes.\<close>

fun seats_read :: "(string \<Rightarrow> string) \<Rightarrow> inbox \<Rightarrow> string \<Rightarrow> string list \<Rightarrow> occupancy list" where
  "seats_read resolve s by [] = []"
| "seats_read resolve s by (address # rest) =
    (if resolve by \<noteq> resolve address \<and> is_seat (resolve address) then [st_held (ib_seats s) (resolve address)] else []) @
    (if acts_for resolve s by address then [] else seats_read resolve s by rest)"

definition owned :: "(string \<Rightarrow> string) \<Rightarrow> inbox \<Rightarrow> string \<Rightarrow> bool" where
  "owned resolve s by \<longleftrightarrow> resolve by \<in> ib_owner s"

definition reserved :: "inbox \<Rightarrow> string \<Rightarrow> bool" where
  "reserved s item_id \<longleftrightarrow> ib_reservation s item_id \<noteq> '''' \<and> ib_delivery s (ib_reservation s item_id) \<noteq> ''reserved''"

definition last_pending :: "inbox \<Rightarrow> mail \<Rightarrow> bool" where
  "last_pending s item \<longleftrightarrow> dhas (ib_pending s (ml_address item)) (ml_id item) \<and> length (ib_pending s (ml_address item)) = 1"

definition stage_move :: "mail \<Rightarrow> mail \<Rightarrow> string \<Rightarrow> bool \<Rightarrow> bool \<Rightarrow> inbox \<Rightarrow> inbox" where
  "stage_move item moved by emptied indexed s =
    (let s1 = put_item moved s;
         s2 = (if closed_state (ml_state moved) then pool_remove item (drop_open (ml_address item) (ml_id item) s1) else s1);
         s3 = (if ml_state moved = M_Delivered \<and> indexed
               then s2\<lparr>ib_delivered := dset (ml_id item) (ml_updated_at moved) (ib_delivered s2)\<rparr> else drop_delivered (ml_id item) s2);
         s4 = drop_wait emptied (ml_address item) (drop_pending (ml_address item) (ml_id item) s3)
     in push_entry (ml_id item) (state_entry_of (ml_state moved) by (ml_reason moved) (ml_updated_at moved) (ml_session moved)) s4)"

text \<open>An informational message that is read or confirmed is done.\<close>

definition informed :: "mail \<Rightarrow> mail_state \<Rightarrow> string \<Rightarrow> mail_state \<times> string" where
  "informed item state reason =
    (if ml_fyi item \<and> state \<in> {M_Read, M_Confirmed} then (M_Done, ''done: information received'') else (state, reason))"

definition move_decide ::
  "(string \<Rightarrow> string) \<Rightarrow> string \<Rightarrow> int \<Rightarrow> string \<Rightarrow> string \<Rightarrow> (mail \<Rightarrow> string list) \<Rightarrow> mail_state \<Rightarrow> string \<Rightarrow> mail_state list option \<Rightarrow>
   inbox \<Rightarrow> fault + mail option \<times> (inbox \<Rightarrow> inbox) option" where
  "move_decide resolve session now item_id by actors state reason only_from s =
    (case dget (ib_items s) item_id of
      None \<Rightarrow> Inl (Gone (''no message '' @ item_id))
    | Some row \<Rightarrow>
        let item = mr_item row; (state', reason') = informed item state reason
        in if \<not> list_ex (acts_for resolve s by) (actors item)
           then Inl (Inbox_Error (''message '' @ item_id @ '' belongs to '' @ ml_address item @ '', not '' @ by))
           else if (case only_from of None \<Rightarrow> False | Some states \<Rightarrow> ml_state item \<notin> set states) then Inr (None, None)
           else if state = M_Confirmed \<and> ml_state item = M_Delivered \<and> ml_session item \<noteq> session then Inr (None, None)
           else if closed_state (ml_state item) then Inl (Inbox_Error (''message '' @ item_id @ '' is closed: '' @ ml_reason item))
           else if state' = M_Done \<and> \<not> ml_fyi item \<and> reason' = ''done''
           then Inl (Inbox_Error ''done needs an outcome naming where the work went'')
           else if ml_state item = state' then Inr (Some item, None)
           else if \<not> closed_state state' \<and> pool_holds s item
           then Inl (Inbox_Error (''message '' @ item_id @ '' waits in the master pool for the next master''))
           else if state' = M_Delivered \<and> (owned resolve s by \<or> reserved s item_id) then Inr (None, None)
           else
             let moved = item\<lparr>ml_state := state', ml_updated_at := now, ml_reason := reason'\<rparr>;
                 moved = (if state' = M_Delivered then moved\<lparr>ml_session := session\<rparr> else moved)
             in Inr (Some moved, Some (stage_move item moved by (last_pending s item) True)))"

text \<open>
  The commit of a receipt (\<open>_try_commit\<close> of \<open>receipts.py\<close>), as far as the messages see it: without a session the
  delivery stays out of the redelivery index. What else it writes are the delivery, its reservation and the marks.
\<close>

definition receipt_decide :: "(string \<Rightarrow> string) \<Rightarrow> string \<Rightarrow> int \<Rightarrow> string \<Rightarrow> string \<Rightarrow> inbox \<Rightarrow> fault + bool \<times> (inbox \<Rightarrow> inbox) option" where
  "receipt_decide resolve session now item_id recipient s =
    (case dget (ib_items s) item_id of
      None \<Rightarrow> Inl (Gone (''no message '' @ item_id))
    | Some row \<Rightarrow>
        let item = mr_item row
        in if ml_state item \<noteq> M_Pending \<or> \<not> acts_for resolve s recipient (ml_address item) then Inr (False, None)
           else Inr (True, Some (stage_move item (item\<lparr>ml_state := M_Delivered, ml_updated_at := now, ml_reason := '''', ml_session := session\<rparr>)
             recipient (last_pending s item) (session \<noteq> ''''))))"

text \<open>
  A reservation (\<open>_plan\<close> and \<open>_reserve\<close> of \<open>dispatch.py\<close>) closes the message whose reference was shown before;
  \<open>shown\<close> is what \<open>_ref_state\<close> answers.
\<close>

definition shown_decide :: "(string \<Rightarrow> string) \<Rightarrow> int \<Rightarrow> bool \<Rightarrow> string \<Rightarrow> string \<Rightarrow> inbox \<Rightarrow> fault + bool \<times> (inbox \<Rightarrow> inbox) option" where
  "shown_decide resolve now shown item_id recipient s =
    (case dget (ib_items s) item_id of
      None \<Rightarrow> Inl (Gone (''no message '' @ item_id))
    | Some row \<Rightarrow>
        let item = mr_item row
        in if ml_state item \<noteq> M_Pending \<or> ib_reservation s item_id \<noteq> '''' \<or> \<not> acts_for resolve s recipient (ml_address item) \<or> \<not> shown
           then Inr (False, None)
           else Inr (True, Some (stage_move item (item\<lparr>ml_state := M_Done, ml_updated_at := now, ml_reason := ''done: already shown through the ledger''\<rparr>)
             recipient (last_pending s item) True)))"

text \<open>What \<open>_try_move\<close> has watched when it writes.\<close>

definition move_seen ::
  "(string \<Rightarrow> string) \<Rightarrow> string \<Rightarrow> string \<Rightarrow> (mail \<Rightarrow> string list) \<Rightarrow> mail_state \<Rightarrow> inbox \<Rightarrow>
   (mail_row \<times> occupancy list \<times> zset option \<times> (bool \<times> string \<times> string) option \<times> zset) option" where
  "move_seen resolve item_id by actors state s =
    map_option (\<lambda>row.
      let item = mr_item row; state' = fst (informed item state '''')
      in (row, seats_read resolve s by (actors item),
          if closed_state state' \<or> pool_slug (ml_address item) = '''' then None else Some (ib_pool s (pool_slug (ml_address item))),
          if state' = M_Delivered
          then Some (owned resolve s by, ib_reservation s item_id,
                 if ib_reservation s item_id = '''' then '''' else ib_delivery s (ib_reservation s item_id))
          else None,
          ib_pending s (ml_address item)))
      (dget (ib_items s) item_id)"

text \<open>A transaction is tried three times; the list holds what others do in between.\<close>

definition move_attempts :: nat where "move_attempts = 3"

definition mail_loop ::
  "fault \<Rightarrow> (inbox \<Rightarrow> 'w) \<Rightarrow> (inbox \<Rightarrow> fault + 'r \<times> (inbox \<Rightarrow> inbox) option) \<Rightarrow> (inbox \<Rightarrow> inbox) list \<Rightarrow> inbox \<Rightarrow> (fault + 'r) \<times> inbox" where
  "mail_loop spent seen decide others s =
    (case watch_loop seen decide (take move_attempts others) s of
      (Inl (Swarm_Error _), s') \<Rightarrow> (Inl spent, s')
    | r \<Rightarrow> r)"

definition meanwhile :: "string \<Rightarrow> string" where
  "meanwhile item_id = ''message '' @ item_id @ '' changed meanwhile; run the command again''"

definition mail_move ::
  "(string \<Rightarrow> string) \<Rightarrow> string \<Rightarrow> int \<Rightarrow> string \<Rightarrow> string \<Rightarrow> (mail \<Rightarrow> string list) \<Rightarrow> mail_state \<Rightarrow> string \<Rightarrow> mail_state list option \<Rightarrow>
   (inbox \<Rightarrow> inbox) list \<Rightarrow> inbox \<Rightarrow> (fault + mail option) \<times> inbox" where
  "mail_move resolve session now item_id by actors state reason only_from others s =
    mail_loop (Contended (meanwhile item_id)) (move_seen resolve item_id by actors state)
      (move_decide resolve session now item_id by actors state reason only_from) others s"

definition own_address :: "mail \<Rightarrow> string list" where
  "own_address item = [ml_address item]"

definition mail_read ::
  "(string \<Rightarrow> string) \<Rightarrow> string \<Rightarrow> int \<Rightarrow> string \<Rightarrow> string \<Rightarrow> (inbox \<Rightarrow> inbox) list \<Rightarrow> inbox \<Rightarrow> (fault + mail option) \<times> inbox" where
  "mail_read resolve session now item_id reader others s = mail_move resolve session now item_id reader own_address M_Read '''' None others s"

text \<open>\<open>deliver\<close> answers None on an \<open>InboxError\<close>.\<close>

definition inbox_fault :: "fault \<Rightarrow> bool" where
  "inbox_fault e = (case e of Inbox_Error _ \<Rightarrow> True | Duplicate_Item _ \<Rightarrow> True | Contended _ \<Rightarrow> True | Gone _ \<Rightarrow> True | _ \<Rightarrow> False)"

definition mail_deliver ::
  "(string \<Rightarrow> string) \<Rightarrow> string \<Rightarrow> int \<Rightarrow> string \<Rightarrow> string \<Rightarrow> (inbox \<Rightarrow> inbox) list \<Rightarrow> inbox \<Rightarrow> (fault + mail option) \<times> inbox" where
  "mail_deliver resolve session now item_id receiver others s =
    (case mail_move resolve session now item_id receiver own_address M_Delivered '''' (Some [M_Pending]) others s of
      (Inl e, s') \<Rightarrow> (if inbox_fault e then Inr None else Inl e, s')
    | r \<Rightarrow> r)"

definition mail_confirm ::
  "(string \<Rightarrow> string) \<Rightarrow> string \<Rightarrow> int \<Rightarrow> string \<Rightarrow> string \<Rightarrow> (inbox \<Rightarrow> inbox) list \<Rightarrow> inbox \<Rightarrow> (fault + mail option) \<times> inbox" where
  "mail_confirm resolve session now item_id receiver others s =
    mail_move resolve session now item_id receiver own_address M_Confirmed '''' (Some [M_Delivered, M_Read]) others s"

definition close_reason :: "string \<Rightarrow> string \<Rightarrow> fault + mail_state \<times> string" where
  "close_reason kind detail =
    (let detail = py_strip detail
     in if kind \<notin> {''done'', ''handoff'', ''blocked'', ''cancel''}
        then Inl (Inbox_Error ''closing needs a reason: one of done, handoff, blocked, cancel'')
        else if kind = ''handoff'' \<and> detail = '''' then Inl (Inbox_Error ''handoff needs the address the work went to'')
        else if kind = ''blocked'' \<and> detail = '''' then Inl (Inbox_Error ''blocked needs what it is blocked on'')
        else if kind = ''handoff'' then Inr (M_Handed_Off, ''handed off to '' @ detail)
        else if kind = ''blocked'' then Inr (M_Blocked, ''blocked on '' @ detail)
        else if kind = ''done'' then Inr (M_Done, ''done'' @ (if detail \<noteq> '''' then '': '' @ detail else ''''))
        else Inr (M_Cancelled, ''cancelled'' @ (if detail \<noteq> '''' then '': '' @ detail else '''')))"

definition closers :: "(string \<Rightarrow> string) \<Rightarrow> mail \<Rightarrow> string list" where
  "closers slug_of item = [ml_address item, ml_sender item, master_of slug_of (ml_address item)]"

definition mail_close ::
  "(string \<Rightarrow> string) \<Rightarrow> (string \<Rightarrow> string) \<Rightarrow> string \<Rightarrow> int \<Rightarrow> string \<Rightarrow> string \<Rightarrow> string \<Rightarrow> string \<Rightarrow> mail_state list option \<Rightarrow>
   (inbox \<Rightarrow> inbox) list \<Rightarrow> inbox \<Rightarrow> (fault + mail option) \<times> inbox" where
  "mail_close resolve slug_of session now item_id closer kind detail only_from others s =
    (case close_reason kind detail of
      Inl e \<Rightarrow> (Inl e, s)
    | Inr (state, reason) \<Rightarrow> mail_move resolve session now item_id closer (closers slug_of) state reason only_from others s)"

definition mail_settle ::
  "(string \<Rightarrow> string) \<Rightarrow> (string \<Rightarrow> string) \<Rightarrow> string \<Rightarrow> int \<Rightarrow> string \<Rightarrow> string \<Rightarrow> string \<Rightarrow> string \<Rightarrow>
   (inbox \<Rightarrow> inbox) list \<Rightarrow> inbox \<Rightarrow> (fault + mail option) \<times> inbox" where
  "mail_settle resolve slug_of session now item_id closer kind detail others s =
    (case mail_close resolve slug_of session now item_id closer kind detail (Some open_states) others s of
      (Inl (Gone _), s') \<Rightarrow> (Inr None, s')
    | r \<Rightarrow> r)"


section \<open>Sending a message somewhere else\<close>

definition move_address :: "mail \<Rightarrow> string \<Rightarrow> inbox \<Rightarrow> inbox" where
  "move_address item address s =
    (let s1 = add_open address item (add_address address item (drop_address (ml_address item) (ml_id item) s))
     in if address \<noteq> ml_address item
        then size_add address 1 (size_add (ml_address item) (- 1) (drop_open (ml_address item) (ml_id item) s1))
        else s1)"

definition stage_pending :: "mail \<Rightarrow> string \<Rightarrow> inbox \<Rightarrow> inbox" where
  "stage_pending item address s = set_wait address (add_pending address item (move_address item address s))"

text \<open>
  \<open>next(entry["by"] for entry in reversed(entries) if entry["state"] in ("delivered", "read"))\<close>: an entry of an
  event has no \<open>state\<close> key.
\<close>

fun receiver_back :: "mail_entry list \<Rightarrow> fault + string" where
  "receiver_back [] = Inr ''''"
| "receiver_back (Noted _ _ _ _ # rest) = Inl (Key_Error ''state'')"
| "receiver_back (Moved state by _ _ _ # rest) = (if state = M_Delivered \<or> state = M_Read then Inr by else receiver_back rest)"

definition last_receiver :: "mail_entry list \<Rightarrow> fault + string" where
  "last_receiver entries = receiver_back (rev entries)"

definition redirect_writes :: "mail \<Rightarrow> mail \<Rightarrow> string \<Rightarrow> string \<Rightarrow> bool \<Rightarrow> bool \<Rightarrow> inbox \<Rightarrow> inbox" where
  "redirect_writes item moved by address emptied pooled s =
    (let s1 = put_item moved s;
         s2 = (if ml_address moved \<noteq> ml_address item then change_row (ml_id item) (\<lambda>row. row\<lparr>mr_holder := None, mr_skip := None\<rparr>) s1 else s1);
         s3 = (if pooled then pool_remove item s2 else s2);
         s4 = (if closed_state (ml_state moved) \<or> ml_address moved \<noteq> ml_address item then drop_open (ml_address item) (ml_id item) s3 else s3);
         s5 = drop_wait emptied (ml_address item) (drop_pending (ml_address item) (ml_id item) (drop_delivered (ml_id item) s4));
         s6 = (if address \<noteq> '''' then stage_pending item address s5 else s5)
     in push_entry (ml_id item) (state_entry_of (ml_state moved) by (ml_reason moved) (ml_updated_at moved) '''') s6)"

definition redirect_decide ::
  "int \<Rightarrow> string \<Rightarrow> string \<Rightarrow> string \<Rightarrow> string \<Rightarrow> string \<Rightarrow> string option \<Rightarrow> inbox \<Rightarrow> fault + mail option \<times> (inbox \<Rightarrow> inbox) option" where
  "redirect_decide now item_id by address reason expected_address expected_receiver s =
    (case dget (ib_items s) item_id of
      None \<Rightarrow> Inl (Gone (''no message '' @ item_id))
    | Some row \<Rightarrow>
        let item = mr_item row
        in if closed_state (ml_state item) \<or> (expected_address \<noteq> '''' \<and> ml_address item \<noteq> expected_address) then Inr (None, None)
           else if expected_receiver = None \<and> ml_state item \<noteq> M_Pending then Inr (None, None)
           else case (if expected_receiver = None \<or> expected_receiver = Some '''' then Inr True
                      else and_then (last_receiver (ib_history s item_id)) (\<lambda>receiver. Inr (Some receiver = expected_receiver))) of
             Inl e \<Rightarrow> Inl e
           | Inr False \<Rightarrow> Inr (None, None)
           | Inr True \<Rightarrow>
               let moved = item\<lparr>ml_address := (if address \<noteq> '''' then address else ml_address item),
                     ml_state := (if address \<noteq> '''' then M_Pending else M_Cancelled), ml_updated_at := now, ml_reason := reason\<rparr>
               in Inr (Some moved, Some (redirect_writes item moved by address (last_pending s item) (pool_holds s item))))"

definition redirect_seen ::
  "string \<Rightarrow> string option \<Rightarrow> inbox \<Rightarrow> (mail_row \<times> mail_entry list option \<times> zset \<times> zset option) option" where
  "redirect_seen item_id expected_receiver s =
    map_option (\<lambda>row. (row,
        if expected_receiver = None \<or> expected_receiver = Some '''' then None else Some (ib_history s item_id),
        ib_pending s (ml_address (mr_item row)),
        if pool_slug (ml_address (mr_item row)) = '''' then None else Some (ib_pool s (pool_slug (ml_address (mr_item row))))))
      (dget (ib_items s) item_id)"

definition mail_redirect ::
  "int \<Rightarrow> string \<Rightarrow> string \<Rightarrow> string \<Rightarrow> string \<Rightarrow> string \<Rightarrow> string option \<Rightarrow> (inbox \<Rightarrow> inbox) list \<Rightarrow> inbox \<Rightarrow> (fault + mail option) \<times> inbox" where
  "mail_redirect now item_id by address reason expected_address expected_receiver others s =
    mail_loop (Inbox_Error (meanwhile item_id)) (redirect_seen item_id expected_receiver)
      (redirect_decide now item_id by address reason expected_address expected_receiver) others s"

definition mail_withdraw ::
  "int \<Rightarrow> string \<Rightarrow> string \<Rightarrow> string \<Rightarrow> string \<Rightarrow> string option \<Rightarrow> (inbox \<Rightarrow> inbox) list \<Rightarrow> inbox \<Rightarrow> (fault + mail option) \<times> inbox" where
  "mail_withdraw now item_id by reason expected_address expected_receiver others s =
    mail_redirect now item_id by '''' reason expected_address expected_receiver others s"

section \<open>Back to pending\<close>

definition redeliverer :: string where "redeliverer = ''inbox''"

definition reclaimed :: string where "reclaimed = ''returned to the master pool: its master is gone''"

definition redelivered :: string where "redelivered = ''redelivered: never confirmed inside the redelivery window''"

definition stage_pool_return :: "mail \<Rightarrow> mail \<Rightarrow> string \<Rightarrow> inbox \<Rightarrow> inbox" where
  "stage_pool_return item moved holder s =
    (let front = master_of legacy_slug (ml_address item);
         back = moved\<lparr>ml_address := front\<rparr>;
         s1 = change_row (ml_id item) (\<lambda>row. row\<lparr>mr_skip := Some holder, mr_holder := None\<rparr>) (put_item back s)
     in pool_add back (move_address item front (drop_pending (ml_address item) (ml_id item) s1)))"

definition pool_back :: "mail \<Rightarrow> mail" where
  "pool_back moved = moved\<lparr>ml_address := master_of legacy_slug (ml_address moved)\<rparr>"

definition return_decide ::
  "(string \<Rightarrow> string list) \<Rightarrow> int \<Rightarrow> string \<Rightarrow> string \<Rightarrow> string \<Rightarrow> inbox \<Rightarrow> fault + mail option \<times> (inbox \<Rightarrow> inbox) option" where
  "return_decide live now item_id holder expected_receiver s =
    (case dget (ib_items s) item_id of
      None \<Rightarrow> Inr (None, None)
    | Some row \<Rightarrow>
        let item = mr_item row
        in if closed_state (ml_state item) \<or> ml_address item \<noteq> holder \<or> mr_holder row \<noteq> Some holder then Inr (None, None)
           else if ml_state item \<noteq> M_Pending \<and> expected_receiver = '''' \<and> holder \<in> set (live (pool_slug (master_of legacy_slug holder)))
           then Inr (None, None)
           else case (if expected_receiver = '''' then Inr True
                      else and_then (last_receiver (ib_history s item_id)) (\<lambda>receiver. Inr (receiver = expected_receiver))) of
             Inl e \<Rightarrow> Inl e
           | Inr False \<Rightarrow> Inr (None, None)
           | Inr True \<Rightarrow>
               let moved = item\<lparr>ml_state := M_Pending, ml_session := '''', ml_updated_at := now, ml_reason := reclaimed\<rparr>
               in Inr (Some (pool_back moved), Some (\<lambda>s.
                    push_entry item_id (state_entry_of M_Pending redeliverer reclaimed now '''')
                      (drop_delivered item_id (stage_pool_return item moved holder s)))))"

definition return_seen :: "string \<Rightarrow> string \<Rightarrow> string \<Rightarrow> inbox \<Rightarrow> (mail_row \<times> occupancy option \<times> mail_entry list option) option" where
  "return_seen item_id holder expected_receiver s =
    map_option (\<lambda>row. (row,
        if ml_state (mr_item row) \<noteq> M_Pending \<and> expected_receiver = '''' then Some (st_held (ib_seats s) holder) else None,
        if expected_receiver = '''' then None else Some (ib_history s item_id)))
      (dget (ib_items s) item_id)"

text \<open>Tried once; a conflict answers None.\<close>

definition return_to_pool ::
  "(string \<Rightarrow> string list) \<Rightarrow> int \<Rightarrow> string \<Rightarrow> string \<Rightarrow> string \<Rightarrow> (inbox \<Rightarrow> inbox) \<Rightarrow> inbox \<Rightarrow> (fault + mail option) \<times> inbox" where
  "return_to_pool live now item_id holder expected_receiver other s =
    (case watch_loop (return_seen item_id holder expected_receiver) (return_decide live now item_id holder expected_receiver) [other] s of
      (Inl (Swarm_Error _), s') \<Rightarrow> (Inr None, s')
    | r \<Rightarrow> r)"

definition requeue_decide ::
  "(string \<Rightarrow> string list) \<Rightarrow> int \<Rightarrow> string \<Rightarrow> string \<Rightarrow> string \<Rightarrow> int option \<Rightarrow> inbox \<Rightarrow> fault + mail option \<times> (inbox \<Rightarrow> inbox) option" where
  "requeue_decide live now item_id by reason before s =
    (case dget (ib_items s) item_id of
      None \<Rightarrow> Inr (None, Some (drop_delivered item_id))
    | Some row \<Rightarrow>
        let item = mr_item row
        in if ml_state item = M_Delivered \<and> (case before of None \<Rightarrow> False | Some b \<Rightarrow> ml_updated_at item > b) then Inr (None, None)
           else if ml_state item \<noteq> M_Delivered then Inr (None, Some (drop_delivered item_id))
           else
             let moved = item\<lparr>ml_state := M_Pending, ml_updated_at := now, ml_reason := reason\<rparr>;
                 entry = state_entry_of M_Pending by reason now ''''
             in if takes_back live (mr_holder row)
                then Inr (Some (pool_back moved), Some (\<lambda>s. push_entry item_id entry
                       (stage_pool_return item moved (the (mr_holder row)) (drop_delivered item_id s))))
                else Inr (Some moved, Some (\<lambda>s. push_entry item_id entry
                       (set_wait (ml_address item) (add_pending (ml_address item) item (put_item moved (drop_delivered item_id s)))))))"

definition mail_requeue ::
  "(string \<Rightarrow> string list) \<Rightarrow> int \<Rightarrow> string \<Rightarrow> string \<Rightarrow> string \<Rightarrow> int option \<Rightarrow> (inbox \<Rightarrow> inbox) list \<Rightarrow> inbox \<Rightarrow> (fault + mail option) \<times> inbox" where
  "mail_requeue live now item_id by reason before others s =
    mail_loop (Inbox_Error (meanwhile item_id)) (\<lambda>s. dget (ib_items s) item_id) (requeue_decide live now item_id by reason before) others s"

text \<open>The loop of \<open>redeliver\<close> over the ids that were due.\<close>

fun requeue_due ::
  "(string \<Rightarrow> string list) \<Rightarrow> int \<Rightarrow> int \<Rightarrow> (string \<Rightarrow> (inbox \<Rightarrow> inbox) list) \<Rightarrow> string list \<Rightarrow> mail list \<Rightarrow> inbox \<Rightarrow> (fault + mail list) \<times> inbox" where
  "requeue_due live now cutoff others [] moved s = (Inr moved, s)"
| "requeue_due live now cutoff others (item_id # rest) moved s =
    (case mail_requeue live now item_id redeliverer redelivered (Some cutoff) (others item_id) s of
      (Inl e, s') \<Rightarrow> (Inl e, s')
    | (Inr None, s') \<Rightarrow> requeue_due live now cutoff others rest moved s'
    | (Inr (Some item), s') \<Rightarrow> requeue_due live now cutoff others rest (moved @ [item]) s')"

section \<open>An answer that was refused, a note\<close>

definition replied :: "string \<Rightarrow> string" where
  "replied answer_id = ''replied with message '' @ answer_id"

definition reopen_decide :: "int \<Rightarrow> mail \<Rightarrow> string \<Rightarrow> string \<Rightarrow> inbox \<Rightarrow> fault + mail option \<times> (inbox \<Rightarrow> inbox) option" where
  "reopen_decide now answer by reason s =
    (case dget (ib_items s) (ml_ref answer) of
      None \<Rightarrow> Inr (None, None)
    | Some row \<Rightarrow>
        let item = mr_item row
        in if close_reason ''done'' (replied (ml_id answer)) \<noteq> Inr (ml_state item, ml_reason item) then Inr (None, None)
           else
             let moved = item\<lparr>ml_state := M_Read, ml_updated_at := now, ml_reason := reason\<rparr>
             in Inr (Some moved, Some (\<lambda>s. push_entry (ml_id item) (state_entry_of M_Read by reason now '''')
                  (add_open (ml_address item) item
                    (change_row (ml_id item) (\<lambda>row. row\<lparr>mr_replies := dpop (ml_sender answer) (mr_replies row)\<rparr>) (put_item moved s))))))"

definition mail_reopen :: "int \<Rightarrow> mail \<Rightarrow> string \<Rightarrow> string \<Rightarrow> (inbox \<Rightarrow> inbox) list \<Rightarrow> inbox \<Rightarrow> (fault + mail option) \<times> inbox" where
  "mail_reopen now answer by reason others s =
    mail_loop (Contended (meanwhile (ml_ref answer))) (\<lambda>s. dget (ib_items s) (ml_ref answer)) (reopen_decide now answer by reason) others s"

definition note_decide ::
  "string \<Rightarrow> string \<Rightarrow> string \<Rightarrow> string \<Rightarrow> int \<Rightarrow> (string \<times> int) option \<Rightarrow> inbox \<Rightarrow> fault + bool \<times> (inbox \<Rightarrow> inbox) option" where
  "note_decide item_id event by detail at_ms held s =
    (case held of
      Some (seat, generation) \<Rightarrow>
        if oc_generation (st_held (ib_seats s) seat) \<noteq> generation then Inr (False, None)
        else Inr (True, Some (push_entry item_id (Noted event by detail at_ms)))
    | None \<Rightarrow> Inr (True, Some (push_entry item_id (Noted event by detail at_ms))))"

definition mail_note ::
  "string \<Rightarrow> string \<Rightarrow> string \<Rightarrow> string \<Rightarrow> int \<Rightarrow> (string \<times> int) option \<Rightarrow> (inbox \<Rightarrow> inbox) \<Rightarrow> inbox \<Rightarrow> (fault + bool) \<times> inbox" where
  "mail_note item_id event by detail at_ms held other s =
    (case watch_loop (\<lambda>s. map_option (\<lambda>(seat, _). st_held (ib_seats s) seat) held) (note_decide item_id event by detail at_ms held) [other] s of
      (Inl (Swarm_Error _), s') \<Rightarrow> (Inr False, s')
    | r \<Rightarrow> r)"

definition set_about :: "string \<Rightarrow> string \<Rightarrow> inbox \<Rightarrow> inbox" where
  "set_about item_id entry s = s\<lparr>ib_about := (ib_about s)(item_id := entry)\<rparr>"


section \<open>Handing out the pool\<close>

text \<open>\<open>routed\<close> is the master intent routing matched to an item, where routing is on.\<close>

definition pooler :: string where "pooler = ''inbox''"

definition stage_claim :: "mail \<Rightarrow> string \<Rightarrow> string \<Rightarrow> int \<Rightarrow> inbox \<Rightarrow> inbox" where
  "stage_claim item address by now s =
    (let reason = ''claimed from the master pool by '' @ address;
         moved = item\<lparr>ml_address := address, ml_updated_at := now, ml_reason := reason\<rparr>
     in push_entry (ml_id item) (state_entry_of M_Pending by reason now '''')
          (stage_pending item address
            (change_row (ml_id item) (\<lambda>row. row\<lparr>mr_holder := Some address, mr_skip := None\<rparr>) (put_item moved s))))"

datatype claim_answer = No_Claim | Dropped | Claimed mail

definition claim_writes :: "string \<Rightarrow> string \<Rightarrow> mail \<Rightarrow> int \<Rightarrow> inbox \<Rightarrow> inbox" where
  "claim_writes slug seat item now s =
    (let s1 = s\<lparr>ib_pool := (ib_pool s)(slug := dpop (ml_id item) (ib_pool s slug)), ib_last := (ib_last s)(slug := seat),
                ib_holders := (ib_holders s)(slug := List.insert seat (ib_holders s slug))\<rparr>
     in stage_claim item seat pooler now s1)"

text \<open>The holders are read outside the transaction: \<open>held\<close> tells whether there were any.\<close>

definition claim_decide ::
  "string list \<Rightarrow> (string \<Rightarrow> string option) \<Rightarrow> bool \<Rightarrow> int \<Rightarrow> string \<Rightarrow> inbox \<Rightarrow> fault + claim_answer \<times> (inbox \<Rightarrow> inbox) option" where
  "claim_decide live routed held now slug s =
    (case zrange (ib_pool s slug) of
      [] \<Rightarrow> Inr (No_Claim, if held then None else Some (\<lambda>s. s\<lparr>ib_pools := removeAll slug (ib_pools s)\<rparr>))
    | item_id # _ \<Rightarrow>
        if live = [] then Inr (No_Claim, None)
        else case dget (ib_items s) item_id of
          None \<Rightarrow> Inr (Dropped, Some (\<lambda>s. s\<lparr>ib_pool := (ib_pool s)(slug := dpop item_id (ib_pool s slug))\<rparr>))
        | Some row \<Rightarrow>
            let item = mr_item row
            in if ml_state item \<noteq> M_Pending
               then Inr (Dropped, Some (\<lambda>s. s\<lparr>ib_pool := (ib_pool s)(slug := dpop item_id (ib_pool s slug))\<rparr>))
               else
                 let seat = (case routed item_id of
                       Some seat \<Rightarrow> if seat \<in> set live \<and> Some seat \<noteq> mr_skip row then seat else next_turn live (ib_last s slug) (mr_skip row)
                     | None \<Rightarrow> next_turn live (ib_last s slug) (mr_skip row))
                 in Inr (Claimed (item\<lparr>ml_address := seat, ml_updated_at := now, ml_reason := ''claimed from the master pool by '' @ seat\<rparr>),
                      Some (claim_writes slug seat item now)))"

definition claim_seen :: "string list \<Rightarrow> string \<Rightarrow> inbox \<Rightarrow> zset \<times> string \<times> mail_row option" where
  "claim_seen live slug s = (ib_pool s slug, ib_last s slug,
    case zrange (ib_pool s slug) of [] \<Rightarrow> None | item_id # _ \<Rightarrow> if live = [] then None else dget (ib_items s) item_id)"

text \<open>\<open>_claim_next\<close>: another process that keeps claiming carries on.\<close>

definition claim_next ::
  "string list \<Rightarrow> (string \<Rightarrow> string option) \<Rightarrow> bool \<Rightarrow> int \<Rightarrow> string \<Rightarrow> (inbox \<Rightarrow> inbox) list \<Rightarrow> inbox \<Rightarrow> (fault + claim_answer) \<times> inbox" where
  "claim_next live routed held now slug others s =
    (case watch_loop (claim_seen live slug) (claim_decide live routed held now slug) (take 3 others) s of
      (Inl (Swarm_Error _), s') \<Rightarrow> (Inr No_Claim, s')
    | r \<Rightarrow> r)"

text \<open>At most \<open>n\<close> claims; the list gives what was read and done by others around each.\<close>

fun distribute_loop ::
  "nat \<Rightarrow> string list \<Rightarrow> (string \<Rightarrow> string option) \<Rightarrow> (nat \<Rightarrow> bool) \<Rightarrow> int \<Rightarrow> string \<Rightarrow> (nat \<Rightarrow> (inbox \<Rightarrow> inbox) list) \<Rightarrow> mail list \<Rightarrow> inbox \<Rightarrow>
   (fault + mail list) \<times> inbox" where
  "distribute_loop 0 live routed held now slug others claimed s = (Inr claimed, s)"
| "distribute_loop (Suc n) live routed held now slug others claimed s =
    (case claim_next live routed (held n) now slug (others n) s of
      (Inl e, s') \<Rightarrow> (Inl e, s')
    | (Inr No_Claim, s') \<Rightarrow> (Inr claimed, s')
    | (Inr Dropped, s') \<Rightarrow> distribute_loop n live routed held now slug others claimed s'
    | (Inr (Claimed item), s') \<Rightarrow> distribute_loop n live routed held now slug others (claimed @ [item]) s')"

text \<open>The inner loop of \<open>_reclaim\<close> over the open items of a seat: whether to try again on the next pass.\<close>

fun reclaim_items ::
  "(string \<Rightarrow> string list) \<Rightarrow> int \<Rightarrow> string \<Rightarrow> (string \<Rightarrow> inbox \<Rightarrow> inbox) \<Rightarrow> string list \<Rightarrow> bool \<Rightarrow> inbox \<Rightarrow> (fault + bool) \<times> inbox" where
  "reclaim_items live now seat other [] retry s = (Inr retry, s)"
| "reclaim_items live now seat other (item_id # rest) retry s =
    (case return_to_pool live now item_id seat '''' (other item_id) s of
      (Inl e, s') \<Rightarrow> (Inl e, s')
    | (Inr moved, s') \<Rightarrow>
        reclaim_items live now seat other rest
          (retry \<or> (moved = None \<and> (case dget (ib_items s') item_id of None \<Rightarrow> False | Some row \<Rightarrow> mr_holder row = Some seat))) s')"

section \<open>Reading an address\<close>

text \<open>\<open>_present\<close>: the rows there are, and the ids whose record is gone.\<close>

definition present :: "inbox \<Rightarrow> string list \<Rightarrow> mail list \<times> string list" where
  "present s ids = (map mr_item (List.map_filter (dget (ib_items s)) ids), filter (\<lambda>item_id. \<not> dhas (ib_items s) item_id) ids)"

definition stage_drop :: "string \<Rightarrow> string list \<Rightarrow> inbox \<Rightarrow> inbox" where
  "stage_drop address gone s =
    (if gone = [] then s
     else size_add address (- int (length gone))
       (foldl (\<lambda>s item_id. drop_pending address item_id (drop_open address item_id (drop_address address item_id s))) s gone))"

definition mail_listed :: "inbox \<Rightarrow> string list \<Rightarrow> string \<Rightarrow> mail list \<times> inbox" where
  "mail_listed s ids address =
    (case present s ids of (items, gone) \<Rightarrow> (items, if gone = [] then s else stage_drop address gone s))"

definition mail_order :: "mail \<Rightarrow> int \<times> int \<times> string" where
  "mail_order item = (ml_created_at item, ml_sequence item, ml_id item)"

definition inbox_items :: "string \<Rightarrow> inbox \<Rightarrow> mail list \<times> inbox" where
  "inbox_items address s = (case mail_listed s (zrange (ib_address s address)) address of (items, s') \<Rightarrow> (sort_key mail_order items, s'))"

definition index_current :: "bool \<Rightarrow> int option \<Rightarrow> int \<Rightarrow> bool" where
  "index_current indexed held count \<longleftrightarrow> indexed \<and> held = Some count"

definition address_total :: "inbox \<Rightarrow> string \<Rightarrow> int" where
  "address_total s address = int (length (ib_address s address))"

definition mail_quiet :: "inbox \<Rightarrow> string \<Rightarrow> bool" where
  "mail_quiet s address \<longleftrightarrow> ib_open s address = [] \<and>
    (address_total s address = 0 \<or> index_current (address \<in> ib_open_indexed s) (ib_open_size s address) (address_total s address))"

definition quiet_addresses :: "inbox \<Rightarrow> string list \<Rightarrow> string list" where
  "quiet_addresses s addresses = filter (mail_quiet s) addresses"

definition mark_exits_settled :: "string list \<Rightarrow> inbox \<Rightarrow> inbox" where
  "mark_exits_settled names s =
    (if names = [] then s
     else let s1 = s\<lparr>ib_settled := ib_settled s \<union> set names\<rparr>
          in s1\<lparr>ib_settled := ib_settled s1 - {name \<in> set names. \<not> mail_quiet s1 name}\<rparr>)"

text \<open>\<open>_index_open\<close>: the open index of an address built anew from its items.\<close>

definition index_open_writes :: "string \<Rightarrow> zset \<Rightarrow> string list \<Rightarrow> int \<Rightarrow> inbox \<Rightarrow> inbox" where
  "index_open_writes address opened gone count s =
    (let s1 = stage_drop address gone s
     in s1\<lparr>ib_open := (ib_open s1)(address := opened), ib_open_indexed := insert address (ib_open_indexed s1),
           ib_open_size := (ib_open_size s1)(address := Some count)\<rparr>)"

definition opened_of :: "mail list \<Rightarrow> zset" where
  "opened_of items = map (\<lambda>item. (ml_id item, ml_created_at item)) (filter (\<lambda>item. \<not> closed_state (ml_state item)) items)"

definition index_open_decide :: "string \<Rightarrow> inbox \<Rightarrow> fault + string list \<times> (inbox \<Rightarrow> inbox) option" where
  "index_open_decide address s =
    (let ids = zrange (ib_address s address)
     in case present s ids of (items, gone) \<Rightarrow>
          Inr (map fst (opened_of items), Some (index_open_writes address (opened_of items) gone (int (length ids) - int (length gone)))))"

definition watched_rows :: "string \<Rightarrow> inbox \<Rightarrow> zset \<times> mail_row option list" where
  "watched_rows address s = (ib_address s address, map (dget (ib_items s)) (zrange (ib_address s address)))"

definition open_ids :: "string \<Rightarrow> (inbox \<Rightarrow> inbox) list \<Rightarrow> inbox \<Rightarrow> string list \<times> inbox" where
  "open_ids address others s =
    (if index_current (address \<in> ib_open_indexed s) (ib_open_size s address) (address_total s address)
     then (zrange (ib_open s address), s)
     else case watch_loop (watched_rows address) (index_open_decide address) (take move_attempts others) s of
       (Inr ids, s') \<Rightarrow> (ids, s')
     | (Inl _, s') \<Rightarrow> (case inbox_items address s' of (items, s'') \<Rightarrow>
         (map ml_id (filter (\<lambda>item. \<not> closed_state (ml_state item)) items), s'')))"

definition open_items :: "string \<Rightarrow> (inbox \<Rightarrow> inbox) list \<Rightarrow> inbox \<Rightarrow> mail list \<times> inbox" where
  "open_items address others s =
    (case open_ids address others s of (ids, s1) \<Rightarrow>
     case mail_listed s1 ids address of (items, s2) \<Rightarrow>
       let closed = map ml_id (filter (\<lambda>item. closed_state (ml_state item)) items)
       in (sort_key mail_order (filter (\<lambda>item. \<not> closed_state (ml_state item)) items),
           foldl (\<lambda>s item_id. drop_open address item_id s) s2 closed))"

text \<open>\<open>_back_fill\<close>: the pending index of an address built from its items, pool items left out.\<close>

definition back_fill_writes :: "string \<Rightarrow> mail list \<Rightarrow> string list \<Rightarrow> inbox \<Rightarrow> inbox" where
  "back_fill_writes address pending gone s =
    (let s1 = foldl (\<lambda>s item. add_pending address item s) (stage_drop address gone s) pending;
         s2 = (if pending = [] then s1 else set_wait address s1)
     in s2\<lparr>ib_indexed := insert address (ib_indexed s2)\<rparr>)"

definition back_fill_decide :: "string \<Rightarrow> inbox \<Rightarrow> fault + string list \<times> (inbox \<Rightarrow> inbox) option" where
  "back_fill_decide address s =
    (case present s (zrange (ib_address s address)) of (items, gone) \<Rightarrow>
       let pooled = (if pool_slug address = '''' then [] else map fst (ib_pool s (pool_slug address)));
           pending = filter (\<lambda>item. ml_state item = M_Pending \<and> ml_id item \<notin> set pooled) items
       in Inr (map ml_id pending, Some (back_fill_writes address pending gone)))"

definition back_fill_seen :: "string \<Rightarrow> inbox \<Rightarrow> (zset \<times> mail_row option list) \<times> zset option" where
  "back_fill_seen address s = (watched_rows address s, if pool_slug address = '''' then None else Some (ib_pool s (pool_slug address)))"

definition pending_ids :: "string \<Rightarrow> (inbox \<Rightarrow> inbox) list \<Rightarrow> inbox \<Rightarrow> string list \<times> inbox" where
  "pending_ids address others s =
    (if address \<in> ib_indexed s then (zrange (ib_pending s address), s)
     else case watch_loop (back_fill_seen address) (back_fill_decide address) (take move_attempts others) s of
       (Inr ids, s') \<Rightarrow> (ids, s')
     | (Inl _, s') \<Rightarrow> (case inbox_items address s' of (items, s'') \<Rightarrow> (map ml_id (filter (\<lambda>item. ml_state item = M_Pending) items), s'')))"

definition pending_items :: "string \<Rightarrow> (inbox \<Rightarrow> inbox) list \<Rightarrow> inbox \<Rightarrow> mail list \<times> inbox" where
  "pending_items address others s =
    (case pending_ids address others s of (ids, s1) \<Rightarrow>
     case mail_listed s1 ids address of (items, s2) \<Rightarrow> (sort_key mail_order items, s2))"


text \<open>\<open>pending\<close>: the waiting addresses in order, each id listed under the first that has it.\<close>

fun pending_owners ::
  "string list \<Rightarrow> (string \<Rightarrow> (inbox \<Rightarrow> inbox) list) \<Rightarrow> (string, string) dict \<Rightarrow> inbox \<Rightarrow> (string, string) dict \<times> inbox" where
  "pending_owners [] others owners s = (owners, s)"
| "pending_owners (address # rest) others owners s =
    (case pending_ids address (others address) s of (ids, s1) \<Rightarrow>
      pending_owners rest others (foldl (\<lambda>owners item_id. if dhas owners item_id then owners else dset item_id address owners) owners ids) s1)"

definition drop_dangling :: "(string, string) dict \<Rightarrow> string list \<Rightarrow> inbox \<Rightarrow> inbox" where
  "drop_dangling owners gone s =
    foldl (\<lambda>s address. stage_drop address (filter (\<lambda>item_id. dget owners item_id = Some address) gone) s) s
      (remdups (map (\<lambda>item_id. the (dget owners item_id)) gone))"

definition pending_all :: "(string \<Rightarrow> (inbox \<Rightarrow> inbox) list) \<Rightarrow> inbox \<Rightarrow> mail list \<times> inbox" where
  "pending_all others s =
    (case pending_owners (sort (ib_waiting s)) others [] s of (owners, s1) \<Rightarrow>
     case present s1 (dkeys owners) of (items, gone) \<Rightarrow> (sort_key mail_order items, drop_dangling owners gone s1))"

text \<open>\<open>unsettled\<close> of one address: open work taken but not settled since \<open>before\<close>.\<close>

definition unsettled_at :: "string \<Rightarrow> int \<Rightarrow> (inbox \<Rightarrow> inbox) \<Rightarrow> inbox \<Rightarrow> (fault + mail list) \<times> inbox" where
  "unsettled_at address before other s =
    (let due = (\<lambda>s. case mail_listed s (zrange_upto (ib_open s address) before) address of (items, s') \<Rightarrow>
          (Inr (filter (\<lambda>item. \<not> ml_fyi item \<and> ml_state item \<in> {M_Read, M_Confirmed} \<and> ml_updated_at item \<le> before) items), s'))
     in if index_current (address \<in> ib_open_indexed s) (ib_open_size s address) (address_total s address) then due s
        else case watch_loop (watched_rows address) (index_open_decide address) [other] s of
          (Inr _, s') \<Rightarrow> due s'
        | (Inl _, s') \<Rightarrow> (Inl Watch_Error, s'))"

section \<open>Passes over the pool and over what was delivered\<close>

definition pool_distribute ::
  "(string \<Rightarrow> string list) \<Rightarrow> (string \<Rightarrow> string option) \<Rightarrow> (nat \<Rightarrow> bool) \<Rightarrow> int \<Rightarrow> string \<Rightarrow> (nat \<Rightarrow> (inbox \<Rightarrow> inbox) list) \<Rightarrow>
   (string \<Rightarrow> (inbox \<Rightarrow> inbox) list) \<Rightarrow> (string \<Rightarrow> inbox \<Rightarrow> inbox) \<Rightarrow> inbox \<Rightarrow> (fault + mail list) \<times> inbox" where
  "pool_distribute live routed held now slug others indexing reclaiming s =
    (let reclaim = (\<lambda>(r, s) seat.
        case r of Inl e \<Rightarrow> (Inl e, s) | Inr u \<Rightarrow>
          (case open_items seat (indexing seat) s of (items, s1) \<Rightarrow>
           case reclaim_items live now seat reclaiming (map ml_id items) False s1 of
             (Inl e, s2) \<Rightarrow> (Inl e, s2)
           | (Inr retry, s2) \<Rightarrow>
               (Inr u, if retry then s2 else s2\<lparr>ib_holders := (ib_holders s2)(slug := removeAll seat (ib_holders s2 slug))\<rparr>)))
     in case foldl reclaim (Inr (), s) (sort (filter (\<lambda>seat. seat \<notin> set (live slug)) (ib_holders s slug))) of
          (Inl e, s1) \<Rightarrow> (Inl e, s1)
        | (Inr u, s1) \<Rightarrow> distribute_loop (length (ib_pool s1 slug) + 1) (live slug) routed held now slug others [] s1)"

definition pool_distribute_all ::
  "(string \<Rightarrow> inbox \<Rightarrow> (fault + mail list) \<times> inbox) \<Rightarrow> inbox \<Rightarrow> (fault + mail list) \<times> inbox" where
  "pool_distribute_all pass s =
    foldl (\<lambda>(r, s) slug.
        case r of Inl e \<Rightarrow> (Inl e, s) | Inr claimed \<Rightarrow>
          (case pass slug s of (Inl e, s') \<Rightarrow> (Inl e, s') | (Inr found, s') \<Rightarrow> (Inr (claimed @ found), s')))
      (Inr [], s) (sort (ib_pools s))"

text \<open>\<open>pass\<close> is \<open>pool_distribute\<close> of one pool, with what it reads and what others do meanwhile.\<close>

definition mail_redeliver ::
  "(string \<Rightarrow> string list) \<Rightarrow> int \<Rightarrow> int \<Rightarrow> int \<Rightarrow> (string \<Rightarrow> (inbox \<Rightarrow> inbox) list) \<Rightarrow>
   (string \<Rightarrow> inbox \<Rightarrow> (fault + mail list) \<times> inbox) \<Rightarrow> inbox \<Rightarrow> (fault + mail list) \<times> inbox" where
  "mail_redeliver live now at_ms window others pass s =
    (case requeue_due live at_ms (now - window) others (zrange_upto (ib_delivered s) (now - window)) [] s of
      (Inl e, s1) \<Rightarrow> (Inl e, s1)
    | (Inr moved, s1) \<Rightarrow> (case pool_distribute_all pass s1 of (Inl e, s2) \<Rightarrow> (Inl e, s2) | (Inr _, s2) \<Rightarrow> (Inr moved, s2)))"

text \<open>\<open>confirm_shown\<close>: what was delivered to the receiver before this event is confirmed, or returned when its session changed.\<close>

definition delivered_to :: "mail_entry list \<Rightarrow> string" where
  "delivered_to entries =
    (case filter (\<lambda>entry. case entry of Moved state _ _ _ _ \<Rightarrow> state = M_Delivered | Noted _ _ _ _ \<Rightarrow> False) entries of
      [] \<Rightarrow> '''' | found \<Rightarrow> en_by (last found))"

fun confirm_each ::
  "(string \<Rightarrow> string) \<Rightarrow> (string \<Rightarrow> string list) \<Rightarrow> string \<Rightarrow> int \<Rightarrow> string \<Rightarrow> int \<Rightarrow> (string \<Rightarrow> (inbox \<Rightarrow> inbox) list) \<Rightarrow> string list \<Rightarrow> mail list \<Rightarrow>
   inbox \<Rightarrow> (fault + mail list) \<times> inbox" where
  "confirm_each resolve live session now receiver before others [] confirmed s = (Inr confirmed, s)"
| "confirm_each resolve live session now receiver before others (item_id # rest) confirmed s =
    (if resolve (delivered_to (ib_history s item_id)) \<noteq> receiver
     then confirm_each resolve live session now receiver before others rest confirmed s
     else case dget (ib_items s) item_id of
       None \<Rightarrow> confirm_each resolve live session now receiver before others rest confirmed (drop_delivered item_id s)
     | Some row \<Rightarrow>
         if ml_session (mr_item row) \<noteq> session
         then (case mail_requeue live now item_id receiver ''receiving session changed'' (Some (before - 1)) (others item_id) s of
             (Inl e, s') \<Rightarrow> if inbox_fault e then confirm_each resolve live session now receiver before others rest confirmed s' else (Inl e, s')
           | (Inr _, s') \<Rightarrow> confirm_each resolve live session now receiver before others rest confirmed s')
         else (case mail_confirm resolve session now item_id receiver (others item_id) s of
             (Inl e, s') \<Rightarrow> if inbox_fault e then confirm_each resolve live session now receiver before others rest confirmed s' else (Inl e, s')
           | (Inr None, s') \<Rightarrow> confirm_each resolve live session now receiver before others rest confirmed s'
           | (Inr (Some item), s') \<Rightarrow> confirm_each resolve live session now receiver before others rest (confirmed @ [item]) s'))"

definition confirm_shown ::
  "(string \<Rightarrow> string) \<Rightarrow> (string \<Rightarrow> string list) \<Rightarrow> string \<Rightarrow> int \<Rightarrow> string \<Rightarrow> int \<Rightarrow> (string \<Rightarrow> (inbox \<Rightarrow> inbox) list) \<Rightarrow> inbox \<Rightarrow> (fault + mail list) \<times> inbox" where
  "confirm_shown resolve live session now receiver before others s =
    (if session = '''' then (Inr [], s)
     else confirm_each resolve live session now (resolve receiver) before others (zrange_upto (ib_delivered s) (before - 1)) [] s)"

section \<open>Sending and answering\<close>

definition send_writes :: "mail \<Rightarrow> bool \<Rightarrow> inbox \<Rightarrow> inbox" where
  "send_writes item pooled s =
    (let address = ml_address item;
         s1 = size_add address 1 (add_open address item (add_address address item (put_item item s)));
         s2 = (if pooled then pool_add item s1 else set_wait address (add_pending address item s1));
         s3 = push_entry (ml_id item) (state_entry_of M_Pending (ml_sender item) '''' (ml_created_at item) '''') s2
     in s3\<lparr>ib_wake := List.insert (ml_id item) (ib_wake s3)\<rparr>)"

definition send_decide :: "mail \<Rightarrow> bool \<Rightarrow> bool \<Rightarrow> inbox \<Rightarrow> fault + unit \<times> (inbox \<Rightarrow> inbox) option" where
  "send_decide item given pooled s =
    (if given \<and> dhas (ib_items s) (ml_id item) then Inl (Duplicate_Item (''message '' @ ml_id item @ '' was already sent''))
     else Inr ((), Some (send_writes item pooled)))"

definition take_sequence :: "string \<Rightarrow> inbox \<Rightarrow> inbox" where
  "take_sequence address s = s\<lparr>ib_sequence := (ib_sequence s)(address := ib_sequence s address + 1)\<rparr>"

text \<open>
  \<open>item_id\<close> is the given id, \<open>fresh\<close> the one made otherwise; \<open>now\<close> the time the message is dated. \<open>handing\<close> is the
  pass over the pool after a pooled message.
\<close>

definition mail_send ::
  "(string \<Rightarrow> string) \<Rightarrow> (string \<Rightarrow> bool) \<Rightarrow> (string \<Rightarrow> string list) \<Rightarrow> int \<Rightarrow> string \<Rightarrow> string \<Rightarrow> string \<Rightarrow> string \<Rightarrow> string \<Rightarrow> bool \<Rightarrow> string \<Rightarrow> string \<Rightarrow>
   (inbox \<Rightarrow> inbox) \<Rightarrow> (string \<Rightarrow> inbox \<Rightarrow> (fault + mail list) \<times> inbox) \<Rightarrow> inbox \<Rightarrow> (fault + mail) \<times> inbox" where
  "mail_send resolve vacant live now fresh sender address txt ref fyi task item_id other handing s =
    (if sender = '''' \<or> address = '''' \<or> py_strip txt = '''' then (Inl (Inbox_Error ''a message needs a sender, an address and text''), s)
     else
       let sender = resolve sender;
           (requested, address) = rerouted vacant (resolve address) (seat_recipient resolve (ib_seats s) (resolve address));
           s1 = take_sequence address s;
           item = \<lparr>ml_id = (if item_id = '''' then fresh else item_id), ml_sender = sender, ml_address = address, ml_text = txt,
             ml_state = M_Pending, ml_created_at = now, ml_updated_at = now, ml_reason = '''', ml_ref = ref,
             ml_sequence = ib_sequence s1 address, ml_fyi = fyi, ml_task = task, ml_session = ''''\<rparr>;
           pooled = masters_for live sender requested \<noteq> [];
           given = (item_id \<noteq> '''')
       in case watch_loop (\<lambda>s. if given then dget (ib_items s) item_id else None) (send_decide item given pooled) [other] s1 of
            (Inl (Swarm_Error _), s2) \<Rightarrow> (Inl Watch_Error, s2)
          | (Inl e, s2) \<Rightarrow> (Inl e, s2)
          | (Inr _, s2) \<Rightarrow>
              if pooled then (case handing (pool_slug address) s2 of (Inl e, s3) \<Rightarrow> (Inl e, s3) | (Inr _, s3) \<Rightarrow> (Inr item, s3))
              else (Inr item, s2))"


text \<open>The steps of a reply are no transaction: \<open>between n\<close> is what others do before its \<open>n\<close>th step.\<close>

definition mail_get :: "inbox \<Rightarrow> string \<Rightarrow> fault + mail" where
  "mail_get s item_id = (case dget (ib_items s) item_id of None \<Rightarrow> Inl (Gone (''no message '' @ item_id)) | Some row \<Rightarrow> Inr (mr_item row))"

definition answered :: "mail \<Rightarrow> string \<Rightarrow> bool" where
  "answered item answer_id \<longleftrightarrow> close_reason ''done'' (replied answer_id) = Inr (ml_state item, ml_reason item)"

definition close_reply ::
  "(string \<Rightarrow> string) \<Rightarrow> (string \<Rightarrow> string) \<Rightarrow> string \<Rightarrow> int \<Rightarrow> string \<Rightarrow> string \<Rightarrow> string \<Rightarrow> string \<Rightarrow> (inbox \<Rightarrow> inbox) list \<Rightarrow> inbox \<Rightarrow>
   (fault + unit) \<times> inbox" where
  "close_reply resolve slug_of session now item_id replier reply_id operation_id others s =
    (case mail_get s item_id of
      Inl e \<Rightarrow> (Inl e, s)
    | Inr item \<Rightarrow>
        if answered item reply_id
        then (if operation_id = reply_id
              then (Inl (Duplicate_Item (''message '' @ item_id @ '' was already answered with message '' @ reply_id)), s)
              else (Inr (), s))
        else (case mail_close resolve slug_of session now item_id replier ''done'' (replied reply_id) None others s of
            (Inr _, s') \<Rightarrow> (Inr (), s')
          | (Inl e, s') \<Rightarrow>
              if inbox_fault e
              then (case mail_get s' item_id of
                  Inl e' \<Rightarrow> (Inl e', s')
                | Inr item \<Rightarrow> if answered item reply_id then (Inr (), s') else (Inl e, s'))
              else (Inl e, s')))"

definition set_reply :: "string \<Rightarrow> string \<Rightarrow> string \<Rightarrow> inbox \<Rightarrow> inbox" where
  "set_reply item_id replier reply_id s =
    change_row item_id (\<lambda>row. if dhas (mr_replies row) replier then row else row\<lparr>mr_replies := dset replier reply_id (mr_replies row)\<rparr>) s"

definition reply_slot :: "inbox \<Rightarrow> string \<Rightarrow> string \<Rightarrow> string option" where
  "reply_slot s item_id replier = Option.bind (dget (ib_items s) item_id) (\<lambda>row. dget (mr_replies row) replier)"

text \<open>What a retry has to keep.\<close>

definition same_reply :: "(string \<Rightarrow> string) \<Rightarrow> mail \<Rightarrow> mail \<Rightarrow> string \<Rightarrow> string \<Rightarrow> bool \<Rightarrow> bool \<Rightarrow> bool" where
  "same_reply resolve item answer replier txt fyi legacy \<longleftrightarrow>
    (resolve (ml_sender answer), ml_text answer, ml_fyi answer) = (replier, txt, fyi) \<and>
    (ml_ref answer = ml_id item \<or>
     (ml_ref answer = '''' \<and> (legacy \<or> resolve (ml_address answer) = resolve (ml_sender item))))"

definition mail_reply ::
  "(string \<Rightarrow> string) \<Rightarrow> (string \<Rightarrow> string) \<Rightarrow> (string \<Rightarrow> bool) \<Rightarrow> (string \<Rightarrow> string list) \<Rightarrow> string \<Rightarrow> int \<Rightarrow> string \<Rightarrow> string \<Rightarrow> string \<Rightarrow> string \<Rightarrow> bool \<Rightarrow>
   string \<Rightarrow> (nat \<Rightarrow> inbox \<Rightarrow> inbox) \<Rightarrow> (inbox \<Rightarrow> inbox) list \<Rightarrow> (string \<Rightarrow> inbox \<Rightarrow> (fault + mail list) \<times> inbox) \<Rightarrow> inbox \<Rightarrow> (fault + mail) \<times> inbox" where
  "mail_reply resolve slug_of vacant live session now fresh item_id replier txt fyi answer_id between others handing s =
    (case mail_get s item_id of
      Inl e \<Rightarrow> (Inl e, s)
    | Inr item \<Rightarrow>
        let replier = resolve replier;
            door = master_of slug_of (resolve replier);
            holds = (door \<noteq> '''' \<and> (if is_seat (resolve replier) then resolve replier else seat_of resolve (ib_seats s) (resolve replier)) = door)
        in if \<not> acts_for resolve s replier (ml_address item)
           then (Inl (Inbox_Error (''message '' @ item_id @ '' belongs to '' @ ml_address item @ '', not '' @ replier)), s)
           else if py_strip txt = '''' then (Inl (Inbox_Error ''a reply needs text''), s)
           else if ml_sender item = operator_name \<and> door \<noteq> '''' \<and> \<not> holds
           then (if closed_state (ml_state item) then (Inl (Inbox_Error (''message '' @ item_id @ '' is closed: '' @ ml_reason item)), s)
                 else
                   \<comment> \<open>\<open>_refer\<close>: only the front door answers the operator\<close>
                   (case mail_send resolve vacant live now fresh replier door txt (ml_id item) fyi '''' answer_id (between 0) handing s of
                      (Inr answer, s1) \<Rightarrow>
                        (case mail_redirect now (ml_id item) replier door (''handed to '' @ door @ '': only the front door answers the operator'') '''' (Some '''') others s1 of
                           (Inl e, s2) \<Rightarrow> (Inl e, s2) | (Inr _, s2) \<Rightarrow> (Inr answer, s2))
                    | (Inl (Duplicate_Item _), s1) \<Rightarrow>
                        (case mail_get s1 answer_id of Inl e \<Rightarrow> (Inl e, s1) | Inr answer \<Rightarrow>
                          (case mail_redirect now (ml_id item) replier door (''handed to '' @ door @ '': only the front door answers the operator'') '''' (Some '''') others s1 of
                             (Inl e, s2) \<Rightarrow> (Inl e, s2) | (Inr _, s2) \<Rightarrow> (Inr answer, s2)))
                    | (Inl e, s1) \<Rightarrow> (Inl e, s1)))
           else
             let legacy = (answer_id \<noteq> '''' \<and> answered item answer_id)
             in if closed_state (ml_state item) \<and> reply_slot s item_id replier = None \<and> \<not> legacy
                then (Inl (Inbox_Error (''message '' @ item_id @ '' is closed: '' @ ml_reason item)), s)
                else
                  let s1 = set_reply item_id replier (if answer_id = '''' then fresh else answer_id) (between 0 s);
                      s2 = between 1 s1;
                      reply_id = (case reply_slot s2 item_id replier of None \<Rightarrow> '''' | Some r \<Rightarrow> r);
                      s3 = between 2 s2
                  in if answer_id = reply_id \<and> (case dget (ib_items s3) reply_id of None \<Rightarrow> False | Some row \<Rightarrow> ml_state (mr_item row) = M_Cancelled)
                     then (Inl (Inbox_Error (''answer '' @ reply_id @ '' to message '' @ item_id @ '' was refused'')), s3)
                     else
                       let s4 = (if ib_about s3 item_id \<noteq> '''' then set_about reply_id (ib_about s3 item_id) s3 else s3)
                       in case mail_send resolve vacant live now fresh replier (ml_sender item) txt item_id fyi '''' reply_id (between 3) handing s4 of
                            (Inr answer, s5) \<Rightarrow>
                              (case close_reply resolve slug_of session now item_id replier (ml_id answer) answer_id others (between 4 s5) of
                                 (Inl e, s6) \<Rightarrow> (Inl e, s6) | (Inr _, s6) \<Rightarrow> (Inr answer, s6))
                          | (Inl e, s5) \<Rightarrow>
                              if e = Watch_Error \<or> (case e of Duplicate_Item _ \<Rightarrow> True | _ \<Rightarrow> False)
                              then (case mail_get s5 reply_id of
                                  Inl e \<Rightarrow> (Inl e, s5)
                                | Inr answer \<Rightarrow>
                                    if \<not> same_reply resolve item answer replier txt fyi legacy
                                    then (Inl (Inbox_Error ''a reply retry must keep its sender, recipient, text and informational flag''), s5)
                                    else (case close_reply resolve slug_of session now item_id replier (ml_id answer) answer_id others (between 4 s5) of
                                       (Inl e, s6) \<Rightarrow> (Inl e, s6) | (Inr _, s6) \<Rightarrow> (Inr answer, s6)))
                              else (Inl e, s5))"

end
