(* ===== verification/Inbox_Laws.thy ===== *)
theory Inbox_Laws
  imports Inbox
begin

text \<open>
  What the inbox keeps: the indexes list exactly the messages their names say, whoever moves them, and the history of a
  message is a path of its state machine. The invariant is stated for the \<open>slice\<close> of one message (its row, its history,
  its place in every index); the elementary writes act on slices, so a transaction is checked on the slice of the
  message it moves.
\<close>

section \<open>The slice of a message\<close>

record mail_slice =
  sl_row :: "mail_row option"
  sl_history :: "mail_entry list"
  sl_address :: "string \<Rightarrow> int option"
  sl_open :: "string \<Rightarrow> int option"
  sl_pending :: "string \<Rightarrow> int option"
  sl_delivered :: "int option"
  sl_pool :: "string \<Rightarrow> int option"

definition slice :: "inbox \<Rightarrow> string \<Rightarrow> mail_slice" where
  "slice s i = \<lparr>sl_row = dget (ib_items s) i, sl_history = ib_history s i, sl_address = (\<lambda>a. dget (ib_address s a) i),
    sl_open = (\<lambda>a. dget (ib_open s a) i), sl_pending = (\<lambda>a. dget (ib_pending s a) i), sl_delivered = dget (ib_delivered s) i,
    sl_pool = (\<lambda>slug. dget (ib_pool s slug) i)\<rparr>"

named_theorems slices \<open>the elementary writes on slices\<close>

lemma slice_put_item [slices]:
  "slice (put_item m s) i = (if i = ml_id m then (slice s i)\<lparr>sl_row := Some (case sl_row (slice s i) of
     None \<Rightarrow> \<lparr>mr_item = m, mr_holder = None, mr_skip = None, mr_replies = []\<rparr> | Some row \<Rightarrow> row\<lparr>mr_item := m\<rparr>)\<rparr> else slice s i)"
  by (auto simp: slice_def put_item_def dget_dset)

lemma slice_change_row [slices]:
  "slice (change_row k f s) i = (if i = k then (slice s i)\<lparr>sl_row := map_option f (sl_row (slice s i))\<rparr> else slice s i)"
  by (auto simp: slice_def change_row_def dget_dset split: option.splits)

lemma slice_push_entry [slices]:
  "slice (push_entry k ent s) i = (if i = k then (slice s i)\<lparr>sl_history := sl_history (slice s i) @ [ent]\<rparr> else slice s i)"
  by (auto simp: slice_def push_entry_def)

lemma slice_add_pending [slices]:
  "slice (add_pending a m s) i = (if i = ml_id m then (slice s i)\<lparr>sl_pending := (sl_pending (slice s i))(a := Some (ml_created_at m))\<rparr> else slice s i)"
  by (auto simp: slice_def add_pending_def dget_dset fun_eq_iff)

lemma slice_drop_pending [slices]:
  "slice (drop_pending a k s) i = (if i = k then (slice s i)\<lparr>sl_pending := (sl_pending (slice s i))(a := None)\<rparr> else slice s i)"
  by (auto simp: slice_def drop_pending_def dget_dpop fun_eq_iff)

lemma slice_add_open [slices]:
  "slice (add_open a m s) i = (if i = ml_id m then (slice s i)\<lparr>sl_open := (sl_open (slice s i))(a := Some (ml_created_at m))\<rparr> else slice s i)"
  by (auto simp: slice_def add_open_def dget_dset fun_eq_iff)

lemma slice_drop_open [slices]:
  "slice (drop_open a k s) i = (if i = k then (slice s i)\<lparr>sl_open := (sl_open (slice s i))(a := None)\<rparr> else slice s i)"
  by (auto simp: slice_def drop_open_def dget_dpop fun_eq_iff)

lemma slice_add_address [slices]:
  "slice (add_address a m s) i = (if i = ml_id m then (slice s i)\<lparr>sl_address := (sl_address (slice s i))(a := Some (ml_created_at m))\<rparr> else slice s i)"
  by (auto simp: slice_def add_address_def dget_dset fun_eq_iff)

lemma slice_drop_address [slices]:
  "slice (drop_address a k s) i = (if i = k then (slice s i)\<lparr>sl_address := (sl_address (slice s i))(a := None)\<rparr> else slice s i)"
  by (auto simp: slice_def drop_address_def dget_dpop fun_eq_iff)

lemma slice_delivered [slices]:
  "slice (drop_delivered k s) i = (if i = k then (slice s i)\<lparr>sl_delivered := None\<rparr> else slice s i)"
  "slice (s\<lparr>ib_delivered := dset k n (ib_delivered s)\<rparr>) i = (if i = k then (slice s i)\<lparr>sl_delivered := Some n\<rparr> else slice s i)"
  by (auto simp: slice_def drop_delivered_def dget_dpop dget_dset)

lemma slice_pool_add [slices]:
  "slice (pool_add m s) i =
    (if i = ml_id m then (slice s i)\<lparr>sl_pool := (sl_pool (slice s i))(pool_slug (ml_address m) := Some (ml_sequence m))\<rparr> else slice s i)"
  by (auto simp: slice_def pool_add_def Let_def dget_dset fun_eq_iff)

lemma slice_pool_drop [slices]:
  "slice (s\<lparr>ib_pool := (ib_pool s)(slug := dpop k (ib_pool s slug))\<rparr>) i =
    (if i = k then (slice s i)\<lparr>sl_pool := (sl_pool (slice s i))(slug := None)\<rparr> else slice s i)"
  by (auto simp: slice_def dget_dpop fun_eq_iff)

lemma slice_pool_remove [slices]:
  "slice (pool_remove m s) i =
    (if i = ml_id m \<and> pool_slug (ml_address m) \<noteq> '''' then (slice s i)\<lparr>sl_pool := (sl_pool (slice s i))(pool_slug (ml_address m) := None)\<rparr>
     else slice s i)"
  by (auto simp: pool_remove_def Let_def slices)

lemma slice_aside [slices]:
  "slice (size_add a n s) i = slice s i" "slice (set_wait a s) i = slice s i" "slice (drop_wait e a s) i = slice s i"
  "slice (take_sequence a s) i = slice s i" "slice (set_about k entry s) i = slice s i" "slice (s\<lparr>ib_pools := pools\<rparr>) i = slice s i"
  "slice (s\<lparr>ib_wake := wake\<rparr>) i = slice s i" "slice (s\<lparr>ib_last := lasts\<rparr>) i = slice s i" "slice (s\<lparr>ib_holders := holders\<rparr>) i = slice s i"
  "slice (s\<lparr>ib_seats := st\<rparr>) i = slice s i" "slice (s\<lparr>ib_owner := own\<rparr>) i = slice s i" "slice (s\<lparr>ib_settled := names\<rparr>) i = slice s i"
  "slice (s\<lparr>ib_reservation := rv\<rparr>) i = slice s i" "slice (s\<lparr>ib_delivery := dv\<rparr>) i = slice s i"
  "slice (s\<lparr>ib_indexed := ind\<rparr>) i = slice s i" "slice (s\<lparr>ib_open_indexed := ind\<rparr>) i = slice s i" "slice (s\<lparr>ib_open_size := size_of\<rparr>) i = slice s i"
  "slice (s\<lparr>ib_last := lasts, ib_holders := holders\<rparr>) i = slice s i"
  by (simp_all add: slice_def size_add_def set_wait_def drop_wait_def take_sequence_def set_about_def)

lemma slice_move_address [slices]:
  "slice (move_address m a s) i = (if i = ml_id m then (slice s i)\<lparr>
      sl_address := (sl_address (slice s i))(ml_address m := None, a := Some (ml_created_at m)),
      sl_open := (if a = ml_address m then sl_open (slice s i) else (sl_open (slice s i))(ml_address m := None))(a := Some (ml_created_at m))\<rparr>
    else slice s i)"
  by (auto simp: move_address_def Let_def slices fun_upd_twist)

section \<open>What a slice has to be\<close>

definition states_of :: "mail_entry list \<Rightarrow> mail_state list" where
  "states_of entries = List.map_filter (\<lambda>entry. case entry of Moved state _ _ _ _ \<Rightarrow> Some state | Noted _ _ _ _ \<Rightarrow> None) entries"

lemma states_of_simps [simp]:
  "states_of [] = []" "states_of (xs @ ys) = states_of xs @ states_of ys" "states_of [Noted e b d n] = []"
  "states_of [state_entry_of state by reason n session] = [state]"
  by (simp_all add: states_of_def map_filter_def state_entry_of_def)

text \<open>The state machine of a message.\<close>

definition may_follow :: "mail_state \<Rightarrow> mail_state \<Rightarrow> bool" where
  "may_follow a b \<longleftrightarrow>
    (if closed_state a then a = M_Done \<and> b = M_Read
     else closed_state b \<or> b = M_Pending \<or> (b = M_Read \<and> a \<noteq> M_Read) \<or> (b = M_Delivered \<and> a = M_Pending) \<or>
          (b = M_Confirmed \<and> (a = M_Delivered \<or> a = M_Read)))"

definition mail_path :: "mail_state list \<Rightarrow> mail_state \<Rightarrow> bool" where
  "mail_path states state \<longleftrightarrow> states \<noteq> [] \<and> hd states = M_Pending \<and> last states = state \<and> successively may_follow states"

lemma mail_path_snoc: "mail_path states state \<Longrightarrow> may_follow state state' \<Longrightarrow> mail_path (states @ [state']) state'"
  by (auto simp: mail_path_def successively_append_iff)

lemma mail_path_start: "mail_path [M_Pending] M_Pending"
  by (simp add: mail_path_def)

definition door_seat :: "string \<Rightarrow> bool" where
  "door_seat seat \<longleftrightarrow> pool_slug (master_of legacy_slug seat) \<noteq> ''''"

text \<open>
  A message that was ever closed may be missing in the open index (\<open>open_items\<close> sweeps what it saw closed without a
  watch), and a delivery made without a session in the index of deliveries (a receipt leaves it out).
\<close>

definition was_closed :: "mail_entry list \<Rightarrow> bool" where
  "was_closed entries \<longleftrightarrow> list_ex closed_state (states_of entries)"

lemma was_closed_more [simp]: "was_closed xs \<Longrightarrow> was_closed (xs @ ys)"
  by (simp add: was_closed_def)

definition open_ok :: "mail \<Rightarrow> mail_entry list \<Rightarrow> (string \<Rightarrow> int option) \<Rightarrow> bool" where
  "open_ok item entries opens \<longleftrightarrow>
    opens = (\<lambda>a. if a = ml_address item \<and> \<not> closed_state (ml_state item) then Some (ml_created_at item) else None) \<or>
    (opens = (\<lambda>_. None) \<and> was_closed entries)"

definition delivered_ok :: "mail \<Rightarrow> int option \<Rightarrow> bool" where
  "delivered_ok item kept \<longleftrightarrow>
    (if ml_state item = M_Delivered then kept = Some (ml_updated_at item) \<or> (ml_session item = '''' \<and> kept = None) else kept = None)"

definition slice_ok :: "string \<Rightarrow> mail_slice \<Rightarrow> bool" where
  "slice_ok i sl \<longleftrightarrow>
    (case sl_row sl of
      None \<Rightarrow> sl_address sl = (\<lambda>_. None) \<and> sl_open sl = (\<lambda>_. None) \<and> sl_pending sl = (\<lambda>_. None) \<and> sl_delivered sl = None \<and>
        sl_pool sl = (\<lambda>_. None) \<and> states_of (sl_history sl) = []
    | Some row \<Rightarrow>
        let item = mr_item row; here = (\<lambda>b. (\<lambda>a. if a = ml_address item \<and> b then Some (ml_created_at item) else None));
            pooled = (\<exists>slug. sl_pool sl slug \<noteq> None)
        in ml_id item = i \<and> sl_address sl = here True \<and>
           open_ok item (sl_history sl) (sl_open sl) \<and>
           sl_pending sl = here (ml_state item = M_Pending \<and> \<not> pooled) \<and> delivered_ok item (sl_delivered sl) \<and>
           (\<forall>slug. sl_pool sl slug \<noteq> None \<longrightarrow> ml_state item = M_Pending \<and> slug = pool_slug (ml_address item) \<and> slug \<noteq> '''') \<and>
           (\<forall>h. mr_holder row = Some h \<longrightarrow> ml_address item = h \<and> door_seat h) \<and>
           mail_path (states_of (sl_history sl)) (ml_state item))"

definition waits_ok :: "inbox \<Rightarrow> bool" where
  "waits_ok s \<longleftrightarrow> (\<forall>a. ib_pending s a \<noteq> [] \<longrightarrow> a \<in> set (ib_waiting s))"

definition size_of :: "inbox \<Rightarrow> string \<Rightarrow> int" where
  "size_of s a = (case ib_open_size s a of None \<Rightarrow> 0 | Some n \<Rightarrow> n)"

definition sizes_ok :: "inbox \<Rightarrow> bool" where
  "sizes_ok s \<longleftrightarrow> (\<forall>a. wf_dict (ib_address s a) \<and> size_of s a = int (length (ib_address s a)))"

definition mail_ok :: "inbox \<Rightarrow> bool" where
  "mail_ok s \<longleftrightarrow> (\<forall>i. slice_ok i (slice s i)) \<and> waits_ok s \<and> sizes_ok s"


lemma mail_ok_change:
  assumes "mail_ok s" "\<And>j. j \<noteq> i \<Longrightarrow> slice s' j = slice s j" "slice_ok i (slice s' i)" "waits_ok s'" "sizes_ok s'"
  shows "mail_ok s'"
  using assms unfolding mail_ok_def by metis

section \<open>Who waits, and how many there are\<close>

named_theorems waits \<open>the elementary writes and the waiting addresses\<close>

lemma pending_kept [waits]:
  "ib_pending (put_item m s) = ib_pending s" "ib_pending (change_row k f s) = ib_pending s" "ib_pending (push_entry k ent s) = ib_pending s"
  "ib_pending (add_open a m s) = ib_pending s" "ib_pending (drop_open a k s) = ib_pending s" "ib_pending (add_address a m s) = ib_pending s"
  "ib_pending (drop_address a k s) = ib_pending s" "ib_pending (drop_delivered k s) = ib_pending s" "ib_pending (pool_add m s) = ib_pending s"
  "ib_pending (pool_remove m s) = ib_pending s" "ib_pending (size_add a n s) = ib_pending s" "ib_pending (take_sequence a s) = ib_pending s"
  "ib_pending (move_address m a s) = ib_pending s" "ib_pending (set_wait a s) = ib_pending s" "ib_pending (drop_wait e a s) = ib_pending s"
  by (auto simp: put_item_def change_row_def push_entry_def add_open_def drop_open_def add_address_def drop_address_def drop_delivered_def
      pool_add_def pool_remove_def size_add_def take_sequence_def move_address_def set_wait_def drop_wait_def Let_def split: option.splits)

lemma waiting_kept [waits]:
  "ib_waiting (put_item m s) = ib_waiting s" "ib_waiting (change_row k f s) = ib_waiting s" "ib_waiting (push_entry k ent s) = ib_waiting s"
  "ib_waiting (add_open a m s) = ib_waiting s" "ib_waiting (drop_open a k s) = ib_waiting s" "ib_waiting (add_address a m s) = ib_waiting s"
  "ib_waiting (drop_address a k s) = ib_waiting s" "ib_waiting (drop_delivered k s) = ib_waiting s" "ib_waiting (pool_add m s) = ib_waiting s"
  "ib_waiting (pool_remove m s) = ib_waiting s" "ib_waiting (size_add a n s) = ib_waiting s" "ib_waiting (take_sequence a s) = ib_waiting s"
  "ib_waiting (move_address m a s) = ib_waiting s" "ib_waiting (add_pending a m s) = ib_waiting s" "ib_waiting (drop_pending a k s) = ib_waiting s"
  by (auto simp: put_item_def change_row_def push_entry_def add_open_def drop_open_def add_address_def drop_address_def drop_delivered_def
      pool_add_def pool_remove_def size_add_def take_sequence_def move_address_def add_pending_def drop_pending_def Let_def split: option.splits)

lemma waits_same: "ib_pending s' = ib_pending s \<Longrightarrow> ib_waiting s' = ib_waiting s \<Longrightarrow> waits_ok s' = waits_ok s"
  by (simp add: waits_ok_def)

lemma waits_kept [waits]:
  "waits_ok (put_item m s) = waits_ok s" "waits_ok (change_row k f s) = waits_ok s" "waits_ok (push_entry k ent s) = waits_ok s"
  "waits_ok (add_open a m s) = waits_ok s" "waits_ok (drop_open a k s) = waits_ok s" "waits_ok (drop_delivered k s) = waits_ok s"
  "waits_ok (pool_add m s) = waits_ok s" "waits_ok (pool_remove m s) = waits_ok s" "waits_ok (size_add a n s) = waits_ok s"
  "waits_ok (take_sequence a s) = waits_ok s" "waits_ok (move_address m a s) = waits_ok s" "waits_ok (add_address a m s) = waits_ok s"
  "waits_ok (s\<lparr>ib_wake := wake\<rparr>) = waits_ok s" "waits_ok (s\<lparr>ib_pools := pools\<rparr>) = waits_ok s"
  "waits_ok (s\<lparr>ib_delivered := dl\<rparr>) = waits_ok s" "waits_ok (s\<lparr>ib_pool := pool\<rparr>) = waits_ok s"
  "waits_ok (s\<lparr>ib_pool := pool, ib_last := lasts, ib_holders := holders\<rparr>) = waits_ok s"
  by (rule waits_same; simp add: waits)+

lemma dpop_nil [simp]: "dpop k [] = []" by simp

lemma waits_moves:
  "waits_ok s \<Longrightarrow> waits_ok (drop_pending a k s)"
  "waits_ok s \<Longrightarrow> waits_ok (set_wait a (add_pending a m s))"
  "waits_ok s \<Longrightarrow> (emptied \<Longrightarrow> ib_pending s a = []) \<Longrightarrow> waits_ok (drop_wait emptied a s)"
  by (auto simp: waits_ok_def drop_pending_def set_wait_def add_pending_def drop_wait_def split: if_splits) (metis dpop_nil)

lemma last_pending_dropped:
  assumes "last_pending s item" "ib_pending s' = ib_pending s"
  shows "ib_pending (drop_pending (ml_address item) (ml_id item) s') (ml_address item) = []"
proof -
  obtain p where "ib_pending s (ml_address item) = [p]" using assms(1) by (auto simp: last_pending_def length_Suc_conv One_nat_def)
  then show ?thesis using assms by (cases p) (simp add: last_pending_def dhas_def drop_pending_def split: if_splits)
qed

lemma waits_drop:
  assumes "waits_ok s'" "ib_pending s' = ib_pending s"
  shows "waits_ok (drop_wait (last_pending s item) (ml_address item) (drop_pending (ml_address item) (ml_id item) s'))"
  using assms waits_moves(1)[OF assms(1)] last_pending_dropped[OF _ assms(2)] by (intro waits_moves(3)) auto

named_theorems sizes \<open>the elementary writes and the open counts\<close>

lemma sizes_same: "ib_address s' = ib_address s \<Longrightarrow> ib_open_size s' = ib_open_size s \<Longrightarrow> sizes_ok s' = sizes_ok s"
  by (simp add: sizes_ok_def size_of_def)

lemma sizes_kept [sizes]:
  "sizes_ok (put_item m s) = sizes_ok s" "sizes_ok (change_row k f s) = sizes_ok s" "sizes_ok (push_entry k ent s) = sizes_ok s"
  "sizes_ok (add_open a m s) = sizes_ok s" "sizes_ok (drop_open a k s) = sizes_ok s" "sizes_ok (drop_delivered k s) = sizes_ok s"
  "sizes_ok (pool_add m s) = sizes_ok s" "sizes_ok (pool_remove m s) = sizes_ok s" "sizes_ok (take_sequence a s) = sizes_ok s"
  "sizes_ok (add_pending a m s) = sizes_ok s" "sizes_ok (drop_pending a k s) = sizes_ok s" "sizes_ok (set_wait a s) = sizes_ok s"
  "sizes_ok (drop_wait e a s) = sizes_ok s" "sizes_ok (s\<lparr>ib_wake := wake\<rparr>) = sizes_ok s" "sizes_ok (s\<lparr>ib_pools := pools\<rparr>) = sizes_ok s"
  "sizes_ok (s\<lparr>ib_delivered := dl\<rparr>) = sizes_ok s" "sizes_ok (s\<lparr>ib_pool := pool\<rparr>) = sizes_ok s"
  "sizes_ok (s\<lparr>ib_pool := pool, ib_last := lasts, ib_holders := holders\<rparr>) = sizes_ok s"
  by (rule sizes_same; auto simp: put_item_def change_row_def push_entry_def add_open_def drop_open_def drop_delivered_def pool_add_def
      pool_remove_def take_sequence_def add_pending_def drop_pending_def set_wait_def drop_wait_def Let_def split: option.splits)+

lemma length_dset: "length (dset k v d) = (if dhas d k then length d else length d + 1)"
  by (induction d) (auto simp: dhas_def)

lemma length_dpop: "wf_dict d \<Longrightarrow> length (dpop k d) = (if dhas d k then length d - 1 else length d)"
proof (induction d)
  case (Cons p d)
  have "k \<notin> fst ` set d \<Longrightarrow> dpop k d = d" by (induction d) auto
  then show ?case using Cons by (cases p; cases d) (auto simp: dhas_def map_of_eq_None_iff)
qed (simp add: dhas_def)

lemma sizes_grown:
  assumes "sizes_ok s" "dget (ib_address s a) (ml_id m) = None"
  shows "sizes_ok (size_add a 1 (add_open a m (add_address a m s)))"
  using assms by (auto simp: sizes_ok_def size_of_def size_add_def add_open_def add_address_def length_dset dhas_def split: option.splits)


lemma sizes_moved:
  assumes "sizes_ok s" "dget (ib_address s (ml_address m)) (ml_id m) \<noteq> None"
    and "a \<noteq> ml_address m \<Longrightarrow> dget (ib_address s a) (ml_id m) = None"
  shows "sizes_ok (move_address m a s)"
proof -
  have "1 \<le> length (ib_address s (ml_address m))" using assms(2) by (cases "ib_address s (ml_address m)") auto
  then show ?thesis using assms
    by (auto simp: of_nat_diff simp: sizes_ok_def size_of_def move_address_def Let_def size_add_def add_open_def add_address_def drop_address_def drop_open_def
        length_dset length_dpop dhas_def dget_dpop split: option.splits)
qed

section \<open>Every transaction keeps it\<close>

lemma slice_row: "sl_row (slice s i) = dget (ib_items s) i"
  by (simp add: slice_def)

lemma mail_ok_slice: "mail_ok s \<Longrightarrow> slice_ok i (slice s i)"
  by (simp add: mail_ok_def)

text \<open>What the invariant says of a message that is there.\<close>

lemma slice_facts:
  assumes "mail_ok s" "dget (ib_items s) i = Some row"
  shows "ml_id (mr_item row) = i"
    "sl_address (slice s i) = (\<lambda>a. if a = ml_address (mr_item row) then Some (ml_created_at (mr_item row)) else None)"
    "open_ok (mr_item row) (sl_history (slice s i)) (sl_open (slice s i))"
    "sl_pending (slice s i) = (\<lambda>a. if a = ml_address (mr_item row) \<and> ml_state (mr_item row) = M_Pending \<and> (\<forall>slug. sl_pool (slice s i) slug = None)
       then Some (ml_created_at (mr_item row)) else None)"
    "delivered_ok (mr_item row) (sl_delivered (slice s i))"
    "sl_pool (slice s i) slug = Some n \<Longrightarrow> ml_state (mr_item row) = M_Pending \<and> slug = pool_slug (ml_address (mr_item row)) \<and> slug \<noteq> ''''"
    "mr_holder row = Some h \<Longrightarrow> ml_address (mr_item row) = h \<and> door_seat h"
    "mail_path (states_of (sl_history (slice s i))) (ml_state (mr_item row))"
  using mail_ok_slice[OF assms(1), of i] unfolding slice_ok_def slice_row assms(2) by (simp_all add: Let_def) blast

lemma pool_out:
  assumes "mail_ok s" "dget (ib_items s) i = Some row" "\<not> pool_holds s (mr_item row)"
  shows "sl_pool (slice s i) = (\<lambda>_. None)"
proof
  fix slug
  show "sl_pool (slice s i) slug = None"
    using slice_facts(6)[OF assms(1,2), of slug] slice_facts(1)[OF assms(1,2)] assms(3)
    by (cases "sl_pool (slice s i) slug") (auto simp: pool_holds_def dhas_def slice_def)
qed

lemma pool_dropped:
  assumes "mail_ok s" "dget (ib_items s) i = Some row"
  shows "(sl_pool (slice s i))(pool_slug (ml_address (mr_item row)) := None) = (\<lambda>_. None)"
proof
  show "((sl_pool (slice s i))(pool_slug (ml_address (mr_item row)) := None)) slug = None" for slug
    using slice_facts(6)[OF assms, of slug] by (cases "sl_pool (slice s i) slug") auto
qed

lemma pool_none:
  assumes "mail_ok s" "dget (ib_items s) i = Some row" "ml_state (mr_item row) \<noteq> M_Pending \<or> pool_slug (ml_address (mr_item row)) = ''''"
  shows "sl_pool (slice s i) = (\<lambda>_. None)"
proof
  show "sl_pool (slice s i) slug = None" for slug
    using slice_facts(6)[OF assms(1,2), of slug] assms(3) by (cases "sl_pool (slice s i) slug") auto
qed

lemma stage_move_ok:
  assumes "mail_ok s" "dget (ib_items s) i = Some row" "item = mr_item row" "\<not> closed_state (ml_state item)"
    and "ml_id moved = i" "ml_address moved = ml_address item" "ml_created_at moved = ml_created_at item"
    and "may_follow (ml_state item) (ml_state moved)" "ml_state moved \<noteq> M_Pending" "closed_state (ml_state moved) \<or> \<not> pool_holds s item"
    and "indexed \<or> ml_session moved = ''''"
  shows "mail_ok (stage_move item moved by (last_pending s item) indexed s)"
proof (rule mail_ok_change[OF assms(1)])
  note facts = slice_facts[OF assms(1,2), folded assms(3)]
  let ?s' = "stage_move item moved by (last_pending s item) indexed s"
  have out: "(if closed_state (ml_state moved) \<and> pool_slug (ml_address item) \<noteq> '''' then (sl_pool (slice s i))(pool_slug (ml_address item) := None) else sl_pool (slice s i)) = (\<lambda>_. None)"
    using pool_out[OF assms(1,2)] pool_dropped[OF assms(1,2)] pool_none[OF assms(1,2)] assms(3,10) by auto
  show "slice ?s' j = slice s j" if "j \<noteq> i" for j using that facts(1) assms(5)
    by (simp add: stage_move_def Let_def slices)
  define opens where "opens = (if closed_state (ml_state moved) then (sl_open (slice s i))(ml_address item := None) else sl_open (slice s i))"
  define kept where "kept = (if ml_state moved = M_Delivered \<and> indexed then Some (ml_updated_at moved) else None)"
  define entries where "entries = sl_history (slice s i) @ [state_entry_of (ml_state moved) by (ml_reason moved) (ml_updated_at moved) (ml_session moved)]"
  have "slice ?s' i = \<lparr>sl_row = Some (row\<lparr>mr_item := moved\<rparr>), sl_history = entries, sl_address = sl_address (slice s i), sl_open = opens,
      sl_pending = (sl_pending (slice s i))(ml_address item := None), sl_delivered = kept, sl_pool = (\<lambda>_. None)\<rparr>"
    using facts(1) assms(5) out by (auto simp: stage_move_def Let_def slices slice_row assms(2) opens_def kept_def entries_def)
  moreover have "open_ok moved entries opens"
    using facts(3) assms(4,6,7) by (auto simp: open_ok_def opens_def entries_def fun_eq_iff)
  moreover have "delivered_ok moved kept" using assms(11) by (auto simp: delivered_ok_def kept_def)
  moreover have "mail_path (states_of entries) (ml_state moved)" using mail_path_snoc[OF facts(8) assms(8)] by (simp add: entries_def)
  ultimately show "slice_ok i (slice ?s' i)"
    using facts assms(3-9) by (auto simp: slice_ok_def Let_def fun_eq_iff)
  show "waits_ok ?s'" using assms(1) unfolding stage_move_def Let_def waits mail_ok_def
    by (intro waits_drop) (auto simp: waits)
  show "sizes_ok ?s'" using assms(1) by (auto simp: stage_move_def Let_def sizes mail_ok_def)
qed


lemma address_kept [sizes]:
  "ib_address (put_item m s) = ib_address s" "ib_address (change_row k f s) = ib_address s" "ib_address (push_entry k ent s) = ib_address s"
  "ib_address (add_open a m s) = ib_address s" "ib_address (drop_open a k s) = ib_address s" "ib_address (drop_delivered k s) = ib_address s"
  "ib_address (pool_add m s) = ib_address s" "ib_address (pool_remove m s) = ib_address s" "ib_address (size_add a n s) = ib_address s"
  "ib_address (add_pending a m s) = ib_address s" "ib_address (drop_pending a k s) = ib_address s" "ib_address (set_wait a s) = ib_address s"
  "ib_address (drop_wait e a s) = ib_address s"
  by (auto simp: put_item_def change_row_def push_entry_def add_open_def drop_open_def drop_delivered_def pool_add_def
      pool_remove_def size_add_def add_pending_def drop_pending_def set_wait_def drop_wait_def Let_def split: option.splits)

lemma address_at:
  assumes "mail_ok s" "dget (ib_items s) i = Some row"
  shows "dget (ib_address s a) i = (if a = ml_address (mr_item row) then Some (ml_created_at (mr_item row)) else None)"
  using fun_cong[OF slice_facts(2)[OF assms], of a] by (simp add: slice_def)

text \<open>Moving a message's place to another address, or to its own again.\<close>

lemma sizes_move:
  assumes "mail_ok s" "dget (ib_items s) i = Some row" "sizes_ok s'" "ib_address s' = ib_address s"
  shows "sizes_ok (move_address (mr_item row) a s')"
  using assms(3,4) slice_facts(1)[OF assms(1,2)] address_at[OF assms(1,2)] by (intro sizes_moved) auto

lemma redirect_ok:
  assumes "mail_ok s" "dget (ib_items s) i = Some row" "item = mr_item row" "\<not> closed_state (ml_state item)"
    and "moved = item\<lparr>ml_address := (if address \<noteq> '''' then address else ml_address item),
      ml_state := (if address \<noteq> '''' then M_Pending else M_Cancelled), ml_updated_at := now, ml_reason := reason\<rparr>"
  shows "mail_ok (redirect_writes item moved by address (last_pending s item) (pool_holds s item) s)"
proof (rule mail_ok_change[OF assms(1)])
  note facts = slice_facts[OF assms(1,2), folded assms(3)]
  let ?s' = "redirect_writes item moved by address (last_pending s item) (pool_holds s item) s"
  have m: "ml_id moved = i" "ml_created_at moved = ml_created_at item" "ml_address moved = (if address \<noteq> '''' then address else ml_address item)"
    "ml_state moved = (if address \<noteq> '''' then M_Pending else M_Cancelled)" using assms(5) facts(1) by simp_all
  show "slice ?s' j = slice s j" if "j \<noteq> i" for j using that facts(1) m(1)
    by (simp add: redirect_writes_def Let_def slices stage_pending_def)
  have out: "(if pool_holds s item then (sl_pool (slice s i))(pool_slug (ml_address item) := None) else sl_pool (slice s i)) = (\<lambda>_. None)"
    "pool_holds s item \<Longrightarrow> pool_slug (ml_address item) \<noteq> ''''"
    using pool_out[OF assms(1,2)] pool_dropped[OF assms(1,2)] assms(3) by (auto simp: pool_holds_def)
  have path: "mail_path (states_of (sl_history (slice s i)) @ [ml_state moved]) (ml_state moved)"
    using assms(4) m(4) by (intro mail_path_snoc[OF facts(8)]) (auto simp: may_follow_def)
  have holder: "mr_holder row = Some h \<Longrightarrow> ml_address moved = ml_address item \<Longrightarrow> ml_address moved = h \<and> door_seat h" for h using facts(7) by simp
  have "slice ?s' i = \<lparr>sl_row = Some (if ml_address moved \<noteq> ml_address item then row\<lparr>mr_item := moved, mr_holder := None, mr_skip := None\<rparr> else row\<lparr>mr_item := moved\<rparr>),
      sl_history = sl_history (slice s i) @ [state_entry_of (ml_state moved) by (ml_reason moved) (ml_updated_at moved) ''''],
      sl_address = (\<lambda>a. if a = ml_address moved then Some (ml_created_at item) else None),
      sl_open = (\<lambda>a. if a = ml_address moved \<and> address \<noteq> '''' then Some (ml_created_at item) else None),
      sl_pending = (\<lambda>a. if a = ml_address moved \<and> address \<noteq> '''' then Some (ml_created_at item) else None),
      sl_delivered = None, sl_pool = (\<lambda>_. None)\<rparr>"
    using facts(1-4) m out assms(4) unfolding redirect_writes_def Let_def
    by (auto simp: slices slice_row assms(2) stage_pending_def open_ok_def fun_eq_iff)
  then show "slice_ok i (slice ?s' i)"
    using m path holder by (auto simp: slice_ok_def open_ok_def delivered_ok_def Let_def fun_eq_iff)
  have dropped: "waits_ok (drop_wait (last_pending s item) (ml_address item) (drop_pending (ml_address item) (ml_id item) s'))"
    if "waits_ok s'" "ib_pending s' = ib_pending s" for s' using that by (rule waits_drop)
  show "waits_ok ?s'" using assms(1) unfolding redirect_writes_def Let_def stage_pending_def waits mail_ok_def
    by (auto simp: waits intro!: waits_moves(2) dropped)
  show "sizes_ok ?s'" using assms(1) unfolding redirect_writes_def Let_def stage_pending_def sizes mail_ok_def assms(3)
    by (auto simp: sizes mail_ok_def intro!: sizes_move[OF assms(1,2)])
qed


lemma door_itself: "pool_slug a \<noteq> '''' \<Longrightarrow> master_of legacy_slug a = a"
proof -
  assume p: "pool_slug a \<noteq> ''''"
  let ?P = "\<lambda>ch. ch \<noteq> CHR ''@''"
  have seat: "is_seat a" "takeWhile ?P a = ''master''" using p by (auto simp: pool_slug_def partition_at_def split: if_splits)
  have "CHR ''@'' \<in> set a" using seat(1) by (simp add: is_seat_def)
  then have "dropWhile ?P a \<noteq> []" by (auto simp: dropWhile_eq_Nil_conv)
  moreover have "hd (dropWhile ?P a) = CHR ''@''" using hd_dropWhile[OF \<open>dropWhile ?P a \<noteq> []\<close>] by simp
  ultimately have "dropWhile ?P a = CHR ''@'' # tl (dropWhile ?P a)" by (metis list.collapse)
  then have "a = ''master'' @ CHR ''@'' # tl (dropWhile ?P a)" using takeWhile_dropWhile_id[of ?P a] seat(2) by metis
  then show ?thesis using seat(1) by (simp add: master_of_def seat_address_def after_at_def)
qed

text \<open>Back into the pool: \<open>before\<close> and \<open>after\<close> are what is written around it.\<close>

lemma pool_return_ok:
  assumes "mail_ok s" "dget (ib_items s) i = Some row" "item = mr_item row" "\<not> closed_state (ml_state item)" "mr_holder row = Some h"
    and "ml_id moved = i" "ml_address moved = ml_address item" "ml_created_at moved = ml_created_at item" "ml_state moved = M_Pending"
    and "s' = push_entry i (state_entry_of M_Pending by reason now '''') (drop_delivered i (stage_pool_return item moved holder s)) \<or>
      s' = push_entry i (state_entry_of M_Pending by reason now '''') (stage_pool_return item moved holder (drop_delivered i s))"
  shows "mail_ok s'"
proof (rule mail_ok_change[OF assms(1)])
  note facts = slice_facts[OF assms(1,2), folded assms(3)]
  define front where "front = master_of legacy_slug (ml_address item)"
  have door: "pool_slug front \<noteq> ''''" using facts(7)[OF assms(5)] by (simp add: door_seat_def front_def)
  have one_pool: "(sl_pool (slice s i))(pool_slug front := Some n) = (\<lambda>slug. if slug = pool_slug front then Some n else None)" for n
  proof
    fix slug
    have "sl_pool (slice s i) slug = None" if "slug \<noteq> pool_slug front"
      using facts(6)[of slug] door_itself[of "ml_address item"] that by (cases "sl_pool (slice s i) slug") (auto simp: front_def)
    then show "((sl_pool (slice s i))(pool_slug front := Some n)) slug = (if slug = pool_slug front then Some n else None)" by simp
  qed
  show "slice s' j = slice s j" if "j \<noteq> i" for j using that facts(1) assms(6,10)
    by (auto simp: stage_pool_return_def Let_def slices)
  have path: "mail_path (states_of (sl_history (slice s i)) @ [M_Pending]) M_Pending"
    using assms(4) by (intro mail_path_snoc[OF facts(8)]) (auto simp: may_follow_def)
  have views: "sl_row (slice s i) = Some row"
    "(sl_address (slice s i))(ml_address item := None, front := Some (ml_created_at item)) = (\<lambda>a. if a = front then Some (ml_created_at item) else None)"
    "(if front = ml_address item then sl_open (slice s i) else (sl_open (slice s i))(ml_address item := None))(front := Some (ml_created_at item)) =
       (\<lambda>a. if a = front then Some (ml_created_at item) else None)"
    "(sl_pending (slice s i))(ml_address item := None) = (\<lambda>_. None)"
    using facts(2-4) assms(4) by (auto simp: slice_row assms(2) open_ok_def fun_eq_iff)
  have "slice s' i = \<lparr>sl_row = Some (row\<lparr>mr_item := moved\<lparr>ml_address := front\<rparr>, mr_holder := None, mr_skip := Some holder\<rparr>),
      sl_history = sl_history (slice s i) @ [state_entry_of M_Pending by reason now ''''],
      sl_address = (\<lambda>a. if a = front then Some (ml_created_at item) else None),
      sl_open = (\<lambda>a. if a = front then Some (ml_created_at item) else None), sl_pending = (\<lambda>_. None), sl_delivered = None,
      sl_pool = (\<lambda>slug. if slug = pool_slug front then Some (ml_sequence moved) else None)\<rparr>"
    using assms(6,10) facts(1) views one_pool[of "ml_sequence moved"] unfolding stage_pool_return_def Let_def front_def[symmetric]
    by (cases "front = ml_address item") (auto simp: slices)
  then show "slice_ok i (slice s' i)"
    using path door assms(6-9) by (auto simp: slice_ok_def open_ok_def delivered_ok_def Let_def fun_eq_iff)
  show "waits_ok s'" using assms(1,10) unfolding stage_pool_return_def Let_def
    by (auto simp: waits mail_ok_def intro!: waits_moves(1))
  show "sizes_ok s'" using assms(1,10) unfolding stage_pool_return_def Let_def assms(3)
    by (auto simp: sizes mail_ok_def intro!: sizes_move[OF assms(1,2)])
qed

lemma requeue_ok:
  assumes "mail_ok s" "dget (ib_items s) i = Some row" "item = mr_item row" "ml_state item = M_Delivered"
    and "moved = item\<lparr>ml_state := M_Pending, ml_updated_at := now, ml_reason := reason\<rparr>"
  shows "mail_ok (push_entry i (state_entry_of M_Pending by reason now '''')
    (set_wait (ml_address item) (add_pending (ml_address item) item (put_item moved (drop_delivered i s)))))" (is "mail_ok ?s'")
proof (rule mail_ok_change[OF assms(1)])
  note facts = slice_facts[OF assms(1,2), folded assms(3)]
  have out: "sl_pool (slice s i) = (\<lambda>_. None)" using pool_none[OF assms(1,2)] assms(3,4) by simp
  show "slice ?s' j = slice s j" if "j \<noteq> i" for j using that facts(1) assms(5) by (simp add: slices)
  have path: "mail_path (states_of (sl_history (slice s i)) @ [M_Pending]) M_Pending"
    using assms(4) by (intro mail_path_snoc[OF facts(8)]) (auto simp: may_follow_def)
  have "slice ?s' i = \<lparr>sl_row = Some (row\<lparr>mr_item := moved\<rparr>), sl_history = sl_history (slice s i) @ [state_entry_of M_Pending by reason now ''''],
      sl_address = sl_address (slice s i), sl_open = sl_open (slice s i),
      sl_pending = (sl_pending (slice s i))(ml_address item := Some (ml_created_at item)), sl_delivered = None, sl_pool = (\<lambda>_. None)\<rparr>"
    using facts(1) assms(5) out by (simp add: slices slice_row assms(2))
  moreover have "open_ok moved (sl_history (slice s i) @ [state_entry_of M_Pending by reason now '''']) (sl_open (slice s i))"
    using facts(3) assms(4,5) by (auto simp: open_ok_def)
  ultimately show "slice_ok i (slice ?s' i)"
    using facts assms(4,5) path by (auto simp: slice_ok_def delivered_ok_def Let_def fun_eq_iff)
  show "waits_ok ?s'" using assms(1) by (auto simp: waits mail_ok_def intro!: waits_moves(2))
  show "sizes_ok ?s'" using assms(1) by (simp add: sizes mail_ok_def)
qed

lemma undelivered_ok:
  assumes "mail_ok s" "\<And>row. dget (ib_items s) i = Some row \<Longrightarrow> ml_state (mr_item row) \<noteq> M_Delivered"
  shows "mail_ok (drop_delivered i s)"
proof (rule mail_ok_change[OF assms(1)])
  have "sl_delivered (slice s i) = None"
    using mail_ok_slice[OF assms(1), of i] slice_facts(5)[OF assms(1), of i] assms(2)
    by (cases "dget (ib_items s) i") (auto simp: slice_ok_def slice_row delivered_ok_def)
  then have "slice (drop_delivered i s) i = slice s i" by (simp add: slices)
  then show "slice_ok i (slice (drop_delivered i s) i)" using mail_ok_slice[OF assms(1)] by simp
qed (use assms(1) in \<open>simp_all add: slices waits sizes mail_ok_def\<close>)

text \<open>A claim: the message leaves the pool for the seat of a master.\<close>

lemma claim_ok:
  assumes "mail_ok s" "dget (ib_items s) i = Some row" "item = mr_item row" "dhas (ib_pool s slug) i" "door_seat seat"
  shows "mail_ok (claim_writes slug seat item now s)" (is "mail_ok ?s'")
proof (rule mail_ok_change[OF assms(1)])
  note facts = slice_facts[OF assms(1,2), folded assms(3)]
  obtain n where "sl_pool (slice s i) slug = Some n" using assms(4) by (auto simp: slice_def dhas_def)
  then have pooled: "ml_state item = M_Pending" "slug = pool_slug (ml_address item)" using facts(6)[of slug] by simp_all
  have out: "(sl_pool (slice s i))(slug := None) = (\<lambda>_. None)" using pool_dropped[OF assms(1,2)] pooled(2) assms(3) by simp
  let ?moved = "item\<lparr>ml_address := seat, ml_updated_at := now, ml_reason := ''claimed from the master pool by '' @ seat\<rparr>"
  let ?s1 = "s\<lparr>ib_pool := (ib_pool s)(slug := dpop (ml_id item) (ib_pool s slug)), ib_last := (ib_last s)(slug := seat),
                ib_holders := (ib_holders s)(slug := List.insert seat (ib_holders s slug))\<rparr>"
  have s1: "slice ?s1 j = (if j = i then (slice s j)\<lparr>sl_pool := (\<lambda>_. None)\<rparr> else slice s j)" for j
  proof -
    have "slice ?s1 j = slice (s\<lparr>ib_pool := (ib_pool s)(slug := dpop i (ib_pool s slug))\<rparr>) j" using facts(1) by (simp add: slice_def)
    then show ?thesis using out by (simp add: slices)
  qed
  show "slice ?s' j = slice s j" if "j \<noteq> i" for j using that facts(1)
    by (simp add: claim_writes_def stage_claim_def stage_pending_def Let_def slices s1)
  have path: "mail_path (states_of (sl_history (slice s i)) @ [M_Pending]) M_Pending"
    using pooled(1) by (intro mail_path_snoc[OF facts(8)]) (auto simp: may_follow_def)
  have claim_views: "sl_row (slice s i) = Some row"
    "(sl_address (slice s i))(ml_address item := None, seat := Some (ml_created_at item)) = (\<lambda>a. if a = seat then Some (ml_created_at item) else None)"
    "(if seat = ml_address item then sl_open (slice s i) else (sl_open (slice s i))(ml_address item := None))(seat := Some (ml_created_at item)) =
       (\<lambda>a. if a = seat then Some (ml_created_at item) else None)"
    "(sl_pending (slice s i))(seat := Some (ml_created_at item)) = (\<lambda>a. if a = seat then Some (ml_created_at item) else None)"
    using facts(2-4) pooled(1) \<open>sl_pool (slice s i) slug = Some n\<close> by (auto simp: slice_row assms(2) open_ok_def fun_eq_iff)
  have "slice ?s' i = \<lparr>sl_row = Some (row\<lparr>mr_item := ?moved, mr_holder := Some seat, mr_skip := None\<rparr>),
      sl_history = sl_history (slice s i) @ [state_entry_of M_Pending pooler (''claimed from the master pool by '' @ seat) now ''''],
      sl_address = (\<lambda>a. if a = seat then Some (ml_created_at item) else None),
      sl_open = (\<lambda>a. if a = seat then Some (ml_created_at item) else None),
      sl_pending = (\<lambda>a. if a = seat then Some (ml_created_at item) else None), sl_delivered = sl_delivered (slice s i), sl_pool = (\<lambda>_. None)\<rparr>"
    using facts(1) claim_views unfolding claim_writes_def stage_claim_def stage_pending_def Let_def
    by (cases "seat = ml_address item") (simp_all add: slices s1 out)
  then show "slice_ok i (slice ?s' i)"
    using facts(1,5) path pooled(1) assms(5) by (auto simp: slice_ok_def open_ok_def delivered_ok_def Let_def fun_eq_iff)
  show "waits_ok ?s'" using assms(1) unfolding claim_writes_def stage_claim_def stage_pending_def Let_def
    by (auto simp: waits mail_ok_def intro!: waits_moves(2))
  have "ib_address ?s1 = ib_address s" by simp
  then show "sizes_ok ?s'" using assms(1) unfolding claim_writes_def stage_claim_def stage_pending_def Let_def assms(3)
    by (auto simp: sizes mail_ok_def intro!: sizes_move[OF assms(1,2)])
qed


lemma reopen_ok:
  assumes "mail_ok s" "dget (ib_items s) i = Some row" "item = mr_item row" "ml_state item = M_Done"
    and "moved = item\<lparr>ml_state := M_Read, ml_updated_at := now, ml_reason := reason\<rparr>"
  shows "mail_ok (push_entry (ml_id item) (state_entry_of M_Read by reason now '''') (add_open (ml_address item) item
    (change_row (ml_id item) (\<lambda>row. row\<lparr>mr_replies := dpop sender (mr_replies row)\<rparr>) (put_item moved s))))" (is "mail_ok ?s'")
proof (rule mail_ok_change[OF assms(1)])
  note facts = slice_facts[OF assms(1,2), folded assms(3)]
  have out: "sl_pool (slice s i) = (\<lambda>_. None)" using pool_none[OF assms(1,2)] assms(3,4) by simp
  show "slice ?s' j = slice s j" if "j \<noteq> i" for j using that facts(1) assms(5) by (simp add: slices)
  have path: "mail_path (states_of (sl_history (slice s i)) @ [M_Read]) M_Read"
    using assms(4) by (intro mail_path_snoc[OF facts(8)]) (auto simp: may_follow_def)
  have "slice ?s' i = \<lparr>sl_row = Some (row\<lparr>mr_item := moved, mr_replies := dpop sender (mr_replies row)\<rparr>),
      sl_history = sl_history (slice s i) @ [state_entry_of M_Read by reason now ''''], sl_address = sl_address (slice s i),
      sl_open = (sl_open (slice s i))(ml_address item := Some (ml_created_at item)), sl_pending = sl_pending (slice s i),
      sl_delivered = sl_delivered (slice s i), sl_pool = (\<lambda>_. None)\<rparr>"
    using facts(1) assms(5) out by (simp add: slices slice_row assms(2))
  then show "slice_ok i (slice ?s' i)"
    using facts assms(4,5) path by (auto simp: slice_ok_def open_ok_def delivered_ok_def Let_def fun_eq_iff)
  show "waits_ok ?s'" "sizes_ok ?s'" using assms(1) by (simp_all add: waits sizes mail_ok_def)
qed

lemma send_ok:
  assumes "mail_ok s" "dget (ib_items s) (ml_id item) = None" "ml_state item = M_Pending" "pooled \<Longrightarrow> pool_slug (ml_address item) \<noteq> ''''"
  shows "mail_ok (send_writes item pooled s)" (is "mail_ok ?s'")
proof (rule mail_ok_change[OF assms(1)])
  let ?i = "ml_id item"
  have none: "sl_row (slice s ?i) = None" "sl_address (slice s ?i) = (\<lambda>_. None)" "sl_open (slice s ?i) = (\<lambda>_. None)"
    "sl_pending (slice s ?i) = (\<lambda>_. None)" "sl_delivered (slice s ?i) = None" "sl_pool (slice s ?i) = (\<lambda>_. None)" "states_of (sl_history (slice s ?i)) = []"
    using mail_ok_slice[OF assms(1), of ?i] assms(2) by (simp_all add: slice_ok_def slice_row)
  show "slice ?s' j = slice s j" if "j \<noteq> ?i" for j using that by (simp add: send_writes_def Let_def slices)
  have "slice ?s' ?i = (slice s ?i)\<lparr>sl_row := Some \<lparr>mr_item = item, mr_holder = None, mr_skip = None, mr_replies = []\<rparr>,
      sl_history := sl_history (slice s ?i) @ [state_entry_of M_Pending (ml_sender item) '''' (ml_created_at item) ''''],
      sl_address := (\<lambda>_. None)(ml_address item := Some (ml_created_at item)), sl_open := (\<lambda>_. None)(ml_address item := Some (ml_created_at item)),
      sl_pending := (if pooled then (\<lambda>_. None) else (\<lambda>_. None)(ml_address item := Some (ml_created_at item))),
      sl_pool := (if pooled then (\<lambda>_. None)(pool_slug (ml_address item) := Some (ml_sequence item)) else (\<lambda>_. None))\<rparr>"
    using none by (simp add: send_writes_def Let_def slices)
  then show "slice_ok ?i (slice ?s' ?i)"
    using none assms(3,4) mail_path_start by (auto simp: slice_ok_def open_ok_def delivered_ok_def Let_def fun_eq_iff)
  show "waits_ok ?s'" using assms(1) by (auto simp: send_writes_def Let_def waits mail_ok_def intro!: waits_moves(2))
  have "dget (ib_address s a) ?i = None" for a using fun_cong[OF none(2), of a] by (simp add: slice_def)
  then show "sizes_ok ?s'" using assms(1) by (auto simp: send_writes_def Let_def sizes mail_ok_def intro!: sizes_grown)
qed

lemma note_ok:
  assumes "mail_ok s"
  shows "mail_ok (push_entry i (Noted event by detail n) s)"
proof (rule mail_ok_change[OF assms])
  show "slice_ok i (slice (push_entry i (Noted event by detail n) s) i)"
    using mail_ok_slice[OF assms, of i] by (auto simp: slices slice_ok_def open_ok_def was_closed_def Let_def split: option.splits)
qed (use assms in \<open>simp_all add: slices waits sizes mail_ok_def\<close>)

lemma replies_ok:
  assumes "mail_ok s" "\<And>row. mr_item (f row) = mr_item row" "\<And>row. mr_holder (f row) = mr_holder row"
  shows "mail_ok (change_row i f s)"
proof (rule mail_ok_change[OF assms(1)])
  show "slice_ok i (slice (change_row i f s) i)"
    using mail_ok_slice[OF assms(1), of i] by (auto simp: slices slice_ok_def Let_def assms(2,3) cong: if_cong split: option.splits)
qed (use assms(1) in \<open>simp_all add: slices waits sizes mail_ok_def\<close>)

lemma same_slices_ok:
  assumes "mail_ok s" "\<And>i. slice s' i = slice s i" "waits_ok s'" "sizes_ok s'"
  shows "mail_ok s'"
  using assms by (simp add: mail_ok_def)

lemma set_zrange [simp]: "set (zrange z) = fst ` set z" and length_zrange [simp]: "length (zrange z) = length z"
  by (simp_all add: zrange_def image_image)

lemma listed_here:
  assumes "mail_ok s"
  shows "i \<in> set (zrange (ib_address s a)) \<longleftrightarrow> (\<exists>row. dget (ib_items s) i = Some row \<and> ml_address (mr_item row) = a)"
proof -
  have "i \<in> set (zrange (ib_address s a)) \<longleftrightarrow> dget (ib_address s a) i \<noteq> None" by (simp add: map_of_eq_None_iff)
  also have "\<dots> \<longleftrightarrow> (\<exists>row. dget (ib_items s) i = Some row \<and> ml_address (mr_item row) = a)"
  proof (cases "dget (ib_items s) i")
    case None
    then have "sl_address (slice s i) = (\<lambda>_. None)" using mail_ok_slice[OF assms, of i] by (simp add: slice_ok_def slice_row)
    then show ?thesis using None fun_cong[of _ _ a] by (fastforce simp: slice_def)
  next
    case (Some row)
    then show ?thesis using address_at[OF assms Some, of a] by auto
  qed
  finally show ?thesis .
qed

text \<open>No record is gone.\<close>

lemma present_here:
  assumes "mail_ok s"
  shows "present s (zrange (ib_address s a)) =
    (map (\<lambda>i. mr_item (the (dget (ib_items s) i))) (zrange (ib_address s a)), [])"
proof -
  have "\<exists>row. dget (ib_items s) i = Some row" if "i \<in> set (zrange (ib_address s a))" for i using that listed_here[OF assms] by blast
  then have "\<forall>i \<in> set (zrange (ib_address s a)). dget (ib_items s) i \<noteq> None" by fastforce
  then show ?thesis unfolding present_def by (induction "zrange (ib_address s a)") (auto simp: map_filter_def dhas_def filter_empty_conv)
qed


definition item_at :: "inbox \<Rightarrow> string \<Rightarrow> mail" where
  "item_at s i = mr_item (the (dget (ib_items s) i))"

lemma dget_opened:
  assumes "mail_ok s" "set ids \<subseteq> set (zrange (ib_address s a))"
  shows "dget (opened_of (map (item_at s) ids)) i =
    (if i \<in> set ids \<and> \<not> closed_state (ml_state (item_at s i)) then Some (ml_created_at (item_at s i)) else None)"
  using assms(2)
proof (induction ids)
  case (Cons k ids)
  obtain row where "dget (ib_items s) k = Some row" using Cons.prems listed_here[OF assms(1)] by auto
  then have "ml_id (item_at s k) = k" using slice_facts(1)[OF assms(1)] by (simp add: item_at_def)
  then show ?case using Cons by (auto simp: opened_of_def)
qed (simp add: opened_of_def)

lemma present_items: "mail_ok s \<Longrightarrow> present s (zrange (ib_address s a)) = (map (item_at s) (zrange (ib_address s a)), [])"
  by (simp add: present_here item_at_def cong: map_cong)

text \<open>The open index of an address is rebuilt exactly, whatever was swept from it.\<close>

lemma index_open_ok:
  assumes "mail_ok s" "index_open_decide a s = Inr (r, Some w)"
  shows "mail_ok (w s)"
proof -
  let ?ids = "zrange (ib_address s a)"
  have w: "w s = s\<lparr>ib_open := (ib_open s)(a := opened_of (map (item_at s) ?ids)), ib_open_indexed := insert a (ib_open_indexed s),
      ib_open_size := (ib_open_size s)(a := Some (int (length ?ids)))\<rparr>"
    using assms(2) by (auto simp: index_open_decide_def present_items[OF assms(1)] index_open_writes_def stage_drop_def Let_def)
  have sl: "slice (w s) i = (slice s i)\<lparr>sl_open := (sl_open (slice s i))(a := dget (opened_of (map (item_at s) ?ids)) i)\<rparr>" for i
    unfolding w by (auto simp: slice_def fun_eq_iff)
  have at: "dget (opened_of (map (item_at s) ?ids)) i =
      (if i \<in> set ?ids \<and> \<not> closed_state (ml_state (item_at s i)) then Some (ml_created_at (item_at s i)) else None)" for i
    by (rule dget_opened[OF assms(1) subset_refl])
  have "slice_ok i (slice (w s) i)" for i
  proof (cases "dget (ib_items s) i")
    case None
    then have "i \<notin> set ?ids" using listed_here[OF assms(1)] by auto
    then show ?thesis using None mail_ok_slice[OF assms(1), of i] unfolding sl at by (simp add: slice_ok_def slice_row fun_eq_iff)
  next
    case (Some row)
    have ids: "i \<in> set ?ids \<longleftrightarrow> ml_address (mr_item row) = a" using Some listed_here[OF assms(1), of i a] by auto
    have it: "item_at s i = mr_item row" using Some by (simp add: item_at_def)
    have "open_ok (mr_item row) (sl_history (slice s i)) ((sl_open (slice s i))(a := dget (opened_of (map (item_at s) ?ids)) i))"
      using slice_facts(3)[OF assms(1) Some] unfolding at ids it by (auto simp: open_ok_def fun_eq_iff)
    then show ?thesis using Some mail_ok_slice[OF assms(1), of i] unfolding sl by (simp add: slice_ok_def slice_row Let_def)
  qed
  moreover have "waits_ok (w s)" using assms(1) unfolding w by (simp add: mail_ok_def waits_ok_def)
  moreover have "sizes_ok (w s)" using assms(1) unfolding w by (auto simp: mail_ok_def sizes_ok_def size_of_def)
  ultimately show ?thesis by (simp add: mail_ok_def)
qed

text \<open>A sweep takes a message that was closed out of the open index of an address.\<close>

lemma sweep_ok:
  assumes "mail_ok s" "was_closed (ib_history s i)" "dget (ib_items s) i = Some row"
  shows "mail_ok (drop_open a i s)"
proof (rule mail_ok_change[OF assms(1)])
  have "was_closed (sl_history (slice s i))" using assms(2) by (simp add: slice_def)
  then have "open_ok (mr_item row) (sl_history (slice s i)) ((sl_open (slice s i))(a := None))"
    using slice_facts(3)[OF assms(1,3)] by (auto simp: open_ok_def fun_eq_iff)
  then show "slice_ok i (slice (drop_open a i s) i)"
    using assms(3) mail_ok_slice[OF assms(1), of i] by (simp add: slices slice_ok_def slice_row Let_def)
qed (use assms(1) in \<open>simp_all add: slices waits sizes mail_ok_def\<close>)

lemma pending_again:
  assumes "mail_ok s" "dget (ib_items s) i = Some row" "item = mr_item row" "ml_state item = M_Pending" "\<not> pool_holds s item"
  shows "slice (add_pending (ml_address item) item s) k = slice s k"
proof -
  have "sl_pending (slice s i) = (\<lambda>a. if a = ml_address item then Some (ml_created_at item) else None)"
    using slice_facts(4)[OF assms(1,2)] pool_out[OF assms(1,2)] assms(3-5) by (auto simp: fun_eq_iff)
  then show ?thesis using slice_facts(1)[OF assms(1,2)] assms(3) by (auto simp: slices fun_eq_iff)
qed

lemma back_fill_ok:
  assumes "mail_ok s" "back_fill_decide a s = Inr (r, Some w)"
  shows "mail_ok (w s)"
proof -
  let ?pooled = "if pool_slug a = '''' then [] else map fst (ib_pool s (pool_slug a))"
  let ?items = "filter (\<lambda>item. ml_state item = M_Pending \<and> ml_id item \<notin> set ?pooled) (map (item_at s) (zrange (ib_address s a)))"
  let ?fill = "\<lambda>items s. foldl (\<lambda>s item. add_pending a item s) s items"
  have w: "w s = (let s2 = (if ?items = [] then s else set_wait a (?fill ?items s)) in s2\<lparr>ib_indexed := insert a (ib_indexed s2)\<rparr>)"
    using assms(2) by (auto simp: back_fill_decide_def present_items[OF assms(1)] back_fill_writes_def stage_drop_def Let_def)
  have item: "\<exists>row. dget (ib_items s) (ml_id item) = Some row \<and> item = mr_item row \<and> ml_address item = a \<and> ml_state item = M_Pending \<and> \<not> pool_holds s item"
    if mem: "item \<in> set ?items" for item
  proof -
    obtain k where k: "item = item_at s k" "k \<in> set (zrange (ib_address s a))" using mem by auto
    then obtain row where row: "dget (ib_items s) k = Some row" "ml_address (mr_item row) = a" using listed_here[OF assms(1)] by blast
    have it: "item = mr_item row" "ml_id item = k" using k(1) row slice_facts(1)[OF assms(1) row(1)] by (simp_all add: item_at_def)
    have "\<not> pool_holds s item" using mem it row(2) by (auto simp: pool_holds_def dhas_def map_of_eq_None_iff split: if_splits)
    then show ?thesis using row it mem by auto
  qed
  have filled: "(\<forall>k. slice (?fill items s) k = slice s k) \<and> (\<forall>b. b \<noteq> a \<longrightarrow> ib_pending (?fill items s) b = ib_pending s b) \<and>
      ib_waiting (?fill items s) = ib_waiting s \<and> sizes_ok (?fill items s) = sizes_ok s"
    if "set items \<subseteq> set ?items" for items using that
  proof (induction items rule: rev_induct)
    case (snoc item items)
    obtain row where row: "dget (ib_items s) (ml_id item) = Some row" "item = mr_item row" "ml_address item = a" "ml_state item = M_Pending" "\<not> pool_holds s item"
      using item[of item] snoc.prems by (meson in_set_conv_decomp subsetD)
    have pend: "slice (add_pending a item s) k = slice s k" for k using pending_again[OF assms(1) row(1,2,4,5), of k] row(3) by simp
    have ih: "slice (?fill items s) k = slice s k" "b \<noteq> a \<Longrightarrow> ib_pending (?fill items s) b = ib_pending s b"
      "ib_waiting (?fill items s) = ib_waiting s" "sizes_ok (?fill items s) = sizes_ok s" for k b
      using snoc.IH snoc.prems by simp_all
    have "slice (add_pending a item (?fill items s)) k = slice s k" for k
      using pend[of k] unfolding slice_add_pending ih(1) .
    moreover have "ib_pending (add_pending a item s') b = ib_pending s' b" if "b \<noteq> a" for b s' using that by (simp add: add_pending_def)
    ultimately show ?case using ih(2-4) by (simp add: waits sizes)
  qed simp
  show ?thesis
  proof (rule same_slices_ok[OF assms(1)])
    note f = filled[OF subset_refl]
    show "slice (w s) i = slice s i" for i unfolding w Let_def using f by (simp add: slices)
    show "waits_ok (w s)" using assms(1) f unfolding w Let_def by (auto simp: mail_ok_def waits_ok_def set_wait_def)
    show "sizes_ok (w s)" using assms(1) f unfolding w Let_def by (auto simp: mail_ok_def sizes_ok_def size_of_def set_wait_def)
  qed
qed

text \<open>What leaves the messages and their indexes alone.\<close>

definition aside :: "inbox \<Rightarrow> inbox \<Rightarrow> bool" where
  "aside s s' \<longleftrightarrow> ib_items s' = ib_items s \<and> ib_history s' = ib_history s \<and> ib_address s' = ib_address s \<and> ib_open s' = ib_open s \<and>
    ib_pending s' = ib_pending s \<and> ib_delivered s' = ib_delivered s \<and> ib_pool s' = ib_pool s \<and> ib_open_size s' = ib_open_size s \<and>
    set (ib_waiting s) \<subseteq> set (ib_waiting s') \<and> ib_indexed s' = ib_indexed s \<and> ib_open_indexed s' = ib_open_indexed s"

lemma mail_aside_ok: "mail_ok s \<Longrightarrow> aside s s' \<Longrightarrow> mail_ok s'"
  by (rule same_slices_ok) (auto simp: aside_def slice_def mail_ok_def waits_ok_def sizes_ok_def size_of_def)

end
