(* ===== verification/Inbox_Steps.thy ===== *)
theory Inbox_Steps
  imports Inbox_Laws
begin

text \<open>
  The inbox as its processes drive it: one step per transaction, with the conditions its callers keep, the invariant
  along every run, and the optimistic transactions of the store as clients of \<open>watched_client\<close>, so that what an
  operation answered was decided at one moment of such a run.
\<close>

section \<open>Steps\<close>

text \<open>The moves the store makes: read, deliver, confirm, and closing.\<close>

definition own_move :: "mail_state \<Rightarrow> mail_state list option \<Rightarrow> bool" where
  "own_move state only_from \<longleftrightarrow> closed_state state \<or> (state = M_Read \<and> only_from = None) \<or>
    (state = M_Delivered \<and> only_from = Some [M_Pending]) \<or> (state = M_Confirmed \<and> only_from = Some [M_Delivered, M_Read])"

text \<open>
  Besides the store and the pool, receipts commit deliveries and reservations close what was shown (\<open>receipts.py\<close>,
  \<open>dispatch.py\<close>); a receipt does not ask for the pool, so the rule leaves out a commit of a message that went back
  into its pool since it was reserved. \<open>open_items\<close> takes the messages it read as closed out of the open index, maybe
  long after (\<open>swept\<close>). The inbox starts empty, with its delivery index built (\<open>_build_delivered\<close> is a migration).
\<close>

inductive mail_step :: "inbox \<Rightarrow> inbox \<Rightarrow> bool" where
  sequenced: "mail_step s (take_sequence a s)"
| sent: "send_decide item given pooled s = Inr ((), Some w) \<Longrightarrow> dget (ib_items s) (ml_id item) = None \<Longrightarrow> ml_state item = M_Pending \<Longrightarrow>
    (pooled \<longrightarrow> pool_slug (ml_address item) \<noteq> '''') \<Longrightarrow> mail_step s (w s)"
| moved: "move_decide resolve session now item_id by actors state reason only_from s = Inr (r, Some w) \<Longrightarrow> own_move state only_from \<Longrightarrow>
    mail_step s (w s)"
| redirected: "redirect_decide now item_id by address reason expected_address expected_receiver s = Inr (r, Some w) \<Longrightarrow> mail_step s (w s)"
| returned: "return_decide live now item_id holder expected_receiver s = Inr (r, Some w) \<Longrightarrow> mail_step s (w s)"
| requeued: "requeue_decide live now item_id by reason before s = Inr (r, Some w) \<Longrightarrow> mail_step s (w s)"
| reopened: "reopen_decide now answer by reason s = Inr (r, Some w) \<Longrightarrow> mail_step s (w s)"
| noted: "note_decide item_id event by detail at_ms held s = Inr (r, Some w) \<Longrightarrow> mail_step s (w s)"
| claimed: "claim_decide masters routed held now slug s = Inr (r, Some w) \<Longrightarrow> (\<forall>seat \<in> set masters. door_seat seat) \<Longrightarrow> mail_step s (w s)"
| indexed: "index_open_decide a s = Inr (r, Some w) \<Longrightarrow> mail_step s (w s)"
| filled: "back_fill_decide a s = Inr (r, Some w) \<Longrightarrow> mail_step s (w s)"
| receipted: "receipt_decide resolve session now item_id recipient s = Inr (r, Some w) \<Longrightarrow>
    (\<forall>row. dget (ib_items s) item_id = Some row \<longrightarrow> \<not> pool_holds s (mr_item row)) \<Longrightarrow> aside (w s) s' \<Longrightarrow> mail_step s s'"
| shown: "shown_decide resolve now was_shown item_id recipient s = Inr (r, Some w) \<Longrightarrow> aside (w s) s' \<Longrightarrow> mail_step s s'"
| swept: "dget (ib_items s) item_id = Some row \<Longrightarrow> was_closed (ib_history s item_id) \<Longrightarrow> mail_step s (drop_open a item_id s)"
| answering: "mail_step s (set_reply item_id replier reply_id s)"
| other: "aside s s' \<Longrightarrow> mail_step s s'"

definition mail_reachable :: "inbox \<Rightarrow> bool" where
  "mail_reachable s \<longleftrightarrow> (\<exists>st. mail_step\<^sup>*\<^sup>* (empty_inbox st) s)"

lemma next_turn_in: "live \<noteq> [] \<Longrightarrow> next_turn live previous skip \<in> set live"
proof -
  assume "live \<noteq> []"
  define choices where "choices = (let kept = filter (\<lambda>seat. Some seat \<noteq> skip) live in if kept = [] then live else kept)"
  define later where "later = filter (\<lambda>seat. previous \<noteq> '''' \<and> seat_number seat > seat_number previous) choices"
  have c: "choices \<noteq> []" "set choices \<subseteq> set live" using \<open>live \<noteq> []\<close> by (auto simp: choices_def Let_def)
  have n: "next_turn live previous skip = hd (if later = [] then choices else later)"
    by (simp add: next_turn_def choices_def later_def Let_def)
  have l: "set later \<subseteq> set choices" by (auto simp: later_def)
  show ?thesis
  proof (cases "later = []")
    case True
    have "hd choices \<in> set live" using hd_in_set[OF c(1)] c(2) by blast
    then show ?thesis using n True by simp
  next
    case False
    have "hd later \<in> set live" using hd_in_set[OF False] l c(2) by blast
    then show ?thesis using n False by simp
  qed
qed

text \<open>The five answers of a claim.\<close>

lemma pool_claim_cases:
  assumes "claim_decide masters routed held now slug s = Inr (r, w)"
  obtains (none) "r = No_Claim" "w = None" | (forget) "r = No_Claim" "w = Some (\<lambda>s. s\<lparr>ib_pools := removeAll slug (ib_pools s)\<rparr>)"
  | (dropped) i where "r = Dropped" "i \<in> set (zrange (ib_pool s slug))" "\<forall>row. dget (ib_items s) i = Some row \<longrightarrow> ml_state (mr_item row) \<noteq> M_Pending"
      "w = Some (\<lambda>s. s\<lparr>ib_pool := (ib_pool s)(slug := dpop i (ib_pool s slug))\<rparr>)"
  | (claimed) i rest row seat where "zrange (ib_pool s slug) = i # rest" "dget (ib_items s) i = Some row" "ml_state (mr_item row) = M_Pending"
      "seat \<in> set masters" "(seat = next_turn masters (ib_last s slug) (mr_skip row)) \<or> routed i = Some seat \<and> Some seat \<noteq> mr_skip row"
      "r = Claimed ((mr_item row)\<lparr>ml_address := seat, ml_updated_at := now, ml_reason := ''claimed from the master pool by '' @ seat\<rparr>)"
      "w = Some (claim_writes slug seat (mr_item row) now)"
proof (cases "zrange (ib_pool s slug)")
  case Nil
  then show thesis using assms none forget by (auto simp: claim_decide_def split: if_splits)
next
  case (Cons i rest)
  have i: "i \<in> set (zrange (ib_pool s slug))" by (simp only: Cons list.set_intros)
  show thesis
  proof (cases "masters = []")
    case True
    then show thesis using assms none Cons by (simp add: claim_decide_def)
  next
    case False
    show thesis
    proof (cases "\<exists>row. dget (ib_items s) i = Some row \<and> ml_state (mr_item row) = M_Pending")
      case True
      then obtain row where row: "dget (ib_items s) i = Some row" "ml_state (mr_item row) = M_Pending" by blast
      define seat where "seat = (case routed i of
          Some seat \<Rightarrow> if seat \<in> set masters \<and> Some seat \<noteq> mr_skip row then seat else next_turn masters (ib_last s slug) (mr_skip row)
        | None \<Rightarrow> next_turn masters (ib_last s slug) (mr_skip row))"
      have seat: "seat \<in> set masters" "(seat = next_turn masters (ib_last s slug) (mr_skip row)) \<or> routed i = Some seat \<and> Some seat \<noteq> mr_skip row"
        using next_turn_in[OF False] by (auto simp: seat_def split: option.splits)
      have "Inr (r, w) = (Inr (Claimed ((mr_item row)\<lparr>ml_address := seat, ml_updated_at := now, ml_reason := ''claimed from the master pool by '' @ seat\<rparr>),
          Some (claim_writes slug seat (mr_item row) now)) :: fault + claim_answer \<times> (inbox \<Rightarrow> inbox) option)"
        unfolding assms[symmetric] claim_decide_def Cons list.case if_not_P[OF False] row(1) option.case Let_def seat_def[symmetric]
        by (simp add: row(2))
      then show thesis using claimed[OF Cons row seat] by simp
    next
      case gone: False
      have "r = Dropped" "w = Some (\<lambda>s. s\<lparr>ib_pool := (ib_pool s)(slug := dpop i (ib_pool s slug))\<rparr>)"
        using assms Cons False gone by (auto simp: claim_decide_def Let_def split: option.splits if_splits)
      then show thesis using dropped[OF _ i] gone by blast
    qed
  qed
qed

text \<open>What a move decides when it writes.\<close>

lemma move_cases:
  assumes "move_decide resolve session now item_id by actors state reason only_from s = Inr (r, Some w)"
  obtains row item moved state' where "dget (ib_items s) item_id = Some row" "item = mr_item row" "\<not> closed_state (ml_state item)"
    "state' = fst (informed item state reason)" "ml_state item \<noteq> state'" "ml_state moved = state'" "ml_id moved = ml_id item" "ml_address moved = ml_address item"
    "ml_created_at moved = ml_created_at item" "closed_state state' \<or> \<not> pool_holds s item" "\<forall>states. only_from = Some states \<longrightarrow> ml_state item \<in> set states"
    "list_ex (acts_for resolve s by) (actors item)" "r = Some moved" "w = stage_move item moved by (last_pending s item) True"
    "ml_updated_at moved = now" "ml_reason moved = snd (informed item state reason)"
proof (cases "dget (ib_items s) item_id")
  case (Some row)
  let ?item = "mr_item row"
  let ?to = "fst (informed ?item state reason)"
  let ?base = "?item\<lparr>ml_state := ?to, ml_updated_at := now, ml_reason := snd (informed ?item state reason)\<rparr>"
  let ?moved = "if ?to = M_Delivered then ?base\<lparr>ml_session := session\<rparr> else ?base"
  show thesis
    by (rule that[OF Some refl, of ?to ?moved])
       (use assms Some in \<open>auto simp: move_decide_def Let_def case_prod_unfold split: if_splits option.splits\<close>)
qed (use assms in \<open>simp add: move_decide_def\<close>)

lemma redirect_cases:
  assumes "redirect_decide now item_id by address reason expected_address expected_receiver s = Inr (r, Some w)"
  obtains row item moved where "dget (ib_items s) item_id = Some row" "item = mr_item row" "\<not> closed_state (ml_state item)"
    "moved = item\<lparr>ml_address := (if address \<noteq> '''' then address else ml_address item),
       ml_state := (if address \<noteq> '''' then M_Pending else M_Cancelled), ml_updated_at := now, ml_reason := reason\<rparr>"
    "r = Some moved" "w = redirect_writes item moved by address (last_pending s item) (pool_holds s item)"
proof (cases "dget (ib_items s) item_id")
  case (Some row)
  then show thesis using assms that[OF Some refl]
    by (auto simp: redirect_decide_def Let_def split: if_splits sum.splits bool.splits)
qed (use assms in \<open>simp add: redirect_decide_def\<close>)

lemma return_cases:
  assumes "return_decide live now item_id holder expected_receiver s = Inr (r, Some w)"
  obtains row item moved where "dget (ib_items s) item_id = Some row" "item = mr_item row" "\<not> closed_state (ml_state item)" "mr_holder row = Some holder"
    "ml_address item = holder" "moved = item\<lparr>ml_state := M_Pending, ml_session := '''', ml_updated_at := now, ml_reason := reclaimed\<rparr>"
    "w = (\<lambda>s. push_entry item_id (state_entry_of M_Pending redeliverer reclaimed now '''') (drop_delivered item_id (stage_pool_return item moved holder s)))"
proof (cases "dget (ib_items s) item_id")
  case (Some row)
  then show thesis using assms that[OF Some refl]
    by (auto simp: return_decide_def Let_def split: if_splits sum.splits bool.splits)
qed (use assms in \<open>simp add: return_decide_def\<close>)

lemma requeue_cases:
  assumes "requeue_decide live now item_id by reason before s = Inr (r, Some w)"
  obtains (undelivered) "\<forall>row. dget (ib_items s) item_id = Some row \<longrightarrow> ml_state (mr_item row) \<noteq> M_Delivered" "r = None" "w = drop_delivered item_id"
  | (pooled) row item moved h where "dget (ib_items s) item_id = Some row" "item = mr_item row" "ml_state item = M_Delivered" "mr_holder row = Some h"
      "moved = item\<lparr>ml_state := M_Pending, ml_updated_at := now, ml_reason := reason\<rparr>"
      "w = (\<lambda>s. push_entry item_id (state_entry_of M_Pending by reason now '''') (stage_pool_return item moved h (drop_delivered item_id s)))"
  | (again) row item moved where "dget (ib_items s) item_id = Some row" "item = mr_item row" "ml_state item = M_Delivered"
      "moved = item\<lparr>ml_state := M_Pending, ml_updated_at := now, ml_reason := reason\<rparr>"
      "w = (\<lambda>s. push_entry item_id (state_entry_of M_Pending by reason now '''')
         (set_wait (ml_address item) (add_pending (ml_address item) item (put_item moved (drop_delivered item_id s)))))"
proof (cases "dget (ib_items s) item_id")
  case None
  then show thesis using assms undelivered by (simp add: requeue_decide_def)
next
  case (Some row)
  show thesis
  proof (cases "ml_state (mr_item row) = M_Delivered")
    case False
    then show thesis using assms Some undelivered by (auto simp: requeue_decide_def Let_def split: if_splits)
  next
    case delivered: True
    show thesis
    proof (cases "takes_back live (mr_holder row)")
      case True
      then obtain h where "mr_holder row = Some h" by (auto simp: takes_back_def split: option.splits)
      then show thesis using assms Some delivered True pooled[OF Some refl delivered]
        by (auto simp: requeue_decide_def Let_def split: if_splits)
    next
      case False
      then show thesis using assms Some delivered again[OF Some refl delivered]
        by (auto simp: requeue_decide_def Let_def split: if_splits)
    qed
  qed
qed


lemma receipt_cases:
  assumes "receipt_decide resolve session now item_id recipient s = Inr (r, Some w)"
  obtains row item moved where "dget (ib_items s) item_id = Some row" "item = mr_item row" "ml_state item = M_Pending"
    "acts_for resolve s recipient (ml_address item)"
    "moved = item\<lparr>ml_state := M_Delivered, ml_updated_at := now, ml_reason := '''', ml_session := session\<rparr>"
    "w = stage_move item moved recipient (last_pending s item) (session \<noteq> '''')"
  using assms by (auto simp: receipt_decide_def Let_def split: option.splits if_splits)

lemma shown_cases:
  assumes "shown_decide resolve now was_shown item_id recipient s = Inr (r, Some w)"
  obtains row item moved where "dget (ib_items s) item_id = Some row" "item = mr_item row" "ml_state item = M_Pending"
    "moved = item\<lparr>ml_state := M_Done, ml_updated_at := now, ml_reason := ''done: already shown through the ledger''\<rparr>"
    "w = stage_move item moved recipient (last_pending s item) True"
  using assms by (auto simp: shown_decide_def Let_def split: option.splits if_splits)

section \<open>The invariant along a run\<close>

lemma informed_follows:
  assumes "own_move state only_from" "\<not> closed_state (ml_state item)" "ml_state item \<noteq> fst (informed item state reason)"
    and "\<forall>states. only_from = Some states \<longrightarrow> ml_state item \<in> set states"
  shows "may_follow (ml_state item) (fst (informed item state reason))" "fst (informed item state reason) \<noteq> M_Pending"
  using assms by (auto simp: own_move_def informed_def may_follow_def split: if_splits)

lemma reopen_cases:
  assumes "reopen_decide now answer by reason s = Inr (r, Some w)"
  obtains row item moved where "dget (ib_items s) (ml_ref answer) = Some row" "item = mr_item row" "ml_state item = M_Done"
    "ml_reason item = ''done: '' @ py_strip (replied (ml_id answer))"
    "moved = item\<lparr>ml_state := M_Read, ml_updated_at := now, ml_reason := reason\<rparr>"
    "w = (\<lambda>s. push_entry (ml_id item) (state_entry_of M_Read by reason now '''') (add_open (ml_address item) item
       (change_row (ml_id item) (\<lambda>row. row\<lparr>mr_replies := dpop (ml_sender answer) (mr_replies row)\<rparr>) (put_item moved s))))"
proof (cases "dget (ib_items s) (ml_ref answer)")
  case (Some row)
  have "py_strip (replied x) \<noteq> ''''" for x
  proof -
    have "\<not> py_space (CHR ''r'')" by (simp add: py_space_def)
    then have "dropWhile py_space (replied x) = replied x" "CHR ''r'' \<in> set (replied x)" by (simp_all add: replied_def)
    then have "dropWhile py_space (rev (replied x)) \<noteq> []" using \<open>\<not> py_space (CHR ''r'')\<close> by (auto simp: dropWhile_eq_Nil_conv)
    then show ?thesis using \<open>dropWhile py_space (replied x) = replied x\<close> by (simp add: py_strip_def)
  qed
  then have "close_reason ''done'' (replied (ml_id answer)) = Inr (M_Done, ''done: '' @ py_strip (replied (ml_id answer)))"
    by (simp add: close_reason_def Let_def)
  then show thesis using assms Some that[OF Some refl] by (auto simp: reopen_decide_def Let_def split: if_splits)
qed (use assms in \<open>simp add: reopen_decide_def\<close>)

lemma mail_step_ok: "mail_step s s' \<Longrightarrow> mail_ok s \<Longrightarrow> mail_ok s'"
proof (induction rule: mail_step.induct)
  case (sequenced s a)
  then show ?case by (rule mail_aside_ok) (simp add: aside_def take_sequence_def)
next
  case (sent item given pooled s w)
  then show ?case using send_ok[OF sent.prems sent.hyps(2,3)] by (auto simp: send_decide_def split: if_splits)
next
  case (moved resolve session now item_id who actors state reason only_from s r w)
  obtain row item m state' where m: "dget (ib_items s) item_id = Some row" "item = mr_item row" "\<not> closed_state (ml_state item)"
    "state' = fst (informed item state reason)" "ml_state item \<noteq> state'" "ml_state m = state'" "ml_id m = ml_id item" "ml_address m = ml_address item"
    "ml_created_at m = ml_created_at item" "closed_state state' \<or> \<not> pool_holds s item" "\<forall>states. only_from = Some states \<longrightarrow> ml_state item \<in> set states"
    "w = stage_move item m who (last_pending s item) True" using moved.hyps(1) by (rule move_cases)
  note follows = informed_follows[OF moved.hyps(2) m(3) m(5)[unfolded m(4)] m(11), folded m(4)]
  have "ml_id m = item_id" using slice_facts(1)[OF moved.prems m(1)] m(2,7) by simp
  from stage_move_ok[OF moved.prems m(1-3) this m(8,9)] show ?case using follows m(6,10,12) by simp
next
  case (receipted resolve session now item_id recipient s r w s')
  obtain row item m where m: "dget (ib_items s) item_id = Some row" "item = mr_item row" "ml_state item = M_Pending"
    "m = item\<lparr>ml_state := M_Delivered, ml_updated_at := now, ml_reason := '''', ml_session := session\<rparr>"
    "w = stage_move item m recipient (last_pending s item) (session \<noteq> '''')" using receipted.hyps(1) by (rule receipt_cases)
  have "ml_id item = item_id" using slice_facts(1)[OF receipted.prems m(1)] m(2) by simp
  moreover have "\<not> pool_holds s item" using receipted.hyps(2) m(1,2) by simp
  ultimately have "mail_ok (w s)" unfolding m(5)
    by (intro stage_move_ok[OF receipted.prems m(1,2)]) (auto simp: m(3,4) may_follow_def)
  then show ?case using mail_aside_ok receipted.hyps(3) by blast
next
  case (shown resolve now was_shown item_id recipient s r w s')
  obtain row item m where m: "dget (ib_items s) item_id = Some row" "item = mr_item row" "ml_state item = M_Pending"
    "m = item\<lparr>ml_state := M_Done, ml_updated_at := now, ml_reason := ''done: already shown through the ledger''\<rparr>"
    "w = stage_move item m recipient (last_pending s item) True" using shown.hyps(1) by (rule shown_cases)
  have "ml_id item = item_id" using slice_facts(1)[OF shown.prems m(1)] m(2) by simp
  then have "mail_ok (w s)" unfolding m(5)
    by (intro stage_move_ok[OF shown.prems m(1,2)]) (auto simp: m(3,4) may_follow_def)
  then show ?case using mail_aside_ok shown.hyps(2) by blast
next
  case (swept s item_id row a)
  then show ?case by (intro sweep_ok)
next
  case (redirected now item_id who address reason expected_address expected_receiver s r w)
  then obtain row item m where m: "dget (ib_items s) item_id = Some row" "item = mr_item row" "\<not> closed_state (ml_state item)"
    "m = item\<lparr>ml_address := (if address \<noteq> '''' then address else ml_address item),
       ml_state := (if address \<noteq> '''' then M_Pending else M_Cancelled), ml_updated_at := now, ml_reason := reason\<rparr>"
    "w = redirect_writes item m who address (last_pending s item) (pool_holds s item)" by (elim redirect_cases)
  then show ?case using redirect_ok[OF redirected.prems m(1-4)] by simp
next
  case (returned live now item_id holder expected_receiver s r w)
  then obtain row item m where m: "dget (ib_items s) item_id = Some row" "item = mr_item row" "\<not> closed_state (ml_state item)" "mr_holder row = Some holder"
    "m = item\<lparr>ml_state := M_Pending, ml_session := '''', ml_updated_at := now, ml_reason := reclaimed\<rparr>"
    "w = (\<lambda>s. push_entry item_id (state_entry_of M_Pending redeliverer reclaimed now '''') (drop_delivered item_id (stage_pool_return item m holder s)))"
    by (elim return_cases)
  have "ml_id m = item_id" using slice_facts(1)[OF returned.prems m(1)] m(2,5) by simp
  then show ?case unfolding m(6) by (rule pool_return_ok[OF returned.prems m(1-4) _ _ _ _ disjI1[OF refl]]) (simp_all add: m(5))
next
  case (requeued live now item_id who reason before s r w)
  from requeued.hyps(1) show ?case
  proof (cases rule: requeue_cases)
    case undelivered
    then show ?thesis using undelivered_ok[OF requeued.prems] by simp
  next
    case (pooled row item m h)
    have "ml_id m = item_id" using slice_facts(1)[OF requeued.prems pooled(1)] pooled(2,5) by simp
    then show ?thesis unfolding pooled(6)
      by (rule pool_return_ok[OF requeued.prems pooled(1,2) _ pooled(4) _ _ _ _ disjI2[OF refl], rotated 1]) (simp_all add: pooled(3,5))
  next
    case (again row item m)
    then show ?thesis using requeue_ok[OF requeued.prems again(1-4)] by simp
  qed
next
  case (reopened now answer who reason s r w)
  then obtain row item m where m: "dget (ib_items s) (ml_ref answer) = Some row" "item = mr_item row" "ml_state item = M_Done"
    "m = item\<lparr>ml_state := M_Read, ml_updated_at := now, ml_reason := reason\<rparr>"
    "w = (\<lambda>s. push_entry (ml_id item) (state_entry_of M_Read who reason now '''') (add_open (ml_address item) item
       (change_row (ml_id item) (\<lambda>row. row\<lparr>mr_replies := dpop (ml_sender answer) (mr_replies row)\<rparr>) (put_item m s))))" by (elim reopen_cases)
  then show ?case using reopen_ok[OF reopened.prems m(1-4)] by simp
next
  case (noted item_id event who detail at_ms held s r w)
  then show ?case by (auto simp: note_decide_def split: option.splits prod.splits if_splits intro: note_ok)
next
  case (claimed masters routed held now slug s r w)
  from claimed.hyps(1) show ?case
  proof (cases rule: pool_claim_cases)
    case forget
    then show ?thesis using mail_aside_ok[OF claimed.prems] by (simp add: aside_def)
  next
    case (dropped i)
    have "dhas (ib_pool s slug) i" using dropped(2) by (simp add: dhas_def map_of_eq_None_iff)
    then obtain n where n: "sl_pool (slice s i) slug = Some n" by (auto simp: slice_def dhas_def)
    have False
    proof (cases "dget (ib_items s) i")
      case None
      then show ?thesis using n mail_ok_slice[OF claimed.prems, of i] by (simp add: slice_ok_def slice_row)
    next
      case (Some row)
      then show ?thesis using dropped(3) slice_facts(6)[OF claimed.prems Some n] by simp
    qed
    then show ?thesis ..
  next
    case (claimed i rest row seat)
    have "i \<in> set (zrange (ib_pool s slug))" by (simp only: claimed(1) list.set_intros)
    then have "dhas (ib_pool s slug) i" by (simp add: dhas_def map_of_eq_None_iff)
    from claim_ok[OF claimed.prems claimed(2) refl this] show ?thesis using claimed(4,7) claimed.hyps(2) by simp
  qed simp
next
  case (indexed a s r w)
  then show ?case by (rule index_open_ok[rotated])
next
  case (filled a s r w)
  then show ?case by (rule back_fill_ok[rotated])
next
  case (answering s item_id replier reply_id)
  then show ?case unfolding set_reply_def by (rule replies_ok) auto
next
  case (other s s')
  then show ?case using mail_aside_ok by blast
qed

lemma mail_steps_ok: "mail_step\<^sup>*\<^sup>* s s' \<Longrightarrow> mail_ok s \<Longrightarrow> mail_ok s'"
  by (induction rule: rtranclp_induct) (auto intro: mail_step_ok)

lemma empty_ok: "mail_ok (empty_inbox st)"
  by (simp add: mail_ok_def slice_ok_def slice_def empty_inbox_def dhas_def waits_ok_def sizes_ok_def size_of_def)

lemma reachable_ok: "mail_reachable s \<Longrightarrow> mail_ok s"
  using mail_steps_ok empty_ok unfolding mail_reachable_def by blast


section \<open>The transactions as clients\<close>

lemma seats_read_same: "seats_read resolve s by as = seats_read resolve s' by as \<Longrightarrow> list_ex (acts_for resolve s by) as = list_ex (acts_for resolve s' by) as"
proof (induction as)
  case (Cons a as)
  have same: "acts_for resolve s by a = acts_for resolve s' by a"
    using Cons.prems by (cases "resolve by \<noteq> resolve a \<and> is_seat (resolve a)") (auto simp: acts_for_def)
  then show ?case using Cons by (auto split: if_splits)
qed simp

lemma move_decides:
  assumes "move_seen resolve item_id by actors state s = move_seen resolve item_id by actors state s'"
  shows "move_decide resolve session now item_id by actors state reason only_from s =
    move_decide resolve session now item_id by actors state reason only_from s'"
proof (cases "dget (ib_items s) item_id")
  case None
  then show ?thesis using assms by (simp add: move_seen_def move_decide_def)
next
  case (Some row)
  let ?item = "mr_item row"
  let ?to = "fst (informed ?item state reason)"
  have to: "fst (informed ?item state '''') = ?to" by (auto simp: informed_def)
  have row': "dget (ib_items s') item_id = Some row" using assms Some by (cases "dget (ib_items s') item_id") (simp_all add: move_seen_def Let_def)
  have seen: "seats_read resolve s by (actors ?item) = seats_read resolve s' by (actors ?item)"
    "\<not> closed_state ?to \<Longrightarrow> pool_slug (ml_address ?item) \<noteq> '''' \<Longrightarrow> ib_pool s (pool_slug (ml_address ?item)) = ib_pool s' (pool_slug (ml_address ?item))"
    "?to = M_Delivered \<Longrightarrow> owned resolve s by = owned resolve s' by \<and> ib_reservation s item_id = ib_reservation s' item_id \<and>
       (ib_reservation s item_id \<noteq> '''' \<longrightarrow> ib_delivery s (ib_reservation s item_id) = ib_delivery s' (ib_reservation s' item_id))"
    "ib_pending s (ml_address ?item) = ib_pending s' (ml_address ?item)"
    using assms Some row' to by (auto simp: move_seen_def Let_def split: if_splits)
  have "list_ex (acts_for resolve s by) (actors ?item) = list_ex (acts_for resolve s' by) (actors ?item)"
    by (rule seats_read_same[OF seen(1)])
  moreover have "(\<not> closed_state ?to \<and> pool_holds s ?item) = (\<not> closed_state ?to \<and> pool_holds s' ?item)"
    using seen(2) by (auto simp: pool_holds_def)
  moreover have "(?to = M_Delivered \<and> (owned resolve s by \<or> reserved s item_id)) = (?to = M_Delivered \<and> (owned resolve s' by \<or> reserved s' item_id))"
    using seen(3) by (auto simp: reserved_def)
  moreover have "last_pending s ?item = last_pending s' ?item" using seen(4) by (simp add: last_pending_def)
  ultimately show ?thesis unfolding move_decide_def Some row' option.case Let_def case_prod_unfold by presburger
qed

interpretation moving: watched_client "move_seen resolve item_id by actors state"
  "move_decide resolve session now item_id by actors state reason only_from" mail_step
  for resolve item_id "by" actors state session now reason only_from
  by unfold_locales (rule move_decides)

lemma redirect_decides:
  assumes "redirect_seen item_id expected_receiver s = redirect_seen item_id expected_receiver s'"
  shows "redirect_decide now item_id by address reason expected_address expected_receiver s =
    redirect_decide now item_id by address reason expected_address expected_receiver s'"
proof (cases "dget (ib_items s) item_id")
  case None
  then show ?thesis using assms by (simp add: redirect_seen_def redirect_decide_def)
next
  case (Some row)
  let ?item = "mr_item row"
  let ?late = "\<lambda>s. if expected_receiver = None \<or> expected_receiver = Some '''' then Inr True
      else and_then (last_receiver (ib_history s item_id)) (\<lambda>receiver. Inr (Some receiver = expected_receiver))"
  have row': "dget (ib_items s') item_id = Some row" using assms Some by (cases "dget (ib_items s') item_id") (simp_all add: redirect_seen_def)
  have seen: "\<not> (expected_receiver = None \<or> expected_receiver = Some '''') \<Longrightarrow> ib_history s item_id = ib_history s' item_id"
    "ib_pending s (ml_address ?item) = ib_pending s' (ml_address ?item)"
    "pool_slug (ml_address ?item) \<noteq> '''' \<Longrightarrow> ib_pool s (pool_slug (ml_address ?item)) = ib_pool s' (pool_slug (ml_address ?item))"
    using assms Some row' by (auto simp: redirect_seen_def split: if_splits)
  have "?late s = ?late s'" using seen(1) by simp
  moreover have "last_pending s ?item = last_pending s' ?item" using seen(2) by (simp add: last_pending_def)
  moreover have "pool_holds s ?item = pool_holds s' ?item" using seen(3) by (auto simp: pool_holds_def)
  ultimately show ?thesis unfolding redirect_decide_def Some row' option.case Let_def by presburger
qed

interpretation redirecting: watched_client "redirect_seen item_id expected_receiver"
  "redirect_decide now item_id by address reason expected_address expected_receiver" mail_step
  for now item_id "by" address reason expected_address expected_receiver
  by unfold_locales (rule redirect_decides)

interpretation requeueing: watched_client "\<lambda>s. dget (ib_items s) item_id" "requeue_decide live now item_id by reason before" mail_step
  for live now item_id "by" reason before
  by unfold_locales (simp add: requeue_decide_def)

interpretation reopening: watched_client "\<lambda>s. dget (ib_items s) (ml_ref answer)" "reopen_decide now answer by reason" mail_step
  for now answer "by" reason
  by unfold_locales (simp add: reopen_decide_def)

lemma return_decides:
  assumes "return_seen item_id holder expected_receiver s = return_seen item_id holder expected_receiver s'"
  shows "return_decide live now item_id holder expected_receiver s = return_decide live now item_id holder expected_receiver s'"
proof (cases "dget (ib_items s) item_id")
  case None
  then show ?thesis using assms by (simp add: return_seen_def return_decide_def)
next
  case (Some row)
  let ?late = "\<lambda>s. if expected_receiver = '''' then Inr True
      else and_then (last_receiver (ib_history s item_id)) (\<lambda>receiver. Inr (receiver = expected_receiver))"
  have row': "dget (ib_items s') item_id = Some row" using assms Some by (cases "dget (ib_items s') item_id") (simp_all add: return_seen_def)
  have "expected_receiver \<noteq> '''' \<Longrightarrow> ib_history s item_id = ib_history s' item_id"
    using assms Some row' by (auto simp: return_seen_def split: if_splits)
  then have "?late s = ?late s'" by simp
  then show ?thesis unfolding return_decide_def Some row' option.case Let_def by presburger
qed

lemma pool_claim_decides:
  assumes "claim_seen masters slug s = claim_seen masters slug s'"
  shows "claim_decide masters routed held now slug s = claim_decide masters routed held now slug s'"
proof -
  have same: "ib_pool s slug = ib_pool s' slug" "ib_last s slug = ib_last s' slug" using assms by (simp_all add: claim_seen_def)
  show ?thesis
  proof (cases "zrange (ib_pool s slug)")
    case Nil
    then show ?thesis using same by (simp add: claim_decide_def)
  next
    case (Cons i rest)
    then have "masters \<noteq> [] \<Longrightarrow> dget (ib_items s) i = dget (ib_items s') i" using assms same by (simp add: claim_seen_def)
    then show ?thesis unfolding claim_decide_def same[symmetric] Cons list.case by (cases "masters = []") simp_all
  qed
qed

interpretation returning: watched_client "return_seen item_id holder expected_receiver" "return_decide live now item_id holder expected_receiver" mail_step
  for live now item_id holder expected_receiver
  by unfold_locales (rule return_decides)

interpretation claiming: watched_client "claim_seen masters slug" "claim_decide masters routed held now slug" mail_step
  for masters routed held now slug
  by unfold_locales (rule pool_claim_decides)

text \<open>A loop of the inbox answers what was decided at one moment of the run.\<close>

lemma mail_loop_Inr: "mail_loop spent seen decide others s = (Inr r, s') \<Longrightarrow> watch_loop seen decide (take move_attempts others) s = (Inr r, s')"
  by (auto simp: mail_loop_def split: prod.splits sum.splits fault.splits)

lemma run_ok: "mail_step\<^sup>*\<^sup>* s s' \<Longrightarrow> mail_reachable s \<Longrightarrow> mail_reachable s'"
  unfolding mail_reachable_def by (meson rtranclp_trans)

lemma clients_take: "moving.clients others \<Longrightarrow> moving.clients (take n others)"
  by (auto simp: moving.clients_def dest: in_set_takeD)

end
