(* ===== verification/Inbox_Promises.thy ===== *)
theory Inbox_Promises
  imports Inbox_Steps
begin

text \<open>
  What the inbox promises its agents: the indexes tell the truth, a pending message is found, histories follow the state
  machine, a closed message stays closed, a delivery was due when it was made, the pool goes round the live masters,
  and unconfirmed deliveries come back.
\<close>

section \<open>A small inbox\<close>

definition letter :: mail where
  "letter = \<lparr>ml_id = ''m1'', ml_sender = ''ci'', ml_address = ''eng'', ml_text = ''hello'', ml_state = M_Pending, ml_created_at = 10,
    ml_updated_at = 10, ml_reason = '''', ml_ref = '''', ml_sequence = 1, ml_fyi = False, ml_task = '''', ml_session = ''''\<rparr>"

definition one_letter :: inbox where
  "one_letter = send_writes letter False (empty_inbox no_seats)"

lemma one_letter_step: "mail_step (empty_inbox no_seats) one_letter"
proof -
  have "send_decide letter False False (empty_inbox no_seats) = Inr ((), Some (send_writes letter False))"
    by (simp add: send_decide_def)
  from mail_step.sent[OF this] show ?thesis by (simp add: one_letter_def empty_inbox_def letter_def)
qed

lemma one_letter_reachable: "mail_reachable one_letter"
  using one_letter_step unfolding mail_reachable_def by blast

lemmas letter_eval = one_letter_def letter_def empty_inbox_def no_seats_def no_occupant_def send_writes_def put_item_def
  size_add_def add_open_def add_address_def add_pending_def set_wait_def push_entry_def state_entry_of_def Let_def

lemma one_letter_there: "dget (ib_items one_letter) ''m1'' = Some \<lparr>mr_item = letter, mr_holder = None, mr_skip = None, mr_replies = []\<rparr>"
  by (simp add: letter_eval)

section \<open>Indexes and histories\<close>

lemma zrange_iff: "i \<in> set (zrange z) \<longleftrightarrow> dget z i \<noteq> None"
  by (simp add: map_of_eq_None_iff)

lemma row_or_none:
  assumes "mail_ok s"
  shows "dget (ib_open s a) i = Some n \<Longrightarrow> \<exists>row. dget (ib_items s) i = Some row \<and> a = ml_address (mr_item row) \<and> \<not> closed_state (ml_state (mr_item row))"
    and "dget (ib_pending s a) i = (case dget (ib_items s) i of None \<Rightarrow> None | Some row \<Rightarrow>
      if a = ml_address (mr_item row) \<and> ml_state (mr_item row) = M_Pending \<and> \<not> pool_holds s (mr_item row) then Some (ml_created_at (mr_item row)) else None)"
    and "case dget (ib_items s) i of None \<Rightarrow> dget (ib_delivered s) i = None | Some row \<Rightarrow> delivered_ok (mr_item row) (dget (ib_delivered s) i)"
    and "dget (ib_items s) i = Some row \<Longrightarrow> a = ml_address (mr_item row) \<Longrightarrow> \<not> closed_state (ml_state (mr_item row)) \<Longrightarrow>
      \<not> was_closed (ib_history s i) \<Longrightarrow> dget (ib_open s a) i = Some (ml_created_at (mr_item row))"
proof -
  have none: "dget (ib_open s a) i = None \<and> dget (ib_pending s a) i = None \<and> dget (ib_delivered s) i = None" if "dget (ib_items s) i = None"
    using mail_ok_slice[OF assms, of i] that unfolding slice_ok_def slice_row by (simp add: slice_def fun_eq_iff)
  have pool: "(\<forall>slug. sl_pool (slice s i) slug = None) \<longleftrightarrow> \<not> pool_holds s (mr_item row)" if "dget (ib_items s) i = Some row" for row
  proof
    assume "\<forall>slug. sl_pool (slice s i) slug = None"
    then show "\<not> pool_holds s (mr_item row)" using slice_facts(1)[OF assms that] by (auto simp: pool_holds_def slice_def dhas_def)
  next
    assume "\<not> pool_holds s (mr_item row)"
    then show "\<forall>slug. sl_pool (slice s i) slug = None" using pool_out[OF assms that] by simp
  qed
  have opens: "dget (ib_open s a) i = (if a = ml_address (mr_item row) \<and> \<not> closed_state (ml_state (mr_item row)) then Some (ml_created_at (mr_item row)) else None) \<or>
      (dget (ib_open s a) i = None \<and> was_closed (ib_history s i))" if "dget (ib_items s) i = Some row" for row
    using slice_facts(3)[OF assms that] by (auto simp: open_ok_def slice_def fun_eq_iff)
  show "\<exists>row. dget (ib_items s) i = Some row \<and> a = ml_address (mr_item row) \<and> \<not> closed_state (ml_state (mr_item row))"
    if "dget (ib_open s a) i = Some n"
    using that none opens by (cases "dget (ib_items s) i") (fastforce split: if_splits)+
  show "dget (ib_open s a) i = Some (ml_created_at (mr_item row))"
    if "dget (ib_items s) i = Some row" "a = ml_address (mr_item row)" "\<not> closed_state (ml_state (mr_item row))" "\<not> was_closed (ib_history s i)"
    using opens[OF that(1)] that(2-4) by auto
  show "dget (ib_pending s a) i = (case dget (ib_items s) i of None \<Rightarrow> None | Some row \<Rightarrow>
      if a = ml_address (mr_item row) \<and> ml_state (mr_item row) = M_Pending \<and> \<not> pool_holds s (mr_item row) then Some (ml_created_at (mr_item row)) else None)"
    using none pool slice_facts(4)[OF assms, of i] by (cases "dget (ib_items s) i"; simp add: slice_def fun_eq_iff)
  show "case dget (ib_items s) i of None \<Rightarrow> dget (ib_delivered s) i = None | Some row \<Rightarrow> delivered_ok (mr_item row) (dget (ib_delivered s) i)"
    using none slice_facts(5)[OF assms, of i] by (cases "dget (ib_items s) i"; simp add: slice_def)
qed

text \<open>
  C12: The indexes tell the truth: whatever the store, the pools, the receipts and the sweeps of the open index made of an
  empty inbox, the open index of an address lists open messages of that address only, and all of them but some that were
  once closed and opened again; its pending index lists exactly those that are pending and wait in no pool; and the index
  of deliveries lists delivered messages only, and all of them but some that were delivered without a session.
\<close>

theorem mail_indexes_exact:
  assumes "mail_reachable s"
  shows "(i \<in> set (zrange (ib_open s a)) \<longrightarrow>
      (\<exists>row. dget (ib_items s) i = Some row \<and> ml_address (mr_item row) = a \<and> \<not> closed_state (ml_state (mr_item row)))) \<and>
    ((\<exists>row. dget (ib_items s) i = Some row \<and> ml_address (mr_item row) = a \<and> \<not> closed_state (ml_state (mr_item row))) \<and>
      \<not> was_closed (ib_history s i) \<longrightarrow> i \<in> set (zrange (ib_open s a))) \<and>
    (i \<in> set (zrange (ib_pending s a)) \<longleftrightarrow>
      (\<exists>row. dget (ib_items s) i = Some row \<and> ml_address (mr_item row) = a \<and> ml_state (mr_item row) = M_Pending \<and> \<not> pool_holds s (mr_item row))) \<and>
    (i \<in> set (zrange (ib_delivered s)) \<longrightarrow> (\<exists>row. dget (ib_items s) i = Some row \<and> ml_state (mr_item row) = M_Delivered)) \<and>
    ((\<exists>row. dget (ib_items s) i = Some row \<and> ml_state (mr_item row) = M_Delivered \<and> ml_session (mr_item row) \<noteq> '''') \<longrightarrow>
      i \<in> set (zrange (ib_delivered s)))"
proof -
  note ok = reachable_ok[OF assms]
  note at = row_or_none(3)[OF ok, of i]
  have "(\<exists>row. dget (ib_items s) i = Some row \<and> ml_state (mr_item row) = M_Delivered)" if "dget (ib_delivered s) i \<noteq> None"
    using that at by (auto simp: delivered_ok_def split: option.splits if_splits)
  moreover have "dget (ib_delivered s) i \<noteq> None"
    if "dget (ib_items s) i = Some row" "ml_state (mr_item row) = M_Delivered" "ml_session (mr_item row) \<noteq> ''''" for row
    using that at by (auto simp: delivered_ok_def)
  moreover have "\<exists>row. dget (ib_items s) i = Some row \<and> ml_address (mr_item row) = a \<and> \<not> closed_state (ml_state (mr_item row))"
    if "dget (ib_open s a) i \<noteq> None" using that row_or_none(1)[OF ok, of a i] by auto
  moreover have "dget (ib_open s a) i \<noteq> None"
    if "dget (ib_items s) i = Some row" "ml_address (mr_item row) = a" "\<not> closed_state (ml_state (mr_item row))" "\<not> was_closed (ib_history s i)" for row
    using row_or_none(4)[OF ok that(1) _ that(3,4), of a] that(2) by auto
  moreover have "dget (ib_pending s a) i \<noteq> None \<longleftrightarrow>
      (\<exists>row. dget (ib_items s) i = Some row \<and> ml_address (mr_item row) = a \<and> ml_state (mr_item row) = M_Pending \<and> \<not> pool_holds s (mr_item row))"
    unfolding row_or_none(2)[OF ok] by (auto split: option.splits)
  ultimately show ?thesis unfolding zrange_iff by blast
qed

lemma mail_indexes_exact_witness:
  "''m1'' \<in> set (zrange (ib_open one_letter ''eng'')) \<and> ''m1'' \<in> set (zrange (ib_pending one_letter ''eng'')) \<and>
   ''m1'' \<notin> set (zrange (ib_delivered one_letter))"
proof -
  let ?row = "\<lparr>mr_item = letter, mr_holder = None, mr_skip = None, mr_replies = []\<rparr>"
  have "\<not> was_closed (ib_history one_letter ''m1'')" by (simp add: was_closed_def letter_eval states_of_def map_filter_def)
  moreover have "\<not> pool_holds one_letter letter" by (simp add: pool_holds_def letter_def pool_slug_def is_seat_def partition_at_def)
  moreover have "ml_address letter = ''eng''" "ml_state letter = M_Pending" by (simp_all add: letter_def)
  ultimately have "\<exists>row. dget (ib_items one_letter) ''m1'' = Some row \<and> ml_address (mr_item row) = ''eng'' \<and> \<not> closed_state (ml_state (mr_item row))"
    "\<not> was_closed (ib_history one_letter ''m1'')"
    "\<exists>row. dget (ib_items one_letter) ''m1'' = Some row \<and> ml_address (mr_item row) = ''eng'' \<and> ml_state (mr_item row) = M_Pending \<and> \<not> pool_holds one_letter (mr_item row)"
    "\<not> (\<exists>row. dget (ib_items one_letter) ''m1'' = Some row \<and> ml_state (mr_item row) = M_Delivered)"
    using one_letter_there by simp_all
  then show ?thesis using mail_indexes_exact[OF one_letter_reachable, of "''m1''" "''eng''"] by blast
qed

text \<open>
  C15: Histories follow the state machine: the states written in the history of a message start with pending, end with the
  state it has, and each may follow the one before; so a delivery comes right after pending, a confirmation right after
  a delivery or a reading, and nothing after a close but the reading that reopens an answered message.
\<close>

theorem message_history_path:
  assumes "mail_reachable s" and "dget (ib_items s) i = Some row"
  shows "mail_path (states_of (ib_history s i)) (ml_state (mr_item row))"
  using slice_facts(8)[OF reachable_ok[OF assms(1)] assms(2)] by (simp add: slice_def)

lemma message_history_path_witness: "states_of (ib_history one_letter ''m1'') = [M_Pending] \<and> mail_path (states_of (ib_history one_letter ''m1'')) M_Pending"
  using message_history_path[OF one_letter_reachable one_letter_there] by (simp add: letter_eval states_of_def map_filter_def)

section \<open>Closed stays closed\<close>

text \<open>Closed, and not by an answer.\<close>

definition settled_for_good :: "mail \<Rightarrow> bool" where
  "settled_for_good item \<longleftrightarrow> closed_state (ml_state item) \<and> (\<forall>answer_id. ml_reason item \<noteq> ''done: '' @ py_strip (replied answer_id))"

lemma row_put_item: "dget (ib_items (put_item m s)) i = (if i = ml_id m then Some (case dget (ib_items s) i of
    None \<Rightarrow> \<lparr>mr_item = m, mr_holder = None, mr_skip = None, mr_replies = []\<rparr> | Some row \<Rightarrow> row\<lparr>mr_item := m\<rparr>) else dget (ib_items s) i)"
  by (auto simp: put_item_def dget_dset)

lemma stage_claim_elsewhere: "j \<noteq> ml_id item \<Longrightarrow> slice (stage_claim item seat by now s) j = slice s j"
  by (simp add: stage_claim_def stage_pending_def Let_def slices)

lemma claim_elsewhere: "j \<noteq> ml_id item \<Longrightarrow> slice (claim_writes slug seat item now s) j = slice s j"
  unfolding claim_writes_def Let_def by (subst stage_claim_elsewhere) (simp_all add: slice_def dget_dpop fun_eq_iff)

text \<open>A step that writes a message's row writes that of an open one, or of the one an answer had closed.\<close>

lemma step_keeps_settled:
  assumes "mail_step s s'" "mail_ok s" "dget (ib_items s) i = Some row" "settled_for_good (mr_item row)"
  shows "\<exists>row'. dget (ib_items s') i = Some row' \<and> mr_item row' = mr_item row"
proof -
  have same: ?thesis if "slice s' i = slice s i" using that assms(3) by (metis slice_row)
  have other: ?thesis if "dget (ib_items s) k = Some row'" "\<not> closed_state (ml_state (mr_item row')) \<Longrightarrow> slice s' i = slice s i" "\<not> closed_state (ml_state (mr_item row'))" for k row'
    using that same by blast
  show ?thesis using assms(1)
  proof (cases rule: mail_step.cases)
    case (sequenced a)
    then show ?thesis by (intro same) (simp add: slices)
  next
    case (sent item given pooled w)
    then have "i \<noteq> ml_id item" "s' = send_writes item pooled s" using assms(3) by (auto simp: send_decide_def split: if_splits)
    then show ?thesis by (intro same) (simp add: send_writes_def Let_def slices)
  next
    case (moved resolve session now item_id who actors state reason only_from r w)
    obtain row' item m state' where m: "dget (ib_items s) item_id = Some row'" "item = mr_item row'" "\<not> closed_state (ml_state item)"
      "ml_id m = ml_id item" "w = stage_move item m who (last_pending s item) True" using moved(2) by (rule move_cases)
    have "i \<noteq> ml_id item" using m slice_facts(1)[OF assms(2) m(1)] assms(3,4) by (auto simp: settled_for_good_def)
    then show ?thesis using m moved(1) by (intro same) (simp add: stage_move_def Let_def slices)
  next
    case (redirected now item_id who address reason expected_address expected_receiver r w)
    obtain row' item m where m: "dget (ib_items s) item_id = Some row'" "item = mr_item row'" "\<not> closed_state (ml_state item)"
      "m = item\<lparr>ml_address := (if address \<noteq> '''' then address else ml_address item),
         ml_state := (if address \<noteq> '''' then M_Pending else M_Cancelled), ml_updated_at := now, ml_reason := reason\<rparr>"
      "w = redirect_writes item m who address (last_pending s item) (pool_holds s item)" using redirected(2) by (rule redirect_cases)
    have "i \<noteq> ml_id item" using m slice_facts(1)[OF assms(2) m(1)] assms(3,4) by (auto simp: settled_for_good_def)
    then show ?thesis using m(4,5) redirected(1) by (intro same) (simp add: redirect_writes_def stage_pending_def Let_def slices)
  next
    case (returned live now item_id holder expected_receiver r w)
    obtain row' item m where m: "dget (ib_items s) item_id = Some row'" "item = mr_item row'" "\<not> closed_state (ml_state item)"
      "m = item\<lparr>ml_state := M_Pending, ml_session := '''', ml_updated_at := now, ml_reason := reclaimed\<rparr>"
      "w = (\<lambda>s. push_entry item_id (state_entry_of M_Pending redeliverer reclaimed now '''') (drop_delivered item_id (stage_pool_return item m holder s)))"
      using returned(2) by (rule return_cases)
    have "i \<noteq> ml_id item" "item_id = ml_id item" using m slice_facts(1)[OF assms(2) m(1)] assms(3,4) by (auto simp: settled_for_good_def)
    then show ?thesis using m(4,5) returned(1) by (intro same) (simp add: stage_pool_return_def Let_def slices)
  next
    case (requeued live now item_id who reason before r w)
    from requeued(2) show ?thesis
    proof (cases rule: requeue_cases)
      case undelivered
      then have "dget (ib_items s') i = dget (ib_items s) i" using requeued(1) by (simp add: drop_delivered_def)
      then show ?thesis using assms(3) by simp
    next
      case (pooled row' item m h)
      have "i \<noteq> ml_id item" "item_id = ml_id item" using pooled(1-3) slice_facts(1)[OF assms(2) pooled(1)] assms(3,4) by (auto simp: settled_for_good_def)
      then show ?thesis using pooled(5,6) requeued(1) by (intro same) (simp add: stage_pool_return_def Let_def slices)
    next
      case (again row' item m)
      have "i \<noteq> ml_id item" "item_id = ml_id item" using again(1-3) slice_facts(1)[OF assms(2) again(1)] assms(3,4) by (auto simp: settled_for_good_def)
      then show ?thesis using again(4,5) requeued(1) by (intro same) (simp add: slices)
    qed
  next
    case (reopened now answer who reason r w)
    obtain row' item m where m: "dget (ib_items s) (ml_ref answer) = Some row'" "item = mr_item row'"
      "ml_reason item = ''done: '' @ py_strip (replied (ml_id answer))" "m = item\<lparr>ml_state := M_Read, ml_updated_at := now, ml_reason := reason\<rparr>"
      "w = (\<lambda>s. push_entry (ml_id item) (state_entry_of M_Read who reason now '''') (add_open (ml_address item) item
         (change_row (ml_id item) (\<lambda>row. row\<lparr>mr_replies := dpop (ml_sender answer) (mr_replies row)\<rparr>) (put_item m s))))"
      using reopened(2) by (rule reopen_cases)
    have "i \<noteq> ml_id item" using m(1-3) slice_facts(1)[OF assms(2) m(1)] assms(3,4) by (auto simp: settled_for_good_def)
    then show ?thesis using m(4,5) reopened(1) by (intro same) (simp add: slices)
  next
    case (noted item_id event who detail at_ms held r w)
    then have "dget (ib_items s') i = dget (ib_items s) i"
      by (auto simp: note_decide_def push_entry_def split: option.splits prod.splits if_splits)
    then show ?thesis using assms(3) by simp
  next
    case (claimed masters routed held now slug r w)
    from claimed(2) show ?thesis
    proof (cases rule: pool_claim_cases)
      case (claimed k rest row' seat)
      have "i \<noteq> ml_id (mr_item row')" using claimed(2,3) slice_facts(1)[OF assms(2) claimed(2)] assms(3,4) by (auto simp: settled_for_good_def)
      then show ?thesis using claim_elsewhere[of i] claimed(7) \<open>s' = w s\<close> by (intro same) simp
    qed (use claimed(1) assms(3) in simp_all)
  next
    case (indexed a r w)
    then show ?thesis using assms(3)
      by (auto simp: index_open_decide_def present_items[OF assms(2)] index_open_writes_def stage_drop_def Let_def)
  next
    case (filled a r w)
    have "ib_items (foldl (\<lambda>s item. add_pending a item s) s items) = ib_items s" for items
      by (induction items rule: rev_induct) (simp_all add: add_pending_def)
    then show ?thesis using filled assms(3)
      by (auto simp: back_fill_decide_def present_items[OF assms(2)] back_fill_writes_def stage_drop_def set_wait_def Let_def)
  next
    case (receipted resolve session now item_id recipient r w)
    obtain row' item m where m: "dget (ib_items s) item_id = Some row'" "item = mr_item row'" "ml_state item = M_Pending"
      "m = item\<lparr>ml_state := M_Delivered, ml_updated_at := now, ml_reason := '''', ml_session := session\<rparr>"
      "w = stage_move item m recipient (last_pending s item) (session \<noteq> '''')" using receipted(1) by (rule receipt_cases)
    have "i \<noteq> ml_id item" using m(1-3) slice_facts(1)[OF assms(2) m(1)] assms(3,4) by (auto simp: settled_for_good_def)
    then have "slice (w s) i = slice s i" using m(4,5) by (simp add: stage_move_def Let_def slices)
    then have "dget (ib_items (w s)) i = Some row" using assms(3) by (metis slice_row)
    then show ?thesis using receipted(3) by (simp add: aside_def)
  next
    case (shown resolve now was_shown item_id recipient r w)
    obtain row' item m where m: "dget (ib_items s) item_id = Some row'" "item = mr_item row'" "ml_state item = M_Pending"
      "m = item\<lparr>ml_state := M_Done, ml_updated_at := now, ml_reason := ''done: already shown through the ledger''\<rparr>"
      "w = stage_move item m recipient (last_pending s item) True" using shown(1) by (rule shown_cases)
    have "i \<noteq> ml_id item" using m(1-3) slice_facts(1)[OF assms(2) m(1)] assms(3,4) by (auto simp: settled_for_good_def)
    then have "slice (w s) i = slice s i" using m(4,5) by (simp add: stage_move_def Let_def slices)
    then have "dget (ib_items (w s)) i = Some row" using assms(3) by (metis slice_row)
    then show ?thesis using shown(2) by (simp add: aside_def)
  next
    case (swept item_id row' a)
    then show ?thesis using assms(3) by (simp add: drop_open_def)
  next
    case (answering item_id replier reply_id)
    then show ?thesis using assms(3) by (auto simp: set_reply_def change_row_def dget_dset split: option.splits)
  next
    case other
    then show ?thesis using assms(3) by (simp add: aside_def)
  qed
qed

text \<open>
  C14: A closed message stays as it was closed, whatever is done to the inbox later, unless it was closed by an answer; only
  such a message is ever opened again, when the answer is refused.
\<close>

theorem closed_for_good:
  assumes "mail_reachable s" and "dget (ib_items s) i = Some row" and "settled_for_good (mr_item row)" and "mail_step\<^sup>*\<^sup>* s s'"
  shows "\<exists>row'. dget (ib_items s') i = Some row' \<and> mr_item row' = mr_item row"
  using assms(4)
proof (induction rule: rtranclp_induct)
  case (step s1 s2)
  then obtain row' where row': "dget (ib_items s1) i = Some row'" "mr_item row' = mr_item row" by blast
  have "mail_ok s1" using reachable_ok[OF run_ok[OF step.hyps(1) assms(1)]] .
  from step_keeps_settled[OF step.hyps(2) this row'(1)] show ?case using row'(2) assms(3) by simp
qed (use assms(2) in blast)


definition stuck :: mail where
  "stuck = letter\<lparr>ml_state := M_Blocked, ml_updated_at := 20, ml_reason := ''blocked on ci''\<rparr>"

definition stuck_inbox :: inbox where
  "stuck_inbox = stage_move letter stuck ''eng'' True True one_letter"

lemma stuck_step: "mail_step one_letter stuck_inbox"
proof -
  have "last_pending one_letter letter" by (simp add: last_pending_def letter_eval dhas_def)
  then have "move_decide id '''' 20 ''m1'' ''eng'' own_address M_Blocked ''blocked on ci'' None one_letter =
      Inr (Some stuck, Some (stage_move letter stuck ''eng'' True True))"
    by (simp add: move_decide_def one_letter_there informed_def own_address_def acts_for_def stuck_def Let_def) (auto simp: letter_def)
  from mail_step.moved[OF this] show ?thesis by (simp add: stuck_inbox_def own_move_def)
qed

lemma closed_for_good_witness:
  "\<exists>row'. dget (ib_items (push_entry ''m1'' (Noted ''woken'' ''tick'' ''prompted'' 30) stuck_inbox)) ''m1'' = Some row' \<and> mr_item row' = stuck"
proof -
  have row: "dget (ib_items stuck_inbox) ''m1'' = Some \<lparr>mr_item = stuck, mr_holder = None, mr_skip = None, mr_replies = []\<rparr>"
    by (simp add: stuck_inbox_def stage_move_def stuck_def letter_eval pool_remove_def drop_open_def drop_delivered_def drop_pending_def drop_wait_def)
  have "mail_step stuck_inbox (push_entry ''m1'' (Noted ''woken'' ''tick'' ''prompted'' 30) stuck_inbox)"
    by (rule mail_step.noted[where held = None]) (simp add: note_decide_def)
  then have run: "mail_step\<^sup>*\<^sup>* stuck_inbox (push_entry ''m1'' (Noted ''woken'' ''tick'' ''prompted'' 30) stuck_inbox)" by blast
  have settled: "settled_for_good stuck" by (simp add: settled_for_good_def stuck_def)
  have reach: "mail_reachable stuck_inbox" using run_ok[OF _ one_letter_reachable] stuck_step by blast
  show ?thesis using closed_for_good[OF reach row _ run] settled by simp
qed

section \<open>Deliveries\<close>

text \<open>
  C13: A delivery was due: when \<open>deliver\<close> answers with a message, then at one moment of the run, and whatever others did
  around it, the message was pending outside the pool, addressed to the receiver or to the seat it held then, and
  neither the receiver nor the message was in the hands of a delivery owner; at that moment it became delivered.
\<close>

theorem delivery_was_due:
  assumes "mail_reachable s" and "moving.clients others" and "mail_deliver resolve session now item_id receiver others s = (Inr (Some item), s')"
  shows "\<exists>s1 row. mail_step\<^sup>*\<^sup>* s s1 \<and> mail_step s1 s' \<and> dget (ib_items s1) item_id = Some row \<and> ml_state (mr_item row) = M_Pending \<and>
    \<not> pool_holds s1 (mr_item row) \<and> acts_for resolve s1 receiver (ml_address (mr_item row)) \<and> \<not> owned resolve s1 receiver \<and> \<not> reserved s1 item_id \<and>
    item = (mr_item row)\<lparr>ml_state := M_Delivered, ml_updated_at := now, ml_reason := '''', ml_session := session\<rparr> \<and>
    dget (ib_items s') item_id = Some (row\<lparr>mr_item := item\<rparr>)"
proof -
  let ?decide = "move_decide resolve session now item_id receiver own_address M_Delivered '''' (Some [M_Pending])"
  have "mail_move resolve session now item_id receiver own_address M_Delivered '''' (Some [M_Pending]) others s = (Inr (Some item), s')"
    using assms(3) by (auto simp: mail_deliver_def split: prod.splits sum.splits if_splits)
  then have loop: "watch_loop (move_seen resolve item_id receiver own_address M_Delivered) ?decide (take move_attempts others) s = (Inr (Some item), s')"
    unfolding mail_move_def by (rule mail_loop_Inr)
  obtain s1 where s1: "mail_step\<^sup>*\<^sup>* s s1" "(?decide s1 = Inr (Some item, None) \<and> s' = s1) \<or> (\<exists>w. ?decide s1 = Inr (Some item, Some w) \<and> s' = w s1)"
    using moving.loop_atomic[OF clients_take[OF assms(2)] loop] by blast
  have ok: "mail_ok s1" using reachable_ok[OF run_ok[OF s1(1) assms(1)]] .
  have "?decide s1 \<noteq> Inr (Some item, None)"
    by (auto simp: move_decide_def informed_def Let_def split: option.splits if_splits)
  then obtain w where w: "?decide s1 = Inr (Some item, Some w)" "s' = w s1" using s1(2) by blast
  have step: "mail_step s1 s'" unfolding w(2) by (rule mail_step.moved[OF w(1)]) (simp add: own_move_def)
  obtain row where row: "dget (ib_items s1) item_id = Some row" using w(1) by (cases "dget (ib_items s1) item_id") (simp_all add: move_decide_def)
  have found: "ml_state (mr_item row) = M_Pending" "\<not> pool_holds s1 (mr_item row)" "acts_for resolve s1 receiver (ml_address (mr_item row))"
    "\<not> owned resolve s1 receiver" "\<not> reserved s1 item_id"
    "item = (mr_item row)\<lparr>ml_state := M_Delivered, ml_updated_at := now, ml_reason := '''', ml_session := session\<rparr>"
    "w = stage_move (mr_item row) item receiver (last_pending s1 (mr_item row)) True"
    using w(1) row by (auto simp: move_decide_def informed_def own_address_def Let_def split: if_splits)
  have "ml_id item = item_id" "ml_id (mr_item row) = item_id" "ml_state item = M_Delivered" using found(6) slice_facts(1)[OF ok row] by simp_all
  then have "sl_row (slice s' item_id) = Some (row\<lparr>mr_item := item\<rparr>)"
    using row found(7) unfolding w(2) by (simp add: stage_move_def Let_def slices slice_row row_put_item)
  then have "dget (ib_items s') item_id = Some (row\<lparr>mr_item := item\<rparr>)" by (simp add: slice_row)
  then show ?thesis using s1(1) step row found by blast
qed

lemma delivery_was_due_witness:
  "\<exists>s'. mail_deliver id ''session'' 20 ''m1'' ''eng'' [id] one_letter = (Inr (Some (letter\<lparr>ml_state := M_Delivered, ml_updated_at := 20, ml_session := ''session''\<rparr>)), s') \<and>
    (\<exists>row. dget (ib_items s') ''m1'' = Some row \<and> ml_state (mr_item row) = M_Delivered)"
proof -
  let ?item = "letter\<lparr>ml_state := M_Delivered, ml_updated_at := 20, ml_session := ''session''\<rparr>"
  have "\<not> pool_holds one_letter letter" by (simp add: pool_holds_def letter_def pool_slug_def is_seat_def partition_at_def)
  moreover have "\<not> owned id one_letter ''eng''" "\<not> reserved one_letter ''m1''" by (simp_all add: owned_def reserved_def letter_eval)
  ultimately have "move_decide id ''session'' 20 ''m1'' ''eng'' own_address M_Delivered '''' (Some [M_Pending]) one_letter =
      Inr (Some ?item, Some (stage_move letter ?item ''eng'' (last_pending one_letter letter) True))"
    by (simp add: move_decide_def one_letter_there informed_def own_address_def acts_for_def Let_def) (auto simp: letter_def)
  then obtain s' where run: "mail_deliver id ''session'' 20 ''m1'' ''eng'' [id] one_letter = (Inr (Some ?item), s')"
    by (simp add: mail_deliver_def mail_move_def mail_loop_def move_attempts_def)
  have "moving.clients [id]" by (simp add: moving.clients_def)
  from delivery_was_due[OF one_letter_reachable this run] obtain row where
    "dget (ib_items s') ''m1'' = Some (row\<lparr>mr_item := ?item\<rparr>)" by blast
  then show ?thesis using run by auto
qed

section \<open>An event in the history\<close>

text \<open>
  C20: A redirect or a withdrawal of an open message that expects a receiver, and no address or the one the message has,
  looks for a \<open>state\<close> in the newest entry of the history; where that entry is the note of a wake or an escalation it ends
  with a key error, before a write and before another try.
\<close>

theorem note_stops_redirect:
  assumes "dget (ib_items s) item_id = Some row" and "\<not> closed_state (ml_state (mr_item row))"
    and "expected_address = '''' \<or> ml_address (mr_item row) = expected_address" and "expected_receiver \<noteq> ''''"
    and "ib_history s item_id = earlier @ [Noted event writer detail noted_at]"
  shows "mail_redirect now item_id who address reason expected_address (Some expected_receiver) (other # others) s = (Inl (Key_Error ''state''), s)"
  using assms by (simp add: mail_redirect_def mail_loop_def move_attempts_def numeral_3_eq_3 redirect_decide_def last_receiver_def and_then_def Let_def)

definition woken_letter :: inbox where
  "woken_letter = push_entry ''m1'' (Noted ''woken'' ''tick'' ''prompted'' 30) one_letter"

lemma note_stops_redirect_witness:
  "mail_redirect 40 ''m1'' ''tick'' '''' ''cancelled'' ''eng'' (Some ''eng'') [id] woken_letter = (Inl (Key_Error ''state''), woken_letter)"
  by (rule note_stops_redirect[where row = "\<lparr>mr_item = letter, mr_holder = None, mr_skip = None, mr_replies = []\<rparr>" and
        earlier = "ib_history one_letter ''m1''" and event = "''woken''" and writer = "''tick''" and detail = "''prompted''" and noted_at = 30])
    (simp_all add: woken_letter_def push_entry_def one_letter_there, simp_all add: letter_def)

end
