(* ===== verification/Inbox_Passes.thy ===== *)
theory Inbox_Passes
  imports Inbox_Promises
begin

text \<open>
  The passes over the inbox, run while nobody else writes: handing out a pool goes round the live masters in seat
  order, a redelivery returns every delivery that was never confirmed, and the list of pending mail misses nothing.
\<close>

section \<open>Round the masters\<close>

lemma filter_above:
  assumes "sorted_wrt (<) (map f xs)" "k < length xs"
  shows "filter (\<lambda>x. f (xs ! k) < (f x :: nat)) xs = drop (Suc k) xs"
proof -
  have lt: "i < j \<Longrightarrow> j < length xs \<Longrightarrow> f (xs ! i) < f (xs ! j)" for i j
    using sorted_wrt_nth_less[OF assms(1), of i j] by simp
  have "\<forall>x \<in> set (take (Suc k) xs). \<not> f (xs ! k) < f x"
  proof
    fix x assume "x \<in> set (take (Suc k) xs)"
    then obtain i where "i \<le> k" "x = xs ! i" by (auto simp: in_set_conv_nth less_Suc_eq_le)
    then show "\<not> f (xs ! k) < f x" using lt[of i k] assms(2) by (cases "i = k") auto
  qed
  then have "filter (\<lambda>x. f (xs ! k) < f x) (take (Suc k) xs) = []" by (simp add: filter_empty_conv)
  moreover have "\<forall>x \<in> set (drop (Suc k) xs). f (xs ! k) < f x"
    using lt[of k] by (fastforce simp: in_set_conv_nth)
  then have "filter (\<lambda>x. f (xs ! k) < f x) (drop (Suc k) xs) = drop (Suc k) xs" by simp
  ultimately show ?thesis using filter_append[of "\<lambda>x. f (xs ! k) < f x" "take (Suc k) xs" "drop (Suc k) xs"] by simp
qed

lemma next_turn_round:
  assumes "sorted_wrt (<) (map seat_number live)" "k < length live" "live ! k \<noteq> ''''"
  shows "next_turn live (live ! k) None = live ! (Suc k mod length live)"
proof -
  have "live \<noteq> []" using assms(2) by auto
  then have turn: "next_turn live (live ! k) None = hd (if drop (Suc k) live = [] then live else drop (Suc k) live)"
    using filter_above[OF assms(1,2)] assms(3) by (simp add: next_turn_def Let_def)
  show ?thesis
  proof (cases "Suc k = length live")
    case True
    then show ?thesis using turn \<open>live \<noteq> []\<close> by (simp add: hd_conv_nth)
  next
    case False
    then have "Suc k < length live" using assms(2) by simp
    then show ?thesis using turn by (simp add: hd_drop_conv_nth)
  qed
qed

lemma zrange_tail:
  assumes "wf_dict z" "zrange z = i # rest"
  shows "zrange (dpop i z) = rest"
proof -
  have "zrange (dpop i z) = filter (\<lambda>k. i \<noteq> k) (zrange z)"
    by (simp add: zrange_def AList.delete_eq filter_sort filter_map o_def case_prod_unfold)
  moreover have "distinct (zrange z)" using assms(1) unfolding zrange_def by (simp add: distinct_map)
  ultimately show ?thesis using assms(2) by (auto simp: filter_id_conv)
qed

lemma claim_touches:
  "ib_pool (claim_writes slug seat item now s) = (ib_pool s)(slug := dpop (ml_id item) (ib_pool s slug))"
  "ib_last (claim_writes slug seat item now s) = (ib_last s)(slug := seat)"
  by (auto simp: claim_writes_def stage_claim_def stage_pending_def move_address_def push_entry_def change_row_def put_item_def
      set_wait_def add_pending_def size_add_def add_open_def drop_open_def add_address_def drop_address_def Let_def split: option.splits)

lemma door_named: "door_seat seat \<Longrightarrow> seat \<noteq> ''''"
  by (auto simp: door_seat_def master_of_def is_seat_def pool_slug_def partition_at_def legacy_slug_def legacy_match_def seat_address_def)

text \<open>A claim that nobody disturbs takes the oldest message and gives it to the seat whose turn it is.\<close>

lemma claim_quiet:
  assumes "mail_ok s" "zrange (ib_pool s slug) = i # rest" "dget (ib_items s) i = Some row" "mr_skip row = None" "live \<noteq> []"
    and seat: "seat = next_turn live (ib_last s slug) None"
  shows "claim_decide live (\<lambda>_. None) held now slug s =
    Inr (Claimed ((mr_item row)\<lparr>ml_address := seat, ml_updated_at := now, ml_reason := ''claimed from the master pool by '' @ seat\<rparr>),
      Some (claim_writes slug seat (mr_item row) now))" (is ?decided)
    and "claim_next live (\<lambda>_. None) held now slug [id] s =
    (Inr (Claimed ((mr_item row)\<lparr>ml_address := seat, ml_updated_at := now, ml_reason := ''claimed from the master pool by '' @ seat\<rparr>)),
     claim_writes slug seat (mr_item row) now s)"
proof -
  have "i \<in> set (zrange (ib_pool s slug))" by (simp only: assms(2) list.set_intros)
  then have "dget (ib_pool s slug) i \<noteq> None" by (simp add: map_of_eq_None_iff)
  then obtain n where "sl_pool (slice s i) slug = Some n" by (auto simp: slice_def)
  then have "ml_state (mr_item row) = M_Pending" using slice_facts(6)[OF assms(1,3)] by simp
  then show ?decided using assms(2-5) by (simp add: claim_decide_def Let_def seat del: set_zrange length_zrange)
  then show "claim_next live (\<lambda>_. None) held now slug [id] s =
    (Inr (Claimed ((mr_item row)\<lparr>ml_address := seat, ml_updated_at := now, ml_reason := ''claimed from the master pool by '' @ seat\<rparr>)),
     claim_writes slug seat (mr_item row) now s)" by (simp add: claim_next_def numeral_3_eq_3)
qed

lemma claim_none:
  assumes "ib_pool s slug = []"
  shows "\<exists>s'. claim_next live routed held now slug [id] s = (Inr No_Claim, s') \<and> ib_pool s' slug = []"
  using assms by (simp add: claim_next_def claim_decide_def numeral_3_eq_3 zrange_def)

lemma distribute_round:
  assumes "mail_ok s" "wf_dict (ib_pool s slug)" "sorted_wrt (<) (map seat_number live)" "live \<noteq> []" "\<forall>seat \<in> set live. door_seat seat"
    and "next_turn live (ib_last s slug) None = live ! (start mod length live)"
    and "\<forall>i \<in> set (zrange (ib_pool s slug)). \<forall>row. dget (ib_items s) i = Some row \<longrightarrow> mr_skip row = None"
    and "length (ib_pool s slug) < n"
  shows "\<exists>claimed s'. distribute_loop n live (\<lambda>_. None) held now slug (\<lambda>_. [id]) before s = (Inr (before @ claimed), s') \<and>
    map ml_id claimed = zrange (ib_pool s slug) \<and>
    map ml_address claimed = map (\<lambda>j. live ! ((start + j) mod length live)) [0..<length (ib_pool s slug)] \<and> ib_pool s' slug = []"
  using assms(1,2,6-8)
proof (induction n arbitrary: s start before)
  case (Suc n)
  show ?case
  proof (cases "zrange (ib_pool s slug)")
    case Nil
    then have empty: "ib_pool s slug = []" by (metis length_zrange length_0_conv)
    then obtain s' where none: "claim_next live (\<lambda>_. None) (held n) now slug [id] s = (Inr No_Claim, s')" "ib_pool s' slug = []" using claim_none by blast
    show ?thesis by (rule exI[of _ "[]"], rule exI[of _ s']) (simp only: distribute_loop.simps none prod.case sum.case claim_answer.case, simp add: none empty zrange_def)
  next
    case (Cons i rest)
    define seat where "seat = next_turn live (ib_last s slug) None"
    have "distinct (zrange (ib_pool s slug))" using Suc.prems(2) unfolding zrange_def by (simp add: distinct_map)
    then have dist: "distinct (i # rest)" by (simp only: Cons)
    have i: "i \<in> set (zrange (ib_pool s slug))" by (simp only: Cons list.set_intros)
    then have "dget (ib_pool s slug) i \<noteq> None" by (simp add: map_of_eq_None_iff)
    then have "sl_pool (slice s i) slug \<noteq> None" by (simp add: slice_def)
    then obtain row where row: "dget (ib_items s) i = Some row" using mail_ok_slice[OF Suc.prems(1), of i]
      by (cases "dget (ib_items s) i") (simp_all add: slice_ok_def slice_row)
    have skip: "mr_skip row = None" using Suc.prems(4) i row by blast
    have id: "ml_id (mr_item row) = i" using slice_facts(1)[OF Suc.prems(1) row] .
    let ?s1 = "claim_writes slug seat (mr_item row) now s"
    note claim = claim_quiet[OF Suc.prems(1) Cons row skip assms(4) seat_def, of "held n" now]
    have ok: "mail_ok ?s1" using mail_step_ok[OF mail_step.claimed[OF claim(1) assms(5)] Suc.prems(1)] .
    have tail: "zrange (ib_pool ?s1 slug) = rest" using zrange_tail[OF Suc.prems(2) Cons] by (simp add: claim_touches id)
    have len: "length (ib_pool s slug) = Suc (length rest)" "length (ib_pool ?s1 slug) = length rest"
      using arg_cong[OF Cons, of length] arg_cong[OF tail, of length] by simp_all
    have "start mod length live < length live" using assms(4) by simp
    moreover have "seat \<noteq> ''''" using next_turn_in[OF assms(4)] assms(5) door_named by (auto simp: seat_def)
    ultimately have turn: "next_turn live (ib_last ?s1 slug) None = live ! (Suc start mod length live)"
      using next_turn_round[OF assms(3), of "start mod length live"] Suc.prems(3) by (simp add: claim_touches seat_def mod_Suc_eq)
    have rows: "\<forall>j \<in> set (zrange (ib_pool ?s1 slug)). \<forall>row. dget (ib_items ?s1) j = Some row \<longrightarrow> mr_skip row = None"
    proof (intro ballI allI impI)
      fix j row' assume "j \<in> set (zrange (ib_pool ?s1 slug))" and row': "dget (ib_items ?s1) j = Some row'"
      then have "j \<in> set rest" by (simp only: tail)
      then have "j \<noteq> i" "j \<in> set (zrange (ib_pool s slug))" using dist by (auto simp only: Cons list.set_intros distinct.simps)
      then show "mr_skip row' = None" using Suc.prems(4) row' claim_elsewhere[of j "mr_item row" slug seat now s] id by (metis slice_row)
    qed
    let ?m = "(mr_item row)\<lparr>ml_address := seat, ml_updated_at := now, ml_reason := ''claimed from the master pool by '' @ seat\<rparr>"
    have "wf_dict (ib_pool ?s1 slug)" "length (ib_pool ?s1 slug) < n" using Suc.prems(2,5) len by (simp_all add: claim_touches)
    from Suc.IH[OF ok this(1) turn rows this(2), of "before @ [?m]"]
    obtain claimed s' where IH: "distribute_loop n live (\<lambda>_. None) held now slug (\<lambda>_. [id]) (before @ [?m]) ?s1 = (Inr ((before @ [?m]) @ claimed), s')"
      "map ml_id claimed = rest" "map ml_address claimed = map (\<lambda>j. live ! ((Suc start + j) mod length live)) [0..<length rest]" "ib_pool s' slug = []"
      unfolding tail len(2) by blast
    have "distribute_loop (Suc n) live (\<lambda>_. None) held now slug (\<lambda>_. [id]) before s = (Inr (before @ ?m # claimed), s')"
      by (simp only: distribute_loop.simps claim(2) prod.case sum.case claim_answer.case IH(1)) simp
    moreover have "map ml_id (?m # claimed) = zrange (ib_pool s slug)" unfolding Cons using IH(2) id by simp
    moreover have "map ml_address (?m # claimed) = map (\<lambda>j. live ! ((start + j) mod length live)) [0..<length (ib_pool s slug)]"
      unfolding len(1) map_upt_Suc using IH(3) Suc.prems(3) by (simp add: seat_def)
    ultimately show ?thesis using IH(4) by blast
  qed
qed simp

text \<open>
  C16: A pass over a pool that nobody disturbs gives every message that waits in it to a live master, in the order the
  messages arrived, and the masters take turns in seat order, starting after the one that had the last turn; nothing stays
  in the pool. This is the plain turn: no message is routed by its intent or was returned to skip its holder, every
  recorded holder is live, the seat of the last turn is live or there was none, and the masters are listed in seat order.
\<close>

theorem pool_goes_round:
  assumes "mail_reachable s" and "wf_dict (ib_pool s slug)" and "live slug \<noteq> []" and "\<forall>seat \<in> set (live slug). door_seat seat"
    and "sorted_wrt (<) (map seat_number (live slug))" and "set (ib_holders s slug) \<subseteq> set (live slug)"
    and "(ib_last s slug = '''' \<and> start = 0) \<or> (\<exists>k < length (live slug). ib_last s slug = live slug ! k \<and> start = Suc k)"
    and "\<forall>i \<in> set (zrange (ib_pool s slug)). \<forall>row. dget (ib_items s) i = Some row \<longrightarrow> mr_skip row = None"
  shows "\<exists>claimed s'. pool_distribute live (\<lambda>_. None) held now slug (\<lambda>_. [id]) indexing reclaiming s = (Inr claimed, s') \<and>
    map ml_id claimed = zrange (ib_pool s slug) \<and>
    map ml_address claimed = map (\<lambda>j. live slug ! ((start + j) mod length (live slug))) [0..<length (ib_pool s slug)] \<and> ib_pool s' slug = []"
proof -
  have turn: "next_turn (live slug) (ib_last s slug) None = live slug ! (start mod length (live slug))"
    using assms(7)
  proof
    assume "ib_last s slug = '''' \<and> start = 0"
    then show ?thesis using assms(3) by (simp add: next_turn_def hd_conv_nth)
  next
    assume "\<exists>k < length (live slug). ib_last s slug = live slug ! k \<and> start = Suc k"
    then obtain k where k: "k < length (live slug)" "ib_last s slug = live slug ! k" "start = Suc k" by blast
    then have "live slug ! k \<noteq> ''''" using assms(4) door_named nth_mem by blast
    then show ?thesis using next_turn_round[OF assms(5) k(1)] k by simp
  qed
  have gone: "filter (\<lambda>seat. seat \<notin> set (live slug)) (ib_holders s slug) = []" using assms(6) by (auto simp: filter_empty_conv)
  from distribute_round[OF reachable_ok[OF assms(1)] assms(2,5,3,4) turn assms(8), of "length (ib_pool s slug) + 1" held now "[]"]
  show ?thesis by (simp add: pool_distribute_def gone)
qed

definition door_letter :: "string \<Rightarrow> int \<Rightarrow> mail" where
  "door_letter item_id n = letter\<lparr>ml_id := item_id, ml_address := ''master@s'', ml_sequence := n\<rparr>"

definition full_pool :: inbox where
  "full_pool = send_writes (door_letter ''m2'' 2) True (send_writes (door_letter ''m1'' 1) True (empty_inbox no_seats))"

lemma s_seats: "pool_slug ''master@s'' = ''s''" "door_seat ''master@s''" "door_seat ''master-2@s''"
  by code_simp+

lemma full_pool_reachable: "mail_reachable full_pool"
proof -
  have sends: "send_decide m False True s = Inr ((), Some (send_writes m True))" for m s by (simp add: send_decide_def)
  have "mail_step (empty_inbox no_seats) (send_writes (door_letter ''m1'' 1) True (empty_inbox no_seats))"
    by (rule mail_step.sent[OF sends]) (simp_all add: empty_inbox_def door_letter_def letter_def s_seats)
  moreover have "mail_step (send_writes (door_letter ''m1'' 1) True (empty_inbox no_seats)) full_pool" unfolding full_pool_def
    by (rule mail_step.sent[OF sends]) (simp_all add: letter_eval door_letter_def pool_add_def s_seats)
  ultimately show ?thesis unfolding mail_reachable_def by (meson rtranclp.intros)
qed

lemma full_pool_is: "ib_pool full_pool ''s'' = [(''m1'', 1), (''m2'', 2)]" "ib_last full_pool ''s'' = ''''" "ib_holders full_pool ''s'' = []"
  and full_pool_rows: "\<forall>i row. dget (ib_items full_pool) i = Some row \<longrightarrow> mr_skip row = None"
  by (auto simp: full_pool_def letter_eval door_letter_def pool_add_def s_seats split: if_splits)

lemma pool_goes_round_witness:
  "\<exists>claimed s'. pool_distribute (\<lambda>_. [''master@s'', ''master-2@s'']) (\<lambda>_. None) (\<lambda>_. False) 50 ''s'' (\<lambda>_. [id]) (\<lambda>_. [id]) (\<lambda>_ s. s) full_pool = (Inr claimed, s') \<and>
    map ml_id claimed = [''m1'', ''m2''] \<and> map ml_address claimed = [''master@s'', ''master-2@s'']"
proof -
  have "sorted_wrt (<) (map seat_number [''master@s'', ''master-2@s''])" by code_simp
  with pool_goes_round[of full_pool "''s''" "\<lambda>_. [''master@s'', ''master-2@s'']" 0 "\<lambda>_. False" 50 "\<lambda>_. [id]" "\<lambda>_ s. s"]
  have "\<exists>claimed s'. pool_distribute (\<lambda>_. [''master@s'', ''master-2@s'']) (\<lambda>_. None) (\<lambda>_. False) 50 ''s'' (\<lambda>_. [id]) (\<lambda>_. [id]) (\<lambda>_ s. s) full_pool = (Inr claimed, s') \<and>
      map ml_id claimed = [''m1'', ''m2''] \<and> map ml_address claimed = [''master@s'', ''master-2@s''] \<and> ib_pool s' ''s'' = []"
    using full_pool_reachable full_pool_rows by (simp add: full_pool_is s_seats zrange_def insort_key_def upt_rec del: upt_Suc)
  then show ?thesis by (elim exE conjE) (intro exI conjI; assumption)
qed

section \<open>What was never confirmed comes back\<close>

text \<open>One return, undisturbed: an overdue delivery is pending again, every other message is as it was.\<close>

lemma requeue_quiet:
  assumes "mail_ok s"
  shows "\<exists>r s'. mail_requeue live now i redeliverer redelivered (Some cutoff) [id] s = (Inr r, s') \<and> mail_step\<^sup>*\<^sup>* s s' \<and>
    (\<forall>j. j \<noteq> i \<longrightarrow> dget (ib_items s') j = dget (ib_items s) j) \<and>
    (\<forall>row. dget (ib_items s) i = Some row \<longrightarrow>
      (if ml_state (mr_item row) = M_Delivered \<and> ml_updated_at (mr_item row) \<le> cutoff
       then \<exists>row'. dget (ib_items s') i = Some row' \<and> ml_state (mr_item row') = M_Pending
       else dget (ib_items s') i = Some row))"
proof -
  let ?decide = "requeue_decide live now i redeliverer redelivered (Some cutoff)"
  obtain r w where d: "?decide s = Inr (r, w)"
    by (cases "?decide s") (auto simp: requeue_decide_def Let_def split: option.splits if_splits)
  show ?thesis
  proof (cases w)
    case None
    then have "\<exists>row. dget (ib_items s) i = Some row \<and> ml_updated_at (mr_item row) > cutoff"
      using d by (auto simp: requeue_decide_def Let_def split: option.splits if_splits)
    then show ?thesis using d None by (auto simp: mail_requeue_def mail_loop_def move_attempts_def)
  next
    case (Some w)
    then have d: "?decide s = Inr (r, Some w)" using d by simp
    have run: "mail_requeue live now i redeliverer redelivered (Some cutoff) [id] s = (Inr r, w s)"
      using d by (simp add: mail_requeue_def mail_loop_def move_attempts_def)
    have step: "mail_step\<^sup>*\<^sup>* s (w s)" using mail_step.requeued[OF d] by blast
    have due: "ml_updated_at (mr_item row) \<le> cutoff" if "dget (ib_items s) i = Some row" "ml_state (mr_item row) = M_Delivered" for row
      using d that by (cases "ml_updated_at (mr_item row) \<le> cutoff") (simp_all add: requeue_decide_def Let_def)
    note wide = dget_dset row_put_item push_entry_def set_wait_def add_pending_def drop_delivered_def
    from d show ?thesis
    proof (cases rule: requeue_cases)
      case undelivered
      then show ?thesis using run step by (auto simp: drop_delivered_def)
    next
      case (pooled row item m h)
      have id: "ml_id m = i" "ml_id item = i" using slice_facts(1)[OF assms pooled(1)] pooled(2,5) by simp_all
      have "sl_row (slice (w s) j) = (if j = i then Some (row\<lparr>mr_item := m\<lparr>ml_address := master_of legacy_slug (ml_address item)\<rparr>, mr_skip := Some h, mr_holder := None\<rparr>)
          else dget (ib_items s) j)" for j
        using pooled(1) id unfolding pooled(6) by (auto simp: stage_pool_return_def Let_def slices slice_row row_put_item drop_delivered_def)
      then have rows: "dget (ib_items (w s)) j = (if j = i then Some (row\<lparr>mr_item := m\<lparr>ml_address := master_of legacy_slug (ml_address item)\<rparr>, mr_skip := Some h, mr_holder := None\<rparr>)
          else dget (ib_items s) j)" for j by (simp add: slice_row)
      show ?thesis using run step rows pooled(1,2,3,5) due by auto
    next
      case (again row item m)
      have id: "ml_id m = i" using slice_facts(1)[OF assms again(1)] again(2,4) by simp
      have rows: "dget (ib_items (w s)) j = (if j = i then Some (row\<lparr>mr_item := m\<rparr>) else dget (ib_items s) j)" for j
        using again(1) id unfolding again(5) by (simp add: wide)
      show ?thesis using run step rows again(1-4) due by auto
    qed
  qed
qed

lemma requeue_due_quiet:
  assumes "mail_ok s"
  shows "\<exists>found s'. requeue_due live now cutoff (\<lambda>_. [id]) ids before s = (Inr found, s') \<and> mail_step\<^sup>*\<^sup>* s s' \<and>
    (\<forall>i row. dget (ib_items s) i = Some row \<longrightarrow>
      (if i \<in> set ids \<and> ml_state (mr_item row) = M_Delivered \<and> ml_updated_at (mr_item row) \<le> cutoff
       then \<exists>row'. dget (ib_items s') i = Some row' \<and> ml_state (mr_item row') = M_Pending
       else dget (ib_items s') i = Some row))"
  using assms
proof (induction ids arbitrary: before s)
  case (Cons k ids)
  obtain r s1 where one: "mail_requeue live now k redeliverer redelivered (Some cutoff) [id] s = (Inr r, s1)" "mail_step\<^sup>*\<^sup>* s s1"
    "\<forall>j. j \<noteq> k \<longrightarrow> dget (ib_items s1) j = dget (ib_items s) j"
    "\<forall>row. dget (ib_items s) k = Some row \<longrightarrow>
      (if ml_state (mr_item row) = M_Delivered \<and> ml_updated_at (mr_item row) \<le> cutoff
       then \<exists>row'. dget (ib_items s1) k = Some row' \<and> ml_state (mr_item row') = M_Pending
       else dget (ib_items s1) k = Some row)" using requeue_quiet[OF Cons.prems] by blast
  have ok: "mail_ok s1" using mail_steps_ok[OF one(2) Cons.prems] .
  obtain found s' where IH: "requeue_due live now cutoff (\<lambda>_. [id]) ids (case r of None \<Rightarrow> before | Some item \<Rightarrow> before @ [item]) s1 = (Inr found, s')"
    "mail_step\<^sup>*\<^sup>* s1 s'" "\<forall>i row. dget (ib_items s1) i = Some row \<longrightarrow>
      (if i \<in> set ids \<and> ml_state (mr_item row) = M_Delivered \<and> ml_updated_at (mr_item row) \<le> cutoff
       then \<exists>row'. dget (ib_items s') i = Some row' \<and> ml_state (mr_item row') = M_Pending
       else dget (ib_items s') i = Some row)" using Cons.IH[OF ok] by blast
  have "requeue_due live now cutoff (\<lambda>_. [id]) (k # ids) before s = (Inr found, s')"
    using IH(1) by (cases r) (simp_all only: requeue_due.simps one(1) prod.case sum.case option.case)
  moreover have "if i \<in> set (k # ids) \<and> ml_state (mr_item row) = M_Delivered \<and> ml_updated_at (mr_item row) \<le> cutoff
       then \<exists>row'. dget (ib_items s') i = Some row' \<and> ml_state (mr_item row') = M_Pending
       else dget (ib_items s') i = Some row" if "dget (ib_items s) i = Some row" for i row
  proof (cases "i = k")
    case False
    then show ?thesis using one(3) IH(3) that by simp
  next
    case here: True
    note found = that
    show ?thesis
    proof (cases "ml_state (mr_item row) = M_Delivered \<and> ml_updated_at (mr_item row) \<le> cutoff")
      case True
      then obtain row' where row': "dget (ib_items s1) k = Some row'" "ml_state (mr_item row') = M_Pending" using one(4) found here by auto
      then have "dget (ib_items s') k = Some row'" using IH(3)[rule_format, OF row'(1)] by simp
      then show ?thesis using True row'(2) here by simp
    next
      case False
      then have "dget (ib_items s1) k = Some row" using one(4) found here by (metis (mono_tags, lifting))
      then show ?thesis using IH(3)[rule_format, of k row] False here by (auto split: if_splits)
    qed
  qed
  ultimately show ?case using rtranclp_trans[OF one(2) IH(2)] by blast
qed auto

text \<open>
  C17: A redelivery that nobody disturbs leaves no overdue delivery of a session behind: before it hands out the pools
  every message that was delivered outside the window under a session is pending again, every other message is as it was,
  and one that was delivered outside the window without a session (by a receipt, say) is the one or the other.
\<close>

theorem redelivery_returns_overdue:
  assumes "mail_reachable s"
  shows "\<exists>found s1. mail_redeliver live now at_ms window (\<lambda>_. [id]) pass s =
      (case pool_distribute_all pass s1 of (Inl e, s2) \<Rightarrow> (Inl e, s2) | (Inr _, s2) \<Rightarrow> (Inr found, s2)) \<and>
    (\<forall>i row. dget (ib_items s) i = Some row \<longrightarrow>
      (if ml_state (mr_item row) = M_Delivered \<and> ml_updated_at (mr_item row) \<le> now - window
       then (\<exists>row'. dget (ib_items s1) i = Some row' \<and> ml_state (mr_item row') = M_Pending) \<or>
         (ml_session (mr_item row) = '''' \<and> dget (ib_items s1) i = Some row)
       else dget (ib_items s1) i = Some row))"
proof -
  let ?ids = "zrange_upto (ib_delivered s) (now - window)"
  note ok = reachable_ok[OF assms]
  have listed: "i \<in> set ?ids" if "dget (ib_items s) i = Some row" "ml_state (mr_item row) = M_Delivered" "ml_updated_at (mr_item row) \<le> now - window"
    "ml_session (mr_item row) \<noteq> ''''" for i row
  proof -
    have "dget (ib_delivered s) i = Some (ml_updated_at (mr_item row))" using row_or_none(3)[OF ok, of i] that by (simp add: delivered_ok_def)
    then have "(i, ml_updated_at (mr_item row)) \<in> set (ib_delivered s)" by (rule map_of_SomeD)
    then show ?thesis using that(3) by (force simp: zrange_upto_def)
  qed
  obtain found s1 where run: "requeue_due live at_ms (now - window) (\<lambda>_. [id]) ?ids [] s = (Inr found, s1)"
    and rows: "\<forall>i row. dget (ib_items s) i = Some row \<longrightarrow>
      (if i \<in> set ?ids \<and> ml_state (mr_item row) = M_Delivered \<and> ml_updated_at (mr_item row) \<le> now - window
       then \<exists>row'. dget (ib_items s1) i = Some row' \<and> ml_state (mr_item row') = M_Pending
       else dget (ib_items s1) i = Some row)" using requeue_due_quiet[OF ok] by blast
  show ?thesis
  proof (intro exI[of _ found] exI[of _ s1] conjI allI impI)
    show "mail_redeliver live now at_ms window (\<lambda>_. [id]) pass s =
      (case pool_distribute_all pass s1 of (Inl e, s2) \<Rightarrow> (Inl e, s2) | (Inr _, s2) \<Rightarrow> (Inr found, s2))"
      by (simp only: mail_redeliver_def run prod.case sum.case)
  next
    fix i row assume row: "dget (ib_items s) i = Some row"
    from rows[rule_format, OF row] listed[OF row]
    show "if ml_state (mr_item row) = M_Delivered \<and> ml_updated_at (mr_item row) \<le> now - window
       then (\<exists>row'. dget (ib_items s1) i = Some row' \<and> ml_state (mr_item row') = M_Pending) \<or>
         (ml_session (mr_item row) = '''' \<and> dget (ib_items s1) i = Some row)
       else dget (ib_items s1) i = Some row" by (cases "i \<in> set ?ids") auto
  qed
qed

definition left_unread :: inbox where
  "left_unread = stage_move letter (letter\<lparr>ml_state := M_Delivered, ml_updated_at := 20, ml_session := ''session''\<rparr>) ''eng'' True True one_letter"

lemma left_unread_reachable: "mail_reachable left_unread"
proof -
  have "\<not> pool_holds one_letter letter" by (simp add: pool_holds_def letter_def pool_slug_def is_seat_def partition_at_def)
  moreover have "\<not> owned id one_letter ''eng''" "\<not> reserved one_letter ''m1''" by (simp_all add: owned_def reserved_def letter_eval)
  moreover have "last_pending one_letter letter" by (simp add: last_pending_def letter_eval dhas_def)
  ultimately have "move_decide id ''session'' 20 ''m1'' ''eng'' own_address M_Delivered '''' (Some [M_Pending]) one_letter =
      Inr (Some (letter\<lparr>ml_state := M_Delivered, ml_updated_at := 20, ml_session := ''session''\<rparr>),
        Some (stage_move letter (letter\<lparr>ml_state := M_Delivered, ml_updated_at := 20, ml_session := ''session''\<rparr>) ''eng'' True True))"
    by (simp add: move_decide_def one_letter_there informed_def own_address_def acts_for_def Let_def) (auto simp: letter_def)
  then have "mail_step one_letter left_unread" using mail_step.moved unfolding left_unread_def own_move_def by blast
  then show ?thesis using run_ok[OF _ one_letter_reachable] by blast
qed

lemma left_unread_row: "dget (ib_items left_unread) ''m1'' =
    Some \<lparr>mr_item = letter\<lparr>ml_state := M_Delivered, ml_updated_at := 20, ml_session := ''session''\<rparr>, mr_holder = None, mr_skip = None, mr_replies = []\<rparr>"
  by (simp add: left_unread_def stage_move_def letter_eval drop_delivered_def drop_pending_def drop_wait_def)

lemma redelivery_returns_overdue_witness:
  "\<exists>s1 row. ml_state (mr_item row) = M_Pending \<and> dget (ib_items s1) ''m1'' = Some row \<and>
    (\<exists>found. mail_redeliver (\<lambda>_. []) 1000 1000 300 (\<lambda>_. [id]) (\<lambda>_ s. (Inr [], s)) left_unread =
      (case pool_distribute_all (\<lambda>_ s. (Inr [], s)) s1 of (Inl e, s2) \<Rightarrow> (Inl e, s2) | (Inr _, s2) \<Rightarrow> (Inr found, s2)))"
proof -
  obtain found s1 where run: "mail_redeliver (\<lambda>_. []) 1000 1000 300 (\<lambda>_. [id]) (\<lambda>_ s. (Inr [], s)) left_unread =
      (case pool_distribute_all (\<lambda>_ s. (Inr [], s)) s1 of (Inl e, s2) \<Rightarrow> (Inl e, s2) | (Inr _, s2) \<Rightarrow> (Inr found, s2))"
    and rows: "\<forall>i row. dget (ib_items left_unread) i = Some row \<longrightarrow>
      (if ml_state (mr_item row) = M_Delivered \<and> ml_updated_at (mr_item row) \<le> 1000 - 300
       then (\<exists>row'. dget (ib_items s1) i = Some row' \<and> ml_state (mr_item row') = M_Pending) \<or>
         (ml_session (mr_item row) = '''' \<and> dget (ib_items s1) i = Some row)
       else dget (ib_items s1) i = Some row)"
    using redelivery_returns_overdue[OF left_unread_reachable] by blast
  from rows[rule_format, OF left_unread_row] obtain row where "dget (ib_items s1) ''m1'' = Some row" "ml_state (mr_item row) = M_Pending" by auto
  then show ?thesis using run by blast
qed

section \<open>Who has mail waiting\<close>

definition waits_at :: "inbox \<Rightarrow> string \<Rightarrow> string \<Rightarrow> bool" where
  "waits_at s a i \<longleftrightarrow> (\<exists>row. dget (ib_items s) i = Some row \<and> ml_address (mr_item row) = a \<and> ml_state (mr_item row) = M_Pending \<and> \<not> pool_holds s (mr_item row))"

lemma waits_at_same: "ib_items s' = ib_items s \<Longrightarrow> ib_pool s' = ib_pool s \<Longrightarrow> waits_at s' a i = waits_at s a i"
  by (simp add: waits_at_def pool_holds_def)

lemma pending_index: "mail_ok s \<Longrightarrow> i \<in> set (zrange (ib_pending s a)) \<longleftrightarrow> waits_at s a i"
  unfolding zrange_iff row_or_none waits_at_def by (auto split: option.splits)

lemma fill_keeps: "ib_items (foldl (\<lambda>s item. add_pending a item s) s items) = ib_items s \<and> ib_pool (foldl (\<lambda>s item. add_pending a item s) s items) = ib_pool s"
  by (induction items rule: rev_induct) (simp_all add: add_pending_def)

lemma named_filter:
  assumes "\<forall>k \<in> set ks. f (g k) = k"
  shows "i \<in> set (map f (filter P (map g ks))) \<longleftrightarrow> i \<in> set ks \<and> P (g i)"
  using assms by (induction ks) auto

lemma pending_ids_quiet:
  assumes "mail_ok s"
  shows "\<exists>ids s'. pending_ids a [id] s = (ids, s') \<and> mail_step\<^sup>*\<^sup>* s s' \<and> ib_items s' = ib_items s \<and> ib_pool s' = ib_pool s \<and>
    (\<forall>i. i \<in> set ids \<longleftrightarrow> waits_at s a i)"
proof (cases "a \<in> ib_indexed s")
  case True
  then show ?thesis using pending_index[OF assms] by (auto simp: pending_ids_def)
next
  case False
  define found where "found = filter (\<lambda>item. ml_state item = M_Pending \<and>
    ml_id item \<notin> set (if pool_slug a = '''' then [] else map fst (ib_pool s (pool_slug a)))) (map (item_at s) (zrange (ib_address s a)))"
  have d: "back_fill_decide a s = Inr (map ml_id found, Some (back_fill_writes a found []))"
    unfolding back_fill_decide_def present_items[OF assms] by (simp add: found_def Let_def)
  then have run: "pending_ids a [id] s = (map ml_id found, back_fill_writes a found [] s)"
    using False by (simp add: pending_ids_def move_attempts_def)
  have "i \<in> set (map ml_id found) \<longleftrightarrow> waits_at s a i" for i
  proof -
    define z where "z = zrange (ib_address s a)"
    have z: "k \<in> set z \<longleftrightarrow> (\<exists>row. dget (ib_items s) k = Some row \<and> ml_address (mr_item row) = a)" for k
      unfolding z_def by (rule listed_here[OF assms])
    then have "\<forall>k \<in> set z. ml_id (item_at s k) = k" using slice_facts(1)[OF assms] by (auto simp: item_at_def)
    then have "i \<in> set (map ml_id found) \<longleftrightarrow> i \<in> set z \<and> ml_state (item_at s i) = M_Pending \<and>
        ml_id (item_at s i) \<notin> set (if pool_slug a = '''' then [] else map fst (ib_pool s (pool_slug a)))"
      unfolding found_def z_def[symmetric] by (rule named_filter)
    also have "\<dots> \<longleftrightarrow> waits_at s a i"
      unfolding z waits_at_def pool_holds_def dhas_def using slice_facts(1)[OF assms] by (auto simp: item_at_def map_of_eq_None_iff image_iff split: if_splits)
    finally show ?thesis .
  qed
  moreover have "mail_step\<^sup>*\<^sup>* s (back_fill_writes a found [] s)" using mail_step.filled[OF d] by blast
  ultimately show ?thesis using run fill_keeps[of a s found] by (auto simp: back_fill_writes_def stage_drop_def set_wait_def Let_def)
qed

lemma owners_keys:
  "set (dkeys (foldl (\<lambda>owners item_id. if dhas owners item_id then owners else dset item_id address owners) owners ids)) =
    set (dkeys owners) \<union> set ids"
proof (induction ids arbitrary: owners)
  case (Cons k ids)
  have "set (dkeys (if dhas owners k then owners else dset k address owners)) = insert k (set (dkeys owners))"
    by (cases "dhas owners k") (auto simp: dhas_def AList.dom_update map_of_eq_None_iff dest: map_of_SomeD intro: rev_image_eqI)
  then show ?case using Cons.IH[of "if dhas owners k then owners else dset k address owners"] by simp
qed simp

lemma owners_wf:
  "wf_dict owners \<Longrightarrow> wf_dict (foldl (\<lambda>owners item_id. if dhas owners item_id then owners else dset item_id address owners) owners ids)"
  by (induction ids arbitrary: owners) simp_all

lemma pending_owners_quiet:
  assumes "mail_ok s" "wf_dict owners"
  shows "\<exists>owners' s'. pending_owners addresses (\<lambda>_. [id]) owners s = (owners', s') \<and> ib_items s' = ib_items s \<and> wf_dict owners' \<and>
    (\<forall>i. i \<in> set (dkeys owners') \<longleftrightarrow> i \<in> set (dkeys owners) \<or> (\<exists>a \<in> set addresses. waits_at s a i))"
  using assms
proof (induction addresses arbitrary: owners s)
  case (Cons a addresses)
  obtain ids s1 where one: "pending_ids a [id] s = (ids, s1)" "mail_step\<^sup>*\<^sup>* s s1" "ib_items s1 = ib_items s" "ib_pool s1 = ib_pool s"
    "\<forall>i. i \<in> set ids \<longleftrightarrow> waits_at s a i" using pending_ids_quiet[OF Cons.prems(1)] by blast
  let ?owners = "foldl (\<lambda>owners item_id. if dhas owners item_id then owners else dset item_id a owners) owners ids"
  obtain owners' s' where IH: "pending_owners addresses (\<lambda>_. [id]) ?owners s1 = (owners', s')" "ib_items s' = ib_items s1" "wf_dict owners'"
    "\<forall>i. i \<in> set (dkeys owners') \<longleftrightarrow> i \<in> set (dkeys ?owners) \<or> (\<exists>a \<in> set addresses. waits_at s1 a i)"
    using Cons.IH[OF mail_steps_ok[OF one(2) Cons.prems(1)] owners_wf[OF Cons.prems(2)]] by blast
  have "pending_owners (a # addresses) (\<lambda>_. [id]) owners s = (owners', s')"
    by (simp only: pending_owners.simps one(1) prod.case IH(1))
  moreover have "waits_at s1 b i = waits_at s b i" for b i using waits_at_same[OF one(3,4)] .
  then have "i \<in> set (dkeys owners') \<longleftrightarrow> i \<in> set (dkeys owners) \<or> (\<exists>b \<in> set (a # addresses). waits_at s b i)" for i
    using IH(4)[rule_format, of i] one(5)[rule_format, of i] unfolding owners_keys by (simp only: list.set Un_iff insert_iff) blast
  moreover have "ib_items s' = ib_items s" using IH(2) one(3) by simp
  ultimately show ?case using IH(3) by (intro exI[of _ owners'] exI[of _ s']) (intro conjI allI; assumption)
qed simp

text \<open>
  C18: Nothing pending is overlooked: the pass that looks for waiting mail lists every pending message outside the pools
  once, and nothing else, oldest first.
\<close>

theorem pending_mail_found:
  assumes "mail_reachable s"
  shows "set (fst (pending_all (\<lambda>_. [id]) s)) =
      {mr_item row | i row. dget (ib_items s) i = Some row \<and> ml_state (mr_item row) = M_Pending \<and> \<not> pool_holds s (mr_item row)} \<and>
    distinct (map ml_id (fst (pending_all (\<lambda>_. [id]) s))) \<and> sorted (map mail_order (fst (pending_all (\<lambda>_. [id]) s)))"
proof -
  note ok = reachable_ok[OF assms]
  obtain owners s1 where o: "pending_owners (sort (ib_waiting s)) (\<lambda>_. [id]) [] s = (owners, s1)" "ib_items s1 = ib_items s" "wf_dict owners"
    "\<forall>i. i \<in> set (dkeys owners) \<longleftrightarrow> (\<exists>a \<in> set (ib_waiting s). waits_at s a i)" using pending_owners_quiet[OF ok, where owners = "[]" and addresses = "sort (ib_waiting s)"] by auto
  have "a \<in> set (ib_waiting s)" if "waits_at s a i" for a i
  proof -
    have "ib_pending s a \<noteq> []" using pending_index[OF ok, of i a] that by auto
    then show ?thesis using ok by (simp add: mail_ok_def waits_ok_def)
  qed
  then have keys: "i \<in> set (dkeys owners) \<longleftrightarrow> (\<exists>a. waits_at s a i)" for i using o(4) by blast
  have "List.map_filter (dget (ib_items s)) ks = map (\<lambda>k. the (dget (ib_items s) k)) ks" if "set ks \<subseteq> set (dkeys owners)" for ks
    using that keys by (induction ks) (auto simp: map_filter_def waits_at_def)
  then have items: "fst (pending_all (\<lambda>_. [id]) s) = sort_key mail_order (map (item_at s) (dkeys owners))"
    by (simp add: pending_all_def o(1,2) present_def item_at_def o_def)
  have ids: "map ml_id (map (item_at s) (dkeys owners)) = dkeys owners"
  proof (subst map_map, rule map_idI)
    fix k assume "k \<in> set (dkeys owners)"
    then obtain row where "dget (ib_items s) k = Some row" unfolding keys waits_at_def by blast
    then show "(ml_id \<circ> item_at s) k = k" using slice_facts(1)[OF ok] by (simp add: item_at_def)
  qed
  have "m \<in> set (map (item_at s) (dkeys owners)) \<longleftrightarrow> (\<exists>i. i \<in> set (dkeys owners) \<and> m = item_at s i)" for m
    unfolding set_map[of "item_at s"] image_iff by blast
  then have "set (map (item_at s) (dkeys owners)) = {mr_item row | i row. dget (ib_items s) i = Some row \<and> ml_state (mr_item row) = M_Pending \<and> \<not> pool_holds s (mr_item row)}"
    unfolding keys waits_at_def item_at_def by (intro set_eqI) (fastforce simp del: set_map)
  moreover have "distinct (map ml_id (sort_key mail_order (map (item_at s) (dkeys owners))))"
    using ids o(3) by (metis distinct_map distinct_sort set_sort)
  ultimately show ?thesis unfolding items by simp
qed

lemma pending_mail_found_witness: "set (fst (pending_all (\<lambda>_. [id]) one_letter)) = {letter}"
proof -
  let ?row = "\<lparr>mr_item = letter, mr_holder = None, mr_skip = None, mr_replies = []\<rparr>"
  let ?due = "\<lambda>row. ml_state (mr_item row) = M_Pending \<and> \<not> pool_holds one_letter (mr_item row)"
  have only: "dget (ib_items one_letter) i = Some row \<longleftrightarrow> i = ''m1'' \<and> row = ?row" for i row
    by (auto simp: letter_eval)
  have "?due ?row" by (simp add: pool_holds_def letter_def pool_slug_def is_seat_def partition_at_def)
  then have "{mr_item row | i row. dget (ib_items one_letter) i = Some row \<and> ?due row} = {letter}" unfolding only by auto
  then show ?thesis using pending_mail_found[OF one_letter_reachable] by simp
qed

end
