(* ===== verification/Hive_Orders.thy ===== *)
theory Hive_Orders
  imports Ctl_Lease Routing "HOL-Library.Multiset"
begin

text \<open>
  The orders of the controller to a hive (\<open>scripts/hive/orders.py\<close>): launch orders and commands wait in streams, the
  hive's daemon applies them one after the other and answers in receipts. A receipt names the order's start, the daemon
  process that started it, its one answer and whether the execution was retired. What the daemon reads outside its
  streams and receipts (clock, lease, registry, prompt, runtime) is the record \<open>order_env\<close>; the calls it makes to the
  runtime are kept in the world, and what others do between two of its steps is the argument \<open>between\<close>.
\<close>

section \<open>Orders, answers and receipts\<close>

record launch_order =
  lo_slug :: string
  lo_execution_id :: string
  lo_generation :: int
  lo_profile :: string
  lo_lane :: string
  lo_task :: string
  lo_slot :: string
  lo_harness :: string
  lo_route_kind :: string
  lo_prompt_ref :: string
  lo_epoch :: int
  lo_expires_at :: int
  lo_hive :: string

record order_ack =
  ak_status :: string
  ak_target :: jdict
  ak_failure :: string
  ak_execution :: jdict

record command_order =
  co_id :: string
  co_action :: string
  co_slug :: string
  co_name :: string
  co_execution_id :: string
  co_generation :: int
  co_text :: string

definition failed_ack :: "jdict \<Rightarrow> string \<Rightarrow> order_ack" where
  "failed_ack target why = \<lparr>ak_status = ''failed'', ak_target = target, ak_failure = why, ak_execution = []\<rparr>"

definition done_ack :: "jdict \<Rightarrow> order_ack" where
  "done_ack target = \<lparr>ak_status = ''done'', ak_target = target, ak_failure = '''', ak_execution = []\<rparr>"

definition refused_ack :: order_ack where "refused_ack = failed_ack [] ''refused''"

definition foreign_ack :: order_ack where "foreign_ack = failed_ack [] ''identity''"

definition unknown_action :: order_ack where "unknown_action = failed_ack [] ''unknown_action''"

definition ack_margin_ms :: int where "ack_margin_ms = 30000"

record launch_receipt =
  rc_started :: "int option"
  rc_pod :: "string option"
  rc_ack :: "order_ack option"
  rc_retired :: bool

record command_receipt =
  cr_sent :: bool
  cr_ack :: "order_ack option"

type_synonym order_key = "string \<times> string \<times> string \<times> int"

definition order_key :: "launch_order \<Rightarrow> order_key" where
  "order_key order = (lo_hive order, lo_slug order, lo_execution_id order, lo_generation order)"

record spawn_request =
  sr_repo :: json
  sr_lanes :: "(string, jdict) dict"
  sr_lane :: string
  sr_name :: string
  sr_task :: jdict

datatype runtime_call =
    Spawn_Call order_key spawn_request
  | Terminate_Call agent_record
  | Nudge_Call agent_record string
  | Reap_Call string
  | Name_Call agent_record

text \<open>The keys of the hives. An entry of a stream that is no order is None; a receipt that is not there is empty.\<close>

record order_world =
  ow_receipts :: "order_key \<Rightarrow> launch_receipt"
  ow_stream :: "string \<Rightarrow> (string \<times> launch_order option) list"
  ow_acks :: "string \<Rightarrow> (string, order_ack) dict"
  ow_pods :: "(string \<times> string) set"
  ow_commands :: "string \<Rightarrow> (string \<times> command_order option) list"
  ow_command_receipts :: "string \<times> string \<Rightarrow> command_receipt"
  ow_calls :: "runtime_call list"

definition no_receipt :: launch_receipt where
  "no_receipt = \<lparr>rc_started = None, rc_pod = None, rc_ack = None, rc_retired = False\<rparr>"

definition no_orders :: order_world where
  "no_orders = \<lparr>ow_receipts = \<lambda>_. no_receipt, ow_stream = \<lambda>_. [], ow_acks = \<lambda>_. [], ow_pods = {}, ow_commands = \<lambda>_. [],
    ow_command_receipts = \<lambda>_. \<lparr>cr_sent = False, cr_ack = None\<rparr>, ow_calls = []\<rparr>"

definition set_receipt :: "order_key \<Rightarrow> (launch_receipt \<Rightarrow> launch_receipt) \<Rightarrow> order_world \<Rightarrow> order_world" where
  "set_receipt key f w = w\<lparr>ow_receipts := (ow_receipts w)(key := f (ow_receipts w key))\<rparr>"

definition log_call :: "runtime_call \<Rightarrow> order_world \<Rightarrow> order_world" where
  "log_call c w = w\<lparr>ow_calls := ow_calls w @ [c]\<rparr>"

section \<open>What the daemon reads\<close>

text \<open>What the runtime placed, and its answer: a process, or a status with its detail.\<close>

record placed_agent =
  pa_harness :: string
  pa_profile :: string
  pa_account :: string
  pa_placement :: string
  pa_pane_id :: string
  pa_model :: string
  pa_effort :: string
  pa_overlays :: "string list"
  pa_decision :: jdict
  pa_launched_at :: int
  pa_timings :: jdict

datatype spawn_answer = Placed placed_agent | Not_Placed string string

record order_config =
  cf_repo :: string
  cf_lanes :: "(string, jdict) dict"
  cf_model :: "string \<Rightarrow> fault + json"
  cf_effort_min :: string

text \<open>
  \<open>oe_now n\<close> is the \<open>n\<close>th reading of the shared clock during one application, \<open>oe_epoch n\<close> the \<open>n\<close>th answer of
  \<open>require_epoch\<close>. \<open>oe_prompt\<close> is None without the key, \<open>Some None\<close> when its text is no JSON.
\<close>

record order_env =
  oe_pod :: string
  oe_now :: "nat \<Rightarrow> int"
  oe_wall_ms :: int
  oe_epoch :: "nat \<Rightarrow> fault + unit"
  oe_agent :: "fault + agent_record"
  oe_occupants :: "fault + (string, agent_record) dict"
  oe_prompt :: "json option option"
  oe_digest :: "string \<Rightarrow> string"
  oe_front_door :: bool
  oe_interface :: bool
  oe_unusable :: string
  oe_slots :: "(string \<times> string) list"
  oe_config :: "fault + order_config"
  oe_workspace :: "fault + string"
  oe_serena :: bool
  oe_spawn :: "spawn_request \<Rightarrow> spawn_answer"
  oe_namespace :: string
  oe_table :: "int \<Rightarrow> int option"
  oe_terminated :: "agent_record \<Rightarrow> bool"
  oe_declared :: "string \<Rightarrow> string list \<Rightarrow> string list"

definition no_permission :: fault where "no_permission = Unavailable ''NoPermissionError''"

section \<open>Launching\<close>

definition resolved_master_login :: "launch_order \<Rightarrow> string \<Rightarrow> string \<Rightarrow> jdict \<Rightarrow> bool" where
  "resolved_master_login order account placement decision \<longleftrightarrow>
    lo_route_kind order = ''master-login'' \<and> lo_lane order = ''master'' \<and> lo_harness order = ''claude'' \<and> account \<noteq> '''' \<and>
    placement \<in> {''forced'', ''fallback''} \<and>
    (case dget decision ''validation'' of None \<Rightarrow> False | Some (JObj v) \<Rightarrow> jget v ''account'' = JStr account | Some _ \<Rightarrow> False)"

definition order_identity :: "string \<Rightarrow> launch_order \<Rightarrow> (fault + (string, agent_record) dict) \<Rightarrow> agent_record \<Rightarrow> fault + unit" where
  "order_identity hive order occupants agent =
    (if ag_generation agent \<noteq> lo_generation order \<or> ag_lane agent \<noteq> lo_lane order \<or> ag_task agent \<noteq> lo_task order \<or>
        ag_harness agent \<noteq> lo_harness order \<or> ag_profile agent \<noteq> lo_profile order \<or> ag_account agent \<noteq> lo_slot order \<or>
        ag_route_kind agent \<noteq> lo_route_kind order \<or> ag_runtime_backend agent \<noteq> ''local'' \<or>
        ag_runtime_target agent \<noteq> [(''host_id'', JStr hive)] \<or> ag_state agent \<noteq> ''launching''
     then Inl (Swarm_Error ''launch order does not match the admitted execution'')
     else and_then occupants (\<lambda>rows.
       case dget rows (ag_seat agent) of
         None \<Rightarrow> Inl (Swarm_Error ''launch order names a replaced execution'')
       | Some current \<Rightarrow>
           if ag_execution_id current \<noteq> ag_execution_id agent then Inl (Swarm_Error ''launch order names a replaced execution'') else Inr ()))"

definition front_door_refusal :: "order_env \<Rightarrow> launch_order \<Rightarrow> string" where
  "front_door_refusal env order =
    (if lo_lane order \<noteq> ''master'' \<or> \<not> oe_front_door env then ''''
     else if lo_route_kind order \<noteq> ''master-login'' \<and> oe_interface env then ''''
     else oe_unusable env)"

definition slot_account :: "order_env \<Rightarrow> launch_order \<Rightarrow> string" where
  "slot_account env order =
    (case find (\<lambda>(harness, account). harness = lo_harness order \<and> canonical_account account = canonical_account (lo_slot order)) (oe_slots env) of
      None \<Rightarrow> lo_slot order | Some (_, account) \<Rightarrow> account)"

text \<open>\<open>launch_target\<close> of \<open>swarm_v2/runtime/process.py\<close>.\<close>

definition launch_target :: "json \<Rightarrow> string \<Rightarrow> (int \<Rightarrow> int option) \<Rightarrow> fault + jdict" where
  "launch_target pid namespace table =
    (let number = (case pid of JInt n \<Rightarrow> max n 0 | _ \<Rightarrow> 0);
         start = (case table number of None \<Rightarrow> 0 | Some t \<Rightarrow> t);
         missing = (if namespace = '''' then [''process namespace''] else []) @ (if number = 0 then [''process number''] else []) @
           (if start = 0 then [''start time''] else []);
         named = (case missing of [] \<Rightarrow> '''' | [a] \<Rightarrow> a | [a, b] \<Rightarrow> a @ '' and '' @ b | a # b # c # _ \<Rightarrow> a @ '', '' @ b @ '' and '' @ c)
     in if missing \<noteq> [] then Inl (Swarm_Error (''local launch refused: its '' @ named @ '' could not be read''))
        else Inr [(''pid'', JInt number), (''pid_start'', JInt start), (''process_namespace'', JStr namespace)])"

definition spawn_failure :: "string \<Rightarrow> string \<Rightarrow> string" where
  "spawn_failure status detail = (if status = ''ambiguous'' \<or> detail = '''' then status else status @ '': '' @ detail)"

definition stop_agent :: "order_env \<Rightarrow> agent_record \<Rightarrow> string \<Rightarrow> order_world \<Rightarrow> order_ack \<times> order_world" where
  "stop_agent env agent why w =
    (failed_ack (ag_runtime_target agent) (if oe_terminated env agent then why else ''ambiguous''), log_call (Terminate_Call agent) w)"

text \<open>\<open>a or b\<close> and \<open>d.get(k) or\<close> on strings and JSON values.\<close>

definition or_json :: "json \<Rightarrow> (fault + json) \<Rightarrow> fault + json" where
  "or_json a b = (if truthy a then Inr a else b)"

text \<open>The task and configuration handed to the runtime.\<close>

definition launch_request :: "order_env \<Rightarrow> launch_order \<Rightarrow> agent_record \<Rightarrow> jdict \<Rightarrow> order_config \<Rightarrow> fault + spawn_request" where
  "launch_request env order agent task config =
    (let held = (case dget (cf_lanes config) (lo_lane order) of None \<Rightarrow> [] | Some lane \<Rightarrow> lane);
         chosen = jset ''role'' (JStr (lo_profile order)) (jset ''agent'' (JStr (lo_harness order)) held);
         origin = jget task ''hive_origin'';
         repo = (if truthy origin then origin else JStr (cf_repo config));
         task = jset ''route_kind'' (JStr (lo_route_kind order)) (jset ''controller_epoch'' (JInt (lo_epoch order))
           (jset ''admitted_execution_id'' (JStr (ag_execution_id agent))
             (jset ''launch_until_ms'' (JInt (oe_wall_ms env + lo_expires_at order - ack_margin_ms - oe_now env 1)) task)))
     in and_then (or_json (JStr (ag_model agent)) (or_json (jget chosen ''model'') (cf_model config (lo_harness order)))) (\<lambda>model.
          Inr \<lparr>sr_repo = repo, sr_lanes = dset (lo_lane order) chosen (cf_lanes config), sr_lane = lo_lane order, sr_name = ag_name agent,
            sr_task = jset ''launch_assignment'' (JObj (jset ''profile'' (JStr (lo_profile order)) (jset ''harness'' (JStr (lo_harness order))
              (jset ''account'' (JStr (slot_account env order)) (jset ''model'' model
                (jset ''effort'' (JStr (if ag_effort agent \<noteq> '''' then ag_effort agent else cf_effort_min config)) []))))))
              task\<rparr>))"

definition placed_execution :: "order_env \<Rightarrow> launch_order \<Rightarrow> placed_agent \<Rightarrow> jdict" where
  "placed_execution env order placed =
    (let names = (\<lambda>xs. JList (map JStr xs));
         login = (if resolved_master_login order (pa_account placed) (pa_placement placed) (pa_decision placed)
           then jset ''account'' (JStr (pa_account placed)) (jset ''placement'' (JStr (pa_placement placed)) []) else [])
     in jset ''pane_id'' (JStr (pa_pane_id placed)) (jset ''model'' (JStr (pa_model placed)) (jset ''effort'' (JStr (pa_effort placed))
          (jset ''profile_decision'' (JObj (jset ''host_overlays'' (names (oe_declared env (lo_profile order) (pa_overlays placed))) (pa_decision placed)))
            (jset ''launched_at'' (JInt (pa_launched_at placed)) (jset ''launch_timings'' (JObj (pa_timings placed))
              (jset ''overlays'' (names (pa_overlays placed)) login)))))))"

text \<open>What follows a process that was placed: it is answered as live, or stopped.\<close>

definition judge_placed ::
  "order_env \<Rightarrow> (nat \<Rightarrow> order_world \<Rightarrow> order_world) \<Rightarrow> launch_order \<Rightarrow> agent_record \<Rightarrow> placed_agent \<Rightarrow> order_world \<Rightarrow> (fault + order_ack) \<times> order_world" where
  "judge_placed env between order agent placed w =
    (case (case dget (pa_decision placed) ''validation'' of None \<Rightarrow> Inr JNull | Some (JObj v) \<Rightarrow> Inr (jget v ''pid'') | Some _ \<Rightarrow> Inl (Runtime_Error ''AttributeError'')) of
      Inl e \<Rightarrow> (Inl e, w)
    | Inr pid \<Rightarrow>
        (case launch_target pid (oe_namespace env) (oe_table env) of
          Inl _ \<Rightarrow> (Inr (failed_ack [(''host_id'', JStr (lo_hive order))] ''ambiguous''), w)
        | Inr found \<Rightarrow>
            let target = jset ''host_id'' (JStr (lo_hive order)) found;
                live = agent\<lparr>ag_runtime_target := target, ag_pane_id := pa_pane_id placed\<rparr>;
                stop = (\<lambda>why w. (case stop_agent env live why w of (ack, w) \<Rightarrow> (Inr ack, w)));
                w1 = between 2 w
            in if rc_retired (ow_receipts w1 (order_key order)) then stop ''retired'' w1
               else
                 let w2 = between 3 w1
                 in if lo_expires_at order \<le> oe_now env 2 then stop ''expired'' w2
                    else if (pa_harness placed, pa_profile placed) \<noteq> (lo_harness order, lo_profile order) \<or>
                        (canonical_account (pa_account placed) \<noteq> canonical_account (lo_slot order) \<and>
                         \<not> resolved_master_login order (pa_account placed) (pa_placement placed) (pa_decision placed))
                    then stop ''identity'' w2
                    else case oe_epoch env 2 of
                        Inl e \<Rightarrow> if is_swarm_error e then stop ''refused'' w2 else (Inl e, w2)
                      | Inr _ \<Rightarrow> (Inr \<lparr>ak_status = ''live'', ak_target = target, ak_failure = '''', ak_execution = placed_execution env order placed\<rparr>, w2)))"

definition order_launch ::
  "order_env \<Rightarrow> (nat \<Rightarrow> order_world \<Rightarrow> order_world) \<Rightarrow> launch_order \<Rightarrow> agent_record \<Rightarrow> jdict \<Rightarrow> order_world \<Rightarrow> (fault + order_ack) \<times> order_world" where
  "order_launch env between order agent task w =
    (if front_door_refusal env order \<noteq> '''' then (Inr (failed_ack [] (front_door_refusal env order)), w)
     else case and_then (oe_config env) (launch_request env order agent task) of
         Inl e \<Rightarrow> (Inl e, w)
       | Inr request \<Rightarrow>
           (case oe_epoch env 1 of
             Inl e \<Rightarrow> (Inl e, w)
           | Inr _ \<Rightarrow>
               (case (if truthy (jget task ''workspace'')
                      then and_then (oe_workspace env) (\<lambda>path. Inr (request\<lparr>sr_task := jset ''workspace'' (JStr path) (sr_task request)\<rparr>))
                      else Inr request) of
                 Inl e \<Rightarrow> (Inl e, w)
               | Inr request \<Rightarrow>
                   if \<not> oe_serena env then (Inr (failed_ack [] ''serena''), w)
                   else
                     let w1 = between 1 w
                     in if rc_retired (ow_receipts w1 (order_key order)) then (Inr (failed_ack [] ''retired''), w1)
                        else
                          let w2 = log_call (Spawn_Call (order_key order) request) w1
                          in case oe_spawn env request of
                               Not_Placed status detail \<Rightarrow> (Inr (failed_ack [] (spawn_failure status detail)), w2)
                             | Placed placed \<Rightarrow> judge_placed env between order agent placed w2)))"

section \<open>Applying an order\<close>

text \<open>\<open>hsetnx\<close> of \<open>started\<close> and of \<open>pod\<close>, at once: whether this process is the one that started the order.\<close>

definition order_claim :: "string \<Rightarrow> int \<Rightarrow> launch_order \<Rightarrow> order_world \<Rightarrow> bool \<times> order_world" where
  "order_claim pod now order w =
    (rc_started (ow_receipts w (order_key order)) = None,
     set_receipt (order_key order) (\<lambda>r. r\<lparr>rc_started := Some (case rc_started r of None \<Rightarrow> now | Some t \<Rightarrow> t),
       rc_pod := Some (case rc_pod r of None \<Rightarrow> pod | Some p \<Rightarrow> p)\<rparr>) w)"

definition orphaned :: "order_env \<Rightarrow> launch_order \<Rightarrow> order_world \<Rightarrow> bool" where
  "orphaned env order w =
    (case rc_pod (ow_receipts w (order_key order)) of
      None \<Rightarrow> False | Some owner \<Rightarrow> owner \<noteq> oe_pod env \<and> (lo_hive order, owner) \<notin> ow_pods w)"

definition order_resumed :: "order_env \<Rightarrow> launch_order \<Rightarrow> int \<Rightarrow> int \<Rightarrow> order_world \<Rightarrow> order_ack option" where
  "order_resumed env order started now w =
    (if lo_expires_at order \<le> now then Some (failed_ack [] ''expired'')
     else if orphaned env order w then Some (failed_ack [] ''restarted'')
     else if now - started \<ge> 300000 then Some (failed_ack [] ''ambiguous'') else None)"

definition launch_task :: "order_env \<Rightarrow> launch_order \<Rightarrow> jdict option" where
  "launch_task env order =
    (case oe_prompt env of
      Some (Some (JObj task)) \<Rightarrow>
        if jget task ''id'' \<noteq> JStr (lo_task order) then None
        else (case jget task ''hive_opening'' of
            JStr opening \<Rightarrow> if jget task ''hive_opening_digest'' = JStr (oe_digest env opening) then Some task else None
          | _ \<Rightarrow> None)
    | _ \<Rightarrow> None)"

text \<open>An order this process has started.\<close>

definition order_held ::
  "order_env \<Rightarrow> (nat \<Rightarrow> order_world \<Rightarrow> order_world) \<Rightarrow> launch_order \<Rightarrow> order_world \<Rightarrow> (fault + order_ack) \<times> order_world" where
  "order_held env between order w =
    (if lo_expires_at order - ack_margin_ms \<le> oe_now env 0 then (Inr (failed_ack [] ''expired''), w)
     else case oe_epoch env 0 of
         Inl e \<Rightarrow> (if is_swarm_error e then Inr (failed_ack [] ''stale_epoch'') else Inl e, w)
       | Inr _ \<Rightarrow>
           (case and_then (oe_agent env) (\<lambda>agent. and_then (order_identity (lo_hive order) order (oe_occupants env) agent) (\<lambda>_. Inr agent)) of
             Inl e \<Rightarrow> (if is_swarm_error e \<or> e = no_permission then Inr (failed_ack [] ''identity'') else Inl e, w)
           | Inr agent \<Rightarrow>
               (case launch_task env order of
                 None \<Rightarrow> (Inr (failed_ack [] ''prompt''), w)
               | Some task \<Rightarrow>
                   (case order_launch env between order agent task w of
                     (Inl e, w') \<Rightarrow> (if is_swarm_error e then Inr (failed_ack [] ''refused'') else Inl e, w')
                   | r \<Rightarrow> r))))"

definition order_apply ::
  "order_env \<Rightarrow> (nat \<Rightarrow> order_world \<Rightarrow> order_world) \<Rightarrow> launch_order \<Rightarrow> order_world \<Rightarrow> (fault + order_ack option) \<times> order_world" where
  "order_apply env between order w =
    (case rc_started (ow_receipts w (order_key order)) of
      Some started \<Rightarrow> (Inr (order_resumed env order started (oe_now env 0) w), w)
    | None \<Rightarrow>
        (case order_claim (oe_pod env) (oe_now env 0) order (between 0 w) of
          (False, w1) \<Rightarrow> (Inr None, w1)
        | (True, w1) \<Rightarrow>
            (case order_held env between order w1 of (Inl e, w2) \<Rightarrow> (Inl e, w2) | (Inr ack, w2) \<Rightarrow> (Inr (Some ack), w2))))"

text \<open>The first answer counts; every copy of the order is answered with it and leaves the stream.\<close>

definition drop_entry :: "string \<Rightarrow> string \<Rightarrow> order_ack \<Rightarrow> order_world \<Rightarrow> order_world" where
  "drop_entry hive item ack w = w\<lparr>ow_acks := (ow_acks w)(hive := dset item ack (ow_acks w hive)),
    ow_stream := (ow_stream w)(hive := filter (\<lambda>(entry, _). entry \<noteq> item) (ow_stream w hive))\<rparr>"

definition order_answer :: "launch_order \<Rightarrow> order_ack \<Rightarrow> order_world \<Rightarrow> order_world" where
  "order_answer order ack w = set_receipt (order_key order) (\<lambda>r. r\<lparr>rc_ack := Some (case rc_ack r of None \<Rightarrow> ack | Some a \<Rightarrow> a)\<rparr>) w"

definition order_finish :: "string \<Rightarrow> string \<Rightarrow> launch_order \<Rightarrow> order_ack \<Rightarrow> order_world \<Rightarrow> order_world" where
  "order_finish hive item order ack w =
    (let w1 = order_answer order ack w
     in drop_entry hive item (case rc_ack (ow_receipts w1 (order_key order)) of None \<Rightarrow> ack | Some a \<Rightarrow> a) w1)"

definition order_drop :: "string \<Rightarrow> string \<Rightarrow> string \<Rightarrow> order_world \<Rightarrow> order_world" where
  "order_drop hive item why w = drop_entry hive item (failed_ack [] why) w"

text \<open>The errors \<open>consume\<close> catches.\<close>

definition order_caught :: "string \<Rightarrow> string \<Rightarrow> fault \<Rightarrow> order_world \<Rightarrow> (fault + unit) \<times> order_world" where
  "order_caught hive item e w =
    (case e of
      Key_Error _ \<Rightarrow> (Inr (), order_drop hive item ''invalid_order'' w)
    | Type_Error \<Rightarrow> (Inr (), order_drop hive item ''invalid_order'' w)
    | Value_Error _ \<Rightarrow> (Inr (), order_drop hive item ''invalid_order'' w)
    | _ \<Rightarrow> if e = no_permission then (Inr (), order_drop hive item ''refused'' w) else (Inl e, w))"

definition order_consume ::
  "string \<Rightarrow> order_env \<Rightarrow> (nat \<Rightarrow> order_world \<Rightarrow> order_world) \<Rightarrow> string \<Rightarrow> launch_order option \<Rightarrow> order_world \<Rightarrow> (fault + unit) \<times> order_world" where
  "order_consume hive env between item entry w =
    (case entry of
      None \<Rightarrow> (Inr (), order_drop hive item ''invalid_order'' w)
    | Some order \<Rightarrow>
        if lo_hive order \<noteq> hive then (Inr (), order_drop hive item ''identity'' w)
        else case rc_ack (ow_receipts w (order_key order)) of
            Some ack \<Rightarrow> (Inr (), order_finish hive item order ack w)
          | None \<Rightarrow>
              (case order_apply env between order w of
                (Inl e, w1) \<Rightarrow> order_caught hive item e w1
              | (Inr None, w1) \<Rightarrow> (Inr (), w1)
              | (Inr (Some ack), w1) \<Rightarrow> (Inr (), order_finish hive item order ack (between 4 w1))))"

definition order_batch :: nat where "order_batch = 32"

fun consume_all ::
  "string \<Rightarrow> (nat \<Rightarrow> order_env) \<Rightarrow> (nat \<Rightarrow> nat \<Rightarrow> order_world \<Rightarrow> order_world) \<Rightarrow> nat \<Rightarrow> (string \<times> launch_order option) list \<Rightarrow>
   order_world \<Rightarrow> (fault + unit) \<times> order_world" where
  "consume_all hive env between n [] w = (Inr (), w)"
| "consume_all hive env between n ((item, entry) # rest) w =
    (case order_consume hive (env n) (between n) item entry w of
      (Inl e, w1) \<Rightarrow> (Inl e, w1)
    | (Inr _, w1) \<Rightarrow> consume_all hive env between (Suc n) rest w1)"

definition order_poll ::
  "string \<Rightarrow> (nat \<Rightarrow> order_env) \<Rightarrow> (nat \<Rightarrow> nat \<Rightarrow> order_world \<Rightarrow> order_world) \<Rightarrow> order_world \<Rightarrow> (fault + nat) \<times> order_world" where
  "order_poll hive env between w =
    (let entries = take order_batch (ow_stream w hive)
     in case consume_all hive env between 0 entries w of (Inl e, w1) \<Rightarrow> (Inl e, w1) | (Inr _, w1) \<Rightarrow> (Inr (length entries), w1))"

section \<open>Commands\<close>

definition set_command :: "string \<times> string \<Rightarrow> (command_receipt \<Rightarrow> command_receipt) \<Rightarrow> order_world \<Rightarrow> order_world" where
  "set_command key f w = w\<lparr>ow_command_receipts := (ow_command_receipts w)(key := f (ow_command_receipts w key))\<rparr>"

text \<open>\<open>Orders.command\<close>: ordered once until its receipt is forgotten; \<open>item\<close> is the id the stream gives.\<close>

definition command_send :: "string \<Rightarrow> command_order \<Rightarrow> string \<Rightarrow> (order_world \<Rightarrow> order_world) \<Rightarrow> order_world \<Rightarrow> order_ack option \<times> order_world" where
  "command_send hive order item other w =
    (case cr_ack (ow_command_receipts w (hive, co_id order)) of
      Some ack \<Rightarrow> (Some ack, w)
    | None \<Rightarrow>
        if cr_sent (ow_command_receipts w (hive, co_id order)) then (None, w)
        else
          let w1 = other w
          in if ow_command_receipts w1 (hive, co_id order) \<noteq> ow_command_receipts w (hive, co_id order) then (None, w1)
             else (None, (set_command (hive, co_id order) (\<lambda>r. r\<lparr>cr_sent := True\<rparr>) w1)\<lparr>ow_commands :=
               (ow_commands w1)(hive := ow_commands w1 hive @ [(item, Some order)])\<rparr>))"

definition command_forget :: "string \<Rightarrow> string \<Rightarrow> order_world \<Rightarrow> order_world" where
  "command_forget hive order_id w = set_command (hive, order_id) (\<lambda>_. \<lparr>cr_sent = False, cr_ack = None\<rparr>) w"

text \<open>The runtime's answers: whether it did it, its detail and the name of its status.\<close>

record command_env =
  ce_agent :: "fault + agent_record"
  ce_terminated :: "agent_record \<Rightarrow> bool \<times> string \<times> string"
  ce_nudged :: "agent_record \<Rightarrow> bool \<times> string \<times> string"
  ce_named :: bool
  ce_reaped :: bool

definition ok_ack :: "bool \<Rightarrow> order_ack" where
  "ok_ack good = (if good then done_ack [] else refused_ack)"

definition reap_execution :: "string \<Rightarrow> command_env \<Rightarrow> command_order \<Rightarrow> agent_record \<Rightarrow> order_world \<Rightarrow> (fault + order_ack) \<times> order_world" where
  "reap_execution hive env order agent w =
    (case rc_ack (ow_receipts w (hive, co_slug order, co_execution_id order, co_generation order)) of
      None \<Rightarrow> (Inr foreign_ack, w)
    | Some ack \<Rightarrow>
        if ak_status ack \<noteq> ''live'' \<or> jget (ak_target ack) ''host_id'' \<noteq> JStr hive then (Inr foreign_ack, w)
        else (case dget (ak_execution ack) ''pane_id'' of
            Some (JStr pane) \<Rightarrow>
              let live = agent\<lparr>ag_generation := co_generation order, ag_runtime_target := ak_target ack, ag_pane_id := pane\<rparr>;
                  (good, detail, status) = ce_terminated env live
              in (Inr (if good then done_ack (ak_target ack) else failed_ack (ak_target ack) detail), log_call (Terminate_Call live) w)
          | _ \<Rightarrow> (Inl (Key_Error ''pane_id''), w)))"

definition run_command :: "string \<Rightarrow> command_env \<Rightarrow> command_order \<Rightarrow> order_world \<Rightarrow> (fault + order_ack) \<times> order_world" where
  "run_command hive env order w =
    (if co_action order = ''reap'' then (Inr (ok_ack (ce_reaped env)), log_call (Reap_Call (co_name order)) w)
     else case ce_agent env of
         Inl e \<Rightarrow> (if is_swarm_error e then Inr foreign_ack else Inl e, w)
       | Inr agent \<Rightarrow>
           if co_action order = ''reap_execution'' then reap_execution hive env order agent w
           else if ag_generation agent \<noteq> co_generation order \<or> jget (ag_runtime_target agent) ''host_id'' \<noteq> JStr hive then (Inr foreign_ack, w)
           else if co_action order = ''name'' then (Inr (ok_ack (ce_named env)), log_call (Name_Call agent) w)
           else
             let answer = (\<lambda>(good, detail, status). if good then done_ack (ag_runtime_target agent)
                   else failed_ack (ag_runtime_target agent) (if detail \<noteq> '''' then detail else status))
             in if co_action order = ''retire''
                then (Inr (answer (ce_terminated env agent)), log_call (Terminate_Call agent)
                  (set_receipt (hive, co_slug order, co_execution_id order, co_generation order) (\<lambda>r. r\<lparr>rc_retired := True\<rparr>) w))
                else if co_action order = ''nudge'' then (Inr (answer (ce_nudged env agent)), log_call (Nudge_Call agent (co_text order)) w)
                else (Inr unknown_action, w))"

definition drop_command :: "string \<Rightarrow> string \<Rightarrow> order_world \<Rightarrow> order_world" where
  "drop_command hive item w = w\<lparr>ow_commands := (ow_commands w)(hive := filter (\<lambda>(entry, _). entry \<noteq> item) (ow_commands w hive))\<rparr>"

text \<open>\<open>named_error\<close> is the name of an exception's type.\<close>

definition command_consume ::
  "string \<Rightarrow> (fault \<Rightarrow> string) \<Rightarrow> command_env \<Rightarrow> string \<Rightarrow> command_order option \<Rightarrow> order_world \<Rightarrow> order_world" where
  "command_consume hive named_error env item entry w =
    (case entry of
      None \<Rightarrow> drop_command hive item w
    | Some order \<Rightarrow>
        if cr_ack (ow_command_receipts w (hive, co_id order)) \<noteq> None then drop_command hive item w
        else (case run_command hive env order w of
            (r, w1) \<Rightarrow>
              let ack = (case r of Inl e \<Rightarrow> failed_ack [] (''error: '' @ named_error e) | Inr ack \<Rightarrow> ack)
              in drop_command hive item (set_command (hive, co_id order) (\<lambda>c. c\<lparr>cr_ack := Some ack\<rparr>) w1)))"

definition command_poll ::
  "string \<Rightarrow> (fault \<Rightarrow> string) \<Rightarrow> (string \<Rightarrow> command_env) \<Rightarrow> order_world \<Rightarrow> nat \<times> order_world" where
  "command_poll hive named_error env w =
    (let entries = take order_batch (ow_commands w hive)
     in (length entries, foldl (\<lambda>w (item, entry). command_consume hive named_error (env item) item entry w) w entries))"

text \<open>\<open>Orders.send\<close> and \<open>alive\<close>.\<close>

definition order_send :: "string \<Rightarrow> launch_order \<Rightarrow> string \<Rightarrow> order_world \<Rightarrow> order_world" where
  "order_send hive order item w = w\<lparr>ow_stream := (ow_stream w)(hive := ow_stream w hive @ [(item, Some order)])\<rparr>"

definition pod_alive :: "string \<Rightarrow> string \<Rightarrow> order_world \<Rightarrow> order_world" where
  "pod_alive hive pod w = w\<lparr>ow_pods := insert (hive, pod) (ow_pods w)\<rparr>"

section \<open>All processes together\<close>

text \<open>
  One atomic action of any process, with the orders that processes have started and may yet launch: whoever wins the
  claim holds the order until it hands it to the runtime or gives up, as a process that dies does.
\<close>

fun is_spawn :: "runtime_call \<Rightarrow> bool" where
  "is_spawn (Spawn_Call _ _) = True"
| "is_spawn _ = False"

definition spawns :: "order_key \<Rightarrow> order_world \<Rightarrow> nat" where
  "spawns key w = length (filter (\<lambda>c. \<exists>request. c = Spawn_Call key request) (ow_calls w))"

inductive order_step :: "order_world \<times> launch_order multiset \<Rightarrow> order_world \<times> launch_order multiset \<Rightarrow> bool" where
  claimed: "order_claim pod now order w = (won, w') \<Longrightarrow> order_step (w, held) (w', if won then add_mset order held else held)"
| spawned: "order_step (w, add_mset order held) (log_call (Spawn_Call (order_key order) request) w, held)"
| gave_up: "order_step (w, add_mset order held) (w, held)"
| called: "\<not> is_spawn c \<Longrightarrow> order_step (w, held) (log_call c w, held)"
| answered: "order_step (w, held) (order_answer order ack w, held)"
| retired: "order_step (w, held) (set_receipt key (\<lambda>r. r\<lparr>rc_retired := True\<rparr>) w, held)"
| other: "ow_receipts w' = ow_receipts w \<Longrightarrow> ow_calls w' = ow_calls w \<Longrightarrow> order_step (w, held) (w', held)"

text \<open>What others do leaves what this process holds alone.\<close>

definition runs_to :: "order_world \<Rightarrow> order_world \<Rightarrow> bool" where
  "runs_to w w' \<longleftrightarrow> (\<forall>held. \<exists>more. order_step\<^sup>*\<^sup>* (w, held) (w', held + more))"

definition others_run :: "(nat \<Rightarrow> order_world \<Rightarrow> order_world) \<Rightarrow> bool" where
  "others_run between \<longleftrightarrow> (\<forall>n w. runs_to w (between n w))"

text \<open>A run that has started \<open>order\<close> and is through with it at the end.\<close>

definition runs_through :: "launch_order \<Rightarrow> order_world \<Rightarrow> order_world \<Rightarrow> bool" where
  "runs_through order w w' \<longleftrightarrow> (\<forall>held. \<exists>more. order_step\<^sup>*\<^sup>* (w, add_mset order held) (w', held + more))"

definition launched_once :: "order_key \<Rightarrow> order_world \<times> launch_order multiset \<Rightarrow> bool" where
  "launched_once key s \<longleftrightarrow> spawns key (fst s) + size (filter_mset (\<lambda>order. order_key order = key) (snd s)) \<le>
    (if rc_started (ow_receipts (fst s) key) = None then 0 else 1)"

lemma spawns_simps [simp]:
  "spawns key (log_call c w) = (if \<exists>request. c = Spawn_Call key request then Suc (spawns key w) else spawns key w)"
  "spawns key (set_receipt k f w) = spawns key w" "spawns key (order_answer order ack w) = spawns key w"
  "ow_receipts (log_call c w) = ow_receipts w"
  by (auto simp: spawns_def log_call_def set_receipt_def order_answer_def)

lemma started_simps [simp]:
  "rc_started (ow_receipts (order_answer order ack w) key) = rc_started (ow_receipts w key)"
  "rc_started (ow_receipts (set_receipt k (\<lambda>r. r\<lparr>rc_retired := True\<rparr>) w) key) = rc_started (ow_receipts w key)"
  by (simp_all add: order_answer_def set_receipt_def)

lemma order_step_once: "order_step s s' \<Longrightarrow> launched_once key s \<Longrightarrow> launched_once key s'"
proof (induction rule: order_step.induct)
  case (claimed pod now order w won w' held)
  then show ?case unfolding launched_once_def order_claim_def by (cases "order_key order = key") (auto simp: set_receipt_def spawns_def split: if_splits)
next
  case (spawned w order held request)
  then show ?case by (cases "order_key order = key") (simp_all add: launched_once_def split: if_splits)
next
  case (gave_up w order held)
  then show ?case by (cases "order_key order = key") (simp_all add: launched_once_def split: if_splits)
next
  case (called c w held)
  then show ?case by (cases c) (simp_all add: launched_once_def)
next
  case (answered w held order ack)
  then show ?case by (simp add: launched_once_def)
next
  case (retired w held k)
  then show ?case by (simp add: launched_once_def)
next
  case (other w' w held)
  then show ?case by (simp add: launched_once_def spawns_def)
qed

lemma order_steps_once: "order_step\<^sup>*\<^sup>* s s' \<Longrightarrow> launched_once key s \<Longrightarrow> launched_once key s'"
  by (induction rule: rtranclp_induct) (auto intro: order_step_once)

lemma no_orders_once: "launched_once key (no_orders, {#})"
  by (simp add: launched_once_def spawns_def no_orders_def)

section \<open>What the operations do is such a run\<close>

named_theorems runs \<open>runs of the processes\<close>

lemma runs_to_refl [runs]: "runs_to w w"
  unfolding runs_to_def using rtranclp.rtrancl_refl by (metis add.right_neutral)

lemma runs_to_trans: "runs_to w w1 \<Longrightarrow> runs_to w1 w2 \<Longrightarrow> runs_to w w2"
  unfolding runs_to_def by (metis rtranclp_trans add.assoc)

lemma runs_to_step: "(\<And>held. order_step (w, held) (w', held)) \<Longrightarrow> runs_to w w'"
  unfolding runs_to_def by (metis add.right_neutral r_into_rtranclp)

lemma runs_to_between [runs]: "others_run between \<Longrightarrow> runs_to w (between n w)"
  by (simp add: others_run_def)

lemma runs_to_called [runs]: "\<not> is_spawn c \<Longrightarrow> runs_to w (log_call c w)"
  by (intro runs_to_step order_step.called)

lemma runs_to_answer [runs]: "runs_to w (order_answer order ack w)"
  by (intro runs_to_step order_step.answered)

lemma runs_to_drop [runs]: "runs_to w (drop_entry hive item ack w)"
  by (intro runs_to_step order_step.other) (simp_all add: drop_entry_def)

lemma runs_to_finish [runs]: "runs_to w (order_finish hive item order ack w)"
  unfolding order_finish_def Let_def by (rule runs_to_trans[OF runs_to_answer runs_to_drop])

lemma runs_to_caught: "runs_to w (snd (order_caught hive item e w))"
  by (cases e) (auto simp: order_caught_def order_drop_def intro: runs)

lemma through_give_up: "runs_through order w w"
  unfolding runs_through_def using order_step.gave_up by (metis add.right_neutral r_into_rtranclp)

lemma through_before:
  assumes "runs_to w w1" "runs_through order w1 w2"
  shows "runs_through order w w2"
  unfolding runs_through_def
proof
  fix held
  obtain more where "order_step\<^sup>*\<^sup>* (w, add_mset order held) (w1, add_mset order (held + more))"
    using assms(1) unfolding runs_to_def by (metis union_mset_add_mset_left)
  moreover obtain more' where "order_step\<^sup>*\<^sup>* (w1, add_mset order (held + more)) (w2, held + more + more')"
    using assms(2) unfolding runs_through_def by blast
  ultimately show "\<exists>more. order_step\<^sup>*\<^sup>* (w, add_mset order held) (w2, held + more)" by (metis rtranclp_trans add.assoc)
qed

lemma through_after: "runs_through order w w1 \<Longrightarrow> runs_to w1 w2 \<Longrightarrow> runs_through order w w2"
  unfolding runs_through_def runs_to_def by (metis rtranclp_trans add.assoc)

lemma through_spawn: "runs_through order w (log_call (Spawn_Call (order_key order) request) w)"
  unfolding runs_through_def using order_step.spawned by (metis add.right_neutral r_into_rtranclp)

lemma judge_placed_runs:
  assumes "others_run between"
  shows "runs_to w (snd (judge_placed env between order agent placed w))"
proof -
  have later: "runs_to w (between 3 (between 2 w))" by (rule runs_to_trans[OF runs_to_between[OF assms] runs_to_between[OF assms]])
  have "runs_to w (log_call (Terminate_Call agent) (between 2 w))" for agent
    by (rule runs_to_trans[OF runs_to_between[OF assms, of _ 2] runs_to_called]) simp
  moreover have "runs_to w (log_call (Terminate_Call agent) (between 3 (between 2 w)))" for agent
    by (rule runs_to_trans[OF later runs_to_called]) simp
  ultimately show ?thesis using runs_to_refl runs_to_between[OF assms] later
    by (auto simp: judge_placed_def stop_agent_def Let_def split: option.splits json.splits sum.splits if_splits)
qed

lemma order_launch_runs:
  assumes "others_run between"
  shows "runs_through order w (snd (order_launch env between order agent task w))"
proof -
  have before: "runs_through order w (between 1 w)" using through_before[OF runs_to_between[OF assms] through_give_up] .
  have spawn: "runs_through order w (log_call (Spawn_Call (order_key order) request) (between 1 w))" for request
    using through_before[OF runs_to_between[OF assms] through_spawn] .
  then have "runs_through order w (snd (judge_placed env between order agent placed (log_call (Spawn_Call (order_key order) request) (between 1 w))))" for request placed
    using through_after judge_placed_runs[OF assms] by blast
  with before spawn through_give_up show ?thesis
    by (auto simp: order_launch_def Let_def split: sum.splits spawn_answer.splits if_splits)
qed

lemma order_held_runs:
  assumes "others_run between"
  shows "runs_through order w (snd (order_held env between order w))"
proof -
  have "order_launch env between order agent task w = (r, w') \<Longrightarrow> runs_through order w w'" for agent task r w'
    using order_launch_runs[OF assms, of order w env agent task] by simp
  then show ?thesis using through_give_up[of order w] by (auto simp: order_held_def split: sum.splits option.splits prod.splits if_splits)
qed

lemma order_apply_runs:
  assumes "others_run between"
  shows "runs_to w (snd (order_apply env between order w))"
proof (cases "rc_started (ow_receipts w (order_key order))")
  case None
  obtain won w1 where claim: "order_claim (oe_pod env) (oe_now env 0) order (between 0 w) = (won, w1)" by fastforce
  have first: "order_step (between 0 w, held) (w1, if won then add_mset order held else held)" for held
    using order_step.claimed[OF claim] .
  show ?thesis
  proof (cases won)
    case True
    have "runs_to (between 0 w) (snd (order_held env between order w1))" unfolding runs_to_def
    proof
      fix held
      obtain more where "order_step\<^sup>*\<^sup>* (w1, add_mset order held) (snd (order_held env between order w1), held + more)"
        using order_held_runs[OF assms] unfolding runs_through_def by blast
      then show "\<exists>more. order_step\<^sup>*\<^sup>* (between 0 w, held) (snd (order_held env between order w1), held + more)"
        using converse_rtranclp_into_rtranclp[of order_step, OF first[of held]] True by auto
    qed
    then have run: "runs_to w (snd (order_held env between order w1))" by (rule runs_to_trans[OF runs_to_between[OF assms]])
    obtain r w2 where held: "order_held env between order w1 = (r, w2)" by fastforce
    have "snd (order_apply env between order w) = w2" using None claim True held by (cases r) (simp_all add: order_apply_def)
    then show ?thesis using run held by simp
  next
    case False
    then have "runs_to (between 0 w) w1" using first by (intro runs_to_step) simp
    then show ?thesis using runs_to_trans[OF runs_to_between[OF assms]] None claim False by (simp add: order_apply_def)
  qed
qed (simp add: order_apply_def runs_to_refl)

lemma order_consume_runs:
  assumes "others_run between"
  shows "runs_to w (snd (order_consume hive env between item entry w))"
proof -
  have applied: "order_apply env between order w = (r, w1) \<Longrightarrow> runs_to w w1" for order r w1
    using order_apply_runs[OF assms, of w env order] by simp
  then have "order_apply env between order w = (r, w1) \<Longrightarrow> runs_to w (snd (order_caught hive item e w1))" for order r w1 e
    using runs_to_trans runs_to_caught by blast
  moreover have "order_apply env between order w = (r, w1) \<Longrightarrow> runs_to w (order_finish hive item order ack (between 4 w1))" for order r w1 ack
    using runs_to_trans[OF applied runs_to_trans[OF runs_to_between[OF assms] runs_to_finish]] .
  ultimately show ?thesis using applied runs_to_drop runs_to_finish
    by (auto simp: order_consume_def order_drop_def split: option.splits prod.splits sum.splits)
qed

section \<open>What an order can rely on\<close>

text \<open>
  C30: While its receipt is kept (that of a retired execution for a day), an order is handed to the runtime at most once:
  whatever daemons and controllers do, in whatever order their actions mix, however often copies of it wait in the stream
  and processes die with it, and however the runtime answers.
\<close>

theorem order_spawned_once:
  assumes "order_step\<^sup>*\<^sup>* (no_orders, {#}) (w, held)" and "others_run between"
  shows "spawns key (snd (order_consume hive env between item entry w)) \<le> 1"
proof -
  obtain more where "order_step\<^sup>*\<^sup>* (w, held) (snd (order_consume hive env between item entry w), held + more)"
    using order_consume_runs[OF assms(2)] unfolding runs_to_def by blast
  from order_steps_once[OF this order_steps_once[OF assms(1) no_orders_once]]
  show ?thesis unfolding launched_once_def fst_conv by (rule order_trans[OF le_add1 order_trans]) simp
qed

text \<open>
  The first answer to an order is the only one: it stays in the receipt whatever is done later, and every copy of the
  order that is read after it gets that answer and leaves the stream, with no call to the runtime.
\<close>

lemma order_step_keeps_ack: "order_step s s' \<Longrightarrow> rc_ack (ow_receipts (fst s) key) = Some ack \<Longrightarrow> rc_ack (ow_receipts (fst s') key) = Some ack"
  by (induction rule: order_step.induct) (auto simp: order_claim_def order_answer_def set_receipt_def)

theorem first_answer_kept:
  assumes "order_step\<^sup>*\<^sup>* (w, held) (w', held')" and "rc_ack (ow_receipts w (order_key order)) = Some ack"
  shows "rc_ack (ow_receipts w' (order_key order)) = Some ack \<and>
    order_consume (lo_hive order) env between item (Some order) w' =
      (Inr (), drop_entry (lo_hive order) item ack (set_receipt (order_key order) (\<lambda>r. r\<lparr>rc_ack := Some ack\<rparr>) w')) \<and>
    ow_calls (snd (order_consume (lo_hive order) env between item (Some order) w')) = ow_calls w'"
proof -
  have "rc_ack (ow_receipts (fst s) key) = Some ack \<Longrightarrow> rc_ack (ow_receipts (fst s') key) = Some ack" if "order_step\<^sup>*\<^sup>* s s'" for s s' key
    using that by (induction rule: rtranclp_induct) (auto intro: order_step_keeps_ack)
  from this[OF assms(1)] have kept: "rc_ack (ow_receipts w' (order_key order)) = Some ack" using assms(2) by simp
  have "order_answer order ack w' = set_receipt (order_key order) (\<lambda>r. r\<lparr>rc_ack := Some ack\<rparr>) w'"
    using kept by (simp add: order_answer_def set_receipt_def)
  then show ?thesis using kept by (simp add: order_consume_def order_finish_def Let_def) (simp add: set_receipt_def drop_entry_def)
qed

text \<open>
  C31: A live answer was checked after the process was placed: its execution was not retired when that was read, the
  order had not expired at the reading after it, the epoch that admitted it was the controller's at all three readings,
  the execution was the one admitted, and the runtime placed the ordered profile and harness under the ordered account or
  under a login of the master that the runtime resolved.
\<close>

theorem live_answer_checked:
  assumes "order_held env between order w = (Inr ack, w')" and "ak_status ack = ''live''"
  shows "oe_now env 0 < lo_expires_at order - ack_margin_ms \<and> oe_now env 2 < lo_expires_at order \<and>
    (\<exists>w1. \<not> rc_retired (ow_receipts w1 (order_key order)) \<and> w' = between 3 w1) \<and> (\<forall>n \<in> {0, 1, 2}. oe_epoch env n = Inr ()) \<and>
    (\<exists>agent request placed. oe_agent env = Inr agent \<and> order_identity (lo_hive order) order (oe_occupants env) agent = Inr () \<and>
      oe_spawn env request = Placed placed \<and> pa_harness placed = lo_harness order \<and> pa_profile placed = lo_profile order \<and>
      (canonical_account (pa_account placed) = canonical_account (lo_slot order) \<or>
       resolved_master_login order (pa_account placed) (pa_placement placed) (pa_decision placed)))"
proof -
  obtain agent task where held: "oe_now env 0 < lo_expires_at order - ack_margin_ms" "oe_epoch env 0 = Inr ()" "oe_agent env = Inr agent"
    "order_identity (lo_hive order) order (oe_occupants env) agent = Inr ()" "order_launch env between order agent task w = (Inr ack, w')"
    using assms by (auto simp: order_held_def failed_ack_def and_then_def split: sum.splits option.splits prod.splits if_splits)
  obtain request placed w2 where launch: "oe_epoch env 1 = Inr ()" "oe_spawn env request = Placed placed"
    "judge_placed env between order agent placed w2 = (Inr ack, w')"
    using held(5) assms(2) by (auto simp: order_launch_def failed_ack_def Let_def split: sum.splits spawn_answer.splits if_splits)
  then show ?thesis using held assms(2)
    by (auto simp: judge_placed_def stop_agent_def failed_ack_def Let_def split: sum.splits option.splits json.splits if_splits)
qed

text \<open>A process that was placed and is not answered as live was terminated, or is reported as ambiguous.\<close>

theorem placed_live_or_stopped:
  assumes "order_held env (\<lambda>_ w. w) order w = (Inr ack, w')" and "\<forall>request. \<exists>placed. oe_spawn env request = Placed placed"
  shows "ow_calls w' = ow_calls w \<or> ak_status ack = ''live'' \<or> ak_failure ack = ''ambiguous'' \<or>
    (\<exists>request agent. ow_calls w' = ow_calls w @ [Spawn_Call (order_key order) request, Terminate_Call agent] \<and> oe_terminated env agent)"
proof (cases "ow_calls w' = ow_calls w")
  case False
  have not_placed: "oe_spawn env request \<noteq> Not_Placed status detail" for request status detail using assms(2) by (metis spawn_answer.distinct(1))
  have refused: "ow_calls v = ow_calls w" if "order_launch env (\<lambda>_ w. w) order agent task w = (Inl e, v)" "is_swarm_error e" for agent task e v
    using that not_placed
    by (auto simp: order_launch_def judge_placed_def stop_agent_def is_swarm_error_def Let_def
        split: sum.splits spawn_answer.splits option.splits json.splits if_splits)
  then obtain agent task where "order_launch env (\<lambda>_ w. w) order agent task w = (Inr ack, w')"
    using assms(1) False by (auto simp: order_held_def split: sum.splits option.splits prod.splits if_splits)
  then obtain request placed where "judge_placed env (\<lambda>_ w. w) order agent placed (log_call (Spawn_Call (order_key order) request) w) = (Inr ack, w')"
    using False not_placed by (auto simp: order_launch_def Let_def split: sum.splits spawn_answer.splits if_splits)
  then show ?thesis
    by (auto simp: judge_placed_def stop_agent_def failed_ack_def log_call_def Let_def split: sum.splits option.splits json.splits if_splits)
qed simp

text \<open>An expired order that is read is answered and leaves the stream, and launches nothing, whoever started it.\<close>

lemma expired_order_consumed:
  assumes "lo_expires_at order \<le> oe_now env 0"
  shows "\<exists>ack w'. order_consume (lo_hive order) env (\<lambda>_ w. w) item (Some order) w = (Inr (), w') \<and>
    rc_ack (ow_receipts w' (order_key order)) = Some ack \<and> dget (ow_acks w' (lo_hive order)) item = Some ack \<and>
    item \<notin> fst ` set (ow_stream w' (lo_hive order)) \<and> ow_calls w' = ow_calls w"
proof -
  have finish: "rc_ack (ow_receipts (order_finish (lo_hive order) item order ack v) (order_key order)) =
      Some (case rc_ack (ow_receipts v (order_key order)) of None \<Rightarrow> ack | Some a \<Rightarrow> a) \<and>
    dget (ow_acks (order_finish (lo_hive order) item order ack v) (lo_hive order)) item =
      Some (case rc_ack (ow_receipts v (order_key order)) of None \<Rightarrow> ack | Some a \<Rightarrow> a) \<and>
    item \<notin> fst ` set (ow_stream (order_finish (lo_hive order) item order ack v) (lo_hive order)) \<and>
    ow_calls (order_finish (lo_hive order) item order ack v) = ow_calls v" for ack v
    by (auto simp: order_finish_def order_answer_def set_receipt_def drop_entry_def dget_dset Let_def split: option.splits)
  have "\<exists>ack v. order_apply env (\<lambda>_ w. w) order w = (Inr (Some ack), v) \<and> ow_calls v = ow_calls w"
  proof (cases "rc_started (ow_receipts w (order_key order))")
    case None
    have "lo_expires_at order - ack_margin_ms \<le> oe_now env 0" using assms by (simp add: ack_margin_ms_def)
    then have "order_apply env (\<lambda>_ w. w) order w = (Inr (Some (failed_ack [] ''expired'')), snd (order_claim (oe_pod env) (oe_now env 0) order w))"
      using None by (simp add: order_apply_def order_claim_def order_held_def)
    moreover have "ow_calls (snd (order_claim (oe_pod env) (oe_now env 0) order w)) = ow_calls w" by (simp add: order_claim_def set_receipt_def)
    ultimately show ?thesis by blast
  next
    case (Some started)
    then show ?thesis using assms by (simp add: order_apply_def order_resumed_def)
  qed
  then obtain first v where "order_apply env (\<lambda>_ w. w) order w = (Inr (Some first), v)" "ow_calls v = ow_calls w" by blast
  then have "\<exists>ack v. order_consume (lo_hive order) env (\<lambda>_ w. w) item (Some order) w = (Inr (), order_finish (lo_hive order) item order ack v) \<and> ow_calls v = ow_calls w"
  proof (cases "rc_ack (ow_receipts w (order_key order))")
    case None
    then have "order_consume (lo_hive order) env (\<lambda>_ w. w) item (Some order) w = (Inr (), order_finish (lo_hive order) item order first v)"
      using \<open>order_apply env (\<lambda>_ w. w) order w = (Inr (Some first), v)\<close> by (simp add: order_consume_def)
    then show ?thesis using \<open>ow_calls v = ow_calls w\<close> by blast
  next
    case (Some ack)
    then have "order_consume (lo_hive order) env (\<lambda>_ w. w) item (Some order) w = (Inr (), order_finish (lo_hive order) item order ack w)"
      by (simp add: order_consume_def)
    then show ?thesis by blast
  qed
  then obtain ack v where "order_consume (lo_hive order) env (\<lambda>_ w. w) item (Some order) w = (Inr (), order_finish (lo_hive order) item order ack v)"
    "ow_calls v = ow_calls w" by blast
  then show ?thesis using finish[of ack v] by (intro exI conjI) (assumption | simp)+
qed

text \<open>What consuming one entry does to the others, when nobody interferes.\<close>

lemma judge_placed_aside:
  "judge_placed env (\<lambda>_ w. w) order agent placed w = (r, w') \<Longrightarrow>
    ow_acks w' = ow_acks w \<and> ow_stream w' = ow_stream w \<and> spawns key w' = spawns key w"
  by (auto simp: judge_placed_def stop_agent_def Let_def log_call_def spawns_def split: option.splits json.splits sum.splits if_splits)

lemma order_apply_aside:
  assumes "order_apply env (\<lambda>_ w. w) order w = (r, w')"
  shows "ow_acks w' = ow_acks w \<and> ow_stream w' = ow_stream w \<and> (order_key order \<noteq> key \<longrightarrow> spawns key w' = spawns key w)"
proof -
  have launch: "ow_acks v' = ow_acks v \<and> ow_stream v' = ow_stream v \<and> (order_key order \<noteq> key \<longrightarrow> spawns key v' = spawns key v)"
    if "order_launch env (\<lambda>_ w. w) order agent task v = (q, v')" for agent task v q v'
    using that by (auto simp: order_launch_def Let_def log_call_def spawns_def dest!: judge_placed_aside[where key = key]
        split: sum.splits spawn_answer.splits if_splits)
  have held: "ow_acks v' = ow_acks v \<and> ow_stream v' = ow_stream v \<and> (order_key order \<noteq> key \<longrightarrow> spawns key v' = spawns key v)"
    if "order_held env (\<lambda>_ w. w) order v = (q, v')" for v q v'
    using that by (auto simp: order_held_def dest!: launch split: sum.splits option.splits prod.splits if_splits)
  have claim: "ow_acks v' = ow_acks v \<and> ow_stream v' = ow_stream v \<and> spawns key v' = spawns key v"
    if "order_claim pod now order v = (won, v')" for pod now v won v'
    using that by (auto simp: order_claim_def set_receipt_def spawns_def)
  show ?thesis
  proof (cases "rc_started (ow_receipts w (order_key order))")
    case None
    obtain won w1 where c: "order_claim (oe_pod env) (oe_now env 0) order w = (won, w1)" by fastforce
    obtain q w2 where h: "order_held env (\<lambda>_ w. w) order w1 = (q, w2)" by fastforce
    have "w' = (if won then w2 else w1)" using assms None c h by (auto simp: order_apply_def split: bool.splits sum.splits)
    then show ?thesis using claim[OF c] held[OF h] by auto
  qed (use assms in \<open>simp add: order_apply_def\<close>)
qed

lemma drop_entry_aside [simp]:
  "ow_acks (drop_entry hive item ack w) = (ow_acks w)(hive := dset item ack (ow_acks w hive))"
  "ow_stream (drop_entry hive item ack w) = (ow_stream w)(hive := filter (\<lambda>(entry, _). entry \<noteq> item) (ow_stream w hive))"
  "spawns key (drop_entry hive item ack w) = spawns key w"
  by (simp_all add: drop_entry_def spawns_def)

lemma order_answer_aside [simp]: "ow_acks (order_answer order ack w) = ow_acks w" "ow_stream (order_answer order ack w) = ow_stream w"
  by (simp_all add: order_answer_def set_receipt_def)

lemma order_consume_aside:
  assumes "order_consume hive env (\<lambda>_ w. w) item entry w = (r, w')"
  shows "(other \<noteq> item \<longrightarrow> dget (ow_acks w' hive) other = dget (ow_acks w hive) other) \<and> set (ow_stream w' hive) \<subseteq> set (ow_stream w hive) \<and>
    ((\<forall>order. entry = Some order \<longrightarrow> order_key order \<noteq> key) \<longrightarrow> spawns key w' = spawns key w)"
proof (cases entry)
  case None
  then show ?thesis using assms by (auto simp: order_consume_def order_drop_def dget_dset)
next
  case (Some order)
  have caught: "w2 = w1 \<or> (\<exists>ack. w2 = drop_entry at_hive item ack w1)" if "order_caught at_hive item e w1 = (q, w2)" for at_hive e q w1 w2
    using that by (auto simp: order_caught_def order_drop_def split: fault.splits if_splits)
  obtain q w1 where ap: "order_apply env (\<lambda>_ w. w) order w = (q, w1)" by fastforce
  have "w' \<in> {w, w1} \<or> (\<exists>ack. w' = drop_entry hive item ack w \<or> w' = drop_entry hive item ack w1 \<or>
      (\<exists>first. w' = drop_entry hive item ack (order_answer order first w) \<or> w' = drop_entry hive item ack (order_answer order first w1)))"
    using assms Some ap
    by (auto simp: order_consume_def order_drop_def order_finish_def Let_def dest!: caught split: if_splits option.splits sum.splits)
  then show ?thesis using order_apply_aside[OF ap, of key] Some by (elim disjE exE) (auto simp: dget_dset)
qed

lemma order_consume_keeps:
  assumes "rc_ack (ow_receipts w key) = Some ack"
  shows "rc_ack (ow_receipts (snd (order_consume hive env (\<lambda>_ w. w) item entry w)) key) = Some ack"
proof -
  have "others_run (\<lambda>_ w. w)" by (simp add: others_run_def runs_to_refl)
  from order_consume_runs[OF this] obtain more where
    "order_step\<^sup>*\<^sup>* (w, {#}) (snd (order_consume hive env (\<lambda>_ w. w) item entry w), more)"
    unfolding runs_to_def by (metis add_0)
  moreover have "order_step\<^sup>*\<^sup>* s s' \<Longrightarrow> rc_ack (ow_receipts (fst s) key) = Some ack \<Longrightarrow> rc_ack (ow_receipts (fst s') key) = Some ack" for s s'
    by (induction rule: rtranclp_induct) (auto intro: order_step_keeps_ack)
  ultimately show ?thesis using assms by fastforce
qed

definition settled_entry :: "string \<Rightarrow> string \<Rightarrow> order_key \<Rightarrow> order_world \<Rightarrow> bool" where
  "settled_entry hive item key w \<longleftrightarrow> item \<notin> fst ` set (ow_stream w hive) \<and>
    (\<exists>ack. rc_ack (ow_receipts w key) = Some ack \<and> dget (ow_acks w hive) item = Some ack)"

lemma consume_all_settled:
  assumes "consume_all hive env (\<lambda>_ _ w. w) n entries w = (r, w')" and "settled_entry hive item key w" and "item \<notin> fst ` set entries"
  shows "settled_entry hive item key w'"
  using assms
proof (induction entries arbitrary: n w)
  case (Cons x rest)
  obtain i e where x: "x = (i, e)" by fastforce
  obtain q w1 where c: "order_consume hive (env n) (\<lambda>_ w. w) i e w = (q, w1)" by fastforce
  have "i \<noteq> item" using Cons.prems(3) x by auto
  then have s1: "settled_entry hive item key w1"
    using Cons.prems(2) order_consume_aside[OF c, of item key] order_consume_keeps[of w key _ hive "env n" i e] c
    unfolding settled_entry_def by (auto dest: subsetD)
  show ?case using Cons.IH[of "Suc n" w1] Cons.prems s1 c x by (cases q) auto
qed simp

lemma consume_all_expired:
  assumes "consume_all hive env (\<lambda>_ _ w. w) n entries w = (Inr u, w')" and "\<And>i. now \<le> oe_now (env i) 0"
    and "\<And>i x1. (i, Some x1) \<in> set entries \<Longrightarrow> order_key x1 = order_key order \<Longrightarrow> lo_expires_at x1 \<le> now"
    and "lo_hive order = hive" and "distinct (map fst entries)"
  shows "((item, Some order) \<in> set entries \<longrightarrow> settled_entry hive item (order_key order) w') \<and> spawns (order_key order) w' = spawns (order_key order) w"
  using assms(1,3,5)
proof (induction entries arbitrary: n w)
  case (Cons x rest)
  obtain i e where x: "x = (i, e)" by fastforce
  obtain v w1 where c: "order_consume hive (env n) (\<lambda>_ w. w) i e w = (Inr v, w1)"
    and rest: "consume_all hive env (\<lambda>_ _ w. w) (Suc n) rest w1 = (Inr u, w')"
    using Cons.prems(1) x by (auto split: prod.splits sum.splits)
  have ih: "((item, Some order) \<in> set rest \<longrightarrow> settled_entry hive item (order_key order) w') \<and> spawns (order_key order) w' = spawns (order_key order) w1"
    using Cons.IH[OF rest] Cons.prems(2,3) by (auto simp: x)
  have one: "(e = Some order \<longrightarrow> settled_entry hive i (order_key order) w1) \<and> spawns (order_key order) w1 = spawns (order_key order) w"
  proof (cases "\<exists>x1. e = Some x1 \<and> order_key x1 = order_key order")
    case True
    then obtain x1 where x1: "e = Some x1" "order_key x1 = order_key order" by blast
    have "lo_expires_at x1 \<le> oe_now (env n) 0" using Cons.prems(2)[of i x1] assms(2)[of n] x1 x by fastforce
    moreover have "lo_hive x1 = hive" using x1(2) assms(4) by (simp add: order_key_def)
    ultimately show ?thesis using expired_order_consumed[of x1 "env n" i w] x1 c by (auto simp: settled_entry_def spawns_def)
  next
    case False
    then show ?thesis using order_consume_aside[OF c, of i "order_key order"] by auto
  qed
  show ?case
  proof (cases "(item, Some order) = x")
    case True
    then have "item \<notin> fst ` set rest" "settled_entry hive item (order_key order) w1" using Cons.prems(3) one x by auto
    then show ?thesis using consume_all_settled[OF rest] ih one by auto
  qed (use ih one in auto)
qed simp

text \<open>
  C32: No order is left waiting: a pass that nobody disturbs and that comes to its end answers every expired order among
  the thirty two entries it reads and takes it out of the stream, whoever started it and whether or not that process still
  lives, and the order is not handed to the runtime.
\<close>

theorem expired_order_leaves:
  assumes "order_poll hive env (\<lambda>_ _ w. w) w = (Inr n, w')" and "(item, Some order) \<in> set (take order_batch (ow_stream w hive))"
    and "lo_hive order = hive" and "distinct (map fst (ow_stream w hive))" and "\<And>i. now \<le> oe_now (env i) 0"
    and "\<And>i x1. (i, Some x1) \<in> set (ow_stream w hive) \<Longrightarrow> order_key x1 = order_key order \<Longrightarrow> lo_expires_at x1 \<le> now"
  shows "\<exists>ack. rc_ack (ow_receipts w' (order_key order)) = Some ack \<and> dget (ow_acks w' hive) item = Some ack \<and>
    item \<notin> fst ` set (ow_stream w' hive) \<and> spawns (order_key order) w' = spawns (order_key order) w"
proof -
  define entries where "entries = take order_batch (ow_stream w hive)"
  obtain u where run: "consume_all hive env (\<lambda>_ _ w. w) 0 entries w = (Inr u, w')"
    using assms(1) by (auto simp: order_poll_def entries_def Let_def split: prod.splits sum.splits)
  have d: "distinct (map fst entries)" using assms(4) by (simp add: entries_def take_map[symmetric])
  have old: "lo_expires_at x1 \<le> now" if "(i, Some x1) \<in> set entries" "order_key x1 = order_key order" for i x1
    using assms(6)[OF _ that(2)] that(1) by (auto simp: entries_def dest: in_set_takeD)
  from consume_all_expired[OF run assms(5) old assms(3) d, where item = item] assms(2)
  show ?thesis by (auto simp: settled_entry_def entries_def)
qed

section \<open>An order from end to end\<close>

definition ho_order :: launch_order where
  "ho_order = \<lparr>lo_slug = ''s'', lo_execution_id = ''x1'', lo_generation = 1, lo_profile = ''eng'', lo_lane = ''eng'', lo_task = ''t1'', lo_slot = ''a1'',
    lo_harness = ''claude'', lo_route_kind = ''subscription'', lo_prompt_ref = ''p'', lo_epoch = 3, lo_expires_at = 100000, lo_hive = ''h1''\<rparr>"

definition ho_agent :: agent_record where
  "ho_agent = (new_agent ''eng-1'' ''eng'' ''t1'')\<lparr>ag_harness := ''claude'', ag_profile := ''eng'', ag_account := ''a1'', ag_state := ''launching'',
    ag_seat := ''eng-1@s'', ag_execution_id := ''x1'', ag_generation := 1, ag_runtime_target := [(''host_id'', JStr ''h1'')], ag_model := ''opus''\<rparr>"

definition ho_placed :: placed_agent where
  "ho_placed = \<lparr>pa_harness = ''claude'', pa_profile = ''eng'', pa_account = ''a1'', pa_placement = '''', pa_pane_id = ''p1'', pa_model = ''opus'',
    pa_effort = ''low'', pa_overlays = [], pa_decision = [(''validation'', JObj [(''pid'', JInt 7)])], pa_launched_at = 0, pa_timings = []\<rparr>"

definition ho_env :: "(nat \<Rightarrow> int) \<Rightarrow> order_env" where
  "ho_env clock = \<lparr>oe_pod = ''pod'', oe_now = clock, oe_wall_ms = 1000, oe_epoch = \<lambda>_. Inr (), oe_agent = Inr ho_agent,
    oe_occupants = Inr [(''eng-1@s'', ho_agent)],
    oe_prompt = Some (Some (JObj [(''hive_opening'', JStr ''go''), (''hive_opening_digest'', JStr ''go''), (''id'', JStr ''t1'')])),
    oe_digest = \<lambda>txt. txt, oe_front_door = False, oe_interface = False, oe_unusable = '''', oe_slots = [],
    oe_config = Inr \<lparr>cf_repo = ''r'', cf_lanes = [], cf_model = \<lambda>_. Inr JNull, cf_effort_min = ''low''\<rparr>, oe_workspace = Inr '''', oe_serena = True,
    oe_spawn = \<lambda>_. Placed ho_placed, oe_namespace = ''ns'', oe_table = \<lambda>n. if n = 7 then Some 5 else None, oe_terminated = \<lambda>_. True,
    oe_declared = \<lambda>_ names. names\<rparr>"

definition ho_late :: "nat \<Rightarrow> int" where
  "ho_late n = (if n = 2 then 200000 else 1000)"

lemma ho_live: "case order_held (ho_env (\<lambda>_. 1000)) (\<lambda>_ w. w) ho_order no_orders of (Inr ack, w) \<Rightarrow> ak_status ack = ''live'' | _ \<Rightarrow> False"
  by code_simp

lemma ho_stopped: "case order_held (ho_env ho_late) (\<lambda>_ w. w) ho_order no_orders of
    (Inr ack, w) \<Rightarrow> ak_status ack = ''failed'' \<and> ak_failure ack = ''expired'' \<and> length (ow_calls w) = 2 | _ \<Rightarrow> False"
  by code_simp

lemma alone: "others_run (\<lambda>_ w. w)"
  by (simp add: others_run_def runs_to_refl)

lemma order_spawned_once_witness:
  "spawns (order_key ho_order) (snd (order_consume ''h1'' (ho_env (\<lambda>_. 1000)) (\<lambda>_ w. w) ''1'' (Some ho_order)
    (snd (order_consume ''h1'' (ho_env (\<lambda>_. 1000)) (\<lambda>_ w. w) ''0'' (Some ho_order) no_orders)))) \<le> 1"
proof -
  obtain more where "order_step\<^sup>*\<^sup>* (no_orders, {#}) (snd (order_consume ''h1'' (ho_env (\<lambda>_. 1000)) (\<lambda>_ w. w) ''0'' (Some ho_order) no_orders), more)"
    using order_consume_runs[OF alone] unfolding runs_to_def by (metis add_0)
  from order_spawned_once[OF this alone] show ?thesis .
qed

lemma first_answer_kept_witness:
  "rc_ack (ow_receipts (order_answer ho_order refused_ack (order_answer ho_order foreign_ack no_orders)) (order_key ho_order)) = Some foreign_ack"
proof -
  have "order_step\<^sup>*\<^sup>* (order_answer ho_order foreign_ack no_orders, {#}) (order_answer ho_order refused_ack (order_answer ho_order foreign_ack no_orders), {#})"
    using order_step.answered by blast
  moreover have "rc_ack (ow_receipts (order_answer ho_order foreign_ack no_orders) (order_key ho_order)) = Some foreign_ack"
    by (simp add: order_answer_def set_receipt_def no_orders_def no_receipt_def)
  ultimately show ?thesis using first_answer_kept by blast
qed

lemma live_answer_checked_witness:
  "\<exists>ack w. order_held (ho_env (\<lambda>_. 1000)) (\<lambda>_ w. w) ho_order no_orders = (Inr ack, w) \<and> ak_status ack = ''live'' \<and>
    \<not> rc_retired (ow_receipts w (order_key ho_order))"
proof -
  obtain ack w where "order_held (ho_env (\<lambda>_. 1000)) (\<lambda>_ w. w) ho_order no_orders = (Inr ack, w)" "ak_status ack = ''live''"
    using ho_live by (auto split: prod.splits sum.splits)
  with live_answer_checked[OF this] show ?thesis by blast
qed

lemma placed_live_or_stopped_witness:
  "\<exists>ack w request agent. order_held (ho_env ho_late) (\<lambda>_ w. w) ho_order no_orders = (Inr ack, w) \<and>
    ow_calls w = [Spawn_Call (order_key ho_order) request, Terminate_Call agent]"
proof -
  obtain ack w where run: "order_held (ho_env ho_late) (\<lambda>_ w. w) ho_order no_orders = (Inr ack, w)"
    "ak_status ack = ''failed''" "ak_failure ack = ''expired''" "length (ow_calls w) = 2"
    using ho_stopped by (auto split: prod.splits sum.splits)
  have "\<forall>request. \<exists>placed. oe_spawn (ho_env ho_late) request = Placed placed" by (simp add: ho_env_def)
  from placed_live_or_stopped[OF run(1) this] run show ?thesis by (auto simp: no_orders_def)
qed

lemma expired_order_leaves_witness:
  "\<exists>w' ack. order_poll ''h1'' (\<lambda>_. ho_env (\<lambda>_. 100000)) (\<lambda>_ _ w. w) (order_send ''h1'' ho_order ''0'' no_orders) = (Inr 1, w') \<and>
    rc_ack (ow_receipts w' (order_key ho_order)) = Some ack \<and> ow_stream w' ''h1'' = [] \<and> spawns (order_key ho_order) w' = 0"
proof -
  let ?w = "order_send ''h1'' ho_order ''0'' no_orders"
  have "case order_poll ''h1'' (\<lambda>_. ho_env (\<lambda>_. 100000)) (\<lambda>_ _ w. w) ?w of (Inr n, w') \<Rightarrow> n = 1 \<and> ow_stream w' ''h1'' = [] | _ \<Rightarrow> False"
    by code_simp
  then obtain w' where run: "order_poll ''h1'' (\<lambda>_. ho_env (\<lambda>_. 100000)) (\<lambda>_ _ w. w) ?w = (Inr 1, w')" "ow_stream w' ''h1'' = []"
    by (auto split: prod.splits sum.splits)
  have stream: "ow_stream ?w ''h1'' = [(''0'', Some ho_order)]" by (simp add: order_send_def no_orders_def)
  have now: "100000 \<le> oe_now (ho_env (\<lambda>_. 100000)) 0" by (simp add: ho_env_def)
  have "\<exists>ack. rc_ack (ow_receipts w' (order_key ho_order)) = Some ack \<and> dget (ow_acks w' ''h1'') ''0'' = Some ack \<and>
      ''0'' \<notin> fst ` set (ow_stream w' ''h1'') \<and> spawns (order_key ho_order) w' = spawns (order_key ho_order) ?w"
  proof (rule expired_order_leaves[OF run(1) _ _ _ now])
    show "lo_expires_at x1 \<le> 100000" if "(i, Some x1) \<in> set (ow_stream ?w ''h1'')" for i x1
      using that stream by (simp add: ho_order_def)
    show "lo_hive ho_order = ''h1''" by (simp add: ho_order_def)
  qed (simp_all add: stream order_batch_def)
  moreover have "spawns (order_key ho_order) ?w = 0" by (simp add: spawns_def order_send_def no_orders_def)
  ultimately show ?thesis using run by auto
qed

end
