(* ===== verification/Tick_Registry.thy ===== *)
theory Tick_Registry
  imports Text_Tools "HOL-Library.Multiset"
begin

text \<open>
  The steps of a controller's tick and the order they run in (\<open>scripts/tick/registry.py\<close>): what a registry of steps has
  to satisfy before it is used, the waves and the order of its steps, and the barriers between the sites of a pass.
  A frozen set is a set, a float a rational, None where it is not finite; the floor is None where a step declares none.
  Names are quoted in messages as \<open>repr\<close> quotes plain ones. The loading of provider modules is left out.
\<close>

section \<open>Steps and waves\<close>

record tick_step =
  ts_name :: string
  ts_group :: string
  ts_lane :: string
  ts_budget :: "rat option"
  ts_interval :: "rat option"
  ts_floor :: "rat option"
  ts_needs :: "string set"
  ts_reads :: "string set"
  ts_writes :: "string set"
  ts_feature :: string

definition names_of :: "tick_step list \<Rightarrow> string set" where
  "names_of steps = ts_name ` set steps"

definition sorted_names :: "string set \<Rightarrow> string" where
  "sorted_names names = join_with '', '' (sorted_list_of_set names)"

definition pass_box :: string where "pass_box = ''pass:''"

definition pass_box_interval :: rat where "pass_box_interval = 60"

definition slow_lane_name :: string where "slow_lane_name = ''slow''"

definition check_timing :: "tick_step \<Rightarrow> fault + unit" where
  "check_timing step =
    (let boxes = {domain \<in> ts_writes step. starts_with pass_box domain}
     in if (case ts_budget step of None \<Rightarrow> True | Some b \<Rightarrow> b \<le> 0)
        then Inl (Value_Error (''Invalid budget for '' @ ts_name step @ '': expected finite positive seconds''))
        else if (case ts_interval step of None \<Rightarrow> True | Some i \<Rightarrow> i < 0)
        then Inl (Value_Error (''Invalid interval for '' @ ts_name step @ '': expected finite nonnegative seconds''))
        else if the (ts_interval step) > pass_box_interval \<and> boxes \<noteq> {}
        then Inl (Value_Error (''Interval of '' @ ts_name step @ '' above 60s writes '' @ sorted_names boxes))
        else Inr ())"

fun all_checked :: "('a \<Rightarrow> fault + unit) \<Rightarrow> 'a list \<Rightarrow> fault + unit" where
  "all_checked check [] = Inr ()"
| "all_checked check (x # xs) = and_then (check x) (\<lambda>_. all_checked check xs)"

fun check_names :: "string set \<Rightarrow> tick_step list \<Rightarrow> fault + unit" where
  "check_names seen [] = Inr ()"
| "check_names seen (step # steps) =
    (if ts_name step \<in> seen then Inl (Value_Error (''Duplicate step name: '' @ ts_name step))
     else check_names (insert (ts_name step) seen) steps)"

definition check_known :: "string set \<Rightarrow> tick_step \<Rightarrow> fault + unit" where
  "check_known names step =
    (let missing = ts_needs step - names
     in if missing \<noteq> {} then Inl (Value_Error (''Unknown dependency for '' @ ts_name step @ '': '' @ sorted_names missing)) else Inr ())"

definition cycle_error :: "tick_step list \<Rightarrow> fault" where
  "cycle_error pending = Value_Error (''Dependency cycle: '' @ join_with '', '' (sort (map ts_name pending)))"

text \<open>One round for each step at most, as \<open>for _ in steps\<close>.\<close>

fun waves_loop :: "tick_step list \<Rightarrow> string set \<Rightarrow> tick_step list \<Rightarrow> tick_step list list \<Rightarrow> fault + tick_step list list" where
  "waves_loop [] completed pending found = Inr found"
| "waves_loop (_ # rounds) completed pending found =
    (if pending = [] then Inr found
     else
       let ready = filter (\<lambda>step. ts_needs step \<subseteq> completed) pending
       in if ready = [] then Inl (cycle_error pending)
          else
            let completed' = completed \<union> names_of ready
            in waves_loop rounds completed' (filter (\<lambda>step. ts_name step \<notin> completed') pending) (found @ [ready]))"

definition dependency_waves :: "tick_step list \<Rightarrow> fault + tick_step list list" where
  "dependency_waves steps =
    and_then (all_checked check_timing steps) (\<lambda>_.
    and_then (check_names {} steps) (\<lambda>_.
    and_then (all_checked (check_known (names_of steps)) steps) (\<lambda>_.
    waves_loop steps {} steps [])))"

section \<open>Who may write what\<close>

fun pairs :: "'a list \<Rightarrow> ('a \<times> 'a) list" where
  "pairs [] = []"
| "pairs (x # xs) = map (Pair x) xs @ pairs xs"

definition ancestors_of :: "tick_step list \<Rightarrow> string \<Rightarrow> string set" where
  "ancestors_of steps =
    foldl (\<lambda>ancestors step. ancestors(ts_name step := ts_needs step \<union> (\<Union>need \<in> ts_needs step. ancestors need))) (\<lambda>_. {}) steps"

definition unordered_clash :: "(string \<Rightarrow> string set) \<Rightarrow> tick_step \<Rightarrow> tick_step \<Rightarrow> string option" where
  "unordered_clash ancestors a b =
    (if ts_name a \<in> ancestors (ts_name b) \<or> ts_name b \<in> ancestors (ts_name a) then None
     else
       let place = (if ts_lane a = ts_lane b then ''lane '' @ ts_lane a else ''lanes '' @ ts_lane a @ '' and '' @ ts_lane b);
           shared = ts_writes a \<inter> ts_writes b;
           crossed = (ts_writes a \<inter> ts_reads b) \<union> (ts_reads a \<inter> ts_writes b)
       in if shared \<noteq> {}
          then Some (''Unordered writers in '' @ place @ '' for '' @ sorted_names shared @ '': '' @ ts_name a @ '', '' @ ts_name b)
          else if crossed \<noteq> {}
          then Some (''Unordered reader and writer in '' @ place @ '' for '' @ sorted_names crossed @ '': '' @ ts_name a @ '', '' @ ts_name b)
          else None)"

definition validate_writers :: "tick_step list list \<Rightarrow> fault + unit" where
  "validate_writers waves =
    (let steps = concat waves; ancestors = ancestors_of steps
     in case List.map_filter (\<lambda>(a, b). unordered_clash ancestors a b) (pairs steps) of
          [] \<Rightarrow> Inr () | clash # _ \<Rightarrow> Inl (Value_Error clash))"

definition registry_waves :: "tick_step list \<Rightarrow> fault + tick_step list list" where
  "registry_waves steps = and_then (dependency_waves steps) (\<lambda>waves. and_then (validate_writers waves) (\<lambda>_. Inr waves))"

record catalogue =
  cg_features :: "string set"
  cg_scenarios :: "string \<Rightarrow> string set"
  cg_unmapped :: "string set"

definition catalogue_gaps :: "catalogue \<Rightarrow> tick_step \<Rightarrow> string list" where
  "catalogue_gaps cg step =
    (if ts_feature step \<notin> cg_features cg then [''feature '' @ [CHR 0x27] @ ts_feature step @ [CHR 0x27] @ '' is not a feature map id''] else []) @
    (if cg_scenarios cg (ts_name step) \<noteq> {} then [] else [''no scenario lists it''])"

definition catalogue_errors :: "catalogue \<Rightarrow> tick_step list \<Rightarrow> string list" where
  "catalogue_errors cg steps =
    List.map_filter (\<lambda>step.
      let gaps = catalogue_gaps cg step
      in if gaps \<noteq> [] \<and> ts_name step \<notin> cg_unmapped cg then Some (''Step '' @ ts_name step @ '': '' @ join_with ''; '' gaps)
         else if gaps = [] \<and> ts_name step \<in> cg_unmapped cg then Some (''Step '' @ ts_name step @ '' is mapped; drop it from the unmapped steps'')
         else None) steps @
    map (\<lambda>name. ''Unmapped step '' @ name @ '' is not registered; drop it'') (sorted_list_of_set (cg_unmapped cg - names_of steps))"

definition registry_validate :: "catalogue option \<Rightarrow> tick_step list \<Rightarrow> fault + unit" where
  "registry_validate cg steps =
    and_then (registry_waves steps) (\<lambda>_.
      let errors = (case cg of None \<Rightarrow> [] | Some cg \<Rightarrow> catalogue_errors cg steps)
      in if errors \<noteq> [] then Inl (Value_Error (join_with [CHR 0x0A] errors)) else Inr ())"

definition registry_steps :: "tick_step list \<Rightarrow> fault + tick_step list" where
  "registry_steps steps = and_then (registry_validate None steps) (\<lambda>_. Inr steps)"

section \<open>One after the other\<close>

fun ordered_loop :: "nat \<Rightarrow> string set \<Rightarrow> string set \<Rightarrow> tick_step list \<Rightarrow> tick_step list \<Rightarrow> fault + tick_step list" where
  "ordered_loop 0 names completed placed pending = Inr placed"
| "ordered_loop (Suc n) names completed placed pending =
    (case find (\<lambda>step. ts_needs step \<inter> names \<subseteq> completed) pending of
      None \<Rightarrow> Inl (cycle_error pending)
    | Some ready \<Rightarrow> ordered_loop n names (insert (ts_name ready) completed) (placed @ [ready]) (remove1 ready pending))"

definition ordered :: "tick_step list \<Rightarrow> fault + tick_step list" where
  "ordered steps = ordered_loop (length steps) (names_of steps) {} [] steps"

text \<open>The latest starts, wave by wave.\<close>

definition floor_of :: "tick_step \<Rightarrow> rat" where
  "floor_of step = (case ts_floor step of None \<Rightarrow> the (ts_budget step) | Some f \<Rightarrow> f)"

definition floors_of :: "tick_step list \<Rightarrow> (string, rat) dict" where
  "floors_of steps = foldl (\<lambda>d step. dset (ts_name step) (floor_of step) d) [] steps"

definition starts_of :: "(string \<Rightarrow> rat) \<Rightarrow> tick_step list \<Rightarrow> string \<Rightarrow> rat option" where
  "starts_of floors steps =
    foldl (\<lambda>starts step. starts(ts_name step \<mapsto>
      (if ts_needs step = {} then 0 else Max ((\<lambda>need. the (starts need) + floors need) ` ts_needs step)))) (\<lambda>_. None) steps"

definition latest_start :: "string \<Rightarrow> tick_step list \<Rightarrow> fault + rat" where
  "latest_start name steps =
    and_then (dependency_waves steps) (\<lambda>waves.
      case starts_of (\<lambda>need. the (dget (floors_of steps) need)) (concat waves) name of
        None \<Rightarrow> Inl (Key_Error name) | Some t \<Rightarrow> Inr t)"

section \<open>Sites\<close>

definition step_needing :: "string set \<Rightarrow> tick_step \<Rightarrow> tick_step" where
  "step_needing needs step = step\<lparr>ts_needs := needs\<rparr>"

text \<open>The place of a site among the sites; of two equal names the last counts.\<close>

fun last_index :: "'a \<Rightarrow> 'a list \<Rightarrow> int option" where
  "last_index x [] = None"
| "last_index x (y # ys) = (case last_index x ys of Some n \<Rightarrow> Some (n + 1) | None \<Rightarrow> if x = y then Some 0 else None)"

definition site_at :: "tick_step list \<Rightarrow> string list \<Rightarrow> (string, int) dict" where
  "site_at steps sites =
    foldl (\<lambda>spots step. case last_index (ts_group step) sites of None \<Rightarrow> spots | Some n \<Rightarrow> dset (ts_name step) n spots) [] steps"

definition backward :: "tick_step list \<Rightarrow> string list \<Rightarrow> tick_step list" where
  "backward steps sites =
    (let places = site_at steps sites
     in map (\<lambda>step.
          let later = {need \<in> ts_needs step. case dget places (ts_name step) of None \<Rightarrow> False
                | Some here \<Rightarrow> (case dget places need of None \<Rightarrow> - 1 | Some n \<Rightarrow> n) > here}
          in if later \<noteq> {} then step_needing (ts_needs step - later) step else step) steps)"

definition late_steps :: "tick_step list \<Rightarrow> fault + string set" where
  "late_steps steps =
    and_then (ordered steps) (\<lambda>placed.
      Inr (foldl (\<lambda>late step. if ts_lane step = slow_lane_name \<or> ts_needs step \<inter> late \<noteq> {} then insert (ts_name step) late else late) {} placed))"

text \<open>What the loop over the sites keeps: the barriers, what is held for a later site, the last barrier.\<close>

fun site_barriers ::
  "(string \<Rightarrow> tick_step list) \<Rightarrow> (string, string) dict \<Rightarrow> string list \<Rightarrow> (string, tick_step list) dict \<Rightarrow> (string, tick_step list) dict \<Rightarrow>
   tick_step list \<Rightarrow> (string, tick_step list) dict" where
  "site_barriers members joins [] barrier held previous = barrier"
| "site_barriers members joins (site # sites) barrier held previous =
    (let barrier = dset site (previous @ (case dget held site of None \<Rightarrow> [] | Some steps \<Rightarrow> steps)) barrier;
         held = dpop site held
     in case dget joins site of
          Some later \<Rightarrow> site_barriers members joins sites barrier
            (dset later ((case dget held later of None \<Rightarrow> [] | Some steps \<Rightarrow> steps) @ members site) held) previous
        | None \<Rightarrow> site_barriers members joins sites barrier held (if members site \<noteq> [] then members site else previous))"

definition site_edges :: "tick_step list \<Rightarrow> string list \<Rightarrow> (string, string) dict \<Rightarrow> fault + tick_step list" where
  "site_edges steps sites joins =
    (let found = backward steps sites
     in and_then (late_steps found) (\<lambda>late.
       let members = (\<lambda>site. filter (\<lambda>step. ts_group step = site \<and> ts_name step \<notin> late) found);
           barrier = site_barriers members joins sites [] [] []
       in Inr (map (\<lambda>step.
            let needs = names_of (case dget barrier (ts_group step) of None \<Rightarrow> [] | Some others \<Rightarrow> others)
            in if needs \<noteq> {} then step_needing (ts_needs step \<union> needs) step else step) found)))"

end
