(* ===== verification/Tick_Laws.thy ===== *)
theory Tick_Laws
  imports Tick_Registry
begin

text \<open>
  What the registry of steps guarantees: the order it gives respects the needs and is only refused where there is
  none, and once the steps validate, every order that respects the needs has the same effect.
\<close>

section \<open>Orders that respect the needs\<close>

fun in_needs :: "string set \<Rightarrow> string set \<Rightarrow> tick_step list \<Rightarrow> bool" where
  "in_needs names completed [] = True"
| "in_needs names completed (step # steps) \<longleftrightarrow>
    ts_needs step \<inter> names \<subseteq> completed \<and> in_needs names (insert (ts_name step) completed) steps"

definition needs_first :: "tick_step list \<Rightarrow> bool" where
  "needs_first steps \<longleftrightarrow> in_needs (names_of steps) {} steps"

lemma names_of_simps [simp]: "names_of [] = {}" "names_of (x # xs) = insert (ts_name x) (names_of xs)" "names_of (xs @ ys) = names_of xs \<union> names_of ys"
  by (auto simp: names_of_def)

lemma names_of_mset: "mset xs = mset ys \<Longrightarrow> names_of xs = names_of ys"
  unfolding names_of_def by (metis set_mset_mset)

lemma in_needs_append: "in_needs names completed (xs @ ys) \<longleftrightarrow> in_needs names completed xs \<and> in_needs names (completed \<union> names_of xs) ys"
  by (induction xs arbitrary: completed) auto

lemma in_needs_mono: "in_needs names completed xs \<Longrightarrow> completed \<subseteq> completed' \<Longrightarrow> in_needs names completed' xs"
  by (induction xs arbitrary: completed completed') (auto, blast)

lemma in_needs_within: "(\<forall>step \<in> set xs. ts_needs step \<subseteq> names) \<Longrightarrow> in_needs names completed xs = in_needs UNIV completed xs"
  by (induction xs arbitrary: completed) (auto simp: Int_absorb2)

text \<open>The first ready step, again and again.\<close>

lemma ordered_loop_sound:
  assumes "ordered_loop n names completed placed pending = Inr xs" "length pending = n"
  shows "\<exists>ys. xs = placed @ ys \<and> mset ys = mset pending \<and> in_needs names completed ys"
  using assms
proof (induction n arbitrary: completed placed pending)
  case (Suc n)
  obtain ready where ready: "find (\<lambda>step. ts_needs step \<inter> names \<subseteq> completed) pending = Some ready"
    using Suc.prems(1) by (auto split: option.splits)
  then have mem: "ready \<in> set pending" "ts_needs ready \<inter> names \<subseteq> completed" using find_Some_in[OF ready] by simp_all
  have "length (remove1 ready pending) = n" using Suc.prems(2) mem(1) by (simp add: length_remove1)
  moreover have "ordered_loop n names (insert (ts_name ready) completed) (placed @ [ready]) (remove1 ready pending) = Inr xs"
    using Suc.prems(1) ready by simp
  ultimately obtain ys where "xs = (placed @ [ready]) @ ys" "mset ys = mset (remove1 ready pending)"
    "in_needs names (insert (ts_name ready) completed) ys" using Suc.IH by blast
  then show ?case using mem by (intro exI[of _ "ready # ys"]) simp
qed simp

lemma ordered_loop_stuck:
  assumes "ordered_loop n names completed placed pending = Inl e" "length pending = n" "distinct (map ts_name pending)"
    "names = completed \<union> names_of pending"
  shows "\<exists>rest. rest \<noteq> [] \<and> set rest \<subseteq> set pending \<and> (\<forall>step \<in> set rest. ts_needs step \<inter> names_of rest \<noteq> {})"
  using assms
proof (induction n arbitrary: completed placed pending)
  case (Suc n)
  show ?case
  proof (cases "find (\<lambda>step. ts_needs step \<inter> names \<subseteq> completed) pending")
    case None
    then have "ts_needs step \<inter> names_of pending \<noteq> {}" if "step \<in> set pending" for step
      using that Suc.prems(4) by (auto simp: find_None_iff)
    moreover have "pending \<noteq> []" using Suc.prems(2) by auto
    ultimately show ?thesis by blast
  next
    case (Some ready)
    then have mem: "ready \<in> set pending" using find_Some_in by fast
    have "distinct pending" "inj_on ts_name (set pending)" using Suc.prems(3) by (simp_all add: distinct_map)
    have sub: "set (remove1 ready pending) \<subseteq> set pending" by (rule set_remove1_subset)
    have rest: "distinct (map ts_name (remove1 ready pending))"
      using distinct_remove1[OF \<open>distinct pending\<close>] inj_on_subset[OF \<open>inj_on ts_name (set pending)\<close> sub] distinct_map by metis
    have less: "length (remove1 ready pending) = n" using Suc.prems(2) mem by (simp add: length_remove1)
    have "names_of pending = insert (ts_name ready) (names_of (remove1 ready pending))"
      using mem \<open>distinct pending\<close> by (auto simp: names_of_def)
    then have split: "names = insert (ts_name ready) completed \<union> names_of (remove1 ready pending)" using Suc.prems(4) by simp
    have step: "ordered_loop n names (insert (ts_name ready) completed) (placed @ [ready]) (remove1 ready pending) = Inl e"
      using Suc.prems(1) Some by simp
    show ?thesis using Suc.IH[OF step less rest split] sub by (meson subset_trans)
  qed
qed simp

text \<open>Steps that each need another of them have no order.\<close>

lemma knot_no_order:
  assumes "knot \<noteq> []" "set knot \<subseteq> set ys" "\<forall>step \<in> set knot. ts_needs step \<inter> names_of knot \<noteq> {}"
    "in_needs names completed ys" "names_of knot \<subseteq> names" "distinct (map ts_name ys)" "names_of knot \<inter> completed = {}"
  shows False
  using assms(2,4,6,7)
proof (induction ys arbitrary: completed)
  case Nil
  then show ?case using assms(1) by simp
next
  case (Cons y ys)
  show ?case
  proof (cases "y \<in> set knot")
    case True
    then obtain n where "n \<in> ts_needs y" "n \<in> names_of knot" using assms(3) by blast
    then show ?thesis using Cons.prems(2,4) assms(5) by auto
  next
    case False
    then have inside: "set knot \<subseteq> set ys" using Cons.prems(1) by auto
    then have "ts_name y \<notin> names_of knot" using Cons.prems(3) by (auto simp: names_of_def)
    then show ?thesis using Cons.IH[OF inside, of "insert (ts_name y) completed"] Cons.prems by auto
  qed
qed

text \<open>
  The order of the steps is found whenever there is one: \<open>ordered\<close> answers with all its steps, each after those among
  them it needs, and it refuses its steps exactly when no order of them would do.
\<close>

theorem ordered_iff_order:
  assumes "distinct (map ts_name steps)"
  shows "case ordered steps of
      Inr xs \<Rightarrow> mset xs = mset steps \<and> needs_first xs
    | Inl _ \<Rightarrow> \<not> (\<exists>ys. mset ys = mset steps \<and> needs_first ys)"
proof (cases "ordered steps")
  case (Inr xs)
  then obtain ys where "xs = ys" "mset ys = mset steps" "in_needs (names_of steps) {} ys"
    using ordered_loop_sound[of "length steps" "names_of steps" "{}" "[]" steps xs] by (auto simp: ordered_def)
  then show ?thesis using Inr names_of_mset[of ys steps] by (simp add: needs_first_def)
next
  case (Inl e)
  obtain knot where knot: "knot \<noteq> []" "set knot \<subseteq> set steps" "\<forall>step \<in> set knot. ts_needs step \<inter> names_of knot \<noteq> {}"
    using ordered_loop_stuck[of "length steps" "names_of steps" "{}" "[]" steps e] Inl assms by (auto simp: ordered_def)
  have False if "mset ys = mset steps" "needs_first ys" for ys
  proof -
    have "set knot \<subseteq> set ys" "distinct (map ts_name ys)" "names_of knot \<subseteq> names_of ys"
      using that(1) knot(2) assms mset_eq_setD[OF that(1)] mset_eq_imp_distinct_iff[of "map ts_name ys" "map ts_name steps"]
      by (auto simp: names_of_def)
    then show False using knot_no_order[OF knot(1) _ knot(3), of ys "names_of ys" "{}"] that(2) by (simp add: needs_first_def)
  qed
  then show ?thesis using Inl by auto
qed

section \<open>Waves and ancestors\<close>

lemma all_checked_all: "all_checked check xs = Inr () \<Longrightarrow> x \<in> set xs \<Longrightarrow> check x = Inr ()"
  by (induction xs) (auto simp: and_then_def split: sum.splits)

lemma check_names_distinct: "check_names seen steps = Inr () \<Longrightarrow> distinct (map ts_name steps) \<and> names_of steps \<inter> seen = {}"
  by (induction steps arbitrary: seen) (auto simp: names_of_def split: if_splits)

lemma in_needs_ready: "\<forall>step \<in> set xs. ts_needs step \<subseteq> completed \<Longrightarrow> in_needs UNIV completed xs"
  by (induction xs arbitrary: completed) (auto simp: subset_insertI2)

lemma waves_loop_sound:
  assumes "waves_loop rounds completed pending found = Inr waves" "length pending \<le> length rounds" "distinct (map ts_name pending)"
    "names_of pending \<inter> completed = {}"
  shows "\<exists>later. waves = found @ later \<and> mset (concat later) = mset pending \<and> in_needs UNIV completed (concat later)"
  using assms
proof (induction rounds arbitrary: completed pending found)
  case (Cons r rounds)
  show ?case
  proof (cases "pending = []")
    case False
    define ready where "ready = filter (\<lambda>step. ts_needs step \<subseteq> completed) pending"
    define rest where "rest = filter (\<lambda>step. ts_name step \<notin> completed \<union> names_of ready) pending"
    have loop: "ready \<noteq> []" "waves_loop rounds (completed \<union> names_of ready) rest (found @ [ready]) = Inr waves"
      using Cons.prems(1) False by (auto simp: ready_def rest_def Let_def split: if_splits)
    have inj: "inj_on ts_name (set pending)" using Cons.prems(3) by (simp add: distinct_map)
    have other: "rest = filter (\<lambda>step. \<not> ts_needs step \<subseteq> completed) pending"
      unfolding rest_def using Cons.prems(4) inj
      by (intro filter_cong refl) (auto simp: ready_def names_of_def dest: inj_onD)
    have parted: "mset ready + mset rest = mset pending" unfolding other ready_def by (simp add: multiset_partition[symmetric])
    have "length rest < length pending" using loop(1) arg_cong[OF parted, of size] by (cases ready) simp_all
    then have "length rest \<le> length rounds" using Cons.prems(2) by simp
    moreover have "distinct (map ts_name rest)" unfolding rest_def using Cons.prems(3) by (rule distinct_map_filter)
    moreover have "names_of rest \<inter> (completed \<union> names_of ready) = {}" by (auto simp: rest_def names_of_def)
    ultimately obtain later where later: "waves = (found @ [ready]) @ later" "mset (concat later) = mset rest"
      "in_needs UNIV (completed \<union> names_of ready) (concat later)" using Cons.IH[OF loop(2)] by blast
    have "in_needs UNIV completed ready" by (rule in_needs_ready) (simp add: ready_def)
    then show ?thesis using later parted by (intro exI[of _ "ready # later"]) (simp add: in_needs_append)
  qed (use Cons.prems in simp)
qed simp

text \<open>What a step needs, directly or through others.\<close>

definition needs_rel :: "tick_step list \<Rightarrow> (string \<times> string) set" where
  "needs_rel steps = {(need, ts_name step) | need step. step \<in> set steps \<and> need \<in> ts_needs step}"

lemma ancestors_trancl: "set xs \<subseteq> set steps \<Longrightarrow> a \<in> ancestors_of xs b \<Longrightarrow> (a, b) \<in> (needs_rel steps)\<^sup>+"
proof (induction xs arbitrary: a b rule: rev_induct)
  case (snoc step xs)
  have mem: "step \<in> set steps" using snoc.prems by simp
  show ?case
  proof (cases "b = ts_name step")
    case True
    then consider "a \<in> ts_needs step" | need where "need \<in> ts_needs step" "a \<in> ancestors_of xs need"
      using snoc.prems(2) by (auto simp: ancestors_of_def)
    then show ?thesis
    proof cases
      case 1
      then show ?thesis using True mem by (auto simp: needs_rel_def)
    next
      case 2
      then have "(need, b) \<in> needs_rel steps" using True mem by (auto simp: needs_rel_def)
      then show ?thesis using snoc.IH[OF _ 2(2)] snoc.prems(1) by (auto intro: trancl_into_trancl)
    qed
  next
    case False
    then show ?thesis using snoc by (simp add: ancestors_of_def)
  qed
qed (simp add: ancestors_of_def)

definition closed_under :: "('a \<times> 'a) set \<Rightarrow> 'a set \<Rightarrow> bool" where
  "closed_under r A \<longleftrightarrow> (\<forall>(a, b) \<in> r. b \<in> A \<longrightarrow> a \<in> A)"

lemma closed_under_trancl: "(a, b) \<in> r\<^sup>+ \<Longrightarrow> closed_under r A \<Longrightarrow> b \<in> A \<Longrightarrow> a \<in> A"
  by (induction rule: trancl_induct) (auto simp: closed_under_def)

lemma closed_insert:
  assumes "closed_under (needs_rel steps) completed" "step \<in> set steps" "inj_on ts_name (set steps)" "ts_needs step \<subseteq> completed"
  shows "closed_under (needs_rel steps) (insert (ts_name step) completed)"
  using assms by (auto simp: closed_under_def needs_rel_def dest: inj_onD)

lemma closed_prefix:
  assumes "in_needs UNIV completed xs" "closed_under (needs_rel steps) completed" "set xs \<subseteq> set steps" "inj_on ts_name (set steps)"
  shows "closed_under (needs_rel steps) (completed \<union> names_of xs)"
  using assms
proof (induction xs arbitrary: completed)
  case (Cons x xs)
  then have "closed_under (needs_rel steps) (insert (ts_name x) completed \<union> names_of xs)"
    by (intro Cons.IH closed_insert) simp_all
  then show ?case by simp
qed simp

section \<open>What the steps do\<close>

text \<open>
  The code of a step is a function on the values of the domains. A step keeps to its declaration when it changes only
  what it writes, and what it writes follows from what it reads or writes.
\<close>

type_synonym 'v tick_code = "tick_step \<Rightarrow> (string \<Rightarrow> 'v) \<Rightarrow> (string \<Rightarrow> 'v)"

definition keeps_declared :: "'v tick_code \<Rightarrow> tick_step \<Rightarrow> bool" where
  "keeps_declared code step \<longleftrightarrow>
    (\<forall>s. \<forall>d. d \<notin> ts_writes step \<longrightarrow> code step s d = s d) \<and>
    (\<forall>s t. (\<forall>d \<in> ts_reads step \<union> ts_writes step. s d = t d) \<longrightarrow> (\<forall>d \<in> ts_writes step. code step s d = code step t d))"

definition run_all :: "'v tick_code \<Rightarrow> tick_step list \<Rightarrow> (string \<Rightarrow> 'v) \<Rightarrow> (string \<Rightarrow> 'v)" where
  "run_all code steps s = foldl (\<lambda>s step. code step s) s steps"

definition apart :: "tick_step \<Rightarrow> tick_step \<Rightarrow> bool" where
  "apart a b \<longleftrightarrow> ts_writes a \<inter> (ts_reads b \<union> ts_writes b) = {} \<and> ts_writes b \<inter> (ts_reads a \<union> ts_writes a) = {}"

lemma run_all_simps [simp]: "run_all code [] s = s" "run_all code (x # xs) s = run_all code xs (code x s)"
  "run_all code (xs @ ys) s = run_all code ys (run_all code xs s)"
  by (simp_all add: run_all_def)

lemma apart_commute:
  assumes "keeps_declared code a" "keeps_declared code b" "apart a b"
  shows "code a (code b s) = code b (code a s)"
proof
  fix d
  have out: "d \<notin> ts_writes a \<Longrightarrow> code a t d = t d" "d \<notin> ts_writes b \<Longrightarrow> code b t d = t d" for t d
    using assms(1,2) by (simp_all add: keeps_declared_def)
  consider "d \<in> ts_writes a" "d \<notin> ts_writes b" | "d \<in> ts_writes b" "d \<notin> ts_writes a" | "d \<notin> ts_writes a" "d \<notin> ts_writes b"
    using assms(3) by (auto simp: apart_def)
  then show "code a (code b s) d = code b (code a s) d"
  proof cases
    case 1
    have "\<forall>d \<in> ts_reads a \<union> ts_writes a. code b s d = s d" using assms(3) out(2) by (auto simp: apart_def)
    then have "code a (code b s) d = code a s d" using assms(1) 1(1) unfolding keeps_declared_def by blast
    then show ?thesis using out(2) 1(2) by simp
  next
    case 2
    have "\<forall>d \<in> ts_reads b \<union> ts_writes b. code a s d = s d" using assms(3) out(1) by (auto simp: apart_def)
    then have "code b (code a s) d = code b s d" using assms(2) 2(1) unfolding keeps_declared_def by blast
    then show ?thesis using out(1) 2(2) by simp
  next
    case 3
    then show ?thesis using out by simp
  qed
qed

lemma run_past: "\<forall>u \<in> set us. \<forall>s. code x (code u s) = code u (code x s) \<Longrightarrow> code x (run_all code us s) = run_all code us (code x s)"
  by (induction us arbitrary: s) auto

text \<open>Two orders of the same steps in which steps without a need between them commute have the same effect.\<close>

lemma same_effect:
  assumes "inj_on ts_name (set steps)"
    "\<forall>a \<in> set steps. \<forall>b \<in> set steps. a \<noteq> b \<longrightarrow> (ts_name a, ts_name b) \<notin> (needs_rel steps)\<^sup>+ \<longrightarrow> (ts_name b, ts_name a) \<notin> (needs_rel steps)\<^sup>+
      \<longrightarrow> (\<forall>s. code a (code b s) = code b (code a s))"
    and "in_needs UNIV completed xs" "in_needs UNIV completed ys" "mset xs = mset ys" "distinct (map ts_name xs)"
    "names_of xs \<inter> completed = {}" "closed_under (needs_rel steps) completed" "set xs \<subseteq> set steps"
  shows "run_all code xs s = run_all code ys s"
  using assms(3-)
proof (induction xs arbitrary: completed ys s)
  case (Cons x xs)
  have "x \<in> set ys" using Cons.prems(3) by (metis list.set_intros(1) set_mset_mset)
  then obtain us vs where ys: "ys = us @ x # vs" by (meson split_list)
  have perm: "mset xs = mset (us @ vs)" using Cons.prems(3) ys by simp
  have inside: "set us \<subseteq> set xs" using mset_eq_setD[OF perm] by auto
  then have us: "set us \<subseteq> set steps" "x \<in> set steps" using Cons.prems(7) by auto
  have fresh: "ts_name x \<notin> names_of xs" using Cons.prems(4) by (simp add: names_of_def)
  have named: "names_of us \<inter> completed = {}" "ts_name x \<notin> names_of us" using inside fresh Cons.prems(5) by (auto simp: names_of_def)
  have order: "in_needs UNIV completed us" "ts_needs x \<subseteq> completed" using Cons.prems(1,2) ys by (simp_all add: in_needs_append)
  have before: "closed_under (needs_rel steps) (completed \<union> names_of us)" "closed_under (needs_rel steps) (insert (ts_name x) completed)"
    using closed_prefix[OF order(1) Cons.prems(6) us(1) assms(1)] closed_insert[OF Cons.prems(6) us(2) assms(1) order(2)] .
  have "\<forall>u \<in> set us. \<forall>s. code x (code u s) = code u (code x s)"
  proof
    fix u assume u: "u \<in> set us"
    have "(ts_name u, ts_name x) \<notin> (needs_rel steps)\<^sup>+" "(ts_name x, ts_name u) \<notin> (needs_rel steps)\<^sup>+"
      using u closed_under_trancl[OF _ before(1), of "ts_name x" "ts_name u"] closed_under_trancl[OF _ before(2), of "ts_name u" "ts_name x"]
        named Cons.prems(5) by (auto simp: names_of_def disjoint_iff)
    moreover have "u \<noteq> x" using u named(2) by (auto simp: names_of_def)
    ultimately show "\<forall>s. code x (code u s) = code u (code x s)" using assms(2) us u by (metis subsetD)
  qed
  then have moved: "code x (run_all code us s) = run_all code us (code x s)" by (rule run_past)
  have "in_needs UNIV (insert (ts_name x) completed) (us @ vs)"
    using Cons.prems(2) ys in_needs_mono[OF order(1), of "insert (ts_name x) completed"] by (auto simp: in_needs_append)
  moreover have "in_needs UNIV (insert (ts_name x) completed) xs" using Cons.prems(1) by simp
  moreover have "distinct (map ts_name xs)" "names_of xs \<inter> insert (ts_name x) completed = {}" "set xs \<subseteq> set steps"
    using Cons.prems(4,5,7) fresh by auto
  ultimately have "run_all code xs (code x s) = run_all code (us @ vs) (code x s)" using Cons.IH[OF _ _ perm _ _ before(2)] by blast
  then show ?case using ys moved by simp
qed simp

section \<open>A validated registry\<close>

lemma pairs_either: "a \<in> set xs \<Longrightarrow> b \<in> set xs \<Longrightarrow> a \<noteq> b \<Longrightarrow> (a, b) \<in> set (pairs xs) \<or> (b, a) \<in> set (pairs xs)"
  by (induction xs) auto

lemma map_filter_empty: "List.map_filter f xs = [] \<Longrightarrow> x \<in> set xs \<Longrightarrow> f x = None"
  by (induction xs) (auto simp: List.map_filter_simps split: option.splits)

lemma no_clash_apart:
  assumes "unordered_clash (ancestors_of xs) a b = None" "set xs \<subseteq> set steps"
    "(ts_name a, ts_name b) \<notin> (needs_rel steps)\<^sup>+" "(ts_name b, ts_name a) \<notin> (needs_rel steps)\<^sup>+"
  shows "apart a b"
proof -
  have "ts_name a \<notin> ancestors_of xs (ts_name b)" "ts_name b \<notin> ancestors_of xs (ts_name a)"
    using ancestors_trancl[OF assms(2)] assms(3,4) by blast+
  then show ?thesis using assms(1) by (auto simp: unordered_clash_def apart_def Let_def split: if_splits)
qed

lemma apart_sym: "apart a b \<Longrightarrow> apart b a"
  by (auto simp: apart_def)

lemma validated:
  assumes "registry_validate cg steps = Inr ()"
  shows "distinct (map ts_name steps)" "\<forall>step \<in> set steps. ts_needs step \<subseteq> names_of steps"
    "\<exists>waves. registry_waves steps = Inr waves \<and> mset (concat waves) = mset steps \<and> in_needs UNIV {} (concat waves) \<and>
      validate_writers waves = Inr ()"
proof -
  obtain waves where waves: "registry_waves steps = Inr waves" "dependency_waves steps = Inr waves" "validate_writers waves = Inr ()"
    using assms by (auto simp: registry_validate_def registry_waves_def and_then_def split: sum.splits)
  then have checks: "check_names {} steps = Inr ()" "all_checked (check_known (names_of steps)) steps = Inr ()" "waves_loop steps {} steps [] = Inr waves"
    by (auto simp: dependency_waves_def and_then_def split: sum.splits)
  show names: "distinct (map ts_name steps)" using check_names_distinct[OF checks(1)] by simp
  show "\<forall>step \<in> set steps. ts_needs step \<subseteq> names_of steps"
  proof
    fix step assume "step \<in> set steps"
    from all_checked_all[OF checks(2) this] show "ts_needs step \<subseteq> names_of steps" by (auto simp: check_known_def Let_def split: if_splits)
  qed
  show "\<exists>waves. registry_waves steps = Inr waves \<and> mset (concat waves) = mset steps \<and> in_needs UNIV {} (concat waves) \<and> validate_writers waves = Inr ()"
    using waves waves_loop_sound[OF checks(3)] names by auto
qed

text \<open>
  Once the registered steps validate, the order they run in does not matter: two orders of them that respect the needs
  have the same effect on every state, for all codes of the steps that keep to what they declare to read and write.
\<close>

theorem validated_order_irrelevant:
  assumes "registry_validate cg steps = Inr ()" "\<forall>step \<in> set steps. keeps_declared code step"
    and "mset xs = mset steps" "needs_first xs" "mset ys = mset steps" "needs_first ys"
  shows "run_all code xs s = run_all code ys s"
proof -
  obtain waves where waves: "mset (concat waves) = mset steps" "validate_writers waves = Inr ()" using validated(3)[OF assms(1)] by blast
  have inj: "inj_on ts_name (set steps)" using validated(1)[OF assms(1)] by (simp add: distinct_map)
  have same: "set (concat waves) = set steps" using waves(1) by (rule mset_eq_setD)
  have commute: "\<forall>s. code a (code b s) = code b (code a s)" if ab: "a \<in> set steps" "b \<in> set steps" "a \<noteq> b"
    "(ts_name a, ts_name b) \<notin> (needs_rel steps)\<^sup>+" "(ts_name b, ts_name a) \<notin> (needs_rel steps)\<^sup>+" for a b
  proof -
    have clear: "unordered_clash (ancestors_of (concat waves)) u v = None" if "(u, v) \<in> set (pairs (concat waves))" for u v
      using waves(2) that map_filter_empty by (fastforce simp: validate_writers_def Let_def split: list.splits)
    have "apart a b" using pairs_either[of a "concat waves" b] ab(1-3) clear no_clash_apart[OF _ equalityD1[OF same]] ab(4,5) apart_sym
      unfolding same by meson
    then show ?thesis using apart_commute assms(2) ab(1,2) by blast
  qed
  have ordered_by: "in_needs UNIV {} zs" "distinct (map ts_name zs)" "set zs \<subseteq> set steps" if "mset zs = mset steps" "needs_first zs" for zs
  proof -
    have "\<forall>step \<in> set zs. ts_needs step \<subseteq> names_of zs" using validated(2)[OF assms(1)] names_of_mset[OF that(1)] mset_eq_setD[OF that(1)] by simp
    then show "in_needs UNIV {} zs" using that(2) in_needs_within unfolding needs_first_def by blast
    show "distinct (map ts_name zs)"
      using validated(1)[OF assms(1)] that(1) mset_eq_imp_distinct_iff[of "map ts_name zs" "map ts_name steps"] by simp
    show "set zs \<subseteq> set steps" using mset_eq_setD[OF that(1)] by simp
  qed
  have "closed_under (needs_rel steps) {}" by (simp add: closed_under_def)
  moreover have "mset xs = mset ys" using assms(3,5) by simp
  ultimately show ?thesis
    using same_effect[OF inj, of code "{}" xs ys s] commute ordered_by[OF assms(3,4)] ordered_by[OF assms(5,6)] by simp
qed

section \<open>Three steps\<close>

definition tk_step :: "string \<Rightarrow> string \<Rightarrow> string list \<Rightarrow> string list \<Rightarrow> string list \<Rightarrow> tick_step" where
  "tk_step name site needs reads writes = \<lparr>ts_name = name, ts_group = site, ts_lane = ''decide'', ts_budget = Some 5, ts_interval = Some 0,
    ts_floor = None, ts_needs = set needs, ts_reads = set reads, ts_writes = set writes, ts_feature = ''f''\<rparr>"

definition tk_read :: tick_step where "tk_read = tk_step ''read'' ''observe'' [] [] [''tasks'']"
definition tk_plan :: tick_step where "tk_plan = tk_step ''plan'' ''decide'' [''read''] [''tasks''] [''plan'']"
definition tk_mail :: tick_step where "tk_mail = tk_step ''mail'' ''decide'' [] [] [''mail'']"

definition tk_code :: "int tick_code" where
  "tk_code step s = (if step = tk_read then s(''tasks'' := s ''tasks'' + 1)
    else if step = tk_plan then s(''plan'' := 2 * s ''tasks'') else if step = tk_mail then s(''mail'' := s ''mail'' * 3) else s)"

lemma tk_valid: "registry_validate None [tk_plan, tk_mail, tk_read] = Inr ()"
  by code_simp

lemma tk_distinct: "distinct (map ts_name [tk_plan, tk_mail, tk_read])"
  by code_simp

lemma tk_declared: "\<forall>step \<in> set [tk_plan, tk_mail, tk_read]. keeps_declared tk_code step"
  by (auto simp: keeps_declared_def tk_code_def tk_plan_def tk_mail_def tk_read_def tk_step_def)

lemma ordered_iff_order_witness:
  "case ordered [tk_plan, tk_mail, tk_read] of Inr xs \<Rightarrow> mset xs = mset [tk_plan, tk_mail, tk_read] \<and> needs_first xs | Inl _ \<Rightarrow> False"
proof -
  have "case ordered [tk_plan, tk_mail, tk_read] of Inr _ \<Rightarrow> True | Inl _ \<Rightarrow> False" by code_simp
  with ordered_iff_order[OF tk_distinct] show ?thesis by (auto split: sum.splits)
qed

lemma validated_order_irrelevant_witness:
  "run_all tk_code [tk_mail, tk_read, tk_plan] (\<lambda>_. 1) = run_all tk_code [tk_read, tk_plan, tk_mail] (\<lambda>_. 1) \<and>
   run_all tk_code [tk_read, tk_plan, tk_mail] (\<lambda>_. 1) ''plan'' = 4"
proof -
  have order: "needs_first [tk_mail, tk_read, tk_plan]" "needs_first [tk_read, tk_plan, tk_mail]" by code_simp+
  have "run_all tk_code [tk_mail, tk_read, tk_plan] (\<lambda>_. 1) = run_all tk_code [tk_read, tk_plan, tk_mail] (\<lambda>_. 1)"
    by (rule validated_order_irrelevant[OF tk_valid tk_declared]) (simp_all add: order add_mset_commute)
  moreover have "run_all tk_code [tk_read, tk_plan, tk_mail] (\<lambda>_. 1) ''plan'' = 4" by code_simp
  ultimately show ?thesis ..
qed

end
