(* ===== verification/Tick_Sites.thy ===== *)
theory Tick_Sites
  imports Tick_Laws
begin

text \<open>
  The sites of a pass run in turn: what the barriers of \<open>site_edges\<close> make of the needs of the steps.
\<close>

section \<open>The loop over the sites\<close>

definition held_for :: "(string, tick_step list) dict \<Rightarrow> string \<Rightarrow> tick_step list" where
  "held_for held site = (case dget held site of None \<Rightarrow> [] | Some steps \<Rightarrow> steps)"

definition previous_after :: "(string \<Rightarrow> tick_step list) \<Rightarrow> (string, string) dict \<Rightarrow> string list \<Rightarrow> tick_step list \<Rightarrow> tick_step list" where
  "previous_after members joins sites previous =
    foldl (\<lambda>p site. if dget joins site = None \<and> members site \<noteq> [] then members site else p) previous sites"

lemma previous_after_simps [simp]: "previous_after members joins [] previous = previous"
  "previous_after members joins (site # sites) previous =
    previous_after members joins sites (if dget joins site = None \<and> members site \<noteq> [] then members site else previous)"
  by (simp_all add: previous_after_def)

lemma site_barriers_kept: "site \<notin> set sites \<Longrightarrow> dget (site_barriers members joins sites barrier held previous) site = dget barrier site"
  by (induction sites arbitrary: barrier held previous) (simp_all add: Let_def dget_dset split: option.split)

lemma site_barrier_holds:
  assumes "distinct (pre @ site # post)"
  shows "\<exists>B. dget (site_barriers members joins (pre @ site # post) barrier held previous) site = Some B \<and>
    set (previous_after members joins pre previous) \<union> set (held_for held site) \<subseteq> set B \<and>
    (\<forall>s \<in> set pre. dget joins s = Some site \<longrightarrow> set (members s) \<subseteq> set B)"
  using assms
proof (induction pre arbitrary: barrier held previous)
  case Nil
  then show ?case by (auto simp: Let_def site_barriers_kept dget_dset held_for_def split: option.splits)
next
  case (Cons s pre)
  have other: "s \<noteq> site" "distinct (pre @ site # post)" using Cons.prems by auto
  show ?case
  proof (cases "dget joins s")
    case None
    then show ?thesis
      using Cons.IH[OF other(2), of "dset s (previous @ held_for held s) barrier" "dpop s held" "if members s \<noteq> [] then members s else previous"] other(1)
      by (fastforce simp: Let_def held_for_def dget_dpop)
  next
    case (Some later)
    define held' where "held' = dset later (held_for (dpop s held) later @ members s) (dpop s held)"
    have grown: "set (held_for held site) \<subseteq> set (held_for held' site)" "later = site \<longrightarrow> set (members s) \<subseteq> set (held_for held' site)"
      using other(1) by (auto simp: held'_def held_for_def dget_dset dget_dpop split: option.splits)
    obtain B where B: "dget (site_barriers members joins (pre @ site # post) (dset s (previous @ held_for held s) barrier) held' previous) site = Some B"
      "set (previous_after members joins pre previous) \<union> set (held_for held' site) \<subseteq> set B"
      "\<forall>s \<in> set pre. dget joins s = Some site \<longrightarrow> set (members s) \<subseteq> set B"
      using Cons.IH[OF other(2)] by blast
    have "dget (site_barriers members joins ((s # pre) @ site # post) barrier held previous) site = Some B"
      using B(1) Some by (simp add: Let_def held'_def held_for_def)
    then show ?thesis using B(2,3) grown Some by (intro exI[of _ B]) auto
  qed
qed

lemma previous_after_from:
  assumes "i < length sites" "dget joins (sites ! i) = None" "members (sites ! i) \<noteq> []"
  shows "\<exists>k \<ge> i. k < length sites \<and> dget joins (sites ! k) = None \<and> members (sites ! k) \<noteq> [] \<and>
    previous_after members joins sites previous = members (sites ! k)"
  using assms
proof (induction sites rule: rev_induct)
  case (snoc site sites)
  have last: "previous_after members joins (sites @ [site]) previous =
      (if dget joins site = None \<and> members site \<noteq> [] then members site else previous_after members joins sites previous)"
    by (simp add: previous_after_def)
  show ?case
  proof (cases "dget joins site = None \<and> members site \<noteq> []")
    case True
    then show ?thesis using snoc.prems(1) last by (intro exI[of _ "length sites"]) auto
  next
    case False
    then have "i < length sites" using snoc.prems by (cases "i = length sites") (auto simp: nth_append)
    then obtain k where "k \<ge> i" "k < length sites" "dget joins (sites ! k) = None" "members (sites ! k) \<noteq> []"
      "previous_after members joins sites previous = members (sites ! k)"
      using snoc.IH snoc.prems(2,3) by (auto simp: nth_append)
    then show ?thesis using last False by (intro exI[of _ k]) (auto simp: nth_append)
  qed
qed simp

section \<open>The order between the sites\<close>

text \<open>The steps of the sites after their needs on later sites are gone, as \<open>site_edges\<close> has them.\<close>

lemma backward_same: "map ts_name (backward steps sites) = map ts_name steps" "map ts_group (backward steps sites) = map ts_group steps"
  by (auto simp: backward_def step_needing_def Let_def)

lemma same_fields: "map f xs = map f ys \<Longrightarrow> map g xs = map g ys \<Longrightarrow> x \<in> set xs \<Longrightarrow> \<exists>y \<in> set ys. f y = f x \<and> g y = g x"
  by (induction xs arbitrary: ys) auto

lemma in_needs_needs: "in_needs names completed (us @ b # vs) \<Longrightarrow> ts_needs b \<inter> names \<subseteq> completed \<union> names_of us"
  by (simp add: in_needs_append)

definition on_time :: "string set \<Rightarrow> tick_step list \<Rightarrow> string \<Rightarrow> tick_step list" where
  "on_time late steps site = filter (\<lambda>step. ts_group step = site \<and> ts_name step \<notin> late) steps"

definition barriers :: "string set \<Rightarrow> tick_step list \<Rightarrow> string list \<Rightarrow> (string, string) dict \<Rightarrow> (string, tick_step list) dict" where
  "barriers late found sites joins = site_barriers (on_time late found) joins sites [] [] []"

definition edged_step :: "(string, tick_step list) dict \<Rightarrow> tick_step \<Rightarrow> tick_step" where
  "edged_step barrier step = step_needing (ts_needs step \<union> names_of (held_for barrier (ts_group step))) step"

lemma edged_step_simps [simp]: "ts_name (edged_step barrier step) = ts_name step" "ts_group (edged_step barrier step) = ts_group step"
  "ts_needs (edged_step barrier step) = ts_needs step \<union> names_of (held_for barrier (ts_group step))"
  by (simp_all add: edged_step_def step_needing_def)

lemma site_edges_shape:
  assumes "site_edges steps sites joins = Inr edged"
  obtains late where "late_steps (backward steps sites) = Inr late"
    "edged = map (edged_step (barriers late (backward steps sites) sites joins)) (backward steps sites)"
proof -
  obtain late where late: "late_steps (backward steps sites) = Inr late"
    using assms by (auto simp: site_edges_def and_then_def Let_def split: sum.splits)
  have "step_needing (ts_needs step \<union> {}) step = step" for step by (simp add: step_needing_def)
  then have "edged = map (edged_step (barriers late (backward steps sites) sites joins)) (backward steps sites)"
    using assms late by (auto simp: site_edges_def and_then_def Let_def edged_step_def held_for_def barriers_def on_time_def[abs_def] cong: map_cong)
  then show ?thesis using late that by blast
qed

text \<open>A barrier is made of steps of earlier sites, and every step of a site that is no barrier for others only is among them.\<close>

lemma barrier_names:
  assumes "distinct sites" "j < length sites"
  shows "set (previous_after (on_time late found) joins (take j sites) []) \<subseteq> set (held_for (barriers late found sites joins) (sites ! j))"
    "i < j \<Longrightarrow> dget joins (sites ! i) = Some (sites ! j) \<Longrightarrow> set (on_time late found (sites ! i)) \<subseteq> set (held_for (barriers late found sites joins) (sites ! j))"
proof -
  have split: "sites = take j sites @ sites ! j # drop (Suc j) sites" using assms(2) by (rule id_take_nth_drop)
  then have "distinct (take j sites @ sites ! j # drop (Suc j) sites)" using assms(1) by simp
  from site_barrier_holds[OF this, of "on_time late found" joins "[]" "[]" "[]", folded split]
  obtain B where B: "dget (barriers late found sites joins) (sites ! j) = Some B"
    "set (previous_after (on_time late found) joins (take j sites) []) \<subseteq> set B"
    "\<forall>s \<in> set (take j sites). dget joins s = Some (sites ! j) \<longrightarrow> set (on_time late found s) \<subseteq> set B"
    by (auto simp: barriers_def)
  then show "set (previous_after (on_time late found) joins (take j sites) []) \<subseteq> set (held_for (barriers late found sites joins) (sites ! j))"
    by (simp add: held_for_def)
  show "set (on_time late found (sites ! i)) \<subseteq> set (held_for (barriers late found sites joins) (sites ! j))"
    if "i < j" "dget joins (sites ! i) = Some (sites ! j)"
    using B that assms(2) in_set_conv_nth[of "sites ! i" "take j sites"] by (auto simp: held_for_def)
qed

text \<open>
  The sites of a pass run in turn: in every order of the steps \<open>site_edges\<close> gives that respects their needs, a step
  of a site comes after each step of an earlier site, but the slow ones and those that need a slow one, and after those of
  a site that joins later only if that is its own.
\<close>

theorem sites_in_turn:
  assumes "site_edges steps sites joins = Inr edged" "late_steps (backward steps sites) = Inr late"
    and "distinct sites" "distinct (map ts_name steps)" "mset xs = mset edged" "needs_first xs"
    and "a \<in> set steps" "ts_name a \<notin> late" "ts_group a = sites ! i" "dget joins (sites ! i) \<in> {None, Some (sites ! j)}"
    and "xs = us @ b # vs" "ts_group b = sites ! j" "i < j" "j < length sites"
  shows "ts_name a \<in> names_of us"
  using assms(10-)
proof (induction j arbitrary: us b vs rule: less_induct)
  case (less j)
  define found where "found = backward steps sites"
  define barrier where "barrier = barriers late found sites joins"
  have edged: "edged = map (edged_step barrier) found"
    using assms(1,2) by (elim site_edges_shape) (simp add: found_def barrier_def)
  have named: "map ts_name found = map ts_name steps" "map ts_group found = map ts_group steps"
    by (simp_all add: found_def backward_same)
  have names: "names_of xs = names_of found" using names_of_mset[OF assms(5)] by (simp add: edged names_of_def image_image)
  obtain a' where a': "a' \<in> set found" "ts_name a' = ts_name a" "ts_group a' = ts_group a"
    using same_fields[OF named[symmetric] assms(7)] by blast
  then have member: "a' \<in> set (on_time late found (sites ! i))" using assms(8,9) by (simp add: on_time_def)
  have before: "ts_name c \<in> names_of us'" if "xs = us' @ b' # vs'" "ts_group b' = sites ! k" "c \<in> set (held_for barrier (sites ! k))" "c \<in> set found" for us' b' vs' k c
  proof -
    have "b' \<in> set edged" using that(1) mset_eq_setD[OF assms(5)] by auto
    then have "ts_name c \<in> ts_needs b'" using that(2,3) by (auto simp: edged names_of_def)
    moreover have "ts_name c \<in> names_of xs" using that(4) unfolding names by (simp add: names_of_def)
    ultimately show ?thesis using in_needs_needs assms(6) that(1) unfolding needs_first_def by blast
  qed
  show ?case
  proof (cases "dget joins (sites ! i)")
    case (Some site)
    then have "a' \<in> set (held_for barrier (sites ! j))"
      using less.prems barrier_names(2)[OF assms(3) less.prems(5) less.prems(4), of joins late found] member by (auto simp: barrier_def)
    then show ?thesis using before[OF less.prems(2,3)] a' by metis
  next
    case None
    have take: "i < length (take j sites)" "take j sites ! i = sites ! i" using less.prems(4,5) by simp_all
    have "on_time late found (sites ! i) \<noteq> []" using member by auto
    then obtain k where k: "i \<le> k" "k < j" "dget joins (sites ! k) = None" "on_time late found (sites ! k) \<noteq> []"
      "previous_after (on_time late found) joins (take j sites) [] = on_time late found (sites ! k)"
      using previous_after_from[of i "take j sites" joins "on_time late found" "[]"] take None by auto
    have held: "set (on_time late found (sites ! k)) \<subseteq> set (held_for barrier (sites ! j))"
      using barrier_names(1)[OF assms(3) less.prems(5), of late found joins] k(5) by (simp add: barrier_def)
    show ?thesis
    proof (cases "k = i")
      case True
      then show ?thesis using before[OF less.prems(2,3)] held member a' by (metis subsetD)
    next
      case False
      obtain c where "c \<in> set (on_time late found (sites ! k))" using hd_in_set[OF k(4)] by blast
      then have c: "c \<in> set found" "c \<in> set (on_time late found (sites ! k))" "ts_group c = sites ! k" by (simp_all add: on_time_def)
      then have "ts_name c \<in> names_of us" using before[OF less.prems(2,3)] held by blast
      then obtain c' where c': "c' \<in> set us" "ts_name c' = ts_name c" by (auto simp: names_of_def)
      then have "c' \<in> set edged" using less.prems(2) mset_eq_setD[OF assms(5)] by auto
      then obtain c'' where c'': "c'' \<in> set found" "c' = edged_step barrier c''" by (auto simp: edged)
      moreover have "inj_on ts_name (set found)" using assms(4) distinct_map[of ts_name found] unfolding named(1) by blast
      ultimately have "c'' = c" using c' c(1) by (auto dest: inj_onD)
      then have "ts_group c' = sites ! k" using c'' c(3) by simp
      moreover obtain us1 us2 where "us = us1 @ c' # us2" using c'(1) by (meson split_list)
      ultimately have "ts_name a \<in> names_of us1"
        using less.IH[of k us1 c' "us2 @ b # vs"] k False None less.prems by auto
      then show ?thesis using \<open>us = us1 @ c' # us2\<close> by simp
    qed
  qed
qed

section \<open>The graph of a pass\<close>

lemma site_barrier_back:
  assumes "distinct (pre @ site # post)"
    "dget (site_barriers members joins (pre @ site # post) barrier held previous) site = Some B"
  shows "set B \<subseteq> set previous \<union> set (held_for held site) \<union> (\<Union>s \<in> set pre. set (members s))"
  using assms
proof (induction pre arbitrary: barrier held previous)
  case Nil
  then show ?case by (auto simp: Let_def site_barriers_kept dget_dset held_for_def split: option.splits)
next
  case (Cons s pre)
  have other: "s \<noteq> site" "distinct (pre @ site # post)" using Cons.prems by auto
  show ?case
  proof (cases "dget joins s")
    case None
    then have "dget (site_barriers members joins (pre @ site # post) (dset s (previous @ held_for held s) barrier) (dpop s held)
        (if members s \<noteq> [] then members s else previous)) site = Some B"
      using Cons.prems(2) by (simp add: Let_def held_for_def)
    from Cons.IH[OF other(2) this] show ?thesis using other(1) by (auto simp: held_for_def dget_dpop split: if_splits)
  next
    case (Some later)
    then have "dget (site_barriers members joins (pre @ site # post) (dset s (previous @ held_for held s) barrier)
        (dset later (held_for (dpop s held) later @ members s) (dpop s held)) previous) site = Some B"
      using Cons.prems(2) by (simp add: Let_def held_for_def)
    from Cons.IH[OF other(2) this] show ?thesis using other(1)
      by (auto simp: held_for_def dget_dset dget_dpop split: if_splits option.splits)
  qed
qed

lemma site_barrier_at: "distinct (pre @ site # post) \<Longrightarrow> \<exists>B. dget (site_barriers members joins (pre @ site # post) barrier held previous) site = Some B"
  using site_barrier_holds by blast

lemma barriers_back:
  assumes "distinct sites" "j < length sites" "c \<in> set (held_for (barriers late found sites joins) (sites ! j))"
  shows "\<exists>i < j. c \<in> set found \<and> ts_group c = sites ! i"
proof -
  have split: "sites = take j sites @ sites ! j # drop (Suc j) sites" using assms(2) by (rule id_take_nth_drop)
  then have dist: "distinct (take j sites @ sites ! j # drop (Suc j) sites)" using assms(1) by simp
  obtain B where B: "dget (barriers late found sites joins) (sites ! j) = Some B"
    using site_barrier_at[OF dist, folded split] unfolding barriers_def by blast
  have "set B \<subseteq> (\<Union>s \<in> set (take j sites). set (on_time late found s))"
    using site_barrier_back[OF dist, of "on_time late found" joins "[]" "[]" "[]" B, folded split] B by (simp add: barriers_def held_for_def)
  then obtain s where "s \<in> set (take j sites)" "c \<in> set (on_time late found s)" using assms(3) B by (auto simp: held_for_def)
  then show ?thesis using assms(2) by (auto simp: in_set_conv_nth on_time_def)
qed

lemma last_index_at: "distinct sites \<Longrightarrow> k < length sites \<Longrightarrow> last_index (sites ! k) sites = Some (int k)"
proof (induction sites arbitrary: k)
  case (Cons s sites)
  show ?case
  proof (cases k)
    case 0
    have "last_index x xs = None" if "x \<notin> set xs" for x :: 'a and xs using that by (induction xs) auto
    then show ?thesis using 0 Cons.prems by simp
  next
    case (Suc n)
    then show ?thesis using Cons by auto
  qed
qed simp

lemma site_at_get:
  assumes "distinct (map ts_name steps)" "step \<in> set steps"
  shows "dget (site_at steps sites) (ts_name step) = last_index (ts_group step) sites"
proof -
  have get: "dget (foldl (\<lambda>spots step. case last_index (ts_group step) sites of None \<Rightarrow> spots | Some n \<Rightarrow> dset (ts_name step) n spots) d xs) name =
      (case find (\<lambda>step. ts_name step = name \<and> last_index (ts_group step) sites \<noteq> None) (rev xs) of
         None \<Rightarrow> dget d name | Some step \<Rightarrow> last_index (ts_group step) sites)" for d xs name
    by (induction xs rule: rev_induct) (auto simp: dget_dset split: option.splits)
  have only: "find (\<lambda>s. ts_name s = ts_name step \<and> P s) xs = (if P step then Some step else None)"
    if "distinct (map ts_name xs)" "step \<in> set xs" for P xs
  proof (cases "find (\<lambda>s. ts_name s = ts_name step \<and> P s) xs")
    case None
    then show ?thesis using that(2) by (auto simp: find_None_iff)
  next
    case (Some s)
    then have "s \<in> set xs" "ts_name s = ts_name step" "P s" using find_Some_in by fast+
    moreover have "s = step" using calculation that by (auto simp: distinct_map dest: inj_onD)
    ultimately show ?thesis using Some by simp
  qed
  have "distinct (map ts_name (rev steps))" "step \<in> set (rev steps)" using assms by (simp_all add: rev_map[symmetric])
  from only[OF this, of "\<lambda>s. last_index (ts_group s) sites \<noteq> None"] show ?thesis
    unfolding site_at_def get by (auto split: option.splits)
qed

lemma backward_needs:
  assumes "distinct sites" "distinct (map ts_name steps)" "b \<in> set (backward steps sites)" "ts_group b = sites ! j" "j < length sites"
    "c \<in> set steps" "ts_name c \<in> ts_needs b" "ts_group c = sites ! k" "k < length sites"
  shows "k \<le> j"
proof -
  obtain step where step: "step \<in> set steps" "ts_name b = ts_name step" "ts_group b = ts_group step"
    "ts_name c \<notin> {need \<in> ts_needs step. case dget (site_at steps sites) (ts_name step) of None \<Rightarrow> False
                | Some here \<Rightarrow> (case dget (site_at steps sites) need of None \<Rightarrow> - 1 | Some n \<Rightarrow> n) > here}" "ts_name c \<in> ts_needs step"
    using assms(3,7) by (auto simp: backward_def Let_def step_needing_def split: if_splits)
  have "dget (site_at steps sites) (ts_name step) = Some (int j)" "dget (site_at steps sites) (ts_name c) = Some (int k)"
    using site_at_get[OF assms(2)] step(1,3) assms(1,4-6,8,9) last_index_at by metis+
  then show ?thesis using step(4,5) by simp
qed

lemma in_needs_sites:
  assumes "\<And>j. j < length sites \<Longrightarrow> in_needs names (completed \<union> names_of (concat (map f (take j sites)))) (f (sites ! j))"
  shows "in_needs names completed (concat (map f sites))"
  using assms
proof (induction sites arbitrary: completed)
  case (Cons site sites)
  have "in_needs names (completed \<union> names_of (f site)) (concat (map f sites))"
    using Cons.prems[of "Suc _"] by (intro Cons.IH) (simp add: Un_assoc)
  then show ?case using Cons.prems[of 0] by (simp add: in_needs_append)
qed simp

text \<open>The steps of one site, in an order of all steps, with needs that are more by names that are done.\<close>

lemma in_needs_filter:
  assumes "in_needs names before xs" "inj_on ts_name (set all)" "set xs \<subseteq> set all"
    and "\<And>b. b \<in> set xs \<Longrightarrow> P b \<Longrightarrow> ts_needs (e b) \<inter> names \<subseteq> completed \<union> (ts_needs b \<inter> names_of (filter P all))"
    and "before \<inter> names_of (filter P all) \<subseteq> completed" "\<And>b. ts_name (e b) = ts_name b"
  shows "in_needs names completed (map e (filter P xs))"
  using assms(1,3-5)
proof (induction xs arbitrary: before completed)
  case (Cons x xs)
  have rest: "in_needs names (insert (ts_name x) before) xs" "set xs \<subseteq> set all" using Cons.prems(1,2) by simp_all
  show ?case
  proof (cases "P x")
    case True
    have "ts_needs (e x) \<inter> names \<subseteq> completed" using Cons.prems(1) Cons.prems(3)[of x] Cons.prems(4) True by fastforce
    moreover have "in_needs names (insert (ts_name x) completed) (map e (filter P xs))"
    proof (rule Cons.IH[OF rest])
      show "ts_needs (e b) \<inter> names \<subseteq> insert (ts_name x) completed \<union> (ts_needs b \<inter> names_of (filter P all))" if "b \<in> set xs" "P b" for b
        using Cons.prems(3)[of b] that by auto
      show "insert (ts_name x) before \<inter> names_of (filter P all) \<subseteq> insert (ts_name x) completed" using Cons.prems(4) by blast
    qed
    ultimately show ?thesis using True assms(6) by simp
  next
    case False
    then have "ts_name x \<notin> names_of (filter P all)" using Cons.prems(2) assms(2) by (auto simp: names_of_def dest: inj_onD)
    then show ?thesis using False Cons.prems(3,4) by (simp, intro Cons.IH[OF rest]) auto
  qed
qed simp

lemma mset_groups:
  assumes "distinct sites"
  shows "mset (concat (map (\<lambda>site. filter (\<lambda>x. g x = site) xs) sites)) = mset (filter (\<lambda>x. g x \<in> set sites) xs)"
  using assms
proof (induction sites)
  case (Cons site sites)
  have "filter_mset (\<lambda>x. g x = site \<or> g x \<in> set sites) (mset xs) = filter_mset (\<lambda>x. g x = site) (mset xs) + filter_mset (\<lambda>x. g x \<in> set sites) (mset xs)"
    using Cons.prems by (subst multiset_partition[of "filter_mset (\<lambda>x. g x = site \<or> g x \<in> set sites) (mset xs)" "\<lambda>x. g x = site"])
      (auto simp: filter_filter_mset intro!: arg_cong2[of _ _ _ _ "(+)"] filter_mset_cong)
  then show ?case using Cons by simp
qed simp

text \<open>
  The graph of a pass has no cycle: when the steps of all sites, free of needs on later sites, have an order, they still
  have one with the barriers, whatever sites join later ones.
\<close>

theorem site_graph_runs:
  assumes "site_edges steps sites joins = Inr edged" "distinct sites" "distinct (map ts_name steps)" "ts_group ` set steps \<subseteq> set sites"
  shows "\<exists>xs. ordered edged = Inr xs \<and> mset xs = mset edged \<and> needs_first xs"
proof -
  define found where "found = backward steps sites"
  obtain late where late: "late_steps found = Inr late" and shape: "edged = map (edged_step (barriers late found sites joins)) found"
    using assms(1) by (elim site_edges_shape) (simp add: found_def)
  define e where "e = edged_step (barriers late found sites joins)"
  have named: "map ts_name found = map ts_name steps" "map ts_group found = map ts_group steps" by (simp_all add: found_def backward_same)
  have dist: "distinct (map ts_name found)" using named assms(3) by simp
  then have inj: "inj_on ts_name (set found)" by (simp add: distinct_map)
  have groups: "ts_group ` set found \<subseteq> set sites" using arg_cong[OF named(2), of set] assms(4) by simp
  have names: "names_of edged = names_of found" by (simp add: shape names_of_def image_image)
  obtain placed where placed: "ordered found = Inr placed" using late by (auto simp: late_steps_def and_then_def split: sum.splits)
  then have order: "mset placed = mset found" "in_needs (names_of found) {} placed"
    using ordered_iff_order[OF dist] names_of_mset[of placed found] by (auto simp: needs_first_def)
  have same: "set placed = set found" using order(1) by (rule mset_eq_setD)
  define site_steps where "site_steps site = map e (filter (\<lambda>step. ts_group step = site) placed)" for site
  define ys where "ys = concat (map site_steps sites)"
  have "ys = map e (concat (map (\<lambda>site. filter (\<lambda>step. ts_group step = site) placed) sites))"
    by (simp add: ys_def site_steps_def[abs_def] map_concat comp_def)
  moreover have "filter (\<lambda>step. ts_group step \<in> set sites) placed = placed" using groups same by (intro filter_True) auto
  ultimately have perm: "mset ys = mset edged" using mset_groups[OF assms(2), of ts_group placed] order(1) by (simp add: shape e_def)
  have "in_needs (names_of found) ({} \<union> names_of (concat (map site_steps (take j sites)))) (site_steps (sites ! j))" if j: "j < length sites" for j
    unfolding site_steps_def[of "sites ! j"]
  proof (rule in_needs_filter[where all = found])
    have earlier: "ts_name c \<in> names_of (concat (map site_steps (take j sites)))" if "c \<in> set found" "ts_group c = sites ! k" "k < j" for c k
    proof -
      have "sites ! k \<in> set (take j sites)" using that(3) j by (auto simp: in_set_conv_nth)
      moreover have "ts_name c \<in> names_of (site_steps (sites ! k))" using that(1,2) same by (auto simp: site_steps_def names_of_def e_def image_image)
      ultimately show ?thesis by (auto simp: names_of_def)
    qed
    fix b assume b: "b \<in> set placed" "ts_group b = sites ! j"
    show "ts_needs (e b) \<inter> names_of found \<subseteq> ({} \<union> names_of (concat (map site_steps (take j sites)))) \<union>
        (ts_needs b \<inter> names_of (filter (\<lambda>step. ts_group step = sites ! j) found))"
    proof
      fix n assume n: "n \<in> ts_needs (e b) \<inter> names_of found"
      then obtain c where c: "c \<in> set found" "n = ts_name c" by (auto simp: names_of_def)
      consider "n \<in> ts_needs b" | c' where "c' \<in> set (held_for (barriers late found sites joins) (sites ! j))" "n = ts_name c'"
        using n b(2) by (auto simp: e_def names_of_def)
      then show "n \<in> ({} \<union> names_of (concat (map site_steps (take j sites)))) \<union> (ts_needs b \<inter> names_of (filter (\<lambda>step. ts_group step = sites ! j) found))"
      proof cases
        case 1
        obtain k where k: "k < length sites" "ts_group c = sites ! k" using c(1) groups by (metis image_subset_iff in_set_conv_nth)
        obtain step where step: "step \<in> set steps" "ts_name step = ts_name c" "ts_group step = ts_group c"
          using c(1) same_fields[OF named] by blast
        have "k \<le> j" using backward_needs[OF assms(2,3) _ b(2) j step(1) _ _ k(1)] b(1) same step(2,3) k(2) c(2) 1 by (simp add: found_def)
        then show ?thesis using earlier[OF c(1) k(2)] c 1 k(2) by (cases "k = j") (auto simp: names_of_def)
      next
        case 2
        then obtain i where "i < j" "c' \<in> set found" "ts_group c' = sites ! i" using barriers_back[OF assms(2) j 2(1)] by blast
        then show ?thesis using earlier 2(2) by blast
      qed
    qed
  qed (use order(2) inj same in \<open>auto simp: e_def\<close>)
  then have "in_needs (names_of found) {} ys" unfolding ys_def by (rule in_needs_sites)
  then have "needs_first ys" using names_of_mset[OF perm] names by (simp add: needs_first_def)
  moreover have "distinct (map ts_name edged)" using dist by (simp add: shape comp_def)
  ultimately show ?thesis using ordered_iff_order[of edged] perm by (cases "ordered edged") auto
qed

section \<open>A pass of two sites\<close>

definition tk_edged :: "tick_step list" where
  "tk_edged = (case site_edges [tk_plan, tk_mail, tk_read] [''observe'', ''decide''] [] of Inr steps \<Rightarrow> steps | Inl _ \<Rightarrow> [])"

lemma tk_edges: "site_edges [tk_plan, tk_mail, tk_read] [''observe'', ''decide''] [] = Inr tk_edged"
  "late_steps (backward [tk_plan, tk_mail, tk_read] [''observe'', ''decide'']) = Inr {}"
  by code_simp+

lemma sites_in_turn_witness:
  "\<forall>us vs. [tk_edged ! 2, tk_edged ! 0, tk_edged ! 1] = us @ tk_edged ! 1 # vs \<longrightarrow> ts_name tk_read \<in> names_of us"
proof (intro allI impI)
  fix us vs assume split: "[tk_edged ! 2, tk_edged ! 0, tk_edged ! 1] = us @ tk_edged ! 1 # vs"
  have "length tk_edged = 3" by code_simp
  then have whole: "tk_edged = [tk_edged ! 0, tk_edged ! 1, tk_edged ! 2]" by (simp add: list_eq_iff_nth_eq nth_Cons' less_Suc_eq eval_nat_numeral)
  have perm: "mset [tk_edged ! 2, tk_edged ! 0, tk_edged ! 1] = mset tk_edged" by (subst whole) (simp add: add_mset_commute)
  have "needs_first [tk_edged ! 2, tk_edged ! 0, tk_edged ! 1]" by code_simp
  moreover have "ts_group tk_read = [''observe'', ''decide''] ! 0" "ts_group (tk_edged ! 1) = [''observe'', ''decide''] ! 1" by code_simp+
  ultimately show "ts_name tk_read \<in> names_of us"
    using sites_in_turn[OF tk_edges _ tk_distinct perm, of tk_read 0 1 us "tk_edged ! 1" vs] split by simp
qed

lemma site_graph_runs_witness: "\<exists>xs. ordered tk_edged = Inr xs"
proof -
  have "ts_group ` set [tk_plan, tk_mail, tk_read] \<subseteq> set [''observe'', ''decide'']" by code_simp
  from site_graph_runs[OF tk_edges(1) _ tk_distinct this] show ?thesis by auto
qed

end
