(* ===== verification/Spec2Isabelle.thy ===== *)
theory Spec2Isabelle
  imports Prelude Store_Laws Archive_Laws Lease_Laws Registry_Laws Fencing_Witness Authority_Witness
    Operations_Laws Runtime_Router Launch_Grants_Laws
    Hub_Lease Scheduler Event_Bus_Laws Naming
    Fleet_Registry Account_Capacity Routing Fleet_Quota Slot_Holders Autoscale Outcomes Fenced_Records_Laws Broadcasts_Laws Hive_Registry Hive_Placement Merge_Queue Inbox_Passes Hive_Orders Tick_Sites
begin

text \<open>
  A model of the coordination core of agentihooks. The program runs swarms of coding agents:
  controllers start and replace agents, agents claim tasks, hives on many hosts share provider
  accounts, and all of them agree through shared documents that are only ever changed by compare
  and set. This development models the parts that decide who may do what: the documents, the leases
  and fences on them, the registries and journals kept in them, the capacity and quota arithmetic,
  the scheduler and the event bus. All paths below are under \<open>src/scripts\<close>.

  \<^bold>\<open>The shared store and its clients.\<close>
  \<^item> \<open>Prelude\<close>: dictionaries in insertion order (association lists), JSON values, the exceptions of
    the code as the datatype \<open>fault\<close>, and \<open>cas_loop\<close>, the compare and set loop of every store client.
  \<^item> \<open>State_Store\<close>, \<open>Store_Laws\<close>: \<open>MemoryStateStore\<close> of \<open>events/memory.py\<close> with its revisions and watch. The
    locale \<open>cas_store\<close> states what a client relies on (a commit succeeds only on the value read, the
    invariant survives every writer) and proves the loop atomic; \<open>cas_store_live\<close> extends it with progress
    of an undisturbed attempt. \<open>mem\<close>, \<open>doc\<close> and \<open>fdoc\<close> interpret them on the store, on documents with a
    clock and on the fencing document.
  \<^item> \<open>Watch_Loop\<close>: the optimistic Redis transaction (watch, decide, execute or start over), with the locale
    \<open>watched_client\<close>, interpreted in \<open>Fleet_Registry\<close> (\<open>registering\<close>, \<open>updating\<close>), \<open>Fleet_Quota\<close>
    (\<open>publishing\<close>, \<open>waiting\<close>), \<open>Broadcasts\<close>, \<open>Seats\<close> and \<open>Inbox_Steps\<close>.

  \<^bold>\<open>The swarm's fencing document.\<close>
  \<^item> \<open>Records\<close>, \<open>Fencing\<close>, \<open>Fencing_Laws\<close>, \<open>Archive_Laws\<close>: \<open>swarm/fencing.py\<close>. The document is the record \<open>fdoc\<close>,
    \<open>fencing_write\<close> the one way to change it, and the archive lives in content addressed chunks beside it.
    The laws give atomicity (a write commits what its change made of the document then stored), progress, the round
    trip of the archive and the termination of the walk. Restoring a snapshot (\<open>fencing_replace\<close>) is modelled, and left out
    of the runs the laws of leases, claims and executions speak of, since it sets the document back.
  \<^item> \<open>Ctl_Lease\<close>, \<open>Lease_Laws\<close>: \<open>swarm/lease.py\<close>. Epochs have one owner, only grow, and an older epoch is shut out.
  \<^item> \<open>Execution\<close>, \<open>Execution_Laws\<close>, \<open>Registry_Laws\<close>: \<open>swarm/execution.py\<close>, and \<open>Naming\<close>: \<open>swarm/naming.py\<close> with
    \<open>inbox/seats.py\<close>. \<open>registry_inv\<close> is the invariant of the registry in the document layout; every change keeps it.
  \<^item> \<open>Fenced_Records\<close>, \<open>Fenced_Records_Laws\<close>: the layout of the same document as single records
    (\<open>_write_records\<close>, \<open>tick/ports/records.py\<close>, \<open>tick/adapters/records_redis.py\<close>). An admitted batch has the
    effect of its change on the records at that moment, unless a scanned section gained a record
    or, under a fence, it answers otherwise for the lease found at the commit, which the batch does not compare with the one read.
    \<open>scan_misses_new_row\<close> shows that the condition on scanned sections is needed.
  \<^item> \<open>Authority\<close>, \<open>Authority_Laws\<close>: \<open>swarm_v2/authority.py\<close> and the gate of \<open>swarm_v2/controller.py\<close>: task claims,
    their journal, its replay, and the fence of renewals.
  \<^item> \<open>Operations\<close>, \<open>Operations_Laws\<close>, \<open>Runtime_Router\<close>: \<open>swarm_v2/runtime\<close>: the journal of runtime operations, the
    dispatch to a transport with the calls it makes, and the router in front of the runtimes.
  \<^item> \<open>Launch_Grants\<close>, \<open>Launch_Grants_Laws\<close>: \<open>swarm_v2/auth_context.py\<close>.
  \<^item> \<open>Outcomes\<close>: \<open>swarm_v2/outcomes.py\<close>: what a task's result may still change, and the merge queue reservation.
  \<^item> \<open>Fencing_Witness\<close>, \<open>Authority_Witness\<close>: the properties of these parts at concrete documents.

  \<^bold>\<open>The fleet.\<close>
  \<^item> \<open>Fleet_Registry\<close>: \<open>swarm_v2/registry.py\<close>; \<open>Account_Capacity\<close>: \<open>swarm_v2/accounts.py\<close>; \<open>Fleet_Quota\<close>:
    \<open>swarm_v2/quota.py\<close>; \<open>Slot_Holders\<close>: \<open>hive/account_slots.py\<close>; \<open>Routing\<close>: \<open>session_bands.py\<close> and \<open>routing\<close>;
    \<open>Autoscale\<close>: \<open>swarm/autoscale.py\<close>.
  \<^item> \<open>Broadcasts\<close>, \<open>Broadcasts_Laws\<close>: \<open>swarm_v2/broadcasts.py\<close>: publishing, claiming and acknowledging notices to the
    fleet on the watched store; \<open>bc_publishing\<close>, \<open>bc_claiming\<close> and \<open>bc_acking\<close> interpret \<open>watched_client\<close>. The laws follow
    the receipts of a seat along the steps of all clients.
  \<^item> \<open>Hive_Registry\<close>: \<open>hive/registry.py\<close> and \<open>hive/hive_state.py\<close>: the record of a hive, its settings, beats and drains.
    \<open>Hive_Placement\<close>: \<open>hive/placement.py\<close>: the choice of a hive, compared with a reference that tests each hive by itself.
  \<^item> \<open>Hive_Orders\<close>: \<open>hive/orders.py\<close>: launch orders and commands to the daemon of a hive, their receipts and
    answers. One application reads its surroundings from \<open>order_env\<close> and lets others act between its steps;
    \<open>order_step\<close> is one atomic action of any process, and every run of the daemon is made of such actions;
    \<open>order_poll\<close> is a pass of the daemon over the first entries of its stream.

  \<^bold>\<open>The tick of a controller.\<close>
  \<^item> \<open>Tick_Registry\<close>: \<open>tick/registry.py\<close>: the checks, waves, order and site barriers of the steps. \<open>Tick_Laws\<close>: an order is
    found exactly when there is one, and once the steps validate the order makes no difference. \<open>Tick_Sites\<close>: the
    sites of a pass run in turn, and the barriers leave a graph that can run.

  \<^bold>\<open>The provider's merge queue.\<close>
  \<^item> \<open>Merge_Queue\<close>: \<open>swarm/merge_queue.py\<close> and the displaced pull requests of \<open>swarm/queue_priority.py\<close>. The
    provider is a record of functions, the calls made to it a list in the world, and the laws say which calls a
    run made and what the record of displaced pull requests holds when it ends, however the calls were answered.
  \<^item> \<open>Text_Tools\<close>: splitting, joining, stripping and prefixes of strings as the sources use them.

  \<^bold>\<open>The agents' inbox.\<close>
  \<^item> \<open>Seats\<close>: \<open>inbox/seats.py\<close>: the seats of a swarm, their generations, exits and learned notes; \<open>occupying\<close>
    interprets \<open>watched_client\<close> on taking a seat.
  \<^item> \<open>Inbox\<close>: \<open>inbox/store.py\<close> and \<open>inbox/pool.py\<close>: messages, their histories and indexes, one function per
    transaction (\<open>_seen\<close> what it watches, \<open>_decide\<close> what it decides, the writes beside it), the passes and replies
    built from them, three attempts each as in the code; and the moves that receipts (\<open>inbox/receipts.py\<close>) and reservations
    (\<open>inbox/dispatch.py\<close>) of deliveries commit.
  \<^item> \<open>Inbox_Laws\<close>: what all keys say of one message (its slice), and the invariant \<open>mail_ok\<close> that each write keeps.
    \<open>Inbox_Steps\<close>: \<open>mail_step\<close>, one transaction of any process on messages that stay in one world, the invariant along every run, and the
    interpretations \<open>moving\<close>, \<open>redirecting\<close>, \<open>requeueing\<close>, \<open>reopening\<close>, \<open>returning\<close> and \<open>claiming\<close>.
  \<^item> \<open>Inbox_Promises\<close>: indexes that tell the truth, histories that follow the state machine, closed messages that stay
    closed, deliveries that were due, and the key error of a redirect after a note. \<open>Inbox_Passes\<close>: the passes run
    undisturbed: a pool handed round its masters, overdue deliveries returned, pending mail found.

  \<^bold>\<open>Time and messages.\<close>
  \<^item> \<open>Scheduler\<close>: \<open>scheduler\<close>; \<open>Hub_Lease\<close>: \<open>hub/lease.py\<close>; \<open>Event_Bus\<close>, \<open>Event_Bus_Laws\<close>: \<open>events\<close>.

  \<^bold>\<open>How code becomes definitions.\<close> A class with state is a record, an exception is the left side of a sum, a
  Python dict an association list updated with \<open>dset\<close>, a Python integer an \<open>int\<close>. Floats of quota readings
  are rationals. A method that changes a document is the function the code hands to the store, from a
  document and the world to a result and a document. Clocks are arguments: an integer where the code reads
  the clock once, a function from the number of the reading where it reads it again.

  \<^bold>\<open>Concurrency, fuel and termination.\<close> What other processes do between the read and the commit of an attempt
  is an argument, one function per attempt (\<open>others\<close>, \<open>envs\<close>); their number is the number of attempts the
  code makes, so nothing is lost by the bound. A loop without a bound in the code (the Redis clients) is
  given any finite list, and the progress lemmas say that an undisturbed attempt in it returns. The walk
  along archive chunks has fuel; \<open>archive_rows_returns\<close> shows the number of chunks is enough on every
  bucket the writes of fencing documents make from an empty one. \<open>raise_ceilings\<close> terminates by a measure, and
  \<open>raise_settles\<close> shows that 25 passes with unchanged inputs that come after the settling time of the first raise
  are enough: a pass adds two seats and a swarm has fifty at most.

  \<^bold>\<open>Parameters.\<close> Digests, HMAC, base64, UUIDs, the crontab arithmetic, the transports and runtimes, the provider's
  answers, process tables, and what other hosts published are arguments of the definitions that use
  them, with named hypotheses where a property relies on them.

  \<^bold>\<open>Not modelled.\<close> The Redis and NATS backends behind the ports, the command lines, the ledger
  server and its user interface, the hooks that run inside an agent's process, installers, the
  Kubernetes and herdr runtimes, the CI tools, and the projections that only publish what the documents say. They
  are input and output around the decisions above, or text processing without a state of
  their own. Within the modelled parts the manifest names what is left out of each.

  Of the inbox, the delivery into terminals, the leases and reservations of deliveries and the settling of mail of agents that are gone are left out (they
  read panes, rosters and the ledger and end in the operations modelled here), and so are the worlds of hive members:
  one world is modelled, in which every message stays. The launch slots of \<open>routing/reservation.py\<close> are a Lua script,
  the engine that runs the steps of a tick starts threads, its steps call hosts and the provider at every turn, and the
  promotion path above the merge queue reads pull requests and pipelines. The keys of the hive orders expire; the model
  keeps them, except the marks of living processes, which others may drop.
\<close>

end
